(* ===== verification/Prelude.thy ===== *)
theory Prelude
  imports Complex_Main "HOL-Library.Multiset" "HOL-Library.AList"
begin

text \<open>
  Vocabulary shared by every component of the model: Python exceptions as values, the
  result monad that propagates them, Python's indexing and division, dictionaries as
  association lists in insertion order, and the lemma collections the component
  theories extend.

  \<^item> A raising operation returns \<open>py_error + 'a\<close>: \<open>Inl\<close> is the exception, \<open>Inr\<close> the
    value. The text of a message is not modelled.
  \<^item> A dictionary is an association list with distinct keys; \<open>AList.update\<close> replaces
    in place or appends, which is Python's insertion order; \<open>AList.delete\<close> is
    \<open>dict.pop\<close>.
  \<^item> Python integers are \<open>int\<close>; a quantity that the code can only make non-negative (a
    length, a counter that is only incremented) is \<open>nat\<close>.
  \<^item> Python floats are \<open>real\<close>: rounding is not modelled.
\<close>

named_theorems raise_simps \<open>rewriting of exceptions through the result monad\<close>
named_theorems dict_simps \<open>lookups after dictionary updates\<close>
named_theorems inv_intros \<open>preservation of component invariants\<close>

subsection \<open>Exceptions and the result monad\<close>

datatype py_error =
    ValueError | IndexError | KeyError | TypeError | RuntimeError
  | ZeroDivisionError | AssertionError | EngineClosedError | TimeoutError | CancelledError

type_synonym 'a result = "py_error + 'a"

definition rbind :: "'x + 'a \<Rightarrow> ('a \<Rightarrow> 'x + 'b) \<Rightarrow> 'x + 'b" where
  "rbind r k = (case r of Inl err \<Rightarrow> Inl err | Inr val \<Rightarrow> k val)"

lemma rbind_simps [simp, raise_simps, code]:
  "rbind (Inl e) f = Inl e"
  "rbind (Inr x) f = f x"
  by (simp_all add: rbind_def)

lemma rbind_eq_Inr [raise_simps]:
  "rbind r f = Inr y \<longleftrightarrow> (\<exists>x. r = Inr x \<and> f x = Inr y)"
  by (cases r) auto

lemma rbind_eq_Inl [raise_simps]:
  "rbind r f = Inl e \<longleftrightarrow> r = Inl e \<or> (\<exists>x. r = Inr x \<and> f x = Inl e)"
  by (cases r) auto

lemma rbind_cong [fundef_cong]:
  "r = s \<Longrightarrow> (\<And>x. s = Inr x \<Longrightarrow> f x = g x) \<Longrightarrow> rbind r f = rbind s g"
  by (cases s) auto

text \<open>A \<open>for\<close> loop whose body may raise.\<close>

fun rfold :: "('a \<Rightarrow> 's \<Rightarrow> 'e + 's) \<Rightarrow> 'a list \<Rightarrow> 's \<Rightarrow> 'e + 's" where
  "rfold f [] s = Inr s"
| "rfold f (x # xs) s = rbind (f x s) (rfold f xs)"

lemma rfold_append [raise_simps]:
  "rfold f (xs @ ys) s = rbind (rfold f xs s) (rfold f ys)"
proof (induction xs arbitrary: s)
  case (Cons x xs)
  then show ?case by (cases "f x s") auto
qed simp

subsection \<open>Python sequences and integers\<close>

text \<open>\<open>xs[i]\<close>: a negative index counts from the end, anything else out of range raises.\<close>

definition py_index :: "'a list \<Rightarrow> int \<Rightarrow> 'a result" where
  "py_index xs i =
     (if i < - int (length xs) \<or> int (length xs) \<le> i then Inl IndexError
      else Inr (xs ! nat (if 0 \<le> i then i else int (length xs) + i)))"

lemma py_index_in_range:
  "0 \<le> i \<Longrightarrow> i < int (length xs) \<Longrightarrow> py_index xs i = Inr (xs ! nat i)"
  by (simp add: py_index_def)

definition py_floordiv :: "int \<Rightarrow> int \<Rightarrow> int result" where
  "py_floordiv num den = (if den \<noteq> 0 then Inr (num div den) else Inl ZeroDivisionError)"

text \<open>The idiom \<open>-(-a // b)\<close>, division rounded up.\<close>

definition ceil_div :: "int \<Rightarrow> int \<Rightarrow> int" where
  "ceil_div a b = - ((- a) div b)"

lemma ceil_div_bounds:
  assumes "0 < b"
  shows "a \<le> ceil_div a b * b" and "ceil_div a b * b < a + b"
proof -
  have q: "(- a) div b * b = - a - (- a) mod b"
    by (metis add_diff_cancel_right' div_mult_mod_eq)
  have r: "0 \<le> (- a) mod b" "(- a) mod b < b"
    using assms by simp_all
  have m: "ceil_div a b * b = a + (- a) mod b"
    unfolding ceil_div_def mult_minus_left q by simp
  show "a \<le> ceil_div a b * b" and "ceil_div a b * b < a + b"
    unfolding m using r by linarith+
qed

lemma ceil_div_pos: "0 < b \<Longrightarrow> 0 < a \<Longrightarrow> 0 < ceil_div a b"
  unfolding ceil_div_def by (simp add: div_neg_pos_less0)

lemma ceil_div_nonneg: "0 < b \<Longrightarrow> 0 \<le> a \<Longrightarrow> 0 \<le> ceil_div a b"
  using ceil_div_pos [of b a] by (cases "a = 0") (auto simp: ceil_div_def)

lemma ceil_div_unique:
  assumes "0 < b" "a \<le> k * b" "k * b < a + b"
  shows "ceil_div a b = k"
proof -
  have "ceil_div a b * b < (k + 1) * b" "k * b < (ceil_div a b + 1) * b"
    using ceil_div_bounds [OF assms(1), of a] assms by (simp_all add: distrib_right)
  then show ?thesis
    using assms(1) by simp
qed

lemma int_div_less:
  fixes i b n :: int
  assumes "0 < b" "i < n * b"
  shows "i div b < n"
proof (rule ccontr)
  assume "\<not> i div b < n"
  with assms(1) have "n * b \<le> i div b * b"
    by (simp add: mult_right_mono)
  also have "\<dots> = i - i mod b"
    by (metis add_diff_cancel_right' div_mult_mod_eq)
  also have "\<dots> \<le> i"
    using assms(1) by simp
  finally show False
    using assms(2) by simp
qed

subsection \<open>Dictionaries\<close>

abbreviation keys :: "('k \<times> 'v) list \<Rightarrow> 'k list" where
  "keys d \<equiv> map fst d"

lemma map_of_update [dict_simps]:
  "map_of (AList.update k v d) x = (if x = k then Some v else map_of d x)"
  by (simp add: update_conv')

lemma keys_update [dict_simps]:
  "keys (AList.update k v d) = (if k \<in> set (keys d) then keys d else keys d @ [k])"
  by (induction d) auto

lemma map_of_delete [dict_simps]:
  "map_of (AList.delete k d) x = (if x = k then None else map_of d x)"
  by (simp add: delete_conv')

lemma keys_delete [dict_simps]:
  "keys (AList.delete k d) = filter (\<lambda>x. x \<noteq> k) (keys d)"
  by (induction d) (auto simp: AList.delete_eq)

lemma update_fresh: "k \<notin> set (keys d) \<Longrightarrow> AList.update k v d = d @ [(k, v)]"
  by (induction d) auto

lemma lookup_split:
  assumes "map_of d k = Some v"
  obtains d1 d2 where "d = d1 @ (k, v) # d2" "k \<notin> set (keys d1)"
  using assms
proof (induction d arbitrary: thesis)
  case (Cons p d)
  show ?case
  proof (cases "fst p = k")
    case True
    with Cons.prems have "p # d = [] @ (k, v) # d"
      by (cases p) auto
    then show ?thesis
      by (rule Cons.prems(1)) simp
  next
    case False
    with Cons.prems(2) have "map_of d k = Some v"
      by (cases p) auto
    then obtain d1 d2 where "d = d1 @ (k, v) # d2" "k \<notin> set (keys d1)"
      using Cons.IH by blast
    with False show ?thesis
      using Cons.prems(1) [of "p # d1" d2] by simp
  qed
qed simp

lemma update_append_fresh:
  "k \<notin> set (keys d1) \<Longrightarrow> AList.update k v (d1 @ (k, w) # d2) = d1 @ (k, v) # d2"
  by (induction d1) auto

lemma delete_append_fresh:
  "k \<notin> set (keys d1) \<Longrightarrow> k \<notin> set (keys d2) \<Longrightarrow>
     AList.delete k (d1 @ (k, w) # d2) = d1 @ d2"
proof -
  have *: "AList.delete k d = d" if "k \<notin> set (keys d)" for d :: "('a \<times> 'b) list"
    using that by (induction d) (auto simp: AList.delete_eq)
  assume "k \<notin> set (keys d1)" "k \<notin> set (keys d2)"
  then show ?thesis
    by (simp add: AList.delete_eq * [unfolded AList.delete_eq])
qed

lemma sum_list_map_zero:
  fixes f :: "'a \<Rightarrow> 'b::comm_monoid_add"
  shows "(\<And>x. x \<in> set xs \<Longrightarrow> f x = 0) \<Longrightarrow> sum_list (map f xs) = 0"
  by (induction xs) auto

text \<open>
  A quantity summed over the values of a dictionary: how it moves when one entry is
  replaced, added or removed. \<open>h\<close> collects into a multiset.
\<close>

definition total_of :: "('v \<Rightarrow> 'm::comm_monoid_add) \<Rightarrow> ('k \<times> 'v) list \<Rightarrow> 'm" where
  "total_of h d = sum_list (map (\<lambda>p. h (snd p)) d)"

lemma total_of_simps [simp]:
  "total_of h [] = 0"
  "total_of h (p # d) = h (snd p) + total_of h d"
  "total_of h (d @ d') = total_of h d + total_of h d'"
  by (simp_all add: total_of_def)

lemma total_of_update:
  assumes "map_of d k = Some v"
  shows "total_of h (AList.update k w d) + h v = total_of h d + h w"
proof -
  obtain d1 d2 where "d = d1 @ (k, v) # d2" "k \<notin> set (keys d1)"
    using assms by (rule lookup_split)
  then show ?thesis
    by (simp add: update_append_fresh ac_simps)
qed

lemma total_of_fresh:
  "k \<notin> set (keys d) \<Longrightarrow> total_of h (AList.update k w d) = total_of h d + h w"
  by (simp add: update_fresh)

lemma total_of_delete:
  assumes "distinct (keys d)" "map_of d k = Some v"
  shows "total_of h (AList.delete k d) + h v = total_of h d"
proof -
  obtain d1 d2 where "d = d1 @ (k, v) # d2" "k \<notin> set (keys d1)"
    using assms(2) by (rule lookup_split)
  with assms(1) show ?thesis
    by (simp add: delete_append_fresh ac_simps)
qed

lemma total_of_member:
  assumes "map_of d k = Some v"
  obtains r where "total_of h d = h v + r"
proof -
  obtain d1 d2 where "d = d1 @ (k, v) # d2" "k \<notin> set (keys d1)"
    using assms by (rule lookup_split)
  then have "total_of h d = h v + (total_of h d1 + total_of h d2)"
    by (simp add: ac_simps)
  then show ?thesis
    by (rule that)
qed

end
