(* ===== verification/Block_Allocator.thy ===== *)
theory Block_Allocator
  imports Prelude
begin

text \<open>
  \<open>BlockAllocator\<close> of \<open>python/cudaforge/kv_cache.py\<close>: a fixed pool of reference-counted
  blocks, the interface a cache manager relies on (the locale \<open>reference_pool\<close>), and the
  proof that the allocator provides it. A block id is \<open>nat\<close>: the code draws ids from
  \<open>range(block_count)\<close> and never forms another.
\<close>

section \<open>The allocator\<close>

record block_allocator =
  ba_total :: int
  ba_block_size :: int
  ba_free :: "nat list"        \<comment> \<open>a Python list; \<open>pop\<close> and \<open>append\<close> work at its end\<close>
  ba_references :: "nat list"

definition BlockAllocator :: "int \<Rightarrow> int \<Rightarrow> block_allocator result" where
  "BlockAllocator block_count block_size =
     (if block_count \<le> 0 then Inl ValueError
      else if block_size \<le> 0 then Inl ValueError
      else Inr \<lparr>ba_total = block_count, ba_block_size = block_size,
                ba_free = rev [0..<nat block_count],
                ba_references = replicate (nat block_count) 0\<rparr>)"

definition free_blocks :: "block_allocator \<Rightarrow> int" where
  "free_blocks a = int (length (ba_free a))"

definition used_blocks :: "block_allocator \<Rightarrow> int" where
  "used_blocks a = ba_total a - int (length (ba_free a))"

definition allocator_utilisation :: "block_allocator \<Rightarrow> real" where
  "allocator_utilisation a =
     (if ba_total a \<noteq> 0 then of_int (used_blocks a) / of_int (ba_total a) else 0)"

definition allocate :: "block_allocator \<Rightarrow> (nat option \<times> block_allocator) result" where
  "allocate a =
     (if ba_free a = [] then Inr (None, a)
      else let block = last (ba_free a) in
        if block < length (ba_references a)
        then Inr (Some block, a\<lparr>ba_free := butlast (ba_free a),
                                ba_references := (ba_references a)[block := 1]\<rparr>)
        else Inl IndexError)"

definition add_reference :: "nat \<Rightarrow> block_allocator \<Rightarrow> block_allocator result" where
  "add_reference block a =
     (if block < length (ba_references a)
      then Inr (a\<lparr>ba_references := (ba_references a)[block := Suc (ba_references a ! block)]\<rparr>)
      else Inl IndexError)"

definition release_block :: "nat \<Rightarrow> block_allocator \<Rightarrow> block_allocator result" where
  "release_block block a =
     (if block < length (ba_references a) then
        (if ba_references a ! block = 0 then Inr a
         else let n = ba_references a ! block - 1;
                  a' = a\<lparr>ba_references := (ba_references a)[block := n]\<rparr>
              in if n = 0 then Inr (a'\<lparr>ba_free := ba_free a' @ [block]\<rparr>) else Inr a')
      else Inl IndexError)"

definition reference_count :: "block_allocator \<Rightarrow> nat \<Rightarrow> nat result" where
  "reference_count a block =
     (if block < length (ba_references a) then Inr (ba_references a ! block) else Inl IndexError)"

definition is_writable :: "block_allocator \<Rightarrow> nat \<Rightarrow> bool result" where
  "is_writable a block =
     (if block < length (ba_references a) then Inr (ba_references a ! block \<le> 1)
      else Inl IndexError)"

section \<open>What a manager relies on\<close>

text \<open>
  A pool hands out blocks of a fixed universe and takes them back when their last
  reference goes. \<open>avail\<close> lists the blocks not handed out, \<open>rc\<close> counts references.
\<close>

locale reference_pool =
  fixes pool_inv :: "'p \<Rightarrow> bool"
    and alloc :: "'p \<Rightarrow> 'e + (nat option \<times> 'p)"
    and share :: "nat \<Rightarrow> 'p \<Rightarrow> 'e + 'p"
    and drop_ref :: "nat \<Rightarrow> 'p \<Rightarrow> 'e + 'p"
    and avail :: "'p \<Rightarrow> nat list"
    and universe :: "'p \<Rightarrow> nat set"
    and rc :: "'p \<Rightarrow> nat \<Rightarrow> nat"
  assumes avail_iff: "pool_inv p \<Longrightarrow> b \<in> set (avail p) \<longleftrightarrow> b \<in> universe p \<and> rc p b = 0"
    and avail_distinct: "pool_inv p \<Longrightarrow> distinct (avail p)"
    and alloc_none: "pool_inv p \<Longrightarrow> avail p = [] \<Longrightarrow> alloc p = Inr (None, p)"
    and alloc_some: "pool_inv p \<Longrightarrow> avail p \<noteq> [] \<Longrightarrow>
      \<exists>b p'. alloc p = Inr (Some b, p') \<and> pool_inv p' \<and> universe p' = universe p
        \<and> rc p' = (rc p)(b := 1) \<and> mset (avail p) = add_mset b (mset (avail p'))"
    and share_held: "pool_inv p \<Longrightarrow> b \<in> universe p \<Longrightarrow> 0 < rc p b \<Longrightarrow>
      \<exists>p'. share b p = Inr p' \<and> pool_inv p' \<and> universe p' = universe p
        \<and> rc p' = (rc p)(b := Suc (rc p b)) \<and> avail p' = avail p"
    and drop_free: "pool_inv p \<Longrightarrow> b \<in> universe p \<Longrightarrow> rc p b = 0 \<Longrightarrow> drop_ref b p = Inr p"
    and drop_last: "pool_inv p \<Longrightarrow> b \<in> universe p \<Longrightarrow> rc p b = 1 \<Longrightarrow>
      \<exists>p'. drop_ref b p = Inr p' \<and> pool_inv p' \<and> universe p' = universe p
        \<and> rc p' = (rc p)(b := 0) \<and> mset (avail p') = add_mset b (mset (avail p))"
    and drop_shared: "pool_inv p \<Longrightarrow> b \<in> universe p \<Longrightarrow> 1 < rc p b \<Longrightarrow>
      \<exists>p'. drop_ref b p = Inr p' \<and> pool_inv p' \<and> universe p' = universe p
        \<and> rc p' = (rc p)(b := rc p b - 1) \<and> avail p' = avail p"
begin

text \<open>Returning a table's blocks, each held once, puts exactly those blocks back.\<close>

lemma drop_all:
  assumes "pool_inv p" "distinct bs" "\<forall>b \<in> set bs. b \<in> universe p \<and> rc p b = 1"
  obtains p' where "rfold drop_ref bs p = Inr p'" "pool_inv p'" "universe p' = universe p"
    "mset (avail p') = mset (avail p) + mset bs"
    "rc p' = (\<lambda>b. if b \<in> set bs then 0 else rc p b)"
  using assms
proof (induction bs arbitrary: p thesis)
  case Nil
  then show ?case by simp
next
  case (Cons b bs)
  from Cons.prems have b: "b \<in> universe p" "rc p b = 1" "b \<notin> set bs"
    by auto
  obtain p1 where p1: "drop_ref b p = Inr p1" "pool_inv p1" "universe p1 = universe p"
      "rc p1 = (rc p)(b := 0)" "mset (avail p1) = add_mset b (mset (avail p))"
    using drop_last [OF Cons.prems(2) b(1,2)] by auto
  have "\<forall>x \<in> set bs. x \<in> universe p1 \<and> rc p1 x = 1"
    using Cons.prems(4) b(3) p1(3,4) by auto
  then obtain p' where p': "rfold drop_ref bs p1 = Inr p'" "pool_inv p'"
      "universe p' = universe p1" "mset (avail p') = mset (avail p1) + mset bs"
      "rc p' = (\<lambda>x. if x \<in> set bs then 0 else rc p1 x)"
    using Cons.IH [OF _ p1(2)] Cons.prems(3) by auto
  show ?case
  proof (rule Cons.prems(1))
    show "rfold drop_ref (b # bs) p = Inr p'"
      using p1(1) p'(1) by simp
    show "rc p' = (\<lambda>x. if x \<in> set (b # bs) then 0 else rc p x)"
      using p'(5) p1(4) by (auto simp: fun_eq_iff)
  qed (use p1 p' in auto)
qed

text \<open>An allocated block was free, and is held once afterwards.\<close>

lemma alloc_held:
  assumes "pool_inv p" "alloc p = Inr (Some b, p')"
  shows "b \<in> set (avail p)" "rc p' b = 1" "b \<notin> set (avail p')" "pool_inv p'"
proof -
  have "avail p \<noteq> []"
    using alloc_none [OF assms(1)] assms(2) by auto
  from alloc_some [OF assms(1) this] assms(2)
  have *: "pool_inv p'" "rc p' = (rc p)(b := 1)" "mset (avail p) = add_mset b (mset (avail p'))"
    by auto
  have "b \<in># mset (avail p)"
    by (simp add: *(3))
  then show "b \<in> set (avail p)"
    by simp
  show "rc p' b = 1"
    using *(2) by simp
  then show "b \<notin> set (avail p')"
    using avail_iff [OF *(1)] by simp
  show "pool_inv p'"
    by (rule *(1))
qed

end

section \<open>The allocator provides it\<close>

definition ba_inv :: "block_allocator \<Rightarrow> bool" where
  "ba_inv a \<longleftrightarrow> 0 < ba_total a \<and> 0 < ba_block_size a
     \<and> ba_total a = int (length (ba_references a))
     \<and> distinct (ba_free a)
     \<and> (\<forall>b. b \<in> set (ba_free a) \<longleftrightarrow> b < length (ba_references a) \<and> ba_references a ! b = 0)"

definition ba_universe :: "block_allocator \<Rightarrow> nat set" where
  "ba_universe a = {..<length (ba_references a)}"

definition ba_rc :: "block_allocator \<Rightarrow> nat \<Rightarrow> nat" where
  "ba_rc a b = (if b < length (ba_references a) then ba_references a ! b else 0)"

lemma ba_inv_init:
  "BlockAllocator n s = Inr a \<Longrightarrow> ba_inv a"
  by (auto simp: BlockAllocator_def ba_inv_def split: if_splits)

lemma allocate_free:
  assumes "ba_inv a" "ba_free a \<noteq> []"
  shows "\<exists>b a'. allocate a = Inr (Some b, a') \<and> ba_inv a' \<and> ba_universe a' = ba_universe a
    \<and> ba_rc a' = (ba_rc a)(b := 1) \<and> mset (ba_free a) = add_mset b (mset (ba_free a'))"
proof -
  obtain xs b where free: "ba_free a = xs @ [b]"
    using assms(2) by (cases "ba_free a" rule: rev_cases) auto
  with assms(1) have b: "b < length (ba_references a)" "b \<notin> set xs"
    and xs: "\<And>c. c = b \<or> c \<in> set xs \<longleftrightarrow> c < length (ba_references a) \<and> ba_references a ! c = 0"
    by (auto simp: ba_inv_def)
  from b(1) have ne: "ba_references a \<noteq> []"
    by auto
  let ?a = "a\<lparr>ba_free := xs, ba_references := (ba_references a)[b := 1]\<rparr>"
  have "allocate a = Inr (Some b, ?a)"
    using free b by (simp add: allocate_def)
  moreover have "c \<in> set xs \<longleftrightarrow> c < length (ba_references a) \<and> (ba_references a)[b := 1] ! c = 0" for c
    using xs [of c] b by (cases "c = b") (simp_all add: nth_list_update)
  then have "ba_inv ?a"
    using assms(1) free ne by (simp add: ba_inv_def)
  moreover have "ba_rc ?a = (ba_rc a)(b := 1)"
    using b by (auto simp: ba_rc_def fun_eq_iff)
  moreover have "ba_universe ?a = ba_universe a" "mset (ba_free a) = add_mset b (mset (ba_free ?a))"
    using free by (simp_all add: ba_universe_def)
  ultimately show ?thesis
    by (intro exI [of _ b] exI [of _ ?a] conjI)
qed

lemma release_block_last:
  assumes "ba_inv a" "b \<in> ba_universe a" "ba_rc a b = 1"
  shows "\<exists>a'. release_block b a = Inr a' \<and> ba_inv a' \<and> ba_universe a' = ba_universe a
    \<and> ba_rc a' = (ba_rc a)(b := 0) \<and> mset (ba_free a') = add_mset b (mset (ba_free a))"
proof -
  from assms have b: "b < length (ba_references a)" "ba_references a ! b = 1" "b \<notin> set (ba_free a)"
    by (auto simp: ba_universe_def ba_rc_def ba_inv_def)
  from b(1) have ne: "ba_references a \<noteq> []"
    by auto
  let ?a = "a\<lparr>ba_references := (ba_references a)[b := 0], ba_free := ba_free a @ [b]\<rparr>"
  have "release_block b a = Inr ?a"
    using b by (simp add: release_block_def)
  moreover have "c = b \<or> c \<in> set (ba_free a) \<longleftrightarrow>
      c < length (ba_references a) \<and> (ba_references a)[b := 0] ! c = 0" for c
    using assms(1) b by (cases "c = b") (simp_all add: nth_list_update ba_inv_def)
  then have "ba_inv ?a"
    using assms(1) b(3) ne by (simp add: ba_inv_def)
  moreover have "ba_rc ?a = (ba_rc a)(b := 0)"
    using b by (auto simp: ba_rc_def fun_eq_iff)
  moreover have "ba_universe ?a = ba_universe a" "mset (ba_free ?a) = add_mset b (mset (ba_free a))"
    by (simp_all add: ba_universe_def)
  ultimately show ?thesis
    by (intro exI [of _ ?a] conjI)
qed

lemma release_block_shared:
  assumes "ba_inv a" "b \<in> ba_universe a" "1 < ba_rc a b"
  shows "\<exists>a'. release_block b a = Inr a' \<and> ba_inv a' \<and> ba_universe a' = ba_universe a
    \<and> ba_rc a' = (ba_rc a)(b := ba_rc a b - 1) \<and> ba_free a' = ba_free a"
proof -
  from assms have b: "b < length (ba_references a)" "1 < ba_references a ! b"
    by (auto simp: ba_universe_def ba_rc_def)
  from b(1) have ne: "ba_references a \<noteq> []"
    by auto
  let ?a = "a\<lparr>ba_references := (ba_references a)[b := ba_references a ! b - 1]\<rparr>"
  have "release_block b a = Inr ?a"
    using b by (simp add: release_block_def Let_def)
  moreover have "c \<in> set (ba_free a) \<longleftrightarrow> c < length (ba_references a) \<and>
      (ba_references a)[b := ba_references a ! b - 1] ! c = 0" for c
    using assms(1) b by (cases "c = b") (simp_all add: nth_list_update ba_inv_def)
  then have "ba_inv ?a"
    using assms(1) ne by (simp add: ba_inv_def)
  moreover have "ba_rc ?a = (ba_rc a)(b := ba_rc a b - 1)"
    using b by (auto simp: ba_rc_def fun_eq_iff)
  moreover have "ba_universe ?a = ba_universe a" "ba_free ?a = ba_free a"
    by (simp_all add: ba_universe_def)
  ultimately show ?thesis
    by (intro exI [of _ ?a] conjI)
qed

lemma add_reference_held:
  assumes "ba_inv a" "b \<in> ba_universe a" "0 < ba_rc a b"
  shows "\<exists>a'. add_reference b a = Inr a' \<and> ba_inv a' \<and> ba_universe a' = ba_universe a
    \<and> ba_rc a' = (ba_rc a)(b := Suc (ba_rc a b)) \<and> ba_free a' = ba_free a"
proof -
  from assms have b: "b < length (ba_references a)" "0 < ba_references a ! b"
    by (auto simp: ba_universe_def ba_rc_def)
  from b(1) have ne: "ba_references a \<noteq> []"
    by auto
  let ?a = "a\<lparr>ba_references := (ba_references a)[b := Suc (ba_references a ! b)]\<rparr>"
  have "add_reference b a = Inr ?a"
    using b by (simp add: add_reference_def)
  moreover have "c \<in> set (ba_free a) \<longleftrightarrow> c < length (ba_references a) \<and>
      (ba_references a)[b := Suc (ba_references a ! b)] ! c = 0" for c
    using assms(1) b by (cases "c = b") (simp_all add: nth_list_update ba_inv_def)
  then have "ba_inv ?a"
    using assms(1) ne by (simp add: ba_inv_def)
  moreover have "ba_rc ?a = (ba_rc a)(b := Suc (ba_rc a b))"
    using b by (auto simp: ba_rc_def fun_eq_iff)
  moreover have "ba_universe ?a = ba_universe a" "ba_free ?a = ba_free a"
    by (simp_all add: ba_universe_def)
  ultimately show ?thesis
    by (intro exI [of _ ?a] conjI)
qed

interpretation pool: reference_pool ba_inv allocate add_reference release_block
    ba_free ba_universe ba_rc
proof unfold_locales
  fix p b
  assume inv: "ba_inv p"
  show "b \<in> set (ba_free p) \<longleftrightarrow> b \<in> ba_universe p \<and> ba_rc p b = 0"
    using inv by (auto simp: ba_inv_def ba_universe_def ba_rc_def)
  show "distinct (ba_free p)"
    using inv by (simp add: ba_inv_def)
  show "b \<in> ba_universe p \<Longrightarrow> ba_rc p b = 0 \<Longrightarrow> release_block b p = Inr p"
    by (auto simp: ba_universe_def ba_rc_def release_block_def)
qed (simp add: allocate_def, (fact allocate_free add_reference_held release_block_last
      release_block_shared)+)

lemma allocate_sizes:
  "allocate a = Inr (r, a') \<Longrightarrow> ba_total a' = ba_total a \<and> ba_block_size a' = ba_block_size a"
  by (auto simp: allocate_def Let_def split: if_splits)

lemma release_block_sizes:
  "release_block b a = Inr a' \<Longrightarrow> ba_total a' = ba_total a \<and> ba_block_size a' = ba_block_size a"
  by (auto simp: release_block_def Let_def split: if_splits)

lemma release_all_sizes:
  "rfold release_block bs a = Inr a' \<Longrightarrow>
     ba_total a' = ba_total a \<and> ba_block_size a' = ba_block_size a"
  by (induction bs arbitrary: a) (auto simp: rbind_eq_Inr dest!: release_block_sizes)

end
