(* ===== verification/KV_Cache.thy ===== *)
theory KV_Cache
  imports Block_Allocator
begin

text \<open>
  \<open>SequenceBlockTable\<close> and \<open>KVCacheManager\<close> of \<open>python/cudaforge/kv_cache.py\<close>:
  admission, extension, preemption and release of sequences over the block pool.
  The manager's methods all run under its one lock, so each is one atomic step; the
  record \<open>kv_manager\<close> is the object's state and an operation returns the new one.
  A sequence id and a token count are Python ints. A raised exception drops the partial
  state: the theory shows that the only exception a caller can see on a well-formed
  manager is the \<open>KeyError\<close> of an unknown sequence, raised before any mutation.
\<close>

section \<open>Data\<close>

datatype preemption_policy = NEWEST | LARGEST

datatype admission_result = ADMITTED | PREEMPTED_OTHERS | INSUFFICIENT_CACHE

record admission_outcome =
  ao_result :: admission_result
  ao_preempted :: "int list"

definition AdmissionOutcome :: admission_outcome where
  "AdmissionOutcome = \<lparr>ao_result = ADMITTED, ao_preempted = []\<rparr>"

definition outcome_ok :: "admission_outcome \<Rightarrow> bool" where
  "outcome_ok out \<longleftrightarrow> ao_result out \<noteq> INSUFFICIENT_CACHE"

section \<open>One sequence's block table\<close>

record block_table =
  sb_sequence_id :: int
  sb_block_size :: int
  sb_tokens :: int
  sb_blocks :: "nat list"

definition SequenceBlockTable :: "int \<Rightarrow> int \<Rightarrow> block_table" where
  "SequenceBlockTable s bsize =
     \<lparr>sb_sequence_id = s, sb_block_size = bsize, sb_tokens = 0, sb_blocks = []\<rparr>"

definition capacity :: "block_table \<Rightarrow> int" where
  "capacity t = int (length (sb_blocks t)) * sb_block_size t"

definition slack :: "block_table \<Rightarrow> int" where
  "slack t = capacity t - sb_tokens t"

definition append_block :: "nat \<Rightarrow> block_table \<Rightarrow> block_table" where
  "append_block b t = t\<lparr>sb_blocks := sb_blocks t @ [b]\<rparr>"

definition add_tokens :: "int \<Rightarrow> block_table \<Rightarrow> block_table result" where
  "add_tokens n t =
     (if sb_tokens t + n > capacity t then Inl ValueError
      else Inr (t\<lparr>sb_tokens := sb_tokens t + n\<rparr>))"

definition table_locate :: "block_table \<Rightarrow> int \<Rightarrow> (nat \<times> int) result" where
  "table_locate t i =
     (if i \<ge> sb_tokens t then Inl IndexError
      else rbind (py_floordiv i (sb_block_size t)) (\<lambda>q.
           rbind (py_index (sb_blocks t) q) (\<lambda>b. Inr (b, i mod sb_block_size t))))"

section \<open>The manager\<close>

record kv_manager =
  km_allocator :: block_allocator
  km_block_size :: int
  km_policy :: preemption_policy
  km_tables :: "(int \<times> block_table) list"   \<comment> \<open>the dictionary, in insertion order\<close>
  km_admission_order :: "int list"
  km_preemptions :: nat
  km_recomputed_tokens :: int

definition KVCacheManager :: "int \<Rightarrow> int \<Rightarrow> preemption_policy \<Rightarrow> kv_manager result" where
  "KVCacheManager block_count bsize policy =
     rbind (BlockAllocator block_count bsize) (\<lambda>a.
       Inr \<lparr>km_allocator = a, km_block_size = bsize, km_policy = policy, km_tables = [],
            km_admission_order = [], km_preemptions = 0, km_recomputed_tokens = 0\<rparr>)"

definition kv_free_blocks :: "kv_manager \<Rightarrow> int" where
  "kv_free_blocks m = free_blocks (km_allocator m)"

definition active_sequences :: "kv_manager \<Rightarrow> nat" where
  "active_sequences m = length (km_tables m)"

definition is_admitted :: "kv_manager \<Rightarrow> int \<Rightarrow> bool" where
  "is_admitted m s \<longleftrightarrow> map_of (km_tables m) s \<noteq> None"

definition tokens_held :: "kv_manager \<Rightarrow> int \<Rightarrow> int" where
  "tokens_held m s = (case map_of (km_tables m) s of None \<Rightarrow> 0 | Some t \<Rightarrow> sb_tokens t)"

definition blocks_held :: "kv_manager \<Rightarrow> int \<Rightarrow> nat" where
  "blocks_held m s = (case map_of (km_tables m) s of None \<Rightarrow> 0 | Some t \<Rightarrow> length (sb_blocks t))"

definition kv_locate :: "kv_manager \<Rightarrow> int \<Rightarrow> int \<Rightarrow> (nat \<times> int) result" where
  "kv_locate m s i =
     (case map_of (km_tables m) s of None \<Rightarrow> Inl KeyError | Some t \<Rightarrow> table_locate t i)"

definition additional_blocks_for :: "kv_manager \<Rightarrow> int \<Rightarrow> int \<Rightarrow> int" where
  "additional_blocks_for m s tokens =
     (case map_of (km_tables m) s of
        None \<Rightarrow> ceil_div tokens (km_block_size m)
      | Some t \<Rightarrow>
          let wanted = sb_tokens t + tokens in
          if wanted \<le> capacity t then 0
          else ceil_div (wanted - capacity t) (km_block_size m))"

subsection \<open>Choosing a victim\<close>

fun newest_victim :: "(int \<times> block_table) list \<Rightarrow> int \<Rightarrow> int list \<Rightarrow> int option" where
  "newest_victim tables requester [] = None"
| "newest_victim tables requester (candidate # rest) =
     (if candidate = requester then newest_victim tables requester rest
      else case map_of tables candidate of
        None \<Rightarrow> newest_victim tables requester rest
      | Some t \<Rightarrow> if sb_blocks t \<noteq> [] then Some candidate
                  else newest_victim tables requester rest)"

fun largest_victim ::
  "(int \<times> block_table) list \<Rightarrow> int \<Rightarrow> int list \<Rightarrow> int option \<Rightarrow> nat \<Rightarrow> int option" where
  "largest_victim tables requester [] victim most = victim"
| "largest_victim tables requester (candidate # rest) victim most =
     (if candidate = requester then largest_victim tables requester rest victim most
      else case map_of tables candidate of
        None \<Rightarrow> largest_victim tables requester rest victim most
      | Some t \<Rightarrow>
          if length (sb_blocks t) > most
          then largest_victim tables requester rest (Some candidate) (length (sb_blocks t))
          else largest_victim tables requester rest victim most)"

definition choose_victim :: "kv_manager \<Rightarrow> int \<Rightarrow> int option" where
  "choose_victim m requester =
     (if km_policy m = NEWEST
      then newest_victim (km_tables m) requester (rev (km_admission_order m))
      else largest_victim (km_tables m) requester (km_admission_order m) None 0)"

definition reclaimable_blocks :: "kv_manager \<Rightarrow> int \<Rightarrow> int" where
  "reclaimable_blocks m requester =
     sum_list (map (\<lambda>(s, t). int (length (sb_blocks t)))
                   (filter (\<lambda>(s, t). s \<noteq> requester) (km_tables m)))"

subsection \<open>Eviction\<close>

text \<open>
  The body shared by \<open>preempt\<close> and the loop of \<open>_evict_until\<close>: give the blocks back,
  charge the recomputation, and keep the sequence known with an empty table.
\<close>

definition drop_table :: "kv_manager \<Rightarrow> int \<Rightarrow> block_table \<Rightarrow> kv_manager result" where
  "drop_table m victim t =
     rbind (rfold release_block (sb_blocks t) (km_allocator m)) (\<lambda>a.
       Inr (m\<lparr>km_allocator := a,
              km_recomputed_tokens := km_recomputed_tokens m + sb_tokens t,
              km_preemptions := Suc (km_preemptions m),
              km_tables := AList.update victim
                (SequenceBlockTable victim (km_block_size m)) (km_tables m)\<rparr>))"

definition nonempty_tables :: "kv_manager \<Rightarrow> nat" where
  "nonempty_tables m = length (filter (\<lambda>p. sb_blocks (snd p) \<noteq> []) (km_tables m))"

lemma newest_victim_Some:
  "newest_victim tables r cs = Some v \<Longrightarrow>
     v \<in> set cs \<and> v \<noteq> r \<and> (\<exists>t. map_of tables v = Some t \<and> sb_blocks t \<noteq> [])"
  by (induction cs) (auto split: if_splits option.splits)

lemma largest_victim_Some:
  "largest_victim tables r cs victim most = Some v \<Longrightarrow>
     victim = Some v \<or>
     v \<in> set cs \<and> v \<noteq> r \<and> (\<exists>t. map_of tables v = Some t \<and> most < length (sb_blocks t))"
  by (induction tables r cs victim most rule: largest_victim.induct)
    (auto split: if_splits option.splits intro: less_trans)

lemma choose_victim_Some:
  assumes "choose_victim m r = Some v"
  shows "v \<in> set (km_admission_order m)" "v \<noteq> r"
    "\<exists>t. map_of (km_tables m) v = Some t \<and> sb_blocks t \<noteq> []"
  using assms
  by (auto simp: choose_victim_def split: if_splits
      dest!: newest_victim_Some largest_victim_Some)

lemma drop_table_decreases:
  assumes "drop_table m v t = Inr m'" "map_of (km_tables m) v = Some t" "sb_blocks t \<noteq> []"
  shows "nonempty_tables m' < nonempty_tables m"
proof -
  obtain d1 d2 where d: "km_tables m = d1 @ (v, t) # d2" "v \<notin> set (keys d1)"
    using assms(2) by (rule lookup_split)
  from assms(1) have "km_tables m' =
      AList.update v (SequenceBlockTable v (km_block_size m)) (km_tables m)"
    by (auto simp: drop_table_def rbind_eq_Inr)
  with d assms(3) show ?thesis
    by (simp add: nonempty_tables_def update_append_fresh SequenceBlockTable_def)
qed

text \<open>
  The \<open>while\<close> loop. Every round empties a table that held blocks, so the number of
  such tables bounds the rounds on every state, well-formed or not.
\<close>

function evict_loop :: "kv_manager \<Rightarrow> int \<Rightarrow> int \<Rightarrow> int list \<Rightarrow> (int list \<times> kv_manager) result" where
  "evict_loop m needed requester evicted =
     (if free_blocks (km_allocator m) < needed then
        (case choose_victim m requester of
           None \<Rightarrow> Inr (evicted, m)
         | Some victim \<Rightarrow>
             (case map_of (km_tables m) victim of
                None \<Rightarrow> Inl KeyError
              | Some t \<Rightarrow> rbind (drop_table m victim t)
                  (\<lambda>m'. evict_loop m' needed requester (evicted @ [victim]))))
      else Inr (evicted, m))"
  by pat_completeness auto
termination
proof (relation "measure (\<lambda>(m, _, _, _). nonempty_tables m)", goal_cases)
  case (2 m needed requester evicted v t m')
  then show ?case
    using choose_victim_Some [of m requester v] drop_table_decreases by auto
qed simp

declare evict_loop.simps [simp del]

definition evict_until :: "kv_manager \<Rightarrow> int \<Rightarrow> int \<Rightarrow> (int list \<times> kv_manager) result" where
  "evict_until m needed requester =
     (if free_blocks (km_allocator m) + reclaimable_blocks m requester < needed
      then Inr ([], m)
      else evict_loop m needed requester [])"

subsection \<open>Reservation\<close>

fun allocate_loop :: "nat \<Rightarrow> block_allocator \<Rightarrow> block_table \<Rightarrow> (block_allocator \<times> block_table) result"
where
  "allocate_loop 0 a t = Inr (a, t)"
| "allocate_loop (Suc n) a t =
     rbind (allocate a) (\<lambda>(ob, a').
       case ob of None \<Rightarrow> Inl RuntimeError
       | Some b \<Rightarrow> allocate_loop n a' (append_block b t))"

text \<open>The first half of \<open>_reserve\<close>: a new sequence gets an empty table.\<close>

definition register :: "kv_manager \<Rightarrow> int \<Rightarrow> kv_manager" where
  "register m s = m\<lparr>km_tables := AList.update s (SequenceBlockTable s (km_block_size m)) (km_tables m),
                    km_admission_order := km_admission_order m @ [s]\<rparr>"

text \<open>
  The last lines of \<open>_reserve\<close>. \<open>t\<close> is the table object fetched before any eviction;
  the code mutates it in place, and it is still the one in the dictionary because the
  requester is never evicted.
\<close>

definition grow_table :: "kv_manager \<Rightarrow> int \<Rightarrow> block_table \<Rightarrow> int \<Rightarrow> int \<Rightarrow> kv_manager result" where
  "grow_table m s t needed tokens =
     rbind (allocate_loop (nat needed) (km_allocator m) t) (\<lambda>(a, t').
     rbind (add_tokens tokens t') (\<lambda>t''.
       Inr (m\<lparr>km_allocator := a, km_tables := AList.update s t'' (km_tables m)\<rparr>)))"

definition reserve ::
  "kv_manager \<Rightarrow> int \<Rightarrow> int \<Rightarrow> bool \<Rightarrow> (admission_outcome \<times> kv_manager) result" where
  "reserve m s tokens creating =
     (if tokens = 0 then Inr (AdmissionOutcome, m)
      else let m = (if creating \<and> map_of (km_tables m) s = None then register m s else m) in
        case map_of (km_tables m) s of
          None \<Rightarrow> Inl KeyError
        | Some t \<Rightarrow>
            let needed = additional_blocks_for m s tokens in
            if needed > ba_total (km_allocator m)
            then Inr (AdmissionOutcome\<lparr>ao_result := INSUFFICIENT_CACHE\<rparr>, m)
            else if free_blocks (km_allocator m) < needed then
              rbind (evict_until m needed s) (\<lambda>(preempted, m').
                let out = AdmissionOutcome\<lparr>ao_preempted := preempted\<rparr> in
                if free_blocks (km_allocator m') < needed
                then Inr (out\<lparr>ao_result := INSUFFICIENT_CACHE\<rparr>, m')
                else rbind (grow_table m' s t needed tokens)
                       (\<lambda>m''. Inr (out\<lparr>ao_result := PREEMPTED_OTHERS\<rparr>, m'')))
            else rbind (grow_table m s t needed tokens) (\<lambda>m'. Inr (AdmissionOutcome, m')))"

definition admit :: "kv_manager \<Rightarrow> int \<Rightarrow> int \<Rightarrow> (admission_outcome \<times> kv_manager) result" where
  "admit m s tokens = reserve m s tokens True"

definition extend :: "kv_manager \<Rightarrow> int \<Rightarrow> int \<Rightarrow> (admission_outcome \<times> kv_manager) result" where
  "extend m s tokens = reserve m s tokens False"

definition preempt :: "kv_manager \<Rightarrow> int \<Rightarrow> (nat \<times> kv_manager) result" where
  "preempt m s =
     (case map_of (km_tables m) s of
        None \<Rightarrow> Inr (0, m)
      | Some t \<Rightarrow>
          if sb_blocks t = [] then Inr (0, m)
          else rbind (drop_table m s t) (\<lambda>m'. Inr (length (sb_blocks t), m')))"

definition kv_release :: "kv_manager \<Rightarrow> int \<Rightarrow> kv_manager result" where
  "kv_release m s =
     (case map_of (km_tables m) s of
        None \<Rightarrow> Inr m
      | Some t \<Rightarrow>
          rbind (rfold release_block (sb_blocks t) (km_allocator m)) (\<lambda>a.
            Inr (m\<lparr>km_allocator := a, km_tables := AList.delete s (km_tables m),
                   km_admission_order :=
                     filter (\<lambda>x. x \<noteq> s) (km_admission_order m)\<rparr>)))"

end
