(* ===== verification/KV_Invariant.thy ===== *)
theory KV_Invariant
  imports KV_Cache
begin

text \<open>
  The invariant of \<open>KVCacheManager\<close> and what each operation does to a manager that
  satisfies it. The heart is a partition: the free list and the blocks of all tables
  are together exactly the ids \<open>0 .. block_count - 1\<close>, each once. The proofs use the
  allocator only through the locale \<open>reference_pool\<close> (facts \<open>pool.\<dots>\<close>).
\<close>

section \<open>The invariant\<close>

definition table_ok :: "int \<Rightarrow> int \<Rightarrow> block_table \<Rightarrow> bool" where
  "table_ok bsize s t \<longleftrightarrow>
     sb_sequence_id t = s \<and> sb_block_size t = bsize
     \<and> 0 \<le> sb_tokens t \<and> 0 \<le> slack t \<and> slack t < bsize"

definition held_blocks :: "kv_manager \<Rightarrow> nat multiset" where
  "held_blocks m = total_of (\<lambda>t. mset (sb_blocks t)) (km_tables m)"

definition pool_size :: "kv_manager \<Rightarrow> nat" where
  "pool_size m = length (ba_references (km_allocator m))"

definition kv_inv :: "kv_manager \<Rightarrow> bool" where
  "kv_inv m \<longleftrightarrow>
     ba_inv (km_allocator m)
     \<and> km_block_size m = ba_block_size (km_allocator m)
     \<and> km_admission_order m = keys (km_tables m)
     \<and> distinct (keys (km_tables m))
     \<and> (\<forall>s t. map_of (km_tables m) s = Some t \<longrightarrow> table_ok (km_block_size m) s t)
     \<and> mset (ba_free (km_allocator m)) + held_blocks m = mset [0..<pool_size m]
     \<and> (\<forall>b \<in># held_blocks m. ba_rc (km_allocator m) b = 1)"

lemma kv_invD:
  assumes "kv_inv m"
  shows "ba_inv (km_allocator m)" "km_block_size m = ba_block_size (km_allocator m)"
    "km_admission_order m = keys (km_tables m)" "distinct (keys (km_tables m))"
    "\<And>s t. map_of (km_tables m) s = Some t \<Longrightarrow> table_ok (km_block_size m) s t"
    "mset (ba_free (km_allocator m)) + held_blocks m = mset [0..<pool_size m]"
    "\<And>b. b \<in># held_blocks m \<Longrightarrow> ba_rc (km_allocator m) b = 1"
    "0 < km_block_size m" "ba_total (km_allocator m) = int (pool_size m)"
  using assms by (auto simp: kv_inv_def ba_inv_def pool_size_def)

lemma kv_inv_init:
  assumes "KVCacheManager n bsize policy = Inr m"
  shows "kv_inv m"
proof -
  obtain a where a: "BlockAllocator n bsize = Inr a"
    and m: "m = \<lparr>km_allocator = a, km_block_size = bsize, km_policy = policy, km_tables = [],
                 km_admission_order = [], km_preemptions = 0, km_recomputed_tokens = 0\<rparr>"
    using assms by (auto simp: KVCacheManager_def rbind_eq_Inr)
  have "ba_inv a"
    using a by (rule ba_inv_init)
  moreover have "ba_block_size a = bsize" "mset (ba_free a) = mset [0..<length (ba_references a)]"
    using a by (auto simp: BlockAllocator_def split: if_splits)
  ultimately show ?thesis
    by (simp add: m kv_inv_def held_blocks_def pool_size_def)
qed

text \<open>What the partition says of one table's blocks against the free list and the rest.\<close>

lemma partition_facts:
  assumes "mset fs + (mset bs + r) = mset [0..<n]"
  shows "distinct fs" "distinct bs"
    "\<And>b. b \<in> set bs \<Longrightarrow> b < n \<and> b \<notin> set fs \<and> b \<notin># r"
    "\<And>b. b \<in># r \<Longrightarrow> b < n \<and> b \<notin> set fs"
proof -
  obtain rs where rs: "mset rs = r"
    using ex_mset by blast
  have eq: "mset (fs @ bs @ rs) = mset [0..<n]"
    using assms rs by simp
  have "distinct (fs @ bs @ rs)"
    using mset_eq_imp_distinct_iff [OF eq] by simp
  moreover have "set (fs @ bs @ rs) = {0..<n}"
    using mset_eq_setD [OF eq] by simp
  ultimately show "distinct fs" "distinct bs"
    "\<And>b. b \<in> set bs \<Longrightarrow> b < n \<and> b \<notin> set fs \<and> b \<notin># r"
    "\<And>b. b \<in># r \<Longrightarrow> b < n \<and> b \<notin> set fs"
    unfolding rs [symmetric] by auto
qed

lemma table_blocks:
  assumes inv: "kv_inv m" and t: "map_of (km_tables m) s = Some t"
  obtains r where "held_blocks m = mset (sb_blocks t) + r"
    "distinct (sb_blocks t)"
    "\<And>b. b \<in> set (sb_blocks t) \<Longrightarrow>
       b \<in> ba_universe (km_allocator m) \<and> ba_rc (km_allocator m) b = 1 \<and> b \<notin># r
       \<and> b \<notin> set (ba_free (km_allocator m))"
proof -
  obtain r where r: "held_blocks m = mset (sb_blocks t) + r"
    unfolding held_blocks_def using t by (rule total_of_member)
  note part = partition_facts [OF kv_invD(6) [OF inv, unfolded r]]
  show ?thesis
  proof (rule that [OF r part(2)])
    fix b assume b: "b \<in> set (sb_blocks t)"
    show "b \<in> ba_universe (km_allocator m) \<and> ba_rc (km_allocator m) b = 1 \<and> b \<notin># r
       \<and> b \<notin> set (ba_free (km_allocator m))"
      using part(3) [OF b] kv_invD(7) [OF inv, of b] b r
      by (simp add: ba_universe_def pool_size_def)
  qed
qed

text \<open>
  Counting the partition: what is free and what others could give back is everything
  the requester does not hold.
\<close>

lemma reclaimable_split:
  assumes "distinct (keys d)"
  shows "sum_list (map (\<lambda>(s, t). int (length (sb_blocks t))) (filter (\<lambda>(s, t). s \<noteq> r) d))
    + (case map_of d r of None \<Rightarrow> 0 | Some t \<Rightarrow> int (length (sb_blocks t)))
    = int (size (total_of (\<lambda>t. mset (sb_blocks t)) d))"
  using assms
proof (induction d)
  case (Cons p d)
  obtain s t where p: "p = (s, t)"
    by fastforce
  show ?case
  proof (cases "s = r")
    case True
    with Cons.prems p have "map_of d r = None"
      by (auto simp: map_of_eq_None_iff)
    then show ?thesis
      using Cons p True by auto
  qed (use Cons p in auto)
qed simp

lemma free_plus_reclaimable:
  assumes "kv_inv m"
  shows "free_blocks (km_allocator m) + reclaimable_blocks m r
    = ba_total (km_allocator m) - int (blocks_held m r)"
proof -
  have "size (mset (ba_free (km_allocator m)) + held_blocks m) = pool_size m"
    using kv_invD(6) [OF assms] by (metis diff_zero length_upt size_mset)
  then have "free_blocks (km_allocator m) + int (size (held_blocks m)) = int (pool_size m)"
    by (simp add: free_blocks_def)
  moreover have "reclaimable_blocks m r + int (blocks_held m r) = int (size (held_blocks m))"
    using reclaimable_split [OF kv_invD(4) [OF assms], of r]
    by (simp add: reclaimable_blocks_def blocks_held_def held_blocks_def split: option.splits)
  ultimately show ?thesis
    using kv_invD(9) [OF assms] by simp
qed

lemma fresh_table_ok: "0 < bsize \<Longrightarrow> table_ok bsize s (SequenceBlockTable s bsize)"
  by (simp add: table_ok_def SequenceBlockTable_def slack_def capacity_def)

section \<open>Dropping a table\<close>

lemma release_table:
  assumes inv: "kv_inv m" and t: "map_of (km_tables m) s = Some t"
  obtains a r where "rfold release_block (sb_blocks t) (km_allocator m) = Inr a"
    "ba_inv a" "ba_block_size a = ba_block_size (km_allocator m)"
    "ba_total a = ba_total (km_allocator m)"
    "length (ba_references a) = pool_size m"
    "mset (ba_free a) = mset (ba_free (km_allocator m)) + mset (sb_blocks t)"
    "held_blocks m = mset (sb_blocks t) + r" "\<And>b. b \<in># r \<Longrightarrow> ba_rc a b = 1"
proof -
  obtain r where r: "held_blocks m = mset (sb_blocks t) + r" "distinct (sb_blocks t)"
    and b: "\<And>b. b \<in> set (sb_blocks t) \<Longrightarrow>
       b \<in> ba_universe (km_allocator m) \<and> ba_rc (km_allocator m) b = 1 \<and> b \<notin># r
       \<and> b \<notin> set (ba_free (km_allocator m))"
    using inv t by (rule table_blocks) blast
  have all: "\<forall>b \<in> set (sb_blocks t). b \<in> ba_universe (km_allocator m) \<and> ba_rc (km_allocator m) b = 1"
    using b by blast
  obtain a where a: "rfold release_block (sb_blocks t) (km_allocator m) = Inr a" "ba_inv a"
      "ba_universe a = ba_universe (km_allocator m)"
      "mset (ba_free a) = mset (ba_free (km_allocator m)) + mset (sb_blocks t)"
      "ba_rc a = (\<lambda>b. if b \<in> set (sb_blocks t) then 0 else ba_rc (km_allocator m) b)"
    by (rule pool.drop_all [OF kv_invD(1) [OF inv] r(2) all])
  have rc: "ba_rc a c = 1" if c: "c \<in># r" for c
  proof -
    have "c \<notin> set (sb_blocks t)"
      using b c by blast
    moreover have "ba_rc (km_allocator m) c = 1"
      using kv_invD(7) [OF inv, of c] r(1) c by simp
    ultimately show ?thesis
      by (simp add: a(5))
  qed
  have "length (ba_references a) = pool_size m"
    using a(3) by (simp add: ba_universe_def pool_size_def)
  then show ?thesis
    by (intro that [OF a(1,2) _ _ _ a(4) r(1) rc])
      (simp_all add: release_all_sizes [OF a(1)])
qed

text \<open>The tables after some sequences were evicted.\<close>

definition evicted_tables ::
  "int list \<Rightarrow> kv_manager \<Rightarrow> kv_manager \<Rightarrow> bool" where
  "evicted_tables evs m m' \<longleftrightarrow>
     keys (km_tables m') = keys (km_tables m)
     \<and> km_block_size m' = km_block_size m \<and> km_policy m' = km_policy m
     \<and> ba_total (km_allocator m') = ba_total (km_allocator m)
     \<and> (\<forall>s. map_of (km_tables m') s =
           (if s \<in> set evs then Some (SequenceBlockTable s (km_block_size m))
            else map_of (km_tables m) s))"

lemma drop_table_ok:
  assumes inv: "kv_inv m" and t: "map_of (km_tables m) s = Some t"
  obtains m' where "drop_table m s t = Inr m'" "kv_inv m'" "evicted_tables [s] m m'"
    "free_blocks (km_allocator m') = free_blocks (km_allocator m) + int (blocks_held m s)"
    "km_preemptions m' = Suc (km_preemptions m)"
    "km_recomputed_tokens m' = km_recomputed_tokens m + tokens_held m s"
proof -
  obtain a r where a: "rfold release_block (sb_blocks t) (km_allocator m) = Inr a"
    "ba_inv a" "ba_block_size a = ba_block_size (km_allocator m)"
    "ba_total a = ba_total (km_allocator m)" "length (ba_references a) = pool_size m"
    "mset (ba_free a) = mset (ba_free (km_allocator m)) + mset (sb_blocks t)"
    "held_blocks m = mset (sb_blocks t) + r" "\<And>b. b \<in># r \<Longrightarrow> ba_rc a b = 1"
    using release_table [OF inv t] by blast
  define m' where "m' = m\<lparr>km_allocator := a,
    km_recomputed_tokens := km_recomputed_tokens m + sb_tokens t,
    km_preemptions := Suc (km_preemptions m),
    km_tables := AList.update s (SequenceBlockTable s (km_block_size m)) (km_tables m)\<rparr>"
  have s: "s \<in> set (keys (km_tables m))"
    using t by (auto dest: map_of_SomeD intro: rev_image_eqI)
  have ks: "keys (km_tables m') = keys (km_tables m)"
    using s by (simp add: m'_def dict_simps)
  have "held_blocks m' + mset (sb_blocks t) = held_blocks m"
    using total_of_update [OF t, of "\<lambda>t. mset (sb_blocks t)" "SequenceBlockTable s (km_block_size m)"]
    by (simp add: held_blocks_def m'_def SequenceBlockTable_def)
  then have held: "held_blocks m' = r"
    using a(7) by simp
  have "kv_inv m'"
    unfolding kv_inv_def held
    using kv_invD [OF inv] a(2-8) ks
    by (auto simp: m'_def dict_simps fresh_table_ok pool_size_def ac_simps)
  moreover have "drop_table m s t = Inr m'"
    using a(1) by (simp add: drop_table_def m'_def)
  moreover have "evicted_tables [s] m m'"
    using ks a(4) by (simp add: evicted_tables_def m'_def dict_simps)
  moreover have "length (ba_free a) = length (ba_free (km_allocator m)) + length (sb_blocks t)"
    using arg_cong [OF a(6), of size] by simp
  then have "free_blocks (km_allocator m') = free_blocks (km_allocator m) + int (blocks_held m s)"
    by (simp add: m'_def free_blocks_def blocks_held_def t)
  ultimately show ?thesis
    using that [of m'] by (simp add: m'_def tokens_held_def t)
qed

lemma evicted_tables_trans:
  assumes "evicted_tables xs m m1" "evicted_tables ys m1 m2"
  shows "evicted_tables (xs @ ys) m m2"
  using assms by (auto simp: evicted_tables_def)

lemma evicted_tables_held:
  assumes "evicted_tables evs m m'"
  shows "blocks_held m' s = (if s \<in> set evs then 0 else blocks_held m s)"
    "tokens_held m' s = (if s \<in> set evs then 0 else tokens_held m s)"
  using assms
  by (auto simp: evicted_tables_def blocks_held_def tokens_held_def SequenceBlockTable_def)

section \<open>Choosing victims\<close>

text \<open>Who may be evicted for \<open>r\<close>: any other sequence that holds a block.\<close>

definition evictable :: "kv_manager \<Rightarrow> int \<Rightarrow> int \<Rightarrow> bool" where
  "evictable m r c \<longleftrightarrow> c \<noteq> r \<and> 0 < blocks_held m c"

lemma newest_victim_filter:
  "newest_victim d r cs =
     (case filter (\<lambda>c. c \<noteq> r \<and> (\<exists>t. map_of d c = Some t \<and> sb_blocks t \<noteq> [])) cs of
        [] \<Rightarrow> None | c # _ \<Rightarrow> Some c)"
  by (induction cs) (auto split: option.splits)

lemma evictable_iff:
  "evictable m r c \<longleftrightarrow> c \<noteq> r \<and> (\<exists>t. map_of (km_tables m) c = Some t \<and> sb_blocks t \<noteq> [])"
  by (auto simp: evictable_def blocks_held_def split: option.splits)

lemma choose_newest:
  assumes "km_policy m = NEWEST"
  shows "choose_victim m r =
    (case filter (evictable m r) (rev (km_admission_order m)) of [] \<Rightarrow> None | c # _ \<Rightarrow> Some c)"
  using assms by (simp add: choose_victim_def newest_victim_filter evictable_iff [abs_def])

lemma largest_victim_None:
  "largest_victim d r cs victim most = None \<Longrightarrow>
     victim = None \<and>
     (\<forall>c \<in> set cs. c \<noteq> r \<longrightarrow> (\<forall>t. map_of d c = Some t \<longrightarrow> length (sb_blocks t) \<le> most))"
  by (induction d r cs victim most rule: largest_victim.induct)
    (auto split: if_splits option.splits)

lemma choose_victim_None:
  assumes "kv_inv m" "choose_victim m r = None"
  shows "\<not> evictable m r c"
proof
  assume c: "evictable m r c"
  then have order: "c \<in> set (km_admission_order m)"
    using kv_invD(3) [OF assms(1)]
    by (auto simp: evictable_iff dest!: map_of_SomeD intro: rev_image_eqI)
  show False
  proof (cases "km_policy m")
    case NEWEST
    have "filter (evictable m r) (rev (km_admission_order m)) = []"
      using assms(2) choose_newest [OF NEWEST, of r] by (auto split: list.splits)
    with c order show False
      by (auto simp: filter_empty_conv)
  next
    case LARGEST
    then have "largest_victim (km_tables m) r (km_admission_order m) None 0 = None"
      using assms(2) by (simp add: choose_victim_def)
    from largest_victim_None [OF this] c order show False
      by (auto simp: evictable_iff)
  qed
qed

text \<open>
  The scan for the largest holder keeps the best candidate so far; its result is the
  maximum, and of equals the one admitted first.
\<close>

lemma largest_victim_max:
  fixes d :: "(int \<times> block_table) list"
  defines "len \<equiv> \<lambda>c. case map_of d c of None \<Rightarrow> 0 | Some t \<Rightarrow> length (sb_blocks t)"
  assumes "largest_victim d r cs victim most = Some v"
  shows "if most < len v \<and> v \<in> set cs \<and> v \<noteq> r
         then (\<exists>ys zs. cs = ys @ v # zs \<and> (\<forall>y \<in> set ys. y \<noteq> r \<longrightarrow> len y < len v)
                 \<and> (\<forall>z \<in> set zs. z \<noteq> r \<longrightarrow> len z \<le> len v))
         else victim = Some v \<and> (\<forall>c \<in> set cs. c \<noteq> r \<longrightarrow> len c \<le> most)"
  using assms(2)
proof (induction cs arbitrary: victim most)
  case Nil
  then show ?case by simp
next
  case (Cons c cs)
  show ?case
  proof (cases "c \<noteq> r \<and> most < len c")
    case True
    then obtain t where t: "map_of d c = Some t" "len c = length (sb_blocks t)"
      by (auto simp: len_def split: option.splits)
    with True Cons.prems have "largest_victim d r cs (Some c) (len c) = Some v"
      by simp
    note IH = Cons.IH [OF this]
    show ?thesis
    proof (cases "len c < len v \<and> v \<in> set cs \<and> v \<noteq> r")
      case True': True
      with IH obtain ys zs where "cs = ys @ v # zs" "\<forall>y \<in> set ys. y \<noteq> r \<longrightarrow> len y < len v"
          "\<forall>z \<in> set zs. z \<noteq> r \<longrightarrow> len z \<le> len v"
        by auto
      with True' have "\<exists>ys zs. c # cs = ys @ v # zs \<and> (\<forall>y \<in> set ys. y \<noteq> r \<longrightarrow> len y < len v)
          \<and> (\<forall>z \<in> set zs. z \<noteq> r \<longrightarrow> len z \<le> len v)"
        by (intro exI [of _ "c # ys"] exI [of _ zs]) simp
      with True True' show ?thesis
        by simp
    next
      case False
      with IH have "v = c" "\<forall>x \<in> set cs. x \<noteq> r \<longrightarrow> len x \<le> len v"
        by (auto split: if_splits)
      with True have "\<exists>ys zs. c # cs = ys @ v # zs \<and> (\<forall>y \<in> set ys. y \<noteq> r \<longrightarrow> len y < len v)
          \<and> (\<forall>z \<in> set zs. z \<noteq> r \<longrightarrow> len z \<le> len v)"
        by (intro exI [of _ "[]"] exI [of _ cs]) simp
      with True \<open>v = c\<close> show ?thesis
        by simp
    qed
  next
    case False
    with Cons.prems have "largest_victim d r cs victim most = Some v"
      by (auto simp: len_def split: option.splits if_splits)
    note IH = Cons.IH [OF this]
    show ?thesis
    proof (cases "most < len v \<and> v \<in> set cs \<and> v \<noteq> r")
      case True
      with IH obtain ys zs where "cs = ys @ v # zs" "\<forall>y \<in> set ys. y \<noteq> r \<longrightarrow> len y < len v"
          "\<forall>z \<in> set zs. z \<noteq> r \<longrightarrow> len z \<le> len v"
        by auto
      with True False have "\<exists>ys zs. c # cs = ys @ v # zs \<and> (\<forall>y \<in> set ys. y \<noteq> r \<longrightarrow> len y < len v)
          \<and> (\<forall>z \<in> set zs. z \<noteq> r \<longrightarrow> len z \<le> len v)"
        by (intro exI [of _ "c # ys"] exI [of _ zs]) auto
      with True show ?thesis
        by simp
    next
      case False': False
      with IH False show ?thesis
        by (auto split: if_splits)
    qed
  qed
qed

end
