(* ===== verification/KV_Operations.thy ===== *)
theory KV_Operations
  imports KV_Invariant
begin

text \<open>
  What \<open>admit\<close>, \<open>extend\<close>, \<open>preempt\<close> and \<open>release\<close> of \<open>KVCacheManager\<close> do to a
  well-formed manager: the eviction loop meets its target and stops as soon as it does,
  growing a table takes exactly the blocks the arithmetic asks for, and every operation
  keeps the invariant without raising. The theorems of the component are at the end,
  stated for the managers a client can reach.
\<close>

section \<open>The eviction loop\<close>

definition eviction_spec ::
  "kv_manager \<Rightarrow> int \<Rightarrow> int \<Rightarrow> int list \<Rightarrow> kv_manager \<Rightarrow> bool" where
  "eviction_spec m needed r evs m' \<longleftrightarrow>
     kv_inv m' \<and> evicted_tables evs m m'
     \<and> needed \<le> free_blocks (km_allocator m')
     \<and> free_blocks (km_allocator m') = free_blocks (km_allocator m)
          + sum_list (map (\<lambda>v. int (blocks_held m v)) evs)
     \<and> distinct evs \<and> (\<forall>v \<in> set evs. evictable m r v)
     \<and> (evs \<noteq> [] \<longrightarrow> free_blocks (km_allocator m') < needed + int (blocks_held m (last evs)))
     \<and> (km_policy m = NEWEST \<longrightarrow>
          evs = take (length evs) (filter (evictable m r) (rev (km_admission_order m))))
     \<and> km_preemptions m' = km_preemptions m + length evs
     \<and> km_recomputed_tokens m' = km_recomputed_tokens m + sum_list (map (tokens_held m) evs)"

lemma evicted_tables_order:
  assumes "kv_inv m" "kv_inv m'" "evicted_tables evs m m'"
  shows "km_admission_order m' = km_admission_order m"
  using assms by (simp add: kv_invD(3) evicted_tables_def)

lemma evictable_after:
  assumes "evicted_tables [v] m m1"
  shows "evictable m1 r c \<longleftrightarrow> evictable m r c \<and> c \<noteq> v"
  using evicted_tables_held(1) [OF assms, of c] by (simp add: evictable_def)

lemma eviction_spec_step:
  assumes inv: "kv_inv m" and v: "choose_victim m r = Some v"
    and low: "free_blocks (km_allocator m) < needed"
    and m1: "kv_inv m1" "evicted_tables [v] m m1"
      "free_blocks (km_allocator m1) = free_blocks (km_allocator m) + int (blocks_held m v)"
      "km_preemptions m1 = Suc (km_preemptions m)"
      "km_recomputed_tokens m1 = km_recomputed_tokens m + tokens_held m v"
    and rest: "eviction_spec m1 needed r evs m'"
  shows "eviction_spec m needed r (v # evs) m'"
proof -
  have ev: "evictable m1 r c \<longleftrightarrow> evictable m r c \<and> c \<noteq> v" for c
    by (rule evictable_after [OF m1(2)])
  have rest_ev: "evictable m r c" "c \<noteq> v" if "c \<in> set evs" for c
    using rest(1) that by (simp_all add: eviction_spec_def ev)
  note R = rest(1) [unfolded eviction_spec_def]
  have v_ev: "evictable m r v"
    using choose_victim_Some [OF v] by (auto simp: evictable_iff)
  have maps: "map (tokens_held m1) evs = map (tokens_held m) evs"
      "map (\<lambda>v. int (blocks_held m1 v)) evs = map (\<lambda>v. int (blocks_held m v)) evs"
    using rest_ev(2) by (auto simp: evicted_tables_held [OF m1(2)])
  have tight: "free_blocks (km_allocator m') < needed + int (blocks_held m (last (v # evs)))"
  proof (cases "evs = []")
    case True
    with rest(1) low m1(3) show ?thesis
      by (simp add: eviction_spec_def)
  next
    case False
    then have "last evs \<noteq> v"
      using rest_ev(2) by simp
    with rest(1) False show ?thesis
      by (simp add: eviction_spec_def evicted_tables_held(1) [OF m1(2)])
  qed
  have in_order: "v # evs = take (length (v # evs)) (filter (evictable m r) (rev (km_admission_order m)))"
    if newest: "km_policy m = NEWEST"
  proof -
    let ?F = "filter (evictable m r) (rev (km_admission_order m))"
    obtain F where F: "?F = v # F"
      using v choose_newest [OF newest, of r] by (auto split: list.splits)
    have "distinct (rev (km_admission_order m))"
      using kv_invD(3,4) [OF inv] by simp
    then have "distinct (v # F)"
      unfolding F [symmetric] by (rule distinct_filter)
    have "filter (evictable m1 r) (rev (km_admission_order m)) = filter (\<lambda>c. c \<noteq> v) ?F"
      by (simp add: ev conj_commute cong: filter_cong)
    also have "\<dots> = F"
      using \<open>distinct (v # F)\<close> unfolding F by (auto simp: filter_id_conv)
    finally have "evs = take (length evs) F"
      using rest(1) newest m1(2) evicted_tables_order [OF inv m1(1,2)]
      by (simp add: eviction_spec_def evicted_tables_def)
    then show ?thesis
      unfolding F by simp
  qed
  have tables: "evicted_tables (v # evs) m m'"
    using evicted_tables_trans [OF m1(2), of evs m'] R by simp
  show ?thesis
    unfolding eviction_spec_def
  proof (intro conjI impI)
    show "\<forall>x \<in> set (v # evs). evictable m r x"
      using v_ev rest_ev(1) by simp
    show "distinct (v # evs)"
      using R rest_ev(2) by auto
    show "free_blocks (km_allocator m') = free_blocks (km_allocator m)
        + sum_list (map (\<lambda>v. int (blocks_held m v)) (v # evs))"
      using R m1(3) maps(2) by simp
    show "km_recomputed_tokens m' = km_recomputed_tokens m + sum_list (map (tokens_held m) (v # evs))"
      using R m1(5) maps(1) by simp
    show "km_preemptions m' = km_preemptions m + length (v # evs)"
      using R m1(4) by simp
    show "v # evs = take (length (v # evs)) (filter (evictable m r) (rev (km_admission_order m)))"
      if "km_policy m = NEWEST"
      using that by (rule in_order)
  qed (use R tables tight in simp_all)
qed

lemma evict_loop_ok:
  assumes "kv_inv m" "needed \<le> ba_total (km_allocator m) - int (blocks_held m r)"
  shows "\<exists>evs m'. evict_loop m needed r acc = Inr (acc @ evs, m') \<and> eviction_spec m needed r evs m'
    \<and> (needed \<le> free_blocks (km_allocator m) \<longrightarrow> evs = [] \<and> m' = m)"
  using assms
proof (induction m needed r acc rule: evict_loop.induct)
  case (1 m needed r acc)
  show ?case
  proof (cases "free_blocks (km_allocator m) < needed")
    case False
    then have "evict_loop m needed r acc = Inr (acc @ [], m)"
      by (simp add: evict_loop.simps [of m])
    moreover have "eviction_spec m needed r [] m"
      using 1(2) False by (simp add: eviction_spec_def evicted_tables_def)
    ultimately show ?thesis
      using False by (intro exI [of _ "[]"] exI [of _ m]) simp
  next
    case low: True
    have "choose_victim m r \<noteq> None"
    proof
      assume "choose_victim m r = None"
      then have none: "\<not> evictable m r c" for c
        by (rule choose_victim_None [OF 1(2)])
      have "reclaimable_blocks m r = 0"
        unfolding reclaimable_blocks_def
      proof (rule sum_list_map_zero, clarsimp)
        fix s t assume "(s, t) \<in> set (km_tables m)" "s \<noteq> r"
        with none [of s] kv_invD(4) [OF 1(2)] show "sb_blocks t = []"
          by (simp add: evictable_iff)
      qed
      then show False
        using free_plus_reclaimable [OF 1(2), of r] low 1(3) by simp
    qed
    then obtain v where v: "choose_victim m r = Some v"
      by blast
    then obtain t where t: "map_of (km_tables m) v = Some t"
      using choose_victim_Some(3) by blast
    obtain m1 where m1: "drop_table m v t = Inr m1" "kv_inv m1" "evicted_tables [v] m m1"
      "free_blocks (km_allocator m1) = free_blocks (km_allocator m) + int (blocks_held m v)"
      "km_preemptions m1 = Suc (km_preemptions m)"
      "km_recomputed_tokens m1 = km_recomputed_tokens m + tokens_held m v"
      by (rule drop_table_ok [OF 1(2) t])
    have "needed \<le> ba_total (km_allocator m1) - int (blocks_held m1 r)"
      using 1(3) m1(3) choose_victim_Some(2) [OF v]
      by (simp add: evicted_tables_held(1) [OF m1(3)]) (simp add: evicted_tables_def)
    from 1(1) [OF low v t m1(1,2) this]
    obtain evs m' where loop: "evict_loop m1 needed r (acc @ [v]) = Inr ((acc @ [v]) @ evs, m')"
        "eviction_spec m1 needed r evs m'"
        "needed \<le> free_blocks (km_allocator m1) \<longrightarrow> evs = [] \<and> m' = m1"
      by blast
    have "eviction_spec m needed r (v # evs) m'"
      using loop(2) by (rule eviction_spec_step [OF 1(2) v low m1(2-6)])
    moreover have "evict_loop m needed r acc = Inr (acc @ v # evs, m')"
      using low v t m1(1) loop(1) by (simp add: evict_loop.simps [of m])
    ultimately show ?thesis
      using low by auto
  qed
qed

section \<open>Growing a table\<close>

lemma allocate_loop_ok:
  assumes "ba_inv a" "n \<le> length (ba_free a)"
  shows "\<exists>a' bs. allocate_loop n a t = Inr (a', t\<lparr>sb_blocks := sb_blocks t @ bs\<rparr>)
    \<and> ba_inv a' \<and> length bs = n \<and> mset (ba_free a) = mset bs + mset (ba_free a')
    \<and> ba_universe a' = ba_universe a \<and> ba_block_size a' = ba_block_size a
    \<and> ba_total a' = ba_total a
    \<and> (\<forall>b. ba_rc a' b = (if b \<in> set bs then 1 else ba_rc a b))"
  using assms
proof (induction n arbitrary: a t)
  case 0
  then show ?case
    by (intro exI [of _ a] exI [of _ "[]"]) simp
next
  case (Suc n)
  from Suc.prems(2) have "ba_free a \<noteq> []"
    by auto
  from pool.alloc_some [OF Suc.prems(1) this]
  obtain b a1 where a1: "allocate a = Inr (Some b, a1)" "ba_inv a1"
      "ba_universe a1 = ba_universe a" "ba_rc a1 = (ba_rc a)(b := 1)"
      "mset (ba_free a) = add_mset b (mset (ba_free a1))"
    by blast
  have "length (ba_free a) = Suc (length (ba_free a1))"
    using arg_cong [OF a1(5), of size] by simp
  with Suc.prems(2) have "n \<le> length (ba_free a1)"
    by simp
  from Suc.IH [OF a1(2) this, of "append_block b t"]
  obtain a' bs where IH: "allocate_loop n a1 (append_block b t)
      = Inr (a', append_block b t\<lparr>sb_blocks := sb_blocks (append_block b t) @ bs\<rparr>)"
    "ba_inv a'" "length bs = n" "mset (ba_free a1) = mset bs + mset (ba_free a')"
    "ba_universe a' = ba_universe a1" "ba_block_size a' = ba_block_size a1"
    "ba_total a' = ba_total a1" "\<forall>b. ba_rc a' b = (if b \<in> set bs then 1 else ba_rc a1 b)"
    by blast
  have "allocate_loop (Suc n) a t = Inr (a', t\<lparr>sb_blocks := sb_blocks t @ (b # bs)\<rparr>)"
    using a1(1) IH(1) by (simp add: append_block_def)
  then show ?case
    using IH(2-) a1(3-5) allocate_sizes [OF a1(1)]
    by (intro exI [of _ a'] exI [of _ "b # bs"]) simp
qed

lemma additional_blocks_spec:
  assumes "table_ok bsize s t" "0 < bsize" "0 \<le> tokens"
    and "map_of (km_tables m) s = Some t" "km_block_size m = bsize"
  defines "n \<equiv> additional_blocks_for m s tokens"
  shows "0 \<le> n" "sb_tokens t + tokens \<le> capacity t + n * bsize"
    "capacity t + n * bsize < sb_tokens t + tokens + bsize"
proof -
  let ?w = "sb_tokens t + tokens - capacity t"
  have n: "n = (if ?w \<le> 0 then 0 else ceil_div ?w bsize)"
    using assms(4,5) by (simp add: n_def additional_blocks_for_def Let_def)
  show "0 \<le> n"
    using ceil_div_nonneg [OF assms(2), of ?w] by (simp add: n)
  show "sb_tokens t + tokens \<le> capacity t + n * bsize"
    "capacity t + n * bsize < sb_tokens t + tokens + bsize"
    using ceil_div_bounds [OF assms(2), of ?w] assms(1,3)
    by (auto simp: n table_ok_def slack_def)
qed

lemma grow_table_ok:
  assumes inv: "kv_inv m" and t: "map_of (km_tables m) s = Some t" and "0 \<le> tokens"
    and n: "n = additional_blocks_for m s tokens" "n \<le> free_blocks (km_allocator m)"
  obtains m' where "grow_table m s t n tokens = Inr m'" "kv_inv m'"
    "blocks_held m' s = blocks_held m s + nat n"
    "tokens_held m' s = tokens_held m s + tokens"
    "\<And>x. x \<noteq> s \<Longrightarrow> map_of (km_tables m') x = map_of (km_tables m) x"
    "keys (km_tables m') = keys (km_tables m)" "km_policy m' = km_policy m"
    "ba_total (km_allocator m') = ba_total (km_allocator m)"
    "km_preemptions m' = km_preemptions m" "km_recomputed_tokens m' = km_recomputed_tokens m"
    "free_blocks (km_allocator m') = free_blocks (km_allocator m) - n"
proof -
  note D = kv_invD [OF inv]
  note ok = D(5) [OF t]
  note spec = additional_blocks_spec [OF ok D(8) assms(3) t refl, folded n(1)]
  have "nat n \<le> length (ba_free (km_allocator m))"
    using n(2) by (simp add: free_blocks_def)
  from allocate_loop_ok [OF D(1) this, of t]
  obtain a bs where a: "allocate_loop (nat n) (km_allocator m) t
      = Inr (a, t\<lparr>sb_blocks := sb_blocks t @ bs\<rparr>)"
    "ba_inv a" "length bs = nat n" "mset (ba_free (km_allocator m)) = mset bs + mset (ba_free a)"
    "ba_universe a = ba_universe (km_allocator m)"
    "ba_block_size a = ba_block_size (km_allocator m)" "ba_total a = ba_total (km_allocator m)"
    "\<And>b. ba_rc a b = (if b \<in> set bs then 1 else ba_rc (km_allocator m) b)"
    by blast
  let ?t = "t\<lparr>sb_blocks := sb_blocks t @ bs\<rparr>"
  let ?t' = "?t\<lparr>sb_tokens := sb_tokens t + tokens\<rparr>"
  have cap: "capacity ?t = capacity t + n * km_block_size m"
    using ok a(3) spec(1) by (simp add: capacity_def table_ok_def distrib_right)
  then have ok': "table_ok (km_block_size m) s ?t'"
    using ok assms(3) spec(2,3) by (simp add: table_ok_def slack_def capacity_def)
  define m' where "m' = m\<lparr>km_allocator := a, km_tables := AList.update s ?t' (km_tables m)\<rparr>"
  have grow: "grow_table m s t n tokens = Inr m'"
    using a(1) cap spec(2) by (simp add: grow_table_def add_tokens_def m'_def)
  have "s \<in> set (keys (km_tables m))"
    using t by (auto dest: map_of_SomeD intro: rev_image_eqI)
  then have ks: "keys (km_tables m') = keys (km_tables m)"
    by (simp add: m'_def dict_simps)
  have "held_blocks m' + mset (sb_blocks t) = held_blocks m + mset bs + mset (sb_blocks t)"
    using total_of_update [OF t, of "\<lambda>t. mset (sb_blocks t)" ?t']
    by (simp add: held_blocks_def m'_def ac_simps)
  then have held: "held_blocks m' = held_blocks m + mset bs"
    by simp
  have size: "length (ba_references a) = pool_size m"
    using a(5) by (simp add: ba_universe_def pool_size_def)
  have "kv_inv m'"
    unfolding kv_inv_def held
    using D a(2,4,6,8) ks ok' size
    by (auto simp: m'_def dict_simps pool_size_def ac_simps)
  moreover have "blocks_held m' s = blocks_held m s + nat n"
    using a(3) by (simp add: blocks_held_def m'_def dict_simps t)
  moreover have "tokens_held m' s = tokens_held m s + tokens"
    by (simp add: tokens_held_def m'_def dict_simps t)
  moreover have "length (ba_free (km_allocator m)) = length bs + length (ba_free a)"
    using arg_cong [OF a(4), of size] by simp
  then have "free_blocks (km_allocator m') = free_blocks (km_allocator m) - n"
    using a(3) spec(1) by (simp add: m'_def free_blocks_def)
  ultimately show ?thesis
    using grow ks a(7) by (intro that [of m']) (simp_all add: m'_def dict_simps)
qed

section \<open>Registration\<close>

lemma register_inv:
  assumes "kv_inv m" "map_of (km_tables m) s = None"
  shows "kv_inv (register m s)"
proof -
  have s: "s \<notin> set (keys (km_tables m))"
    using assms(2) by (simp add: map_of_eq_None_iff)
  have "held_blocks (register m s) = held_blocks m"
    using total_of_fresh [OF s, of "\<lambda>t. mset (sb_blocks t)" "SequenceBlockTable s (km_block_size m)"]
    by (simp add: held_blocks_def register_def SequenceBlockTable_def)
  then show ?thesis
    using kv_invD [OF assms(1)] s
    by (auto simp: kv_inv_def register_def dict_simps pool_size_def fresh_table_ok)
qed

lemma register_held [simp]:
  assumes "map_of (km_tables m) s = None"
  shows "blocks_held (register m s) x = blocks_held m x"
    "tokens_held (register m s) x = tokens_held m x"
    "km_allocator (register m s) = km_allocator m"
    "km_policy (register m s) = km_policy m"
    "km_preemptions (register m s) = km_preemptions m"
    "km_recomputed_tokens (register m s) = km_recomputed_tokens m"
  using assms
  by (auto simp: blocks_held_def tokens_held_def register_def dict_simps SequenceBlockTable_def)

lemma additional_blocks_register:
  assumes "map_of (km_tables m) s = None" "0 < tokens"
  shows "additional_blocks_for (register m s) s tokens = additional_blocks_for m s tokens"
  using assms
  by (simp add: additional_blocks_for_def register_def dict_simps SequenceBlockTable_def
      capacity_def Let_def)

text \<open>The manager \<open>_reserve\<close> works on: the sequence is known from here on.\<close>

definition enrolled :: "kv_manager \<Rightarrow> int \<Rightarrow> kv_manager" where
  "enrolled m s = (if map_of (km_tables m) s = None then register m s else m)"

lemma enrolled_facts:
  assumes "kv_inv m"
  shows "kv_inv (enrolled m s)" "\<exists>t. map_of (km_tables (enrolled m s)) s = Some t"
    "blocks_held (enrolled m s) x = blocks_held m x"
    "tokens_held (enrolled m s) x = tokens_held m x"
    "km_allocator (enrolled m s) = km_allocator m"
    "km_policy (enrolled m s) = km_policy m"
    "km_preemptions (enrolled m s) = km_preemptions m"
    "km_recomputed_tokens (enrolled m s) = km_recomputed_tokens m"
    "0 < tokens \<Longrightarrow> additional_blocks_for (enrolled m s) s tokens = additional_blocks_for m s tokens"
proof -
  show "kv_inv (enrolled m s)"
    using register_inv [OF assms, of s] assms by (simp add: enrolled_def)
  show "\<exists>t. map_of (km_tables (enrolled m s)) s = Some t"
    by (cases "map_of (km_tables m) s") (auto simp: enrolled_def register_def dict_simps)
qed (auto simp: enrolled_def additional_blocks_register)

section \<open>Reservation\<close>

text \<open>What a successful reservation did: the victims, then the growth of one table.\<close>

definition reserved ::
  "kv_manager \<Rightarrow> int \<Rightarrow> int \<Rightarrow> int list \<Rightarrow> kv_manager \<Rightarrow> bool" where
  "reserved m s tokens evs m' \<longleftrightarrow>
     (\<exists>m2. eviction_spec (enrolled m s) (additional_blocks_for m s tokens) s evs m2
        \<and> kv_inv m'
        \<and> blocks_held m' s = blocks_held m s + nat (additional_blocks_for m s tokens)
        \<and> tokens_held m' s = tokens_held m s + tokens
        \<and> (\<forall>x. x \<noteq> s \<longrightarrow> map_of (km_tables m') x = map_of (km_tables m2) x)
        \<and> keys (km_tables m') = keys (km_tables m2)
        \<and> km_policy m' = km_policy m
        \<and> free_blocks (km_allocator m') = free_blocks (km_allocator m)
             + sum_list (map (\<lambda>v. int (blocks_held m v)) evs) - additional_blocks_for m s tokens
        \<and> ba_total (km_allocator m') = ba_total (km_allocator m)
        \<and> km_preemptions m' = km_preemptions m2
        \<and> km_recomputed_tokens m' = km_recomputed_tokens m2)"

lemma reserve_unfold:
  assumes "kv_inv m" "0 < tokens" "creating \<or> map_of (km_tables m) s \<noteq> None"
    and "map_of (km_tables (enrolled m s)) s = Some t"
  shows "reserve m s tokens creating =
    (let n = additional_blocks_for m s tokens; m1 = enrolled m s in
     if n > ba_total (km_allocator m) then Inr (AdmissionOutcome\<lparr>ao_result := INSUFFICIENT_CACHE\<rparr>, m1)
     else if free_blocks (km_allocator m) < n then
       rbind (evict_until m1 n s) (\<lambda>(evs, m2).
         if free_blocks (km_allocator m2) < n
         then Inr (AdmissionOutcome\<lparr>ao_preempted := evs, ao_result := INSUFFICIENT_CACHE\<rparr>, m2)
         else rbind (grow_table m2 s t n tokens)
           (\<lambda>m'. Inr (AdmissionOutcome\<lparr>ao_preempted := evs, ao_result := PREEMPTED_OTHERS\<rparr>, m')))
     else rbind (grow_table m1 s t n tokens) (\<lambda>m'. Inr (AdmissionOutcome, m')))"
proof -
  have "(if creating \<and> map_of (km_tables m) s = None then register m s else m) = enrolled m s"
    using assms(3) by (auto simp: enrolled_def)
  then show ?thesis
    using assms(2,4) enrolled_facts(5,9) [OF assms(1)]
    by (simp add: reserve_def Let_def split_def)
qed

lemma reserve_refused:
  assumes inv: "kv_inv m" and "0 < tokens" "creating \<or> map_of (km_tables m) s \<noteq> None"
    and big: "ba_total (km_allocator m) - int (blocks_held m s) < additional_blocks_for m s tokens"
  shows "reserve m s tokens creating =
    Inr (AdmissionOutcome\<lparr>ao_result := INSUFFICIENT_CACHE\<rparr>, enrolled m s)"
proof -
  let ?n = "additional_blocks_for m s tokens"
  note E = enrolled_facts [OF inv, of s]
  obtain t where t: "map_of (km_tables (enrolled m s)) s = Some t"
    using E(2) by blast
  have sum: "free_blocks (km_allocator m) + reclaimable_blocks (enrolled m s) s < ?n"
    using free_plus_reclaimable [OF E(1), of s] big by (simp add: E)
  moreover have "0 \<le> reclaimable_blocks (enrolled m s) s"
    unfolding reclaimable_blocks_def by (rule sum_list_nonneg) auto
  ultimately have "free_blocks (km_allocator m) < ?n"
    by simp
  with sum show ?thesis
    by (simp add: reserve_unfold [OF inv assms(2,3) t] evict_until_def E(5) Let_def
        AdmissionOutcome_def)
qed

lemma reserve_fits:
  assumes inv: "kv_inv m" and "0 < tokens" "creating \<or> map_of (km_tables m) s \<noteq> None"
    and fits: "additional_blocks_for m s tokens \<le> ba_total (km_allocator m) - int (blocks_held m s)"
  shows "\<exists>evs m'. reserve m s tokens creating =
      Inr (\<lparr>ao_result = (if additional_blocks_for m s tokens \<le> free_blocks (km_allocator m)
                          then ADMITTED else PREEMPTED_OTHERS), ao_preempted = evs\<rparr>, m')
    \<and> reserved m s tokens evs m'
    \<and> (additional_blocks_for m s tokens \<le> free_blocks (km_allocator m) \<longrightarrow> evs = [])"
proof -
  let ?n = "additional_blocks_for m s tokens" and ?m1 = "enrolled m s"
  note E = enrolled_facts [OF inv, of s]
  obtain t where t: "map_of (km_tables ?m1) s = Some t"
    using E(2) by blast
  have "?n \<le> ba_total (km_allocator ?m1) - int (blocks_held ?m1 s)"
    using fits by (simp add: E)
  from evict_loop_ok [OF E(1) this, of "[]"]
  obtain evs m2 where loop: "evict_loop ?m1 ?n s [] = Inr (evs, m2)"
      "eviction_spec ?m1 ?n s evs m2"
      "?n \<le> free_blocks (km_allocator m) \<longrightarrow> evs = [] \<and> m2 = ?m1"
    by (auto simp: E)
  have m2: "kv_inv m2" "evicted_tables evs ?m1 m2" "?n \<le> free_blocks (km_allocator m2)"
    using loop(2) by (simp_all add: eviction_spec_def)
  have "s \<notin> set evs"
    using loop(2) by (auto simp: eviction_spec_def evictable_def)
  then have t2: "map_of (km_tables m2) s = Some t"
    using m2(2) t by (simp add: evicted_tables_def)
  have "km_block_size m2 = km_block_size ?m1"
    using m2(2) by (simp add: evicted_tables_def)
  then have "additional_blocks_for ?m1 s tokens = additional_blocks_for m2 s tokens"
    by (simp add: additional_blocks_for_def t t2 Let_def)
  then have n2: "?n = additional_blocks_for m2 s tokens"
    using enrolled_facts(9) [OF inv assms(2), of s] by simp
  obtain m' where m': "grow_table m2 s t ?n tokens = Inr m'" "kv_inv m'"
    "blocks_held m' s = blocks_held m2 s + nat ?n" "tokens_held m' s = tokens_held m2 s + tokens"
    "\<And>x. x \<noteq> s \<Longrightarrow> map_of (km_tables m') x = map_of (km_tables m2) x"
    "keys (km_tables m') = keys (km_tables m2)" "km_policy m' = km_policy m2"
    "ba_total (km_allocator m') = ba_total (km_allocator m2)"
    "km_preemptions m' = km_preemptions m2" "km_recomputed_tokens m' = km_recomputed_tokens m2"
    "free_blocks (km_allocator m') = free_blocks (km_allocator m2) - ?n"
    using assms(2) by (rule_tac grow_table_ok [OF m2(1) t2 _ n2 m2(3)]) auto
  have "free_blocks (km_allocator m2) = free_blocks (km_allocator m)
      + sum_list (map (\<lambda>v. int (blocks_held m v)) evs)"
    using loop(2) by (simp add: eviction_spec_def E)
  then have "reserved m s tokens evs m'"
    unfolding reserved_def
    using loop(2) m' m2(2) \<open>s \<notin> set evs\<close>
    by (intro exI [of _ m2])
      (simp add: evicted_tables_held [OF m2(2)] E, simp add: evicted_tables_def E)
  moreover have "?n \<le> ba_total (km_allocator m)"
    using fits by simp
  moreover have "\<not> free_blocks (km_allocator m) + reclaimable_blocks ?m1 s < ?n"
    using free_plus_reclaimable [OF E(1), of s] fits by (simp add: E)
  ultimately show ?thesis
    using m'(1) loop(1,3) m2(3)
    by (auto simp: reserve_unfold [OF inv assms(2,3) t] evict_until_def E(5) Let_def
        AdmissionOutcome_def)
qed

end
