(* ===== verification/KV_Properties.thy ===== *)
theory KV_Properties
  imports KV_Operations
begin

text \<open>
  The contract of \<open>KVCacheManager\<close>, stated for every manager a client can reach: the
  transition relation of its four mutating methods, the invariant, and the theorems a
  scheduler depends on.
\<close>

section \<open>Reachable managers\<close>

text \<open>
  A client calls the methods with a non-negative token count. The count is an
  unchecked Python int: a negative one is outside the contract.
\<close>

inductive kv_reachable :: "kv_manager \<Rightarrow> bool" where
  kv_start: "KVCacheManager n bsize policy = Inr m \<Longrightarrow> kv_reachable m"
| kv_admit: "kv_reachable m \<Longrightarrow> 0 \<le> tokens \<Longrightarrow> admit m s tokens = Inr (out, m') \<Longrightarrow> kv_reachable m'"
| kv_extend: "kv_reachable m \<Longrightarrow> 0 \<le> tokens \<Longrightarrow> extend m s tokens = Inr (out, m') \<Longrightarrow> kv_reachable m'"
| kv_preempt: "kv_reachable m \<Longrightarrow> preempt m s = Inr (n, m') \<Longrightarrow> kv_reachable m'"
| kv_released: "kv_reachable m \<Longrightarrow> kv_release m s = Inr m' \<Longrightarrow> kv_reachable m'"

lemma reserve_inv [inv_intros]:
  assumes "kv_inv m" "0 \<le> tokens" "reserve m s tokens creating = Inr (out, m')"
  shows "kv_inv m'"
proof (cases "0 < tokens \<and> (creating \<or> map_of (km_tables m) s \<noteq> None)")
  case False
  with assms show ?thesis
    by (auto simp: reserve_def Let_def split: if_splits)
next
  case True
  then have *: "0 < tokens" "creating \<or> map_of (km_tables m) s \<noteq> None"
    by auto
  show ?thesis
  proof (cases "additional_blocks_for m s tokens \<le> ba_total (km_allocator m) - int (blocks_held m s)")
    case fits: True
    from reserve_fits [OF assms(1) * fits] assms(3) show ?thesis
      by (auto simp: reserved_def)
  next
    case False
    with reserve_refused [OF assms(1) *] assms(3) enrolled_facts(1) [OF assms(1), of s]
    show ?thesis by simp
  qed
qed

lemma preempt_inv [inv_intros]:
  assumes "kv_inv m" "preempt m s = Inr (n, m')"
  shows "kv_inv m'"
proof (cases "map_of (km_tables m) s")
  case None
  with assms show ?thesis by (simp add: preempt_def)
next
  case (Some t)
  obtain m1 where "drop_table m s t = Inr m1" "kv_inv m1"
    by (rule drop_table_ok [OF assms(1) Some])
  with assms Some show ?thesis
    by (simp add: preempt_def split: if_splits)
qed

text \<open>Releasing removes the sequence and returns its blocks.\<close>

lemma kv_release_ok:
  assumes inv: "kv_inv m"
  obtains m' where "kv_release m s = Inr m'" "kv_inv m'"
    "\<And>x. map_of (km_tables m') x = (if x = s then None else map_of (km_tables m) x)"
    "free_blocks (km_allocator m') = free_blocks (km_allocator m) + int (blocks_held m s)"
    "ba_total (km_allocator m') = ba_total (km_allocator m)"
proof (cases "map_of (km_tables m) s")
  case None
  then show ?thesis
    using inv by (intro that [of m]) (auto simp: kv_release_def blocks_held_def)
next
  case (Some t)
  obtain a r where a: "rfold release_block (sb_blocks t) (km_allocator m) = Inr a"
    "ba_inv a" "ba_block_size a = ba_block_size (km_allocator m)"
    "ba_total a = ba_total (km_allocator m)" "length (ba_references a) = pool_size m"
    "mset (ba_free a) = mset (ba_free (km_allocator m)) + mset (sb_blocks t)"
    "held_blocks m = mset (sb_blocks t) + r" "\<And>b. b \<in># r \<Longrightarrow> ba_rc a b = 1"
    by (rule release_table [OF inv Some]) blast
  let ?m' = "m\<lparr>km_allocator := a, km_tables := AList.delete s (km_tables m),
    km_admission_order := filter (\<lambda>x. x \<noteq> s) (km_admission_order m)\<rparr>"
  have "held_blocks ?m' = r"
    using total_of_delete [OF kv_invD(4) [OF inv] Some, of "\<lambda>t. mset (sb_blocks t)"] a(7)
    by (simp add: held_blocks_def)
  then have "kv_inv ?m'"
    using kv_invD [OF inv] a(2-8)
    by (auto simp: kv_inv_def dict_simps pool_size_def ac_simps)
  moreover have "length (ba_free a) = length (ba_free (km_allocator m)) + length (sb_blocks t)"
    using arg_cong [OF a(6), of size] by simp
  ultimately show ?thesis
    using a(1,4) Some
    by (intro that [of ?m'])
      (simp_all add: kv_release_def blocks_held_def free_blocks_def dict_simps)
qed

lemma kv_reachable_inv:
  "kv_reachable m \<Longrightarrow> kv_inv m"
proof (induction rule: kv_reachable.induct)
  case (kv_released m s m')
  then show ?case
    by (metis kv_release_ok sum.inject(2))
qed (auto intro: kv_inv_init reserve_inv preempt_inv simp: admit_def extend_def)

section \<open>A running example\<close>

text \<open>
  Four blocks of two slots: sequence 1 with three tokens, sequence 2 with four; the
  cache is full. The witnesses of this theory evaluate operations on it.
\<close>

definition ex_full :: kv_manager where
  "ex_full = \<lparr>km_allocator = \<lparr>ba_total = 4, ba_block_size = 2, ba_free = [],
                               ba_references = [1, 1, 1, 1]\<rparr>,
     km_block_size = 2, km_policy = NEWEST,
     km_tables = [(1, \<lparr>sb_sequence_id = 1, sb_block_size = 2, sb_tokens = 3, sb_blocks = [0, 1]\<rparr>),
                  (2, \<lparr>sb_sequence_id = 2, sb_block_size = 2, sb_tokens = 4, sb_blocks = [2, 3]\<rparr>)],
     km_admission_order = [1, 2], km_preemptions = 0, km_recomputed_tokens = 0\<rparr>"

lemma ex_full_reachable: "kv_reachable ex_full"
proof -
  have "rbind (KVCacheManager 4 2 NEWEST) (\<lambda>m. rbind (admit m 1 3) (\<lambda>(_, m). admit m 2 4))
      = Inr (AdmissionOutcome, ex_full)"
    by code_simp
  then obtain m1 o1 m2 where "KVCacheManager 4 2 NEWEST = Inr m1" "admit m1 1 3 = Inr (o1, m2)"
      "admit m2 2 4 = Inr (AdmissionOutcome, ex_full)"
    by (auto simp: rbind_eq_Inr)
  then show ?thesis
    by (meson kv_start kv_admit zero_le_numeral)
qed

lemma ex_full_admit:
  "admit ex_full 3 2 = Inr (\<lparr>ao_result = PREEMPTED_OTHERS, ao_preempted = [2]\<rparr>,
     \<lparr>km_allocator = \<lparr>ba_total = 4, ba_block_size = 2, ba_free = [2], ba_references = [1, 1, 0, 1]\<rparr>,
      km_block_size = 2, km_policy = NEWEST,
      km_tables = [(1, \<lparr>sb_sequence_id = 1, sb_block_size = 2, sb_tokens = 3, sb_blocks = [0, 1]\<rparr>),
                   (2, \<lparr>sb_sequence_id = 2, sb_block_size = 2, sb_tokens = 0, sb_blocks = []\<rparr>),
                   (3, \<lparr>sb_sequence_id = 3, sb_block_size = 2, sb_tokens = 2, sb_blocks = [3]\<rparr>)],
      km_admission_order = [1, 2, 3], km_preemptions = 1, km_recomputed_tokens = 4\<rparr>)"
  by code_simp

lemma ex_full_refuses:
  "admit ex_full 3 9 = Inr (\<lparr>ao_result = INSUFFICIENT_CACHE, ao_preempted = []\<rparr>, register ex_full 3)"
  by code_simp

section \<open>The theorems\<close>

text \<open>
  C1: No block is lost, shared or handed out twice. In every manager a client can
  reach, the free list and the blocks of all sequence tables together are exactly the
  block ids of the pool, each once.
\<close>

theorem kv_blocks_partition:
  assumes "kv_reachable m"
  shows "mset (ba_free (km_allocator m)) + total_of (\<lambda>t. mset (sb_blocks t)) (km_tables m)
    = mset [0..<nat (ba_total (km_allocator m))]"
  using kv_invD(6,9) [OF kv_reachable_inv [OF assms]] by (simp add: held_blocks_def)

theorem kv_blocks_partition_witness:
  "mset [] + total_of (\<lambda>t. mset (sb_blocks t)) (km_tables ex_full) = mset [0..<4]"
  using kv_blocks_partition [OF ex_full_reachable] by (simp add: ex_full_def)

lemma reserve_cases:
  assumes "kv_inv m" "0 < tokens" "reserve m s tokens creating = Inr (out, m')"
  obtains (fits) "outcome_ok out" "reserved m s tokens (ao_preempted out) m'"
      "additional_blocks_for m s tokens \<le> ba_total (km_allocator m) - int (blocks_held m s)"
      "ao_preempted out \<noteq> [] \<Longrightarrow> ao_result out = PREEMPTED_OTHERS"
    | (refused) "out = AdmissionOutcome\<lparr>ao_result := INSUFFICIENT_CACHE\<rparr>" "m' = enrolled m s"
      "ba_total (km_allocator m) - int (blocks_held m s) < additional_blocks_for m s tokens"
proof -
  have known: "creating \<or> map_of (km_tables m) s \<noteq> None"
  proof (rule ccontr)
    assume "\<not> ?thesis"
    with assms(2) have "reserve m s tokens creating = Inl KeyError"
      by (simp add: reserve_def)
    with assms(3) show False by simp
  qed
  show ?thesis
  proof (cases "additional_blocks_for m s tokens \<le> ba_total (km_allocator m) - int (blocks_held m s)")
    case True
    from reserve_fits [OF assms(1,2) known True] assms(3) that(1) True show ?thesis
      by (auto simp: outcome_ok_def split: if_splits)
  next
    case False
    with reserve_refused [OF assms(1,2) known] assms(3) that(2) show ?thesis
      by simp
  qed
qed

lemma reserve_granted:
  assumes "kv_inv m" "0 < tokens" "reserve m s tokens creating = Inr (out, m')" "outcome_ok out"
  shows "reserved m s tokens (ao_preempted out) m'"
  by (cases rule: reserve_cases [OF assms(1-3)])
    (use assms(4) in \<open>simp_all add: outcome_ok_def AdmissionOutcome_def\<close>)

text \<open>
  Admission is decided by one count and never raises. On a reachable manager,
  admitting any positive number of tokens returns an outcome, and it succeeds exactly
  when the blocks it needs are no more than everything the sequence does not already
  hold: what is free plus what all others could give back.
\<close>

theorem admit_decides:
  assumes "kv_reachable m" "0 < tokens"
  shows "\<exists>out m'. admit m s tokens = Inr (out, m') \<and>
    (outcome_ok out \<longleftrightarrow>
      additional_blocks_for m s tokens \<le> free_blocks (km_allocator m) + reclaimable_blocks m s)"
proof -
  note inv = kv_reachable_inv [OF assms(1)]
  have "\<exists>out m'. admit m s tokens = Inr (out, m')"
    using reserve_fits [OF inv assms(2), of True s] reserve_refused [OF inv assms(2), of True s]
    by (cases "additional_blocks_for m s tokens \<le> ba_total (km_allocator m) - int (blocks_held m s)")
      (auto simp: admit_def)
  then obtain out m' where out: "admit m s tokens = Inr (out, m')"
    by blast
  show ?thesis
    using reserve_cases [OF inv assms(2) out [unfolded admit_def]] out
    by (cases rule: reserve_cases [OF inv assms(2) out [unfolded admit_def]])
      (auto simp: free_plus_reclaimable [OF inv] outcome_ok_def)
qed

theorem admit_decides_witness:
  "\<exists>out m'. admit ex_full 3 9 = Inr (out, m') \<and>
    (outcome_ok out \<longleftrightarrow> additional_blocks_for ex_full 3 9 \<le>
       free_blocks (km_allocator ex_full) + reclaimable_blocks ex_full 3)"
  by (rule admit_decides [OF ex_full_reachable]) simp

text \<open>
  C2: A refused admission destroys nothing. When \<open>admit\<close> or \<open>extend\<close> answers
  INSUFFICIENT_CACHE, no sequence was evicted, the pool is untouched, and every sequence
  holds what it held before, although the request was larger than what eviction could
  ever free.
\<close>

theorem refusal_is_harmless:
  assumes "kv_reachable m" "0 < tokens" "reserve m s tokens creating = Inr (out, m')"
    and "\<not> outcome_ok out"
  shows "ao_preempted out = [] \<and> km_allocator m' = km_allocator m
    \<and> km_preemptions m' = km_preemptions m
    \<and> (\<forall>x. tokens_held m' x = tokens_held m x \<and> blocks_held m' x = blocks_held m x)"
proof -
  note inv = kv_reachable_inv [OF assms(1)]
  have "out = AdmissionOutcome\<lparr>ao_result := INSUFFICIENT_CACHE\<rparr> \<and> m' = enrolled m s"
    using reserve_cases [OF inv assms(2,3)] assms(4) by metis
  then show ?thesis
    using enrolled_facts [OF inv] by (simp add: AdmissionOutcome_def)
qed

theorem refusal_is_harmless_witness:
  "km_allocator (register ex_full 3) = km_allocator ex_full
    \<and> tokens_held (register ex_full 3) 2 = 4"
  using refusal_is_harmless [OF ex_full_reachable _ ex_full_refuses [unfolded admit_def]]
  by (simp add: outcome_ok_def) (simp add: tokens_held_def ex_full_def)

text \<open>
  C3: A granted reservation does exactly what it says. The sequence gains the tokens,
  it is never among its own victims, every victim held blocks and is left with none but
  stays known, every other sequence keeps its tokens and blocks, and the preemption and
  recomputation counters account for precisely the victims.
\<close>

theorem reservation_effect:
  assumes "kv_reachable m" "0 < tokens" "reserve m s tokens creating = Inr (out, m')"
    and "outcome_ok out"
  shows "tokens_held m' s = tokens_held m s + tokens
    \<and> s \<notin> set (ao_preempted out) \<and> distinct (ao_preempted out)
    \<and> (\<forall>v \<in> set (ao_preempted out). 0 < blocks_held m v)
    \<and> (\<forall>x. x \<noteq> s \<longrightarrow>
         tokens_held m' x = (if x \<in> set (ao_preempted out) then 0 else tokens_held m x)
       \<and> blocks_held m' x = (if x \<in> set (ao_preempted out) then 0 else blocks_held m x))
    \<and> (\<forall>x. is_admitted m' x \<longleftrightarrow> x = s \<or> is_admitted m x)
    \<and> km_preemptions m' = km_preemptions m + length (ao_preempted out)
    \<and> km_recomputed_tokens m'
        = km_recomputed_tokens m + sum_list (map (tokens_held m) (ao_preempted out))"
proof -
  note inv = kv_reachable_inv [OF assms(1)]
  note E = enrolled_facts [OF inv, of s]
  obtain m2 where spec: "eviction_spec (enrolled m s) (additional_blocks_for m s tokens) s
        (ao_preempted out) m2"
    and m': "tokens_held m' s = tokens_held m s + tokens"
      "\<And>x. x \<noteq> s \<Longrightarrow> map_of (km_tables m') x = map_of (km_tables m2) x"
      "keys (km_tables m') = keys (km_tables m2)"
      "km_preemptions m' = km_preemptions m2" "km_recomputed_tokens m' = km_recomputed_tokens m2"
    using reserve_granted [OF inv assms(2-4)] unfolding reserved_def by blast
  note S = spec [unfolded eviction_spec_def]
  have ev: "evicted_tables (ao_preempted out) (enrolled m s) m2"
    using S by blast
  have other: "tokens_held m' x = (if x \<in> set (ao_preempted out) then 0 else tokens_held m x)
       \<and> blocks_held m' x = (if x \<in> set (ao_preempted out) then 0 else blocks_held m x)"
    if "x \<noteq> s" for x
    using evicted_tables_held [OF ev, of x] m'(2) [OF that]
    by (simp add: tokens_held_def [of m'] blocks_held_def [of m']
        tokens_held_def [of m2] blocks_held_def [of m2] E)
  have "keys (km_tables m') = keys (km_tables (enrolled m s))"
    using m'(3) ev by (simp add: evicted_tables_def)
  then have "is_admitted m' x \<longleftrightarrow> is_admitted (enrolled m s) x" for x
    unfolding is_admitted_def by (metis map_of_eq_None_iff list.set_map)
  moreover have "is_admitted (enrolled m s) x \<longleftrightarrow> x = s \<or> is_admitted m x" for x
    by (auto simp: is_admitted_def enrolled_def register_def dict_simps)
  moreover have "s \<notin> set (ao_preempted out)" "\<forall>v \<in> set (ao_preempted out). 0 < blocks_held m v"
    using S by (auto simp: evictable_def E)
  moreover have "km_recomputed_tokens m'
      = km_recomputed_tokens m + sum_list (map (tokens_held m) (ao_preempted out))"
    "km_preemptions m' = km_preemptions m + length (ao_preempted out)" "distinct (ao_preempted out)"
    using S m'(4,5) ext [of "tokens_held (enrolled m s)", OF E(4)] by (simp_all add: E)
  ultimately show ?thesis
    using m'(1) other by blast
qed

theorem reservation_effect_witness:
  "\<exists>out m'. admit ex_full 3 2 = Inr (out, m') \<and> ao_preempted out = [2]
     \<and> tokens_held m' 3 = 2 \<and> blocks_held m' 2 = 0 \<and> tokens_held m' 1 = 3"
proof -
  let ?out = "\<lparr>ao_result = PREEMPTED_OTHERS, ao_preempted = [2]\<rparr>"
  obtain m' where m': "admit ex_full 3 2 = Inr (?out, m')"
    using ex_full_admit by blast
  have "tokens_held m' 3 = 2 \<and> blocks_held m' 2 = 0 \<and> tokens_held m' 1 = 3"
    using reservation_effect [OF ex_full_reachable _ m' [unfolded admit_def]]
    by (simp add: outcome_ok_def) (simp add: tokens_held_def ex_full_def)
  with m' show ?thesis by auto
qed

text \<open>The eviction behind a granted reservation, seen from the manager before it.\<close>

lemma reservation_eviction:
  assumes "kv_inv m" "0 < tokens" "reserve m s tokens creating = Inr (out, m')" "outcome_ok out"
  obtains m2 where "eviction_spec (enrolled m s) (additional_blocks_for m s tokens) s
    (ao_preempted out) m2"
  using reserve_granted [OF assms] unfolding reserved_def by blast

lemma enrolled_order:
  "filter (evictable (enrolled m s) s) (rev (km_admission_order (enrolled m s)))
    = filter (evictable m s) (rev (km_admission_order m))"
proof (cases "map_of (km_tables m) s")
  case None
  then have "evictable (enrolled m s) s c \<longleftrightarrow> evictable m s c" for c
    by (simp add: evictable_def enrolled_def)
  moreover have "\<not> evictable m s s"
    by (simp add: evictable_def)
  ultimately show ?thesis
    using None by (simp add: enrolled_def register_def cong: filter_cong)
qed (simp add: enrolled_def)

text \<open>
  Older sequences are protected. Under the NEWEST policy the victims of a
  reservation are, in order, the most recently admitted sequences that hold blocks: a
  prefix of the admission order read backwards, the requester skipped.
\<close>

theorem newest_policy_evicts_newest:
  assumes "kv_reachable m" "0 < tokens" "reserve m s tokens creating = Inr (out, m')"
    and "outcome_ok out" "km_policy m = NEWEST"
  shows "\<exists>k. ao_preempted out =
    take k (filter (\<lambda>c. c \<noteq> s \<and> 0 < blocks_held m c) (rev (km_admission_order m)))"
proof -
  note inv = kv_reachable_inv [OF assms(1)]
  obtain m2 where spec: "eviction_spec (enrolled m s) (additional_blocks_for m s tokens) s
      (ao_preempted out) m2"
    by (rule reservation_eviction [OF inv assms(2-4)])
  have "km_policy (enrolled m s) = NEWEST"
    using enrolled_facts(6) [OF inv] assms(5) by simp
  with spec have "ao_preempted out = take (length (ao_preempted out))
      (filter (evictable m s) (rev (km_admission_order m)))"
    unfolding eviction_spec_def enrolled_order by blast
  then show ?thesis
    unfolding evictable_def [abs_def] by blast
qed

theorem newest_policy_evicts_newest_witness:
  "\<exists>k. [2] = take k (filter (\<lambda>c. c \<noteq> 3 \<and> 0 < blocks_held ex_full c) [2, 1])"
  using newest_policy_evicts_newest [OF ex_full_reachable _ ex_full_admit [unfolded admit_def]]
  by (simp add: outcome_ok_def ex_full_def)

text \<open>
  Under the LARGEST policy the victim holds at least as many blocks as any other
  candidate, and strictly more than every candidate admitted before it: ties go to the
  earliest admitted.
\<close>

theorem largest_policy_picks_largest:
  assumes "kv_reachable m" "km_policy m = LARGEST" "choose_victim m r = Some v"
  shows "v \<noteq> r \<and> 0 < blocks_held m v \<and>
    (\<exists>older newer. km_admission_order m = older @ v # newer
      \<and> (\<forall>c \<in> set older. c \<noteq> r \<longrightarrow> blocks_held m c < blocks_held m v)
      \<and> (\<forall>c \<in> set newer. c \<noteq> r \<longrightarrow> blocks_held m c \<le> blocks_held m v))"
proof -
  have scan: "largest_victim (km_tables m) r (km_admission_order m) None 0 = Some v"
    using assms(2,3) by (simp add: choose_victim_def)
  have "0 < blocks_held m v" "v \<noteq> r" "v \<in> set (km_admission_order m)"
    using choose_victim_Some [OF assms(3)] by (auto simp: blocks_held_def)
  then show ?thesis
    using largest_victim_max [OF scan] unfolding blocks_held_def by simp
qed

theorem largest_policy_picks_largest_witness:
  "\<exists>m v. kv_reachable m \<and> km_policy m = LARGEST \<and> choose_victim m 3 = Some v
     \<and> v \<noteq> 3 \<and> 0 < blocks_held m v"
proof -
  have "rbind (KVCacheManager 4 2 LARGEST) (\<lambda>m. rbind (admit m 1 2) (\<lambda>(_, m).
      rbind (admit m 2 4) (\<lambda>(_, m). Inr (km_policy m, choose_victim m 3)))) = Inr (LARGEST, Some 2)"
    by code_simp
  then obtain m0 o1 m1 o2 m2 where run: "KVCacheManager 4 2 LARGEST = Inr m0"
      "admit m0 1 2 = Inr (o1, m1)" "admit m1 2 4 = Inr (o2, m2)"
      and m2: "km_policy m2 = LARGEST" "choose_victim m2 3 = Some 2"
    by (auto simp: rbind_eq_Inr)
  from run have "kv_reachable m2"
    by (meson kv_start kv_admit zero_le_numeral)
  with largest_policy_picks_largest [OF this m2] m2 show ?thesis
    by blast
qed

text \<open>
  Eviction stops as soon as the request fits: without the last victim there would
  still not have been room.
\<close>

theorem eviction_is_minimal:
  assumes "kv_reachable m" "0 < tokens" "reserve m s tokens creating = Inr (out, m')"
    and "outcome_ok out" "ao_preempted out \<noteq> []"
  shows "free_blocks (km_allocator m)
      + sum_list (map (\<lambda>v. int (blocks_held m v)) (butlast (ao_preempted out)))
    < additional_blocks_for m s tokens"
proof -
  note inv = kv_reachable_inv [OF assms(1)]
  note E = enrolled_facts [OF inv, of s]
  obtain m2 where spec: "eviction_spec (enrolled m s) (additional_blocks_for m s tokens) s
      (ao_preempted out) m2"
    by (rule reservation_eviction [OF inv assms(2-4)])
  obtain vs v where vs: "ao_preempted out = vs @ [v]"
    using assms(5) by (cases "ao_preempted out" rule: rev_cases) auto
  show ?thesis
    using spec unfolding eviction_spec_def vs by (simp add: E)
qed

theorem eviction_is_minimal_witness:
  "free_blocks (km_allocator ex_full) < additional_blocks_for ex_full 3 2"
  using eviction_is_minimal [OF ex_full_reachable _ ex_full_admit [unfolded admit_def]]
  by (simp add: outcome_ok_def)

lemma tables_disjoint:
  assumes inv: "kv_inv m" and t: "map_of (km_tables m) s = Some t"
    and t': "map_of (km_tables m) s' = Some t'" and "s \<noteq> s'"
  shows "set (sb_blocks t) \<inter> set (sb_blocks t') = {}"
proof -
  obtain r where r: "held_blocks m = mset (sb_blocks t) + r"
    and b: "\<And>b. b \<in> set (sb_blocks t) \<Longrightarrow>
       b \<in> ba_universe (km_allocator m) \<and> ba_rc (km_allocator m) b = 1 \<and> b \<notin># r
       \<and> b \<notin> set (ba_free (km_allocator m))"
    using inv t by (rule table_blocks) blast
  have "total_of (\<lambda>t. mset (sb_blocks t)) (AList.delete s (km_tables m)) = r"
    using total_of_delete [OF kv_invD(4) [OF inv] t, of "\<lambda>t. mset (sb_blocks t)"] r
    by (simp add: held_blocks_def)
  moreover have "map_of (AList.delete s (km_tables m)) s' = Some t'"
    using t' \<open>s \<noteq> s'\<close> by (simp add: dict_simps)
  then obtain r' where "total_of (\<lambda>t. mset (sb_blocks t)) (AList.delete s (km_tables m))
      = mset (sb_blocks t') + r'"
    by (rule total_of_member)
  ultimately have "mset (sb_blocks t') + r' = r"
    by simp
  then have "b \<in># r" if "b \<in> set (sb_blocks t')" for b
    using that by (metis set_mset_mset union_iff)
  with b show ?thesis
    by blast
qed

lemma kv_locate_in_range:
  assumes inv: "kv_inv m" and i: "0 \<le> i" "i < tokens_held m s"
  obtains t where "map_of (km_tables m) s = Some t"
    "nat (i div km_block_size m) < length (sb_blocks t)"
    "kv_locate m s i = Inr (sb_blocks t ! nat (i div km_block_size m), i mod km_block_size m)"
proof -
  obtain t where t: "map_of (km_tables m) s = Some t" "i < sb_tokens t"
    using i by (auto simp: tokens_held_def split: option.splits)
  note ok = kv_invD(5) [OF inv t(1)] and pos = kv_invD(8) [OF inv]
  have "i < int (length (sb_blocks t)) * km_block_size m"
    using ok t(2) by (auto simp: table_ok_def slack_def capacity_def)
  then have q: "i div km_block_size m < int (length (sb_blocks t))"
    using pos by (intro int_div_less)
  have "0 \<le> i div km_block_size m"
    using i(1) pos by (simp add: pos_imp_zdiv_nonneg_iff)
  with q t ok pos show ?thesis
    by (intro that [OF t(1)])
      (auto simp: kv_locate_def table_locate_def py_floordiv_def py_index_in_range table_ok_def)
qed

text \<open>
  Every token has a home, and it is the sequence's own. For each token a sequence
  holds, \<open>locate\<close> returns without raising a block of the pool that is not free and an
  offset inside the block.
\<close>

theorem locate_finds_every_token:
  assumes "kv_reachable m" "0 \<le> i" "i < tokens_held m s"
  shows "\<exists>b offset. kv_locate m s i = Inr (b, offset) \<and> 0 \<le> offset \<and> offset < km_block_size m
    \<and> int b < ba_total (km_allocator m) \<and> b \<notin> set (ba_free (km_allocator m))"
proof -
  note inv = kv_reachable_inv [OF assms(1)]
  obtain t where t: "map_of (km_tables m) s = Some t"
    "nat (i div km_block_size m) < length (sb_blocks t)"
    "kv_locate m s i = Inr (sb_blocks t ! nat (i div km_block_size m), i mod km_block_size m)"
    by (rule kv_locate_in_range [OF inv assms(2,3)])
  obtain r where "\<And>b. b \<in> set (sb_blocks t) \<Longrightarrow>
       b \<in> ba_universe (km_allocator m) \<and> b \<notin> set (ba_free (km_allocator m))"
    by (rule table_blocks [OF inv t(1)]) blast
  moreover have "sb_blocks t ! nat (i div km_block_size m) \<in> set (sb_blocks t)"
    using t(2) by simp
  ultimately show ?thesis
    using t(3) kv_invD(8,9) [OF inv] by (auto simp: ba_universe_def pool_size_def)
qed

theorem locate_finds_every_token_witness:
  "\<exists>b offset. kv_locate ex_full 2 3 = Inr (b, offset) \<and> 0 \<le> offset \<and> offset < km_block_size ex_full
    \<and> int b < ba_total (km_allocator ex_full) \<and> b \<notin> set (ba_free (km_allocator ex_full))"
  by (rule locate_finds_every_token [OF ex_full_reachable]) (simp_all add: tokens_held_def ex_full_def)

text \<open>
  No two tokens share a slot. If two (sequence, token) pairs are located at the same
  block and offset, they are the same token of the same sequence.
\<close>

theorem locate_is_injective:
  assumes "kv_reachable m" "0 \<le> i" "0 \<le> j"
    and "kv_locate m s i = Inr slot" "kv_locate m s' j = Inr slot"
  shows "s = s' \<and> i = j"
proof -
  note inv = kv_reachable_inv [OF assms(1)]
  have range: "k < tokens_held m x" if "kv_locate m x k = Inr slot" for x k
    using that by (auto simp: kv_locate_def table_locate_def tokens_held_def
        split: option.splits if_splits)
  obtain t where t: "map_of (km_tables m) s = Some t"
    "nat (i div km_block_size m) < length (sb_blocks t)"
    "kv_locate m s i = Inr (sb_blocks t ! nat (i div km_block_size m), i mod km_block_size m)"
    by (rule kv_locate_in_range [OF inv assms(2) range [OF assms(4)]])
  obtain t' where t': "map_of (km_tables m) s' = Some t'"
    "nat (j div km_block_size m) < length (sb_blocks t')"
    "kv_locate m s' j = Inr (sb_blocks t' ! nat (j div km_block_size m), j mod km_block_size m)"
    by (rule kv_locate_in_range [OF inv assms(3) range [OF assms(5)]])
  have eq: "sb_blocks t ! nat (i div km_block_size m) = sb_blocks t' ! nat (j div km_block_size m)"
    "i mod km_block_size m = j mod km_block_size m"
    using t(3) t'(3) assms(4,5) by auto
  have "s = s'"
    using tables_disjoint [OF inv t(1) t'(1)] eq(1) t(2) t'(2)
    by (metis disjoint_iff nth_mem)
  moreover have "distinct (sb_blocks t)"
    by (rule table_blocks [OF inv t(1)])
  ultimately have "nat (i div km_block_size m) = nat (j div km_block_size m)"
    using eq(1) t t' by (simp add: nth_eq_iff_index_eq)
  then have "i div km_block_size m = j div km_block_size m"
    using assms(2,3) kv_invD(8) [OF inv] by (simp add: pos_imp_zdiv_nonneg_iff eq_nat_nat_iff)
  then show ?thesis
    using eq(2) \<open>s = s'\<close> by (metis div_mult_mod_eq)
qed

theorem locate_is_injective_witness:
  "kv_locate ex_full 2 3 = Inr (3, 1) \<and> (2::int) = 2 \<and> (3::int) = 3"
proof -
  have "kv_locate ex_full 2 3 = Inr (3, 1)"
    by code_simp
  with locate_is_injective [OF ex_full_reachable _ _ this this] show ?thesis
    by simp
qed

text \<open>
  Releasing undoes admitting. A new sequence that was admitted without evicting
  anyone and is then released leaves the manager with the same free blocks and the same
  table for every sequence, the released one unknown again.
\<close>

theorem admit_release_roundtrip:
  assumes "kv_reachable m" "0 < tokens" "\<not> is_admitted m s"
    and "admit m s tokens = Inr (out, m')" "outcome_ok out" "ao_preempted out = []"
  shows "\<exists>m''. kv_release m' s = Inr m''
    \<and> free_blocks (km_allocator m'') = free_blocks (km_allocator m)
    \<and> (\<forall>x. map_of (km_tables m'') x = map_of (km_tables m) x)"
proof -
  note inv = kv_reachable_inv [OF assms(1)]
  have none: "map_of (km_tables m) s = None"
    using assms(3) by (simp add: is_admitted_def)
  have "reserved m s tokens [] m'"
    using reserve_granted [OF inv assms(2) assms(4) [unfolded admit_def] assms(5)] assms(6) by simp
  then obtain m2 where m2: "evicted_tables [] (enrolled m s) m2" "kv_inv m'"
      "blocks_held m' s = blocks_held m s + nat (additional_blocks_for m s tokens)"
      "\<forall>x. x \<noteq> s \<longrightarrow> map_of (km_tables m') x = map_of (km_tables m2) x"
      "free_blocks (km_allocator m') = free_blocks (km_allocator m) - additional_blocks_for m s tokens"
    unfolding reserved_def eviction_spec_def by auto
  obtain m'' where m'': "kv_release m' s = Inr m''"
    "\<And>x. map_of (km_tables m'') x = (if x = s then None else map_of (km_tables m') x)"
    "free_blocks (km_allocator m'') = free_blocks (km_allocator m') + int (blocks_held m' s)"
    using kv_release_ok [OF m2(2), of s] by blast
  have "map_of (km_tables m'') x = map_of (km_tables m) x" for x
    using m2(1,4) none by (simp add: m''(2) evicted_tables_def enrolled_def register_def dict_simps)
  moreover have "0 \<le> additional_blocks_for m s tokens"
    using ceil_div_nonneg [OF kv_invD(8) [OF inv], of tokens] assms(2) none
    by (simp add: additional_blocks_for_def)
  then have "free_blocks (km_allocator m'') = free_blocks (km_allocator m)"
    using m''(3) m2(3,5) none by (simp add: blocks_held_def [of m])
  ultimately show ?thesis
    using m''(1) by blast
qed

theorem admit_release_roundtrip_witness:
  "\<exists>m out m' m''. kv_reachable m \<and> admit m 7 3 = Inr (out, m') \<and> kv_release m' 7 = Inr m''
     \<and> free_blocks (km_allocator m'') = free_blocks (km_allocator m)"
proof -
  obtain m where m: "KVCacheManager 4 2 NEWEST = Inr m"
    by (auto simp: KVCacheManager_def BlockAllocator_def)
  have "rbind (KVCacheManager 4 2 NEWEST) (\<lambda>m. rbind (admit m 7 3) (\<lambda>(out, _).
      Inr (out, is_admitted m 7))) = Inr (AdmissionOutcome, False)"
    by code_simp
  then obtain m' where m': "admit m 7 3 = Inr (AdmissionOutcome, m')" "\<not> is_admitted m 7"
    by (auto simp: m rbind_eq_Inr)
  from admit_release_roundtrip [OF kv_start [OF m] _ m'(2,1)] m' kv_start [OF m]
  show ?thesis
    by (auto simp: outcome_ok_def AdmissionOutcome_def)
qed

text \<open>
  A refused admission leaves a mark. A sequence the manager did not know and
  refuses is nevertheless known afterwards: \<open>is_admitted\<close> answers true for it although it
  holds no token and no block, and it stays in the table dictionary until released.
\<close>

theorem refused_admission_stays_known:
  assumes "kv_reachable m" "0 < tokens" "\<not> is_admitted m s"
    and "admit m s tokens = Inr (out, m')" "\<not> outcome_ok out"
  shows "is_admitted m' s \<and> active_sequences m' = active_sequences m + 1
    \<and> tokens_held m' s = 0 \<and> blocks_held m' s = 0"
proof -
  note inv = kv_reachable_inv [OF assms(1)]
  have none: "map_of (km_tables m) s = None"
    using assms(3) by (simp add: is_admitted_def)
  then have fresh: "s \<notin> set (keys (km_tables m))"
    by (simp add: map_of_eq_None_iff)
  have "m' = enrolled m s"
    using reserve_cases [OF inv assms(2) assms(4) [unfolded admit_def]] assms(5) by metis
  then show ?thesis
    using none update_fresh [OF fresh]
    by (simp add: enrolled_def register_def is_admitted_def active_sequences_def dict_simps
        tokens_held_def blocks_held_def SequenceBlockTable_def map_add_def)
qed

theorem refused_admission_stays_known_witness:
  "is_admitted (register ex_full 3) 3 \<and> active_sequences (register ex_full 3) = 3"
proof -
  have "\<not> is_admitted ex_full 3"
    by code_simp
  from refused_admission_stays_known [OF ex_full_reachable _ this ex_full_refuses]
  show ?thesis
    by (simp add: outcome_ok_def) (simp add: active_sequences_def ex_full_def)
qed

end
