(* ===== verification/Config.thy ===== *)
theory Config
  imports Prelude
begin

text \<open>
  \<open>python/cudaforge/config.py\<close>: the two configuration objects, whose constructors
  reject settings that cannot work, and the choice of device and dtype. PyTorch is not
  part of the repository: what the module asks of it is the record \<open>torch_env\<close>. Floats
  are \<open>real\<close>, so the NaN that slips through \<open>temperature < 0\<close> is not represented.
\<close>

section \<open>Sampling parameters\<close>

record generation_config =
  gc_max_new_tokens :: int
  gc_temperature :: real
  gc_top_p :: real
  gc_top_k :: int
  gc_seed :: "int option"

definition gc_defaults :: generation_config where
  "gc_defaults = \<lparr>gc_max_new_tokens = 64, gc_temperature = 1, gc_top_p = 1, gc_top_k = 0,
                  gc_seed = None\<rparr>"

text \<open>\<open>__post_init__\<close>, run on the assembled fields.\<close>

definition GenerationConfig :: "generation_config \<Rightarrow> generation_config result" where
  "GenerationConfig g =
     (if gc_max_new_tokens g \<le> 0 then Inl ValueError
      else if gc_temperature g < 0 then Inl ValueError
      else if \<not> (0 < gc_top_p g \<and> gc_top_p g \<le> 1) then Inl ValueError
      else if gc_top_k g < 0 then Inl ValueError
      else Inr g)"

definition greedy :: "generation_config \<Rightarrow> bool" where
  "greedy g \<longleftrightarrow> gc_temperature g = 0"

section \<open>Engine settings\<close>

record engine_config =
  ec_model_name :: string
  ec_device :: string
  ec_dtype :: string
  ec_max_batch_size :: int
  ec_max_wait_us :: int
  ec_queue_capacity :: int
  ec_worker_threads :: int
  ec_cuda_streams :: int
  ec_max_prompt_chars :: int
  ec_warmup_iterations :: int
  ec_generation :: generation_config

definition ec_defaults :: engine_config where
  "ec_defaults =
     \<lparr>ec_model_name = ''sshleifer/tiny-gpt2'', ec_device = ''auto'', ec_dtype = ''auto'',
      ec_max_batch_size = 16, ec_max_wait_us = 5000, ec_queue_capacity = 1024,
      ec_worker_threads = 4, ec_cuda_streams = 4, ec_max_prompt_chars = 8192,
      ec_warmup_iterations = 3, ec_generation = gc_defaults\<rparr>"

definition EngineConfig :: "engine_config \<Rightarrow> engine_config result" where
  "EngineConfig c =
     (if ec_max_batch_size c \<le> 0 then Inl ValueError
      else if ec_max_wait_us c < 0 then Inl ValueError
      else if ec_queue_capacity c \<le> 0 then Inl ValueError
      else if ec_worker_threads c \<le> 0 then Inl ValueError
      else if ec_cuda_streams c \<le> 0 then Inl ValueError
      else if ec_queue_capacity c < ec_max_batch_size c then Inl ValueError
      else Inr c)"

definition max_wait_seconds :: "engine_config \<Rightarrow> real" where
  "max_wait_seconds c = of_int (ec_max_wait_us c) / 1000000"

section \<open>Device and dtype\<close>

text \<open>
  What PyTorch answers. \<open>te_device\<close> is \<open>torch.device\<close> (which raises on a string it does
  not know), \<open>te_attr\<close> is \<open>getattr(torch, name)\<close>; device types and the built-in dtypes
  are named by strings.
\<close>

record ('d, 'y) torch_env =
  te_device :: "string \<Rightarrow> 'd result"
  te_type :: "'d \<Rightarrow> string"
  te_attr :: "string \<Rightarrow> 'y result"
  te_cuda_available :: bool
  te_mps_available :: bool
  te_bf16_supported :: bool
  te_bfloat16 :: 'y
  te_float16 :: 'y
  te_float32 :: 'y

definition resolve_device :: "('d, 'y) torch_env \<Rightarrow> engine_config \<Rightarrow> 'd result" where
  "resolve_device te c =
     (if ec_device c \<noteq> ''auto'' then te_device te (ec_device c)
      else if te_cuda_available te then te_device te ''cuda''
      else if te_mps_available te then te_device te ''mps''
      else te_device te ''cpu'')"

definition resolve_dtype :: "('d, 'y) torch_env \<Rightarrow> engine_config \<Rightarrow> 'y result" where
  "resolve_dtype te c =
     (if ec_dtype c \<noteq> ''auto'' then te_attr te (ec_dtype c)
      else rbind (resolve_device te c) (\<lambda>d.
        if te_type te d = ''cuda''
        then Inr (if te_bf16_supported te then te_bfloat16 te else te_float16 te)
        else Inr (te_float32 te)))"

section \<open>Construction from a dictionary\<close>

text \<open>
  One keyword argument of \<open>EngineConfig(**payload)\<close>, with a value of the field's own
  type (Python checks no types here, so ill-typed values are outside the model), or a
  name that is no field, on which the call raises \<open>TypeError\<close>. \<open>K_generation\<close> is the
  nested dictionary that \<open>from_dict\<close> takes out first.
\<close>

datatype gen_kwarg =
    G_max_new_tokens int | G_temperature real | G_top_p real | G_top_k int
  | G_seed "int option" | G_unknown string

datatype engine_kwarg =
    K_model_name string | K_device string | K_dtype string | K_max_batch_size int
  | K_max_wait_us int | K_queue_capacity int | K_worker_threads int | K_cuda_streams int
  | K_max_prompt_chars int | K_warmup_iterations int
  | K_generation "gen_kwarg list option" | K_unknown string

fun set_gen_kwarg :: "gen_kwarg \<Rightarrow> generation_config \<Rightarrow> generation_config result" where
  "set_gen_kwarg (G_max_new_tokens n) g = Inr (g\<lparr>gc_max_new_tokens := n\<rparr>)"
| "set_gen_kwarg (G_temperature t) g = Inr (g\<lparr>gc_temperature := t\<rparr>)"
| "set_gen_kwarg (G_top_p p) g = Inr (g\<lparr>gc_top_p := p\<rparr>)"
| "set_gen_kwarg (G_top_k k) g = Inr (g\<lparr>gc_top_k := k\<rparr>)"
| "set_gen_kwarg (G_seed s) g = Inr (g\<lparr>gc_seed := s\<rparr>)"
| "set_gen_kwarg (G_unknown _) g = Inl TypeError"

fun set_engine_kwarg :: "engine_kwarg \<Rightarrow> engine_config \<Rightarrow> engine_config result" where
  "set_engine_kwarg (K_model_name s) c = Inr (c\<lparr>ec_model_name := s\<rparr>)"
| "set_engine_kwarg (K_device s) c = Inr (c\<lparr>ec_device := s\<rparr>)"
| "set_engine_kwarg (K_dtype s) c = Inr (c\<lparr>ec_dtype := s\<rparr>)"
| "set_engine_kwarg (K_max_batch_size n) c = Inr (c\<lparr>ec_max_batch_size := n\<rparr>)"
| "set_engine_kwarg (K_max_wait_us n) c = Inr (c\<lparr>ec_max_wait_us := n\<rparr>)"
| "set_engine_kwarg (K_queue_capacity n) c = Inr (c\<lparr>ec_queue_capacity := n\<rparr>)"
| "set_engine_kwarg (K_worker_threads n) c = Inr (c\<lparr>ec_worker_threads := n\<rparr>)"
| "set_engine_kwarg (K_cuda_streams n) c = Inr (c\<lparr>ec_cuda_streams := n\<rparr>)"
| "set_engine_kwarg (K_max_prompt_chars n) c = Inr (c\<lparr>ec_max_prompt_chars := n\<rparr>)"
| "set_engine_kwarg (K_warmup_iterations n) c = Inr (c\<lparr>ec_warmup_iterations := n\<rparr>)"
| "set_engine_kwarg (K_generation _) c = Inr c"
| "set_engine_kwarg (K_unknown _) c = Inl TypeError"

fun generation_of :: "engine_kwarg list \<Rightarrow> gen_kwarg list option" where
  "generation_of [] = None"
| "generation_of (K_generation g # _) = g"
| "generation_of (_ # ks) = generation_of ks"

definition from_dict :: "engine_kwarg list \<Rightarrow> engine_config result" where
  "from_dict values =
     rbind (rbind (rfold set_engine_kwarg values ec_defaults) EngineConfig) (\<lambda>config.
       case generation_of values of
         None \<Rightarrow> Inr config
       | Some g \<Rightarrow>
           rbind (rbind (rfold set_gen_kwarg g gc_defaults) GenerationConfig) (\<lambda>generation.
             EngineConfig (config\<lparr>ec_generation := generation\<rparr>)))"

section \<open>What a constructed configuration guarantees\<close>

definition generation_ok :: "generation_config \<Rightarrow> bool" where
  "generation_ok g \<longleftrightarrow> 0 < gc_max_new_tokens g \<and> 0 \<le> gc_temperature g
     \<and> 0 < gc_top_p g \<and> gc_top_p g \<le> 1 \<and> 0 \<le> gc_top_k g"

definition engine_ok :: "engine_config \<Rightarrow> bool" where
  "engine_ok c \<longleftrightarrow> 0 < ec_max_batch_size c \<and> 0 \<le> ec_max_wait_us c
     \<and> ec_max_batch_size c \<le> ec_queue_capacity c \<and> 0 < ec_worker_threads c
     \<and> 0 < ec_cuda_streams c"

lemma GenerationConfig_ok [raise_simps]:
  "GenerationConfig g = Inr g' \<longleftrightarrow> g' = g \<and> generation_ok g"
  by (auto simp: GenerationConfig_def generation_ok_def)

lemma EngineConfig_ok [raise_simps]:
  "EngineConfig c = Inr c' \<longleftrightarrow> c' = c \<and> engine_ok c"
  by (auto simp: EngineConfig_def engine_ok_def)

lemma set_engine_kwarg_generation:
  "set_engine_kwarg k c = Inr c' \<Longrightarrow> ec_generation c' = ec_generation c"
  by (cases k) auto

lemma engine_kwargs_generation:
  "rfold set_engine_kwarg ks c = Inr c' \<Longrightarrow> ec_generation c' = ec_generation c"
  by (induction ks arbitrary: c) (auto simp: rbind_eq_Inr dest: set_engine_kwarg_generation)

lemma from_dict_ok:
  assumes "from_dict values = Inr c"
  shows "engine_ok c" "generation_ok (ec_generation c)"
  using assms
  by (auto simp: from_dict_def raise_simps gc_defaults_def generation_ok_def ec_defaults_def
      dest!: engine_kwargs_generation split: option.splits)

end
