(* ===== verification/Metrics.thy ===== *)
theory Metrics
  imports Prelude
begin

text \<open>
  \<open>python/cudaforge/metrics.py\<close>: the latency window with its percentiles, the counters,
  and the snapshot. Every method runs under its object's lock and is one atomic step.
  \<open>bisect\<close> is modelled on sorted lists, which is what its documentation requires and what
  the window's invariant provides. The clock reading a method takes is its last argument.
\<close>

section \<open>The latency window\<close>

record latency_histogram =
  lh_capacity :: int
  lh_samples :: "real list"
  lh_order :: "real list"     \<comment> \<open>the deque, oldest first\<close>
  lh_count :: nat
  lh_total :: real

definition LatencyHistogram :: "int \<Rightarrow> latency_histogram result" where
  "LatencyHistogram cap =
     (if cap \<le> 0 then Inl ValueError
      else Inr \<lparr>lh_capacity = cap, lh_samples = [], lh_order = [], lh_count = 0, lh_total = 0\<rparr>)"

definition bisect_left :: "real list \<Rightarrow> real \<Rightarrow> nat" where
  "bisect_left xs v = length (takeWhile (\<lambda>x. x < v) xs)"

definition insort_right :: "real list \<Rightarrow> real \<Rightarrow> real list" where
  "insort_right xs v = takeWhile (\<lambda>x. x \<le> v) xs @ v # dropWhile (\<lambda>x. x \<le> v) xs"

definition lh_record :: "real \<Rightarrow> latency_histogram \<Rightarrow> latency_histogram result" where
  "lh_record v h =
     (let h = h\<lparr>lh_count := Suc (lh_count h), lh_total := lh_total h + v\<rparr> in
      rbind (if int (length (lh_samples h)) \<ge> lh_capacity h then
               (case lh_order h of
                  [] \<Rightarrow> Inl IndexError
                | oldest # order \<Rightarrow>
                    let i = bisect_left (lh_samples h) oldest in
                    Inr (h\<lparr>lh_order := order,
                           lh_samples := (if i < length (lh_samples h) \<and> lh_samples h ! i = oldest
                             then take i (lh_samples h) @ drop (Suc i) (lh_samples h)
                             else lh_samples h)\<rparr>))
             else Inr h)
        (\<lambda>h. Inr (h\<lparr>lh_samples := insort_right (lh_samples h) v,
                     lh_order := lh_order h @ [v]\<rparr>)))"

definition percentile :: "latency_histogram \<Rightarrow> real \<Rightarrow> real" where
  "percentile h q =
     (if lh_samples h = [] then 0
      else let clamped = min (max q 0) 1;
               i = nat \<lfloor>clamped * real (length (lh_samples h) - 1)\<rfloor>
           in lh_samples h ! i)"

definition lh_mean :: "latency_histogram \<Rightarrow> real" where
  "lh_mean h = (if lh_count h \<noteq> 0 then lh_total h / real (lh_count h) else 0)"

definition lh_maximum :: "latency_histogram \<Rightarrow> real" where
  "lh_maximum h = (if lh_samples h \<noteq> [] then last (lh_samples h) else 0)"

definition lh_minimum :: "latency_histogram \<Rightarrow> real" where
  "lh_minimum h = (if lh_samples h \<noteq> [] then hd (lh_samples h) else 0)"

definition lh_reset :: "latency_histogram \<Rightarrow> latency_histogram" where
  "lh_reset h = h\<lparr>lh_samples := [], lh_order := [], lh_count := 0, lh_total := 0\<rparr>"

section \<open>Counters and snapshot\<close>

datatype extra_value = XStr string | XInt int

record metrics_snapshot =
  requests_received :: int
  requests_completed :: int
  requests_failed :: int
  requests_rejected :: int
  requests_expired :: int
  batches_processed :: int
  batched_requests :: int
  batches_closed_by_size :: int
  batches_closed_by_timeout :: int
  tokens_generated :: int
  queue_depth :: int
  average_batch_size :: real
  uptime_seconds :: real
  requests_per_second :: real
  tokens_per_second :: real
  queue_delay_p50_ms :: real
  queue_delay_p95_ms :: real
  queue_delay_p99_ms :: real
  latency_p50_ms :: real
  latency_p95_ms :: real
  latency_p99_ms :: real
  latency_max_ms :: real
  latency_mean_ms :: real
  extra :: "(string \<times> extra_value) list"

record metrics_registry =
  mr_start :: real
  mr_received :: int
  mr_completed :: int
  mr_failed :: int
  mr_rejected :: int
  mr_expired :: int
  mr_batches :: int
  mr_batched_requests :: int
  mr_size_closures :: int
  mr_timeout_closures :: int
  mr_tokens :: int
  mr_queue_depth :: int
  mr_latency :: latency_histogram
  mr_queue_delay :: latency_histogram

definition empty_window :: latency_histogram where
  "empty_window = \<lparr>lh_capacity = 10000, lh_samples = [], lh_order = [], lh_count = 0, lh_total = 0\<rparr>"

definition MetricsRegistry :: "real \<Rightarrow> metrics_registry" where
  "MetricsRegistry now =
     \<lparr>mr_start = now, mr_received = 0, mr_completed = 0, mr_failed = 0, mr_rejected = 0,
      mr_expired = 0, mr_batches = 0, mr_batched_requests = 0, mr_size_closures = 0,
      mr_timeout_closures = 0, mr_tokens = 0, mr_queue_depth = 0,
      mr_latency = empty_window, mr_queue_delay = empty_window\<rparr>"

definition record_received :: "metrics_registry \<Rightarrow> metrics_registry" where
  "record_received m = m\<lparr>mr_received := mr_received m + 1\<rparr>"

definition record_rejected :: "metrics_registry \<Rightarrow> metrics_registry" where
  "record_rejected m = m\<lparr>mr_rejected := mr_rejected m + 1\<rparr>"

definition record_failed :: "metrics_registry \<Rightarrow> metrics_registry" where
  "record_failed m = m\<lparr>mr_failed := mr_failed m + 1\<rparr>"

definition record_expired :: "metrics_registry \<Rightarrow> metrics_registry" where
  "record_expired m = m\<lparr>mr_expired := mr_expired m + 1\<rparr>"

definition record_queue_delay :: "real \<Rightarrow> metrics_registry \<Rightarrow> metrics_registry result" where
  "record_queue_delay s m =
     rbind (lh_record s (mr_queue_delay m)) (\<lambda>h. Inr (m\<lparr>mr_queue_delay := h\<rparr>))"

definition record_completion :: "real \<Rightarrow> int \<Rightarrow> metrics_registry \<Rightarrow> metrics_registry result" where
  "record_completion s tokens m =
     rbind (lh_record s (mr_latency m)) (\<lambda>h.
       Inr (m\<lparr>mr_latency := h, mr_completed := mr_completed m + 1,
              mr_tokens := mr_tokens m + tokens\<rparr>))"

definition record_batch :: "int \<Rightarrow> bool \<Rightarrow> metrics_registry \<Rightarrow> metrics_registry" where
  "record_batch n by_timeout m =
     (let m = m\<lparr>mr_batches := mr_batches m + 1,
                mr_batched_requests := mr_batched_requests m + n\<rparr>
      in if by_timeout then m\<lparr>mr_timeout_closures := mr_timeout_closures m + 1\<rparr>
         else m\<lparr>mr_size_closures := mr_size_closures m + 1\<rparr>)"

definition set_queue_depth :: "int \<Rightarrow> metrics_registry \<Rightarrow> metrics_registry" where
  "set_queue_depth d m = m\<lparr>mr_queue_depth := d\<rparr>"

definition snapshot_at :: "metrics_registry \<Rightarrow> real \<Rightarrow> metrics_snapshot" where
  "snapshot_at m now =
     (let elapsed = max (now - mr_start m) (1 / 10 ^ 9);
          q = percentile (mr_queue_delay m); l = percentile (mr_latency m) in
      \<lparr>requests_received = mr_received m, requests_completed = mr_completed m,
       requests_failed = mr_failed m, requests_rejected = mr_rejected m,
       requests_expired = mr_expired m, batches_processed = mr_batches m,
       batched_requests = mr_batched_requests m,
       batches_closed_by_size = mr_size_closures m,
       batches_closed_by_timeout = mr_timeout_closures m,
       tokens_generated = mr_tokens m, queue_depth = mr_queue_depth m,
       average_batch_size =
         (if mr_batches m \<noteq> 0 then of_int (mr_batched_requests m) / of_int (mr_batches m) else 0),
       uptime_seconds = elapsed,
       requests_per_second = of_int (mr_completed m) / elapsed,
       tokens_per_second = of_int (mr_tokens m) / elapsed,
       queue_delay_p50_ms = q (50 / 100) * 1000, queue_delay_p95_ms = q (95 / 100) * 1000,
       queue_delay_p99_ms = q (99 / 100) * 1000,
       latency_p50_ms = l (50 / 100) * 1000, latency_p95_ms = l (95 / 100) * 1000,
       latency_p99_ms = l (99 / 100) * 1000,
       latency_max_ms = lh_maximum (mr_latency m) * 1000,
       latency_mean_ms = lh_mean (mr_latency m) * 1000, extra = []\<rparr>)"

definition reset_registry :: "metrics_registry \<Rightarrow> real \<Rightarrow> metrics_registry" where
  "reset_registry m now =
     m\<lparr>mr_start := now, mr_received := 0, mr_completed := 0, mr_failed := 0, mr_rejected := 0,
       mr_expired := 0, mr_batches := 0, mr_batched_requests := 0, mr_size_closures := 0,
       mr_timeout_closures := 0, mr_tokens := 0, mr_queue_depth := 0,
       mr_latency := lh_reset (mr_latency m), mr_queue_delay := lh_reset (mr_queue_delay m)\<rparr>"

section \<open>The window holds the most recent samples, sorted\<close>

definition window_inv :: "latency_histogram \<Rightarrow> bool" where
  "window_inv h \<longleftrightarrow> 0 < lh_capacity h \<and> sorted (lh_samples h)
     \<and> mset (lh_samples h) = mset (lh_order h)
     \<and> int (length (lh_order h)) \<le> lh_capacity h"

lemma sorted_window:
  assumes "window_inv h"
  shows "lh_samples h = sort (lh_order h)"
  using assms by (metis properties_for_sort window_inv_def)

lemma insort_right_sorts:
  assumes "sorted xs"
  shows "sorted (insort_right xs v)" "mset (insort_right xs v) = add_mset v (mset xs)"
proof -
  have split: "xs = takeWhile (\<lambda>x. x \<le> v) xs @ dropWhile (\<lambda>x. x \<le> v) xs"
    by simp
  have "\<forall>x \<in> set (dropWhile (\<lambda>x. x \<le> v) xs). v \<le> x"
    using assms
  proof (induction xs)
    case (Cons a xs)
    show ?case
    proof (cases "a \<le> v")
      case False
      then have "v \<le> x" if "x \<in> set (a # xs)" for x
        using Cons.prems that by auto
      with False show ?thesis by simp
    qed (use Cons in simp)
  qed simp
  moreover have "\<forall>x \<in> set (takeWhile (\<lambda>x. x \<le> v) xs). x \<le> v"
    by (auto dest: set_takeWhileD)
  moreover have "sorted (takeWhile (\<lambda>x. x \<le> v) xs)" "sorted (dropWhile (\<lambda>x. x \<le> v) xs)"
    using assms by (simp_all add: sorted_takeWhile sorted_dropWhile)
  ultimately show "sorted (insort_right xs v)"
    by (auto simp: insort_right_def sorted_append intro: order_trans)
  show "mset (insort_right xs v) = add_mset v (mset xs)"
    using arg_cong [OF split, of mset] unfolding insort_right_def
    by (simp only: mset_append mset.simps union_mset_add_mset_right)
qed

text \<open>In a sorted list, the binary search finds a present value.\<close>

lemma bisect_left_finds:
  assumes "sorted xs" "v \<in> set xs"
  obtains ys zs where "xs = ys @ v # zs" "bisect_left xs v = length ys"
proof -
  let ?ys = "takeWhile (\<lambda>x. x < v) xs" and ?zs = "dropWhile (\<lambda>x. x < v) xs"
  have split: "xs = ?ys @ ?zs" by simp
  have "v \<in> set ?zs"
    using assms(2) by (metis Un_iff less_irrefl set_append set_takeWhileD split)
  then obtain z zs where z: "?zs = z # zs"
    by (cases ?zs) auto
  have "\<not> z < v"
    using z by (metis hd_dropWhile list.distinct(1) list.sel(1))
  moreover have "z \<le> v"
    using \<open>v \<in> set ?zs\<close> z assms(1) by (metis order_refl set_ConsD sorted_dropWhile sorted_simps(2))
  ultimately have "z = v" by simp
  with split z have "xs = ?ys @ v # zs" by simp
  then show thesis
    by (rule that) (simp add: bisect_left_def)
qed

lemma lh_record_ok [inv_intros]:
  assumes inv: "window_inv h"
  obtains h' where "lh_record v h = Inr h'" "window_inv h'" "lh_capacity h' = lh_capacity h"
    "lh_order h' = (if int (length (lh_order h)) = lh_capacity h then tl (lh_order h)
                    else lh_order h) @ [v]"
    "lh_count h' = Suc (lh_count h)" "lh_total h' = lh_total h + v"
proof -
  have len: "length (lh_samples h) = length (lh_order h)"
    using inv by (metis window_inv_def size_mset)
  have srt: "sorted (lh_samples h)" "mset (lh_samples h) = mset (lh_order h)"
      "0 < lh_capacity h" "int (length (lh_order h)) \<le> lh_capacity h"
    using inv by (simp_all add: window_inv_def)
  show thesis
  proof (cases "int (length (lh_order h)) = lh_capacity h")
    case False
    let ?h = "h\<lparr>lh_count := Suc (lh_count h), lh_total := lh_total h + v,
      lh_samples := insort_right (lh_samples h) v, lh_order := lh_order h @ [v]\<rparr>"
    show thesis
    proof (rule that [of ?h])
      show "lh_record v h = Inr ?h"
        using False srt(4) len by (simp add: lh_record_def Let_def)
      show "window_inv ?h"
        using False srt by (simp add: window_inv_def insort_right_sorts)
    qed (use False in simp_all)
  next
    case True
    then obtain old order where ord: "lh_order h = old # order"
      using srt(3) by (cases "lh_order h") auto
    have "old \<in> set (lh_samples h)"
      using srt(2) ord by (metis list.set_intros(1) mset_eq_setD)
    then obtain ys zs where s: "lh_samples h = ys @ old # zs"
        "bisect_left (lh_samples h) old = length ys"
      by (rule bisect_left_finds [OF srt(1)])
    have yz: "sorted (ys @ zs)" "mset (ys @ zs) = mset order"
      using srt(1,2) by (auto simp: s(1) ord sorted_append)
    let ?h = "h\<lparr>lh_count := Suc (lh_count h), lh_total := lh_total h + v,
      lh_samples := insort_right (ys @ zs) v, lh_order := order @ [v]\<rparr>"
    show thesis
    proof (rule that [of ?h])
      have "lh_capacity h \<le> int (length (lh_samples h))"
        using True len by simp
      then show "lh_record v h = Inr ?h"
        using s by (simp add: lh_record_def Let_def ord)
      show "window_inv ?h"
        using True srt(3) yz by (simp add: window_inv_def insort_right_sorts ord)
    qed (use True ord in simp_all)
  qed
qed

lemma window_inv_init: "LatencyHistogram c = Inr h \<Longrightarrow> window_inv h \<and> lh_order h = [] \<and> lh_capacity h = c"
  by (auto simp: LatencyHistogram_def window_inv_def split: if_splits)

text \<open>\<open>record\<close> called once per element of a list.\<close>

definition record_all :: "real list \<Rightarrow> latency_histogram \<Rightarrow> latency_histogram result" where
  "record_all vs h = rfold lh_record vs h"

lemma record_all_ok:
  assumes "window_inv h" "lh_capacity h = int c"
  obtains h' where "record_all vs h = Inr h'" "window_inv h'"
    "lh_order h' = drop (length (lh_order h @ vs) - c) (lh_order h @ vs)"
    "lh_count h' = lh_count h + length vs" "lh_total h' = lh_total h + sum_list vs"
  using assms
proof (induction vs arbitrary: h thesis)
  case Nil
  show ?case
    by (rule Nil.prems(1) [of h]) (use Nil.prems(2,3) in \<open>simp_all add: record_all_def window_inv_def\<close>)
next
  case (Cons v vs)
  let ?c = "length (lh_order h) = c"
  obtain h1 where h1: "lh_record v h = Inr h1" "window_inv h1" "lh_capacity h1 = lh_capacity h"
      "lh_order h1 = (if int (length (lh_order h)) = lh_capacity h then tl (lh_order h)
                      else lh_order h) @ [v]"
      "lh_count h1 = Suc (lh_count h)" "lh_total h1 = lh_total h + v"
    by (rule lh_record_ok [OF Cons.prems(2)])
  have c: "length (lh_order h) \<le> c" "0 < c"
    using Cons.prems(2,3) by (auto simp: window_inv_def)
  have cap1: "lh_capacity h1 = int c"
    using h1(3) Cons.prems(3) by simp
  obtain h' where h': "record_all vs h1 = Inr h'" "window_inv h'"
      "lh_order h' = drop (length (lh_order h1 @ vs) - c) (lh_order h1 @ vs)"
      "lh_count h' = lh_count h1 + length vs" "lh_total h' = lh_total h1 + sum_list vs"
    by (rule Cons.IH [OF _ h1(2) cap1])
  have "drop (length (lh_order h1 @ vs) - c) (lh_order h1 @ vs)
      = drop (length (lh_order h @ v # vs) - c) (lh_order h @ v # vs)"
  proof (cases ?c)
    case True
    then obtain x xs where x: "lh_order h = x # xs"
      using c(2) by (cases "lh_order h") auto
    then have "lh_order h1 = xs @ [v]" "c = Suc (length xs)"
      using True h1(4) Cons.prems(3) by simp_all
    then show ?thesis
      by (simp add: x Suc_diff_le)
  next
    case False
    then have "lh_order h1 = lh_order h @ [v]"
      using h1(4) Cons.prems(3) by simp
    then show ?thesis by simp
  qed
  note ord = h'(3) [unfolded this]
  show ?case
  proof (rule Cons.prems(1) [of h'])
    show "record_all (v # vs) h = Inr h'"
      using h1(1) h'(1) by (simp add: record_all_def)
    show "lh_count h' = lh_count h + length (v # vs)" "lh_total h' = lh_total h + sum_list (v # vs)"
      using h1(5,6) h'(4,5) by simp_all
  qed (fact h'(2) ord)+
qed

section \<open>Percentiles\<close>

lemma percentile_index:
  assumes "0 \<le> q" "q \<le> 1" "0 < n"
  shows "nat \<lfloor>q * real (n - 1)\<rfloor> < n" "real (nat \<lfloor>q * real (n - 1)\<rfloor>) \<le> q * real (n - 1)"
    "q * real (n - 1) < real (nat \<lfloor>q * real (n - 1)\<rfloor>) + 1"
proof -
  have pos: "0 \<le> q * real (n - 1)"
    using assms(1) by simp
  then show lo: "real (nat \<lfloor>q * real (n - 1)\<rfloor>) \<le> q * real (n - 1)"
    by (simp add: of_nat_floor)
  have "q * real (n - 1) \<le> real (n - 1)"
    using assms(1,2) by (simp add: mult_left_le_one_le)
  with lo show "nat \<lfloor>q * real (n - 1)\<rfloor> < n"
    using assms(3) by linarith
  show "q * real (n - 1) < real (nat \<lfloor>q * real (n - 1)\<rfloor>) + 1"
    using pos by linarith
qed

lemma sorted_count_le:
  assumes "sorted (xs :: real list)" "i < length xs"
  shows "i < length (filter (\<lambda>x. x \<le> xs ! i) xs)"
proof -
  have "\<forall>x \<in> set (take (Suc i) xs). x \<le> xs ! i"
  proof
    fix x assume "x \<in> set (take (Suc i) xs)"
    then obtain j where "j < Suc i" "j < length xs" "x = xs ! j"
      by (auto simp: in_set_conv_nth)
    then show "x \<le> xs ! i"
      using assms by (simp add: sorted_nth_mono)
  qed
  then have "filter (\<lambda>x. x \<le> xs ! i) (take (Suc i) xs) = take (Suc i) xs"
    by (simp add: filter_id_conv)
  moreover have "length (filter P (take (Suc i) xs)) \<le> length (filter P xs)" for P
    by (metis append_take_drop_id filter_append le_add1 length_append)
  ultimately show ?thesis
    using assms(2) by (metis Suc_le_eq length_take min.absorb2)
qed

lemma sorted_count_less:
  assumes "sorted (xs :: real list)" "i < length xs"
  shows "length (filter (\<lambda>x. x < xs ! i) xs) \<le> i"
proof -
  have "filter (\<lambda>x. x < xs ! i) (drop i xs) = []"
  proof -
    have "xs ! i \<le> x" if x: "x \<in> set (drop i xs)" for x
    proof -
      from x obtain j where "j < length xs - i" "x = xs ! (i + j)"
        by (auto simp: in_set_conv_nth)
      then show ?thesis
        using assms by (simp add: sorted_nth_mono)
    qed
    then show ?thesis
      by (auto simp: filter_empty_conv not_less)
  qed
  then have "filter (\<lambda>x. x < xs ! i) xs = filter (\<lambda>x. x < xs ! i) (take i xs)"
    by (metis append.right_neutral append_take_drop_id filter_append)
  then show ?thesis
    using assms(2) by (metis length_filter_le length_take min.absorb4)
qed

lemma sorted_hd_last:
  assumes "sorted (xs :: real list)" "xs \<noteq> []"
  shows "hd xs = Min (set xs)" "last xs = Max (set xs)"
proof -
  have "hd xs \<le> x" "x \<le> last xs" if "x \<in> set xs" for x
    using that assms by (auto simp: hd_conv_nth last_conv_nth in_set_conv_nth intro!: sorted_nth_mono)
  then show "hd xs = Min (set xs)" "last xs = Max (set xs)"
    using assms(2) by (simp_all add: Min_eqI [symmetric] Max_eqI [symmetric])
qed

text \<open>
  C8: The window is exactly what it claims to be. Recording any list of samples into a
  new histogram never raises; afterwards the sorted list holds the most recent
  \<open>capacity\<close> samples, while the count and the mean still cover every sample recorded.
\<close>

theorem window_is_the_recent_samples:
  assumes "LatencyHistogram (int c) = Inr h"
  shows "\<exists>h'. record_all vs h = Inr h'
    \<and> lh_samples h' = sort (drop (length vs - c) vs)
    \<and> lh_count h' = length vs
    \<and> (vs \<noteq> [] \<longrightarrow> lh_mean h' = sum_list vs / real (length vs))
    \<and> (vs \<noteq> [] \<longrightarrow> lh_minimum h' = Min (set (drop (length vs - c) vs))
                \<and> lh_maximum h' = Max (set (drop (length vs - c) vs)))"
proof -
  have init: "window_inv h" "lh_order h = []" "lh_capacity h = int c" "0 < c"
      "lh_count h = 0" "lh_total h = 0"
    using assms by (auto simp: LatencyHistogram_def window_inv_def split: if_splits)
  obtain h' where h': "record_all vs h = Inr h'" "window_inv h'"
    "lh_order h' = drop (length (lh_order h @ vs) - c) (lh_order h @ vs)"
    "lh_count h' = lh_count h + length vs" "lh_total h' = lh_total h + sum_list vs"
    by (rule record_all_ok [OF init(1,3)])
  let ?w = "drop (length vs - c) vs"
  have s: "lh_samples h' = sort ?w"
    using sorted_window [OF h'(2)] h'(3) init(2) by simp
  have ne: "?w \<noteq> []" if "vs \<noteq> []"
    using that init(4) by (metis diff_less drop_eq_Nil length_greater_0_conv not_less)
  have "lh_minimum h' = Min (set ?w) \<and> lh_maximum h' = Max (set ?w)" if "vs \<noteq> []"
  proof -
    have n: "sort ?w \<noteq> []"
      using ne [OF that] by (metis length_0_conv length_sort)
    show ?thesis
      using n sorted_hd_last [OF sorted_sort n] by (simp add: lh_minimum_def lh_maximum_def s)
  qed
  then show ?thesis
    using h'(1,4,5) s init(5,6) by (intro exI [of _ h']) (simp add: lh_mean_def)
qed

theorem window_is_the_recent_samples_witness:
  "\<exists>h h'. LatencyHistogram (int 2) = Inr h \<and> record_all [3, 1, 2] h = Inr h'
    \<and> lh_samples h' = sort [1, 2] \<and> lh_minimum h' = 1"
proof -
  obtain h where h: "LatencyHistogram (int 2) = Inr h"
    by (simp add: LatencyHistogram_def)
  from window_is_the_recent_samples [OF h, of "[3, 1, 2]"] h show ?thesis
    by auto
qed

text \<open>
  C9: A reported percentile is a true order statistic. For a quantile between 0 and 1
  over a non-empty window the value is one of the samples; at most the fraction \<open>q\<close> of
  the other samples is smaller and more than that fraction is no larger; it never
  decreases with the quantile; and quantiles 0 and 1 are the minimum and the maximum.
\<close>

theorem percentile_is_order_statistic:
  assumes "window_inv h" "lh_samples h \<noteq> []" "0 \<le> q" "q \<le> q'" "q' \<le> 1"
  shows "percentile h q \<in> set (lh_order h)
    \<and> real (length (filter (\<lambda>x. x < percentile h q) (lh_order h))) \<le> q * real (length (lh_order h) - 1)
    \<and> q * real (length (lh_order h) - 1) < real (length (filter (\<lambda>x. x \<le> percentile h q) (lh_order h)))
    \<and> percentile h q \<le> percentile h q'
    \<and> percentile h 0 = lh_minimum h \<and> percentile h 1 = lh_maximum h"
proof -
  let ?s = "lh_samples h" and ?n = "length (lh_samples h)"
  have srt: "sorted ?s" and ms: "mset ?s = mset (lh_order h)"
    using assms(1) by (simp_all add: window_inv_def)
  have n: "0 < ?n" "length (lh_order h) = ?n"
    using assms(2) ms by (simp, metis size_mset)
  define i where "i = nat \<lfloor>q * real (?n - 1)\<rfloor>"
  note ix = percentile_index [OF assms(3) _ n(1), folded i_def]
  have q1: "q \<le> 1" using assms(4,5) by linarith
  have p: "percentile h q = ?s ! i"
    using assms(2,3) q1 by (simp add: percentile_def i_def)
  have p': "percentile h q' = ?s ! nat \<lfloor>q' * real (?n - 1)\<rfloor>"
    using assms by (simp add: percentile_def)
  have cnt: "length (filter P (lh_order h)) = length (filter P ?s)" for P
    using ms by (metis mset_filter size_mset)
  have "i \<le> nat \<lfloor>q' * real (?n - 1)\<rfloor>"
    unfolding i_def using assms(4) by (intro nat_mono floor_mono mult_right_mono) simp_all
  then have "percentile h q \<le> percentile h q'"
    unfolding p p' using srt percentile_index(1) [of q' ?n] assms n(1)
    by (intro sorted_nth_mono) linarith+
  moreover have "?s ! i \<in> set (lh_order h)"
    using ix(1) [OF q1] ms by (metis mset_eq_setD nth_mem)
  moreover have "real (length (filter (\<lambda>x. x < ?s ! i) ?s)) \<le> q * real (?n - 1)"
    using sorted_count_less [OF srt ix(1) [OF q1]] ix(2) [OF q1] by linarith
  moreover have "q * real (?n - 1) < real (length (filter (\<lambda>x. x \<le> ?s ! i) ?s))"
    using sorted_count_le [OF srt ix(1) [OF q1]] ix(3) [OF q1] by linarith
  moreover have "percentile h 0 = lh_minimum h" "percentile h 1 = lh_maximum h"
    using assms(2) by (simp_all add: percentile_def lh_minimum_def lh_maximum_def
        hd_conv_nth last_conv_nth)
  ultimately show ?thesis
    by (simp add: p n(2) cnt)
qed

theorem percentile_is_order_statistic_witness:
  "percentile \<lparr>lh_capacity = 4, lh_samples = [1, 2, 5], lh_order = [5, 1, 2], lh_count = 3,
      lh_total = 8\<rparr> (1 / 2) \<in> {5, 1, 2}
   \<and> percentile \<lparr>lh_capacity = 4, lh_samples = [1, 2, 5], lh_order = [5, 1, 2], lh_count = 3,
      lh_total = 8\<rparr> 0 = 1"
proof -
  let ?h = "\<lparr>lh_capacity = 4, lh_samples = [1, 2, 5], lh_order = [5, 1, 2], lh_count = 3,
      lh_total = 8\<rparr> :: latency_histogram"
  have "window_inv ?h"
    by (simp add: window_inv_def)
  from percentile_is_order_statistic [OF this, of "1 / 2" 1] show ?thesis
    by (simp add: lh_minimum_def)
qed

end
