(* ===== verification/Requests.thy ===== *)
theory Requests
  imports Config Metrics
begin

text \<open>
  \<open>Request\<close> and \<open>Batch\<close> of \<open>python/cudaforge/scheduler.py\<close>. A request's free-form
  \<open>metadata\<close> is not modelled; nothing under \<open>python/cudaforge\<close> reads it. A clock reading
  is an argument of the operation that takes it.
\<close>

section \<open>Requests\<close>

record request =
  rq_prompt :: string
  rq_generation :: generation_config
  rq_id :: string
  rq_enqueued_at :: real
  rq_dequeued_at :: "real option"
  rq_deadline :: "real option"

definition queue_delay :: "request \<Rightarrow> real" where
  "queue_delay r = (case rq_dequeued_at r of None \<Rightarrow> 0 | Some t \<Rightarrow> t - rq_enqueued_at r)"

definition expired :: "request \<Rightarrow> real \<Rightarrow> bool" where
  "expired r now = (case rq_deadline r of None \<Rightarrow> False | Some d \<Rightarrow> now \<ge> d)"

text \<open>The stamp a scheduler puts on a request it takes from the queue, and the request without it.\<close>

abbreviation stamp :: "real \<Rightarrow> request \<Rightarrow> request" where
  "stamp t r \<equiv> r\<lparr>rq_dequeued_at := Some t\<rparr>"

definition unstamped :: "request \<Rightarrow> request" where
  "unstamped r = r\<lparr>rq_dequeued_at := None\<rparr>"

lemma unstamped_stamp [simp]: "unstamped (stamp t r) = unstamped r"
  by (simp add: unstamped_def)

lemma expired_stamp [simp]: "expired (stamp t r) now = expired r now"
  by (simp add: expired_def)

lemma expired_mono: "expired r now \<Longrightarrow> now \<le> later \<Longrightarrow> expired r later"
  by (auto simp: expired_def split: option.splits)

section \<open>Batches\<close>

datatype batch_trigger = MAX_SIZE | TIMEOUT | SHUTDOWN

fun trigger_value :: "batch_trigger \<Rightarrow> string" where
  "trigger_value MAX_SIZE = ''max_size''"
| "trigger_value TIMEOUT = ''timeout''"
| "trigger_value SHUTDOWN = ''shutdown''"

record batch =
  bt_requests :: "request list"
  bt_trigger :: batch_trigger
  bt_formed_at :: real

definition batch_len :: "batch \<Rightarrow> nat" where
  "batch_len b = length (bt_requests b)"

definition batch_empty :: "batch \<Rightarrow> bool" where
  "batch_empty b \<longleftrightarrow> bt_requests b = []"

definition batch_prompts :: "batch \<Rightarrow> string list" where
  "batch_prompts b = map rq_prompt (bt_requests b)"

definition batch_max_new_tokens :: "batch \<Rightarrow> int result" where
  "batch_max_new_tokens b =
     (case map (\<lambda>r. gc_max_new_tokens (rq_generation r)) (bt_requests b) of
        [] \<Rightarrow> Inl ValueError
      | n # ns \<Rightarrow> Inr (fold max ns n))"

end
