(* ===== verification/Dynamic_Batcher.thy ===== *)
theory Dynamic_Batcher
  imports Requests
begin

text \<open>
  \<open>DynamicBatcher\<close> of \<open>python/cudaforge/scheduler.py\<close>: submitting threads, the thread
  that shuts down and the one collector thread, interleaved over a bounded queue. One step is
  what the code does between two accesses to shared state: one queue operation, or the
  test of \<open>_stopping\<close>. Where the collector stands inside \<open>_collect\<close> and \<open>_run\<close> is the
  datatype \<open>collector\<close>, whose arguments are the local variables of the method. The caller's
  callbacks are the record \<open>callbacks\<close>: all the model needs of them is whether they raise.
\<close>

section \<open>State\<close>

datatype collector =
    Waiting                                      \<comment> \<open>the blocking \<open>get\<close> for the first request\<close>
  | Filling "request list" real                  \<comment> \<open>head of the \<open>while\<close> loop: requests, deadline\<close>
  | Polling "request list" real real real        \<comment> \<open>in \<open>get(timeout=remaining)\<close>, asked at a time\<close>
  | Draining "request list"                      \<comment> \<open>sentinel seen, taking what is buffered\<close>
  | Reposting "request list"                     \<comment> \<open>about to re-post the sentinel\<close>
  | Formed "request list" batch_trigger          \<comment> \<open>\<open>_collect\<close> returned a batch to \<open>_run\<close>\<close>
  | Exited

record callbacks =
  cb_handler_raises :: "batch \<Rightarrow> bool"
  cb_on_expired_raises :: "(request \<Rightarrow> bool) option"

record dynamic_batcher =
  db_max_batch_size :: int
  db_max_wait :: real
  db_capacity :: int
  db_queue :: "request option list"      \<comment> \<open>\<open>None\<close> is the shutdown sentinel\<close>
  db_stopping :: bool
  db_collector :: collector
  db_metrics :: metrics_registry
  db_submitting :: "request list"        \<comment> \<open>threads inside \<open>put\<close>, past the test of \<open>_stopping\<close>\<close>
  db_closing :: bool                     \<comment> \<open>a thread inside \<open>shutdown\<close>'s \<open>put\<close>\<close>
  db_accepted :: "request list"          \<comment> \<open>history: requests whose \<open>put\<close> succeeded\<close>
  db_taken :: "(request \<times> bool) list"    \<comment> \<open>history: requests dequeued, and whether kept\<close>
  db_handled :: "batch list"             \<comment> \<open>history: calls of the handler\<close>
  db_late :: nat                         \<comment> \<open>history: requests queued once stopping\<close>

definition DynamicBatcher ::
  "int \<Rightarrow> real \<Rightarrow> int \<Rightarrow> metrics_registry \<Rightarrow> dynamic_batcher result" where
  "DynamicBatcher max_batch max_wait queue_capacity metrics =
     (if max_batch \<le> 0 then Inl ValueError
      else if max_wait < 0 then Inl ValueError
      else if queue_capacity < max_batch then Inl ValueError
      else Inr \<lparr>db_max_batch_size = max_batch, db_max_wait = max_wait,
                db_capacity = queue_capacity, db_queue = [], db_stopping = False,
                db_collector = Waiting, db_metrics = metrics, db_submitting = [],
                db_closing = False, db_accepted = [], db_taken = [], db_handled = [],
                db_late = 0\<rparr>)"

section \<open>Submitting and shutting down\<close>

definition queue_full :: "dynamic_batcher \<Rightarrow> bool" where
  "queue_full b \<longleftrightarrow> db_capacity b \<le> int (length (db_queue b))"

definition update_metrics ::
  "(metrics_registry \<Rightarrow> metrics_registry) \<Rightarrow> dynamic_batcher \<Rightarrow> dynamic_batcher" where
  "update_metrics f b = b\<lparr>db_metrics := f (db_metrics b)\<rparr>"

text \<open>
  \<open>submit\<close> up to its \<open>put\<close>: False once stopping, otherwise the caller is in the \<open>put\<close>.
\<close>

definition submit_enter :: "request \<Rightarrow> dynamic_batcher \<Rightarrow> bool \<times> dynamic_batcher" where
  "submit_enter r b =
     (if db_stopping b then (False, update_metrics record_rejected b)
      else (True, (update_metrics record_received b)\<lparr>db_submitting := r # db_submitting b\<rparr>))"

text \<open>The \<open>put\<close> succeeds: there is room. \<open>submit\<close> returns True.\<close>

definition submit_put :: "request \<Rightarrow> dynamic_batcher \<Rightarrow> dynamic_batcher" where
  "submit_put r b =
     (let b = b\<lparr>db_queue := db_queue b @ [Some r], db_submitting := remove1 r (db_submitting b),
                db_accepted := db_accepted b @ [r],
                db_late := (if db_stopping b then Suc (db_late b) else db_late b)\<rparr>
      in update_metrics (set_queue_depth (int (length (db_queue b)))) b)"

text \<open>The \<open>put\<close> raises \<open>queue.Full\<close>: no room when the wait ends. \<open>submit\<close> returns False.\<close>

definition submit_refused :: "request \<Rightarrow> dynamic_batcher \<Rightarrow> dynamic_batcher" where
  "submit_refused r b =
     update_metrics record_rejected (b\<lparr>db_submitting := remove1 r (db_submitting b)\<rparr>)"

text \<open>\<open>try_submit\<close> with no other thread in between.\<close>

definition try_submit :: "request \<Rightarrow> dynamic_batcher \<Rightarrow> bool \<times> dynamic_batcher" where
  "try_submit r b =
     (case submit_enter r b of
        (False, b) \<Rightarrow> (False, b)
      | (True, b) \<Rightarrow> if queue_full b then (False, submit_refused r b) else (True, submit_put r b))"

text \<open>\<open>shutdown\<close>: the flag, then the sentinel or \<open>queue.Full\<close> suppressed.\<close>

definition shutdown_begin :: "dynamic_batcher \<Rightarrow> dynamic_batcher" where
  "shutdown_begin b = (if db_stopping b then b else b\<lparr>db_stopping := True, db_closing := True\<rparr>)"

definition shutdown_post :: "dynamic_batcher \<Rightarrow> dynamic_batcher" where
  "shutdown_post b =
     (if queue_full b then b\<lparr>db_closing := False\<rparr>
      else b\<lparr>db_closing := False, db_queue := db_queue b @ [None]\<rparr>)"

section \<open>The collector\<close>

text \<open>
  \<open>_drop_if_expired\<close>. The first result says whether the request was dropped; the history
  of dequeued requests records the decision.
\<close>

definition drop_if_expired ::
  "callbacks \<Rightarrow> real \<Rightarrow> request \<Rightarrow> dynamic_batcher \<Rightarrow> bool \<times> dynamic_batcher" where
  "drop_if_expired cb now r b =
     (let gone = expired r now;
          b = b\<lparr>db_taken := db_taken b @ [(r, \<not> gone)]\<rparr> in
      if \<not> gone then (False, b)
      else let b = update_metrics record_expired b in
        case cb_on_expired_raises cb of
          None \<Rightarrow> (True, b)
        | Some raises \<Rightarrow> (True, if raises r then update_metrics record_failed b else b))"

text \<open>
  A request came out of the queue at clock reading \<open>t1\<close>; its deadline is checked at \<open>t2\<close>.
  \<open>dropped\<close> and \<open>kept\<close> say where the collector goes.
\<close>

definition take_request ::
  "callbacks \<Rightarrow> real \<Rightarrow> real \<Rightarrow> request \<Rightarrow> collector \<Rightarrow> (request \<Rightarrow> collector)
     \<Rightarrow> dynamic_batcher \<Rightarrow> dynamic_batcher" where
  "take_request cb t1 t2 r dropped kept b =
     (case drop_if_expired cb t2 (stamp t1 r) b of
        (True, b) \<Rightarrow> b\<lparr>db_collector := dropped\<rparr>
      | (False, b) \<Rightarrow> b\<lparr>db_collector := kept (stamp t1 r)\<rparr>)"

text \<open>The part of \<open>_run\<close> after \<open>_collect\<close>: account for the batch and hand it over.\<close>

definition hand_over ::
  "callbacks \<Rightarrow> real \<Rightarrow> request list \<Rightarrow> batch_trigger \<Rightarrow> dynamic_batcher \<Rightarrow> dynamic_batcher result"
where
  "hand_over cb t rs trigger b =
     (let bt = \<lparr>bt_requests = rs, bt_trigger = trigger, bt_formed_at = t\<rparr>;
          b = update_metrics (record_batch (int (batch_len bt)) (trigger = TIMEOUT)) b;
          b = update_metrics (set_queue_depth (int (length (db_queue b)))) b in
      rbind (rfold (\<lambda>r m. record_queue_delay (queue_delay r) m) rs (db_metrics b)) (\<lambda>m.
        let b = b\<lparr>db_metrics := m, db_handled := db_handled b @ [bt], db_collector := Waiting\<rparr>
        in Inr (if cb_handler_raises cb bt then update_metrics record_failed b else b)))"

text \<open>
  One step of the collector thread. \<open>t1 \<le> t2\<close> are the clock readings it takes;
  \<open>timed_out\<close> says that a timed \<open>get\<close> on the empty queue gives up. A step that has to
  wait leaves the state as it is.
\<close>

definition collector_step ::
  "callbacks \<Rightarrow> real \<Rightarrow> real \<Rightarrow> bool \<Rightarrow> dynamic_batcher \<Rightarrow> dynamic_batcher result" where
  "collector_step cb t1 t2 timed_out b =
     (case db_collector b of
        Waiting \<Rightarrow>
          (case db_queue b of
             [] \<Rightarrow> Inr b
           | None # q \<Rightarrow> Inr (b\<lparr>db_queue := q, db_collector := Exited\<rparr>)
           | Some r # q \<Rightarrow>
               Inr (take_request cb t1 t2 r Waiting (\<lambda>r. Filling [r] (t1 + db_max_wait b))
                      (b\<lparr>db_queue := q\<rparr>)))
      | Filling rs deadline \<Rightarrow>
          (if int (length rs) < db_max_batch_size b then
             let remaining = deadline - t1 in
             if remaining \<le> 0 then Inr (b\<lparr>db_collector := Formed rs TIMEOUT\<rparr>)
             else Inr (b\<lparr>db_collector := Polling rs deadline t1 remaining\<rparr>)
           else Inr (b\<lparr>db_collector := Formed rs MAX_SIZE\<rparr>))
      | Polling rs deadline asked remaining \<Rightarrow>
          (case db_queue b of
             [] \<Rightarrow> Inr (if timed_out then b\<lparr>db_collector := Formed rs TIMEOUT\<rparr> else b)
           | None # q \<Rightarrow> Inr (b\<lparr>db_queue := q, db_collector := Draining rs\<rparr>)
           | Some r # q \<Rightarrow>
               Inr (take_request cb t1 t2 r (Filling rs deadline)
                      (\<lambda>r. Filling (rs @ [r]) deadline) (b\<lparr>db_queue := q\<rparr>)))
      | Draining rs \<Rightarrow>
          (if int (length rs) < db_max_batch_size b then
             (case db_queue b of
                [] \<Rightarrow> Inr (b\<lparr>db_collector := Reposting rs\<rparr>)
              | None # q \<Rightarrow> Inr (b\<lparr>db_queue := q, db_collector := Reposting rs\<rparr>)
              | Some r # q \<Rightarrow>
                  Inr (take_request cb t1 t2 r (Draining rs) (\<lambda>r. Draining (rs @ [r]))
                         (b\<lparr>db_queue := q\<rparr>)))
           else Inr (b\<lparr>db_collector := Reposting rs\<rparr>))
      | Reposting rs \<Rightarrow>
          Inr (if queue_full b then b\<lparr>db_collector := Formed rs SHUTDOWN\<rparr>
               else b\<lparr>db_queue := db_queue b @ [None], db_collector := Formed rs SHUTDOWN\<rparr>)
      | Formed rs trigger \<Rightarrow> hand_over cb t1 rs trigger b
      | Exited \<Rightarrow> Inr b)"

section \<open>Interleavings\<close>

inductive db_step :: "callbacks \<Rightarrow> dynamic_batcher \<Rightarrow> dynamic_batcher \<Rightarrow> bool" for cb where
  db_enter: "rq_dequeued_at r = None \<Longrightarrow> db_step cb b (snd (submit_enter r b))"
| db_put: "r \<in> set (db_submitting b) \<Longrightarrow> \<not> queue_full b \<Longrightarrow> db_step cb b (submit_put r b)"
| db_refused: "r \<in> set (db_submitting b) \<Longrightarrow> queue_full b \<Longrightarrow> db_step cb b (submit_refused r b)"
| db_shutdown: "db_step cb b (shutdown_begin b)"
| db_post: "db_closing b \<Longrightarrow> db_step cb b (shutdown_post b)"
| db_collect: "t1 \<le> t2 \<Longrightarrow> collector_step cb t1 t2 timed_out b = Inr b' \<Longrightarrow> db_step cb b b'"

inductive db_steps :: "callbacks \<Rightarrow> dynamic_batcher \<Rightarrow> dynamic_batcher \<Rightarrow> bool" for cb b where
  db_none: "db_steps cb b b"
| db_more: "db_steps cb b b' \<Longrightarrow> db_step cb b' b'' \<Longrightarrow> db_steps cb b b''"

text \<open>A state some interleaving reaches from a new batcher with fresh metrics.\<close>

definition db_reachable :: "callbacks \<Rightarrow> dynamic_batcher \<Rightarrow> bool" where
  "db_reachable cb b \<longleftrightarrow>
     (\<exists>n w c t b0. DynamicBatcher n w c (MetricsRegistry t) = Inr b0 \<and> db_steps cb b0 b)"

end
