(* ===== verification/Batcher_Invariant.thy ===== *)
theory Batcher_Invariant
  imports Dynamic_Batcher
begin

text \<open>
  The invariant of the dynamic batcher, one conjunct per concern, each preserved by every
  step of every interleaving.
\<close>

section \<open>Field effects\<close>

named_theorems db_simps \<open>fields of a batcher after one operation\<close>

lemma update_metrics_fields [db_simps, simp]:
  "db_max_batch_size (update_metrics f b) = db_max_batch_size b"
  "db_max_wait (update_metrics f b) = db_max_wait b"
  "db_capacity (update_metrics f b) = db_capacity b"
  "db_queue (update_metrics f b) = db_queue b"
  "db_stopping (update_metrics f b) = db_stopping b"
  "db_collector (update_metrics f b) = db_collector b"
  "db_submitting (update_metrics f b) = db_submitting b"
  "db_closing (update_metrics f b) = db_closing b"
  "db_accepted (update_metrics f b) = db_accepted b"
  "db_taken (update_metrics f b) = db_taken b"
  "db_handled (update_metrics f b) = db_handled b"
  "db_late (update_metrics f b) = db_late b"
  "db_metrics (update_metrics f b) = f (db_metrics b)"
  by (simp_all add: update_metrics_def)

definition metrics_ok :: "metrics_registry \<Rightarrow> bool" where
  "metrics_ok m \<longleftrightarrow> window_inv (mr_latency m) \<and> window_inv (mr_queue_delay m)"

lemma metrics_ok_simps [simp]:
  "metrics_ok (record_received m) = metrics_ok m"
  "metrics_ok (record_rejected m) = metrics_ok m"
  "metrics_ok (record_failed m) = metrics_ok m"
  "metrics_ok (record_expired m) = metrics_ok m"
  "metrics_ok (record_batch n t m) = metrics_ok m"
  "metrics_ok (set_queue_depth d m) = metrics_ok m"
  "metrics_ok (MetricsRegistry now)"
  by (simp_all add: metrics_ok_def record_received_def record_rejected_def record_failed_def
      record_expired_def record_batch_def set_queue_depth_def MetricsRegistry_def
      empty_window_def window_inv_def Let_def)

lemma record_queue_delay_ok:
  assumes "metrics_ok m"
  obtains m' where "record_queue_delay s m = Inr m'" "metrics_ok m'"
proof -
  obtain h where "lh_record s (mr_queue_delay m) = Inr h" "window_inv h"
    using lh_record_ok assms unfolding metrics_ok_def by metis
  with assms show thesis
    by (intro that [of "m\<lparr>mr_queue_delay := h\<rparr>"])
      (simp_all add: record_queue_delay_def metrics_ok_def)
qed

lemma record_completion_ok:
  assumes "metrics_ok m"
  obtains m' where "record_completion s n m = Inr m'" "metrics_ok m'"
proof -
  obtain h where "lh_record s (mr_latency m) = Inr h" "window_inv h"
    using lh_record_ok assms unfolding metrics_ok_def by metis
  with assms show thesis
    by (intro that [of "m\<lparr>mr_latency := h, mr_completed := mr_completed m + 1,
          mr_tokens := mr_tokens m + n\<rparr>"])
      (simp_all add: record_completion_def metrics_ok_def)
qed

lemma record_queue_delays_ok:
  assumes "metrics_ok m"
  shows "\<exists>m'. rfold (\<lambda>r m. record_queue_delay (f r) m) rs m = Inr m' \<and> metrics_ok m'"
  using assms
proof (induction rs arbitrary: m)
  case (Cons r rs)
  obtain m1 where m1: "record_queue_delay (f r) m = Inr m1" "metrics_ok m1"
    by (rule record_queue_delay_ok [OF Cons.prems])
  from Cons.IH [OF m1(2)] show ?case
    by (simp add: m1(1))
qed simp

lemma take_request_fields [db_simps]:
  "db_max_batch_size (take_request cb t1 t2 r d k b) = db_max_batch_size b"
  "db_max_wait (take_request cb t1 t2 r d k b) = db_max_wait b"
  "db_capacity (take_request cb t1 t2 r d k b) = db_capacity b"
  "db_queue (take_request cb t1 t2 r d k b) = db_queue b"
  "db_stopping (take_request cb t1 t2 r d k b) = db_stopping b"
  "db_submitting (take_request cb t1 t2 r d k b) = db_submitting b"
  "db_closing (take_request cb t1 t2 r d k b) = db_closing b"
  "db_accepted (take_request cb t1 t2 r d k b) = db_accepted b"
  "db_handled (take_request cb t1 t2 r d k b) = db_handled b"
  "db_late (take_request cb t1 t2 r d k b) = db_late b"
  "db_taken (take_request cb t1 t2 r d k b) = db_taken b @ [(stamp t1 r, \<not> expired r t2)]"
  "db_collector (take_request cb t1 t2 r d k b) = (if expired r t2 then d else k (stamp t1 r))"
  "metrics_ok (db_metrics (take_request cb t1 t2 r d k b)) = metrics_ok (db_metrics b)"
  by (simp_all add: take_request_def drop_if_expired_def Let_def split: option.split)

lemma hand_over_fields:
  assumes "hand_over cb t rs tr b = Inr b'"
  shows "db_max_batch_size b' = db_max_batch_size b" "db_max_wait b' = db_max_wait b"
    "db_capacity b' = db_capacity b" "db_queue b' = db_queue b"
    "db_stopping b' = db_stopping b" "db_submitting b' = db_submitting b"
    "db_closing b' = db_closing b" "db_accepted b' = db_accepted b"
    "db_taken b' = db_taken b" "db_late b' = db_late b" "db_collector b' = Waiting"
    "db_handled b' = db_handled b @ [\<lparr>bt_requests = rs, bt_trigger = tr, bt_formed_at = t\<rparr>]"
proof -
  let ?bt = "\<lparr>bt_requests = rs, bt_trigger = tr, bt_formed_at = t\<rparr>"
  obtain m where "b' = b\<lparr>db_metrics := m, db_handled := db_handled b @ [?bt],
        db_collector := Waiting\<rparr>
      \<or> b' = b\<lparr>db_handled := db_handled b @ [?bt], db_collector := Waiting, db_metrics := m\<rparr>"
    using assms unfolding hand_over_def Let_def update_metrics_def rbind_eq_Inr
    by (cases "cb_handler_raises cb ?bt") auto
  then show "db_max_batch_size b' = db_max_batch_size b" "db_max_wait b' = db_max_wait b"
    "db_capacity b' = db_capacity b" "db_queue b' = db_queue b"
    "db_stopping b' = db_stopping b" "db_submitting b' = db_submitting b"
    "db_closing b' = db_closing b" "db_accepted b' = db_accepted b"
    "db_taken b' = db_taken b" "db_late b' = db_late b" "db_collector b' = Waiting"
    "db_handled b' = db_handled b @ [?bt]"
    by auto
qed

lemma hand_over_ok:
  assumes "metrics_ok (db_metrics b)"
  obtains b' where "hand_over cb t rs tr b = Inr b'" "metrics_ok (db_metrics b')"
proof -
  let ?m = "set_queue_depth (int (length (db_queue b)))
    (record_batch (int (length rs)) (tr = TIMEOUT) (db_metrics b))"
  obtain m' where m': "rfold (\<lambda>r m. record_queue_delay (queue_delay r) m) rs ?m = Inr m'"
      "metrics_ok m'"
    using record_queue_delays_ok [of ?m queue_delay rs] assms by auto
  have "\<exists>b'. hand_over cb t rs tr b = Inr b' \<and> metrics_ok (db_metrics b')"
    using m' by (auto simp: hand_over_def Let_def batch_len_def)
  then show thesis
    using that by blast
qed

section \<open>The conjuncts\<close>

fun in_hand :: "collector \<Rightarrow> request list" where
  "in_hand (Filling rs _) = rs"
| "in_hand (Polling rs _ _ _) = rs"
| "in_hand (Draining rs) = rs"
| "in_hand (Reposting rs) = rs"
| "in_hand (Formed rs _) = rs"
| "in_hand _ = []"

fun queued_requests :: "'a option list \<Rightarrow> 'a list" where
  "queued_requests [] = []"
| "queued_requests (None # q) = queued_requests q"
| "queued_requests (Some r # q) = r # queued_requests q"

lemma queued_requests_append [simp]:
  "queued_requests (p @ q) = queued_requests p @ queued_requests q"
  by (induction p rule: queued_requests.induct) auto

text \<open>No request stands behind a sentinel.\<close>

fun sentinel_last :: "'a option list \<Rightarrow> bool" where
  "sentinel_last [] = True"
| "sentinel_last (None # q) = (queued_requests q = [])"
| "sentinel_last (Some r # q) = sentinel_last q"

lemma sentinel_last_none: "queued_requests q = [] \<Longrightarrow> sentinel_last q"
  by (induction q rule: sentinel_last.induct) auto

lemma sentinel_last_snoc: "sentinel_last q \<Longrightarrow> sentinel_last (q @ [None])"
  by (induction q rule: sentinel_last.induct) auto

lemma sentinel_last_append: "None \<notin> set q \<Longrightarrow> sentinel_last (q @ [Some r])"
  by (induction q rule: sentinel_last.induct) auto

definition batch_ok :: "int \<Rightarrow> request list \<Rightarrow> batch_trigger \<Rightarrow> bool" where
  "batch_ok n rs tr \<longleftrightarrow> rs \<noteq> [] \<and> int (length rs) \<le> n
     \<and> (tr = MAX_SIZE \<longrightarrow> int (length rs) = n) \<and> (tr = TIMEOUT \<longrightarrow> int (length rs) < n)"

definition anchored :: "real \<Rightarrow> request list \<Rightarrow> real \<Rightarrow> bool" where
  "anchored w rs deadline \<longleftrightarrow> rs \<noteq> [] \<and> (\<exists>t. rq_dequeued_at (hd rs) = Some t \<and> deadline = t + w)"

definition collecting_ok :: "dynamic_batcher \<Rightarrow> bool" where
  "collecting_ok b \<longleftrightarrow>
     (case db_collector b of
        Filling rs deadline \<Rightarrow> anchored (db_max_wait b) rs deadline
          \<and> int (length rs) \<le> db_max_batch_size b
      | Polling rs deadline asked remaining \<Rightarrow> anchored (db_max_wait b) rs deadline
          \<and> int (length rs) < db_max_batch_size b \<and> 0 < remaining \<and> asked + remaining = deadline
      | Draining rs \<Rightarrow> rs \<noteq> [] \<and> int (length rs) \<le> db_max_batch_size b
      | Reposting rs \<Rightarrow> rs \<noteq> [] \<and> int (length rs) \<le> db_max_batch_size b
      | Formed rs tr \<Rightarrow> batch_ok (db_max_batch_size b) rs tr
      | _ \<Rightarrow> True)"

lemma collecting_ok_cong:
  "db_collector b' = db_collector b \<Longrightarrow> db_max_wait b' = db_max_wait b \<Longrightarrow>
     db_max_batch_size b' = db_max_batch_size b \<Longrightarrow> collecting_ok b' = collecting_ok b"
  by (cases "db_collector b") (simp_all add: collecting_ok_def)

definition sizes_ok :: "dynamic_batcher \<Rightarrow> bool" where
  "sizes_ok b \<longleftrightarrow> 0 < db_max_batch_size b \<and> db_max_batch_size b \<le> db_capacity b
     \<and> 0 \<le> db_max_wait b \<and> int (length (db_queue b)) \<le> db_capacity b
     \<and> metrics_ok (db_metrics b)
     \<and> (\<forall>bt \<in> set (db_handled b). batch_ok (db_max_batch_size b) (bt_requests bt) (bt_trigger bt))"

definition fifo_ok :: "dynamic_batcher \<Rightarrow> bool" where
  "fifo_ok b \<longleftrightarrow>
     map (unstamped \<circ> fst) (db_taken b) @ queued_requests (db_queue b) = db_accepted b
     \<and> (\<forall>r \<in> set (db_submitting b) \<union> set (queued_requests (db_queue b)). rq_dequeued_at r = None)"

definition delivered_ok :: "dynamic_batcher \<Rightarrow> bool" where
  "delivered_ok b \<longleftrightarrow>
     concat (map bt_requests (db_handled b)) @ in_hand (db_collector b)
       = map fst (filter snd (db_taken b))"

definition stamped_ok :: "request \<times> bool \<Rightarrow> bool" where
  "stamped_ok p \<longleftrightarrow> (\<exists>t1 t2. rq_dequeued_at (fst p) = Some t1 \<and> t1 \<le> t2
     \<and> (snd p \<longleftrightarrow> \<not> expired (fst p) t2))"

definition taken_ok :: "dynamic_batcher \<Rightarrow> bool" where
  "taken_ok b \<longleftrightarrow> (\<forall>p \<in> set (db_taken b). stamped_ok p)"

definition sentinel_ok :: "dynamic_batcher \<Rightarrow> bool" where
  "sentinel_ok b \<longleftrightarrow>
     (\<not> db_stopping b \<longrightarrow> None \<notin> set (db_queue b) \<and> \<not> db_closing b
        \<and> db_collector b \<noteq> Exited \<and> db_late b = 0
        \<and> (\<forall>rs. db_collector b \<noteq> Draining rs \<and> db_collector b \<noteq> Reposting rs))
     \<and> (db_late b = 0 \<longrightarrow> sentinel_last (db_queue b)
        \<and> (db_collector b = Exited \<longrightarrow> queued_requests (db_queue b) = [])
        \<and> (\<forall>rs. db_collector b = Draining rs \<or> db_collector b = Reposting rs
             \<longrightarrow> queued_requests (db_queue b) = []))"

section \<open>Preservation\<close>

lemmas client_defs = submit_enter_def submit_put_def submit_refused_def shutdown_begin_def
  shutdown_post_def Let_def

lemma sizes_ok_step [inv_intros]:
  assumes "db_step cb b b'" "sizes_ok b" "collecting_ok b"
  shows "sizes_ok b'"
  using assms(1)
proof (cases rule: db_step.cases)
  case (db_collect t1 t2 timed_out)
  show ?thesis
  proof (cases "db_collector b")
    case (Formed rs tr)
    then have h: "hand_over cb t1 rs tr b = Inr b'"
      using db_collect by (simp add: collector_step_def)
    obtain b'' where "hand_over cb t1 rs tr b = Inr b''" "metrics_ok (db_metrics b'')"
      using hand_over_ok assms(2) unfolding sizes_ok_def by metis
    with h have "metrics_ok (db_metrics b')" by simp
    with assms(2,3) Formed hand_over_fields [OF h] show ?thesis
      by (auto simp: sizes_ok_def collecting_ok_def)
  qed (use assms(2) db_collect in \<open>auto simp: collector_step_def sizes_ok_def db_simps Let_def
        queue_full_def split: list.splits option.splits if_splits\<close>)
qed (use assms(2) in \<open>auto simp: client_defs sizes_ok_def queue_full_def\<close>)

lemma collecting_ok_step [inv_intros]:
  assumes "db_step cb b b'" "sizes_ok b" "collecting_ok b"
  shows "collecting_ok b'"
  using assms(1)
proof (cases rule: db_step.cases)
  case (db_collect t1 t2 timed_out)
  have pos: "1 \<le> db_max_batch_size b"
    using assms(2) by (simp add: sizes_ok_def)
  show ?thesis
  proof (cases "db_collector b")
    case (Formed rs tr)
    then have "hand_over cb t1 rs tr b = Inr b'"
      using db_collect by (simp add: collector_step_def)
    from hand_over_fields [OF this] show ?thesis
      by (simp add: collecting_ok_def)
  qed (use assms(3) pos db_collect in \<open>auto simp: collector_step_def collecting_ok_def db_simps
        batch_ok_def anchored_def Let_def split: list.splits option.splits if_splits\<close>)
qed (use assms(3) collecting_ok_cong [of b' b] in \<open>auto simp: client_defs\<close>)

lemma fifo_ok_step [inv_intros]:
  assumes "db_step cb b b'" "fifo_ok b"
  shows "fifo_ok b'"
  using assms(1)
proof (cases rule: db_step.cases)
  case (db_collect t1 t2 timed_out)
  have u: "unstamped r = r" if "rq_dequeued_at r = None" for r
    using that by (cases r) (simp add: unstamped_def)
  show ?thesis
  proof (cases "db_collector b")
    case (Formed rs tr)
    then have "hand_over cb t1 rs tr b = Inr b'"
      using db_collect by (simp add: collector_step_def)
    from hand_over_fields [OF this] assms(2) show ?thesis
      by (simp add: fifo_ok_def)
  qed (use assms(2) db_collect u in \<open>auto simp: collector_step_def fifo_ok_def db_simps
        Let_def split: list.splits option.splits if_splits\<close>)
qed (use assms(2) in \<open>auto simp: client_defs fifo_ok_def dest: notin_set_remove1 in_set_remove1
      intro: set_remove1_subset [THEN subsetD]\<close>)

lemma delivered_ok_step [inv_intros]:
  assumes "db_step cb b b'" "delivered_ok b"
  shows "delivered_ok b'"
  using assms(1)
proof (cases rule: db_step.cases)
  case (db_collect t1 t2 timed_out)
  show ?thesis
  proof (cases "db_collector b")
    case (Formed rs tr)
    then have "hand_over cb t1 rs tr b = Inr b'"
      using db_collect by (simp add: collector_step_def)
    from hand_over_fields [OF this] assms(2) Formed show ?thesis
      by (simp add: delivered_ok_def)
  qed (use assms(2) db_collect in \<open>auto simp: collector_step_def delivered_ok_def db_simps
        Let_def split: list.splits option.splits if_splits\<close>)
qed (use assms(2) in \<open>auto simp: client_defs delivered_ok_def\<close>)

lemma taken_ok_step [inv_intros]:
  assumes "db_step cb b b'" "taken_ok b"
  shows "taken_ok b'"
  using assms(1)
proof (cases rule: db_step.cases)
  case (db_collect t1 t2 timed_out)
  then have s: "stamped_ok (stamp t1 r, \<not> expired r t2)" for r
    by (auto simp: stamped_ok_def)
  show ?thesis
  proof (cases "db_collector b")
    case (Formed rs tr)
    then have "hand_over cb t1 rs tr b = Inr b'"
      using db_collect by (simp add: collector_step_def)
    from hand_over_fields [OF this] assms(2) show ?thesis
      by (simp add: taken_ok_def)
  qed (use assms(2) db_collect s in \<open>auto simp: collector_step_def taken_ok_def db_simps
        Let_def split: list.splits option.splits if_splits\<close>)
qed (use assms(2) in \<open>auto simp: client_defs taken_ok_def\<close>)

lemma sentinel_ok_step [inv_intros]:
  assumes "db_step cb b b'" "sentinel_ok b"
  shows "sentinel_ok b'"
  using assms(1)
proof (cases rule: db_step.cases)
  case (db_collect t1 t2 timed_out)
  show ?thesis
  proof (cases "db_collector b")
    case (Formed rs tr)
    then have "hand_over cb t1 rs tr b = Inr b'"
      using db_collect by (simp add: collector_step_def)
    from hand_over_fields [OF this] assms(2) show ?thesis
      by (simp add: sentinel_ok_def)
  qed (use assms(2) db_collect in \<open>auto simp: collector_step_def sentinel_ok_def db_simps
        Let_def sentinel_last_none sentinel_last_snoc
        split: list.splits option.splits if_splits\<close>)
qed (use assms(2) in \<open>auto simp: client_defs sentinel_ok_def sentinel_last_snoc
      sentinel_last_append split: if_splits\<close>)

definition db_inv :: "dynamic_batcher \<Rightarrow> bool" where
  "db_inv b \<longleftrightarrow> sizes_ok b \<and> collecting_ok b \<and> fifo_ok b \<and> delivered_ok b \<and> taken_ok b
     \<and> sentinel_ok b"

lemma db_inv_init:
  "DynamicBatcher n w c (MetricsRegistry t) = Inr b \<Longrightarrow> db_inv b"
  by (auto simp: DynamicBatcher_def db_inv_def sizes_ok_def collecting_ok_def fifo_ok_def
      delivered_ok_def taken_ok_def sentinel_ok_def split: if_splits)

lemma db_reachable_inv:
  assumes "db_reachable cb b"
  shows "db_inv b"
proof -
  obtain n w c t b0 where init: "DynamicBatcher n w c (MetricsRegistry t) = Inr b0"
      and run: "db_steps cb b0 b"
    using assms by (auto simp: db_reachable_def)
  from run show ?thesis
  proof (induction rule: db_steps.induct)
    case db_none
    show ?case by (rule db_inv_init [OF init])
  next
    case (db_more b' b'')
    then show ?case
      unfolding db_inv_def by (blast intro: inv_intros)
  qed
qed

end
