(* ===== verification/Batcher_Properties.thy ===== *)
theory Batcher_Properties
  imports Batcher_Invariant
begin

text \<open>
  What the dynamic batcher promises, over every interleaving of submitting threads, the
  collector and a shutdown.
\<close>

section \<open>Scripts\<close>

text \<open>A schedule as data, so that a concrete run is evaluated.\<close>

datatype db_event =
    Enter request | Put request | Refuse request | Begin_Shutdown | Post_Sentinel
  | Collect real real bool

fun db_apply :: "callbacks \<Rightarrow> db_event \<Rightarrow> dynamic_batcher \<Rightarrow> dynamic_batcher result" where
  "db_apply cb (Enter r) b =
     (if rq_dequeued_at r = None then Inr (snd (submit_enter r b)) else Inl RuntimeError)"
| "db_apply cb (Put r) b =
     (if r \<in> set (db_submitting b) \<and> \<not> queue_full b then Inr (submit_put r b) else Inl RuntimeError)"
| "db_apply cb (Refuse r) b =
     (if r \<in> set (db_submitting b) \<and> queue_full b then Inr (submit_refused r b) else Inl RuntimeError)"
| "db_apply cb Begin_Shutdown b = Inr (shutdown_begin b)"
| "db_apply cb Post_Sentinel b =
     (if db_closing b then Inr (shutdown_post b) else Inl RuntimeError)"
| "db_apply cb (Collect t1 t2 timed_out) b =
     (if t1 \<le> t2 then collector_step cb t1 t2 timed_out b else Inl RuntimeError)"

lemma db_apply_step: "db_apply cb e b = Inr b' \<Longrightarrow> db_step cb b b'"
  by (cases e) (auto intro: db_step.intros split: if_splits)

lemma db_steps_trans: "db_steps cb b b' \<Longrightarrow> db_steps cb b' b'' \<Longrightarrow> db_steps cb b b''"
  by (rotate_tac, induction rule: db_steps.induct) (auto intro: db_more)

lemma db_play:
  assumes "rfold (db_apply cb) es b = Inr b'"
  shows "db_steps cb b b'"
  using assms
proof (induction es arbitrary: b)
  case (Cons e es)
  then obtain b1 where "db_apply cb e b = Inr b1" "rfold (db_apply cb) es b1 = Inr b'"
    by (auto simp: rbind_eq_Inr)
  then have "db_step cb b b1" "db_steps cb b1 b'"
    using Cons.IH by (auto intro: db_apply_step)
  then show ?case
    by (meson db_more db_none db_steps_trans)
qed (simp add: db_none)

lemma db_played:
  assumes "rbind (DynamicBatcher n w c (MetricsRegistry t)) (rfold (db_apply cb) es) = Inr b"
  shows "db_reachable cb b"
  using assms unfolding db_reachable_def rbind_eq_Inr by (blast dest: db_play)

text \<open>Two requests, the second with a deadline.\<close>

definition ex_request :: "string \<Rightarrow> real option \<Rightarrow> request" where
  "ex_request i d = \<lparr>rq_prompt = ''p'', rq_generation = gc_defaults, rq_id = i,
     rq_enqueued_at = 0, rq_dequeued_at = None, rq_deadline = d\<rparr>"

definition ex_callbacks :: callbacks where
  "ex_callbacks = \<lparr>cb_handler_raises = (\<lambda>_. False), cb_on_expired_raises = None\<rparr>"

abbreviation "ex_a \<equiv> ex_request ''a'' None"
abbreviation "ex_b \<equiv> ex_request ''b'' (Some 1)"

lemmas play_simps = DynamicBatcher_def submit_enter_def submit_put_def submit_refused_def
  shutdown_begin_def shutdown_post_def queue_full_def update_metrics_def collector_step_def
  take_request_def drop_if_expired_def hand_over_def Let_def expired_def ex_request_def
  ex_callbacks_def

text \<open>Both requests are accepted; \<open>a\<close> starts a batch, \<open>b\<close> is found expired, the batch times out.\<close>

definition ex_run :: "db_event list" where
  "ex_run = [Enter ex_a, Enter ex_b, Put ex_a, Put ex_b, Collect 1 1 False, Collect 1 1 False,
     Collect 2 2 False, Collect 2 2 False, Collect 3 3 True, Collect 3 3 False]"

text \<open>The parts of a state the examples look at.\<close>

definition observe :: "dynamic_batcher \<Rightarrow>
    (string list \<times> batch_trigger) list \<times> (string \<times> bool) list \<times> collector \<times> nat \<times> nat" where
  "observe b = (map (\<lambda>bt. (map rq_id (bt_requests bt), bt_trigger bt)) (db_handled b),
     map (\<lambda>(r, kept). (rq_id r, kept)) (db_taken b), db_collector b, length (db_queue b), db_late b)"

lemma db_observed:
  assumes "rbind (rbind (DynamicBatcher n w c (MetricsRegistry t)) (rfold (db_apply cb) es))
             (\<lambda>b. Inr (observe b)) = Inr v"
  obtains b where "db_reachable cb b" "observe b = v"
  using assms db_played unfolding rbind_eq_Inr by blast

lemma ex_run_reaches:
  obtains b where "db_reachable ex_callbacks b"
    "observe b = ([([''a''], TIMEOUT)], [(''a'', True), (''b'', False)], Waiting, 0, 0)"
proof (rule db_observed)
  show "rbind (rbind (DynamicBatcher 2 2 2 (MetricsRegistry 0)) (rfold (db_apply ex_callbacks) ex_run))
      (\<lambda>b. Inr (observe b))
    = Inr ([([''a''], TIMEOUT)], [(''a'', True), (''b'', False)], Waiting, 0, 0)"
    by code_simp
qed blast

section \<open>Properties\<close>

text \<open>
  C4: First in, first out, exactly once. In every reachable state the accepted requests
  are, in the order of acceptance, those the collector has taken followed by those still
  queued; and the batches handed over, followed by the batch in formation, are exactly the
  taken requests that had not expired, in that same order. Nothing is lost, duplicated
  or overtaken.
\<close>

theorem requests_are_fifo_exactly_once:
  assumes "db_reachable cb b"
  shows "db_accepted b = map (unstamped \<circ> fst) (db_taken b) @ queued_requests (db_queue b)
    \<and> concat (map bt_requests (db_handled b)) @ in_hand (db_collector b)
        = map fst (filter snd (db_taken b))"
  using db_reachable_inv [OF assms] by (simp add: db_inv_def fifo_ok_def delivered_ok_def)

theorem requests_are_fifo_exactly_once_witness:
  "\<exists>b. db_reachable ex_callbacks b \<and> length (db_taken b) = 2
    \<and> db_accepted b = map (unstamped \<circ> fst) (db_taken b) @ queued_requests (db_queue b)"
proof (rule ex_run_reaches)
  fix b
  assume b: "db_reachable ex_callbacks b"
    "observe b = ([([''a''], TIMEOUT)], [(''a'', True), (''b'', False)], Waiting, 0, 0)"
  from b(2) have "length (db_taken b) = 2"
    by (auto simp: observe_def dest: arg_cong [of _ _ length])
  with requests_are_fifo_exactly_once [OF b(1)] b(1) show ?thesis
    by blast
qed

text \<open>
  C5: Batches are never empty and never too large, and the trigger means what it says:
  a batch closed on MAX_SIZE is full, one closed on TIMEOUT is not.
\<close>

theorem batches_are_bounded:
  assumes "db_reachable cb b" "bt \<in> set (db_handled b)"
  shows "bt_requests bt \<noteq> [] \<and> int (batch_len bt) \<le> db_max_batch_size b
    \<and> (bt_trigger bt = MAX_SIZE \<longrightarrow> int (batch_len bt) = db_max_batch_size b)
    \<and> (bt_trigger bt = TIMEOUT \<longrightarrow> int (batch_len bt) < db_max_batch_size b)"
  using db_reachable_inv [OF assms(1)] assms(2)
  by (auto simp: db_inv_def sizes_ok_def batch_ok_def batch_len_def)

theorem batches_are_bounded_witness:
  "\<exists>b bt. db_reachable ex_callbacks b \<and> bt \<in> set (db_handled b) \<and> bt_requests bt \<noteq> []"
proof (rule ex_run_reaches)
  fix b
  assume b: "db_reachable ex_callbacks b"
    "observe b = ([([''a''], TIMEOUT)], [(''a'', True), (''b'', False)], Waiting, 0, 0)"
  then obtain bt where bt: "bt \<in> set (db_handled b)"
    by (auto simp: observe_def)
  with batches_are_bounded [OF b(1) bt] b(1) show ?thesis
    by blast
qed

text \<open>
  Expired work is not executed. Every request handed to the handler was taken
  from the queue before its deadline.
\<close>

theorem handled_requests_were_live:
  assumes "db_reachable cb b" "bt \<in> set (db_handled b)" "r \<in> set (bt_requests bt)"
  shows "\<exists>t. rq_dequeued_at r = Some t \<and> \<not> expired r t"
proof -
  have "delivered_ok b" "taken_ok b"
    using db_reachable_inv [OF assms(1)] by (simp_all add: db_inv_def)
  moreover have "r \<in> set (concat (map bt_requests (db_handled b)) @ in_hand (db_collector b))"
    using assms(2,3) by auto
  ultimately have "r \<in> set (map fst (filter snd (db_taken b)))"
    by (simp only: delivered_ok_def)
  then have "stamped_ok (r, True)"
    using \<open>taken_ok b\<close> by (auto simp: taken_ok_def)
  then show ?thesis
    using expired_mono by (auto simp: stamped_ok_def)
qed

theorem handled_requests_were_live_witness:
  "\<exists>b bt r t. db_reachable ex_callbacks b \<and> bt \<in> set (db_handled b) \<and> r \<in> set (bt_requests bt)
     \<and> rq_dequeued_at r = Some t \<and> \<not> expired r t"
proof (rule ex_run_reaches)
  fix b
  assume b: "db_reachable ex_callbacks b"
    "observe b = ([([''a''], TIMEOUT)], [(''a'', True), (''b'', False)], Waiting, 0, 0)"
  then obtain bt where bt: "bt \<in> set (db_handled b)" "map rq_id (bt_requests bt) = [''a'']"
    by (auto simp: observe_def)
  then obtain r where r: "r \<in> set (bt_requests bt)"
    by auto
  from handled_requests_were_live [OF b(1) bt(1) r] b(1) bt(1) r show ?thesis
    by blast
qed

text \<open>
  The wait is anchored to the oldest member. Whenever the collector waits for
  another request, the batch is not full, and the wait it asked for ends exactly
  \<open>max_wait\<close> after the first member was dequeued, however many requests arrived since.
\<close>

theorem wait_is_anchored_to_first:
  assumes "db_reachable cb b" "db_collector b = Polling rs deadline asked remaining"
  shows "rs \<noteq> [] \<and> int (length rs) < db_max_batch_size b \<and> 0 < remaining
    \<and> (\<exists>t. rq_dequeued_at (hd rs) = Some t \<and> asked + remaining = t + db_max_wait b)"
  using db_reachable_inv [OF assms(1)] assms(2)
  by (auto simp: db_inv_def collecting_ok_def anchored_def)

theorem wait_is_anchored_to_first_witness:
  "\<exists>b rs. db_reachable ex_callbacks b \<and> db_collector b = Polling rs 3 2 1
     \<and> int (length rs) < db_max_batch_size b"
proof (rule db_observed)
  show "rbind (rbind (DynamicBatcher 2 2 2 (MetricsRegistry 0)) (rfold (db_apply ex_callbacks) (take 8 ex_run)))
      (\<lambda>b. Inr (observe b))
    = Inr ([], [(''a'', True), (''b'', False)], Polling [stamp 1 ex_a] 3 2 1, 0, 0)"
    by code_simp
next
  fix b
  assume b: "db_reachable ex_callbacks b"
    "observe b = ([], [(''a'', True), (''b'', False)], Polling [stamp 1 ex_a] 3 2 1, 0, 0)"
  then have "db_collector b = Polling [stamp 1 ex_a] 3 2 1"
    by (simp add: observe_def)
  from wait_is_anchored_to_first [OF b(1) this] this b(1) show ?thesis
    by blast
qed

text \<open>
  A bad batch or a bad callback does not stop the collector. In every reachable
  state its next step returns normally, whatever the handler and \<open>on_expired\<close> do.
\<close>

theorem collector_never_dies:
  assumes "db_reachable cb b"
  shows "\<exists>b'. collector_step cb t1 t2 timed_out b = Inr b'"
proof (cases "db_collector b")
  case (Formed rs tr)
  have "metrics_ok (db_metrics b)"
    using db_reachable_inv [OF assms] by (simp add: db_inv_def sizes_ok_def)
  then obtain b' where "hand_over cb t1 rs tr b = Inr b'"
    by (rule hand_over_ok)
  then show ?thesis
    using Formed by (simp add: collector_step_def)
qed (auto simp: collector_step_def Let_def split: list.split option.split)

theorem collector_never_dies_witness:
  "\<exists>b b'. db_reachable ex_callbacks b \<and> collector_step ex_callbacks 4 4 False b = Inr b'"
  by (rule ex_run_reaches) (use collector_never_dies in blast)

text \<open>
  C6: Shutdown drains. When the collector has exited and no request slipped into the
  queue after \<open>shutdown\<close> began, every accepted request has been taken, and each was
  either handed to the handler or had expired.
\<close>

theorem shutdown_drains_the_queue:
  assumes "db_reachable cb b" "db_collector b = Exited" "db_late b = 0"
  shows "db_accepted b = map (unstamped \<circ> fst) (db_taken b)
    \<and> concat (map bt_requests (db_handled b)) = map fst (filter snd (db_taken b))"
proof -
  have inv: "fifo_ok b" "delivered_ok b" "sentinel_ok b"
    using db_reachable_inv [OF assms(1)] by (simp_all add: db_inv_def)
  have "queued_requests (db_queue b) = []"
    using inv(3) assms(2,3) by (simp add: sentinel_ok_def)
  then show ?thesis
    using inv(1,2) assms(2) by (simp add: fifo_ok_def delivered_ok_def)
qed

definition ex_drain :: "db_event list" where
  "ex_drain = [Enter ex_a, Put ex_a, Begin_Shutdown, Post_Sentinel, Collect 1 1 False,
     Collect 1 1 False, Collect 2 2 False, Collect 2 2 False, Collect 2 2 False,
     Collect 2 2 False, Collect 3 3 False]"

theorem shutdown_drains_the_queue_witness:
  "\<exists>b. db_reachable ex_callbacks b \<and> db_collector b = Exited \<and> db_taken b \<noteq> []
     \<and> concat (map bt_requests (db_handled b)) = map fst (filter snd (db_taken b))"
proof (rule db_observed)
  show "rbind (rbind (DynamicBatcher 2 2 2 (MetricsRegistry 0)) (rfold (db_apply ex_callbacks) ex_drain))
      (\<lambda>b. Inr (observe b))
    = Inr ([([''a''], SHUTDOWN)], [(''a'', True)], Exited, 0, 0)"
    by code_simp
next
  fix b
  assume b: "db_reachable ex_callbacks b"
    "observe b = ([([''a''], SHUTDOWN)], [(''a'', True)], Exited, 0, 0)"
  then have *: "db_collector b = Exited" "db_late b = 0" "db_taken b \<noteq> []"
    by (simp_all add: observe_def) auto
  from shutdown_drains_the_queue [OF b(1) *(1,2)] * b(1) show ?thesis
    by blast
qed

text \<open>
  The sentinel is lost: \<open>shutdown\<close> has given up its \<open>put\<close>, no submitter is left, and no
  sentinel is in the queue or about to be re-posted.
\<close>

definition sentinel_lost :: "dynamic_batcher \<Rightarrow> bool" where
  "sentinel_lost b \<longleftrightarrow> db_stopping b \<and> \<not> db_closing b \<and> db_submitting b = []
     \<and> None \<notin> set (db_queue b) \<and> db_collector b \<noteq> Exited
     \<and> (\<forall>rs. db_collector b \<noteq> Draining rs \<and> db_collector b \<noteq> Reposting rs)"

lemma sentinel_lost_step:
  assumes "db_step cb b b'" "sentinel_lost b"
  shows "sentinel_lost b'"
  using assms(1)
proof (cases rule: db_step.cases)
  case (db_collect t1 t2 timed_out)
  show ?thesis
  proof (cases "db_collector b")
    case (Formed rs tr)
    then have "hand_over cb t1 rs tr b = Inr b'"
      using db_collect by (simp add: collector_step_def)
    from hand_over_fields [OF this] assms(2) show ?thesis
      by (simp add: sentinel_lost_def)
  qed (use assms(2) db_collect in \<open>auto simp: collector_step_def sentinel_lost_def db_simps
        Let_def split: list.splits option.splits if_splits\<close>)
qed (use assms(2) in \<open>auto simp: client_defs sentinel_lost_def\<close>)

text \<open>
  A shutdown that finds the queue full never stops the collector. Once the
  sentinel's \<open>put\<close> has been given up and the submitters are gone, no continuation whatever
  reaches the collector's exit: it never looks at \<open>_stopping\<close>, and nothing will wake it.
\<close>

theorem lost_sentinel_hangs_collector:
  assumes "sentinel_lost b" "db_steps cb b b'"
  shows "db_collector b' \<noteq> Exited"
proof -
  from assms(2,1) have "sentinel_lost b'"
    by (induction rule: db_steps.induct) (auto intro: sentinel_lost_step)
  then show ?thesis
    by (simp add: sentinel_lost_def)
qed

definition ex_lost :: "db_event list" where
  "ex_lost = [Enter ex_a, Put ex_a, Begin_Shutdown, Post_Sentinel]"

theorem lost_sentinel_hangs_collector_witness:
  "\<exists>b. db_reachable ex_callbacks b \<and> (\<forall>b'. db_steps ex_callbacks b b' \<longrightarrow> db_collector b' \<noteq> Exited)"
proof -
  have "rbind (rbind (DynamicBatcher 1 2 1 (MetricsRegistry 0)) (rfold (db_apply ex_callbacks) ex_lost))
      (\<lambda>b. Inr (db_stopping b, db_closing b, db_submitting b, db_queue b, db_collector b))
    = Inr (True, False, [], [Some ex_a], Waiting)"
    by code_simp
  then obtain b where b: "db_reachable ex_callbacks b" "sentinel_lost b"
    using db_played unfolding rbind_eq_Inr sentinel_lost_def by fastforce
  from b(1) lost_sentinel_hangs_collector [OF b(2)] show ?thesis
    by blast
qed

section \<open>The counters\<close>

definition counts_ok :: "dynamic_batcher \<Rightarrow> bool" where
  "counts_ok b \<longleftrightarrow> (let m = db_metrics b; h = db_handled b in
     mr_batches m = int (length h)
     \<and> mr_batched_requests m = sum_list (map (\<lambda>bt. int (batch_len bt)) h)
     \<and> mr_timeout_closures m = int (length (filter (\<lambda>bt. bt_trigger bt = TIMEOUT) h))
     \<and> mr_size_closures m = int (length (filter (\<lambda>bt. bt_trigger bt \<noteq> TIMEOUT) h))
     \<and> mr_expired m = int (length (filter (\<lambda>p. \<not> snd p) (db_taken b)))
     \<and> 0 \<le> mr_rejected m
     \<and> int (length (db_accepted b) + length (db_submitting b)) \<le> mr_received m
     \<and> mr_received m \<le> int (length (db_accepted b) + length (db_submitting b)) + mr_rejected m)"

lemmas counter_defs = record_received_def record_rejected_def record_failed_def
  record_expired_def record_batch_def set_queue_depth_def

lemma record_queue_delays_counters:
  assumes "rfold (\<lambda>r m. record_queue_delay (f r) m) rs m = Inr m'"
  shows "mr_batches m' = mr_batches m \<and> mr_batched_requests m' = mr_batched_requests m
    \<and> mr_timeout_closures m' = mr_timeout_closures m \<and> mr_size_closures m' = mr_size_closures m
    \<and> mr_expired m' = mr_expired m \<and> mr_rejected m' = mr_rejected m
    \<and> mr_received m' = mr_received m"
  using assms
proof (induction rs arbitrary: m)
  case (Cons r rs)
  obtain m1 where m1: "record_queue_delay (f r) m = Inr m1"
      "rfold (\<lambda>r m. record_queue_delay (f r) m) rs m1 = Inr m'"
    using Cons.prems by (auto simp: rbind_eq_Inr)
  obtain h where "m1 = m\<lparr>mr_queue_delay := h\<rparr>"
    using m1(1) by (auto simp: record_queue_delay_def rbind_eq_Inr)
  with Cons.IH [OF m1(2)] show ?case
    by simp
qed simp

lemma hand_over_counts:
  assumes "hand_over cb t rs tr b = Inr b'" "counts_ok b"
  shows "counts_ok b'"
proof -
  let ?bt = "\<lparr>bt_requests = rs, bt_trigger = tr, bt_formed_at = t\<rparr>"
  let ?m = "set_queue_depth (int (length (db_queue b)))
    (record_batch (int (batch_len ?bt)) (tr = TIMEOUT) (db_metrics b))"
  obtain m where m: "rfold (\<lambda>r m. record_queue_delay (queue_delay r) m) rs ?m = Inr m"
      "db_metrics b' = m \<or> db_metrics b' = record_failed m"
    using assms(1) unfolding hand_over_def Let_def update_metrics_def rbind_eq_Inr
    by (cases "cb_handler_raises cb ?bt") auto
  have eqs: "mr_batches (db_metrics b') = mr_batches ?m"
    "mr_batched_requests (db_metrics b') = mr_batched_requests ?m"
    "mr_timeout_closures (db_metrics b') = mr_timeout_closures ?m"
    "mr_size_closures (db_metrics b') = mr_size_closures ?m"
    "mr_expired (db_metrics b') = mr_expired ?m" "mr_rejected (db_metrics b') = mr_rejected ?m"
    "mr_received (db_metrics b') = mr_received ?m"
    using m(2) record_queue_delays_counters [OF m(1)] by (elim disjE; simp add: record_failed_def)+
  show ?thesis
    using assms(2) unfolding counts_ok_def Let_def eqs hand_over_fields [OF assms(1)]
    by (cases "tr = TIMEOUT") (simp_all add: counter_defs Let_def)
qed

lemma take_request_counts:
  "counts_ok (b\<lparr>db_queue := q\<rparr>) = counts_ok b"
  "counts_ok (b\<lparr>db_collector := c\<rparr>) = counts_ok b"
  "counts_ok b \<Longrightarrow> counts_ok (take_request cb t1 t2 r d k b)"
  by (auto simp: counts_ok_def Let_def take_request_def drop_if_expired_def counter_defs
      update_metrics_def split: option.splits)

lemma length_remove1_mem: "x \<in> set xs \<Longrightarrow> length xs = Suc (length (remove1 x xs))"
  by (induction xs) auto

lemma counts_ok_step:
  assumes "db_step cb b b'" "counts_ok b"
  shows "counts_ok b'"
  using assms(1)
proof (cases rule: db_step.cases)
  case (db_collect t1 t2 timed_out)
  show ?thesis
  proof (cases "db_collector b")
    case (Formed rs tr)
    then have "hand_over cb t1 rs tr b = Inr b'"
      using db_collect by (simp add: collector_step_def)
    then show ?thesis
      using assms(2) by (rule hand_over_counts)
  next
    case Reposting
    then show ?thesis
      using db_collect assms(2)
      by (auto simp: collector_step_def counts_ok_def Let_def split: if_splits)
  qed (use assms(2) db_collect in \<open>auto simp: collector_step_def take_request_counts
        Let_def split: list.splits option.splits if_splits\<close>)
next
  case (db_put r)
  then have "length (db_submitting b) = Suc (length (remove1 r (db_submitting b)))"
    by (simp add: length_remove1_mem)
  with db_put(1) assms(2) show ?thesis
    by (auto simp: counts_ok_def client_defs counter_defs)
next
  case (db_refused r)
  then have "length (db_submitting b) = Suc (length (remove1 r (db_submitting b)))"
    by (simp add: length_remove1_mem)
  with db_refused(1) assms(2) show ?thesis
    by (auto simp: counts_ok_def client_defs counter_defs)
qed (use assms(2) in \<open>auto simp: counts_ok_def client_defs counter_defs split: if_splits\<close>)

text \<open>
  C7: The counters describe what happened. In every reachable state the batch counters
  equal the number and the sizes of the batches handed over; every batch closed for any
  reason but a timeout, a shutdown included, counts as closed by size; the expiry counter
  is the number of dropped requests; and the received counter is the accepted requests
  and those still in \<open>put\<close> plus some that were then rejected.
\<close>

theorem counters_tell_the_truth:
  assumes "db_reachable cb b"
  shows "mr_batches (db_metrics b) = int (length (db_handled b))
    \<and> mr_batched_requests (db_metrics b) = sum_list (map (\<lambda>bt. int (batch_len bt)) (db_handled b))
    \<and> mr_timeout_closures (db_metrics b) = int (length (filter (\<lambda>bt. bt_trigger bt = TIMEOUT) (db_handled b)))
    \<and> mr_size_closures (db_metrics b) = int (length (filter (\<lambda>bt. bt_trigger bt = MAX_SIZE \<or> bt_trigger bt = SHUTDOWN) (db_handled b)))
    \<and> mr_expired (db_metrics b) = int (length (filter (\<lambda>p. \<not> snd p) (db_taken b)))
    \<and> (\<exists>refused. 0 \<le> refused \<and> refused \<le> mr_rejected (db_metrics b)
        \<and> mr_received (db_metrics b)
            = int (length (db_accepted b)) + int (length (db_submitting b)) + refused)"
proof -
  obtain n w c t b0 where init: "DynamicBatcher n w c (MetricsRegistry t) = Inr b0"
      and run: "db_steps cb b0 b"
    using assms by (auto simp: db_reachable_def)
  have "counts_ok b0"
    using init by (auto simp: DynamicBatcher_def counts_ok_def MetricsRegistry_def split: if_splits)
  with run have c: "counts_ok b"
    by (induction rule: db_steps.induct) (auto intro: counts_ok_step)
  have tr: "(\<lambda>bt :: batch. bt_trigger bt = MAX_SIZE \<or> bt_trigger bt = SHUTDOWN) = (\<lambda>bt. bt_trigger bt \<noteq> TIMEOUT)"
  proof (rule ext)
    fix bt :: batch
    show "(bt_trigger bt = MAX_SIZE \<or> bt_trigger bt = SHUTDOWN) = (bt_trigger bt \<noteq> TIMEOUT)"
      by (cases "bt_trigger bt") simp_all
  qed
  let ?a = "int (length (db_accepted b) + length (db_submitting b))"
  have "0 \<le> mr_received (db_metrics b) - ?a \<and> mr_received (db_metrics b) - ?a \<le> mr_rejected (db_metrics b)
      \<and> mr_received (db_metrics b)
          = int (length (db_accepted b)) + int (length (db_submitting b)) + (mr_received (db_metrics b) - ?a)"
    using c unfolding counts_ok_def Let_def by linarith
  with c show ?thesis
    unfolding tr counts_ok_def Let_def by blast
qed

theorem counters_tell_the_truth_witness:
  "\<exists>b. db_reachable ex_callbacks b \<and> length (db_handled b) = 1 \<and> mr_batches (db_metrics b) = 1"
proof (rule ex_run_reaches)
  fix b
  assume b: "db_reachable ex_callbacks b"
    "observe b = ([([''a''], TIMEOUT)], [(''a'', True), (''b'', False)], Waiting, 0, 0)"
  then have "length (db_handled b) = 1"
    by (auto simp: observe_def)
  with counters_tell_the_truth [OF b(1)] b(1) show ?thesis
    by auto
qed

end
