(* ===== verification/Runners.thy ===== *)
theory Runners
  imports Config Py_Text
begin

text \<open>
  \<open>python/cudaforge/runners.py\<close>: the one-shot runners a batch is executed against. The
  hash of \<open>EchoRunner\<close> and, for \<open>TransformersRunner\<close>, the tokeniser and the model are
  parameters: the tokeniser maps a batch of prompts to equally long rows of token ids with
  their attention mask, the model extends every row, and decoding maps ids to text.
\<close>

record generation_result =
  gr_text :: string
  gr_prompt_tokens :: int
  gr_generated_tokens :: int

section \<open>The echo runner\<close>

text \<open>
  \<open>EchoRunner.generate\<close>; the two sleeps have no effect on the result. \<open>zip(strict=True)\<close>
  raises once the shorter list is exhausted. \<open>hexdigest\<close> is \<open>sha256(...).hexdigest()\<close>.
\<close>

fun echo_rows ::
  "(string \<Rightarrow> string) \<Rightarrow> string list \<Rightarrow> generation_config list \<Rightarrow> generation_result list result"
where
  "echo_rows hexdigest [] [] = Inr []"
| "echo_rows hexdigest (prompt # prompts) (setting # settings) =
     (let body = take (nat (max (gc_max_new_tokens setting) 1)) (hexdigest prompt) in
      rbind (echo_rows hexdigest prompts settings) (\<lambda>rest.
        Inr (\<lparr>gr_text = prompt @ '' -> '' @ body,
              gr_prompt_tokens = int (length (split_words prompt)),
              gr_generated_tokens = gc_max_new_tokens setting\<rparr> # rest)))"
| "echo_rows hexdigest _ _ = Inl ValueError"

definition echo_generate ::
  "(string \<Rightarrow> string) \<Rightarrow> string list \<Rightarrow> generation_config list \<Rightarrow> generation_result list result"
where
  "echo_generate hexdigest prompts settings = echo_rows hexdigest prompts settings"

section \<open>The transformers runner\<close>

record sampling =
  sp_max_new_tokens :: int
  sp_do_sample :: bool
  sp_temperature :: "real option"
  sp_top_p :: real
  sp_top_k :: "int option"

record hf_model =
  hf_tokenize :: "string list \<Rightarrow> int list list \<times> int list list"    \<comment> \<open>ids and mask, padded\<close>
  hf_generate :: "int list list \<Rightarrow> int list list \<Rightarrow> sampling \<Rightarrow> int list list result"
  hf_decode :: "int list \<Rightarrow> string"

text \<open>\<open>_configure_tokenizer\<close>: a pad token, EOS when there is none, and left padding.\<close>

record hf_tokenizer_settings =
  ht_pad_token :: "int option"
  ht_eos_token :: "int option"
  ht_padding_side :: string

definition configure_tokenizer :: "hf_tokenizer_settings \<Rightarrow> hf_tokenizer_settings" where
  "configure_tokenizer t =
     (let t = (if ht_pad_token t = None then t\<lparr>ht_pad_token := ht_eos_token t\<rparr> else t)
      in t\<lparr>ht_padding_side := ''left''\<rparr>)"

text \<open>The sampling arguments: the batch runs for its longest member, the rest is the first's.\<close>

definition batch_sampling :: "generation_config list \<Rightarrow> sampling result" where
  "batch_sampling settings =
     (case settings of
        [] \<Rightarrow> Inl ValueError
      | first # rest \<Rightarrow> Inr
          \<lparr>sp_max_new_tokens = fold max (map gc_max_new_tokens rest) (gc_max_new_tokens first),
           sp_do_sample = (\<not> greedy first),
           sp_temperature = (if \<not> greedy first then Some (gc_temperature first) else None),
           sp_top_p = gc_top_p first,
           sp_top_k = (if gc_top_k first = 0 then None else Some (gc_top_k first))\<rparr>)"

fun cut_rows ::
  "hf_model \<Rightarrow> nat \<Rightarrow> int list list \<Rightarrow> int list list \<Rightarrow> generation_config list
     \<Rightarrow> generation_result list result" where
  "cut_rows hf prompt_length [] masks [] = Inr []"
| "cut_rows hf prompt_length (row # rows) (att # masks) (setting # settings) =
     (let new_ids = take (nat (gc_max_new_tokens setting)) (drop prompt_length row) in
      rbind (cut_rows hf prompt_length rows masks settings) (\<lambda>rest.
        Inr (\<lparr>gr_text = hf_decode hf new_ids, gr_prompt_tokens = sum_list att,
              gr_generated_tokens = int (length new_ids)\<rparr> # rest)))"
| "cut_rows hf prompt_length (row # rows) [] (setting # settings) = Inl IndexError"
| "cut_rows hf prompt_length _ masks _ = Inl ValueError"

definition hf_run ::
  "hf_model \<Rightarrow> string list \<Rightarrow> generation_config list \<Rightarrow> generation_result list result" where
  "hf_run hf prompts settings =
     (let (ids, masks) = hf_tokenize hf prompts in
      rbind (batch_sampling settings) (\<lambda>s.
      rbind (hf_generate hf ids masks s) (\<lambda>rows.
        cut_rows hf (case ids of [] \<Rightarrow> 0 | r # _ \<Rightarrow> length r) rows masks settings)))"

section \<open>Shape of the results\<close>

lemma echo_rows_length:
  "length prompts = length settings \<Longrightarrow>
     \<exists>rs. echo_rows hexdigest prompts settings = Inr rs \<and> length rs = length prompts"
  by (induction prompts settings rule: list_induct2) auto

lemma echo_rows_nth:
  "echo_rows hexdigest prompts settings = Inr rs \<Longrightarrow> i < length prompts \<Longrightarrow>
     rs ! i = \<lparr>gr_text = prompts ! i @ '' -> '' @
                 take (nat (max (gc_max_new_tokens (settings ! i)) 1)) (hexdigest (prompts ! i)),
               gr_prompt_tokens = int (length (split_words (prompts ! i))),
               gr_generated_tokens = gc_max_new_tokens (settings ! i)\<rparr>"
  by (induction prompts settings arbitrary: rs i rule: list_induct2')
    (auto simp: rbind_eq_Inr nth_Cons split: nat.splits)

lemma cut_rows_length:
  "cut_rows hf n rows masks settings = Inr rs \<Longrightarrow>
     length rs = length rows \<and> length rows = length settings"
  by (induction hf n rows masks settings arbitrary: rs rule: cut_rows.induct)
    (auto simp: rbind_eq_Inr)

lemma cut_rows_nth:
  "cut_rows hf n rows masks settings = Inr rs \<Longrightarrow> i < length rows \<Longrightarrow>
     gr_generated_tokens (rs ! i) = int (length (take (nat (gc_max_new_tokens (settings ! i))) (drop n (rows ! i))))
     \<and> gr_text (rs ! i) = hf_decode hf (take (nat (gc_max_new_tokens (settings ! i))) (drop n (rows ! i)))
     \<and> gr_prompt_tokens (rs ! i) = sum_list (masks ! i)"
  by (induction hf n rows masks settings arbitrary: rs i rule: cut_rows.induct)
    (auto simp: rbind_eq_Inr nth_Cons split: nat.splits)

end
