(* ===== verification/Stepwise.thy ===== *)
theory Stepwise
  imports Requests Py_Text
begin

text \<open>
  \<open>python/cudaforge/stepwise.py\<close>: a sequence as the scheduler sees it, the step-wise runner
  contract, and \<open>EchoStepwiseRunner\<close>. A runner mutates the \<open>SequenceState\<close> objects it is
  given; here it returns them updated, and the caller puts them back where it holds them.
\<close>

section \<open>Sequences\<close>

record sequence_state =
  ss_id :: int
  ss_prompt :: string
  ss_generation :: generation_config
  ss_tokens :: "string list"
  ss_stopped_early :: bool
  ss_prompt_tokens :: int

definition SequenceState :: "int \<Rightarrow> string \<Rightarrow> generation_config \<Rightarrow> sequence_state" where
  "SequenceState i prompt g =
     \<lparr>ss_id = i, ss_prompt = prompt, ss_generation = g, ss_tokens = [],
      ss_stopped_early = False, ss_prompt_tokens = 0\<rparr>"

definition generated :: "sequence_state \<Rightarrow> int" where
  "generated s = int (length (ss_tokens s))"

definition finished :: "sequence_state \<Rightarrow> bool" where
  "finished s \<longleftrightarrow> ss_stopped_early s \<or> gc_max_new_tokens (ss_generation s) \<le> generated s"

definition seq_text :: "sequence_state \<Rightarrow> string" where
  "seq_text s = concat (ss_tokens s)"

definition remaining :: "sequence_state \<Rightarrow> int" where
  "remaining s = max 0 (gc_max_new_tokens (ss_generation s) - generated s)"

section \<open>The runner protocol\<close>

record 'r runner_ops =
  ro_prefill :: "sequence_state list \<Rightarrow> 'r \<Rightarrow> (sequence_state list \<times> 'r) result"
  ro_decode :: "sequence_state list \<Rightarrow> 'r \<Rightarrow> (sequence_state list \<times> 'r) result"
  ro_evict :: "int \<Rightarrow> 'r \<Rightarrow> 'r"

text \<open>
  What one decode step may do to a sequence: nothing to a finished one; to any other,
  append exactly one token, or declare it stopped.
\<close>

definition advanced :: "sequence_state \<Rightarrow> sequence_state \<Rightarrow> bool" where
  "advanced s s' \<longleftrightarrow>
     (if finished s then s' = s
      else (\<exists>t. s' = s\<lparr>ss_tokens := ss_tokens s @ [t]\<rparr>) \<or> s' = s\<lparr>ss_stopped_early := True\<rparr>)"

text \<open>
  Prefill reports the length of the prompt, and may already produce the first token: the
  runner of \<open>stepwise_transformers.py\<close> samples it from the prompt's last position.
\<close>

definition prefilled :: "sequence_state \<Rightarrow> sequence_state \<Rightarrow> bool" where
  "prefilled s s' \<longleftrightarrow> (\<exists>n. s' = s\<lparr>ss_prompt_tokens := n\<rparr>
     \<or> (\<exists>t. s' = s\<lparr>ss_prompt_tokens := n, ss_tokens := ss_tokens s @ [t]\<rparr>)
     \<or> s' = s\<lparr>ss_prompt_tokens := n, ss_stopped_early := True\<rparr>)"

text \<open>
  The protocol as a contract: \<open>held\<close> are the sequences a runner has state for, \<open>ok\<close> is what it
  keeps invariant, and \<open>fine\<close> the settings it can serve. The scheduler admits sequences under
  fresh ids and decodes sequences it has admitted.
\<close>

locale stepwise_runner =
  fixes ops :: "'r runner_ops"
    and held :: "'r \<Rightarrow> int set"
    and ok :: "'r \<Rightarrow> bool"
    and fine :: "generation_config \<Rightarrow> bool"
  assumes prefill_ok: "\<lbrakk>ok r; ss \<noteq> []; distinct (map ss_id ss); ss_id ` set ss \<inter> held r = {};
      \<forall>s \<in> set ss. fine (ss_generation s)\<rbrakk>
    \<Longrightarrow> \<exists>ss' r'. ro_prefill ops ss r = Inr (ss', r') \<and> list_all2 prefilled ss ss'
      \<and> held r' = held r \<union> ss_id ` set ss \<and> ok r'"
    and decode_ok: "\<lbrakk>ok r; distinct (map ss_id ss);
      \<forall>s \<in> set ss. fine (ss_generation s) \<and> (finished s \<or> ss_id s \<in> held r)\<rbrakk>
    \<Longrightarrow> \<exists>ss' r'. ro_decode ops ss r = Inr (ss', r') \<and> list_all2 advanced ss ss'
      \<and> held r' \<subseteq> held r \<and> (\<forall>s \<in> set ss. finished s \<or> ss_id s \<in> held r') \<and> ok r'"
    and evict_ok: "ok r \<Longrightarrow> held (ro_evict ops i r) = held r - {i} \<and> ok (ro_evict ops i r)"
begin

lemma prefill_total:
  assumes "ok r" "ss \<noteq> []" "distinct (map ss_id ss)" "ss_id ` set ss \<inter> held r = {}"
    "\<forall>s \<in> set ss. fine (ss_generation s)"
  obtains ss' r' where "ro_prefill ops ss r = Inr (ss', r')" "list_all2 prefilled ss ss'"
    "held r' = held r \<union> ss_id ` set ss" "ok r'"
  using prefill_ok [OF assms] by blast

lemma decode_total:
  assumes "ok r" "distinct (map ss_id ss)"
    "\<forall>s \<in> set ss. fine (ss_generation s) \<and> (finished s \<or> ss_id s \<in> held r)"
  obtains ss' r' where "ro_decode ops ss r = Inr (ss', r')" "list_all2 advanced ss ss'"
    "held r' \<subseteq> held r" "\<forall>s \<in> set ss. finished s \<or> ss_id s \<in> held r'" "ok r'"
  using decode_ok [OF assms] by blast

lemma evict_all: "ok r \<Longrightarrow> held (fold (ro_evict ops) is r) = held r - set is \<and> ok (fold (ro_evict ops) is r)"
proof (induction "is" arbitrary: r)
  case (Cons i "is")
  with evict_ok [OF Cons.prems, of i] show ?case
    by auto
qed simp

end

text \<open>A new runner that serves the settings \<open>fine\<close>.\<close>

definition serves :: "'r runner_ops \<Rightarrow> 'r \<Rightarrow> (generation_config \<Rightarrow> bool) \<Rightarrow> bool" where
  "serves ops r fine \<longleftrightarrow> (\<exists>held ok. stepwise_runner ops held ok fine \<and> ok r \<and> held r = {})"

section \<open>The echo runner\<close>

record echo_runner =
  er_per_step :: real
  er_prefill :: real
  er_stop_after :: "(string \<times> int) list"
  er_active :: "int set"
  er_steps :: nat
  er_prefills :: nat
  er_step_widths :: "nat list"

definition EchoStepwiseRunner :: "real \<Rightarrow> real \<Rightarrow> (string \<times> int) list \<Rightarrow> echo_runner" where
  "EchoStepwiseRunner per_step prefill stop_after =
     \<lparr>er_per_step = per_step, er_prefill = prefill, er_stop_after = stop_after,
      er_active = {}, er_steps = 0, er_prefills = 0, er_step_widths = []\<rparr>"

definition echo_prefill ::
  "sequence_state list \<Rightarrow> echo_runner \<Rightarrow> (sequence_state list \<times> echo_runner) result" where
  "echo_prefill states r =
     Inr (states, if states = [] then r
                  else r\<lparr>er_prefills := Suc (er_prefills r),
                         er_active := er_active r \<union> ss_id ` set states\<rparr>)"

definition echo_advance :: "echo_runner \<Rightarrow> sequence_state \<Rightarrow> sequence_state" where
  "echo_advance r s =
     (if finished s then s
      else let token = take 2 (ss_prompt s) @ str_int (generated s) in
        case map_of (er_stop_after r) (ss_prompt s) of
          None \<Rightarrow> s\<lparr>ss_tokens := ss_tokens s @ [token]\<rparr>
        | Some limit \<Rightarrow>
            if generated s \<ge> limit then s\<lparr>ss_stopped_early := True\<rparr>
            else s\<lparr>ss_tokens := ss_tokens s @ [token]\<rparr>)"

definition echo_decode ::
  "sequence_state list \<Rightarrow> echo_runner \<Rightarrow> (sequence_state list \<times> echo_runner) result" where
  "echo_decode states r =
     (let active = filter (\<lambda>s. \<not> finished s) states in
      if active = [] then Inr (states, r)
      else Inr (map (echo_advance r) states,
                r\<lparr>er_steps := Suc (er_steps r),
                  er_step_widths := er_step_widths r @ [length active]\<rparr>))"

definition echo_evict :: "int \<Rightarrow> echo_runner \<Rightarrow> echo_runner" where
  "echo_evict i r = r\<lparr>er_active := er_active r - {i}\<rparr>"

definition echo_ops :: "echo_runner runner_ops" where
  "echo_ops = \<lparr>ro_prefill = echo_prefill, ro_decode = echo_decode, ro_evict = echo_evict\<rparr>"

lemma echo_advance_advanced: "advanced s (echo_advance r s)"
  by (auto simp: advanced_def echo_advance_def Let_def split: option.split)

lemma prefilled_refl: "prefilled s s"
  unfolding prefilled_def by (rule exI [of _ "ss_prompt_tokens s"]) simp

interpretation echo: stepwise_runner echo_ops er_active "\<lambda>_. True" "\<lambda>_. True"
proof unfold_locales
  fix ss :: "sequence_state list" and r i
  have "list_all2 prefilled ss ss"
    by (rule list_all2_refl) (rule prefilled_refl)
  then show "\<exists>ss' r'. ro_prefill echo_ops ss r = Inr (ss', r') \<and> list_all2 prefilled ss ss'
      \<and> er_active r' = er_active r \<union> ss_id ` set ss \<and> True"
    by (auto simp: echo_ops_def echo_prefill_def)
  assume "\<forall>s \<in> set ss. True \<and> (finished s \<or> ss_id s \<in> er_active r)"
  moreover have "list_all2 advanced ss ss'" if "ss' = map (echo_advance r) ss" for ss'
    using that by (simp add: list_all2_conv_all_nth echo_advance_advanced)
  moreover have "filter (\<lambda>s. \<not> finished s) ss = [] \<Longrightarrow> map (echo_advance r) ss = ss"
    by (auto simp: filter_empty_conv echo_advance_def intro: map_idI)
  ultimately show "\<exists>ss' r'. ro_decode echo_ops ss r = Inr (ss', r') \<and> list_all2 advanced ss ss'
      \<and> er_active r' \<subseteq> er_active r \<and> (\<forall>s \<in> set ss. finished s \<or> ss_id s \<in> er_active r') \<and> True"
    by (cases "filter (\<lambda>s. \<not> finished s) ss = []")
      (auto simp: echo_ops_def echo_decode_def Let_def)
next
  fix r i
  show "er_active (ro_evict echo_ops i r) = er_active r - {i} \<and> True"
    by (simp add: echo_ops_def echo_evict_def)
qed

lemma echo_serves: "serves echo_ops (EchoStepwiseRunner per_step prefill stop_after) (\<lambda>_. True)"
  unfolding serves_def
  by (intro exI [of _ er_active] exI [of _ "\<lambda>_. True"]) (simp add: echo.stepwise_runner_axioms EchoStepwiseRunner_def)

section \<open>How a step changes what is owed\<close>

lemma advanced_facts:
  assumes "advanced s s'"
  shows "ss_id s' = ss_id s" "ss_prompt s' = ss_prompt s" "ss_generation s' = ss_generation s"
    "ss_prompt_tokens s' = ss_prompt_tokens s" "finished s \<Longrightarrow> finished s'"
    "\<not> finished s \<Longrightarrow> generated s' = generated s + 1 \<or> finished s'"
  using assms by (auto simp: advanced_def generated_def finished_def split: if_splits)

lemma prefilled_facts:
  assumes "prefilled s s'"
  shows "ss_id s' = ss_id s" "ss_prompt s' = ss_prompt s" "ss_generation s' = ss_generation s"
    "finished s \<Longrightarrow> finished s'" "remaining s' \<le> remaining s"
  using assms by (auto simp: prefilled_def finished_def generated_def remaining_def)

text \<open>A sequence that its end-of-sequence token finished still owes what it did not generate.\<close>

lemma remaining_of_a_stopped_sequence:
  "ss_stopped_early s \<Longrightarrow> generated s < gc_max_new_tokens (ss_generation s) \<Longrightarrow> finished s \<and> 0 < remaining s"
  by (simp add: finished_def remaining_def)

end
