(* ===== verification/Engine.thy ===== *)
theory Engine
  imports Requests Runners Stepwise Batcher_Invariant
begin

text \<open>
  \<open>python/cudaforge/engine.py\<close> and \<open>continuous_engine.py\<close>: the futures of the two serving
  engines. A future is a cell of \<open>en_store\<close>, addressed by its position; the engine's
  dictionary \<open>_futures\<close> maps a request id to the cell. Each access to the dictionary is
  under its lock and each cell is settled in one atomic step. Request ids are fresh by
  \<open>uuid4\<close>: the model takes the id as an argument and a step requires it unused.
\<close>

section \<open>Responses and futures\<close>

text \<open>The message of an error response is not modelled, only what it was made of.\<close>

datatype response_error = ExpiredAfter real | RunnerError py_error

record response =
  rs_request_id :: string
  rs_text :: string
  rs_prompt_tokens :: int
  rs_generated_tokens :: int
  rs_queue_time :: real
  rs_inference_time :: real
  rs_batch_size :: int
  rs_error :: "response_error option"
  rs_metadata :: "(string \<times> string) list"

definition total_latency :: "response \<Rightarrow> real" where
  "total_latency r = rs_queue_time r + rs_inference_time r"

definition response_ok :: "response \<Rightarrow> bool" where
  "response_ok r \<longleftrightarrow> rs_error r = None"

datatype future_state = Pending | Result response | Failed py_error | Cancelled

record engine =
  en_config :: engine_config
  en_closed :: bool
  en_metrics :: metrics_registry
  en_store :: "(string \<times> future_state) list"    \<comment> \<open>every future made: request id and state\<close>
  en_futures :: "(string \<times> nat) list"           \<comment> \<open>the dictionary of outstanding ones\<close>

text \<open>\<open>_complete\<close> and, in the continuous engine, \<open>_settle\<close>.\<close>

definition complete :: "string \<Rightarrow> response \<Rightarrow> engine \<Rightarrow> engine" where
  "complete i resp e =
     (case map_of (en_futures e) i of
        None \<Rightarrow> e
      | Some h \<Rightarrow>
          let e = e\<lparr>en_futures := AList.delete i (en_futures e)\<rparr> in
          if snd (en_store e ! h) = Pending
          then e\<lparr>en_store := (en_store e)[h := (fst (en_store e ! h), Result resp)]\<rparr>
          else e)"

text \<open>
  \<open>submit\<close> up to the batcher: the two refusals, then the future is registered before the
  batcher sees the request. The result is the future's cell and the request.
\<close>

definition engine_submit ::
  "string \<Rightarrow> string \<Rightarrow> generation_config option \<Rightarrow> real option \<Rightarrow> real \<Rightarrow> real \<Rightarrow> engine
     \<Rightarrow> (nat \<times> request \<times> engine) result" where
  "engine_submit i prompt gen deadline_seconds now enqueued e =
     (if en_closed e then Inl EngineClosedError
      else let limit = ec_max_prompt_chars (en_config e) in
        if limit \<noteq> 0 \<and> int (length prompt) > limit then Inl ValueError
        else let r = \<lparr>rq_prompt = prompt,
                      rq_generation = (case gen of None \<Rightarrow> ec_generation (en_config e) | Some g \<Rightarrow> g),
                      rq_id = i, rq_enqueued_at = enqueued, rq_dequeued_at = None,
                      rq_deadline = map_option (\<lambda>d. now + d) deadline_seconds\<rparr>
             in Inr (length (en_store e), r,
                     e\<lparr>en_store := en_store e @ [(i, Pending)],
                       en_futures := AList.update i (length (en_store e)) (en_futures e)\<rparr>))"

text \<open>The batcher said no: forget the future and raise.\<close>

definition submit_rejected :: "string \<Rightarrow> engine \<Rightarrow> engine" where
  "submit_rejected i e = e\<lparr>en_futures := AList.delete i (en_futures e)\<rparr>"

text \<open>A caller cancelling its future.\<close>

definition cancel_future :: "nat \<Rightarrow> engine \<Rightarrow> engine" where
  "cancel_future h e =
     (if h < length (en_store e) \<and> snd (en_store e ! h) = Pending
      then e\<lparr>en_store := (en_store e)[h := (fst (en_store e ! h), Cancelled)]\<rparr> else e)"

section \<open>Expiry, execution, failure\<close>

definition expire_response :: "request \<Rightarrow> response" where
  "expire_response r =
     \<lparr>rs_request_id = rq_id r, rs_text = [], rs_prompt_tokens = 0, rs_generated_tokens = 0,
      rs_queue_time = queue_delay r, rs_inference_time = 0, rs_batch_size = 0,
      rs_error = Some (ExpiredAfter (queue_delay r)), rs_metadata = []\<rparr>"

definition expire_request :: "request \<Rightarrow> engine \<Rightarrow> engine" where
  "expire_request r = complete (rq_id r) (expire_response r)"

definition result_response :: "batch \<Rightarrow> real \<Rightarrow> request \<Rightarrow> generation_result \<Rightarrow> response" where
  "result_response b elapsed r res =
     \<lparr>rs_request_id = rq_id r, rs_text = gr_text res, rs_prompt_tokens = gr_prompt_tokens res,
      rs_generated_tokens = gr_generated_tokens res, rs_queue_time = queue_delay r,
      rs_inference_time = elapsed, rs_batch_size = int (batch_len b), rs_error = None,
      rs_metadata = [(''batch_trigger'', trigger_value (bt_trigger b))]\<rparr>"

definition error_response :: "batch \<Rightarrow> py_error \<Rightarrow> real \<Rightarrow> request \<Rightarrow> response" where
  "error_response b err elapsed r =
     \<lparr>rs_request_id = rq_id r, rs_text = [], rs_prompt_tokens = 0, rs_generated_tokens = 0,
      rs_queue_time = queue_delay r, rs_inference_time = elapsed,
      rs_batch_size = int (batch_len b), rs_error = Some (RunnerError err), rs_metadata = []\<rparr>"

definition en_record :: "(metrics_registry \<Rightarrow> metrics_registry) \<Rightarrow> engine \<Rightarrow> engine" where
  "en_record f e = e\<lparr>en_metrics := f (en_metrics e)\<rparr>"

text \<open>
  \<open>_complete_batch\<close>, over the pairs of \<open>zip(strict=True)\<close>: what it raised, if anything, and
  the engine as it left it. Recording a sample raises only on a window of no capacity,
  which the constructor refuses; the counters that such a call would have moved are not
  modelled.
\<close>

fun complete_rows :: "batch \<Rightarrow> real \<Rightarrow> request list \<Rightarrow> generation_result list \<Rightarrow> engine
    \<Rightarrow> py_error option \<times> engine" where
  "complete_rows b elapsed [] [] e = (None, e)"
| "complete_rows b elapsed (r # rs) (res # ress) e =
     (let resp = result_response b elapsed r res in
      case record_completion (total_latency resp) (gr_generated_tokens res) (en_metrics e) of
        Inl err \<Rightarrow> (Some err, e)
      | Inr m \<Rightarrow> complete_rows b elapsed rs ress (complete (rq_id r) resp (e\<lparr>en_metrics := m\<rparr>)))"
| "complete_rows b elapsed _ _ e = (Some ValueError, e)"

definition complete_batch ::
  "batch \<Rightarrow> generation_result list \<Rightarrow> real \<Rightarrow> engine \<Rightarrow> py_error option \<times> engine" where
  "complete_batch b results elapsed e = complete_rows b elapsed (bt_requests b) results e"

definition fail_batch :: "batch \<Rightarrow> py_error \<Rightarrow> real \<Rightarrow> engine \<Rightarrow> engine" where
  "fail_batch b err elapsed e =
     fold (\<lambda>r e. complete (rq_id r) (error_response b err elapsed r) (en_record record_failed e))
       (bt_requests b) e"

text \<open>
  \<open>_execute\<close>, on a worker thread. Deadlines are read twice: once to select the live
  requests and, if that dropped any, once more for each request to decide what to expire.
  \<open>clock k\<close> is the \<open>k\<close>-th clock reading of the call.
\<close>

definition execute ::
  "(string list \<Rightarrow> generation_config list \<Rightarrow> generation_result list result) \<Rightarrow> (nat \<Rightarrow> real)
     \<Rightarrow> batch \<Rightarrow> engine \<Rightarrow> engine" where
  "execute generate clock b e =
     (let rs = bt_requests b; n = length rs;
          live = map snd (filter (\<lambda>(i, r). \<not> expired r (clock i)) (zip [0..<n] rs));
          e = (if length live \<noteq> n
               then fold (\<lambda>(i, r) e. if expired r (clock (n + i))
                                     then expire_request r (en_record record_expired e) else e)
                      (zip [0..<n] rs) e
               else e);
          b = b\<lparr>bt_requests := live\<rparr> in
      if live = [] then e
      else let started = clock (2 * n); ended = clock (2 * n + 1); failed = clock (2 * n + 2) in
        case generate (batch_prompts b) (map rq_generation live) of
          Inl err \<Rightarrow> fail_batch b err (ended - started) e
        | Inr results \<Rightarrow>
            if length results \<noteq> length live then fail_batch b RuntimeError (ended - started) e
            else (case complete_batch b results (ended - started) e of
                    (None, e) \<Rightarrow> e
                  | (Some err, e) \<Rightarrow> fail_batch b err (failed - started) e))"

text \<open>
  The last part of \<open>shutdown\<close>, after the batcher and the executor: whatever is still
  registered is failed.
\<close>

definition abandon_outstanding :: "engine \<Rightarrow> engine" where
  "abandon_outstanding e =
     fold (\<lambda>(i, h) e.
         if snd (en_store e ! h) = Pending
         then e\<lparr>en_store := (en_store e)[h := (fst (en_store e ! h), Failed EngineClosedError)]\<rparr>
         else e)
       (en_futures e) (e\<lparr>en_futures := []\<rparr>)"

definition engine_close :: "engine \<Rightarrow> engine" where
  "engine_close e = e\<lparr>en_closed := True\<rparr>"

section \<open>The continuous engine\<close>

text \<open>
  \<open>_finish\<close>: \<open>dequeued_at or enqueued_at\<close> also falls back on a reading of exactly zero.
\<close>

definition finish_response :: "request \<Rightarrow> sequence_state \<Rightarrow> real \<Rightarrow> response" where
  "finish_response r s now =
     (let started = (case rq_dequeued_at r of
                       None \<Rightarrow> rq_enqueued_at r
                     | Some t \<Rightarrow> if t = 0 then rq_enqueued_at r else t) in
      \<lparr>rs_request_id = rq_id r, rs_text = seq_text s, rs_prompt_tokens = ss_prompt_tokens s,
       rs_generated_tokens = generated s, rs_queue_time = queue_delay r,
       rs_inference_time = max 0 (now - started), rs_batch_size = 0, rs_error = None,
       rs_metadata = [(''scheduler'', ''continuous''),
                      (''stopped_early'', if ss_stopped_early s then ''True'' else ''False'')]\<rparr>)"

definition finish :: "request \<Rightarrow> sequence_state \<Rightarrow> real \<Rightarrow> engine \<Rightarrow> engine result" where
  "finish r s now e =
     (let resp = finish_response r s now in
      rbind (record_completion (total_latency resp) (generated s) (en_metrics e)) (\<lambda>m.
        Inr (complete (rq_id r) resp (e\<lparr>en_metrics := m\<rparr>))))"

section \<open>The life of a future\<close>

text \<open>
  \<open>submit\<close> and \<open>shutdown\<close> run on different threads, so their stages interleave. A caller
  registers its future (having read \<open>_closed\<close> at any earlier time), passes or fails the
  scheduler's own check, and is accepted or refused. \<open>shutdown\<close> sets \<open>_closed\<close>, stops the
  scheduler, and abandons what is left. Batches run, requests expire, sequences finish and
  callers cancel at any time.
\<close>

record service =
  sv_engine :: engine
  sv_entering :: "nat list"     \<comment> \<open>registered, not yet past the scheduler's check\<close>
  sv_checked :: "nat list"      \<comment> \<open>past the check, not yet queued\<close>
  sv_handed :: "nat list"       \<comment> \<open>returned to their callers\<close>
  sv_stopping :: bool
  sv_abandoned :: bool

definition service_start :: "engine_config \<Rightarrow> metrics_registry \<Rightarrow> service" where
  "service_start c m =
     \<lparr>sv_engine = \<lparr>en_config = c, en_closed = False, en_metrics = m, en_store = [], en_futures = []\<rparr>,
      sv_entering = [], sv_checked = [], sv_handed = [], sv_stopping = False, sv_abandoned = False\<rparr>"

inductive service_step :: "service \<Rightarrow> service \<Rightarrow> bool" where
  enter: "engine_submit i p g d now enq (sv_engine s\<lparr>en_closed := False\<rparr>) = Inr (h, r, e) \<Longrightarrow>
    i \<notin> set (map fst (en_store (sv_engine s))) \<Longrightarrow>
    service_step s (s\<lparr>sv_engine := e\<lparr>en_closed := en_closed (sv_engine s)\<rparr>, sv_entering := h # sv_entering s\<rparr>)"
| check: "h \<in> set (sv_entering s) \<Longrightarrow> \<not> sv_stopping s \<Longrightarrow>
    service_step s (s\<lparr>sv_entering := remove1 h (sv_entering s), sv_checked := h # sv_checked s\<rparr>)"
| accept: "h \<in> set (sv_checked s) \<Longrightarrow>
    service_step s (s\<lparr>sv_checked := remove1 h (sv_checked s), sv_handed := h # sv_handed s\<rparr>)"
| refuse: "h \<in> set (sv_entering s @ sv_checked s) \<Longrightarrow>
    service_step s (s\<lparr>sv_engine := submit_rejected (fst (en_store (sv_engine s) ! h)) (sv_engine s),
                      sv_entering := remove1 h (sv_entering s), sv_checked := remove1 h (sv_checked s)\<rparr>)"
| run_batch: "service_step s (s\<lparr>sv_engine := execute generate clock b (sv_engine s)\<rparr>)"
| expire: "service_step s (s\<lparr>sv_engine := expire_request r (en_record record_expired (sv_engine s))\<rparr>)"
| finish_sequence: "finish r q now (sv_engine s) = Inr e \<Longrightarrow> service_step s (s\<lparr>sv_engine := e\<rparr>)"
| cancel: "h \<in> set (sv_handed s) \<Longrightarrow>
    service_step s (s\<lparr>sv_engine := cancel_future h (sv_engine s)\<rparr>)"
| close: "service_step s (s\<lparr>sv_engine := engine_close (sv_engine s)\<rparr>)"
| stop: "en_closed (sv_engine s) \<Longrightarrow> service_step s (s\<lparr>sv_stopping := True\<rparr>)"
| abandon: "sv_stopping s \<Longrightarrow>
    service_step s (s\<lparr>sv_engine := abandon_outstanding (sv_engine s), sv_abandoned := True\<rparr>)"

inductive_cases service_stepE: "service_step s s'"

end
