(* ===== verification/Engine_Properties.thy ===== *)
theory Engine_Properties
  imports Engine
begin

text \<open>
  Every future the engine hands out is settled exactly once, with its own request's
  answer, and none survives shutdown unsettled.
\<close>

section \<open>The table of futures\<close>

text \<open>
  Ids are unique, the dictionary points at cells of the right id, and it holds nothing
  twice.
\<close>

definition futures_ok :: "engine \<Rightarrow> bool" where
  "futures_ok e \<longleftrightarrow> distinct (map fst (en_store e)) \<and> distinct (keys (en_futures e))
     \<and> (\<forall>i h. map_of (en_futures e) i = Some h \<longrightarrow> h < length (en_store e) \<and> fst (en_store e ! h) = i)"

definition registered :: "engine \<Rightarrow> nat \<Rightarrow> bool" where
  "registered e h \<longleftrightarrow> map_of (en_futures e) (fst (en_store e ! h)) = Some h"

text \<open>What settling a list of ids does to cells and dictionary; metrics play no part.\<close>

definition settle_all :: "(string \<times> response) list \<Rightarrow> engine \<Rightarrow> engine" where
  "settle_all ps e = fold (\<lambda>(i, resp). complete i resp) ps e"

definition settled_by :: "(string \<times> response) list \<Rightarrow> engine \<Rightarrow> engine \<Rightarrow> bool" where
  "settled_by ps e e' \<longleftrightarrow> futures_ok e' \<and> length (en_store e') = length (en_store e)
     \<and> (\<forall>x. map_of (en_futures e') x = (if x \<in> set (map fst ps) then None else map_of (en_futures e) x))
     \<and> (\<forall>h < length (en_store e). en_store e' ! h =
          (case map_of ps (fst (en_store e ! h)) of
             Some resp \<Rightarrow> if registered e h \<and> snd (en_store e ! h) = Pending
                          then (fst (en_store e ! h), Result resp) else en_store e ! h
           | None \<Rightarrow> en_store e ! h))"

lemma complete_settles:
  assumes "futures_ok e"
  shows "settled_by [(i, resp)] e (complete i resp e)"
proof (cases "map_of (en_futures e) i")
  case None
  then show ?thesis
    using assms by (auto simp: settled_by_def complete_def registered_def split: if_splits)
next
  case (Some h)
  then have h: "h < length (en_store e)" "fst (en_store e ! h) = i"
    using assms by (auto simp: futures_ok_def)
  have uniq: "k = h" if "k < length (en_store e)" "fst (en_store e ! k) = i" for k
    using assms h that by (auto simp: futures_ok_def distinct_conv_nth)
  let ?upd = "\<lambda>x. (en_store e)[h := (i, x)]"
  have fst_upd: "map fst (?upd x) = map fst (en_store e)" "fst (?upd x ! k) = fst (en_store e ! k)" for x k
    using h by (simp_all add: map_update list_update_same_conv) (metis fst_conv nth_list_update_eq nth_list_update_neq)
  have "futures_ok (e\<lparr>en_futures := AList.delete i (en_futures e), en_store := ?upd x\<rparr>)" for x
    using assms by (auto simp: futures_ok_def fst_upd map_of_delete distinct_delete
        simp del: map_of_eq_Some_iff split: if_splits)
  moreover have "futures_ok (e\<lparr>en_futures := AList.delete i (en_futures e)\<rparr>)"
    using assms by (auto simp: futures_ok_def map_of_delete distinct_delete
        simp del: map_of_eq_Some_iff split: if_splits)
  ultimately have ok: "futures_ok (complete i resp e)"
    using Some h(2) by (simp add: complete_def Let_def)
  have reg: "registered e k \<longleftrightarrow> k = h" if "fst (en_store e ! k) = i" "k < length (en_store e)" for k
    using Some that uniq by (auto simp: registered_def)
  have "en_store (complete i resp e) ! k = (case map_of [(i, resp)] (fst (en_store e ! k)) of
      Some resp \<Rightarrow> if registered e k \<and> snd (en_store e ! k) = Pending
                   then (fst (en_store e ! k), Result resp) else en_store e ! k
    | None \<Rightarrow> en_store e ! k)" if "k < length (en_store e)" for k
    using Some h that reg [OF _ that] by (auto simp: complete_def nth_list_update Let_def)
  moreover have "map_of (en_futures (complete i resp e)) x
      = (if x = i then None else map_of (en_futures e) x)" for x
    using Some by (simp add: complete_def map_of_delete Let_def)
  moreover have "length (en_store (complete i resp e)) = length (en_store e)"
    using Some by (simp add: complete_def Let_def)
  ultimately show ?thesis
    using ok by (simp add: settled_by_def)
qed

lemma settled_by_refl: "futures_ok e \<Longrightarrow> settled_by [] e e"
  by (simp add: settled_by_def)

lemma settled_by_trans:
  assumes "settled_by ps e e1" "settled_by qs e1 e2" "futures_ok e"
  shows "settled_by (ps @ qs) e e2"
proof -
  note 1 = assms(1) [unfolded settled_by_def] and 2 = assms(2) [unfolded settled_by_def]
  have cell: "en_store e2 ! h = (case map_of (ps @ qs) (fst (en_store e ! h)) of
             Some resp \<Rightarrow> if registered e h \<and> snd (en_store e ! h) = Pending
                          then (fst (en_store e ! h), Result resp) else en_store e ! h
           | None \<Rightarrow> en_store e ! h)" if h: "h < length (en_store e)" for h
  proof (cases "map_of ps (fst (en_store e ! h))")
    case None
    then have n: "fst (en_store e ! h) \<notin> set (map fst ps)"
      by (simp add: map_of_eq_None_iff)
    have "en_store e1 ! h = en_store e ! h"
      using 1 h None by simp
    moreover from this have "registered e1 h = registered e h"
      using 1 n by (simp add: registered_def)
    moreover have "en_store e2 ! h = (case map_of qs (fst (en_store e1 ! h)) of
             Some resp \<Rightarrow> if registered e1 h \<and> snd (en_store e1 ! h) = Pending
                          then (fst (en_store e1 ! h), Result resp) else en_store e1 ! h
           | None \<Rightarrow> en_store e1 ! h)"
      using 1 2 h by simp
    moreover have "map_of (ps @ qs) (fst (en_store e ! h)) = map_of qs (fst (en_store e ! h))"
      using None by (simp add: map_add_def split: option.split)
    ultimately show ?thesis
      by (auto split: option.split)
  next
    case (Some resp)
    then have n: "fst (en_store e ! h) \<in> set (map fst ps)"
      by (metis map_of_eq_None_iff option.distinct(1) set_map)
    have c1: "en_store e1 ! h = (if registered e h \<and> snd (en_store e ! h) = Pending
                          then (fst (en_store e ! h), Result resp) else en_store e ! h)"
      using 1 h Some by simp
    then have "fst (en_store e1 ! h) = fst (en_store e ! h)"
      by simp
    then have r: "\<not> registered e1 h"
      using 1 n by (simp add: registered_def)
    have "en_store e2 ! h = (case map_of qs (fst (en_store e1 ! h)) of
             Some resp \<Rightarrow> if registered e1 h \<and> snd (en_store e1 ! h) = Pending
                          then (fst (en_store e1 ! h), Result resp) else en_store e1 ! h
           | None \<Rightarrow> en_store e1 ! h)"
      using 1 2 h by simp
    with r have "en_store e2 ! h = en_store e1 ! h"
      by (simp split: option.split)
    moreover have "map_of (ps @ qs) (fst (en_store e ! h)) = Some resp"
      using Some by (simp add: map_add_def)
    ultimately show ?thesis
      using c1 by simp
  qed
  show ?thesis
    unfolding settled_by_def using 1 2 cell by auto
qed

lemma settle_all_settles: "futures_ok e \<Longrightarrow> settled_by ps e (settle_all ps e)"
proof (induction ps arbitrary: e)
  case Nil
  then show ?case
    by (simp add: settle_all_def settled_by_refl)
next
  case (Cons p ps)
  obtain i resp where p: "p = (i, resp)" by (cases p)
  have 1: "settled_by [(i, resp)] e (complete i resp e)"
    using Cons.prems by (rule complete_settles)
  then have "futures_ok (complete i resp e)"
    by (simp add: settled_by_def)
  from settled_by_trans [OF 1 Cons.IH [OF this] Cons.prems] show ?case
    by (simp add: settle_all_def p)
qed

lemma same_futures_ok:
  "en_store e1 = en_store e \<Longrightarrow> en_futures e1 = en_futures e \<Longrightarrow> futures_ok e1 = futures_ok e"
  by (simp add: futures_ok_def)

lemma same_settled_by:
  assumes "en_store e1 = en_store e" "en_futures e1 = en_futures e"
  shows "settled_by ps e1 e' = settled_by ps e e'"
proof -
  have "registered e1 = registered e"
    by (simp add: registered_def assms fun_eq_iff)
  then show ?thesis
    unfolding settled_by_def assms by (simp only:)
qed

definition own_answers :: "(string \<times> response) list \<Rightarrow> bool" where
  "own_answers ps \<longleftrightarrow> (\<forall>p \<in> set ps. rs_request_id (snd p) = fst p)"

text \<open>Answers for exactly the ids of a set, each under its own request's id, were delivered.\<close>

definition settles :: "string set \<Rightarrow> engine \<Rightarrow> engine \<Rightarrow> bool" where
  "settles X e e' \<longleftrightarrow> (\<exists>ps. own_answers ps \<and> settled_by ps e e' \<and> set (map fst ps) = X)"

lemma settles_refl: "futures_ok e \<Longrightarrow> settles {} e e"
  unfolding settles_def by (rule exI [of _ "[]"]) (simp add: own_answers_def settled_by_refl)

lemma settles_trans:
  assumes "settles X e e1" "settles Y e1 e2" "futures_ok e"
  shows "settles (X \<union> Y) e e2"
proof -
  from assms(1) obtain ps where 1: "own_answers ps" "settled_by ps e e1" "set (map fst ps) = X"
    unfolding settles_def by (elim exE conjE)
  from assms(2) obtain qs where 2: "own_answers qs" "settled_by qs e1 e2" "set (map fst qs) = Y"
    unfolding settles_def by (elim exE conjE)
  have "own_answers (ps @ qs)"
    using 1(1) 2(1) by (simp add: own_answers_def ball_Un)
  moreover have "set (map fst (ps @ qs)) = X \<union> Y"
    unfolding map_append set_append 1(3) 2(3) ..
  ultimately show ?thesis
    unfolding settles_def using settled_by_trans [OF 1(2) 2(2) assms(3)] by (intro exI conjI)
qed

lemma settles_ok: "settles X e e' \<Longrightarrow> futures_ok e'"
  unfolding settles_def settled_by_def by (elim exE conjE)

lemma settles_cells:
  assumes "en_store e1 = en_store e" "en_futures e1 = en_futures e" "settles X e1 e'"
  shows "settles X e e'"
  using assms(3) unfolding settles_def same_settled_by [OF assms(1,2)] .

lemma complete_settles_own:
  assumes "futures_ok e" "rs_request_id resp = i" "en_store e1 = en_store e" "en_futures e1 = en_futures e"
  shows "settles {i} e (complete i resp e1)"
proof -
  have "futures_ok e1"
    using assms(1) same_futures_ok [OF assms(3,4)] by blast
  from complete_settles [OF this, of i resp] have "settles {i} e1 (complete i resp e1)"
    using assms(2) unfolding settles_def own_answers_def by (intro exI [of _ "[(i, resp)]"]) simp
  then show ?thesis
    by (rule settles_cells [OF assms(3,4)])
qed

lemma settles_fold:
  assumes "\<And>x e. futures_ok e \<Longrightarrow> settles (g x) e (f x e)" "futures_ok e"
  shows "settles (\<Union>x\<in>set xs. g x) e (fold f xs e)"
  using assms(2)
proof (induction xs arbitrary: e)
  case (Cons x xs)
  have 1: "settles (g x) e (f x e)"
    using Cons.prems by (rule assms(1))
  from settles_trans [OF 1 Cons.IH [OF settles_ok [OF 1]] Cons.prems] show ?case
    by simp
qed (simp add: settles_refl)

lemma fail_batch_settles:
  assumes "futures_ok e"
  shows "settles (rq_id ` set (bt_requests b)) e (fail_batch b err elapsed e)"
proof -
  have "settles {rq_id r} e (complete (rq_id r) (error_response b err elapsed r) (en_record record_failed e))"
    if "futures_ok e" for r e
    using that by (rule complete_settles_own) (simp_all add: error_response_def en_record_def)
  from settles_fold [of "\<lambda>r. {rq_id r}", OF this assms] show ?thesis
    by (simp add: fail_batch_def UNION_singleton_eq_range)
qed

text \<open>Completing rows settles some of the batch, and all of it unless an exception came out.\<close>

lemma complete_rows_settles:
  "futures_ok e \<Longrightarrow> \<exists>X. X \<subseteq> rq_id ` set rs \<and> settles X e (snd (complete_rows b elapsed rs ress e))
     \<and> (fst (complete_rows b elapsed rs ress e) = None \<longrightarrow> X = rq_id ` set rs)"
proof (induction b elapsed rs ress e rule: complete_rows.induct)
  case (1 b elapsed e)
  then show ?case
    by (simp add: settles_refl)
next
  case (2 b elapsed r rs res ress e)
  let ?resp = "result_response b elapsed r res"
  show ?case
  proof (cases "record_completion (total_latency ?resp) (gr_generated_tokens res) (en_metrics e)")
    case (Inl err)
    with settles_refl [OF 2(2)] show ?thesis
      by (intro exI [of _ "{}"]) simp
  next
    case (Inr m)
    let ?e = "complete (rq_id r) ?resp (e\<lparr>en_metrics := m\<rparr>)"
    have step: "settles {rq_id r} e ?e"
      using 2(2) by (intro complete_settles_own) (simp_all add: result_response_def)
    from 2(1) [OF refl Inr settles_ok [OF step]] obtain X where X: "X \<subseteq> rq_id ` set rs"
        "settles X ?e (snd (complete_rows b elapsed rs ress ?e))"
        "fst (complete_rows b elapsed rs ress ?e) = None \<longrightarrow> X = rq_id ` set rs"
      by (elim exE conjE)
    have "{rq_id r} \<union> X \<subseteq> rq_id ` set (r # rs)"
      using X(1) by auto
    with settles_trans [OF step X(2) 2(2)] X(3) Inr show ?thesis
      by (intro exI [of _ "{rq_id r} \<union> X"]) (simp add: Let_def)
  qed
qed (auto intro: exI [of _ "{}"] simp: settles_refl)

lemma expire_settles:
  "futures_ok e \<Longrightarrow> en_store e1 = en_store e \<Longrightarrow> en_futures e1 = en_futures e \<Longrightarrow>
     settles {rq_id r} e (expire_request r e1)"
  unfolding expire_request_def by (rule complete_settles_own) (simp_all add: expire_response_def)

text \<open>The batch members \<open>execute\<close> runs, and those it expires instead.\<close>

definition live_members :: "(nat \<Rightarrow> real) \<Rightarrow> request list \<Rightarrow> request list" where
  "live_members clock rs =
     map snd (filter (\<lambda>(i, r). \<not> expired r (clock i)) (zip [0..<length rs] rs))"

definition dropped_members :: "(nat \<Rightarrow> real) \<Rightarrow> request list \<Rightarrow> request list" where
  "dropped_members clock rs =
     (if length (live_members clock rs) = length rs then []
      else map snd (filter (\<lambda>(i, r). expired r (clock (length rs + i))) (zip [0..<length rs] rs)))"

definition expire_members :: "(nat \<Rightarrow> real) \<Rightarrow> request list \<Rightarrow> engine \<Rightarrow> engine" where
  "expire_members clock rs e =
     fold (\<lambda>r e. expire_request r (en_record record_expired e)) (dropped_members clock rs) e"

text \<open>The call of the runner and what follows.\<close>

definition run_members where
  "run_members generate started ended late b e =
     (case generate (batch_prompts b) (map rq_generation (bt_requests b)) of
        Inl err \<Rightarrow> fail_batch b err (ended - started) e
      | Inr results \<Rightarrow>
          if length results \<noteq> length (bt_requests b) then fail_batch b RuntimeError (ended - started) e
          else (case complete_batch b results (ended - started) e of
                  (None, e) \<Rightarrow> e
                | (Some err, e) \<Rightarrow> fail_batch b err (late - started) e))"

lemma fold_filter: "fold (\<lambda>x. if P x then f x else (\<lambda>e. e)) xs e = fold f (filter P xs) e"
  by (induction xs arbitrary: e) auto

lemma execute_split:
  "execute generate clock b e =
     (let n = length (bt_requests b); live = live_members clock (bt_requests b);
          e = expire_members clock (bt_requests b) e in
      if live = [] then e
      else run_members generate (clock (2 * n)) (clock (2 * n + 1)) (clock (2 * n + 2))
             (b\<lparr>bt_requests := live\<rparr>) e)"
proof -
  have "fold (\<lambda>(i, r) e. if expired r (clock (n + i)) then expire_request r (en_record record_expired e) else e) ps e
      = fold (\<lambda>r e. expire_request r (en_record record_expired e))
          (map snd (filter (\<lambda>(i, r). expired r (clock (n + i))) ps)) e" for n e ps
    by (induction ps arbitrary: e) auto
  then have "expire_members clock rs e = (if length (live_members clock rs) \<noteq> length rs
      then fold (\<lambda>(i, r) e. if expired r (clock (length rs + i))
                            then expire_request r (en_record record_expired e) else e)
             (zip [0..<length rs] rs) e
      else e)" for rs
    by (simp add: expire_members_def dropped_members_def)
  note expires = this
  have upd: "bt_requests (b\<lparr>bt_requests := rs\<rparr>) = rs" for rs
    by simp
  show ?thesis
    unfolding execute_def Let_def run_members_def expires live_members_def [symmetric] upd ..
qed

lemma expire_members_settles:
  assumes "futures_ok e"
  shows "settles (rq_id ` set (dropped_members clock rs)) e (expire_members clock rs e)"
proof -
  have "settles {rq_id r} e (expire_request r (en_record record_expired e))"
    if "futures_ok e" for r e
    using that by (rule expire_settles) (simp_all add: en_record_def)
  from settles_fold [of "\<lambda>r. {rq_id r}", OF this assms] show ?thesis
    by (simp add: expire_members_def UNION_singleton_eq_range)
qed

lemma run_members_settles:
  assumes "futures_ok e"
  shows "settles (rq_id ` set (bt_requests b)) e (run_members generate started ended late b e)"
proof -
  have "settles (rq_id ` set (bt_requests b)) e (case complete_batch b results d e of
                    (None, e) \<Rightarrow> e | (Some err, e) \<Rightarrow> fail_batch b err d' e)" for results d d'
  proof -
    obtain X where X: "X \<subseteq> rq_id ` set (bt_requests b)" "settles X e (snd (complete_batch b results d e))"
        "fst (complete_batch b results d e) = None \<longrightarrow> X = rq_id ` set (bt_requests b)"
      using complete_rows_settles [OF assms, of "bt_requests b" b d results]
      unfolding complete_batch_def by (elim exE conjE)
    have "X \<union> rq_id ` set (bt_requests b) = rq_id ` set (bt_requests b)"
      using X(1) by blast
    with X settles_trans [OF X(2) fail_batch_settles [OF settles_ok [OF X(2)], of b] assms] show ?thesis
      by (auto split: prod.split option.split)
  qed
  then show ?thesis
    unfolding run_members_def using fail_batch_settles [OF assms] by (auto split: sum.split)
qed

lemma execute_settles:
  assumes "futures_ok e"
  shows "settles (rq_id ` set (dropped_members clock (bt_requests b) @ live_members clock (bt_requests b))) e
    (execute generate clock b e)"
proof -
  note 1 = expire_members_settles [OF assms, of clock "bt_requests b"]
  note 2 = settles_trans [OF 1 run_members_settles [OF settles_ok [OF 1],
        of "b\<lparr>bt_requests := live_members clock (bt_requests b)\<rparr>"] assms]
  show ?thesis
    using 1 2 unfolding execute_split Let_def by (simp add: image_Un)
qed

section \<open>The life of a future\<close>

text \<open>A result always answers the request whose future it settled.\<close>

definition own_cells :: "engine \<Rightarrow> bool" where
  "own_cells e \<longleftrightarrow> (\<forall>h r. h < length (en_store e) \<longrightarrow> snd (en_store e ! h) = Result r
     \<longrightarrow> rs_request_id r = fst (en_store e ! h))"

text \<open>What every step does: cells are only added, settled cells stay, pending ones stay registered.\<close>

definition grows :: "engine \<Rightarrow> engine \<Rightarrow> bool" where
  "grows e e' \<longleftrightarrow> futures_ok e' \<and> own_cells e' \<and> length (en_store e) \<le> length (en_store e')
     \<and> (\<forall>h < length (en_store e). fst (en_store e' ! h) = fst (en_store e ! h)
          \<and> (snd (en_store e ! h) \<noteq> Pending \<longrightarrow> en_store e' ! h = en_store e ! h)
          \<and> (registered e h \<longrightarrow> snd (en_store e' ! h) = Pending \<longrightarrow> registered e' h))"

lemma map_of_own: "own_answers ps \<Longrightarrow> map_of ps i = Some resp \<Longrightarrow> rs_request_id resp = i"
  by (auto simp: own_answers_def dest!: map_of_SomeD)

lemma settles_grows:
  assumes "settles X e e'" "own_cells e"
  shows "grows e e'"
proof -
  from assms(1) obtain ps where ps: "own_answers ps" "settled_by ps e e'"
    unfolding settles_def by (elim exE conjE)
  note d = ps(2) [unfolded settled_by_def]
  have cell: "en_store e' ! h = (case map_of ps (fst (en_store e ! h)) of
             Some resp \<Rightarrow> if registered e h \<and> snd (en_store e ! h) = Pending
                          then (fst (en_store e ! h), Result resp) else en_store e ! h
           | None \<Rightarrow> en_store e ! h)" if "h < length (en_store e)" for h
    using d that by simp
  have reg: "registered e' h" if "h < length (en_store e)" "registered e h"
      "snd (en_store e' ! h) = Pending" for h
  proof (cases "map_of ps (fst (en_store e ! h))")
    case None
    then have "fst (en_store e ! h) \<notin> set (map fst ps)"
      by (simp add: map_of_eq_None_iff)
    moreover have "fst (en_store e' ! h) = fst (en_store e ! h)"
      using cell [OF that(1)] None by simp
    ultimately show ?thesis
      using d that(2) by (simp add: registered_def)
  next
    case (Some resp)
    with cell [OF that(1)] that(2,3) show ?thesis
      by (auto split: if_splits)
  qed
  have "own_cells e'"
    unfolding own_cells_def
  proof (intro allI impI)
    fix h r assume "h < length (en_store e')" and r: "snd (en_store e' ! h) = Result r"
    then have h: "h < length (en_store e)"
      using d by simp
    with assms(2) cell [OF h] r map_of_own [OF ps(1)] show "rs_request_id r = fst (en_store e' ! h)"
      by (auto simp: own_cells_def split: option.splits if_splits)
  qed
  moreover have "fst (en_store e' ! h) = fst (en_store e ! h)
      \<and> (snd (en_store e ! h) \<noteq> Pending \<longrightarrow> en_store e' ! h = en_store e ! h)"
    if "h < length (en_store e)" for h
    using cell [OF that] by (auto split: option.splits)
  ultimately show ?thesis
    unfolding grows_def using reg d by simp
qed

lemma grows_cells:
  assumes "grows e e1" "en_store e2 = en_store e1" "en_futures e2 = en_futures e1"
  shows "grows e e2"
  using assms(1) unfolding grows_def own_cells_def registered_def futures_ok_def assms(2,3) .

text \<open>Overwriting a pending cell with a final state other than a result.\<close>

lemma settle_cell_grows:
  assumes "futures_ok e" "own_cells e" "snd (en_store e ! h) = Pending" "h < length (en_store e)"
    "v \<noteq> Pending" "\<forall>r. v \<noteq> Result r"
  shows "grows e (e\<lparr>en_store := (en_store e)[h := (fst (en_store e ! h), v)]\<rparr>)"
proof -
  have f: "fst ((en_store e)[h := (fst (en_store e ! h), v)] ! k) = fst (en_store e ! k)" for k
    using assms(4) by (cases "k = h") simp_all
  have m: "map fst ((en_store e)[h := (fst (en_store e ! h), v)]) = map fst (en_store e)"
    by (rule nth_equalityI) (use f in \<open>simp_all add: nth_list_update\<close>)
  have "own_cells (e\<lparr>en_store := (en_store e)[h := (fst (en_store e ! h), v)]\<rparr>)"
    using assms unfolding own_cells_def by (auto simp: nth_list_update)
  moreover have "futures_ok (e\<lparr>en_store := (en_store e)[h := (fst (en_store e ! h), v)]\<rparr>)"
    using assms(1) unfolding futures_ok_def by (simp add: m f)
  ultimately show ?thesis
    using assms(3) unfolding grows_def by (auto simp: f registered_def) (metis nth_list_update_neq)
qed

lemma grows_refl: "futures_ok e \<Longrightarrow> own_cells e \<Longrightarrow> grows e e"
  by (simp add: grows_def)

lemma grows_trans:
  assumes "grows e e1" "grows e1 e2"
  shows "grows e e2"
proof -
  have "fst (en_store e2 ! h) = fst (en_store e ! h)
      \<and> (snd (en_store e ! h) \<noteq> Pending \<longrightarrow> en_store e2 ! h = en_store e ! h)
      \<and> (registered e h \<longrightarrow> snd (en_store e2 ! h) = Pending \<longrightarrow> registered e2 h)"
    if "h < length (en_store e)" for h
  proof -
    have 1: "fst (en_store e1 ! h) = fst (en_store e ! h)"
        "snd (en_store e ! h) \<noteq> Pending \<longrightarrow> en_store e1 ! h = en_store e ! h"
        "registered e h \<longrightarrow> snd (en_store e1 ! h) = Pending \<longrightarrow> registered e1 h"
      using assms(1) that by (simp_all add: grows_def)
    have "h < length (en_store e1)"
      using assms(1) that by (simp add: grows_def)
    then have 2: "fst (en_store e2 ! h) = fst (en_store e1 ! h)"
        "snd (en_store e1 ! h) \<noteq> Pending \<longrightarrow> en_store e2 ! h = en_store e1 ! h"
        "registered e1 h \<longrightarrow> snd (en_store e2 ! h) = Pending \<longrightarrow> registered e2 h"
      using assms(2) by (simp_all add: grows_def)
    show ?thesis
      using 1 2 by metis
  qed
  then show ?thesis
    using assms by (simp add: grows_def)
qed

lemma abandon_cells:
  assumes "\<And>i h. (i, h) \<in> set ps \<Longrightarrow> h < length (en_store e)"
  defines "e' \<equiv> fold (\<lambda>(i, h) e.
         if snd (en_store e ! h) = Pending
         then e\<lparr>en_store := (en_store e)[h := (fst (en_store e ! h), Failed EngineClosedError)]\<rparr>
         else e) ps e"
  shows "en_futures e' = en_futures e \<and> length (en_store e') = length (en_store e)
    \<and> (\<forall>h < length (en_store e). en_store e' ! h =
         (if h \<in> snd ` set ps \<and> snd (en_store e ! h) = Pending
          then (fst (en_store e ! h), Failed EngineClosedError) else en_store e ! h))"
  using assms(1) unfolding e'_def
proof (induction ps arbitrary: e)
  case (Cons p ps)
  obtain i h where p: "p = (i, h)" by (cases p)
  let ?e = "if snd (en_store e ! h) = Pending
         then e\<lparr>en_store := (en_store e)[h := (fst (en_store e ! h), Failed EngineClosedError)]\<rparr> else e"
  have h: "h < length (en_store e)"
    using Cons.prems [of i h] by (simp add: p)
  have len: "length (en_store ?e) = length (en_store e)" "en_futures ?e = en_futures e"
    by simp_all
  have cell: "en_store ?e ! k = (if k = h \<and> snd (en_store e ! k) = Pending
      then (fst (en_store e ! k), Failed EngineClosedError) else en_store e ! k)" for k
    using h by (cases "k = h") simp_all
  have "\<And>i h. (i, h) \<in> set ps \<Longrightarrow> h < length (en_store ?e)"
    unfolding len by (rule Cons.prems) (rule list.set_intros(2))
  from Cons.IH [OF this] show ?case
    unfolding len cell p by auto
qed simp

lemma registered_range:
  assumes "futures_ok e" "h < length (en_store e)"
  shows "h \<in> snd ` set (en_futures e) \<longleftrightarrow> registered e h"
proof
  assume "h \<in> snd ` set (en_futures e)"
  then obtain i where i: "(i, h) \<in> set (en_futures e)"
    by force
  with assms(1) have "map_of (en_futures e) i = Some h"
    by (simp add: futures_ok_def)
  with assms(1) show "registered e h"
    by (auto simp: futures_ok_def registered_def)
next
  assume "registered e h"
  then show "h \<in> snd ` set (en_futures e)"
    unfolding registered_def by (metis map_of_SomeD image_eqI snd_conv)
qed

lemma abandon_effect:
  assumes "futures_ok e"
  shows "en_futures (abandon_outstanding e) = []
    \<and> length (en_store (abandon_outstanding e)) = length (en_store e)
    \<and> (\<forall>h < length (en_store e). en_store (abandon_outstanding e) ! h =
         (if registered e h \<and> snd (en_store e ! h) = Pending
          then (fst (en_store e ! h), Failed EngineClosedError) else en_store e ! h))"
proof -
  have "h < length (en_store (e\<lparr>en_futures := []\<rparr>))" if "(i, h) \<in> set (en_futures e)" for i h
    using assms that by (simp add: futures_ok_def)
  from abandon_cells [of "en_futures e" "e\<lparr>en_futures := []\<rparr>", OF this] registered_range [OF assms]
  show ?thesis
    by (simp add: abandon_outstanding_def)
qed

lemma abandon_grows:
  assumes "futures_ok e" "own_cells e"
  shows "grows e (abandon_outstanding e)"
proof -
  note ab = abandon_effect [OF assms(1)]
  have f: "fst (en_store (abandon_outstanding e) ! h) = fst (en_store e ! h)" if "h < length (en_store e)" for h
    using ab that by simp
  have "map fst (en_store (abandon_outstanding e)) = map fst (en_store e)"
    by (rule nth_equalityI) (use ab f in simp_all)
  with assms(1) ab have "futures_ok (abandon_outstanding e)"
    by (simp add: futures_ok_def)
  moreover have "own_cells (abandon_outstanding e)"
    using assms(2) ab unfolding own_cells_def by auto
  ultimately show ?thesis
    using ab f unfolding grows_def by auto
qed

lemma submit_grows:
  assumes "engine_submit i p g d now enq e = Inr (h, r, e')" "i \<notin> set (map fst (en_store e))"
    "futures_ok e" "own_cells e"
  shows "grows e e' \<and> h = length (en_store e) \<and> length (en_store e') = Suc h
    \<and> registered e' h \<and> fst (en_store e' ! h) = i"
proof -
  from assms(1) have e': "en_store e' = en_store e @ [(i, Pending)]"
      "en_futures e' = AList.update i (length (en_store e)) (en_futures e)" "h = length (en_store e)"
    by (auto simp: engine_submit_def Let_def split: if_splits)
  have "distinct (keys (en_futures e'))" "distinct (map fst (en_store e'))"
    using assms(2,3) by (simp_all add: futures_ok_def e' distinct_update)
  moreover have "k < length (en_store e') \<and> fst (en_store e' ! k) = x"
    if "map_of (en_futures e') x = Some k" for x k
  proof (cases "x = i")
    case True
    with that show ?thesis
      by (auto simp: e' map_of_update)
  next
    case False
    with that have "map_of (en_futures e) x = Some k"
      by (simp add: e' map_of_update)
    with assms(3) have "k < length (en_store e) \<and> fst (en_store e ! k) = x"
      unfolding futures_ok_def by blast
    then show ?thesis
      by (simp add: e' nth_append)
  qed
  ultimately have "futures_ok e'"
    unfolding futures_ok_def by blast
  moreover have "own_cells e'"
    using assms(4) unfolding own_cells_def e' by (auto simp: nth_append less_Suc_eq)
  moreover have "registered e h \<Longrightarrow> h < length (en_store e) \<Longrightarrow> registered e' h" for h
    using assms(2) unfolding registered_def e' by (auto simp: map_of_update nth_append)
  ultimately show ?thesis
    unfolding grows_def by (auto simp: e' nth_append registered_def map_of_update)
qed

lemma rejected_effect:
  assumes "futures_ok e" "own_cells e" "h < length (en_store e)"
  shows "futures_ok (submit_rejected (fst (en_store e ! h)) e)
    \<and> own_cells (submit_rejected (fst (en_store e ! h)) e)
    \<and> en_store (submit_rejected (fst (en_store e ! h)) e) = en_store e
    \<and> (\<forall>k < length (en_store e). k \<noteq> h \<longrightarrow>
         registered (submit_rejected (fst (en_store e ! h)) e) k = registered e k)"
proof -
  have "fst (en_store e ! k) \<noteq> fst (en_store e ! h)" if "k < length (en_store e)" "k \<noteq> h" for k
    using assms(1,3) that by (simp add: futures_ok_def distinct_conv_nth)
  then show ?thesis
    using assms unfolding futures_ok_def own_cells_def
    by (auto simp: submit_rejected_def registered_def map_of_delete distinct_delete
        simp del: map_of_eq_Some_iff split: if_splits)
qed

text \<open>
  Outstanding cells are tracked: a future that a caller holds, or will be given, is
  registered as long as it is pending; and after \<open>shutdown\<close> abandoned the rest, a future
  that passed the scheduler's check is no longer pending.
\<close>

definition open_cells :: "service \<Rightarrow> nat list" where
  "open_cells s = sv_entering s @ sv_checked s @ sv_handed s"

definition tracked :: "engine \<Rightarrow> nat list \<Rightarrow> bool" where
  "tracked e hs \<longleftrightarrow> (\<forall>h \<in> set hs. h < length (en_store e) \<and> (snd (en_store e ! h) = Pending \<longrightarrow> registered e h))"

definition service_ok :: "service \<Rightarrow> bool" where
  "service_ok s \<longleftrightarrow> futures_ok (sv_engine s) \<and> own_cells (sv_engine s)
     \<and> distinct (open_cells s) \<and> tracked (sv_engine s) (open_cells s)
     \<and> (sv_abandoned s \<longrightarrow> sv_stopping s
          \<and> (\<forall>h \<in> set (sv_checked s @ sv_handed s). snd (en_store (sv_engine s) ! h) \<noteq> Pending))"

lemma service_start_ok: "service_ok (service_start c m)"
  by (simp add: service_ok_def service_start_def futures_ok_def own_cells_def open_cells_def tracked_def)

lemma grows_tracked: "grows e e' \<Longrightarrow> tracked e hs \<Longrightarrow> tracked e' hs"
  unfolding grows_def tracked_def by (metis order.strict_trans2)

lemma grows_settled:
  assumes "grows e e'" "tracked e hs" "h \<in> set hs" "snd (en_store e ! h) \<noteq> Pending"
  shows "snd (en_store e' ! h) \<noteq> Pending"
  using assms unfolding grows_def tracked_def by metis

lemma grows_ok: "grows e e' \<Longrightarrow> futures_ok e' \<and> own_cells e'"
  by (simp add: grows_def)

text \<open>A step that changes the engine only.\<close>

lemma engine_step_ok:
  assumes "service_ok s" "grows (sv_engine s) e'"
  shows "service_ok (s\<lparr>sv_engine := e'\<rparr>)"
proof -
  have t: "tracked (sv_engine s) (open_cells s)"
    using assms(1) by (simp add: service_ok_def)
  have "snd (en_store e' ! h) \<noteq> Pending"
    if "sv_abandoned s" "h \<in> set (sv_checked s @ sv_handed s)" for h
    using grows_settled [OF assms(2) t, of h] that assms(1)
    by (auto simp: service_ok_def open_cells_def)
  with assms(1) grows_ok [OF assms(2)] grows_tracked [OF assms(2) t] show ?thesis
    unfolding service_ok_def open_cells_def by simp
qed

lemma execute_grows:
  "futures_ok e \<Longrightarrow> own_cells e \<Longrightarrow> grows e (execute generate clock b e)"
  by (rule settles_grows [OF execute_settles])

lemma expire_grows:
  "futures_ok e \<Longrightarrow> own_cells e \<Longrightarrow> grows e (expire_request r (en_record record_expired e))"
  by (rule settles_grows [OF expire_settles]) (simp_all add: en_record_def)

lemma finish_grows:
  assumes "finish r q now e = Inr e'" "futures_ok e" "own_cells e"
  shows "grows e e'"
proof -
  obtain m where "e' = complete (rq_id r) (finish_response r q now) (e\<lparr>en_metrics := m\<rparr>)"
    using assms(1) by (auto simp: finish_def Let_def rbind_eq_Inr)
  then have "settles {rq_id r} e e'"
    using complete_settles_own [OF assms(2), of "finish_response r q now" "rq_id r" "e\<lparr>en_metrics := m\<rparr>"]
    by (simp add: finish_response_def Let_def)
  then show ?thesis
    using assms(3) by (rule settles_grows)
qed

lemma cancel_grows: "futures_ok e \<Longrightarrow> own_cells e \<Longrightarrow> grows e (cancel_future h e)"
  using settle_cell_grows [of e h Cancelled] grows_refl [of e] by (simp add: cancel_future_def)

lemma close_grows: "futures_ok e \<Longrightarrow> own_cells e \<Longrightarrow> grows e (engine_close e)"
  by (rule grows_cells [OF grows_refl]) (simp_all add: engine_close_def)

lemma reopen_grows: "futures_ok e \<Longrightarrow> own_cells e \<Longrightarrow> grows e (e\<lparr>en_closed := c\<rparr>)"
  by (rule grows_cells [OF grows_refl]) simp_all

lemma service_step_ok:
  assumes "service_step s s'" "service_ok s"
  shows "service_ok s'"
proof -
  have ok: "futures_ok (sv_engine s)" "own_cells (sv_engine s)"
    using assms(2) by (simp_all add: service_ok_def)
  note engine = engine_step_ok [OF assms(2)]
  from assms(1) show ?thesis
  proof cases
    case (enter i p g d now enq h r e)
    let ?opened = "sv_engine s\<lparr>en_closed := False\<rparr>" and ?e = "e\<lparr>en_closed := en_closed (sv_engine s)\<rparr>"
    have "futures_ok ?opened" "own_cells ?opened"
      using ok by (simp_all add: futures_ok_def own_cells_def)
    moreover have "i \<notin> set (map fst (en_store ?opened))"
      using enter(3) by simp
    ultimately have g: "grows ?opened e" and h: "h = length (en_store ?opened)"
        "length (en_store e) = Suc h" "registered e h"
      using submit_grows [OF enter(2)] by blast+
    have "grows (sv_engine s) e"
      using grows_trans [OF reopen_grows [OF ok] g] .
    then have "grows (sv_engine s) ?e"
      by (rule grows_cells) simp_all
    from engine [OF this] have "service_ok (s\<lparr>sv_engine := ?e\<rparr>)" .
    moreover have "h \<notin> set (open_cells s)"
      using assms(2) h(1) unfolding service_ok_def tracked_def by auto
    ultimately show ?thesis
      using h unfolding enter(1) service_ok_def open_cells_def tracked_def registered_def by simp
  next
    case (check h)
    then show ?thesis
      using assms(2) unfolding service_ok_def open_cells_def tracked_def
      by (auto simp: distinct_remove1 dest: notin_set_remove1)
  next
    case (accept h)
    then show ?thesis
      using assms(2) unfolding service_ok_def open_cells_def tracked_def
      by (auto simp: distinct_remove1 dest: notin_set_remove1)
  next
    case (refuse h)
    have h: "h < length (en_store (sv_engine s))"
      using assms(2) refuse(2) unfolding service_ok_def tracked_def open_cells_def by auto
    have "h \<notin> set (sv_handed s)" "distinct (sv_entering s)" "distinct (sv_checked s)"
      using assms(2) refuse(2) unfolding service_ok_def open_cells_def by auto
    with rejected_effect [OF ok h] assms(2) show ?thesis
      unfolding refuse(1) service_ok_def open_cells_def tracked_def
      by (auto simp: distinct_remove1 dest: notin_set_remove1)
  next
    case abandon
    note g = abandon_grows [OF ok]
    have "service_ok (s\<lparr>sv_engine := abandon_outstanding (sv_engine s)\<rparr>)"
      using g by (rule engine)
    moreover have "snd (en_store (abandon_outstanding (sv_engine s)) ! h) \<noteq> Pending"
      if "h \<in> set (open_cells s)" for h
      using abandon_effect [OF ok(1)] assms(2) that unfolding service_ok_def tracked_def by auto
    ultimately show ?thesis
      using abandon(2) unfolding abandon(1) service_ok_def open_cells_def by auto
  next
    case stop
    then show ?thesis
      using assms(2) unfolding service_ok_def open_cells_def by simp
  qed (use engine execute_grows expire_grows finish_grows cancel_grows close_grows ok in metis)+
qed

lemma service_run_ok: "service_step\<^sup>*\<^sup>* s s' \<Longrightarrow> service_ok s \<Longrightarrow> service_ok s'"
  by (induction rule: rtranclp_induct) (simp_all add: service_step_ok)

text \<open>Cells keep their id, and a settled cell never changes.\<close>

lemma step_keeps_settled:
  assumes "service_step s s'" "service_ok s" "h < length (en_store (sv_engine s))"
  shows "h < length (en_store (sv_engine s'))
    \<and> (snd (en_store (sv_engine s) ! h) \<noteq> Pending \<longrightarrow>
         en_store (sv_engine s') ! h = en_store (sv_engine s) ! h)"
proof -
  have ok: "futures_ok (sv_engine s)" "own_cells (sv_engine s)"
    using assms(2) by (simp_all add: service_ok_def)
  have grows: ?thesis if "grows (sv_engine s) (sv_engine s')"
    using that assms(3) unfolding grows_def by auto
  from assms(1) show ?thesis
  proof cases
    case (enter i p g d now enq h' r e)
    then show ?thesis
      using assms(3) by (auto simp: engine_submit_def Let_def nth_append split: if_splits)
  next
    case abandon
    then show ?thesis
      using grows abandon_grows [OF ok] by simp
  next
    case (expire r)
    then show ?thesis
      using grows expire_grows [OF ok] by simp
  next
    case (run_batch generate clock b)
    then show ?thesis
      using grows execute_grows [OF ok] by simp
  next
    case (finish_sequence r q now e)
    then show ?thesis
      using grows finish_grows [OF _ ok] by simp
  next
    case (cancel h)
    then show ?thesis
      using grows cancel_grows [OF ok] by simp
  qed (use assms(3) in \<open>simp_all add: submit_rejected_def engine_close_def\<close>)
qed

lemma run_keeps_settled:
  assumes "service_step\<^sup>*\<^sup>* s s'" "service_ok s" "h < length (en_store (sv_engine s))"
    "snd (en_store (sv_engine s) ! h) \<noteq> Pending"
  shows "en_store (sv_engine s') ! h = en_store (sv_engine s) ! h
    \<and> h < length (en_store (sv_engine s'))"
  using assms(1)
proof (induction rule: rtranclp_induct)
  case (step y z)
  with step_keeps_settled [OF step.hyps(2) service_run_ok [OF step.hyps(1) assms(2)], of h] assms(4)
  show ?case by simp
qed (use assms(3) in simp)

subsection \<open>A run of the service\<close>

definition ex_engine :: engine where
  "ex_engine = \<lparr>en_config = ec_defaults, en_closed = False, en_metrics = MetricsRegistry 0,
     en_store = [(''q'', Pending)], en_futures = [(''q'', 0)]\<rparr>"

definition ex_handed :: service where
  "ex_handed = \<lparr>sv_engine = ex_engine, sv_entering = [], sv_checked = [], sv_handed = [0],
     sv_stopping = False, sv_abandoned = False\<rparr>"

definition ex_stopped :: "service \<Rightarrow> service" where
  "ex_stopped s = s\<lparr>sv_engine := abandon_outstanding (engine_close (sv_engine s)),
     sv_stopping := True, sv_abandoned := True\<rparr>"

lemma ex_handed_reached: "service_step\<^sup>*\<^sup>* (service_start ec_defaults (MetricsRegistry 0)) ex_handed"
proof -
  let ?s = "service_start ec_defaults (MetricsRegistry 0)"
  have 1: "engine_submit ''q'' ''hi'' None None 0 0 (sv_engine ?s\<lparr>en_closed := False\<rparr>)
      = Inr (0, \<lparr>rq_prompt = ''hi'', rq_generation = ec_generation ec_defaults, rq_id = ''q'',
                 rq_enqueued_at = 0, rq_dequeued_at = None, rq_deadline = None\<rparr>, ex_engine)"
    by (simp add: engine_submit_def service_start_def ex_engine_def Let_def ec_defaults_def)
  have "service_step ?s (ex_handed\<lparr>sv_entering := [0], sv_handed := []\<rparr>)"
    using service_step.enter [OF 1]
    by (simp add: service_start_def ex_handed_def ex_engine_def)
  moreover have "service_step (ex_handed\<lparr>sv_entering := [0], sv_handed := []\<rparr>)
      (ex_handed\<lparr>sv_checked := [0], sv_handed := []\<rparr>)"
    using service_step.check [of 0 "ex_handed\<lparr>sv_entering := [0], sv_handed := []\<rparr>"]
    by (simp add: ex_handed_def)
  moreover have "service_step (ex_handed\<lparr>sv_checked := [0], sv_handed := []\<rparr>) ex_handed"
    using service_step.accept [of 0 "ex_handed\<lparr>sv_checked := [0], sv_handed := []\<rparr>"]
    by (simp add: ex_handed_def)
  ultimately show ?thesis
    by (meson converse_rtranclp_into_rtranclp rtranclp.rtrancl_refl)
qed

lemma ex_stopped_reached: "service_step\<^sup>*\<^sup>* s (ex_stopped s)"
proof -
  let ?c = "s\<lparr>sv_engine := engine_close (sv_engine s)\<rparr>"
  have "service_step s ?c"
    by (rule service_step.close)
  moreover have "service_step ?c (?c\<lparr>sv_stopping := True\<rparr>)"
    by (rule service_step.stop) (simp add: engine_close_def)
  moreover have "service_step (?c\<lparr>sv_stopping := True\<rparr>) (ex_stopped s)"
    using service_step.abandon [of "?c\<lparr>sv_stopping := True\<rparr>"] by (cases s) (simp add: ex_stopped_def)
  ultimately show ?thesis
    by (meson converse_rtranclp_into_rtranclp rtranclp.rtrancl_refl)
qed

section \<open>Properties\<close>

subsection \<open>Futures\<close>

text \<open>
  C10: A future is settled at most once and with its own answer: in every interleaving of
  submissions, batches, expiries, cancellations and shutdown, a future that has a final state
  keeps it for ever, and if that state is a response, the response carries the id of the
  request the future was made for.
\<close>

theorem futures_settle_once:
  assumes "service_step\<^sup>*\<^sup>* (service_start c m) s" "service_step\<^sup>*\<^sup>* s s'"
    "h < length (en_store (sv_engine s))" "snd (en_store (sv_engine s) ! h) \<noteq> Pending"
  shows "en_store (sv_engine s') ! h = en_store (sv_engine s) ! h
    \<and> (\<forall>r. snd (en_store (sv_engine s) ! h) = Result r \<longrightarrow>
          rs_request_id r = fst (en_store (sv_engine s') ! h))"
proof -
  have ok: "service_ok s"
    using assms(1) service_start_ok by (rule service_run_ok)
  with run_keeps_settled [OF assms(2) ok assms(3,4)] assms(3) show ?thesis
    by (auto simp: service_ok_def own_cells_def)
qed

theorem futures_settle_once_witness:
  "en_store (sv_engine (ex_stopped (ex_handed\<lparr>sv_engine := cancel_future 0 ex_engine\<rparr>))) ! 0
     = (''q'', Cancelled)"
proof -
  let ?s = "ex_handed\<lparr>sv_engine := cancel_future 0 ex_engine\<rparr>"
  have "service_step ex_handed ?s"
    using service_step.cancel [of 0 ex_handed] by (simp add: ex_handed_def)
  with ex_handed_reached have "service_step\<^sup>*\<^sup>* (service_start ec_defaults (MetricsRegistry 0)) ?s"
    by (rule rtranclp.rtrancl_into_rtrancl)
  moreover have "en_store (sv_engine ?s) = [(''q'', Cancelled)]"
    by (simp add: cancel_future_def ex_engine_def)
  ultimately show ?thesis
    using futures_settle_once [OF _ ex_stopped_reached, of _ _ ?s 0] by simp
qed

text \<open>
  C11: Shutdown leaves nobody waiting: once it has abandoned what was outstanding, every future
  that was ever returned to a caller, also one returned later by a submission racing with
  the shutdown, is settled.
\<close>

theorem no_future_left_pending:
  assumes "service_step\<^sup>*\<^sup>* (service_start c m) s" "sv_abandoned s" "h \<in> set (sv_handed s)"
  shows "snd (en_store (sv_engine s) ! h) \<noteq> Pending"
  using service_run_ok [OF assms(1) service_start_ok] assms(2,3) by (simp add: service_ok_def)

theorem no_future_left_pending_witness:
  "sv_abandoned (ex_stopped ex_handed) \<and> 0 \<in> set (sv_handed (ex_stopped ex_handed))
     \<and> snd (en_store (sv_engine (ex_stopped ex_handed)) ! 0) \<noteq> Pending"
proof -
  have "service_step\<^sup>*\<^sup>* (service_start ec_defaults (MetricsRegistry 0)) (ex_stopped ex_handed)"
    using ex_handed_reached ex_stopped_reached by (rule rtranclp_trans)
  moreover have "sv_abandoned (ex_stopped ex_handed)" "0 \<in> set (sv_handed (ex_stopped ex_handed))"
    by (simp_all add: ex_stopped_def ex_handed_def)
  ultimately show ?thesis
    using no_future_left_pending by blast
qed

subsection \<open>Batches\<close>

lemma members_covered:
  assumes "\<And>i j. i \<le> j \<Longrightarrow> clock i \<le> clock j"
  shows "set rs \<subseteq> set (dropped_members clock rs @ live_members clock rs)"
proof
  fix r assume "r \<in> set rs"
  then obtain i where i: "i < length rs" "r = rs ! i"
    by (auto simp: in_set_conv_nth)
  then have z: "(i, r) \<in> set (zip [0..<length rs] rs)"
    by (auto simp: set_zip intro!: exI [of _ i])
  show "r \<in> set (dropped_members clock rs @ live_members clock rs)"
  proof (cases "expired r (clock i)")
    case False
    with z show ?thesis
      by (force simp: live_members_def)
  next
    case True
    with z have "length (live_members clock rs) < length (zip [0..<length rs] rs)"
      unfolding live_members_def length_map by (intro length_filter_less [of "(i, r)"]) auto
    then have "length (live_members clock rs) \<noteq> length rs"
      by simp
    moreover have "expired r (clock (length rs + i))"
      using True assms [of i "length rs + i"] by (auto intro: expired_mono)
    ultimately show ?thesis
      using z by (force simp: dropped_members_def)
  qed
qed

lemma members_within: "set (dropped_members clock rs @ live_members clock rs) \<subseteq> set rs"
  by (auto simp: dropped_members_def live_members_def dest: set_zip_rightD)

lemma no_member_expires:
  assumes "\<And>i. i < length rs \<Longrightarrow> \<not> expired (rs ! i) (clock i)"
  shows "live_members clock rs = rs \<and> dropped_members clock rs = []"
proof -
  have "filter (\<lambda>(i, r). \<not> expired r (clock i)) (zip [0..<length rs] rs) = zip [0..<length rs] rs"
    using assms by (auto simp: filter_id_conv set_zip)
  then have "live_members clock rs = rs"
    by (simp add: live_members_def)
  then show ?thesis
    by (simp add: dropped_members_def)
qed

lemma complete_rows_exact:
  assumes "length rs = length ress" "window_inv (mr_latency (en_metrics e))" "futures_ok e"
  shows "\<exists>e'. complete_rows b elapsed rs ress e = (None, e')
    \<and> settled_by (map2 (\<lambda>r res. (rq_id r, result_response b elapsed r res)) rs ress) e e'"
  using assms
proof (induction rs ress arbitrary: e rule: list_induct2)
  case Nil
  then show ?case
    by (simp add: settled_by_refl)
next
  case (Cons r rs res ress)
  let ?resp = "result_response b elapsed r res"
  obtain h where h: "lh_record (total_latency ?resp) (mr_latency (en_metrics e)) = Inr h" "window_inv h"
    using lh_record_ok [OF Cons.prems(1)] by metis
  then obtain m where m: "record_completion (total_latency ?resp) (gr_generated_tokens res) (en_metrics e) = Inr m"
      "window_inv (mr_latency m)"
    by (simp add: record_completion_def)
  let ?e = "complete (rq_id r) ?resp (e\<lparr>en_metrics := m\<rparr>)"
  have "futures_ok (e\<lparr>en_metrics := m\<rparr>)"
    using Cons.prems(2) by (simp add: futures_ok_def)
  from complete_settles [OF this] have step: "settled_by [(rq_id r, ?resp)] e ?e"
    by (simp add: same_settled_by [of "e\<lparr>en_metrics := m\<rparr>" e])
  then have "futures_ok ?e"
    unfolding settled_by_def by (elim conjE)
  moreover have "window_inv (mr_latency (en_metrics ?e))"
    using m(2) by (simp add: complete_def Let_def split: option.split)
  ultimately obtain e' where e': "complete_rows b elapsed rs ress ?e = (None, e')"
      "settled_by (map2 (\<lambda>r res. (rq_id r, result_response b elapsed r res)) rs ress) ?e e'"
    using Cons.IH by blast
  from settled_by_trans [OF step e'(2) Cons.prems(2)] e'(1) m(1) show ?case
    by (intro exI [of _ e']) (simp add: Let_def)
qed

lemma fail_batch_exact:
  assumes "futures_ok e"
  shows "settled_by (map (\<lambda>r. (rq_id r, error_response b err elapsed r)) rs) e
    (fold (\<lambda>r e. complete (rq_id r) (error_response b err elapsed r) (en_record record_failed e)) rs e)"
  using assms
proof (induction rs arbitrary: e)
  case Nil
  then show ?case
    by (simp add: settled_by_refl)
next
  case (Cons r rs)
  let ?e = "complete (rq_id r) (error_response b err elapsed r) (en_record record_failed e)"
  have "futures_ok (en_record record_failed e)"
    using Cons.prems by (simp add: futures_ok_def en_record_def)
  from complete_settles [OF this, of "rq_id r" "error_response b err elapsed r"]
  have step: "settled_by [(rq_id r, error_response b err elapsed r)] e ?e"
    by (rule iffD1 [OF same_settled_by, rotated 2]) (simp_all add: en_record_def)
  then have "futures_ok ?e"
    unfolding settled_by_def by (elim conjE)
  from settled_by_trans [OF step Cons.IH [OF this] Cons.prems] show ?case
    by simp
qed

lemma keys_map2: "length xs = length ys \<Longrightarrow> keys (map2 (\<lambda>x y. (g x, f x y)) xs ys) = map g xs"
  by (induction xs ys rule: list_induct2) simp_all

text \<open>A registered, pending cell whose id is answered holds that answer afterwards.\<close>

lemma settled_cell:
  assumes "settled_by ps e e'" "h < length (en_store e)" "registered e h"
    "snd (en_store e ! h) = Pending" "map_of ps (fst (en_store e ! h)) = Some resp"
  shows "en_store e' ! h = (fst (en_store e ! h), Result resp)"
proof -
  have "en_store e' ! h = (case map_of ps (fst (en_store e ! h)) of
             Some resp \<Rightarrow> if registered e h \<and> snd (en_store e ! h) = Pending
                          then (fst (en_store e ! h), Result resp) else en_store e ! h
           | None \<Rightarrow> en_store e ! h)"
    using assms(1,2) unfolding settled_by_def by (elim conjE) (erule allE, erule mp)
  with assms(3-5) show ?thesis
    by simp
qed

definition ex_request :: request where
  "ex_request = \<lparr>rq_prompt = ''hi'', rq_generation = gc_defaults, rq_id = ''q'',
     rq_enqueued_at = 0, rq_dequeued_at = Some 0, rq_deadline = None\<rparr>"

definition ex_batch :: batch where
  "ex_batch = \<lparr>bt_requests = [ex_request], bt_trigger = TIMEOUT, bt_formed_at = 0\<rparr>"

lemma ex_batch_facts: "bt_requests ex_batch = [ex_request]" "rq_id ex_request = ''q''"
  by (simp_all add: ex_batch_def ex_request_def)

lemma ex_engine_facts:
  "futures_ok ex_engine" "fst (en_store ex_engine ! 0) = ''q''" "length (en_store ex_engine) = 1"
  "registered ex_engine 0" "snd (en_store ex_engine ! 0) = Pending"
  "window_inv (mr_latency (en_metrics ex_engine))"
  by (simp_all add: ex_engine_def futures_ok_def registered_def MetricsRegistry_def empty_window_def
      window_inv_def)

text \<open>
  C12: A batch answers everybody. Whatever the runner does (results, too few or too many of
  them, an exception) and whoever expires on the way, after \<open>execute\<close> every member of the
  batch whose future was pending has a response with its own id and is no longer
  registered, and every future outside the batch is as it was. The clock must not run
  backwards: a member found expired by the first look must be so at the second.
\<close>

theorem batch_answers_every_member:
  assumes "futures_ok e" "\<And>i j. i \<le> j \<Longrightarrow> clock i \<le> clock j" "h < length (en_store e)"
    "execute generate clock b e = e'"
  shows "(fst (en_store e ! h) \<in> rq_id ` set (bt_requests b) \<and> registered e h
        \<and> snd (en_store e ! h) = Pending
      \<longrightarrow> (\<exists>resp. en_store e' ! h = (fst (en_store e ! h), Result resp)
           \<and> rs_request_id resp = fst (en_store e ! h)) \<and> \<not> registered e' h)
    \<and> (fst (en_store e ! h) \<notin> rq_id ` set (bt_requests b)
      \<longrightarrow> en_store e' ! h = en_store e ! h \<and> registered e' h = registered e h)"
proof -
  let ?i = "fst (en_store e ! h)"
  have ids: "set (dropped_members clock (bt_requests b) @ live_members clock (bt_requests b))
      = set (bt_requests b)"
    using members_within members_covered [of clock "bt_requests b", OF assms(2)] by (rule subset_antisym)
  from execute_settles [OF assms(1), of clock b generate] obtain ps where ps: "own_answers ps"
      "settled_by ps e e'" "set (map fst ps) = rq_id ` set (bt_requests b)"
    unfolding settles_def ids assms(4) by (elim exE conjE)
  have fut: "map_of (en_futures e') ?i = (if ?i \<in> set (map fst ps) then None else map_of (en_futures e) ?i)"
    and cell: "en_store e' ! h = (case map_of ps ?i of
             Some resp \<Rightarrow> if registered e h \<and> snd (en_store e ! h) = Pending
                          then (?i, Result resp) else en_store e ! h
           | None \<Rightarrow> en_store e ! h)"
    using ps(2) assms(3) unfolding settled_by_def by simp_all
  have same: "fst (en_store e' ! h) = ?i"
    unfolding cell by (simp split: option.split)
  show ?thesis
  proof (cases "?i \<in> set (map fst ps)")
    case True
    then obtain resp where "map_of ps ?i = Some resp"
      by (metis map_of_eq_None_iff not_Some_eq list.set_map)
    with True map_of_own [OF ps(1) this] show ?thesis
      using fut same cell by (simp add: ps(3) [symmetric] registered_def)
  next
    case False
    then have "map_of ps ?i = None"
      by (simp add: map_of_eq_None_iff)
    with False show ?thesis
      using fut same cell unfolding ps(3) by (simp add: registered_def)
  qed
qed

theorem batch_answers_every_member_witness:
  "\<exists>resp. en_store (execute (\<lambda>_ _. Inl KeyError) (\<lambda>_. 0) ex_batch ex_engine) ! 0 = (''q'', Result resp)
     \<and> rs_request_id resp = ''q''"
proof -
  have "futures_ok ex_engine" "fst (en_store ex_engine ! 0) = ''q''" "0 < length (en_store ex_engine)"
    "registered ex_engine 0" "snd (en_store ex_engine ! 0) = Pending" "''q'' \<in> rq_id ` set (bt_requests ex_batch)"
    by (simp_all add: ex_engine_facts ex_batch_def ex_request_def)
  then show ?thesis
    using batch_answers_every_member [where e = ex_engine and clock = "\<lambda>_. 0" and h = 0
        and generate = "\<lambda>_ _. Inl KeyError" and b = ex_batch, OF _ _ _ refl]
    by simp
qed

text \<open>
  C13: Results do not cross. When no member has expired and the runner returns one result
  per request, the \<open>k\<close>-th request's future holds a response made of the \<open>k\<close>-th result.
\<close>

theorem results_reach_their_requests:
  assumes "futures_ok e" "window_inv (mr_latency (en_metrics e))" "distinct (map rq_id (bt_requests b))"
    "\<And>i. i < batch_len b \<Longrightarrow> \<not> expired (bt_requests b ! i) (clock i)"
    "generate (batch_prompts b) (map rq_generation (bt_requests b)) = Inr results"
    "length results = batch_len b" "k < batch_len b"
    "h < length (en_store e)" "fst (en_store e ! h) = rq_id (bt_requests b ! k)"
    "registered e h" "snd (en_store e ! h) = Pending"
  shows "\<exists>elapsed. en_store (execute generate clock b e) ! h
    = (rq_id (bt_requests b ! k), Result (result_response b elapsed (bt_requests b ! k) (results ! k)))"
proof -
  let ?rs = "bt_requests b" and ?d = "clock (2 * batch_len b + 1) - clock (2 * batch_len b)"
  have none: "live_members clock ?rs = ?rs" "dropped_members clock ?rs = []"
    using no_member_expires [of ?rs clock] assms(4) by (simp_all add: batch_len_def)
  have b: "b\<lparr>bt_requests := ?rs\<rparr> = b"
    by simp
  have ne: "?rs \<noteq> []"
    using assms(7) by (auto simp: batch_len_def)
  obtain e' where e': "complete_rows b ?d ?rs results e = (None, e')"
      "settled_by (map2 (\<lambda>r res. (rq_id r, result_response b ?d r res)) ?rs results) e e'"
    using complete_rows_exact [of ?rs results e b ?d] assms(1,2,6) by (auto simp: batch_len_def)
  have "execute generate clock b e = e'"
    unfolding execute_split Let_def none b expire_members_def run_members_def complete_batch_def
    using ne assms(5,6) e'(1) by (simp add: batch_len_def)
  moreover have "map_of (map2 (\<lambda>r res. (rq_id r, result_response b ?d r res)) ?rs results) (rq_id (?rs ! k))
      = Some (result_response b ?d (?rs ! k) (results ! k))"
  proof (rule map_of_is_SomeI)
    have "map fst (map2 (\<lambda>r res. (rq_id r, result_response b ?d r res)) ?rs results) = map rq_id ?rs"
      using assms(6) by (intro keys_map2) (simp add: batch_len_def)
    then show "distinct (map fst (map2 (\<lambda>r res. (rq_id r, result_response b ?d r res)) ?rs results))"
      using assms(3) by simp
  qed (use assms(6,7) in \<open>auto simp: batch_len_def set_zip intro!: exI [of _ k]\<close>)
  ultimately show ?thesis
    using settled_cell [OF e'(2) assms(8,10,11)] assms(9) by auto
qed

theorem results_reach_their_requests_witness:
  "\<exists>elapsed. en_store (execute (echo_generate (\<lambda>_. ''0123'')) (\<lambda>_. 0) ex_batch ex_engine) ! 0
     = (''q'', Result (result_response ex_batch elapsed ex_request
          \<lparr>gr_text = ''hi -> 0123'', gr_prompt_tokens = 1, gr_generated_tokens = 64\<rparr>))"
proof -
  have g: "echo_generate (\<lambda>_. ''0123'') (batch_prompts ex_batch) (map rq_generation (bt_requests ex_batch))
      = Inr [\<lparr>gr_text = ''hi -> 0123'', gr_prompt_tokens = 1, gr_generated_tokens = 64\<rparr>]"
    by code_simp
  have "futures_ok ex_engine" "window_inv (mr_latency (en_metrics ex_engine))"
    "distinct (map rq_id (bt_requests ex_batch))"
    "\<And>i. i < batch_len ex_batch \<Longrightarrow> \<not> expired (bt_requests ex_batch ! i) 0"
    "batch_len ex_batch = 1" "fst (en_store ex_engine ! 0) = rq_id (bt_requests ex_batch ! 0)"
    "0 < length (en_store ex_engine)" "registered ex_engine 0" "snd (en_store ex_engine ! 0) = Pending"
    by (simp_all add: ex_engine_facts ex_batch_def ex_request_def batch_len_def expired_def)
  from results_reach_their_requests [where clock = "\<lambda>_. 0" and k = 0 and h = 0
      and e = ex_engine and b = ex_batch and generate = "echo_generate (\<lambda>_. ''0123'')",
      OF this(1-4) g _ _ this(7,6,8,9)] this(5) show ?thesis
    by (simp add: ex_batch_facts)
qed

text \<open>
  A failing runner costs its own batch only. When it raises, or returns the wrong number
  of results, every member's future holds an error response naming that failure, and the
  engine goes on: it is a value, not an exception, and other futures are untouched.
\<close>

theorem runner_failure_is_contained:
  assumes "futures_ok e" "distinct (map rq_id (bt_requests b))"
    "\<And>i. i < batch_len b \<Longrightarrow> \<not> expired (bt_requests b ! i) (clock i)"
    "generate (batch_prompts b) (map rq_generation (bt_requests b)) = outcome"
    "case outcome of Inl f \<Rightarrow> err = f | Inr results \<Rightarrow> err = RuntimeError \<and> length results \<noteq> batch_len b"
    "k < batch_len b"
    "h < length (en_store e)" "fst (en_store e ! h) = rq_id (bt_requests b ! k)"
    "registered e h" "snd (en_store e ! h) = Pending"
  shows "\<exists>resp. en_store (execute generate clock b e) ! h = (rq_id (bt_requests b ! k), Result resp)
    \<and> rs_error resp = Some (RunnerError err) \<and> \<not> response_ok resp \<and> rs_text resp = []"
proof -
  let ?rs = "bt_requests b" and ?d = "clock (2 * batch_len b + 1) - clock (2 * batch_len b)"
  have none: "live_members clock ?rs = ?rs" "dropped_members clock ?rs = []"
    using no_member_expires [of ?rs clock] assms(3) by (simp_all add: batch_len_def)
  have b: "b\<lparr>bt_requests := ?rs\<rparr> = b"
    by simp
  have ne: "?rs \<noteq> []"
    using assms(6) by (auto simp: batch_len_def)
  have "execute generate clock b e = fail_batch b err ?d e"
    unfolding execute_split Let_def none b expire_members_def run_members_def
    using ne assms(4,5) by (auto simp: batch_len_def split: sum.splits)
  moreover have "settled_by (map (\<lambda>r. (rq_id r, error_response b err ?d r)) ?rs) e (fail_batch b err ?d e)"
    unfolding fail_batch_def by (rule fail_batch_exact [OF assms(1)])
  moreover have "map_of (map (\<lambda>r. (rq_id r, error_response b err ?d r)) ?rs) (rq_id (?rs ! k))
      = Some (error_response b err ?d (?rs ! k))"
    using assms(2,6) by (intro map_of_is_SomeI) (auto simp: batch_len_def comp_def)
  ultimately show ?thesis
    using settled_cell assms(7-10) by (fastforce simp: error_response_def response_ok_def)
qed

theorem runner_failure_is_contained_witness:
  "\<exists>resp. en_store (execute (\<lambda>_ _. Inr []) (\<lambda>_. 0) ex_batch ex_engine) ! 0 = (''q'', Result resp)
     \<and> rs_error resp = Some (RunnerError RuntimeError)"
proof -
  have "futures_ok ex_engine" "distinct (map rq_id (bt_requests ex_batch))"
    "\<And>i. i < batch_len ex_batch \<Longrightarrow> \<not> expired (bt_requests ex_batch ! i) 0"
    "batch_len ex_batch = 1" "fst (en_store ex_engine ! 0) = rq_id (bt_requests ex_batch ! 0)"
    "0 < length (en_store ex_engine)" "registered ex_engine 0" "snd (en_store ex_engine ! 0) = Pending"
    by (simp_all add: ex_engine_facts ex_batch_def ex_request_def batch_len_def expired_def)
  from runner_failure_is_contained [where clock = "\<lambda>_. 0" and k = 0 and h = 0
      and generate = "\<lambda>_ _. Inr []" and err = RuntimeError, OF this(1-3) refl] this(4-)
  show ?thesis
    by (auto simp: ex_batch_facts)
qed

text \<open>
  The second look at the deadlines can disagree with the first. There is an engine and a
  batch of two whose first member has expired, so that the deadlines are read again, and
  whose second member expires between the two readings: its caller is told it expired, it is
  sent to the runner all the same, and it is counted both as expired and as completed.
\<close>

theorem expired_and_executed:
  "\<exists>e b clock. futures_ok e \<and> mono clock \<and> batch_len b = 2
     \<and> (let e' = execute (echo_generate (\<lambda>_. ''0123'')) clock b e in
          mr_expired (en_metrics e') = 2 \<and> mr_completed (en_metrics e') = 1
          \<and> list_all (\<lambda>c. case snd c of Result r \<Rightarrow> \<not> response_ok r | _ \<Rightarrow> False) (en_store e'))"
proof (intro exI conjI)
  let ?e = "ex_engine\<lparr>en_store := [(''q'', Pending), (''s'', Pending)], en_futures := [(''q'', 0), (''s'', 1)]\<rparr>"
  let ?b = "ex_batch\<lparr>bt_requests := [ex_request\<lparr>rq_deadline := Some 0\<rparr>,
      ex_request\<lparr>rq_id := ''s'', rq_deadline := Some 2\<rparr>]\<rparr>"
  show "futures_ok ?e"
    by (auto simp: futures_ok_def less_Suc_eq nth_Cons split: if_splits)
  show "mono real"
    by (simp add: mono_def)
  show "batch_len ?b = 2"
    by (simp add: batch_len_def)
  show "let e' = execute (echo_generate (\<lambda>_. ''0123'')) real ?b ?e in
      mr_expired (en_metrics e') = 2 \<and> mr_completed (en_metrics e') = 1
      \<and> list_all (\<lambda>c. case snd c of Result r \<Rightarrow> \<not> response_ok r | _ \<Rightarrow> False) (en_store e')"
    by code_simp
qed

end
