(* ===== verification/Continuous.thy ===== *)
theory Continuous
  imports Stepwise KV_Cache
begin

text \<open>
  \<open>python/cudaforge/continuous.py\<close>: \<open>ContinuousBatcher\<close>, the iteration-level scheduler, and
  \<open>run_static\<close>, the baseline. The scheduler thread is the only one that touches the running
  set, the deferred request, the runner and the cache; it shares the queue and the flag
  \<open>_stopping\<close> with the clients. One pass of its loop is one step of the model, and the
  queue it sees is what has been queued when the pass takes its last item: an item that
  arrives later in the real pass is an item queued before the next one. Clock readings
  come from a function of their index; the caller's callbacks, the estimate and the runner
  are the record \<open>continuous_env\<close>.
\<close>

section \<open>Statistics\<close>

record continuous_stats =
  cs_decode_steps :: int
  cs_occupied_rows :: int
  cs_available_rows :: int
  cs_admissions :: int
  cs_completions :: int
  cs_expired :: int
  cs_max_observed_batch :: int
  cs_cache_refusals :: int
  cs_rejected :: int
  cs_preempted :: int

definition ContinuousStats :: continuous_stats where
  "ContinuousStats = \<lparr>cs_decode_steps = 0, cs_occupied_rows = 0, cs_available_rows = 0,
     cs_admissions = 0, cs_completions = 0, cs_expired = 0, cs_max_observed_batch = 0,
     cs_cache_refusals = 0, cs_rejected = 0, cs_preempted = 0\<rparr>"

definition stats_utilisation :: "continuous_stats \<Rightarrow> real" where
  "stats_utilisation s =
     (if cs_available_rows s = 0 then 0
      else of_int (cs_occupied_rows s) / of_int (cs_available_rows s))"

section \<open>State\<close>

record 'r continuous_env =
  ce_ops :: "'r runner_ops"
  ce_clock :: "nat \<Rightarrow> real"
  ce_estimate :: "string \<Rightarrow> int"
  ce_complete_raises :: "request \<Rightarrow> sequence_state \<Rightarrow> bool"
  ce_has_on_rejected :: bool

text \<open>How a request ended: history of the callbacks made for it.\<close>

datatype settlement = Completed sequence_state | Expired | Rejected

record 'r continuous_batcher =
  co_runner :: 'r
  co_max_batch :: int
  co_capacity :: int
  co_queue :: "request option list"
  co_stopping :: bool
  co_closed :: bool
  co_deferred :: "request option"
  co_next_id :: int
  co_running :: "(request \<times> sequence_state) list"
  co_stats :: continuous_stats
  co_cache :: "kv_manager option"
  co_metrics :: metrics_registry
  co_ticks :: nat                                 \<comment> \<open>clock readings taken\<close>
  co_accepted :: "request list"                   \<comment> \<open>history: requests queued\<close>
  co_taken :: "request list"                      \<comment> \<open>history: requests dequeued\<close>
  co_settled :: "(request \<times> settlement) list"     \<comment> \<open>history: callbacks made\<close>

text \<open>The default of \<open>estimate_tokens\<close>.\<close>

definition default_estimate :: "string \<Rightarrow> int" where
  "default_estimate prompt = max 1 (int (length (split_words prompt)))"

definition ContinuousBatcher ::
  "'r \<Rightarrow> int \<Rightarrow> int \<Rightarrow> metrics_registry \<Rightarrow> kv_manager option \<Rightarrow> 'r continuous_batcher result" where
  "ContinuousBatcher runner max_batch queue_capacity metrics cache =
     (if max_batch \<le> 0 then Inl ValueError
      else if queue_capacity < max_batch then Inl ValueError
      else Inr \<lparr>co_runner = runner, co_max_batch = max_batch, co_capacity = queue_capacity,
                co_queue = [], co_stopping = False, co_closed = False, co_deferred = None,
                co_next_id = 1, co_running = [], co_stats = ContinuousStats,
                co_cache = cache, co_metrics = metrics, co_ticks = 0,
                co_accepted = [], co_taken = [], co_settled = []\<rparr>)"

definition upd_stats ::
  "(continuous_stats \<Rightarrow> continuous_stats) \<Rightarrow> 'r continuous_batcher \<Rightarrow> 'r continuous_batcher" where
  "upd_stats f st = st\<lparr>co_stats := f (co_stats st)\<rparr>"

definition upd_metrics ::
  "(metrics_registry \<Rightarrow> metrics_registry) \<Rightarrow> 'r continuous_batcher \<Rightarrow> 'r continuous_batcher" where
  "upd_metrics f st = st\<lparr>co_metrics := f (co_metrics st)\<rparr>"

section \<open>Clients\<close>

definition co_full :: "'r continuous_batcher \<Rightarrow> bool" where
  "co_full st \<longleftrightarrow> co_capacity st \<le> int (length (co_queue st))"

text \<open>
  \<open>submit\<close> and \<open>try_submit\<close>, which differ only in how long they wait for room before
  \<open>queue.Full\<close>: the state is the one at the moment the wait ends.
\<close>

definition co_submit :: "request \<Rightarrow> 'r continuous_batcher \<Rightarrow> bool \<times> 'r continuous_batcher" where
  "co_submit r st =
     (if co_stopping st then (False, upd_metrics record_rejected st)
      else let st = upd_metrics record_received st in
        if co_full st then (False, upd_metrics record_rejected st)
        else let st = st\<lparr>co_queue := co_queue st @ [Some r], co_accepted := co_accepted st @ [r]\<rparr>
             in (True, upd_metrics (set_queue_depth (int (length (co_queue st)))) st))"

definition co_shutdown :: "'r continuous_batcher \<Rightarrow> 'r continuous_batcher" where
  "co_shutdown st =
     (if co_stopping st then st
      else let st = st\<lparr>co_stopping := True\<rparr> in
        if co_full st then st else st\<lparr>co_queue := co_queue st @ [None]\<rparr>)"

section \<open>Leaving the running set\<close>

text \<open>
  What \<open>_retire\<close> and \<open>_evict_preempted\<close> do to one sequence: free its row and its cache,
  count it, and call \<open>on_complete\<close>, whose exception is counted and swallowed.
\<close>

definition free_row ::
  "'r continuous_env \<Rightarrow> (continuous_stats \<Rightarrow> continuous_stats) \<Rightarrow> request \<times> sequence_state
     \<Rightarrow> 'r continuous_batcher \<Rightarrow> 'r continuous_batcher result" where
  "free_row env tally p st =
     (let (r, s) = p;
          st = st\<lparr>co_runner := ro_evict (ce_ops env) (ss_id s) (co_runner st)\<rparr> in
      rbind (case co_cache st of
               None \<Rightarrow> Inr st
             | Some m \<Rightarrow> rbind (kv_release m (ss_id s)) (\<lambda>m. Inr (st\<lparr>co_cache := Some m\<rparr>)))
        (\<lambda>st. let st = upd_stats tally st;
                  st = st\<lparr>co_settled := co_settled st @ [(r, Completed s)]\<rparr>
              in Inr (if ce_complete_raises env r s then upd_metrics record_failed st else st)))"

definition count_preempted :: "continuous_stats \<Rightarrow> continuous_stats" where
  "count_preempted cs = cs\<lparr>cs_preempted := cs_preempted cs + 1\<rparr>"

definition count_completion :: "continuous_stats \<Rightarrow> continuous_stats" where
  "count_completion cs = cs\<lparr>cs_completions := cs_completions cs + 1\<rparr>"

definition evict_preempted ::
  "'r continuous_env \<Rightarrow> int list \<Rightarrow> 'r continuous_batcher \<Rightarrow> 'r continuous_batcher result" where
  "evict_preempted env preempted st =
     rbind (rfold (free_row env count_preempted)
                  (filter (\<lambda>(r, s). ss_id s \<in> set preempted) (co_running st)) st)
       (\<lambda>st'. Inr (st'\<lparr>co_running := filter (\<lambda>(r, s). ss_id s \<notin> set preempted) (co_running st)\<rparr>))"

definition retire :: "'r continuous_env \<Rightarrow> 'r continuous_batcher \<Rightarrow> 'r continuous_batcher result" where
  "retire env st =
     rbind (rfold (free_row env count_completion)
                  (filter (\<lambda>(r, s). finished s) (co_running st)) st)
       (\<lambda>st'. Inr (st'\<lparr>co_running := filter (\<lambda>(r, s). \<not> finished s) (co_running st)\<rparr>))"

section \<open>Admission\<close>

definition reject :: "'r continuous_env \<Rightarrow> request \<Rightarrow> 'r continuous_batcher \<Rightarrow> 'r continuous_batcher" where
  "reject env r st =
     (let st = upd_stats (\<lambda>cs. cs\<lparr>cs_rejected := cs_rejected cs + 1\<rparr>) st in
      if ce_has_on_rejected env then st\<lparr>co_settled := co_settled st @ [(r, Rejected)]\<rparr>
      else st\<lparr>co_next_id := co_next_id st + 1,
              co_settled := co_settled st @
                [(r, Completed (SequenceState (co_next_id st) (rq_prompt r) (rq_generation r)))]\<rparr>)"

text \<open>The last lines of \<open>_offer_to_cache\<close>: the sequence gets a row and joins \<open>admitted\<close>.\<close>

definition start_row ::
  "request \<Rightarrow> sequence_state \<Rightarrow> sequence_state list \<Rightarrow> 'r continuous_batcher
     \<Rightarrow> bool \<times> sequence_state list \<times> 'r continuous_batcher" where
  "start_row r s admitted st =
     (True, admitted @ [s], st\<lparr>co_running := co_running st @ [(r, s)]\<rparr>)"

definition offer_to_cache ::
  "'r continuous_env \<Rightarrow> request \<Rightarrow> sequence_state list \<Rightarrow> 'r continuous_batcher
     \<Rightarrow> (bool \<times> sequence_state list \<times> 'r continuous_batcher) result" where
  "offer_to_cache env r admitted st =
     (let s = SequenceState (co_next_id st) (rq_prompt r) (rq_generation r);
          st = st\<lparr>co_next_id := co_next_id st + 1\<rparr> in
      case co_cache st of
        None \<Rightarrow> Inr (start_row r s admitted st)
      | Some m \<Rightarrow>
          rbind (admit m (ss_id s) (ce_estimate env (rq_prompt r))) (\<lambda>(out, m).
            let st = st\<lparr>co_cache := Some m\<rparr> in
            if \<not> outcome_ok out then
              (let st = upd_stats (\<lambda>cs. cs\<lparr>cs_cache_refusals := cs_cache_refusals cs + 1\<rparr>) st in
               if co_running st = [] \<and> admitted = [] then Inr (True, admitted, reject env r st)
               else Inr (False, admitted, st\<lparr>co_deferred := Some r\<rparr>))
            else if ao_preempted out \<noteq> [] then
              rbind (evict_preempted env (ao_preempted out) st)
                (\<lambda>st. Inr (start_row r s admitted st))
            else Inr (start_row r s admitted st)))"

text \<open>
  What happens to a request that came out of the queue, up to the offer: it is stamped
  and, past its deadline, dropped.
\<close>

definition dequeue_stamp ::
  "'r continuous_env \<Rightarrow> request \<Rightarrow> 'r continuous_batcher \<Rightarrow> request \<times> bool \<times> 'r continuous_batcher" where
  "dequeue_stamp env r st =
     (let r = stamp (ce_clock env (co_ticks st)) r;
          late = expired r (ce_clock env (Suc (co_ticks st)));
          st = st\<lparr>co_ticks := co_ticks st + 2, co_taken := co_taken st @ [r]\<rparr>
      in (r, late,
          if late then
            (upd_stats (\<lambda>cs. cs\<lparr>cs_expired := cs_expired cs + 1\<rparr>) (upd_metrics record_expired st))
              \<lparr>co_settled := co_settled st @ [(r, Expired)]\<rparr>
          else st))"

definition note_delay :: "request \<Rightarrow> 'r continuous_batcher \<Rightarrow> 'r continuous_batcher result" where
  "note_delay r st =
     rbind (record_queue_delay (queue_delay r) (co_metrics st)) (\<lambda>m. Inr (st\<lparr>co_metrics := m\<rparr>))"

lemma rfold_preserves:
  assumes "\<And>x s s'. f x s = Inr s' \<Longrightarrow> g s' = g s" "rfold f xs s = Inr s'"
  shows "g s' = g s"
  using assms(2) by (induction xs arbitrary: s) (auto simp: rbind_eq_Inr dest: assms(1))

text \<open>The state after a row was freed, the cache apart.\<close>

lemma free_row_cases:
  assumes "free_row env tally (r, s) st = Inr st'"
  obtains c where
    "(case co_cache st of None \<Rightarrow> c = None | Some m \<Rightarrow> \<exists>m'. kv_release m (ss_id s) = Inr m' \<and> c = Some m')"
    "co_cache st' = c" "co_runner st' = ro_evict (ce_ops env) (ss_id s) (co_runner st)"
    "co_stats st' = tally (co_stats st)"
    "co_settled st' = co_settled st @ [(r, Completed s)]"
    "co_metrics st' = (if ce_complete_raises env r s then record_failed (co_metrics st) else co_metrics st)"
    "co_queue st' = co_queue st" "co_deferred st' = co_deferred st" "co_running st' = co_running st"
    "co_max_batch st' = co_max_batch st" "co_capacity st' = co_capacity st"
    "co_stopping st' = co_stopping st" "co_closed st' = co_closed st"
    "co_next_id st' = co_next_id st" "co_ticks st' = co_ticks st"
    "co_accepted st' = co_accepted st" "co_taken st' = co_taken st"
proof (cases "co_cache st")
  case None
  show thesis
    by (rule that [of None])
      (use assms None in \<open>simp_all add: free_row_def Let_def upd_stats_def upd_metrics_def
        split: if_splits\<close>, auto)
next
  case (Some m)
  then obtain m' where m': "kv_release m (ss_id s) = Inr m'"
    using assms by (auto simp: free_row_def Let_def rbind_eq_Inr)
  show thesis
    by (rule that [of "Some m'"])
      (use assms Some m' in \<open>simp_all add: free_row_def Let_def upd_stats_def upd_metrics_def
        split: if_splits\<close>, auto)
qed

lemma free_row_queue:
  "free_row env tally p st = Inr st' \<Longrightarrow> co_queue st' = co_queue st \<and> co_deferred st' = co_deferred st"
  by (cases p) (auto elim: free_row_cases)

lemma evict_preempted_queue:
  assumes "evict_preempted env ids st = Inr st'"
  shows "co_queue st' = co_queue st" "co_deferred st' = co_deferred st"
proof -
  obtain st1 where st1: "rfold (free_row env count_preempted)
        (filter (\<lambda>(r, s). ss_id s \<in> set ids) (co_running st)) st = Inr st1"
      "co_queue st' = co_queue st1" "co_deferred st' = co_deferred st1"
    using assms by (auto simp: evict_preempted_def rbind_eq_Inr)
  have "co_queue st1 = co_queue st" "co_deferred st1 = co_deferred st"
    using rfold_preserves [OF _ st1(1), of co_queue] rfold_preserves [OF _ st1(1), of co_deferred]
    by (simp_all add: free_row_queue)
  with st1 show "co_queue st' = co_queue st" "co_deferred st' = co_deferred st"
    by simp_all
qed

lemma reject_queue:
  "co_queue (reject env r st) = co_queue st" "co_deferred (reject env r st) = co_deferred st"
  by (simp_all add: reject_def upd_stats_def Let_def)

text \<open>The ways an offer can end.\<close>

lemma offer_to_cache_cases:
  assumes "offer_to_cache env r admitted st = Inr (go_on, admitted', st')"
  obtains
    (no_cache) "co_cache st = None"
      "(go_on, admitted', st') = start_row r (SequenceState (co_next_id st) (rq_prompt r) (rq_generation r))
         admitted (st\<lparr>co_next_id := co_next_id st + 1\<rparr>)"
  | (rejected) m out m' where "co_cache st = Some m"
      "admit m (co_next_id st) (ce_estimate env (rq_prompt r)) = Inr (out, m')" "\<not> outcome_ok out"
      "co_running st = []" "admitted = []" "go_on" "admitted' = []"
      "st' = reject env r (upd_stats (\<lambda>cs. cs\<lparr>cs_cache_refusals := cs_cache_refusals cs + 1\<rparr>)
         (st\<lparr>co_next_id := co_next_id st + 1, co_cache := Some m'\<rparr>))"
  | (deferred) m out m' where "co_cache st = Some m"
      "admit m (co_next_id st) (ce_estimate env (rq_prompt r)) = Inr (out, m')" "\<not> outcome_ok out"
      "co_running st \<noteq> [] \<or> admitted \<noteq> []" "\<not> go_on" "admitted' = admitted"
      "st' = (upd_stats (\<lambda>cs. cs\<lparr>cs_cache_refusals := cs_cache_refusals cs + 1\<rparr>)
         (st\<lparr>co_next_id := co_next_id st + 1, co_cache := Some m'\<rparr>))\<lparr>co_deferred := Some r\<rparr>"
  | (started) m out m' st1 where "co_cache st = Some m"
      "admit m (co_next_id st) (ce_estimate env (rq_prompt r)) = Inr (out, m')" "outcome_ok out"
      "(if ao_preempted out = []
        then Inr (st\<lparr>co_next_id := co_next_id st + 1, co_cache := Some m'\<rparr>)
        else evict_preempted env (ao_preempted out)
               (st\<lparr>co_next_id := co_next_id st + 1, co_cache := Some m'\<rparr>)) = Inr st1"
      "(go_on, admitted', st') = start_row r (SequenceState (co_next_id st) (rq_prompt r) (rq_generation r))
         admitted st1"
proof (cases "co_cache st")
  case None
  with assms show thesis
    by (intro no_cache) (simp_all add: offer_to_cache_def Let_def)
next
  case (Some m)
  have id: "ss_id (SequenceState i p g) = i" for i p g
    by (simp add: SequenceState_def)
  obtain out m' where adm: "admit m (co_next_id st) (ce_estimate env (rq_prompt r)) = Inr (out, m')"
    using assms Some by (auto simp: offer_to_cache_def Let_def rbind_eq_Inr id)
  show thesis
  proof (cases "outcome_ok out")
    case True
    show thesis
      using assms Some adm True
      by (cases "ao_preempted out = []")
        (auto simp: offer_to_cache_def Let_def rbind_eq_Inr id intro: started [OF Some adm True])
  next
    case False
    show thesis
    proof (cases "co_running st = [] \<and> admitted = []")
      case True
      show thesis
        by (rule rejected [OF Some adm False])
          (use assms Some adm False True in
            \<open>simp_all add: offer_to_cache_def Let_def id upd_stats_def\<close>)
    next
      case no: False
      show thesis
        by (rule deferred [OF Some adm False])
          (use assms Some adm False no in
            \<open>simp_all add: offer_to_cache_def Let_def id upd_stats_def split: if_splits\<close>)
    qed
  qed
qed

lemma offer_to_cache_queue:
  assumes "offer_to_cache env r admitted st = Inr (go_on, admitted', st')"
  shows "co_queue st' = co_queue st \<and> (go_on \<longrightarrow> co_deferred st' = co_deferred st)"
  using assms
  by (cases rule: offer_to_cache_cases;
      auto simp: start_row_def reject_queue upd_stats_def evict_preempted_queue split: if_splits)+

lemma dequeue_stamp_queue:
  assumes "dequeue_stamp env r st = (r', late, st')"
  shows "co_queue st' = co_queue st \<and> co_deferred st' = co_deferred st"
  using assms by (auto simp: dequeue_stamp_def upd_stats_def upd_metrics_def Let_def)

lemma note_delay_queue:
  assumes "note_delay r st = Inr st'"
  shows "co_queue st' = co_queue st \<and> co_deferred st' = co_deferred st"
  using assms by (auto simp: note_delay_def rbind_eq_Inr)

text \<open>The \<open>while\<close> loop of \<open>_admit\<close>. An empty queue is \<open>queue.Empty\<close>.\<close>

function admit_loop ::
  "'r continuous_env \<Rightarrow> sequence_state list \<Rightarrow> 'r continuous_batcher
     \<Rightarrow> (sequence_state list \<times> 'r continuous_batcher) result" where
  "admit_loop env admitted st =
     (if int (length (co_running st)) + int (length admitted) < co_max_batch st then
        (case co_deferred st of
           Some r \<Rightarrow>
             rbind (offer_to_cache env r admitted (st\<lparr>co_deferred := None\<rparr>)) (\<lambda>(go_on, admitted', st').
               if go_on then admit_loop env admitted' st' else Inr (admitted', st'))
         | None \<Rightarrow>
             (case co_queue st of
                [] \<Rightarrow> Inr (admitted, st)
              | None # q \<Rightarrow>
                  Inr (admitted, st\<lparr>co_queue := q, co_stopping := True, co_closed := True\<rparr>)
              | Some r # q \<Rightarrow>
                  (case dequeue_stamp env r (st\<lparr>co_queue := q\<rparr>) of
                     (r', True, st') \<Rightarrow> admit_loop env admitted st'
                   | (r', False, st') \<Rightarrow>
                       rbind (note_delay r' st') (\<lambda>st'.
                       rbind (offer_to_cache env r' admitted st') (\<lambda>(go_on, admitted', st').
                         if go_on then admit_loop env admitted' st' else Inr (admitted', st'))))))
      else Inr (admitted, st))"
  by pat_completeness auto

termination
proof (relation "measure (\<lambda>(env, admitted, st).
    length (co_queue st) + (if co_deferred st = None then 0 else 1))")
qed (auto dest!: dequeue_stamp_queue [OF sym] note_delay_queue offer_to_cache_queue)

declare admit_loop.simps [simp del]

text \<open>Sequence objects shared by \<open>admitted\<close> and the running set: put the updated ones back.\<close>

definition put_back ::
  "sequence_state list \<Rightarrow> (request \<times> sequence_state) list \<Rightarrow> (request \<times> sequence_state) list" where
  "put_back ss running =
     map (\<lambda>(r, s). (r, case find (\<lambda>s'. ss_id s' = ss_id s) ss of None \<Rightarrow> s | Some s' \<Rightarrow> s')) running"

definition admit_pass :: "'r continuous_env \<Rightarrow> 'r continuous_batcher \<Rightarrow> 'r continuous_batcher result" where
  "admit_pass env st =
     rbind (admit_loop env [] st) (\<lambda>(admitted, st).
       if admitted = [] then Inr st
       else rbind (ro_prefill (ce_ops env) admitted (co_runner st)) (\<lambda>(ss, r).
         Inr (upd_stats (\<lambda>cs. cs\<lparr>cs_admissions := cs_admissions cs + int (length admitted)\<rparr>)
                (st\<lparr>co_runner := r, co_running := put_back ss (co_running st)\<rparr>))))"

section \<open>One pass\<close>

text \<open>The loop of \<open>_reserve_step\<close>: one token of cache per running sequence.\<close>

fun extend_all :: "(request \<times> sequence_state) list \<Rightarrow> kv_manager \<Rightarrow> int list
    \<Rightarrow> (int list \<times> kv_manager) result" where
  "extend_all [] m casualties = Inr (casualties, m)"
| "extend_all ((r, s) # rest) m casualties =
     rbind (KV_Cache.extend m (ss_id s) 1) (\<lambda>(out, m).
       extend_all rest m
         (if \<not> outcome_ok out then casualties @ [ss_id s] else casualties @ ao_preempted out))"

definition reserve_step :: "'r continuous_env \<Rightarrow> 'r continuous_batcher \<Rightarrow> 'r continuous_batcher result" where
  "reserve_step env st =
     (case co_cache st of
        None \<Rightarrow> Inr st
      | Some m \<Rightarrow>
          rbind (extend_all (co_running st) m []) (\<lambda>(casualties, m).
            let st = st\<lparr>co_cache := Some m\<rparr> in
            if casualties \<noteq> [] then evict_preempted env (remdups casualties) st else Inr st))"

definition count_step :: "int \<Rightarrow> int \<Rightarrow> continuous_stats \<Rightarrow> continuous_stats" where
  "count_step width max_batch cs =
     cs\<lparr>cs_decode_steps := cs_decode_steps cs + 1,
        cs_occupied_rows := cs_occupied_rows cs + width,
        cs_available_rows := cs_available_rows cs + max_batch,
        cs_max_observed_batch := max (cs_max_observed_batch cs) width\<rparr>"

definition decode_pass :: "'r continuous_env \<Rightarrow> 'r continuous_batcher \<Rightarrow> 'r continuous_batcher result" where
  "decode_pass env st =
     (let width = int (length (co_running st)) in
      rbind (ro_decode (ce_ops env) (map snd (co_running st)) (co_runner st)) (\<lambda>(ss, r).
        Inr (upd_stats (count_step width (co_max_batch st))
               (st\<lparr>co_runner := r, co_running := zip (map fst (co_running st)) ss\<rparr>))))"

text \<open>One iteration of \<open>_run\<close>; the first result says that the thread returned.\<close>

definition run_pass ::
  "'r continuous_env \<Rightarrow> 'r continuous_batcher \<Rightarrow> (bool \<times> 'r continuous_batcher) result" where
  "run_pass env st =
     rbind (admit_pass env st) (\<lambda>st.
       if co_running st = [] then Inr (co_closed st \<and> co_queue st = [], st)
       else rbind (reserve_step env st) (\<lambda>st.
         if co_running st = [] then Inr (False, st)
         else rbind (decode_pass env st) (\<lambda>st.
              rbind (retire env st) (\<lambda>st.
                Inr (False, upd_metrics (set_queue_depth (int (length (co_queue st)))) st)))))"

text \<open>The loop of \<open>_run\<close> with no client in between, for at most \<open>n\<close> passes.\<close>

fun run_passes ::
  "nat \<Rightarrow> 'r continuous_env \<Rightarrow> 'r continuous_batcher \<Rightarrow> (bool \<times> 'r continuous_batcher) result" where
  "run_passes 0 env st = Inr (False, st)"
| "run_passes (Suc n) env st =
     rbind (run_pass env st) (\<lambda>(done, st). if done then Inr (True, st) else run_passes n env st)"

section \<open>The static baseline\<close>

text \<open>
  The inner \<open>while\<close> of \<open>run_static\<close>. A runner that never finishes a sequence makes it
  run for ever, so the loop has fuel and \<open>None\<close> says that it ran out.
\<close>

fun static_loop ::
  "nat \<Rightarrow> 'r runner_ops \<Rightarrow> int \<Rightarrow> sequence_state list \<Rightarrow> 'r \<Rightarrow> continuous_stats
     \<Rightarrow> (sequence_state list \<times> 'r \<times> continuous_stats) result option" where
  "static_loop n ops max_batch states r cs =
     (if list_all finished states then Some (Inr (states, r, cs))
      else case n of
        0 \<Rightarrow> None
      | Suc n \<Rightarrow>
          let width = int (length (filter (\<lambda>s. \<not> finished s) states)) in
          (case ro_decode ops states r of
             Inl e \<Rightarrow> Some (Inl e)
           | Inr (states, r) \<Rightarrow>
               static_loop n ops max_batch states r (count_step width max_batch cs)))"

declare static_loop.simps [simp del]

definition static_states :: "(string \<times> generation_config) list \<Rightarrow> sequence_state list" where
  "static_states batch =
     map (\<lambda>(i, prompt, g). SequenceState (int i) prompt g) (zip [0..<length batch] batch)"

function static_batches ::
  "nat \<Rightarrow> 'r runner_ops \<Rightarrow> nat \<Rightarrow> (string \<times> generation_config) list \<Rightarrow> 'r \<Rightarrow> continuous_stats
     \<Rightarrow> ('r \<times> continuous_stats) result option" where
  "static_batches fuel ops n pending r cs =
     (if pending = [] \<or> n = 0 then Some (Inr (r, cs))
      else case ro_prefill ops (static_states (take n pending)) r of
        Inl e \<Rightarrow> Some (Inl e)
      | Inr (states, r) \<Rightarrow>
          let cs = cs\<lparr>cs_admissions := cs_admissions cs + int (length states)\<rparr> in
          (case static_loop fuel ops (int n) states r cs of
             None \<Rightarrow> None
           | Some (Inl e) \<Rightarrow> Some (Inl e)
           | Some (Inr (states, r, cs)) \<Rightarrow>
               static_batches fuel ops n (drop n pending)
                 (fold (\<lambda>s r. ro_evict ops (ss_id s) r) states r)
                 (cs\<lparr>cs_completions := cs_completions cs + int (length states)\<rparr>)))"
  by pat_completeness auto

termination
  by (relation "measure (\<lambda>(_, _, n, pending, _, _). length pending)") auto

declare static_batches.simps [simp del]

text \<open>
  \<open>run_static\<close> for a positive batch size. With a batch size of 0 the code's outer loop
  never shortens \<open>pending\<close> and does not end; that call is outside the model.
\<close>

definition run_static ::
  "nat \<Rightarrow> 'r runner_ops \<Rightarrow> 'r \<Rightarrow> (string \<times> generation_config) list \<Rightarrow> nat
     \<Rightarrow> ('r \<times> continuous_stats) result option" where
  "run_static fuel ops r prompts max_batch =
     (if max_batch = 0 \<and> prompts \<noteq> [] then None
      else static_batches fuel ops max_batch prompts r ContinuousStats)"

end
