(* ===== verification/Sequence_Cache.thy ===== *)
theory Sequence_Cache
  imports KV_Properties
begin

text \<open>
  The cache as the continuous scheduler uses it: sequences become known, grow, and are
  dropped. The scheduler's lemmas need only these laws; \<open>KVCacheManager\<close> provides them.
\<close>

locale sequence_cache =
  fixes cache_inv :: "'m \<Rightarrow> bool"
    and known :: "'m \<Rightarrow> int set"
    and reserve_new :: "'m \<Rightarrow> int \<Rightarrow> int \<Rightarrow> (admission_outcome \<times> 'm) result"
    and reserve_more :: "'m \<Rightarrow> int \<Rightarrow> int \<Rightarrow> (admission_outcome \<times> 'm) result"
    and forget :: "'m \<Rightarrow> int \<Rightarrow> 'm result"
  assumes new_ok: "cache_inv m \<Longrightarrow> 0 < n \<Longrightarrow> \<exists>out m'. reserve_new m s n = Inr (out, m')
      \<and> cache_inv m' \<and> known m' = insert s (known m) \<and> set (ao_preempted out) \<subseteq> known m - {s}"
    and more_ok: "cache_inv m \<Longrightarrow> 0 < n \<Longrightarrow> s \<in> known m \<Longrightarrow> \<exists>out m'. reserve_more m s n = Inr (out, m')
      \<and> cache_inv m' \<and> known m' = known m \<and> set (ao_preempted out) \<subseteq> known m - {s}"
    and forget_ok: "cache_inv m \<Longrightarrow> \<exists>m'. forget m s = Inr m' \<and> cache_inv m' \<and> known m' = known m - {s}"
begin

text \<open>Every sequence of a known set can grow by one token, and stays known.\<close>

lemma grow_step:
  assumes "cache_inv m" "insert s ids \<subseteq> known m"
  obtains out m' where "reserve_more m s 1 = Inr (out, m')" "cache_inv m'" "known m' = known m"
    "ids \<subseteq> known m'" "set (ao_preempted out) \<subseteq> known m - {s}"
  using more_ok [of m 1 s] assms by auto

text \<open>A fresh sequence becomes known beside those already running.\<close>

lemma enrol_step:
  assumes "cache_inv m" "0 < n" "s \<notin> ids" "ids \<subseteq> known m"
  obtains out m' where "reserve_new m s n = Inr (out, m')" "cache_inv m'"
    "known m' = insert s (known m)" "insert s ids \<subseteq> known m'" "s \<notin> set (ao_preempted out)"
proof -
  obtain out m' where *: "reserve_new m s n = Inr (out, m')" "cache_inv m'"
      "known m' = insert s (known m)" "set (ao_preempted out) \<subseteq> known m - {s}"
    using new_ok [OF assms(1,2)] by blast
  show thesis
    by (rule that [OF *(1-3)]) (use * assms(4) in auto)
qed

text \<open>Dropping one sequence leaves every other running one known.\<close>

lemma forget_step:
  assumes "cache_inv m" "ids \<subseteq> known m"
  obtains m' where "forget m s = Inr m'" "cache_inv m'" "known m' = known m - {s}"
    "ids - {s} \<subseteq> known m'"
  using forget_ok [OF assms(1), of s] assms(2) by auto

end

definition kv_known :: "kv_manager \<Rightarrow> int set" where
  "kv_known m = dom (map_of (km_tables m))"

lemma kv_known_iff: "s \<in> kv_known m \<longleftrightarrow> map_of (km_tables m) s \<noteq> None"
  by (auto simp: kv_known_def)

lemma kv_known_keys: "kv_known m = set (keys (km_tables m))"
  by (simp add: kv_known_def dom_map_of_conv_image_fst)

lemma kv_known_enrolled: "kv_known (enrolled m s) = insert s (kv_known m)"
  by (auto simp: kv_known_def enrolled_def register_def dict_simps dom_def)

lemma kv_reserve_ok:
  assumes inv: "kv_inv m" and pos: "0 < n" and known: "creating \<or> s \<in> kv_known m"
  shows "\<exists>out m'. reserve m s n creating = Inr (out, m') \<and> kv_inv m'
    \<and> kv_known m' = insert s (kv_known m) \<and> set (ao_preempted out) \<subseteq> kv_known m - {s}"
proof -
  have known': "creating \<or> map_of (km_tables m) s \<noteq> None"
    using known by (simp add: kv_known_iff)
  show ?thesis
  proof (cases "additional_blocks_for m s n \<le> ba_total (km_allocator m) - int (blocks_held m s)")
    case True
    obtain evs m' where res: "reserve m s n creating =
        Inr (\<lparr>ao_result = (if additional_blocks_for m s n \<le> free_blocks (km_allocator m)
              then ADMITTED else PREEMPTED_OTHERS), ao_preempted = evs\<rparr>, m')"
        and rsv: "reserved m s n evs m'"
      using reserve_fits [OF inv pos known' True] by blast
    obtain m2 where m2: "eviction_spec (enrolled m s) (additional_blocks_for m s n) s evs m2"
        "kv_inv m'" "keys (km_tables m') = keys (km_tables m2)"
      using rsv by (auto simp: reserved_def)
    have "kv_known m2 = kv_known (enrolled m s)"
      using m2(1) by (auto simp: eviction_spec_def evicted_tables_def kv_known_keys)
    then have "kv_known m' = insert s (kv_known m)"
      using m2(3) by (simp add: kv_known_keys [symmetric] kv_known_enrolled)
        (simp add: kv_known_keys)
    moreover have "set evs \<subseteq> kv_known m - {s}"
    proof
      fix v assume "v \<in> set evs"
      then have "evictable (enrolled m s) s v"
        using m2(1) by (simp add: eviction_spec_def)
      then have "v \<noteq> s" "v \<in> kv_known (enrolled m s)"
        by (auto simp: evictable_def blocks_held_def kv_known_iff split: option.splits)
      then show "v \<in> kv_known m - {s}"
        by (simp add: kv_known_enrolled)
    qed
    ultimately show ?thesis
      using res m2(2) by simp
  next
    case False
    then show ?thesis
      using reserve_refused [OF inv pos known'] enrolled_facts(1) [OF inv, of s]
      by (simp add: kv_known_enrolled AdmissionOutcome_def)
  qed
qed

interpretation kvc: sequence_cache kv_inv kv_known admit KV_Cache.extend kv_release
proof unfold_locales
  fix m n s
  assume "kv_inv m"
  then obtain m' where m': "kv_release m s = Inr m'" "kv_inv m'"
      "\<And>x. map_of (km_tables m') x = (if x = s then None else map_of (km_tables m) x)"
    by (rule kv_release_ok) blast
  moreover have "kv_known m' = kv_known m - {s}"
    using m'(3) by (auto simp: kv_known_iff set_eq_iff split: if_splits)
  ultimately show "\<exists>m'. kv_release m s = Inr m' \<and> kv_inv m' \<and> kv_known m' = kv_known m - {s}"
    by blast
next
  fix m :: kv_manager and n s :: int
  assume "kv_inv m" "0 < n"
  then show "\<exists>out m'. admit m s n = Inr (out, m') \<and> kv_inv m' \<and> kv_known m' = insert s (kv_known m)
      \<and> set (ao_preempted out) \<subseteq> kv_known m - {s}"
    unfolding admit_def by (rule kv_reserve_ok) simp
next
  fix m :: kv_manager and n s :: int
  assume *: "kv_inv m" "0 < n" "s \<in> kv_known m"
  then have "insert s (kv_known m) = kv_known m" by blast
  with kv_reserve_ok [OF *(1,2), of False s] *(3)
  show "\<exists>out m'. KV_Cache.extend m s n = Inr (out, m') \<and> kv_inv m' \<and> kv_known m' = kv_known m
      \<and> set (ao_preempted out) \<subseteq> kv_known m - {s}"
    unfolding extend_def by simp
qed

end
