(* ===== verification/Continuous_Invariant.thy ===== *)
theory Continuous_Invariant
  imports Continuous Sequence_Cache Batcher_Invariant
begin

text \<open>
  The invariant of the continuous scheduler. It is stated with a parameter \<open>n\<close>, the number
  of sequences started in the current pass and not yet counted as admissions, and \<open>h\<close>, the
  requests \<open>_admit\<close> has in a local variable, so that the same predicate serves inside
  \<open>_admit\<close> and, with \<open>0\<close> and \<open>{#}\<close>, between passes.
\<close>

section \<open>The invariant\<close>

abbreviation row_ids :: "(request \<times> sequence_state) list \<Rightarrow> int list" where
  "row_ids running \<equiv> map (\<lambda>p. ss_id (snd p)) running"

definition rows_ok :: "'r continuous_batcher \<Rightarrow> bool" where
  "rows_ok st \<longleftrightarrow> 0 < co_max_batch st \<and> co_max_batch st \<le> co_capacity st
     \<and> distinct (row_ids (co_running st)) \<and> (\<forall>i \<in> set (row_ids (co_running st)). i < co_next_id st)
     \<and> int (length (co_running st)) \<le> co_max_batch st"

definition cache_ok :: "'r continuous_batcher \<Rightarrow> bool" where
  "cache_ok st \<longleftrightarrow> (\<forall>m. co_cache st = Some m \<longrightarrow>
     kv_inv m \<and> set (row_ids (co_running st)) \<subseteq> kv_known m)"

abbreviation deferred_mset :: "'a option \<Rightarrow> 'a multiset" where
  "deferred_mset d \<equiv> (case d of None \<Rightarrow> {#} | Some r \<Rightarrow> {#r#})"

definition conserved :: "request multiset \<Rightarrow> 'r continuous_batcher \<Rightarrow> bool" where
  "conserved h st \<longleftrightarrow>
     mset (co_taken st) = mset (map fst (co_settled st)) + mset (map fst (co_running st))
       + deferred_mset (co_deferred st) + h
     \<and> map unstamped (co_taken st) @ queued_requests (co_queue st) = co_accepted st
     \<and> (\<forall>r \<in> set (queued_requests (co_queue st)). rq_dequeued_at r = None)"

definition stats_ok :: "nat \<Rightarrow> 'r continuous_batcher \<Rightarrow> bool" where
  "stats_ok n st \<longleftrightarrow> (let cs = co_stats st in
     cs_admissions cs + int n = cs_completions cs + cs_preempted cs + int (length (co_running st))
     \<and> int (length (co_settled st))
         = cs_completions cs + cs_preempted cs + cs_expired cs + cs_rejected cs
     \<and> 0 \<le> cs_decode_steps cs \<and> cs_decode_steps cs \<le> cs_occupied_rows cs
     \<and> cs_occupied_rows cs \<le> cs_available_rows cs
     \<and> cs_available_rows cs = cs_decode_steps cs * co_max_batch st
     \<and> cs_max_observed_batch cs \<le> co_max_batch st)"

text \<open>Every running sequence is its request's, and a request asks for at least one token.\<close>

definition owned :: "'r continuous_batcher \<Rightarrow> bool" where
  "owned st \<longleftrightarrow> (\<forall>(r, s) \<in> set (co_running st).
       ss_generation s = rq_generation r \<and> ss_prompt s = rq_prompt r \<and> \<not> finished s)
     \<and> (\<forall>r \<in> set (queued_requests (co_queue st)) \<union> set_option (co_deferred st).
          generation_ok (rq_generation r))"

definition co_inv :: "nat \<Rightarrow> request multiset \<Rightarrow> 'r continuous_batcher \<Rightarrow> bool" where
  "co_inv n h st \<longleftrightarrow> rows_ok st \<and> cache_ok st \<and> conserved h st \<and> stats_ok n st \<and> owned st
     \<and> metrics_ok (co_metrics st)"

lemma co_invD:
  assumes "co_inv n h st"
  shows "rows_ok st" "cache_ok st" "conserved h st" "stats_ok n st" "owned st"
    "metrics_ok (co_metrics st)"
  using assms by (simp_all add: co_inv_def)

section \<open>Freeing rows\<close>

definition cache_minus :: "int set \<Rightarrow> kv_manager option \<Rightarrow> kv_manager option \<Rightarrow> bool" where
  "cache_minus ids c c' \<longleftrightarrow>
     (case c of None \<Rightarrow> c' = None
      | Some m \<Rightarrow> \<exists>m'. c' = Some m' \<and> kv_inv m' \<and> kv_known m' = kv_known m - ids)"

lemma free_row_ok:
  assumes "\<forall>m. co_cache st = Some m \<longrightarrow> kv_inv m" "metrics_ok (co_metrics st)"
  obtains c m where "free_row env tally (r, s) st = Inr (st\<lparr>
      co_runner := ro_evict (ce_ops env) (ss_id s) (co_runner st), co_stats := tally (co_stats st),
      co_cache := c, co_metrics := m, co_settled := co_settled st @ [(r, Completed s)]\<rparr>)"
    "cache_minus {ss_id s} (co_cache st) c" "metrics_ok m"
proof -
  obtain c where c: "cache_minus {ss_id s} (co_cache st) c"
      "rbind (case co_cache st of None \<Rightarrow> Inr None
              | Some m \<Rightarrow> rbind (kv_release m (ss_id s)) (\<lambda>m. Inr (Some m))) Inr = Inr c"
  proof (cases "co_cache st")
    case None
    then show thesis
      by (intro that [of None]) (simp_all add: cache_minus_def)
  next
    case (Some m)
    then have "kv_inv m"
      using assms(1) by simp
    then obtain m' where "kv_release m (ss_id s) = Inr m'" "kv_inv m'"
        "kv_known m' = kv_known m - {ss_id s}"
      by (rule kvc.forget_step [of _ "{}"]) auto
    with Some show thesis
      by (intro that [of "Some m'"]) (simp_all add: cache_minus_def)
  qed
  show thesis
    by (rule that [where c = c
        and m = "if ce_complete_raises env r s then record_failed (co_metrics st) else co_metrics st"])
      (use c assms(2) in \<open>auto simp: free_row_def upd_stats_def upd_metrics_def Let_def rbind_eq_Inr
         cache_minus_def split: option.splits\<close>)
qed

lemma cache_minus_trans:
  "cache_minus a c c1 \<Longrightarrow> cache_minus b c1 c2 \<Longrightarrow> cache_minus (a \<union> b) c c2"
  by (auto simp: cache_minus_def split: option.splits)

lemma free_rows_ok:
  assumes "\<forall>m. co_cache st = Some m \<longrightarrow> kv_inv m" "metrics_ok (co_metrics st)"
  obtains c m where "rfold (free_row env tally) ps st = Inr (st\<lparr>
      co_runner := fold (ro_evict (ce_ops env)) (row_ids ps) (co_runner st),
      co_stats := (tally ^^ length ps) (co_stats st),
      co_cache := c, co_metrics := m,
      co_settled := co_settled st @ map (\<lambda>(r, s). (r, Completed s)) ps\<rparr>)"
    "cache_minus (set (row_ids ps)) (co_cache st) c" "metrics_ok m"
  using assms
proof (induction ps arbitrary: st thesis)
  case Nil
  show ?case
    by (rule Nil.prems(1) [where c = "co_cache st" and m = "co_metrics st"])
      (use Nil.prems(2,3) in \<open>auto simp: cache_minus_def split: option.splits\<close>)
next
  case (Cons p ps)
  obtain r s where p: "p = (r, s)" by (cases p)
  obtain c1 m1 where 1: "free_row env tally (r, s) st = Inr (st\<lparr>
      co_runner := ro_evict (ce_ops env) (ss_id s) (co_runner st), co_stats := tally (co_stats st),
      co_cache := c1, co_metrics := m1, co_settled := co_settled st @ [(r, Completed s)]\<rparr>)" (is "_ = Inr ?st1")
    "cache_minus {ss_id s} (co_cache st) c1" "metrics_ok m1"
    by (rule free_row_ok [OF Cons.prems(2,3)])
  have kv1: "\<forall>m. co_cache ?st1 = Some m \<longrightarrow> kv_inv m" "metrics_ok (co_metrics ?st1)"
    using 1(2,3) by (auto simp: cache_minus_def split: option.splits)
  obtain c m where 2: "rfold (free_row env tally) ps ?st1 = Inr (?st1\<lparr>
      co_runner := fold (ro_evict (ce_ops env)) (row_ids ps) (co_runner ?st1),
      co_stats := (tally ^^ length ps) (co_stats ?st1),
      co_cache := c, co_metrics := m,
      co_settled := co_settled ?st1 @ map (\<lambda>(r, s). (r, Completed s)) ps\<rparr>)"
    "cache_minus (set (row_ids ps)) (co_cache ?st1) c" "metrics_ok m"
    by (rule Cons.IH [OF _ kv1])
  show ?case
  proof (rule Cons.prems(1) [where c = c and m = m])
    have "(tally ^^ length ps) (tally x) = (tally ^^ length (p # ps)) x" for x
      by (simp add: funpow_swap1)
    then show "rfold (free_row env tally) (p # ps) st = Inr (st\<lparr>
        co_runner := fold (ro_evict (ce_ops env)) (row_ids (p # ps)) (co_runner st),
        co_stats := (tally ^^ length (p # ps)) (co_stats st), co_cache := c, co_metrics := m,
        co_settled := co_settled st @ map (\<lambda>(r, s). (r, Completed s)) (p # ps)\<rparr>)"
      using 1(1) 2(1) by (simp add: p)
    show "cache_minus (set (row_ids (p # ps))) (co_cache st) c"
      using cache_minus_trans [OF 1(2)] 2(2) by (simp add: p)
  qed (fact 2(3))
qed

text \<open>The fields a step leaves alone.\<close>

definition same_frame :: "'r continuous_batcher \<Rightarrow> 'r continuous_batcher \<Rightarrow> bool" where
  "same_frame st st' \<longleftrightarrow> co_max_batch st' = co_max_batch st \<and> co_capacity st' = co_capacity st
     \<and> co_queue st' = co_queue st \<and> co_stopping st' = co_stopping st \<and> co_closed st' = co_closed st
     \<and> co_accepted st' = co_accepted st \<and> co_taken st' = co_taken st"

lemma same_frame_refl [simp]: "same_frame st st"
  by (simp add: same_frame_def)

lemma same_frame_trans [trans]: "same_frame a b \<Longrightarrow> same_frame b c \<Longrightarrow> same_frame a c"
  by (simp add: same_frame_def)

lemma tally_pow:
  "(count_preempted ^^ n) cs = cs\<lparr>cs_preempted := cs_preempted cs + int n\<rparr>"
  "(count_completion ^^ n) cs = cs\<lparr>cs_completions := cs_completions cs + int n\<rparr>"
  by (induction n) (simp_all add: count_preempted_def count_completion_def)

lemma mset_split_filter:
  "mset (map f (filter P xs)) + mset (map f (filter (\<lambda>x. \<not> P x) xs)) = mset (map f xs)"
  by (induction xs) auto

lemma length_split_filter:
  "length (filter P xs) + length (filter (\<lambda>x. \<not> P x) xs) = length xs"
  by (induction xs) auto

text \<open>What \<open>_evict_preempted\<close> and \<open>_retire\<close> share.\<close>

definition remove_rows where
  "remove_rows env tally P st =
     rbind (rfold (free_row env tally) (filter P (co_running st)) st)
       (\<lambda>st'. Inr (st'\<lparr>co_running := filter (\<lambda>p. \<not> P p) (co_running st)\<rparr>))"

lemma evict_preempted_rows:
  "evict_preempted env ids = remove_rows env count_preempted (\<lambda>p. ss_id (snd p) \<in> set ids)"
  by (simp add: fun_eq_iff evict_preempted_def remove_rows_def case_prod_beta')

lemma retire_rows: "retire env = remove_rows env count_completion (\<lambda>p. finished (snd p))"
  by (simp add: fun_eq_iff retire_def remove_rows_def case_prod_beta')

lemma stats_ok_leave:
  assumes "stats_ok n st" "tally = count_preempted \<or> tally = count_completion"
    and "co_stats st' = (tally ^^ k) (co_stats st)" "length (co_running st') + k = length (co_running st)"
    and "length (co_settled st') = length (co_settled st) + k" "co_max_batch st' = co_max_batch st"
  shows "stats_ok n st'"
proof -
  have "int (length (co_running st)) = int (length (co_running st')) + int k"
    using assms(4) by linarith
  with assms show ?thesis
    by (auto simp: stats_ok_def Let_def tally_pow)
qed

text \<open>
  The invariant, except that only the sequences outside \<open>P\<close> must be unfinished: between
  \<open>decode_step\<close> and \<open>_retire\<close> the running set holds finished ones.
\<close>

definition co_inv_but :: "(request \<times> sequence_state \<Rightarrow> bool) \<Rightarrow> nat \<Rightarrow> request multiset
    \<Rightarrow> 'r continuous_batcher \<Rightarrow> bool" where
  "co_inv_but P n h st \<longleftrightarrow> rows_ok st \<and> cache_ok st \<and> conserved h st \<and> stats_ok n st
     \<and> owned (st\<lparr>co_running := filter (\<lambda>p. \<not> P p) (co_running st)\<rparr>) \<and> metrics_ok (co_metrics st)"

lemma co_inv_but: "co_inv n h st \<Longrightarrow> co_inv_but P n h st"
  by (auto simp: co_inv_def co_inv_but_def owned_def)

lemma co_inv_but_none: "co_inv_but (\<lambda>_. False) n h st = co_inv n h st"
  by (simp add: co_inv_def co_inv_but_def owned_def)

lemma remove_rows_but_ok:
  fixes st :: "'r continuous_batcher"
  assumes inv: "co_inv_but (\<lambda>p. P p \<or> Q p) n h st" and tally: "tally = count_preempted \<or> tally = count_completion"
  obtains st' where "remove_rows env tally P st = Inr st'" "co_inv_but Q n h st'" "same_frame st st'"
    "co_running st' = filter (\<lambda>p. \<not> P p) (co_running st)"
    "co_deferred st' = co_deferred st" "co_next_id st' = co_next_id st"
    "co_settled st' = co_settled st @ map (\<lambda>(r, s). (r, Completed s)) (filter P (co_running st))"
    "co_runner st' = fold (ro_evict (ce_ops env)) (row_ids (filter P (co_running st))) (co_runner st)"
    "cache_minus (set (row_ids (filter P (co_running st)))) (co_cache st) (co_cache st')"
proof -
  let ?ps = "filter P (co_running st)" and ?rest = "filter (\<lambda>p. \<not> P p) (co_running st)"
  have I: "rows_ok st" "cache_ok st" "conserved h st" "stats_ok n st"
      "owned (st\<lparr>co_running := filter (\<lambda>p. \<not> Q p) ?rest\<rparr>)" "metrics_ok (co_metrics st)"
    using inv by (simp_all add: co_inv_but_def conj_commute)
  have kv: "\<forall>m. co_cache st = Some m \<longrightarrow> kv_inv m"
    using I(2) by (simp add: cache_ok_def)
  obtain c m where st1: "rfold (free_row env tally) ?ps st = Inr (st\<lparr>
      co_runner := fold (ro_evict (ce_ops env)) (row_ids ?ps) (co_runner st),
      co_stats := (tally ^^ length ?ps) (co_stats st), co_cache := c, co_metrics := m,
      co_settled := co_settled st @ map (\<lambda>(r, s). (r, Completed s)) ?ps\<rparr>)"
    and c: "cache_minus (set (row_ids ?ps)) (co_cache st) c" and m: "metrics_ok m"
    by (rule free_rows_ok [OF kv I(6)])
  let ?st = "st\<lparr>co_runner := fold (ro_evict (ce_ops env)) (row_ids ?ps) (co_runner st),
      co_stats := (tally ^^ length ?ps) (co_stats st), co_cache := c, co_metrics := m,
      co_settled := co_settled st @ map (\<lambda>(r, s). (r, Completed s)) ?ps, co_running := ?rest\<rparr>"
  have dist: "distinct (row_ids (co_running st))"
    using I(1) by (simp add: rows_ok_def)
  have apart: "set (row_ids ?rest) \<inter> set (row_ids ?ps) = {}"
    using dist by (auto simp: distinct_map dest: inj_onD)
  have "int (length ?rest) \<le> int (length (co_running st))"
    by simp
  then have "int (length ?rest) \<le> co_max_batch st"
    using I(1) unfolding rows_ok_def by linarith
  then have "rows_ok ?st"
    using I(1) dist by (auto simp: rows_ok_def distinct_map intro: inj_on_subset)
  moreover have "cache_ok ?st"
  proof (cases "co_cache st")
    case None
    then show ?thesis
      using c by (simp add: cache_ok_def cache_minus_def)
  next
    case (Some m0)
    then obtain m' where m': "c = Some m'" "kv_inv m'" "kv_known m' = kv_known m0 - set (row_ids ?ps)"
      using c by (auto simp: cache_minus_def)
    have "set (row_ids ?rest) \<subseteq> set (row_ids (co_running st))"
      by auto
    also have "\<dots> \<subseteq> kv_known m0"
      using I(2) Some by (simp add: cache_ok_def)
    finally have "set (row_ids ?rest) \<subseteq> kv_known m'"
      using apart m'(3) by blast
    then show ?thesis
      using m'(1,2) by (simp add: cache_ok_def)
  qed
  moreover have "conserved h ?st"
  proof -
    have 1: "mset (map fst (co_settled st @ map (\<lambda>(r, s). (r, Completed s)) ?ps))
        = mset (map fst (co_settled st)) + mset (map fst ?ps)"
      by (simp add: case_prod_beta' comp_def)
    have 2: "mset (co_taken st) = mset (map fst (co_settled st)) + mset (map fst (co_running st))
        + deferred_mset (co_deferred st) + h"
      using I(3) by (simp add: conserved_def)
    have 3: "mset (co_taken st) = mset (map fst (co_settled st @ map (\<lambda>(r, s). (r, Completed s)) ?ps))
        + mset (map fst ?rest) + deferred_mset (co_deferred st) + h"
      unfolding 1 2 mset_split_filter [of fst P "co_running st", symmetric]
      by (simp only: add.assoc)
    have 4: "map unstamped (co_taken st) @ queued_requests (co_queue st) = co_accepted st"
        "\<forall>r \<in> set (queued_requests (co_queue st)). rq_dequeued_at r = None"
      using I(3) by (simp_all add: conserved_def)
    show ?thesis
      unfolding conserved_def
      by (intro conjI) (simp_all add: 3 4 del: map_append mset_append mset_map)
  qed
  moreover have "stats_ok n ?st"
    by (rule stats_ok_leave [OF I(4) tally, where k = "length ?ps"])
      (use length_split_filter [of P "co_running st"] in simp_all)
  moreover have "owned (?st\<lparr>co_running := filter (\<lambda>p. \<not> Q p) ?rest\<rparr>)"
    using I(5) by (simp add: owned_def)
  ultimately have "co_inv_but Q n h ?st"
    using m by (simp add: co_inv_but_def)
  moreover have "remove_rows env tally P st = Inr ?st"
    using st1 by (simp add: remove_rows_def)
  ultimately show thesis
    using c by (intro that [of ?st]) (simp_all add: same_frame_def)
qed

lemma remove_rows_ok:
  fixes st :: "'r continuous_batcher"
  assumes inv: "co_inv_but P n h st" and tally: "tally = count_preempted \<or> tally = count_completion"
  obtains st' where "remove_rows env tally P st = Inr st'" "co_inv n h st'" "same_frame st st'"
    "co_running st' = filter (\<lambda>p. \<not> P p) (co_running st)"
    "co_deferred st' = co_deferred st" "co_next_id st' = co_next_id st"
    "co_settled st' = co_settled st @ map (\<lambda>(r, s). (r, Completed s)) (filter P (co_running st))"
    "co_runner st' = fold (ro_evict (ce_ops env)) (row_ids (filter P (co_running st))) (co_runner st)"
    "cache_minus (set (row_ids (filter P (co_running st)))) (co_cache st) (co_cache st')"
proof (rule remove_rows_but_ok [where Q = "\<lambda>_. False" and P = P, OF _ tally])
  show "co_inv_but (\<lambda>p. P p \<or> False) n h st"
    using inv by simp
qed (unfold co_inv_but_none, rule that)

section \<open>What is still owed\<close>

text \<open>
  The measure of remaining work: tokens owed to queued, deferred and running requests,
  plus the length of the queue.
\<close>

definition tokens_of :: "request \<Rightarrow> nat" where
  "tokens_of r = nat (gc_max_new_tokens (rq_generation r))"

definition owed_rows :: "(request \<times> sequence_state) list \<Rightarrow> nat" where
  "owed_rows running = sum_list (map (\<lambda>p. nat (remaining (snd p))) running)"

definition potential :: "'r continuous_batcher \<Rightarrow> nat" where
  "potential st = sum_list (map tokens_of (queued_requests (co_queue st)))
     + (case co_deferred st of None \<Rightarrow> 0 | Some r \<Rightarrow> tokens_of r)
     + owed_rows (co_running st) + length (co_queue st)"

lemma owed_rows_simps [simp]:
  "owed_rows [] = 0" "owed_rows (p # ps) = nat (remaining (snd p)) + owed_rows ps"
  "owed_rows (ps @ qs) = owed_rows ps + owed_rows qs"
  by (simp_all add: owed_rows_def)

lemma owed_rows_filter: "owed_rows (filter P ps) \<le> owed_rows ps"
  by (induction ps) auto

lemma tokens_of_pos: "generation_ok (rq_generation r) \<Longrightarrow> 0 < tokens_of r"
  by (simp add: generation_ok_def tokens_of_def)

section \<open>Admission\<close>

text \<open>Starting a row under a fresh id.\<close>

lemma SequenceState_fields [simp]:
  "ss_id (SequenceState i p g) = i" "ss_prompt (SequenceState i p g) = p"
  "ss_generation (SequenceState i p g) = g" "ss_tokens (SequenceState i p g) = []"
  "\<not> ss_stopped_early (SequenceState i p g)"
  by (simp_all add: SequenceState_def)

lemma SequenceState_unfinished [simp]:
  "generation_ok g \<Longrightarrow> \<not> finished (SequenceState i p g)"
  by (simp add: finished_def generated_def generation_ok_def)

text \<open>A request in hand: taken, neither settled nor running nor deferred.\<close>

definition in_hand_inv :: "nat \<Rightarrow> request \<Rightarrow> 'r continuous_batcher \<Rightarrow> bool" where
  "in_hand_inv n r st \<longleftrightarrow>
     co_inv n {#r#} st \<and> co_deferred st = None \<and> generation_ok (rq_generation r)"

lemma start_row_ok:
  assumes inv: "in_hand_inv n r st" and room: "int (length (co_running st)) < co_max_batch st"
    and fresh: "i < co_next_id st" "i \<notin> set (row_ids (co_running st))"
    and cache: "\<forall>m. co_cache st = Some m \<longrightarrow> i \<in> kv_known m"
  shows "co_inv (Suc n) {#}
    (snd (snd (start_row r (SequenceState i (rq_prompt r) (rq_generation r)) adm st)))"
  using inv room fresh cache
  by (auto simp: in_hand_inv_def start_row_def co_inv_def rows_ok_def cache_ok_def conserved_def
      stats_ok_def owned_def Let_def)

lemma in_hand_fresh:
  "in_hand_inv n r st \<Longrightarrow> in_hand_inv n r (st\<lparr>co_next_id := co_next_id st + 1\<rparr>)"
  by (auto simp: in_hand_inv_def co_inv_def rows_ok_def cache_ok_def conserved_def stats_ok_def
      owned_def)

lemma in_hand_bump:
  assumes "in_hand_inv n r st"
    and cache: "\<forall>m. co_cache st = Some m \<longrightarrow> (\<exists>m'. c = Some m' \<and> kv_inv m' \<and> kv_known m \<subseteq> kv_known m')"
    "co_cache st = None \<longrightarrow> c = None"
  shows "in_hand_inv n r (st\<lparr>co_next_id := co_next_id st + 1, co_cache := c\<rparr>)"
proof -
  have "cache_ok (st\<lparr>co_next_id := co_next_id st + 1, co_cache := c\<rparr>)"
    using assms by (cases "co_cache st") (auto simp: cache_ok_def in_hand_inv_def co_inv_def)
  with assms(1) show ?thesis
    by (auto simp: in_hand_inv_def co_inv_def rows_ok_def conserved_def stats_ok_def owned_def)
qed

lemma refusal_counted:
  assumes "in_hand_inv n r st"
  shows "in_hand_inv n r (upd_stats (\<lambda>cs. cs\<lparr>cs_cache_refusals := cs_cache_refusals cs + 1\<rparr>) st)"
  using assms
  by (auto simp: upd_stats_def in_hand_inv_def co_inv_def rows_ok_def cache_ok_def conserved_def
      stats_ok_def owned_def Let_def)

lemma reject_ok:
  assumes "in_hand_inv n r st"
  shows "co_inv n {#} (reject env r st)" "same_frame st (reject env r st)"
    "co_deferred (reject env r st) = None" "co_running (reject env r st) = co_running st"
proof -
  show "co_inv n {#} (reject env r st)"
    using assms
    by (auto simp: reject_def upd_stats_def in_hand_inv_def co_inv_def rows_ok_def cache_ok_def
        conserved_def stats_ok_def owned_def Let_def intro: less_trans [of _ "co_next_id st"])
qed (use assms in \<open>auto simp: reject_def upd_stats_def same_frame_def in_hand_inv_def Let_def\<close>)

lemma defer_ok:
  assumes "in_hand_inv n r st"
  shows "co_inv n {#} (st\<lparr>co_deferred := Some r\<rparr>)"
  using assms
  by (auto simp: in_hand_inv_def co_inv_def rows_ok_def cache_ok_def conserved_def stats_ok_def
      owned_def)

text \<open>
  The sequences in \<open>admitted\<close> are the same objects as those in the running set; one that
  was preempted again is in \<open>admitted\<close> alone. The last one started is always running.
\<close>

definition linked :: "sequence_state list \<Rightarrow> 'r continuous_batcher \<Rightarrow> bool" where
  "linked adm st \<longleftrightarrow> (adm \<noteq> [] \<longrightarrow> co_running st \<noteq> [])
     \<and> (\<forall>s \<in> set adm. ss_id s < co_next_id st
          \<and> (\<forall>p \<in> set (co_running st). ss_id (snd p) = ss_id s \<longrightarrow> snd p = s))"

lemma linked_Nil [simp]: "linked [] st"
  by (simp add: linked_def)

lemma linked_cong:
  "linked adm st \<Longrightarrow> co_running st' = co_running st \<Longrightarrow> co_next_id st \<le> co_next_id st' \<Longrightarrow>
     linked adm st'"
  by (auto simp: linked_def)

lemma offer_ok:
  assumes inv: "in_hand_inv (length adm) r st"
    and room: "int (length (co_running st)) < co_max_batch st"
    and est: "0 < ce_estimate env (rq_prompt r)"
    and busy: "linked adm st"
  obtains go_on adm' st' where "offer_to_cache env r adm st = Inr (go_on, adm', st')"
    "co_inv (length adm') {#} st'" "same_frame st st'" "go_on \<longrightarrow> co_deferred st' = None"
    "adm' = [] \<longrightarrow> co_running st' = co_running st"
    "linked adm' st'" "\<not> go_on \<longrightarrow> co_running st' \<noteq> []"
    "potential st' \<le> potential st + tokens_of r"
    "co_running st' = [] \<longrightarrow> potential st' \<le> potential st"
proof -
  let ?i = "co_next_id st"
  let ?s = "SequenceState ?i (rq_prompt r) (rq_generation r)"
  have ids: "?i \<notin> set (row_ids (co_running st))" "\<forall>i \<in> set (row_ids (co_running st)). i < ?i"
    using inv by (auto simp: in_hand_inv_def co_inv_def rows_ok_def)
  have dn: "co_deferred st = None"
    using inv by (simp add: in_hand_inv_def)
  have rem: "nat (remaining ?s) \<le> tokens_of r"
    by (simp add: remaining_def tokens_of_def generated_def)
  show thesis
  proof (cases "co_cache st")
    case None
    let ?st0 = "st\<lparr>co_next_id := ?i + 1\<rparr>"
    have off: "offer_to_cache env r adm st = Inr (start_row r ?s adm ?st0)"
      by (simp add: offer_to_cache_def Let_def None)
    have "in_hand_inv (length adm) r ?st0"
      by (rule in_hand_fresh [OF inv])
    from start_row_ok [OF this, of ?i adm] room ids None
    have "co_inv (Suc (length adm)) {#} (snd (snd (start_row r ?s adm ?st0)))"
      by simp
    then show thesis
      by (intro that [OF off [unfolded start_row_def]])
        (use dn rem busy ids in \<open>auto simp: start_row_def same_frame_def potential_def linked_def\<close>)
  next
    case (Some m)
    have "kv_inv m"
      using inv Some by (auto simp: in_hand_inv_def co_inv_def cache_ok_def)
    then obtain out m' where adm: "admit m ?i (ce_estimate env (rq_prompt r)) = Inr (out, m')"
        and m': "kv_inv m'" "kv_known m' = insert ?i (kv_known m)"
      by (rule kvc.enrol_step [OF _ est, of _ _ "{}"]) auto
    let ?st0 = "st\<lparr>co_next_id := ?i + 1, co_cache := Some m'\<rparr>"
    let ?refuse = "upd_stats (\<lambda>cs. cs\<lparr>cs_cache_refusals := cs_cache_refusals cs + 1\<rparr>) ?st0"
    have inv0: "in_hand_inv (length adm) r ?st0"
      by (rule in_hand_bump [OF inv]) (use Some m' in auto)
    note ref = refusal_counted [OF inv0]
    have ref_eqs: "same_frame st ?refuse" "co_running ?refuse = co_running st" "same_frame st ?st0"
      by (simp_all add: upd_stats_def same_frame_def)
    show thesis
    proof (cases "outcome_ok out")
      case False
      show thesis
      proof (cases "co_running st = [] \<and> adm = []")
        case True
        have off: "offer_to_cache env r adm st = Inr (True, adm, reject env r ?refuse)"
          using Some adm False True by (simp add: offer_to_cache_def Let_def upd_stats_def)
        note R = reject_ok [OF ref, of env]
        have sf: "same_frame st (reject env r ?refuse)"
          by (rule same_frame_trans [OF ref_eqs(1) R(2)])
        show thesis
          by (rule that [OF off])
            (use R sf ref_eqs(2) True dn in \<open>simp_all add: potential_def same_frame_def linked_def\<close>)
      next
        case busy: False
        have off: "offer_to_cache env r adm st = Inr (False, adm, ?refuse\<lparr>co_deferred := Some r\<rparr>)"
          using Some adm False busy by (auto simp: offer_to_cache_def Let_def upd_stats_def)
        show thesis
          by (rule that [OF off]) (use defer_ok [OF ref] busy assms(4) in
            \<open>auto simp: same_frame_def upd_stats_def potential_def linked_def dn\<close>)
      qed
    next
      case True
      have "\<exists>st1. (if ao_preempted out = [] then Inr ?st0 else evict_preempted env (ao_preempted out) ?st0)
            = Inr st1 \<and> in_hand_inv (length adm) r st1 \<and> same_frame ?st0 st1
          \<and> co_next_id st1 = ?i + 1 \<and> set (co_running st1) \<subseteq> set (co_running st)
          \<and> length (co_running st1) \<le> length (co_running st)
          \<and> owed_rows (co_running st1) \<le> owed_rows (co_running st)
          \<and> (\<forall>m. co_cache st1 = Some m \<longrightarrow> ?i \<in> kv_known m)"
      proof (cases "ao_preempted out = []")
        case True
        then show ?thesis
          using inv0 m'(2) by simp
      next
        case False
        have but: "co_inv_but (\<lambda>p. ss_id (snd p) \<in> set (ao_preempted out)) (length adm) {#r#} ?st0"
          using inv0 by (intro co_inv_but) (simp add: in_hand_inv_def)
        obtain st1 where st1: "evict_preempted env (ao_preempted out) ?st0 = Inr st1"
          "co_inv (length adm) {#r#} st1" "same_frame ?st0 st1"
          "co_running st1 = filter (\<lambda>p. ss_id (snd p) \<notin> set (ao_preempted out)) (co_running st)"
          "co_deferred st1 = None" "co_next_id st1 = ?i + 1"
          "cache_minus (set (row_ids (filter (\<lambda>p. ss_id (snd p) \<in> set (ao_preempted out)) (co_running st))))
             (Some m') (co_cache st1)"
          by (rule remove_rows_ok [OF but, where tally = count_preempted and env = env])
            (use dn in \<open>auto simp: evict_preempted_rows\<close>)
        have "?i \<in> kv_known m1" if "co_cache st1 = Some m1" for m1
          using st1(7) that m'(2) ids(1) by (auto simp: cache_minus_def)
        then show ?thesis
          using False st1 inv
          by (intro exI [of _ st1]) (auto simp: in_hand_inv_def owed_rows_filter)
      qed
      then obtain st1 where st1: "(if ao_preempted out = [] then Inr ?st0
            else evict_preempted env (ao_preempted out) ?st0) = Inr st1"
          "in_hand_inv (length adm) r st1" "same_frame ?st0 st1" "co_next_id st1 = ?i + 1"
          "set (co_running st1) \<subseteq> set (co_running st)"
          "length (co_running st1) \<le> length (co_running st)"
          "owed_rows (co_running st1) \<le> owed_rows (co_running st)"
          "\<forall>m. co_cache st1 = Some m \<longrightarrow> ?i \<in> kv_known m"
        by blast
      have off: "offer_to_cache env r adm st = Inr (start_row r ?s adm st1)"
        using Some adm True st1(1) by (auto simp: offer_to_cache_def Let_def split: if_splits)
      have room1: "int (length (co_running st1)) < co_max_batch st1"
        using room st1(3,6) by (simp add: same_frame_def)
      have link: "linked (adm @ [?s]) (st1\<lparr>co_running := co_running st1 @ [(r, ?s)]\<rparr>)"
      proof -
        have "ss_id (snd p) \<noteq> ?i" if "p \<in> set (co_running st1)" for p
          using that st1(5) ids(2) by fastforce
        then show ?thesis
          using assms(4) st1(4,5) by (fastforce simp: linked_def)
      qed
      have "?i \<notin> set (row_ids (co_running st1))"
        using st1(5) ids(1) by auto
      from start_row_ok [OF st1(2) room1 _ this st1(8), of adm] st1(4)
      have "co_inv (Suc (length adm)) {#} (snd (snd (start_row r ?s adm st1)))"
        by simp
      then show thesis
        by (intro that [OF off [unfolded start_row_def]])
          (use st1(2,3,7) rem dn link in \<open>simp_all add: start_row_def same_frame_def in_hand_inv_def
            potential_def\<close>)
    qed
  qed
qed

lemma dequeue_ok:
  assumes inv: "co_inv n {#} st" and q: "co_queue st = Some r # q" and d: "co_deferred st = None"
    and deq: "dequeue_stamp env r (st\<lparr>co_queue := q\<rparr>) = (r', late, st')"
  shows "late \<longrightarrow> co_inv n {#} st' \<and> potential st' < potential st"
    "\<not> late \<longrightarrow> in_hand_inv n r' st' \<and> potential st' + tokens_of r' < potential st"
    "co_queue st' = q" "co_running st' = co_running st" "co_deferred st' = None"
    "co_max_batch st' = co_max_batch st" "co_capacity st' = co_capacity st"
    "co_accepted st' = co_accepted st" "co_closed st' = co_closed st" "co_stopping st' = co_stopping st"
    "co_next_id st' = co_next_id st"
proof -
  have r: "rq_dequeued_at r = None" "generation_ok (rq_generation r)"
    using co_invD(3,5) [OF inv] q by (simp_all add: conserved_def owned_def)
  have u: "unstamped r = r"
    using r(1) by (cases r) (simp add: unstamped_def)
  note I = co_invD [OF inv]
  have keep: "same_frame (st\<lparr>co_queue := q, co_taken := co_taken st @ [r']\<rparr>) st'"
      "co_running st' = co_running st" "co_deferred st' = None" "co_next_id st' = co_next_id st"
      "co_cache st' = co_cache st" "unstamped r' = r" "rq_generation r' = rq_generation r"
    using deq d u by (auto simp: dequeue_stamp_def Let_def upd_stats_def upd_metrics_def same_frame_def)
  note sf = keep(1) [unfolded same_frame_def, simplified]
  have "rows_ok st'" "cache_ok st'" "owned st'"
    using I(1,2,5) sf keep q by (simp_all add: rows_ok_def cache_ok_def owned_def)
  moreover have "late \<Longrightarrow> conserved {#} st'" "\<not> late \<Longrightarrow> conserved {#r'#} st'"
    using I(3) sf keep q d deq
    by (auto simp: conserved_def dequeue_stamp_def Let_def upd_stats_def upd_metrics_def)
  moreover have "co_stats st' = (if late then (co_stats st)\<lparr>cs_expired := cs_expired (co_stats st) + 1\<rparr>
        else co_stats st)"
      "length (co_settled st') = length (co_settled st) + (if late then 1 else 0)"
      "metrics_ok (co_metrics st') = metrics_ok (co_metrics st)"
    using deq by (auto simp: dequeue_stamp_def Let_def upd_stats_def upd_metrics_def)
  then have "stats_ok n st'" "metrics_ok (co_metrics st')"
    using I(4,6) sf keep by (cases late; simp add: stats_ok_def Let_def)+
  moreover have "potential st' + tokens_of r' < potential st"
    using sf keep q d by (simp add: potential_def tokens_of_def)
  ultimately show "late \<longrightarrow> co_inv n {#} st' \<and> potential st' < potential st"
    "\<not> late \<longrightarrow> in_hand_inv n r' st' \<and> potential st' + tokens_of r' < potential st"
    using r(2) keep(3,7) by (simp_all add: co_inv_def in_hand_inv_def)
qed (use assms in \<open>auto simp: dequeue_stamp_def Let_def upd_stats_def upd_metrics_def\<close>)

lemma note_delay_ok:
  assumes "in_hand_inv n r st"
  obtains st' where "note_delay r st = Inr st'" "in_hand_inv n r st'" "same_frame st st'"
    "co_running st' = co_running st" "potential st' = potential st" "co_next_id st' = co_next_id st"
proof -
  have "metrics_ok (co_metrics st)"
    using assms by (simp add: in_hand_inv_def co_inv_def)
  then obtain m where m: "record_queue_delay (queue_delay r) (co_metrics st) = Inr m" "metrics_ok m"
    by (rule record_queue_delay_ok)
  show thesis
    by (rule that [of "st\<lparr>co_metrics := m\<rparr>"])
      (use assms m in \<open>simp_all add: note_delay_def in_hand_inv_def co_inv_def rows_ok_def cache_ok_def
        conserved_def stats_ok_def owned_def same_frame_def potential_def\<close>)
qed

text \<open>What the loop of \<open>_admit\<close> leaves behind.\<close>

definition admit_post ::
  "'r continuous_batcher \<Rightarrow> sequence_state list \<Rightarrow> 'r continuous_batcher \<Rightarrow> bool" where
  "admit_post st adm' st' \<longleftrightarrow> co_inv (length adm') {#} st'
     \<and> linked adm' st' \<and> (co_deferred st' \<noteq> None \<longrightarrow> co_running st' \<noteq> [])
     \<and> potential st' \<le> potential st
     \<and> (co_running st' = [] \<longrightarrow> potential st' < potential st \<or> co_queue st' = [])
     \<and> (co_closed st \<or> None \<in> set (co_queue st) \<longrightarrow> co_closed st' \<or> None \<in> set (co_queue st'))
     \<and> (co_stopping st \<longrightarrow> co_stopping st')
     \<and> co_max_batch st' = co_max_batch st \<and> co_capacity st' = co_capacity st
     \<and> co_accepted st' = co_accepted st"

lemma admit_post_trans:
  assumes "admit_post st1 adm' st'" and "potential st1 \<le> potential st"
    and "co_closed st \<or> None \<in> set (co_queue st) \<longrightarrow> co_closed st1 \<or> None \<in> set (co_queue st1)"
    and "co_stopping st \<longrightarrow> co_stopping st1" "co_max_batch st1 = co_max_batch st"
    and "co_capacity st1 = co_capacity st" "co_accepted st1 = co_accepted st"
  shows "admit_post st adm' st'"
  using assms by (auto simp: admit_post_def)

lemma deferred_taken:
  assumes "co_inv n {#} st" "co_deferred st = Some r"
  shows "in_hand_inv n r (st\<lparr>co_deferred := None\<rparr>)"
    "potential st = potential (st\<lparr>co_deferred := None\<rparr>) + tokens_of r" "0 < tokens_of r"
proof -
  have "generation_ok (rq_generation r)"
    using co_invD(5) [OF assms(1)] assms(2) by (simp add: owned_def)
  then show "0 < tokens_of r"
    by (rule tokens_of_pos)
  show "in_hand_inv n r (st\<lparr>co_deferred := None\<rparr>)"
    using co_invD [OF assms(1)] assms(2)
    by (auto simp: in_hand_inv_def co_inv_def rows_ok_def cache_ok_def conserved_def stats_ok_def
        owned_def)
qed (use assms(2) in \<open>simp add: potential_def\<close>)

text \<open>The tail of one iteration: an offer, then the rest of the loop.\<close>

lemma offer_then_loop:
  assumes inv: "in_hand_inv (length adm) r st1" and room: "int (length (co_running st1)) < co_max_batch st1"
    and est: "\<And>p. 0 < ce_estimate env p" and busy: "linked adm st1"
    and pot: "potential st1 + tokens_of r \<le> potential st"
    and loop: "\<And>adm' st2. offer_to_cache env r adm st1 = Inr (True, adm', st2) \<Longrightarrow>
      co_inv (length adm') {#} st2 \<Longrightarrow> linked adm' st2 \<Longrightarrow>
      \<exists>adm'' st3. admit_loop env adm' st2 = Inr (adm'', st3) \<and> admit_post st2 adm'' st3"
  shows "\<exists>adm' st'. rbind (offer_to_cache env r adm st1) (\<lambda>(go_on, adm', st').
      if go_on then admit_loop env adm' st' else Inr (adm', st')) = Inr (adm', st')
    \<and> admit_post (st1\<lparr>co_deferred := Some r\<rparr>) adm' st'"
proof -
  obtain go_on adm2 st2 where o: "offer_to_cache env r adm st1 = Inr (go_on, adm2, st2)"
    "co_inv (length adm2) {#} st2" "same_frame st1 st2" "go_on \<longrightarrow> co_deferred st2 = None"
    "adm2 = [] \<longrightarrow> co_running st2 = co_running st1"
    "linked adm2 st2" "\<not> go_on \<longrightarrow> co_running st2 \<noteq> []"
    "potential st2 \<le> potential st1 + tokens_of r"
    "co_running st2 = [] \<longrightarrow> potential st2 \<le> potential st1"
    by (rule offer_ok [OF inv room est busy])
  have d1: "co_deferred st1 = None"
    using inv by (simp add: in_hand_inv_def)
  then have pot1: "potential (st1\<lparr>co_deferred := Some r\<rparr>) = potential st1 + tokens_of r"
    by (simp add: potential_def)
  have frame: "co_max_batch st2 = co_max_batch st1" "co_capacity st2 = co_capacity st1"
    "co_accepted st2 = co_accepted st1" "co_queue st2 = co_queue st1"
    "co_stopping st2 = co_stopping st1" "co_closed st2 = co_closed st1"
    using o(3) by (simp_all add: same_frame_def)
  show ?thesis
  proof (cases go_on)
    case False
    then have "admit_post (st1\<lparr>co_deferred := Some r\<rparr>) adm2 st2"
      using o frame pot1 by (simp add: admit_post_def)
    then show ?thesis
      using False o(1) by simp
  next
    case True
    obtain adm3 st3 where 3: "admit_loop env adm2 st2 = Inr (adm3, st3)" "admit_post st2 adm3 st3"
      using loop [of adm2 st2] o(1,2,6) True by auto
    have "admit_post (st1\<lparr>co_deferred := Some r\<rparr>) adm3 st3"
      by (rule admit_post_trans [OF 3(2)]) (use frame pot1 o(8) in simp_all)
    then show ?thesis
      using True o(1) 3(1) by simp
  qed
qed

lemma admit_loop_ok:
  assumes "\<And>p. 0 < ce_estimate env p"
  shows "co_inv (length adm) {#} st \<Longrightarrow> linked adm st \<Longrightarrow>
    \<exists>adm' st'. admit_loop env adm st = Inr (adm', st') \<and> admit_post st adm' st'"
proof (induction "length (co_queue st) + (if co_deferred st = None then 0 else 1)"
    arbitrary: adm st rule: less_induct)
  case less
  note inv = less.prems(1) and busy = less.prems(2)
  have pos: "0 < co_max_batch st"
    using co_invD(1) [OF inv] by (simp add: rows_ok_def)
  show ?case
  proof (cases "int (length (co_running st)) + int (length adm) < co_max_batch st")
    case False
    then have "co_running st \<noteq> []"
      using pos busy by (auto simp: linked_def)
    then have "admit_post st adm st"
      using inv busy by (simp add: admit_post_def)
    then show ?thesis
      using False by (simp add: admit_loop.simps)
  next
    case room: True
    then have room': "int (length (co_running st)) < co_max_batch st"
      by linarith
    show ?thesis
    proof (cases "co_deferred st")
      case (Some r)
      let ?st1 = "st\<lparr>co_deferred := None\<rparr>"
      note D = deferred_taken [OF inv Some]
      have "\<exists>adm' st'. rbind (offer_to_cache env r adm ?st1) (\<lambda>(go_on, adm', st').
          if go_on then admit_loop env adm' st' else Inr (adm', st')) = Inr (adm', st')
        \<and> admit_post (?st1\<lparr>co_deferred := Some r\<rparr>) adm' st'"
      proof (rule offer_then_loop [OF D(1) _ assms, where st = st])
        fix adm' st2
        assume "offer_to_cache env r adm ?st1 = Inr (True, adm', st2)"
          "co_inv (length adm') {#} st2" "linked adm' st2"
        with offer_to_cache_queue [OF this(1)] Some
        show "\<exists>adm'' st3. admit_loop env adm' st2 = Inr (adm'', st3) \<and> admit_post st2 adm'' st3"
          by (intro less.hyps) simp_all
      qed (use room' busy D(2) in \<open>simp_all add: linked_cong\<close>)
      moreover have "?st1\<lparr>co_deferred := Some r\<rparr> = st"
        using Some by (cases st) simp
      ultimately show ?thesis
        using room Some by (simp add: admit_loop.simps)
    next
      case None
      show ?thesis
      proof (cases "co_queue st")
        case Nil
        then have "admit_post st adm st"
          using inv busy None by (simp add: admit_post_def)
        then show ?thesis
          using room None Nil by (simp add: admit_loop.simps)
      next
        case (Cons x q)
        show ?thesis
        proof (cases x)
          case sentinel: None
          let ?st' = "st\<lparr>co_queue := q, co_stopping := True, co_closed := True\<rparr>"
          have "co_inv (length adm) {#} ?st'"
            using inv Cons sentinel
            by (auto simp: co_inv_def rows_ok_def cache_ok_def conserved_def stats_ok_def owned_def)
          then have "admit_post st adm ?st'"
            using busy None Cons sentinel linked_cong [OF busy, of ?st']
            by (simp add: admit_post_def potential_def)
          then show ?thesis
            using room None Cons sentinel by (simp add: admit_loop.simps)
        next
          case (Some r)
          obtain r' late st1 where deq: "dequeue_stamp env r (st\<lparr>co_queue := q\<rparr>) = (r', late, st1)"
            by (cases "dequeue_stamp env r (st\<lparr>co_queue := q\<rparr>)")
          note qs = Cons [unfolded Some]
          note D = dequeue_ok [OF inv qs None deq]
          show ?thesis
          proof (cases late)
            case True
            have "\<exists>adm' st'. admit_loop env adm st1 = Inr (adm', st') \<and> admit_post st1 adm' st'"
              by (rule less.hyps) (use True D qs None linked_cong [OF busy, of st1] in simp_all)
            then obtain adm' st' where 1: "admit_loop env adm st1 = Inr (adm', st')" "admit_post st1 adm' st'"
              by blast
            have "admit_post st adm' st'"
              by (rule admit_post_trans [OF 1(2)]) (use D True qs in auto)
            then show ?thesis
              using room None qs deq True 1(1) by (simp add: admit_loop.simps)
          next
            case False
            have hand: "in_hand_inv (length adm) r' st1"
              using D(2) False by blast
            obtain st2 where n: "note_delay r' st1 = Inr st2" "in_hand_inv (length adm) r' st2"
              "same_frame st1 st2" "co_running st2 = co_running st1" "potential st2 = potential st1"
              "co_next_id st2 = co_next_id st1"
              by (rule note_delay_ok [OF hand])
            have "\<exists>adm' st'. rbind (offer_to_cache env r' adm st2) (\<lambda>(go_on, adm', st').
                if go_on then admit_loop env adm' st' else Inr (adm', st')) = Inr (adm', st')
              \<and> admit_post (st2\<lparr>co_deferred := Some r'\<rparr>) adm' st'"
            proof (rule offer_then_loop [OF n(2) _ assms, where st = st])
              fix adm' st3
              assume "offer_to_cache env r' adm st2 = Inr (True, adm', st3)"
                "co_inv (length adm') {#} st3" "linked adm' st3"
              moreover have "co_deferred st2 = None" "co_queue st2 = q"
                using n(2,3) D(3) by (simp_all add: in_hand_inv_def same_frame_def)
              ultimately show "\<exists>adm'' st4. admit_loop env adm' st3 = Inr (adm'', st4) \<and> admit_post st3 adm'' st4"
                using offer_to_cache_queue [of env r' adm st2 True adm' st3] qs
                by (intro less.hyps) simp_all
            qed (use room' linked_cong [OF busy, of st2] D False n in \<open>auto simp: same_frame_def\<close>)
            then obtain adm' st' where 2: "rbind (offer_to_cache env r' adm st2) (\<lambda>(go_on, adm', st').
                if go_on then admit_loop env adm' st' else Inr (adm', st')) = Inr (adm', st')"
              "admit_post (st2\<lparr>co_deferred := Some r'\<rparr>) adm' st'"
              by blast
            have "co_deferred st2 = None"
              using n(2) by (simp add: in_hand_inv_def)
            then have "potential (st2\<lparr>co_deferred := Some r'\<rparr>) \<le> potential st"
              using D(2) False n(5) by (simp add: potential_def)
            then have "admit_post st adm' st'"
              by (intro admit_post_trans [OF 2(2)]) (use D n(3) qs in \<open>auto simp: same_frame_def\<close>)
            then show ?thesis
              using room None qs deq False n(1) 2(1) by (simp add: admit_loop.simps)
          qed
        qed
      qed
    qed
  qed
qed

end
