(* ===== verification/Continuous_Pass.thy ===== *)
theory Continuous_Pass
  imports Continuous_Invariant
begin

text \<open>
  One pass of the scheduler over a runner that keeps the step-wise contract: what the runner
  holds is what the scheduler thinks it holds, every part of a pass returns, the invariant is
  restored, and the work that is left shrinks.
\<close>

section \<open>The loop of \<open>_admit\<close>\<close>

text \<open>
  A property of the sequences admitted and the state survives the loop if every way through
  its body keeps it. \<open>H\<close> is what holds while a request is in hand.
\<close>

abbreviation loop_size :: "'r continuous_batcher \<Rightarrow> nat" where
  "loop_size st \<equiv> length (co_queue st) + (if co_deferred st = None then 0 else 1)"

lemma admit_loop_keeps:
  fixes I :: "sequence_state list \<Rightarrow> 'r continuous_batcher \<Rightarrow> bool"
  assumes deferred: "\<And>adm st r. I adm st \<Longrightarrow> co_deferred st = Some r \<Longrightarrow> H r adm (st\<lparr>co_deferred := None\<rparr>)"
    and stop: "\<And>adm st q. I adm st \<Longrightarrow> co_queue st = None # q \<Longrightarrow>
      I adm (st\<lparr>co_queue := q, co_stopping := True, co_closed := True\<rparr>)"
    and late: "\<And>adm st r q r' st1. I adm st \<Longrightarrow> co_queue st = Some r # q \<Longrightarrow>
      dequeue_stamp env r (st\<lparr>co_queue := q\<rparr>) = (r', True, st1) \<Longrightarrow> I adm st1"
    and ready: "\<And>adm st r q r' st1 st2. I adm st \<Longrightarrow> co_queue st = Some r # q \<Longrightarrow>
      dequeue_stamp env r (st\<lparr>co_queue := q\<rparr>) = (r', False, st1) \<Longrightarrow> note_delay r' st1 = Inr st2 \<Longrightarrow> H r' adm st2"
    and offer: "\<And>r adm st go_on adm' st'. H r adm st \<Longrightarrow>
      offer_to_cache env r adm st = Inr (go_on, adm', st') \<Longrightarrow> I adm' st'"
  shows "I adm st \<Longrightarrow> admit_loop env adm st = Inr (adm', st') \<Longrightarrow> I adm' st'"
proof (induction "loop_size st" arbitrary: adm st rule: less_induct)
  case less
  note I = less.prems(1) and run = less.prems(2) [unfolded admit_loop.simps [of env adm st]]
  have tail: "I adm' st'"
    if h: "H r adm st1" "co_deferred st1 = None" "length (co_queue st1) < loop_size st"
      and body: "rbind (offer_to_cache env r adm st1) (\<lambda>(go_on, adm', st').
        if go_on then admit_loop env adm' st' else Inr (adm', st')) = Inr (adm', st')" for r st1
  proof -
    obtain go_on adm2 st2 where 2: "offer_to_cache env r adm st1 = Inr (go_on, adm2, st2)"
        "(if go_on then admit_loop env adm2 st2 else Inr (adm2, st2)) = Inr (adm', st')"
      using body by (auto simp: rbind_eq_Inr)
    note I2 = offer [OF h(1) 2(1)]
    show ?thesis
    proof (cases go_on)
      case True
      then have "loop_size st2 < loop_size st"
        using offer_to_cache_queue [OF 2(1)] h(2,3) by simp
      from less.hyps [OF this I2] show ?thesis
        using 2(2) True by simp
    qed (use 2(2) I2 in simp)
  qed
  show ?case
  proof (cases "int (length (co_running st)) + int (length adm) < co_max_batch st")
    case False
    with run I show ?thesis
      by simp
  next
    case room: True
    show ?thesis
    proof (cases "co_deferred st")
      case (Some r)
      with run room tail [OF deferred [OF I Some]] show ?thesis
        by simp
    next
      case none: None
      show ?thesis
      proof (cases "co_queue st")
        case Nil
        with run room none I show ?thesis
          by simp
      next
        case (Cons x q)
        show ?thesis
        proof (cases x)
          case None
          with run room none Cons stop [OF I] show ?thesis
            by auto
        next
          case (Some r)
          note q = Cons [unfolded Some]
          obtain r' gone st1 where d: "dequeue_stamp env r (st\<lparr>co_queue := q\<rparr>) = (r', gone, st1)"
            by (cases "dequeue_stamp env r (st\<lparr>co_queue := q\<rparr>)") simp
          have q1: "co_queue st1 = q" "co_deferred st1 = None"
            using dequeue_stamp_queue [OF d] none by simp_all
          show ?thesis
          proof (cases gone)
            case True
            then have d': "dequeue_stamp env r (st\<lparr>co_queue := q\<rparr>) = (r', True, st1)"
              using d by simp
            then have "admit_loop env adm st1 = Inr (adm', st')"
              using run room none q by simp
            with less.hyps [OF _ late [OF I q d']] q1 q none show ?thesis
              by simp
          next
            case False
            then have d': "dequeue_stamp env r (st\<lparr>co_queue := q\<rparr>) = (r', False, st1)"
              using d by simp
            obtain st2 where 2: "note_delay r' st1 = Inr st2"
              "rbind (offer_to_cache env r' adm st2) (\<lambda>(go_on, adm', st').
                if go_on then admit_loop env adm' st' else Inr (adm', st')) = Inr (adm', st')"
              using run room none q d' by (auto simp: rbind_eq_Inr)
            have "co_queue st2 = q" "co_deferred st2 = None"
              using note_delay_queue [OF 2(1)] q1 by simp_all
            with tail [OF ready [OF I q d' 2(1)] _ _ 2(2)] q none show ?thesis
              by simp
          qed
        qed
      qed
    qed
  qed
qed

section \<open>What the runner holds\<close>

text \<open>
  The runner keeps its invariant; a running sequence that is not finished is held, or in \<open>adm\<close>
  and about to be prefilled; what is held has an id below the next one, so the ids of \<open>adm\<close>
  are fresh; and every request still around has settings the runner can serve.
\<close>

definition runner_fits ::
  "('r \<Rightarrow> int set) \<Rightarrow> ('r \<Rightarrow> bool) \<Rightarrow> (generation_config \<Rightarrow> bool) \<Rightarrow> sequence_state list
     \<Rightarrow> 'r continuous_batcher \<Rightarrow> bool" where
  "runner_fits held ok fine adm st \<longleftrightarrow> ok (co_runner st)
     \<and> (\<forall>p \<in> set (co_running st). fine (ss_generation (snd p))
          \<and> (finished (snd p) \<or> ss_id (snd p) \<in> held (co_runner st) \<or> snd p \<in> set adm))
     \<and> (\<forall>s \<in> set adm. fine (ss_generation s) \<and> ss_id s < co_next_id st) \<and> distinct (map ss_id adm)
     \<and> (\<forall>i \<in> held (co_runner st). i < co_next_id st \<and> i \<notin> ss_id ` set adm)
     \<and> (\<forall>r \<in> set (queued_requests (co_queue st)) \<union> set_option (co_deferred st). fine (rq_generation r))"

lemma runner_fitsD:
  assumes "runner_fits held ok fine adm st"
  shows "ok (co_runner st)" "\<forall>p \<in> set (co_running st). fine (ss_generation (snd p))"
    "\<forall>p \<in> set (co_running st). finished (snd p) \<or> ss_id (snd p) \<in> held (co_runner st) \<or> snd p \<in> set adm"
    "\<forall>s \<in> set adm. fine (ss_generation s) \<and> ss_id s < co_next_id st" "distinct (map ss_id adm)"
    "\<forall>i \<in> held (co_runner st). i < co_next_id st \<and> i \<notin> ss_id ` set adm"
    "\<forall>r \<in> set (queued_requests (co_queue st)). fine (rq_generation r)"
    "\<forall>r \<in> set_option (co_deferred st). fine (rq_generation r)"
  using assms by (auto simp: runner_fits_def)

lemma runner_fits_cong:
  assumes "runner_fits held ok fine adm st" "co_runner st' = co_runner st" "co_running st' = co_running st"
    "co_next_id st \<le> co_next_id st'"
    "set (queued_requests (co_queue st')) \<union> set_option (co_deferred st')
       \<subseteq> {r. fine (rq_generation r)}"
  shows "runner_fits held ok fine adm st'"
  using assms by (fastforce simp: runner_fits_def)

lemma remove_rows_runner:
  assumes "remove_rows env tally P st = Inr st'"
  shows "co_runner st' = fold (ro_evict (ce_ops env)) (row_ids (filter P (co_running st))) (co_runner st)
    \<and> co_running st' = filter (\<lambda>p. \<not> P p) (co_running st) \<and> co_next_id st' = co_next_id st
    \<and> co_queue st' = co_queue st \<and> co_deferred st' = co_deferred st"
proof -
  have "co_runner st1 = fold (ro_evict (ce_ops env)) (row_ids ps) (co_runner st0) \<and> co_next_id st1 = co_next_id st0
      \<and> co_queue st1 = co_queue st0 \<and> co_deferred st1 = co_deferred st0"
    if "rfold (free_row env tally) ps st0 = Inr st1" for ps st0 st1
    using that
  proof (induction ps arbitrary: st0)
    case (Cons p ps)
    obtain r s where p: "p = (r, s)" by (cases p)
    obtain st2 where st2: "free_row env tally (r, s) st0 = Inr st2" "rfold (free_row env tally) ps st2 = Inr st1"
      using Cons.prems by (auto simp: p rbind_eq_Inr)
    have "co_runner st2 = ro_evict (ce_ops env) (ss_id s) (co_runner st0)" "co_next_id st2 = co_next_id st0"
        "co_queue st2 = co_queue st0" "co_deferred st2 = co_deferred st0"
      by (rule free_row_cases [OF st2(1)], assumption)+
    with Cons.IH [OF st2(2)] show ?case
      by (simp add: p)
  qed simp
  with assms show ?thesis
    by (auto simp: remove_rows_def rbind_eq_Inr)
qed

context stepwise_runner
begin

abbreviation fits :: "sequence_state list \<Rightarrow> 'r continuous_batcher \<Rightarrow> bool" where
  "fits \<equiv> runner_fits held ok fine"

lemma fits_remove:
  assumes ops: "ce_ops env = ops" and fits: "fits adm st" and run: "remove_rows env tally P st = Inr st'"
    and apart: "\<And>p q. p \<in> set (co_running st) \<Longrightarrow> q \<in> set (co_running st) \<Longrightarrow> P p \<Longrightarrow> \<not> P q \<Longrightarrow>
      ss_id (snd p) \<noteq> ss_id (snd q)"
  shows "fits adm st'"
proof -
  note F = runner_fitsD [OF fits]
  note R = remove_rows_runner [OF run]
  have "held (co_runner st') = held (co_runner st) - set (row_ids (filter P (co_running st)))" "ok (co_runner st')"
    using R evict_all [OF F(1)] by (simp_all add: ops)
  moreover have "ss_id (snd q) \<notin> set (row_ids (filter P (co_running st)))"
    if "q \<in> set (co_running st)" "\<not> P q" for q
  proof
    assume "ss_id (snd q) \<in> set (row_ids (filter P (co_running st)))"
    then obtain p where "p \<in> set (co_running st)" "P p" "ss_id (snd p) = ss_id (snd q)"
      by auto
    with apart [OF _ that(1) _ that(2)] show False
      by blast
  qed
  ultimately show ?thesis
    using F R unfolding runner_fits_def by auto
qed

lemma fits_evict:
  assumes "ce_ops env = ops" "fits adm st" "evict_preempted env ids st = Inr st'"
  shows "fits adm st'"
  by (rule fits_remove [OF assms(1,2) assms(3) [unfolded evict_preempted_rows]]) auto

lemma fits_start:
  assumes "fits adm st" "co_next_id st = i + 1" "fine g"
    "\<forall>s \<in> set adm. ss_id s < i" "\<forall>j \<in> held (co_runner st). j < i"
  shows "fits (adm @ [SequenceState i p g]) (snd (snd (start_row r (SequenceState i p g) adm st)))"
  using assms by (auto simp: runner_fits_def start_row_def)

lemma fits_offer:
  assumes ops: "ce_ops env = ops" and fits: "fits adm st" and fine: "fine (rq_generation r)"
    and run: "offer_to_cache env r adm st = Inr (go_on, adm', st')"
  shows "fits adm' st'"
proof -
  let ?i = "co_next_id st"
  note F = runner_fitsD [OF fits]
  have low: "\<forall>s \<in> set adm. ss_id s < ?i" "\<forall>j \<in> held (co_runner st). j < ?i"
    using F(4,6) by blast+
  have bump: "fits adm (st\<lparr>co_next_id := ?i + 1, co_cache := c\<rparr>)" "fits adm (st\<lparr>co_next_id := ?i + 1\<rparr>)" for c
    by (rule runner_fits_cong [OF fits]; use F(7,8) in auto)+
  show ?thesis
    using run
  proof (cases rule: offer_to_cache_cases)
    case no_cache
    with fits_start [OF bump(2) _ fine, of ?i] low show ?thesis
      by (simp add: start_row_def)
  next
    case (rejected m out m')
    have "fits [] st'"
      by (rule runner_fits_cong [OF fits [unfolded rejected(5)]])
        (use F(7,8) in \<open>auto simp: rejected(8) reject_def upd_stats_def Let_def\<close>)
    with rejected(7) show ?thesis
      by simp
  next
    case (deferred m out m')
    show ?thesis
      unfolding deferred(6)
      by (rule runner_fits_cong [OF fits]) (use F(7) fine in \<open>auto simp: deferred(7) upd_stats_def\<close>)
  next
    case (started m out m' st1)
    let ?st0 = "st\<lparr>co_next_id := ?i + 1, co_cache := Some m'\<rparr>"
    have 1: "fits adm st1 \<and> co_next_id st1 = ?i + 1 \<and> held (co_runner st1) \<subseteq> held (co_runner st)"
    proof (cases "ao_preempted out = []")
      case True
      with started(4) bump(1) show ?thesis
        by auto
    next
      case False
      with started(4) have e: "evict_preempted env (ao_preempted out) ?st0 = Inr st1"
        by simp
      have "ok (co_runner ?st0)"
        using F(1) by simp
      with fits_evict [OF ops bump(1) e] remove_rows_runner [OF e [unfolded evict_preempted_rows]] evict_all
      show ?thesis
        by (auto simp: ops)
    qed
    then have "\<forall>j \<in> held (co_runner st1). j < ?i"
      using low(2) by blast
    with 1 fits_start [of adm st1 ?i, OF _ _ fine low(1)] started(5) show ?thesis
      by (simp add: start_row_def)
  qed
qed

lemma fits_admit_loop:
  assumes ops: "ce_ops env = ops" and "fits adm st" "admit_loop env adm st = Inr (adm', st')"
  shows "fits adm' st'"
proof (rule admit_loop_keeps [where I = fits and H = "\<lambda>r adm st. fine (rq_generation r) \<and> fits adm st", OF _ _ _ _ _ assms(2,3)])
  fix adm st r assume f: "fits adm st" and d: "co_deferred st = Some r"
  show "fine (rq_generation r) \<and> fits adm (st\<lparr>co_deferred := None\<rparr>)"
    using runner_fitsD(7,8) [OF f] d by (auto intro: runner_fits_cong [OF f])
next
  fix adm st q assume f: "fits adm st" and q: "co_queue st = None # q"
  show "fits adm (st\<lparr>co_queue := q, co_stopping := True, co_closed := True\<rparr>)"
    by (rule runner_fits_cong [OF f]) (use runner_fitsD(7,8) [OF f] q in auto)
next
  fix adm st r q r' st1
  assume f: "fits adm st" and q: "co_queue st = Some r # q" "dequeue_stamp env r (st\<lparr>co_queue := q\<rparr>) = (r', True, st1)"
  show "fits adm st1"
    by (rule runner_fits_cong [OF f])
      (use runner_fitsD(7,8) [OF f] q in \<open>auto simp: dequeue_stamp_def Let_def upd_stats_def upd_metrics_def\<close>)
next
  fix adm st r q r' st1 st2
  assume f: "fits adm st" and q: "co_queue st = Some r # q" "dequeue_stamp env r (st\<lparr>co_queue := q\<rparr>) = (r', False, st1)"
    and n: "note_delay r' st1 = Inr st2"
  have "fine (rq_generation r)"
    using runner_fitsD(7) [OF f] q(1) by simp
  moreover have "fits adm st2"
    by (rule runner_fits_cong [OF f])
      (use runner_fitsD(7,8) [OF f] q n in \<open>auto simp: dequeue_stamp_def note_delay_def rbind_eq_Inr Let_def\<close>)
  ultimately show "fine (rq_generation r') \<and> fits adm st2"
    using q(2) by (auto simp: dequeue_stamp_def Let_def)
qed (use fits_offer [OF ops] in blast)

end

section \<open>The other parts of a pass\<close>

lemma extend_all_ok:
  assumes "kv_inv m" "set (row_ids running) \<subseteq> kv_known m"
  obtains casualties m' where "extend_all running m c0 = Inr (casualties, m')" "kv_inv m'"
    "kv_known m' = kv_known m"
  using assms
proof (induction running arbitrary: m c0 thesis)
  case Nil
  then show ?case by simp
next
  case (Cons p running)
  obtain r s where p: "p = (r, s)" by (cases p)
  have sub: "insert (ss_id s) (set (row_ids running)) \<subseteq> kv_known m"
    using Cons.prems(3) p by simp
  obtain out m1 where m1: "KV_Cache.extend m (ss_id s) 1 = Inr (out, m1)" "kv_inv m1"
      "kv_known m1 = kv_known m" "set (row_ids running) \<subseteq> kv_known m1"
    by (rule kvc.grow_step [OF Cons.prems(2) sub])
  obtain casualties m' where m': "extend_all running m1
      (if \<not> outcome_ok out then c0 @ [ss_id s] else c0 @ ao_preempted out) = Inr (casualties, m')"
      "kv_inv m'" "kv_known m' = kv_known m1"
    by (rule Cons.IH [OF _ m1(2,4)])
  show ?case
    by (rule Cons.prems(1) [of casualties m']) (use m1 m' p in simp_all)
qed

lemma reserve_step_ok:
  assumes inv: "co_inv_but (\<lambda>p. finished (snd p)) 0 {#} st"
  obtains st' P where "reserve_step env st = Inr st'" "co_inv_but (\<lambda>p. finished (snd p)) 0 {#} st'"
    "same_frame st st'" "co_deferred st' = co_deferred st" "co_running st' = filter P (co_running st)"
proof (cases "co_cache st")
  case None
  show thesis
    by (rule that [of st "\<lambda>_. True"]) (use None inv in \<open>simp_all add: reserve_step_def\<close>)
next
  case (Some m)
  have kv: "kv_inv m" "set (row_ids (co_running st)) \<subseteq> kv_known m"
    using inv Some by (simp_all add: co_inv_but_def cache_ok_def)
  obtain cs m' where cs: "extend_all (co_running st) m [] = Inr (cs, m')" "kv_inv m'"
      "kv_known m' = kv_known m"
    by (rule extend_all_ok [OF kv])
  let ?st1 = "st\<lparr>co_cache := Some m'\<rparr>" and ?F = "\<lambda>p :: request \<times> sequence_state. finished (snd p)"
  have inv1: "co_inv_but ?F 0 {#} ?st1"
    using inv cs(2,3) kv(2)
    by (auto simp: co_inv_but_def rows_ok_def cache_ok_def conserved_def stats_ok_def owned_def)
  show thesis
  proof (cases "cs = []")
    case True
    show thesis
      by (rule that [of ?st1 "\<lambda>_. True"])
        (use inv1 Some cs True in \<open>simp_all add: reserve_step_def same_frame_def\<close>)
  next
    case False
    let ?P = "\<lambda>p :: request \<times> sequence_state. ss_id (snd p) \<in> set (remdups cs)"
    have "co_inv_but (\<lambda>p. ?P p \<or> ?F p) 0 {#} ?st1"
      using inv1 by (auto simp: co_inv_but_def owned_def)
    then obtain st' where st': "evict_preempted env (remdups cs) ?st1 = Inr st'" "co_inv_but ?F 0 {#} st'"
        "same_frame ?st1 st'" "co_running st' = filter (\<lambda>p. \<not> ?P p) (co_running st)"
        "co_deferred st' = co_deferred st"
      by (rule remove_rows_but_ok [where tally = count_preempted and env = env])
        (auto simp: evict_preempted_rows)
    show thesis
      by (rule that [of st' "\<lambda>p. \<not> ?P p"])
        (use st' Some cs False in \<open>auto simp: reserve_step_def same_frame_def\<close>)
  qed
qed

text \<open>A row after prefill: the sequence may have its first token, and may be finished by it.\<close>

definition readied :: "request \<times> sequence_state \<Rightarrow> request \<times> sequence_state \<Rightarrow> bool" where
  "readied p q \<longleftrightarrow> fst q = fst p \<and> (snd q = snd p \<or> prefilled (snd p) (snd q))"

lemma readied_facts:
  assumes "readied p q"
  shows "fst q = fst p" "ss_id (snd q) = ss_id (snd p)" "ss_prompt (snd q) = ss_prompt (snd p)"
    "ss_generation (snd q) = ss_generation (snd p)" "remaining (snd q) \<le> remaining (snd p)"
  using assms by (auto simp: readied_def dest: prefilled_facts)

lemma put_back_rows:
  assumes "linked adm st" "list_all2 prefilled adm ss"
  shows "list_all2 readied (co_running st) (put_back ss (co_running st))"
proof -
  have "prefilled s s'" if rs: "(r, s) \<in> set (co_running st)"
      and f: "find (\<lambda>s'. ss_id s' = ss_id s) ss = Some s'" for r s s'
  proof -
    obtain i where i: "i < length ss" "ss ! i = s'" "ss_id s' = ss_id s"
      using f by (auto simp: find_Some_iff)
    then have "prefilled (adm ! i) s'" "i < length adm"
      using assms(2) by (auto simp: list_all2_conv_all_nth)
    moreover have "adm ! i = s"
    proof -
      have "adm ! i \<in> set adm" "ss_id (snd (r, s)) = ss_id (adm ! i)"
        using calculation prefilled_facts(1) [of "adm ! i" s'] i(3) by simp_all
      then have "snd (r, s) = adm ! i"
        using assms(1) rs unfolding linked_def by blast
      then show ?thesis by simp
    qed
    ultimately show ?thesis by simp
  qed
  then show ?thesis
    by (auto simp: put_back_def readied_def list_all2_conv_all_nth split: option.splits prod.splits)
      (metis nth_mem)+
qed

lemma readied_rows:
  assumes "list_all2 readied ps qs"
  shows "row_ids qs = row_ids ps" "map fst qs = map fst ps" "length qs = length ps"
  using assms by (induction rule: list_all2_induct) (simp_all add: readied_facts)

lemma rows_ok_cong:
  assumes "row_ids (co_running a) = row_ids (co_running b)" "co_max_batch a = co_max_batch b"
    "co_capacity a = co_capacity b" "co_next_id a = co_next_id b"
  shows "rows_ok a = rows_ok b"
  unfolding rows_ok_def assms using arg_cong [OF assms(1), of length] by simp

lemma cache_ok_cong:
  assumes "row_ids (co_running a) = row_ids (co_running b)" "co_cache a = co_cache b"
  shows "cache_ok a = cache_ok b"
  unfolding cache_ok_def assms ..

lemma conserved_cong:
  assumes "map fst (co_running a) = map fst (co_running b)" "co_taken a = co_taken b"
    "co_settled a = co_settled b" "co_deferred a = co_deferred b" "co_queue a = co_queue b"
    "co_accepted a = co_accepted b"
  shows "conserved h a = conserved h b"
  unfolding conserved_def assms ..

definition own_row :: "request \<times> sequence_state \<Rightarrow> bool" where
  "own_row p \<longleftrightarrow> ss_generation (snd p) = rq_generation (fst p) \<and> ss_prompt (snd p) = rq_prompt (fst p)
     \<and> \<not> finished (snd p)"

lemma owned_rows:
  "owned st \<longleftrightarrow> (\<forall>p \<in> set (co_running st). own_row p)
     \<and> (\<forall>r \<in> set (queued_requests (co_queue st)) \<union> set_option (co_deferred st).
          generation_ok (rq_generation r))"
  by (auto simp: owned_def own_row_def)

text \<open>Steps that keep a row its request's, as far as it is not finished.\<close>

lemma rows_stay_own:
  assumes "list_all2 R ps qs"
    and keep: "\<And>p q. R p q \<Longrightarrow> \<not> finished (snd q) \<Longrightarrow> \<not> finished (snd p)
      \<and> ss_prompt (snd q) = ss_prompt (snd p) \<and> ss_generation (snd q) = ss_generation (snd p) \<and> fst q = fst p"
    and own: "\<forall>p \<in> set (filter (\<lambda>p. \<not> finished (snd p)) ps). own_row p"
  shows "\<forall>q \<in> set (filter (\<lambda>q. \<not> finished (snd q)) qs). own_row q"
  using assms(1) own
proof (induction rule: list_all2_induct)
  case (Cons p ps q qs)
  have "own_row q" if "\<not> finished (snd q)"
  proof -
    note k = keep [OF Cons.hyps(1) that]
    have "own_row p"
      using Cons.prems k by simp
    with k that show ?thesis
      unfolding own_row_def by metis
  qed
  moreover have "\<forall>q \<in> set (filter (\<lambda>q. \<not> finished (snd q)) qs). own_row q"
    using Cons by simp
  ultimately show ?case
    by simp
qed simp

lemma readied_own:
  assumes "list_all2 readied ps qs" "\<forall>p \<in> set ps. own_row p"
  shows "\<forall>q \<in> set (filter (\<lambda>q. \<not> finished (snd q)) qs). own_row q"
proof (rule rows_stay_own [OF assms(1)])
  fix p q assume r: "readied p q" "\<not> finished (snd q)"
  then show "\<not> finished (snd p) \<and> ss_prompt (snd q) = ss_prompt (snd p)
      \<and> ss_generation (snd q) = ss_generation (snd p) \<and> fst q = fst p"
    using readied_facts [OF r(1)] prefilled_facts(4) by (metis readied_def)
qed (use assms(2) in simp)

lemma replace_rows_ok:
  assumes "co_inv n h st" "list_all2 readied (co_running st) qs"
  shows "co_inv_but (\<lambda>p. finished (snd p)) n h (st\<lparr>co_runner := x, co_running := qs\<rparr>)"
proof -
  let ?st = "st\<lparr>co_runner := x, co_running := qs\<rparr>"
  note I = co_invD [OF assms(1)] and R = readied_rows [OF assms(2)]
  have "rows_ok ?st" "cache_ok ?st"
    using I(1,2) R(1) rows_ok_cong [of ?st st] cache_ok_cong [of ?st st] by simp_all
  moreover have "conserved h ?st"
    using I(3) R(2) conserved_cong [of ?st st] by simp
  moreover have "stats_ok n ?st"
    using I(4) R(3) by (simp add: stats_ok_def)
  moreover have "owned (?st\<lparr>co_running := filter (\<lambda>p. \<not> finished (snd p)) (co_running ?st)\<rparr>)"
    using I(5) readied_own [OF assms(2)] by (simp add: owned_rows)
  ultimately show ?thesis
    using I(6) by (simp add: co_inv_but_def)
qed

lemma admissions_counted:
  "co_inv_but P n {#} st \<Longrightarrow>
     co_inv_but P 0 {#} (upd_stats (\<lambda>cs. cs\<lparr>cs_admissions := cs_admissions cs + int n\<rparr>) st)"
  by (auto simp: upd_stats_def co_inv_but_def rows_ok_def cache_ok_def conserved_def stats_ok_def
      owned_def Let_def)

text \<open>The frame of a pass, and what a whole pass restores.\<close>

definition pass_frame :: "'r continuous_batcher \<Rightarrow> 'r continuous_batcher \<Rightarrow> bool" where
  "pass_frame st st' \<longleftrightarrow>
     (co_closed st \<or> None \<in> set (co_queue st) \<longrightarrow> co_closed st' \<or> None \<in> set (co_queue st'))
     \<and> (co_stopping st \<longrightarrow> co_stopping st')
     \<and> co_max_batch st' = co_max_batch st \<and> co_capacity st' = co_capacity st
     \<and> co_accepted st' = co_accepted st"

definition pass_post :: "'r continuous_batcher \<Rightarrow> 'r continuous_batcher \<Rightarrow> bool" where
  "pass_post st st' \<longleftrightarrow> co_inv 0 {#} st' \<and> pass_frame st st' \<and> potential st' \<le> potential st"

lemmas pass_post_unfold = pass_post_def [unfolded pass_frame_def]

lemma pass_frame_trans: "pass_frame a b \<Longrightarrow> pass_frame b c \<Longrightarrow> pass_frame a c"
  by (auto simp: pass_frame_def)

lemma same_pass_frame: "same_frame st st' \<Longrightarrow> pass_frame st st'"
  by (simp add: pass_frame_def same_frame_def)

text \<open>Work outside the running set.\<close>

definition waiting_work :: "'r continuous_batcher \<Rightarrow> nat" where
  "waiting_work st = sum_list (map tokens_of (queued_requests (co_queue st)))
     + (case co_deferred st of None \<Rightarrow> 0 | Some r \<Rightarrow> tokens_of r) + length (co_queue st)"

lemma potential_split: "potential st = waiting_work st + owed_rows (co_running st)"
  by (simp add: potential_def waiting_work_def)

lemma waiting_work_cong:
  "co_queue st' = co_queue st \<Longrightarrow> co_deferred st' = co_deferred st \<Longrightarrow> waiting_work st' = waiting_work st"
  by (simp add: waiting_work_def)

text \<open>A decode step on the rows, and what it leaves owed once the finished ones are gone.\<close>

abbreviation stepped :: "request \<times> sequence_state \<Rightarrow> request \<times> sequence_state \<Rightarrow> bool" where
  "stepped p q \<equiv> fst q = fst p \<and> advanced (snd p) (snd q)"

lemma advanced_rows:
  assumes "list_all2 advanced (map snd ps) ss"
  shows "list_all2 stepped ps (zip (map fst ps) ss)"
  using assms
proof (induction ps arbitrary: ss)
  case (Cons p ps)
  then obtain s ss' where "ss = s # ss'" "advanced (snd p) s" "list_all2 advanced (map snd ps) ss'"
    by (auto simp: list_all2_Cons1)
  with Cons.IH [of ss'] show ?case
    by simp
qed simp

lemma advanced_owed:
  assumes "advanced s s'" "\<not> finished s" "\<not> finished s'"
  shows "nat (remaining s') < nat (remaining s)"
  using assms advanced_facts(3,6) [OF assms(1)]
  by (auto simp: finished_def remaining_def)

lemma stepped_rows:
  assumes "list_all2 stepped ps qs"
  shows "row_ids qs = row_ids ps" "map fst qs = map fst ps" "length qs = length ps"
  using assms by (induction rule: list_all2_induct) (simp_all add: advanced_facts(1))

lemma stepped_own:
  assumes "list_all2 stepped ps qs" "\<forall>p \<in> set (filter (\<lambda>p. \<not> finished (snd p)) ps). own_row p"
  shows "\<forall>q \<in> set (filter (\<lambda>q. \<not> finished (snd q)) qs). own_row q"
proof (rule rows_stay_own [OF assms(1) _ assms(2)])
  fix p q assume "stepped p q" "\<not> finished (snd q)"
  then show "\<not> finished (snd p) \<and> ss_prompt (snd q) = ss_prompt (snd p)
      \<and> ss_generation (snd q) = ss_generation (snd p) \<and> fst q = fst p"
    using advanced_facts(2,3,5) by blast
qed

text \<open>
  A row in a pass: owed tokens when it was admitted, prefilled, perhaps evicted, decoded. Every
  row that entered the pass ends it with less to do, or gone.
\<close>

abbreviation debt :: "request \<times> sequence_state \<Rightarrow> nat" where
  "debt p \<equiv> (if finished (snd p) then 0 else nat (remaining (snd p)) - 1)"

lemma stepped_debt:
  assumes "list_all2 stepped ps qs"
  shows "owed_rows (filter (\<lambda>q. \<not> finished (snd q)) qs) \<le> sum_list (map debt ps)"
  using assms
proof (induction rule: list_all2_induct)
  case (Cons p ps q qs)
  show ?case
  proof (cases "finished (snd q)")
    case True
    with Cons.IH show ?thesis
      by simp
  next
    case False
    have f: "\<not> finished (snd p)"
      using Cons.hyps(1) False advanced_facts(5) by blast
    then have "nat (remaining (snd q)) < nat (remaining (snd p))"
      using Cons.hyps(1) False by (intro advanced_owed) simp_all
    then have "nat (remaining (snd q)) \<le> debt p"
      using f by auto
    with Cons.IH False show ?thesis
      by (simp del: if_split)
  qed
qed simp

lemma debt_filter: "sum_list (map debt (filter P ps)) \<le> sum_list (map debt ps)"
  by (induction ps) auto

lemma readied_debt:
  assumes "list_all2 readied ps qs" "\<forall>p \<in> set ps. own_row p"
  shows "sum_list (map debt qs) + length ps \<le> owed_rows ps"
  using assms
proof (induction rule: list_all2_induct)
  case (Cons p ps q qs)
  have "0 < remaining (snd p)"
    using Cons.prems by (auto simp: own_row_def finished_def remaining_def)
  moreover have "remaining (snd q) \<le> remaining (snd p)"
    using Cons.hyps(1) by (rule readied_facts)
  ultimately have "debt q + 1 \<le> nat (remaining (snd p))"
    by auto
  with Cons show ?case
    by simp
qed simp

lemma pass_owed:
  assumes "list_all2 readied ps qs" "\<forall>p \<in> set ps. own_row p" "list_all2 stepped (filter P qs) rs"
  shows "owed_rows (filter (\<lambda>r. \<not> finished (snd r)) rs) + length ps \<le> owed_rows ps"
  using stepped_debt [OF assms(3)] debt_filter [of P qs] readied_debt [OF assms(1,2)] by linarith

lemma decode_counted:
  assumes inv: "co_inv_but (\<lambda>p. finished (snd p)) 0 {#} st" and ne: "co_running st \<noteq> []"
    and rows: "list_all2 stepped (co_running st) qs"
  shows "co_inv_but (\<lambda>p. finished (snd p)) 0 {#}
    (upd_stats (count_step (int (length (co_running st))) (co_max_batch st))
      (st\<lparr>co_runner := x, co_running := qs\<rparr>))" (is "co_inv_but _ _ _ ?st")
proof -
  have I: "rows_ok st" "cache_ok st" "conserved {#} st" "stats_ok 0 st"
      "owned (st\<lparr>co_running := filter (\<lambda>p. \<not> finished (snd p)) (co_running st)\<rparr>)" "metrics_ok (co_metrics st)"
    using inv by (simp_all add: co_inv_but_def)
  have own: "\<forall>p \<in> set (filter (\<lambda>p. \<not> finished (snd p)) (co_running st)). own_row p"
    using I(5) by (simp add: owned_rows)
  note D = stepped_rows [OF rows]
  have "rows_ok ?st" "cache_ok ?st"
    using I(1,2) D(1) rows_ok_cong [of ?st st] cache_ok_cong [of ?st st]
    by (simp_all add: upd_stats_def)
  moreover have "conserved {#} ?st"
    using I(3) D(2) conserved_cong [of ?st st] by (simp add: upd_stats_def)
  moreover have "stats_ok 0 ?st"
  proof -
    have "1 \<le> int (length (co_running st))" "int (length (co_running st)) \<le> co_max_batch st"
      using ne I(1) by (cases "co_running st"; simp add: rows_ok_def)+
    then show ?thesis
      using I(4) D(3) by (simp add: stats_ok_def upd_stats_def count_step_def Let_def distrib_right)
  qed
  moreover have "owned (?st\<lparr>co_running := filter (\<lambda>p. \<not> finished (snd p)) (co_running ?st)\<rparr>)"
    using I(5) stepped_own [OF rows own] by (simp add: owned_rows upd_stats_def)
  ultimately show ?thesis
    using I(6) by (simp add: co_inv_but_def upd_stats_def)
qed

context stepwise_runner
begin

text \<open>
  \<open>_admit\<close>: \<open>pre\<close> are the rows before the prefill, each with a token owed at least.
\<close>

lemma admit_pass_ok:
  assumes ops: "ce_ops env = ops" and est: "\<And>p. 0 < ce_estimate env p" and inv: "co_inv 0 {#} st"
    and fit: "fits [] st"
  obtains st' pre where "admit_pass env st = Inr st'" "co_inv_but (\<lambda>p. finished (snd p)) 0 {#} st'"
    "pass_frame st st'" "fits [] st'" "list_all2 readied pre (co_running st')" "\<forall>p \<in> set pre. own_row p"
    "waiting_work st' + owed_rows pre \<le> potential st"
    "co_deferred st' \<noteq> None \<longrightarrow> co_running st' \<noteq> []"
    "co_running st' = [] \<longrightarrow> co_inv 0 {#} st' \<and> (potential st' < potential st \<or> co_queue st' = [])"
proof -
  obtain adm st1 where loop: "admit_loop env [] st = Inr (adm, st1)" "admit_post st adm st1"
    using admit_loop_ok [OF est, of "[]" st] inv by auto
  note P = loop(2) [unfolded admit_post_def]
  have frame: "pass_frame st st1"
    using P by (simp add: pass_frame_def)
  have fit1: "fits adm st1"
    by (rule fits_admit_loop [OF ops fit loop(1)])
  have inv1: "co_inv (length adm) {#} st1"
    using P by blast
  have own: "\<forall>p \<in> set (co_running st1). own_row p"
    using co_invD(5) [OF inv1] by (simp add: owned_rows)
  have work: "waiting_work st1 + owed_rows (co_running st1) \<le> potential st"
    using P by (simp add: potential_split)
  show thesis
  proof (cases "adm = []")
    case True
    have "list_all2 readied (co_running st1) (co_running st1)"
      by (rule list_all2_refl) (simp add: readied_def)
    then show thesis
      by (intro that [of st1 "co_running st1"])
        (use loop P True frame fit1 own work co_inv_but [of 0 "{#}" st1] in \<open>simp_all add: admit_pass_def\<close>)
  next
    case False
    note F = runner_fitsD [OF fit1]
    have "ss_id ` set adm \<inter> held (co_runner st1) = {}" "\<forall>s \<in> set adm. fine (ss_generation s)"
      using F(4,6) by blast+
    then obtain ss x where pre: "ro_prefill ops adm (co_runner st1) = Inr (ss, x)" "list_all2 prefilled adm ss"
        "held x = held (co_runner st1) \<union> ss_id ` set adm" "ok x"
      using prefill_total [OF F(1) False F(5)] by blast
    let ?qs = "put_back ss (co_running st1)"
    have l2: "list_all2 readied (co_running st1) ?qs"
      by (rule put_back_rows [OF _ pre(2)]) (use P in blast)
    let ?st2 = "upd_stats (\<lambda>cs. cs\<lparr>cs_admissions := cs_admissions cs + int (length adm)\<rparr>)
      (st1\<lparr>co_runner := x, co_running := ?qs\<rparr>)"
    have inv2: "co_inv_but (\<lambda>p. finished (snd p)) 0 {#} ?st2"
      by (intro admissions_counted replace_rows_ok [OF inv1 l2])
    have ne: "?qs \<noteq> []"
      using readied_rows(3) [OF l2] P False by (auto simp: linked_def)
    have "fine (ss_generation (snd q)) \<and> ss_id (snd q) \<in> held x" if "q \<in> set ?qs" for q
    proof -
      from that obtain i where i: "i < length ?qs" "q = ?qs ! i"
        by (auto simp: in_set_conv_nth)
      let ?p = "co_running st1 ! i"
      have p: "?p \<in> set (co_running st1)" "readied ?p q"
        using i l2 by (simp_all add: list_all2_conv_all_nth)
      have "\<not> finished (snd ?p)"
        using own p(1) by (simp add: own_row_def)
      then have "fine (ss_generation (snd ?p))" "ss_id (snd ?p) \<in> held (co_runner st1) \<or> snd ?p \<in> set adm"
        using F(2,3) p(1) by blast+
      then show ?thesis
        using readied_facts(2,4) [OF p(2)] pre(3) by auto
    qed
    moreover have "\<forall>i \<in> held x. i < co_next_id st1"
      using F(4,6) pre(3) by blast
    ultimately have fit2: "fits [] ?st2"
      using F(7,8) pre(4) unfolding runner_fits_def by (auto simp: upd_stats_def)
    show thesis
    proof (rule that [of ?st2 "co_running st1"])
      show "admit_pass env st = Inr ?st2"
        using loop(1) pre(1) ops False by (simp add: admit_pass_def)
      show "pass_frame st ?st2"
        using frame by (simp add: pass_frame_def upd_stats_def)
      show "list_all2 readied (co_running st1) (co_running ?st2)"
        using l2 by (simp add: upd_stats_def)
      show "waiting_work ?st2 + owed_rows (co_running st1) \<le> potential st"
        using work by (simp add: waiting_work_def upd_stats_def)
    qed (use inv2 fit2 own ne in \<open>simp_all add: upd_stats_def\<close>)
  qed
qed

lemma fits_reserve:
  assumes ops: "ce_ops env = ops" and fit: "fits adm st" and run: "reserve_step env st = Inr st'"
  shows "fits adm st'"
proof (cases "co_cache st")
  case None
  with fit run show ?thesis
    by (simp add: reserve_step_def)
next
  case (Some m)
  obtain cs m' where 1: "extend_all (co_running st) m [] = Inr (cs, m')"
      "(if cs \<noteq> [] then evict_preempted env (remdups cs) (st\<lparr>co_cache := Some m'\<rparr>)
        else Inr (st\<lparr>co_cache := Some m'\<rparr>)) = Inr st'"
    using run Some by (auto simp: reserve_step_def rbind_eq_Inr Let_def)
  have "fits adm (st\<lparr>co_cache := Some m'\<rparr>)"
    using fit by (simp add: runner_fits_def)
  from fits_evict [OF ops this] 1(2) this show ?thesis
    by (auto split: if_splits)
qed

text \<open>One pass of the scheduler thread.\<close>

lemma run_pass_ok:
  assumes ops: "ce_ops env = ops" and est: "\<And>p. 0 < ce_estimate env p" and inv: "co_inv 0 {#} st"
    and fit: "fits [] st"
  obtains over st' where "run_pass env st = Inr (over, st')" "pass_post st st'" "fits [] st'"
    "over \<longrightarrow> co_running st' = [] \<and> co_deferred st' = None \<and> co_queue st' = []"
    "co_closed st \<or> None \<in> set (co_queue st) \<longrightarrow> over \<or> potential st' < potential st"
proof -
  let ?F = "\<lambda>p :: request \<times> sequence_state. finished (snd p)"
  obtain st1 pre where 1: "admit_pass env st = Inr st1" "co_inv_but ?F 0 {#} st1"
    "pass_frame st st1" "fits [] st1" "list_all2 readied pre (co_running st1)" "\<forall>p \<in> set pre. own_row p"
    "waiting_work st1 + owed_rows pre \<le> potential st"
    "co_deferred st1 \<noteq> None \<longrightarrow> co_running st1 \<noteq> []"
    "co_running st1 = [] \<longrightarrow> co_inv 0 {#} st1 \<and> (potential st1 < potential st \<or> co_queue st1 = [])"
    by (rule admit_pass_ok [OF assms])
  have pre_len: "length pre = length (co_running st1)"
    using readied_rows(3) [OF 1(5)] by simp
  show thesis
  proof (cases "co_running st1 = []")
    case True
    then have "potential st1 \<le> potential st"
      using 1(7) pre_len by (simp add: potential_split)
    then show thesis
      by (intro that [of "co_closed st1 \<and> co_queue st1 = []" st1])
        (use 1 True in \<open>auto simp: run_pass_def pass_post_def pass_frame_def\<close>)
  next
    case busy: False
    obtain st2 P where 2: "reserve_step env st1 = Inr st2" "co_inv_but ?F 0 {#} st2" "same_frame st1 st2"
      "co_deferred st2 = co_deferred st1" "co_running st2 = filter P (co_running st1)"
      by (rule reserve_step_ok [OF 1(2), of env])
    have fit2: "fits [] st2"
      by (rule fits_reserve [OF ops 1(4) 2(1)])
    have work2: "waiting_work st2 = waiting_work st1"
      using 2(3,4) by (intro waiting_work_cong) (simp_all add: same_frame_def)
    note frame2 = pass_frame_trans [OF 1(3) same_pass_frame [OF 2(3)]]
    show thesis
    proof (cases "co_running st2 = []")
      case True
      have "length pre \<le> owed_rows pre"
        using readied_debt [OF 1(5,6)] by linarith
      then have "0 < owed_rows pre"
        using busy pre_len by (cases "co_running st1") auto
      then have "potential st2 < potential st"
        using 1(7) work2 True by (simp add: potential_split)
      moreover have "co_inv 0 {#} st2"
        using 2(2) True by (simp add: co_inv_but_def co_inv_def owned_def)
      ultimately show thesis
        by (intro that [of False st2]) (use 1(1) 2(1) busy True frame2 fit2 in \<open>auto simp: run_pass_def pass_post_def\<close>)
    next
      case live: False
      note F = runner_fitsD [OF fit2]
      have ids: "distinct (map ss_id (map snd (co_running st2)))"
        using 2(2) by (simp add: co_inv_but_def rows_ok_def comp_def)
      have "\<forall>s \<in> set (map snd (co_running st2)). fine (ss_generation s) \<and> (finished s \<or> ss_id s \<in> held (co_runner st2))"
        using F(2,3) by auto
      then obtain ss x where dec: "ro_decode ops (map snd (co_running st2)) (co_runner st2) = Inr (ss, x)"
          "list_all2 advanced (map snd (co_running st2)) ss" "held x \<subseteq> held (co_runner st2)"
          "\<forall>s \<in> set (map snd (co_running st2)). finished s \<or> ss_id s \<in> held x" "ok x"
        by (rule decode_total [OF F(1) ids])
      let ?qs = "zip (map fst (co_running st2)) ss"
      let ?st3 = "upd_stats (count_step (int (length (co_running st2))) (co_max_batch st2))
        (st2\<lparr>co_runner := x, co_running := ?qs\<rparr>)"
      note rows = advanced_rows [OF dec(2)]
      have 3: "decode_pass env st2 = Inr ?st3"
        using dec(1) ops by (simp add: decode_pass_def)
      have fit3: "fits [] ?st3"
      proof -
        have "fine (ss_generation (snd q)) \<and> (finished (snd q) \<or> ss_id (snd q) \<in> held x)" if q: "q \<in> set ?qs" for q
        proof -
          from q obtain i where i: "i < length ?qs" "q = ?qs ! i"
            by (auto simp: in_set_conv_nth)
          let ?p = "co_running st2 ! i"
          have i2: "i < length (co_running st2)"
            using i(1) by simp
          have p: "?p \<in> set (co_running st2)"
            using i2 by (rule nth_mem)
          have step: "stepped ?p q"
            using list_all2_nthD [OF rows i2] unfolding i(2) .
          have "fine (ss_generation (snd ?p))" "finished (snd ?p) \<or> ss_id (snd ?p) \<in> held x"
            using F(2) dec(4) p by auto
          then show ?thesis
            using advanced_facts(1,3,5) step by metis
        qed
        moreover have "\<forall>i \<in> held x. i < co_next_id st2"
          using F(6) dec(3) by blast
        ultimately show ?thesis
          using F(7,8) dec(5) unfolding runner_fits_def by (simp add: upd_stats_def ball_Un)
      qed
      obtain st4 where 4: "retire env ?st3 = Inr st4" "co_inv 0 {#} st4" "same_frame ?st3 st4"
        "co_running st4 = filter (\<lambda>p. \<not> finished (snd p)) ?qs" "co_deferred st4 = co_deferred ?st3"
        by (rule remove_rows_ok [OF decode_counted [OF 2(2) live rows, of x],
              where tally = count_completion and env = env])
          (auto simp: retire_rows upd_stats_def)
      have fit4: "fits [] st4"
      proof (rule fits_remove [OF ops fit3 4(1) [unfolded retire_rows]])
        have "distinct (row_ids ?qs)"
          unfolding stepped_rows(1) [OF rows] using ids by (simp add: comp_def)
        then have "inj_on (\<lambda>p. ss_id (snd p)) (set ?qs)"
          unfolding distinct_map by blast
        moreover fix p q assume "p \<in> set (co_running ?st3)" "q \<in> set (co_running ?st3)" "finished (snd p)" "\<not> finished (snd q)"
        ultimately show "ss_id (snd p) \<noteq> ss_id (snd q)"
          by (auto simp: upd_stats_def dest: inj_onD)
      qed
      let ?st5 = "upd_metrics (set_queue_depth (int (length (co_queue st4)))) st4"
      have inv5: "co_inv 0 {#} ?st5"
        using 4(2) by (simp add: co_inv_def upd_metrics_def rows_ok_def cache_ok_def conserved_def
            stats_ok_def owned_def)
      have frame5: "pass_frame st ?st5"
        by (rule pass_frame_trans [OF frame2])
          (use 4(3) in \<open>simp add: pass_frame_def same_frame_def upd_stats_def upd_metrics_def\<close>)
      have work5: "waiting_work ?st5 = waiting_work st2"
        using 4(3,5) by (intro waiting_work_cong) (simp_all add: same_frame_def upd_stats_def upd_metrics_def)
      have "owed_rows (co_running ?st5) + length pre \<le> owed_rows pre"
        using pass_owed [OF 1(5,6) rows [unfolded 2(5)]] 4(4) by (simp add: upd_metrics_def 2(5))
      moreover have "0 < length pre"
        using busy pre_len by simp
      ultimately have "potential ?st5 < potential st"
        using 1(7) work2 work5 unfolding potential_split by linarith
      moreover have "fits [] ?st5"
        using fit4 by (simp add: runner_fits_def upd_metrics_def)
      ultimately show thesis
        by (intro that [of False ?st5])
          (use 1(1) 2(1) 3 4(1) busy live inv5 frame5 in \<open>auto simp: run_pass_def pass_post_def\<close>)
    qed
  qed
qed

end

end
