(* ===== verification/Continuous_Properties.thy ===== *)
theory Continuous_Properties
  imports Continuous_Pass
begin

text \<open>
  What the continuous scheduler promises, for every runner that keeps the step-wise
  protocol, with or without a cache, and the behaviours that fall short of its comments.
\<close>

section \<open>Reachable schedulers\<close>

text \<open>
  Clients submit requests whose configuration was constructed, so its budget is
  positive, which the runner can serve, and never stamped; the runner is new, and so is the
  cache, when there is one.
\<close>

inductive co_reachable ::
  "'r continuous_env \<Rightarrow> 'r \<Rightarrow> (generation_config \<Rightarrow> bool) \<Rightarrow> 'r continuous_batcher \<Rightarrow> bool"
  for env r fine where
  co_start: "ContinuousBatcher r n c (MetricsRegistry t) None = Inr st \<Longrightarrow> co_reachable env r fine st"
| co_start_cache: "KVCacheManager blocks bsize policy = Inr m \<Longrightarrow>
    ContinuousBatcher r n c (MetricsRegistry t) (Some m) = Inr st \<Longrightarrow> co_reachable env r fine st"
| co_submitted: "co_reachable env r fine st \<Longrightarrow> rq_dequeued_at q = None \<Longrightarrow>
    generation_ok (rq_generation q) \<Longrightarrow> fine (rq_generation q) \<Longrightarrow>
    co_reachable env r fine (snd (co_submit q st))"
| co_shut: "co_reachable env r fine st \<Longrightarrow> co_reachable env r fine (co_shutdown st)"
| co_passed: "co_reachable env r fine st \<Longrightarrow> run_pass env st = Inr (over, st') \<Longrightarrow> co_reachable env r fine st'"

lemma submit_inv [inv_intros]:
  assumes "co_inv 0 {#} st" "rq_dequeued_at r = None" "generation_ok (rq_generation r)"
  shows "co_inv 0 {#} (snd (co_submit r st))"
  using assms
  by (auto simp: co_submit_def upd_metrics_def Let_def co_inv_def rows_ok_def cache_ok_def
      conserved_def stats_ok_def owned_def)

lemma shutdown_inv [inv_intros]: "co_inv 0 {#} st \<Longrightarrow> co_inv 0 {#} (co_shutdown st)"
  by (auto simp: co_shutdown_def Let_def co_inv_def rows_ok_def cache_ok_def conserved_def
      stats_ok_def owned_def)

lemma start_inv:
  assumes "ContinuousBatcher r n c (MetricsRegistry t) cache = Inr st"
    and "\<forall>m. cache = Some m \<longrightarrow> kv_inv m"
  shows "co_inv 0 {#} st"
  using assms
  by (auto simp: ContinuousBatcher_def co_inv_def rows_ok_def cache_ok_def conserved_def
      stats_ok_def owned_def ContinuousStats_def Let_def split: if_splits)

lemma submit_fits:
  assumes "runner_fits held ok fine [] st" "fine (rq_generation q)"
  shows "runner_fits held ok fine [] (snd (co_submit q st))"
  using assms by (auto simp: runner_fits_def co_submit_def upd_metrics_def Let_def)

lemma shutdown_fits: "runner_fits held ok fine [] st \<Longrightarrow> runner_fits held ok fine [] (co_shutdown st)"
  by (auto simp: runner_fits_def co_shutdown_def Let_def)

lemma start_fits:
  "ContinuousBatcher r n c (MetricsRegistry t) cache = Inr st \<Longrightarrow> ok r \<Longrightarrow> held r = {} \<Longrightarrow>
     runner_fits held ok fine [] st"
  by (auto simp: ContinuousBatcher_def runner_fits_def split: if_splits)

lemma co_reachable_sound:
  assumes "stepwise_runner (ce_ops env) held ok fine" "ok r" "held r = {}" "\<And>p. 0 < ce_estimate env p"
    and "co_reachable env r fine st"
  shows "co_inv 0 {#} st \<and> runner_fits held ok fine [] st"
  using assms(5)
proof (induction rule: co_reachable.induct)
  case (co_start n c t st)
  then show ?case
    using start_fits [of r n c t None st ok held fine] assms(2,3) by (auto intro: start_inv)
next
  case (co_start_cache blocks bsize policy m n c t st)
  then show ?case
    using start_fits [of r n c t "Some m" st ok held fine] assms(2,3) by (auto intro: start_inv kv_inv_init)
next
  case (co_passed st over st')
  obtain over' st'' where "run_pass env st = Inr (over', st'')" "pass_post st st''" "runner_fits held ok fine [] st''"
    by (rule stepwise_runner.run_pass_ok [OF assms(1) refl assms(4)]) (use co_passed.IH in blast)+
  with co_passed.hyps(2) show ?case
    by (simp add: pass_post_def)
qed (auto intro: inv_intros submit_fits shutdown_fits)

lemma servesE:
  assumes "serves ops r fine"
  obtains held ok where "stepwise_runner ops held ok fine" "ok r" "held r = {}"
  using assms unfolding serves_def by blast

lemma co_reachable_inv:
  assumes "serves (ce_ops env) r fine" "\<And>p. 0 < ce_estimate env p" "co_reachable env r fine st"
  shows "co_inv 0 {#} st"
  by (rule servesE [OF assms(1)]) (use co_reachable_sound [OF _ _ _ assms(2,3)] in blast)

text \<open>The environment of the examples: the echo runner, a counting clock, the default estimate.\<close>

definition ex_env :: "echo_runner continuous_env" where
  "ex_env = \<lparr>ce_ops = echo_ops, ce_clock = (\<lambda>n. real n), ce_estimate = default_estimate,
     ce_complete_raises = (\<lambda>_ _. False), ce_has_on_rejected = False\<rparr>"

definition ex_runner :: echo_runner where
  "ex_runner = EchoStepwiseRunner 0 0 []"

abbreviation any_settings :: "generation_config \<Rightarrow> bool" where
  "any_settings \<equiv> \<lambda>_. True"

lemma ex_runner_serves: "serves echo_ops ex_runner any_settings"
  unfolding ex_runner_def by (rule echo_serves)

lemma ex_env_ok: "serves (ce_ops ex_env) ex_runner any_settings" "0 < ce_estimate ex_env p"
  using ex_runner_serves by (simp_all add: ex_env_def default_estimate_def)

abbreviation ex_reachable :: "echo_runner continuous_batcher \<Rightarrow> bool" where
  "ex_reachable \<equiv> co_reachable ex_env ex_runner any_settings"

definition ex_req :: "string \<Rightarrow> int \<Rightarrow> request" where
  "ex_req prompt n = \<lparr>rq_prompt = prompt, rq_generation = gc_defaults\<lparr>gc_max_new_tokens := n\<rparr>,
     rq_id = prompt, rq_enqueued_at = 0, rq_dequeued_at = None, rq_deadline = None\<rparr>"

text \<open>Scripts for the examples.\<close>

datatype co_event = Submit request | Shut | Pass

fun co_apply :: "'r continuous_env \<Rightarrow> co_event \<Rightarrow> 'r continuous_batcher \<Rightarrow> 'r continuous_batcher result" where
  "co_apply env (Submit r) st =
     (if rq_dequeued_at r = None \<and> 0 < gc_max_new_tokens (rq_generation r)
         \<and> gc_temperature (rq_generation r) = 1 \<and> gc_top_p (rq_generation r) = 1
         \<and> gc_top_k (rq_generation r) = 0
      then Inr (snd (co_submit r st)) else Inl RuntimeError)"
| "co_apply env Shut st = Inr (co_shutdown st)"
| "co_apply env Pass st = rbind (run_pass env st) (\<lambda>(_, st). Inr st)"

lemma co_apply_reachable:
  assumes "co_reachable env r any_settings st" "co_apply env e st = Inr st'"
  shows "co_reachable env r any_settings st'"
proof (cases e)
  case (Submit q)
  with assms show ?thesis
    by (auto simp: generation_ok_def intro!: co_submitted split: if_splits)
next
  case Shut
  with assms show ?thesis
    by (auto intro: co_shut)
next
  case Pass
  with assms(2) obtain over where "run_pass env st = Inr (over, st')"
    by (auto simp: rbind_eq_Inr)
  with assms(1) show ?thesis
    by (rule co_passed)
qed

lemma co_play:
  assumes "co_reachable env r any_settings st" "rfold (co_apply env) es st = Inr st'"
  shows "co_reachable env r any_settings st'"
  using assms
proof (induction es arbitrary: st)
  case (Cons e es)
  from Cons.prems(2) obtain st1 where "co_apply env e st = Inr st1" "rfold (co_apply env) es st1 = Inr st'"
    by (auto simp: rbind_eq_Inr)
  with Cons.IH Cons.prems(1) show ?case
    by (blast intro: co_apply_reachable)
qed simp

lemma co_played:
  assumes "rbind (rbind (ContinuousBatcher r n c (MetricsRegistry t) None) (rfold (co_apply env) es))
    (\<lambda>st. Inr (f st)) = Inr v"
  obtains st where "co_reachable env r any_settings st" "f st = v"
proof -
  obtain st0 st where "ContinuousBatcher r n c (MetricsRegistry t) None = Inr st0"
      "rfold (co_apply env) es st0 = Inr st" "f st = v"
    using assms unfolding rbind_eq_Inr by blast
  then show thesis
    by (intro that [of st] co_play [OF co_start]) simp_all
qed

lemma co_played_cache:
  assumes "rbind (rbind (rbind (KVCacheManager blocks bsize policy)
        (\<lambda>m. ContinuousBatcher r n c (MetricsRegistry t) (Some m))) (rfold (co_apply env) es))
      (\<lambda>st. Inr (f st)) = Inr v"
  obtains st where "co_reachable env r any_settings st" "f st = v"
proof -
  obtain m st0 st where "KVCacheManager blocks bsize policy = Inr m"
      "ContinuousBatcher r n c (MetricsRegistry t) (Some m) = Inr st0"
      "rfold (co_apply env) es st0 = Inr st" "f st = v"
    using assms unfolding rbind_eq_Inr by blast
  then show thesis
    by (intro that [of st] co_play [OF co_start_cache]) simp_all
qed

section \<open>Properties\<close>

text \<open>
  Rows are never oversubscribed and utilisation is a fraction. In every reachable
  state the running set has at most \<open>max_batch_size\<close> sequences with distinct ids, the
  widest batch observed was no wider, and the utilisation lies between 0 and 1.
\<close>

theorem rows_are_bounded:
  assumes "serves (ce_ops env) r fine" "\<And>p. 0 < ce_estimate env p" "co_reachable env r fine st"
  shows "int (length (co_running st)) \<le> co_max_batch st
    \<and> distinct (map (ss_id \<circ> snd) (co_running st))
    \<and> cs_max_observed_batch (co_stats st) \<le> co_max_batch st
    \<and> 0 \<le> stats_utilisation (co_stats st) \<and> stats_utilisation (co_stats st) \<le> 1"
proof -
  note I = co_invD [OF co_reachable_inv [OF assms]]
  have "0 \<le> cs_occupied_rows (co_stats st)"
    "cs_occupied_rows (co_stats st) \<le> cs_available_rows (co_stats st)"
    using I(4) by (simp_all add: stats_ok_def Let_def)
  then have "0 \<le> stats_utilisation (co_stats st) \<and> stats_utilisation (co_stats st) \<le> 1"
    by (simp add: stats_utilisation_def divide_le_eq)
  then show ?thesis
    using I(1,4) by (simp add: rows_ok_def stats_ok_def Let_def comp_def)
qed

text \<open>Two requests, one pass: both run.\<close>

lemma ex_two_running:
  obtains st where "ex_reachable st"
    "(length (co_running st), length (co_taken st), length (co_queue st), co_closed st) = (2, 2, 1, False)"
proof (rule co_played)
  show "rbind (rbind (ContinuousBatcher ex_runner 4 8 (MetricsRegistry 0) None)
      (rfold (co_apply ex_env) [Submit (ex_req ''a'' 5), Submit (ex_req ''b'' 2), Pass, Shut]))
      (\<lambda>st. Inr (length (co_running st), length (co_taken st), length (co_queue st), co_closed st))
    = Inr (2, 2, 1, False)"
    by code_simp
qed (simp add: that)

theorem rows_are_bounded_witness:
  "\<exists>st. ex_reachable st \<and> length (co_running st) = 2 \<and> 2 \<le> co_max_batch st"
  by (rule ex_two_running) (use rows_are_bounded [OF ex_env_ok] in force)

text \<open>
  C14: No request is lost or answered twice. In every reachable state the accepted
  requests are, in order, those taken followed by those queued, and each taken request is
  exactly one of: settled, running, deferred.
\<close>

theorem continuous_conserves_requests:
  assumes "serves (ce_ops env) r fine" "\<And>p. 0 < ce_estimate env p" "co_reachable env r fine st"
  shows "co_accepted st = map unstamped (co_taken st) @ queued_requests (co_queue st)
    \<and> mset (co_taken st) = mset (map fst (co_settled st)) + mset (map fst (co_running st))
        + mset_set (set_option (co_deferred st))"
proof -
  have "conserved {#} st"
    using co_reachable_inv [OF assms] by (rule co_invD)
  moreover have "deferred_mset (co_deferred st) = mset_set (set_option (co_deferred st))"
    by (cases "co_deferred st") simp_all
  ultimately show ?thesis
    by (simp add: conserved_def)
qed

theorem continuous_conserves_requests_witness:
  "\<exists>st. ex_reachable st \<and> length (co_taken st) = 2
    \<and> co_accepted st = map unstamped (co_taken st) @ queued_requests (co_queue st)"
  by (rule ex_two_running) (use continuous_conserves_requests [OF ex_env_ok] in force)

text \<open>
  The scheduler thread survives. From every reachable state a pass returns
  normally: the cache knows every running sequence, so growing one never raises, and
  whatever a completion callback does is contained.
\<close>

theorem pass_never_raises:
  assumes "serves (ce_ops env) r fine" "\<And>p. 0 < ce_estimate env p" "co_reachable env r fine st"
  shows "\<exists>over st'. run_pass env st = Inr (over, st')
    \<and> (over \<longrightarrow> co_running st' = [] \<and> co_deferred st' = None \<and> co_queue st' = [])"
proof -
  obtain held ok where R: "stepwise_runner (ce_ops env) held ok fine" "ok r" "held r = {}"
    by (rule servesE [OF assms(1)])
  have "co_inv 0 {#} st" "runner_fits held ok fine [] st"
    using co_reachable_sound [OF R assms(2,3)] by blast+
  then show ?thesis
    by (rule stepwise_runner.run_pass_ok [OF R(1) refl assms(2)]) blast
qed

theorem pass_never_raises_witness:
  "\<exists>st over st'. ex_reachable st \<and> run_pass ex_env st = Inr (over, st')"
  by (rule ex_two_running) (use pass_never_raises [OF ex_env_ok] in blast)

lemma drains:
  assumes "stepwise_runner (ce_ops env) held ok fine" "\<And>p. 0 < ce_estimate env p"
  shows "co_inv 0 {#} st \<Longrightarrow> runner_fits held ok fine [] st \<Longrightarrow> co_closed st \<or> None \<in> set (co_queue st) \<Longrightarrow> potential st < n \<Longrightarrow>
    \<exists>st'. run_passes n env st = Inr (True, st') \<and> co_inv 0 {#} st' \<and> co_accepted st' = co_accepted st
      \<and> co_running st' = [] \<and> co_deferred st' = None \<and> co_queue st' = []"
proof (induction n arbitrary: st)
  case (Suc n)
  obtain over st1 where 1: "run_pass env st = Inr (over, st1)" "pass_post st st1" "runner_fits held ok fine [] st1"
    "over \<longrightarrow> co_running st1 = [] \<and> co_deferred st1 = None \<and> co_queue st1 = []"
    "co_closed st \<or> None \<in> set (co_queue st) \<longrightarrow> over \<or> potential st1 < potential st"
    by (rule stepwise_runner.run_pass_ok [OF assms(1) refl assms(2) Suc.prems(1,2)])
  note P = 1(2) [unfolded pass_post_unfold]
  show ?case
  proof (cases over)
    case True
    then show ?thesis
      using 1 P by simp
  next
    case False
    then have "potential st1 < n"
      using 1(5) Suc.prems by simp
    with Suc.IH [of st1] P Suc.prems(3) False 1(1,3) show ?thesis
      by auto
  qed
qed simp

text \<open>
  C15: Shutdown drains in bounded time. Once the shutdown sentinel is queued and no more
  requests arrive, the scheduler thread returns after at most one pass per token owed and
  item queued; then nothing is running, deferred or queued and every request ever
  accepted has been settled exactly once.
\<close>

theorem continuous_shutdown_drains:
  assumes "serves (ce_ops env) r fine" "\<And>p. 0 < ce_estimate env p" "co_reachable env r fine st"
    and "None \<in> set (co_queue st)"
  shows "\<exists>st'. run_passes (Suc (potential st)) env st = Inr (True, st')
    \<and> co_running st' = [] \<and> co_deferred st' = None \<and> co_queue st' = []
    \<and> mset (map (unstamped \<circ> fst) (co_settled st')) = mset (co_accepted st)"
proof -
  obtain held ok where R: "stepwise_runner (ce_ops env) held ok fine" "ok r" "held r = {}"
    by (rule servesE [OF assms(1)])
  have sound: "co_inv 0 {#} st" "runner_fits held ok fine [] st"
    using co_reachable_sound [OF R assms(2,3)] by blast+
  obtain st' where st': "run_passes (Suc (potential st)) env st = Inr (True, st')"
    "co_inv 0 {#} st'" "co_accepted st' = co_accepted st"
    "co_running st' = [] \<and> co_deferred st' = None \<and> co_queue st' = []"
    using drains [OF R(1) assms(2) sound, of "Suc (potential st)"] assms(4)
    by auto
  have "mset (co_taken st') = mset (map fst (co_settled st'))"
    "map unstamped (co_taken st') = co_accepted st"
    using co_invD(3) [OF st'(2)] st'(3,4) by (simp_all add: conserved_def)
  then have "image_mset unstamped (mset (map fst (co_settled st'))) = mset (co_accepted st)"
    by (metis mset_map)
  then have "mset (map (unstamped \<circ> fst) (co_settled st')) = mset (co_accepted st)"
    by (simp add: multiset.map_comp)
  with st'(1,4) show ?thesis
    by blast
qed

theorem continuous_shutdown_drains_witness:
  "\<exists>st st'. ex_reachable st \<and> length (co_running st) = 2
    \<and> run_passes (Suc (potential st)) ex_env st = Inr (True, st') \<and> co_running st' = []"
proof (rule co_played)
  show "rbind (rbind (ContinuousBatcher ex_runner 4 8 (MetricsRegistry 0) None)
      (rfold (co_apply ex_env) [Submit (ex_req ''a'' 5), Submit (ex_req ''b'' 2), Pass, Shut]))
      (\<lambda>st. Inr (length (co_running st), map (\<lambda>x. x = None) (co_queue st)))
    = Inr (2, [True])"
    by code_simp
next
  fix st
  assume st: "ex_reachable st" "(length (co_running st), map (\<lambda>x. x = None) (co_queue st)) = (2, [True])"
  then have "None \<in> set (co_queue st)"
    by auto
  from continuous_shutdown_drains [OF ex_env_ok st(1) this] st show ?thesis
    by auto
qed

section \<open>Where the scheduler falls short of its comments\<close>

lemma offer_without_cache:
  assumes "co_cache st = None"
  shows "offer_to_cache env r adm st = Inr (start_row r
    (SequenceState (co_next_id st) (rq_prompt r) (rq_generation r)) adm
    (st\<lparr>co_next_id := co_next_id st + 1\<rparr>))"
  using assms by (simp add: offer_to_cache_def Let_def)

lemma half_step: "0 < (x::int) \<Longrightarrow> nat ((x + 1) div 2) = Suc (nat ((x - 1) div 2))"
  by linarith

lemma admit_loop_counts:
  assumes "co_cache st = None" "co_deferred st = None" "co_queue st = map Some rs"
    and "\<forall>r \<in> set rs. rq_deadline r = None" "metrics_ok (co_metrics st)"
  shows "\<exists>adm' st'. admit_loop env adm st = Inr (adm', st')
    \<and> length (co_running st') = length (co_running st) + min (length rs)
        (nat ((co_max_batch st - int (length (co_running st)) - int (length adm) + 1) div 2))"
  using assms
proof (induction rs arbitrary: adm st)
  case Nil
  then show ?case
    by (simp add: admit_loop.simps)
next
  case (Cons r rs)
  let ?room = "co_max_batch st - int (length (co_running st)) - int (length adm)"
  show ?case
  proof (cases "0 < ?room")
    case False
    then have "nat ((?room + 1) div 2) = 0"
      by linarith
    with False show ?thesis
      by (simp add: admit_loop.simps)
  next
    case True
    let ?r = "stamp (ce_clock env (co_ticks st)) r"
    let ?st1 = "st\<lparr>co_queue := map Some rs, co_ticks := co_ticks st + 2, co_taken := co_taken st @ [?r]\<rparr>"
    have "rq_deadline r = None"
      using Cons.prems(4) by simp
    then have "dequeue_stamp env r (st\<lparr>co_queue := map Some rs\<rparr>) = (?r, False, ?st1)"
      by (simp add: dequeue_stamp_def Let_def expired_def)
    then obtain r' st1 where deq: "dequeue_stamp env r (st\<lparr>co_queue := map Some rs\<rparr>) = (r', False, st1)"
      and st1: "co_cache st1 = None" "co_deferred st1 = None" "co_queue st1 = map Some rs"
        "co_running st1 = co_running st" "co_max_batch st1 = co_max_batch st"
        "co_metrics st1 = co_metrics st"
      using Cons.prems(1,2) by simp
    obtain m where m: "record_queue_delay (queue_delay r') (co_metrics st1) = Inr m" "metrics_ok m"
      using record_queue_delay_ok Cons.prems(5) st1(6) by metis
    let ?st2 = "st1\<lparr>co_metrics := m\<rparr>"
    let ?s = "SequenceState (co_next_id ?st2) (rq_prompt r') (rq_generation r')"
    let ?st3 = "?st2\<lparr>co_next_id := co_next_id ?st2 + 1, co_running := co_running ?st2 @ [(r', ?s)]\<rparr>"
    obtain adm' st' where IH: "admit_loop env (adm @ [?s]) ?st3 = Inr (adm', st')"
      "length (co_running st') = length (co_running ?st3) + min (length rs)
        (nat ((co_max_batch ?st3 - int (length (co_running ?st3)) - int (length (adm @ [?s])) + 1) div 2))"
      using Cons.IH [of ?st3 "adm @ [?s]"] Cons.prems(4) st1 m(2) by auto
    have guard: "int (length (co_running st)) + int (length adm) < co_max_batch st"
      using True by linarith
    have noted: "note_delay r' st1 = Inr ?st2"
      using m(1) by (simp add: note_delay_def)
    have offer: "offer_to_cache env r' adm ?st2 = Inr (True, adm @ [?s], ?st3)"
      using st1(1) by (simp add: offer_without_cache start_row_def)
    have "admit_loop env adm st = admit_loop env (adm @ [?s]) ?st3"
      by (subst admit_loop.simps)
        (simp only: guard if_True Cons.prems(2,3) list.simps option.simps deq noted offer
          prod.case bool.case rbind_simps)
    then have loop: "admit_loop env adm st = Inr (adm', st')"
      using IH(1) by (rule trans)
    have l3: "length (co_running ?st3) = Suc (length (co_running st))"
      using st1(4) by simp
    have room3: "co_max_batch ?st3 - int (length (co_running ?st3)) - int (length (adm @ [?s])) + 1
        = ?room - 1"
      using st1(4,5) by simp
    have "length (co_running st') = length (co_running st) + min (length (r # rs)) (nat ((?room + 1) div 2))"
      unfolding IH(2) half_step [OF True] using st1(4,5) by (simp add: diff_diff_eq)
    with loop show ?thesis
      by blast
  qed
qed

text \<open>
  Admission fills only half of the free rows. Without a cache and with no deadline in
  play, a pass that finds enough queued requests starts \<open>ceil (free / 2)\<close> of them, not
  \<open>free\<close>: each admission is counted once in the running set and once in \<open>admitted\<close>.
\<close>

theorem admission_fills_half_the_free_rows:
  assumes "co_inv 0 {#} st" "co_cache st = None" "co_deferred st = None"
    and "co_queue st = map Some rs" "\<forall>r \<in> set rs. rq_deadline r = None"
    and "co_max_batch st - int (length (co_running st)) \<le> int (length rs)"
  shows "\<exists>adm' st'. admit_loop env [] st = Inr (adm', st')
    \<and> int (length (co_running st')) - int (length (co_running st))
        = (co_max_batch st - int (length (co_running st)) + 1) div 2"
proof -
  let ?free = "co_max_batch st - int (length (co_running st))"
  have free: "0 \<le> ?free"
    using co_invD(1) [OF assms(1)] by (simp add: rows_ok_def)
  obtain adm' st' where 1: "admit_loop env [] st = Inr (adm', st')"
      "length (co_running st') = length (co_running st) + min (length rs) (nat ((?free + 1) div 2))"
    using admit_loop_counts [OF assms(2-5), of env "[]"] co_invD(6) [OF assms(1)] by auto
  have "nat ((?free + 1) div 2) \<le> length rs"
    using assms(6) free by linarith
  then have "min (length rs) (nat ((?free + 1) div 2)) = nat ((?free + 1) div 2)"
    by (rule min.absorb2)
  with 1 free show ?thesis
    by auto
qed

theorem admission_fills_half_the_free_rows_witness:
  "\<exists>st adm' st'. ex_reachable st \<and> co_running st = [] \<and> co_max_batch st = 4
    \<and> length (co_queue st) = 4 \<and> admit_loop ex_env [] st = Inr (adm', st')
    \<and> length (co_running st') = 2"
proof (rule co_played)
  show "rbind (rbind (ContinuousBatcher ex_runner 4 8 (MetricsRegistry 0) None)
      (rfold (co_apply ex_env) (map (\<lambda>p. Submit (ex_req p 2)) [''a'', ''b'', ''c'', ''d''])))
      (\<lambda>st. Inr (co_cache st = None, co_deferred st = None, co_running st = [], co_max_batch st,
        co_queue st)) = Inr (True, True, True, 4, map (\<lambda>p. Some (ex_req p 2)) [''a'', ''b'', ''c'', ''d''])"
    by code_simp
next
  fix st
  assume st: "ex_reachable st"
    "(co_cache st = None, co_deferred st = None, co_running st = [], co_max_batch st, co_queue st)
      = (True, True, True, 4, map (\<lambda>p. Some (ex_req p 2)) [''a'', ''b'', ''c'', ''d''])"
  let ?rs = "map (\<lambda>p. ex_req p 2) [''a'', ''b'', ''c'', ''d'']"
  have "co_queue st = map Some ?rs" "\<forall>r \<in> set ?rs. rq_deadline r = None"
    using st(2) by (simp_all add: ex_req_def)
  from admission_fills_half_the_free_rows [OF co_reachable_inv [OF ex_env_ok st(1)] _ _ this, of ex_env] st
  show ?thesis by auto
qed

text \<open>
  Deferring never helps. A request the cache refuses while others run needs more
  blocks than the whole pool has, so in every state of a cache of that size, an empty
  one included, admitting it as a new sequence is refused again: the wait for running
  sequences to free blocks only holds up the queue behind it.
\<close>

theorem deferral_is_hopeless:
  assumes "kv_inv m" "co_cache st = Some m" "co_next_id st \<notin> kv_known m"
    and "0 < ce_estimate env (rq_prompt r)"
    and "offer_to_cache env r adm st = Inr (False, adm', st')"
    and "kv_inv m'" "s \<notin> kv_known m'" "ba_total (km_allocator m') = ba_total (km_allocator m)"
    and "km_block_size m' = km_block_size m"
  shows "co_deferred st' = Some r
    \<and> ba_total (km_allocator m) < ceil_div (ce_estimate env (rq_prompt r)) (km_block_size m)
    \<and> (\<exists>out m''. admit m' s (ce_estimate env (rq_prompt r)) = Inr (out, m'') \<and> \<not> outcome_ok out)"
proof -
  let ?n = "ce_estimate env (rq_prompt r)"
  have fresh: "map_of (km_tables m) (co_next_id st) = None" "map_of (km_tables m') s = None"
    using assms(3,7) by (simp_all add: kv_known_iff)
  have need: "additional_blocks_for m (co_next_id st) ?n = ceil_div ?n (km_block_size m)"
      "additional_blocks_for m' s ?n = ceil_div ?n (km_block_size m)"
      "blocks_held m (co_next_id st) = 0" "blocks_held m' s = 0"
    using fresh assms(9) by (simp_all add: additional_blocks_for_def blocks_held_def)
  obtain out m1 where adm: "admit m (co_next_id st) ?n = Inr (out, m1)" "\<not> outcome_ok out"
      "co_deferred st' = Some r"
    using assms(5)
  proof (cases rule: offer_to_cache_cases)
    case no_cache
    then show ?thesis by (simp add: start_row_def)
  next
    case (deferred m0 out m1)
    then show ?thesis using assms(2) that by auto
  qed (simp_all add: start_row_def)
  have big: "ba_total (km_allocator m) < ceil_div ?n (km_block_size m)"
  proof (cases rule: reserve_cases [OF assms(1,4) adm(1) [unfolded admit_def]])
    case 1
    then show ?thesis using adm(2) by simp
  next
    case 2
    then show ?thesis using need by simp
  qed
  have "\<exists>out m''. admit m' s ?n = Inr (out, m'') \<and> \<not> outcome_ok out"
    using reserve_refused [OF assms(6,4), of True s] need big assms(8)
    by (simp add: admit_def outcome_ok_def)
  with adm(3) big show ?thesis
    by blast
qed

text \<open>A running sequence in a one-block cache, and a prompt of nine words offered to it.\<close>

definition ex_small_cache :: kv_manager where
  "ex_small_cache = \<lparr>km_allocator = \<lparr>ba_total = 1, ba_block_size = 8, ba_free = [0],
       ba_references = [0]\<rparr>, km_block_size = 8, km_policy = NEWEST, km_tables = [],
     km_admission_order = [], km_preemptions = 0, km_recomputed_tokens = 0\<rparr>"

definition ex_tight :: "echo_runner continuous_batcher" where
  "ex_tight = \<lparr>co_runner = ex_runner, co_max_batch = 4, co_capacity = 4, co_queue = [],
     co_stopping = False, co_closed = False, co_deferred = None, co_next_id = 2,
     co_running = [(ex_req ''a'' 5, SequenceState 1 ''a'' (gc_defaults\<lparr>gc_max_new_tokens := 5\<rparr>))],
     co_stats = ContinuousStats, co_cache = Some ex_small_cache, co_metrics = MetricsRegistry 0,
     co_ticks = 0, co_accepted = [], co_taken = [], co_settled = []\<rparr>"

theorem deferral_is_hopeless_witness:
  "\<exists>st'. offer_to_cache ex_env (ex_req ''b b b b b b b b b'' 2) [] ex_tight = Inr (False, [], st')
    \<and> co_deferred st' = Some (ex_req ''b b b b b b b b b'' 2)"
proof -
  let ?r = "ex_req ''b b b b b b b b b'' 2"
  have inv: "kv_inv ex_small_cache" "\<And>i. i \<notin> kv_known ex_small_cache"
    using kv_inv_init [of 1 8 NEWEST ex_small_cache]
    by (simp_all add: KVCacheManager_def BlockAllocator_def ex_small_cache_def kv_known_def)
  have "rbind (offer_to_cache ex_env ?r [] ex_tight) (\<lambda>(go_on, adm, st). Inr (go_on, adm = []))
      = Inr (False, True)"
    by code_simp
  then obtain st' where st': "offer_to_cache ex_env ?r [] ex_tight = Inr (False, [], st')"
    by (auto simp: rbind_eq_Inr)
  have "co_cache ex_tight = Some ex_small_cache"
    by (simp add: ex_tight_def)
  from deferral_is_hopeless [OF inv(1) this inv(2) ex_env_ok(2) st' inv(1,2) refl refl] st'
  show ?thesis by blast
qed

text \<open>
  A sequence preempted in the pass that admits it leaks. There is a reachable state in
  which nothing is running, deferred or queued and yet the runner still holds a sequence:
  \<open>_admit\<close> prefills everything it admitted, including what a later admission of the same
  pass already evicted.
\<close>

theorem same_pass_preemption_leaks:
  "\<exists>st. ex_reachable st \<and> co_running st = [] \<and> co_deferred st = None \<and> co_queue st = []
    \<and> length (co_settled st) = length (co_accepted st) \<and> 1 \<in> er_active (co_runner st)"
proof (rule co_played_cache)
  show "rbind (rbind (rbind (KVCacheManager 1 8 NEWEST)
        (\<lambda>m. ContinuousBatcher ex_runner 4 4 (MetricsRegistry 0) (Some m)))
      (rfold (co_apply ex_env) [Submit (ex_req ''a'' 2), Submit (ex_req ''b'' 2), Pass, Pass]))
      (\<lambda>st. Inr (co_running st = [], co_deferred st = None, co_queue st = [],
        length (co_settled st) = length (co_accepted st), 1 \<in> er_active (co_runner st)))
    = Inr (True, True, True, True, True)"
    by code_simp
qed auto

definition ex_rows :: "int list \<Rightarrow> (request \<times> sequence_state) list" where
  "ex_rows ids = map (\<lambda>i. (ex_req ''a'' 5, SequenceState i ''a'' gc_defaults)) ids"

text \<open>
  A dead sequence costs a live one. There is a cache state in which growing the rows
  evicts sequence 2 only because sequence 3, evicted a moment earlier in the same loop, is
  grown as well: leaving it out, sequences 1 and 2 both keep their cache.
\<close>

theorem evicted_row_still_reserves:
  "\<exists>m m1 m2. kv_reachable m \<and> extend_all (ex_rows [1, 2, 3]) m [] = Inr ([3, 2], m1)
    \<and> extend_all (ex_rows [1, 2]) m [] = Inr ([3], m2)
    \<and> blocks_held m1 2 = 0 \<and> blocks_held m2 1 = 2 \<and> blocks_held m2 2 = 1"
proof -
  have "rbind (KVCacheManager 3 2 NEWEST) (\<lambda>m. rbind (admit m 1 2) (\<lambda>(_, m).
      rbind (admit m 2 1) (\<lambda>(_, m). rbind (admit m 3 1) (\<lambda>(_, m).
      rbind (extend_all (ex_rows [1, 2, 3]) m []) (\<lambda>(c1, m1).
      rbind (extend_all (ex_rows [1, 2]) m []) (\<lambda>(c2, m2).
        Inr (c1, c2, blocks_held m1 2, blocks_held m2 1, blocks_held m2 2)))))))
    = Inr ([3, 2], [3], 0, 2, 1)"
    by code_simp
  then obtain m0 o1 m1 o2 m2 o3 m c1 n1 c2 n2 where
    "KVCacheManager 3 2 NEWEST = Inr m0" "admit m0 1 2 = Inr (o1, m1)" "admit m1 2 1 = Inr (o2, m2)"
    "admit m2 3 1 = Inr (o3, m)" "extend_all (ex_rows [1, 2, 3]) m [] = Inr (c1, n1)"
    "extend_all (ex_rows [1, 2]) m [] = Inr (c2, n2)"
    "(c1, c2, blocks_held n1 2, blocks_held n2 1, blocks_held n2 2) = ([3, 2], [3], 0, 2, 1)"
    by (auto simp: rbind_eq_Inr)
  moreover from this have "kv_reachable m"
    by (meson kv_start kv_admit zero_le_numeral zero_le_one)
  ultimately show ?thesis
    by auto
qed

end
