(* ===== verification/Replicated.thy ===== *)
theory Replicated
  imports Config Metrics Py_Text
begin

text \<open>
  \<open>python/cudaforge/replicated.py\<close>: one engine per device behind a router. A replica is
  known by the operations of the \<open>ServingEngine\<close> protocol only; \<open>'a\<close> stands for the
  arguments of \<open>submit\<close>, \<open>'f\<close> for the future it returns. The queue depths a routing decision
  read, one replica after the other, are an argument of the decision.
\<close>

section \<open>The serving engine protocol\<close>

record ('a, 'f, 'e) engine_ops =
  eo_depth :: "'e \<Rightarrow> int"
  eo_submit :: "'a \<Rightarrow> 'e \<Rightarrow> 'f result \<times> 'e"
  eo_snapshot :: "'e \<Rightarrow> metrics_snapshot result"
  eo_shutdown :: "'e \<Rightarrow> py_error option \<times> 'e"      \<comment> \<open>what it raised, if anything\<close>

section \<open>The router\<close>

record 'e replicated =
  rp_replicas :: "'e list"
  rp_rotation :: nat                              \<comment> \<open>what the cycle yields next\<close>
  rp_routed :: "nat list"
  rp_closed :: bool

definition ReplicatedEngine :: "'e list \<Rightarrow> 'e replicated result" where
  "ReplicatedEngine replicas =
     (if replicas = [] then Inl ValueError
      else Inr \<lparr>rp_replicas = replicas, rp_rotation = 0,
                rp_routed = replicate (length replicas) 0, rp_closed = False\<rparr>)"

datatype device = DeviceName string | DeviceIndex int

definition device_string :: "device \<Rightarrow> string" where
  "device_string d = (case d of DeviceName s \<Rightarrow> s | DeviceIndex i \<Rightarrow> ''cuda:'' @ str_int i)"

fun build_all :: "(string \<Rightarrow> 'e result) \<Rightarrow> device list \<Rightarrow> 'e list result" where
  "build_all build [] = Inr []"
| "build_all build (d # ds) =
     rbind (build (device_string d)) (\<lambda>e. rbind (build_all build ds) (\<lambda>es. Inr (e # es)))"

definition across_devices :: "device list \<Rightarrow> (string \<Rightarrow> 'e result) \<Rightarrow> 'e replicated result" where
  "across_devices devices build = rbind (build_all build devices) ReplicatedEngine"

definition total_depth :: "('a, 'f, 'e) engine_ops \<Rightarrow> 'e replicated \<Rightarrow> int" where
  "total_depth ops st = sum_list (map (eo_depth ops) (rp_replicas st))"

definition replica_count :: "'e replicated \<Rightarrow> nat" where
  "replica_count st = length (rp_replicas st)"

definition routed_counts :: "'e replicated \<Rightarrow> nat list" where
  "routed_counts st = rp_routed st"

text \<open>The loop of \<open>_choose\<close>: at most so many steps of the cycle; \<open>None\<close> when it finds nobody.\<close>

fun rotate_to :: "nat list \<Rightarrow> nat \<Rightarrow> nat \<Rightarrow> nat \<Rightarrow> nat option \<times> nat" where
  "rotate_to candidates n 0 pos = (None, pos)"
| "rotate_to candidates n (Suc k) pos =
     (let index = pos; pos = Suc pos mod n in
      if index \<in> set candidates then (Some index, pos) else rotate_to candidates n k pos)"

definition shallowest_replicas :: "int list \<Rightarrow> nat list" where
  "shallowest_replicas depths = filter (\<lambda>i. depths ! i = Min (set depths)) [0..<length depths]"

definition choose_replica :: "int list \<Rightarrow> 'e replicated \<Rightarrow> (nat \<times> 'e replicated) result" where
  "choose_replica depths st =
     (if depths = [] then Inl ValueError
      else let candidates = shallowest_replicas depths in
        if length candidates = 1 then Inr (candidates ! 0, st)
        else let n = length (rp_replicas st);
                 (found, pos) = rotate_to candidates n n (rp_rotation st);
                 st = st\<lparr>rp_rotation := pos\<rparr> in
          (case found of Some i \<Rightarrow> Inr (i, st) | None \<Rightarrow> Inr (candidates ! 0, st)))"

text \<open>\<open>submit\<close>: a refusal by the replica passes through, and was counted as routed.\<close>

definition replicated_submit ::
  "('a, 'f, 'e) engine_ops \<Rightarrow> int list \<Rightarrow> 'a \<Rightarrow> 'e replicated \<Rightarrow> 'f result \<times> 'e replicated" where
  "replicated_submit ops depths a st =
     (if rp_closed st then (Inl EngineClosedError, st)
      else case choose_replica depths st of
        Inl err \<Rightarrow> (Inl err, st)
      | Inr (i, st) \<Rightarrow>
          let st = st\<lparr>rp_routed := (rp_routed st)[i := Suc (rp_routed st ! i)]\<rparr>;
              (out, e) = eo_submit ops a (rp_replicas st ! i)
          in (out, st\<lparr>rp_replicas := (rp_replicas st)[i := e]\<rparr>))"

definition current_depths :: "('a, 'f, 'e) engine_ops \<Rightarrow> 'e replicated \<Rightarrow> int list" where
  "current_depths ops st = map (eo_depth ops) (rp_replicas st)"

definition set_extra :: "string \<Rightarrow> extra_value \<Rightarrow> metrics_snapshot \<Rightarrow> metrics_snapshot" where
  "set_extra k v s = s\<lparr>extra := AList.update k v (extra s)\<rparr>"

fun snapshot_all :: "('a, 'f, 'e) engine_ops \<Rightarrow> 'e list \<Rightarrow> metrics_snapshot list result" where
  "snapshot_all ops [] = Inr []"
| "snapshot_all ops (e # es) =
     rbind (eo_snapshot ops e) (\<lambda>s. rbind (snapshot_all ops es) (\<lambda>ss. Inr (s # ss)))"

definition replicated_snapshot :: "('a, 'f, 'e) engine_ops \<Rightarrow> 'e replicated \<Rightarrow> metrics_snapshot result" where
  "replicated_snapshot ops st =
     rbind (snapshot_all ops (rp_replicas st)) (\<lambda>snapshots.
       case snapshots of
         [] \<Rightarrow> Inl IndexError
       | s # ss \<Rightarrow>
           let total = (\<lambda>f. sum_list (map f (s # ss)));
               s = s\<lparr>requests_completed := total requests_completed,
                     requests_failed := total requests_failed,
                     requests_expired := total requests_expired,
                     batches_processed := total batches_processed,
                     queue_depth := total_depth ops st\<rparr>
           in Inr (set_extra ''percentiles_from'' (XStr ''replica 0 only; histograms do not merge'')
                    (set_extra ''parallelism'' (XStr ''data'')
                      (set_extra ''routing'' (XStr ''least-queue-depth'')
                        (set_extra ''replicas'' (XInt (int (replica_count st))) s)))))"

fun shutdown_all :: "('a, 'f, 'e) engine_ops \<Rightarrow> 'e list \<Rightarrow> py_error list \<times> 'e list" where
  "shutdown_all ops [] = ([], [])"
| "shutdown_all ops (e # es) =
     (let (err, e) = eo_shutdown ops e; (errs, es) = shutdown_all ops es
      in ((case err of None \<Rightarrow> errs | Some x \<Rightarrow> x # errs), e # es))"

definition replicated_shutdown ::
  "('a, 'f, 'e) engine_ops \<Rightarrow> 'e replicated \<Rightarrow> py_error option \<times> 'e replicated" where
  "replicated_shutdown ops st =
     (if rp_closed st then (None, st)
      else let st = st\<lparr>rp_closed := True\<rparr>;
               (errors, es) = shutdown_all ops (rp_replicas st);
               st = st\<lparr>rp_replicas := es\<rparr>
           in (case errors of [] \<Rightarrow> (None, st) | x # _ \<Rightarrow> (Some x, st)))"

text \<open>The router is a serving engine itself.\<close>

definition replicated_ops ::
  "('a, 'f, 'e) engine_ops \<Rightarrow> ('a, 'f, 'e replicated) engine_ops" where
  "replicated_ops ops =
     \<lparr>eo_depth = total_depth ops,
      eo_submit = (\<lambda>a st. replicated_submit ops (current_depths ops st) a st),
      eo_snapshot = replicated_snapshot ops,
      eo_shutdown = replicated_shutdown ops\<rparr>"

section \<open>The contract\<close>

text \<open>
  What clients rely on: a shutdown that returns leaves the engine closed, and a closed
  engine refuses.
\<close>

locale serving_engine =
  fixes ops :: "('a, 'f, 'e) engine_ops"
    and closed :: "'e \<Rightarrow> bool"
  assumes shutdown_closes: "fst (eo_shutdown ops e) = None \<Longrightarrow> closed (snd (eo_shutdown ops e))"
    and closed_refuses: "closed e \<Longrightarrow> \<exists>err. fst (eo_submit ops a e) = Inl err"
begin

lemma shutdown_all_closes:
  "fst (shutdown_all ops es) = [] \<Longrightarrow> list_all closed (snd (shutdown_all ops es))"
proof (induction es)
  case (Cons e es)
  then show ?case
    using shutdown_closes [of e] by (auto simp: case_prod_unfold Let_def split: option.splits)
qed simp

lemma replicated_closes:
  "\<not> rp_closed st \<Longrightarrow> fst (replicated_shutdown ops st) = None \<Longrightarrow>
     list_all closed (rp_replicas (snd (replicated_shutdown ops st)))"
  using shutdown_all_closes [of "rp_replicas st"]
  by (auto simp: replicated_shutdown_def Let_def case_prod_unfold split: list.splits)

text \<open>So routers nest: a router over engines that keep the contract keeps it.\<close>

lemma replicated_serves: "serving_engine (replicated_ops ops) rp_closed"
  by unfold_locales
    (auto simp: replicated_ops_def replicated_shutdown_def replicated_submit_def Let_def case_prod_unfold
      split: list.splits if_splits)

end

end
