(* ===== verification/Replicated_Properties.thy ===== *)
theory Replicated_Properties
  imports Replicated
begin

text \<open>
  Routing goes to a shallowest queue and, among equals, round; shutdown reaches every
  replica.
\<close>

lemma shallowest_facts:
  assumes "depths \<noteq> []"
  shows "shallowest_replicas depths \<noteq> []"
    "i \<in> set (shallowest_replicas depths) \<longleftrightarrow> i < length depths \<and> depths ! i = Min (set depths)"
proof -
  have "Min (set depths) \<in> set depths"
    using assms by simp
  then show "shallowest_replicas depths \<noteq> []"
    by (auto simp: shallowest_replicas_def filter_empty_conv in_set_conv_nth)
  show "i \<in> set (shallowest_replicas depths) \<longleftrightarrow> i < length depths \<and> depths ! i = Min (set depths)"
    by (auto simp: shallowest_replicas_def)
qed

text \<open>\<open>k\<close> steps of the cycle find a candidate that is fewer than \<open>k\<close> places ahead.\<close>

lemma rotate_to_finds:
  assumes "0 < n" "d < k" "(pos + d) mod n \<in> set candidates" "pos < n"
  obtains i pos' where "rotate_to candidates n k pos = (Some i, pos')" "i \<in> set candidates" "pos' < n"
  using assms(2-)
proof (induction k arbitrary: d pos thesis)
  case (Suc k)
  show thesis
  proof (cases "pos \<in> set candidates")
    case True
    then show thesis
      using Suc.prems(1) [of pos "Suc pos mod n"] assms(1) by simp
  next
    case False
    with Suc.prems(3,4) have "d \<noteq> 0"
      by (cases d) auto
    then obtain d' where d': "d = Suc d'"
      by (cases d) auto
    have "(Suc pos mod n + d') mod n = (pos + d) mod n"
      unfolding d' by (simp add: mod_add_left_eq)
    with Suc.prems(2,3) have "(Suc pos mod n + d') mod n \<in> set candidates" "d' < k"
      by (simp_all add: d')
    from Suc.IH [OF _ this(2,1)] assms(1) obtain i pos' where
      "rotate_to candidates n k (Suc pos mod n) = (Some i, pos')" "i \<in> set candidates" "pos' < n"
      by (metis mod_less_divisor)
    then show thesis
      using False by (intro Suc.prems(1) [of i pos']) simp_all
  qed
qed simp

lemma rotate_to_here:
  "pos \<in> set candidates \<Longrightarrow> 0 < k \<Longrightarrow> rotate_to candidates n k pos = (Some pos, Suc pos mod n)"
  by (cases k) simp_all

lemma rotate_to_total:
  assumes "0 < n" "c \<in> set candidates" "c < n" "pos < n"
  obtains i pos' where "rotate_to candidates n n pos = (Some i, pos')" "i \<in> set candidates" "pos' < n"
proof (rule rotate_to_finds [of n "(c + n - pos) mod n" n pos candidates])
  have "(pos + (c + n - pos) mod n) mod n = (pos + (c + n - pos)) mod n"
    by (simp add: mod_simps)
  also have "\<dots> = c"
    using assms(3,4) by simp
  finally show "(pos + (c + n - pos) mod n) mod n \<in> set candidates"
    using assms(2) by simp
qed (use assms in simp_all)

lemma choose_replica_ok:
  assumes "rp_replicas st \<noteq> []" "length depths = length (rp_replicas st)"
    "rp_rotation st < length (rp_replicas st)"
  obtains i pos where "choose_replica depths st = Inr (i, st\<lparr>rp_rotation := pos\<rparr>)"
    "i < length (rp_replicas st)" "depths ! i = Min (set depths)" "pos < length (rp_replicas st)"
proof -
  have d: "depths \<noteq> []"
    using assms(1,2) by auto
  show thesis
  proof (cases "length (shallowest_replicas depths) = 1")
    case True
    then have "shallowest_replicas depths ! 0 \<in> set (shallowest_replicas depths)"
      by simp
    with shallowest_facts(2) [OF d] True assms show thesis
      by (intro that [of "shallowest_replicas depths ! 0" "rp_rotation st"]) (simp_all add: choose_replica_def d)
  next
    case False
    obtain c where c: "c \<in> set (shallowest_replicas depths)"
      using shallowest_facts(1) [OF d] by (meson last_in_set)
    then have "c < length (rp_replicas st)"
      using shallowest_facts(2) [OF d] assms(2) by simp
    from rotate_to_total [OF _ c this assms(3)] assms(1) obtain i pos where
      r: "rotate_to (shallowest_replicas depths) (length (rp_replicas st)) (length (rp_replicas st)) (rp_rotation st)
            = (Some i, pos)" "i \<in> set (shallowest_replicas depths)" "pos < length (rp_replicas st)"
      by (metis length_greater_0_conv)
    then show thesis
      using shallowest_facts(2) [OF d] assms(2) False
      by (intro that [of i pos]) (simp_all add: choose_replica_def d Let_def)
  qed
qed

text \<open>At equal depths the choice is the next one of the cycle.\<close>

lemma choose_replica_level:
  assumes "n = length (rp_replicas st)" "rp_rotation st < n"
  shows "choose_replica (replicate n d) st = Inr (rp_rotation st, st\<lparr>rp_rotation := Suc (rp_rotation st) mod n\<rparr>)"
proof -
  have all: "shallowest_replicas (replicate n d) = [0..<n]"
    using assms(2) by (simp add: shallowest_replicas_def filter_id_conv)
  show ?thesis
  proof (cases "n = 1")
    case True
    then show ?thesis
      using assms all by (simp add: choose_replica_def)
  next
    case False
    have "rotate_to [0..<n] n n (rp_rotation st) = (Some (rp_rotation st), Suc (rp_rotation st) mod n)"
      using assms(2) by (intro rotate_to_here) simp_all
    moreover have "replicate n d \<noteq> []"
      using assms(2) by auto
    ultimately show ?thesis
      unfolding choose_replica_def all using False by (simp add: Let_def flip: assms(1))
  qed
qed

text \<open>Submissions under level load: at every decision all depths read the same.\<close>

fun submit_level ::
  "('a, 'f, 'e) engine_ops \<Rightarrow> (int \<times> 'a) list \<Rightarrow> 'e replicated \<Rightarrow> 'e replicated" where
  "submit_level ops [] st = st"
| "submit_level ops ((d, a) # das) st =
     submit_level ops das (snd (replicated_submit ops (replicate (length (rp_replicas st)) d) a st))"

text \<open>How often \<open>i\<close> occurs among the first \<open>m\<close> numbers modulo \<open>n\<close>.\<close>

definition turns :: "nat \<Rightarrow> nat \<Rightarrow> nat \<Rightarrow> nat" where
  "turns n m i = (m + n - 1 - i) div n"

lemma turns_Suc:
  assumes "i < n"
  shows "turns n (Suc m) i = turns n m i + (if m mod n = i then 1 else 0)"
proof -
  have "(m + n - 1 - i) = n * (m div n) + (m mod n + (n - 1 - i))"
    using assms by simp
  then have 1: "turns n m i = m div n + (m mod n + (n - 1 - i)) div n"
    unfolding turns_def using assms by (metis div_mult_self4 gr_implies_not0 mult.commute)
  have "(Suc m + n - 1 - i) = n * (m div n) + (m mod n + (n - i))"
    using assms by simp
  then have 2: "turns n (Suc m) i = m div n + (m mod n + (n - i)) div n"
    unfolding turns_def using assms by (metis div_mult_self4 gr_implies_not0 mult.commute)
  obtain r where r: "m mod n = r" "r < n"
    using assms by simp
  have "(r + (n - i)) div n = (if i \<le> r then 1 else 0)"
    "(r + (n - 1 - i)) div n = (if i < r then 1 else 0)"
    using assms r(2) by (auto intro!: div_nat_eqI)
  with 1 2 show ?thesis
    unfolding r(1) by auto
qed

lemma turns_0: "i < n \<Longrightarrow> turns n 0 i = 0"
  by (simp add: turns_def)

definition level_state :: "nat \<Rightarrow> 'e replicated \<Rightarrow> bool" where
  "level_state m st \<longleftrightarrow> rp_replicas st \<noteq> [] \<and> \<not> rp_closed st
     \<and> rp_rotation st = m mod length (rp_replicas st)
     \<and> rp_routed st = map (turns (length (rp_replicas st)) m) [0..<length (rp_replicas st)]"

lemma replicated_submit_level:
  assumes "level_state m st"
  shows "level_state (Suc m) (snd (replicated_submit ops (replicate (length (rp_replicas st)) d) a st))
    \<and> length (rp_replicas (snd (replicated_submit ops (replicate (length (rp_replicas st)) d) a st)))
        = length (rp_replicas st)"
proof -
  let ?n = "length (rp_replicas st)"
  have n: "0 < ?n" and c: "\<not> rp_closed st" and rot: "rp_rotation st = m mod ?n"
    and routed: "rp_routed st = map (turns ?n m) [0..<?n]"
    using assms by (simp_all add: level_state_def)
  have "(map (turns ?n m) [0..<?n])[m mod ?n := Suc (turns ?n m (m mod ?n))] = map (turns ?n (Suc m)) [0..<?n]"
    by (rule nth_equalityI) (simp_all add: nth_list_update turns_Suc)
  with routed n have "(rp_routed st)[m mod ?n := Suc (rp_routed st ! (m mod ?n))] = map (turns ?n (Suc m)) [0..<?n]"
    by simp
  moreover have "choose_replica (replicate ?n d) st = Inr (m mod ?n, st\<lparr>rp_rotation := Suc m mod ?n\<rparr>)"
    using choose_replica_level [OF refl, of st d] n rot by (simp add: mod_Suc_eq)
  ultimately show ?thesis
    using n c by (auto simp: replicated_submit_def level_state_def Let_def case_prod_unfold)
qed

lemma submit_level_ok:
  "level_state m st \<Longrightarrow> level_state (m + length das) (submit_level ops das st)
     \<and> length (rp_replicas (submit_level ops das st)) = length (rp_replicas st)"
proof (induction das arbitrary: m st)
  case (Cons da das)
  obtain d a where da: "da = (d, a)" by (cases da)
  from replicated_submit_level [OF Cons.prems, of ops d a] Cons.IH show ?case
    by (fastforce simp: da)
qed simp

lemma turns_level:
  assumes "i < n" "j < n"
  shows "turns n m i \<le> turns n m j + 1"
proof (cases "i \<le> j")
  case True
  obtain q where q: "q = m + n - 1 - j"
    by simp
  have "m + n - 1 - i \<le> q + n"
    using assms unfolding q by simp
  then have "turns n m i \<le> (q + n) div n"
    unfolding turns_def by (rule div_le_mono)
  also have "\<dots> = q div n + 1"
    using assms by simp
  also have "\<dots> = turns n m j + 1"
    unfolding turns_def q ..
  finally show ?thesis .
next
  case False
  then have "turns n m i \<le> turns n m j"
    unfolding turns_def by (intro div_le_mono) simp
  then show ?thesis
    by simp
qed

lemma turns_total: "0 < n \<Longrightarrow> (\<Sum>i<n. turns n m i) = m"
proof (induction m)
  case 0
  then show ?case
    by (simp add: turns_0)
next
  case (Suc m)
  have "(\<Sum>i<n. turns n (Suc m) i) = (\<Sum>i<n. turns n m i + (if i = m mod n then 1 else 0))"
    by (rule sum.cong) (auto simp: turns_Suc)
  also have "\<dots> = Suc m"
    using Suc by (simp add: sum.distrib)
  finally show ?case .
qed

section \<open>Properties\<close>

text \<open>
  A request goes to a replica with a shallowest queue. Routing never raises and never
  reaches its fallback: within one turn the cycle meets a candidate.
\<close>

theorem routes_to_shallowest:
  assumes "rp_replicas st \<noteq> []" "length depths = length (rp_replicas st)"
    "rp_rotation st < length (rp_replicas st)"
  shows "\<exists>i st'. choose_replica depths st = Inr (i, st') \<and> i < length (rp_replicas st)
    \<and> (\<forall>j < length depths. depths ! i \<le> depths ! j)
    \<and> rp_rotation st' < length (rp_replicas st') \<and> rp_replicas st' = rp_replicas st"
proof -
  from choose_replica_ok [OF assms] obtain i pos where
    c: "choose_replica depths st = Inr (i, st\<lparr>rp_rotation := pos\<rparr>)" "i < length (rp_replicas st)"
      "depths ! i = Min (set depths)" "pos < length (rp_replicas st)" .
  moreover have "\<forall>j < length depths. depths ! i \<le> depths ! j"
    using c(3) by simp
  ultimately show ?thesis
    by (intro exI [of _ i] exI [of _ "st\<lparr>rp_rotation := pos\<rparr>"]) simp
qed

definition ex_router :: "unit replicated" where
  "ex_router = \<lparr>rp_replicas = [(), (), ()], rp_rotation = 2, rp_routed = [0, 0, 0], rp_closed = False\<rparr>"

theorem routes_to_shallowest_witness:
  "\<exists>i st'. choose_replica [1, 0, 0] ex_router = Inr (i, st') \<and> i = 2 \<and> [1, 0, 0] ! i \<le> (0 :: int)"
proof -
  have "rp_replicas ex_router \<noteq> []" "length [1, 0, 0 :: int] = length (rp_replicas ex_router)"
    "rp_rotation ex_router < length (rp_replicas ex_router)"
    by (simp_all add: ex_router_def)
  from routes_to_shallowest [OF this] obtain i st' where
    i: "choose_replica [1, 0, 0] ex_router = Inr (i, st')" "\<forall>j < 3. [1, 0, 0 :: int] ! i \<le> [1, 0, 0] ! j"
    by auto
  moreover have "choose_replica [1, 0, 0] ex_router = Inr (2, ex_router\<lparr>rp_rotation := 0\<rparr>)"
    by code_simp
  ultimately show ?thesis
    by (auto dest: spec [of _ 1])
qed

text \<open>
  Level load is shared fairly. Whenever every decision reads equal depths, after any
  number of submissions to a fresh router the replicas' counts differ by at most one and add
  up to that number, whatever the replicas answered.
\<close>

theorem level_load_is_shared:
  assumes "ReplicatedEngine replicas = Inr st" "st' = submit_level ops das st"
  shows "length (routed_counts st') = length replicas \<and> sum_list (routed_counts st') = length das
    \<and> (\<forall>i < length replicas. \<forall>j < length replicas. routed_counts st' ! i \<le> routed_counts st' ! j + 1)"
proof -
  have st: "rp_replicas st = replicas" "replicas \<noteq> []"
    using assms(1) by (auto simp: ReplicatedEngine_def split: if_splits)
  have "level_state 0 st"
    using assms(1) by (auto simp: ReplicatedEngine_def level_state_def turns_0 split: if_splits
        intro!: nth_equalityI)
  from submit_level_ok [OF this, of das ops] have
    r: "routed_counts st' = map (turns (length replicas) (length das)) [0..<length replicas]"
    by (simp add: level_state_def routed_counts_def assms(2) st)
  have "sum_list (routed_counts st') = (\<Sum>i<length replicas. turns (length replicas) (length das) i)"
    unfolding r by (simp add: sum_list_distinct_conv_sum_set atLeast0LessThan)
  with st(2) turns_total [of "length replicas" "length das"] show ?thesis
    by (simp add: r turns_level [simplified])
qed

definition ex_ops :: "(unit, nat, nat) engine_ops" where
  "ex_ops = \<lparr>eo_depth = int, eo_submit = (\<lambda>_ n. (Inr n, Suc n)), eo_snapshot = (\<lambda>_. Inl KeyError),
     eo_shutdown = (\<lambda>n. (if n = 0 then Some RuntimeError else None, n + 10))\<rparr>"

theorem level_load_is_shared_witness:
  "\<exists>st. ReplicatedEngine [0, 0 :: nat] = Inr st
     \<and> sum_list (routed_counts (submit_level ex_ops [(0, ()), (0, ()), (0, ())] st)) = 3"
proof -
  obtain st where "ReplicatedEngine [0, 0 :: nat] = Inr st"
    by (simp add: ReplicatedEngine_def)
  with level_load_is_shared [OF this refl, of ex_ops "[(0, ()), (0, ()), (0, ())]"] show ?thesis
    by (intro exI [of _ st]) simp
qed

lemma shutdown_all_eq:
  "shutdown_all ops es =
     (concat (map (\<lambda>e. case fst (eo_shutdown ops e) of None \<Rightarrow> [] | Some x \<Rightarrow> [x]) es),
      map (\<lambda>e. snd (eo_shutdown ops e)) es)"
  by (induction es) (auto simp: case_prod_unfold Let_def split: option.splits)

text \<open>
  Shutdown reaches every replica. Whatever some of them raise, each one's own shutdown is
  run once; the first exception, if any, comes out at the end, and a second shutdown does
  nothing.
\<close>

theorem shutdown_reaches_every_replica:
  assumes "\<not> rp_closed st" "replicated_shutdown ops st = (raised, st')"
  shows "rp_closed st' \<and> rp_replicas st' = map (\<lambda>e. snd (eo_shutdown ops e)) (rp_replicas st)
    \<and> (raised = None \<longleftrightarrow> list_all (\<lambda>e. fst (eo_shutdown ops e) = None) (rp_replicas st))
    \<and> (\<forall>x. raised = Some x \<longrightarrow> Some x \<in> (\<lambda>e. fst (eo_shutdown ops e)) ` set (rp_replicas st))
    \<and> replicated_shutdown ops st' = (None, st')"
proof -
  obtain errs es where all: "shutdown_all ops (rp_replicas st) = (errs, es)"
    by (cases "shutdown_all ops (rp_replicas st)")
  then have es: "es = map (\<lambda>e. snd (eo_shutdown ops e)) (rp_replicas st)"
    and errs: "errs = concat (map (\<lambda>e. case fst (eo_shutdown ops e) of None \<Rightarrow> [] | Some x \<Rightarrow> [x]) (rp_replicas st))"
    by (simp_all add: shutdown_all_eq)
  have eq: "raised = (case errs of [] \<Rightarrow> None | x # _ \<Rightarrow> Some x)"
    "st' = st\<lparr>rp_closed := True, rp_replicas := es\<rparr>"
    using assms all by (auto simp: replicated_shutdown_def Let_def split: list.splits)
  have "errs = [] \<longleftrightarrow> list_all (\<lambda>e. fst (eo_shutdown ops e) = None) (rp_replicas st)"
    unfolding errs by (auto simp: list_all_iff split: option.splits)
  moreover have "x \<in> set errs \<Longrightarrow> Some x \<in> (\<lambda>e. fst (eo_shutdown ops e)) ` set (rp_replicas st)" for x
    unfolding errs by (force split: option.splits)
  ultimately show ?thesis
    by (auto simp: eq replicated_shutdown_def es split: list.splits)
qed

theorem shutdown_reaches_every_replica_witness:
  "\<exists>st. replicated_shutdown ex_ops \<lparr>rp_replicas = [0, 1], rp_rotation = 0, rp_routed = [0, 0],
      rp_closed = False\<rparr> = (Some RuntimeError, st) \<and> rp_replicas st = [10, 11]"
proof -
  let ?st = "\<lparr>rp_replicas = [0, 1 :: nat], rp_rotation = 0, rp_routed = [0, 0], rp_closed = False\<rparr>"
  have "replicated_shutdown ex_ops ?st = (Some RuntimeError, ?st\<lparr>rp_replicas := [10, 11], rp_closed := True\<rparr>)"
    by code_simp
  with shutdown_reaches_every_replica [OF _ this] show ?thesis
    by (intro exI) (rule conjI, assumption, simp add: ex_ops_def)
qed

text \<open>
  Only four counters of a combined snapshot are sums. Completed, failed and expired
  requests and processed batches add up over the replicas; every other counter, among them
  received and rejected requests and generated tokens, is the first replica's alone.
\<close>

theorem snapshot_sums_four_counters:
  assumes "snapshot_all ops (rp_replicas st) = Inr ss" "replicated_snapshot ops st = Inr s"
  shows "requests_completed s = sum_list (map requests_completed ss)
    \<and> requests_failed s = sum_list (map requests_failed ss)
    \<and> requests_expired s = sum_list (map requests_expired ss)
    \<and> batches_processed s = sum_list (map batches_processed ss)
    \<and> queue_depth s = total_depth ops st
    \<and> requests_received s = requests_received (hd ss) \<and> requests_rejected s = requests_rejected (hd ss)
    \<and> tokens_generated s = tokens_generated (hd ss) \<and> batched_requests s = batched_requests (hd ss)"
  using assms by (cases ss) (auto simp: replicated_snapshot_def set_extra_def Let_def)

definition ex_snapshot :: metrics_snapshot where
  "ex_snapshot = (snapshot_at (MetricsRegistry 0) 1)\<lparr>requests_received := 1, requests_completed := 1\<rparr>"

theorem snapshot_sums_four_counters_witness:
  "\<exists>s. replicated_snapshot (ex_ops\<lparr>eo_snapshot := (\<lambda>_. Inr ex_snapshot)\<rparr>)
       \<lparr>rp_replicas = [1, 1], rp_rotation = 0, rp_routed = [0, 0], rp_closed = False\<rparr> = Inr s
     \<and> requests_completed s = 2 \<and> requests_received s = 1"
proof -
  let ?ops = "ex_ops\<lparr>eo_snapshot := (\<lambda>_. Inr ex_snapshot)\<rparr>"
  let ?st = "\<lparr>rp_replicas = [1, 1 :: nat], rp_rotation = 0, rp_routed = [0, 0], rp_closed = False\<rparr>"
  have ss: "snapshot_all ?ops (rp_replicas ?st) = Inr [ex_snapshot, ex_snapshot]"
    by simp
  then obtain s where s: "replicated_snapshot ?ops ?st = Inr s"
    by (simp add: replicated_snapshot_def Let_def)
  from snapshot_sums_four_counters [OF ss s] have "requests_completed s = 2 \<and> requests_received s = 1"
    by (simp add: ex_snapshot_def)
  with s show ?thesis
    by blast
qed

end
