(* ===== verification/Continuous_Service.thy ===== *)
theory Continuous_Service
  imports Engine_Properties Continuous_Properties Replicated_Properties
begin

text \<open>
  \<open>python/cudaforge/continuous_engine.py\<close>: \<open>ContinuousEngine\<close> as a whole, the table of
  futures of \<open>Engine\<close> over the scheduler of \<open>Continuous\<close>, the two sharing one metrics
  registry. A scheduler pass delivers its settlements to the futures in the order in which
  the callbacks were made. \<open>submit\<close> and \<open>shutdown\<close> are one step each; how their stages
  interleave is the subject of \<open>service_step\<close>.
\<close>

section \<open>The engine\<close>

record 'r continuous_engine =
  cx_engine :: engine
  cx_batcher :: "'r continuous_batcher"

text \<open>The engine passes no cache, no estimate and no \<open>on_rejected\<close> to its scheduler.\<close>

definition engine_env :: "'r runner_ops \<Rightarrow> (nat \<Rightarrow> real) \<Rightarrow> 'r continuous_env" where
  "engine_env ops clock =
     \<lparr>ce_ops = ops, ce_clock = clock, ce_estimate = default_estimate,
      ce_complete_raises = (\<lambda>_ _. False), ce_has_on_rejected = False\<rparr>"

definition ContinuousEngine :: "engine_config \<Rightarrow> 'r \<Rightarrow> real \<Rightarrow> 'r continuous_engine result" where
  "ContinuousEngine c runner t =
     rbind (ContinuousBatcher runner (ec_max_batch_size c) (ec_queue_capacity c) (MetricsRegistry t) None)
       (\<lambda>b. Inr \<lparr>cx_engine = \<lparr>en_config = c, en_closed = False, en_metrics = MetricsRegistry t,
                             en_store = [], en_futures = []\<rparr>,
                 cx_batcher = b\<rparr>)"

definition cx_queue_depth :: "'r continuous_engine \<Rightarrow> int" where
  "cx_queue_depth st = int (length (co_queue (cx_batcher st)))"

text \<open>Both halves look at one registry.\<close>

definition with_batcher :: "'r continuous_batcher \<Rightarrow> engine \<Rightarrow> 'r continuous_engine" where
  "with_batcher b e = \<lparr>cx_engine = e\<lparr>en_metrics := co_metrics b\<rparr>, cx_batcher = b\<rparr>"

definition with_engine :: "'r continuous_batcher \<Rightarrow> engine \<Rightarrow> 'r continuous_engine" where
  "with_engine b e = \<lparr>cx_engine = e, cx_batcher = b\<lparr>co_metrics := en_metrics e\<rparr>\<rparr>"

record submission =
  sub_id :: string
  sub_prompt :: string
  sub_generation :: "generation_config option"
  sub_deadline :: "real option"
  sub_now :: real          \<comment> \<open>the clock, as read for the deadline\<close>
  sub_enqueued :: real     \<comment> \<open>and for the time stamp\<close>

definition cx_submit :: "submission \<Rightarrow> 'r continuous_engine \<Rightarrow> nat result \<times> 'r continuous_engine" where
  "cx_submit a st =
     (case engine_submit (sub_id a) (sub_prompt a) (sub_generation a) (sub_deadline a)
             (sub_now a) (sub_enqueued a) (cx_engine st) of
        Inl err \<Rightarrow> (Inl err, st)
      | Inr (h, r, e) \<Rightarrow>
          let (accepted, b) = co_submit r (cx_batcher st) in
          if accepted then (Inr h, with_batcher b e)
          else (Inl EngineClosedError, with_batcher b (submit_rejected (sub_id a) e)))"

text \<open>The callbacks of one pass. Recording a completion never raises on the registry the engine builds.\<close>

definition deliver_one :: "real \<Rightarrow> request \<times> settlement \<Rightarrow> engine \<Rightarrow> engine" where
  "deliver_one now p e =
     (case p of
        (r, Completed s) \<Rightarrow> (case finish r s now e of Inr e \<Rightarrow> e | Inl _ \<Rightarrow> e)
      | (r, Expired) \<Rightarrow> expire_request r e
      | (r, Rejected) \<Rightarrow> e)"

fun deliver :: "(nat \<Rightarrow> real) \<Rightarrow> nat \<Rightarrow> (request \<times> settlement) list \<Rightarrow> engine \<Rightarrow> engine" where
  "deliver clock k [] e = e"
| "deliver clock k (p # ps) e = deliver clock (Suc k) ps (deliver_one (clock k) p e)"

definition cx_pass ::
  "'r continuous_env \<Rightarrow> 'r continuous_engine \<Rightarrow> (bool \<times> 'r continuous_engine) result" where
  "cx_pass env st =
     rbind (run_pass env (cx_batcher st)) (\<lambda>(over, b).
       let news = drop (length (co_settled (cx_batcher st))) (co_settled b)
       in Inr (over, with_engine b (deliver (ce_clock env) (co_ticks b) news
                                     ((cx_engine st)\<lparr>en_metrics := co_metrics b\<rparr>))))"

text \<open>The scheduler thread for at most \<open>n\<close> passes; a pass that raised ends it.\<close>

fun cx_run :: "nat \<Rightarrow> 'r continuous_env \<Rightarrow> 'r continuous_engine \<Rightarrow> 'r continuous_engine" where
  "cx_run 0 env st = st"
| "cx_run (Suc n) env st =
     (case cx_pass env st of
        Inl _ \<Rightarrow> st
      | Inr (over, st) \<Rightarrow> if over then st else cx_run n env st)"

text \<open>\<open>shutdown\<close>: the timeout of the join is the number of passes the thread gets done.\<close>

definition cx_shutdown :: "nat \<Rightarrow> 'r continuous_env \<Rightarrow> 'r continuous_engine \<Rightarrow> 'r continuous_engine" where
  "cx_shutdown n env st =
     (if en_closed (cx_engine st) then st
      else let st = st\<lparr>cx_engine := engine_close (cx_engine st),
                       cx_batcher := co_shutdown (cx_batcher st)\<rparr>;
               st = cx_run n env st
           in st\<lparr>cx_engine := abandon_outstanding (cx_engine st)\<rparr>)"

text \<open>\<open>snapshot\<close> of the two engines; the runner describes itself, the device is named by \<open>str\<close>.\<close>

definition common_extra ::
  "('d \<Rightarrow> string) \<Rightarrow> ('d, 'y) torch_env \<Rightarrow> string \<Rightarrow> engine_config \<Rightarrow> metrics_snapshot
     \<Rightarrow> metrics_snapshot result" where
  "common_extra device_str te description c s =
     rbind (resolve_device te c) (\<lambda>d.
       Inr (set_extra ''max_batch_size'' (XInt (ec_max_batch_size c))
              (set_extra ''runner'' (XStr description)
                (set_extra ''device'' (XStr (device_str d))
                  (set_extra ''model'' (XStr (ec_model_name c)) s)))))"

definition cx_snapshot ::
  "('d \<Rightarrow> string) \<Rightarrow> ('d, 'y) torch_env \<Rightarrow> string \<Rightarrow> real \<Rightarrow> 'r continuous_engine
     \<Rightarrow> metrics_snapshot result" where
  "cx_snapshot device_str te description now st =
     (let s = snapshot_at (en_metrics (cx_engine st)) now;
          s = s\<lparr>queue_depth := cx_queue_depth st\<rparr>
      in rbind (common_extra device_str te description (en_config (cx_engine st)) s)
           (\<lambda>s. Inr (set_extra ''scheduler'' (XStr ''continuous'') s)))"

definition engine_snapshot ::
  "('d \<Rightarrow> string) \<Rightarrow> ('d, 'y) torch_env \<Rightarrow> string \<Rightarrow> int \<Rightarrow> real \<Rightarrow> engine
     \<Rightarrow> metrics_snapshot result" where
  "engine_snapshot device_str te description depth now e =
     (let s = snapshot_at (en_metrics e) now; s = s\<lparr>queue_depth := depth\<rparr>
      in rbind (common_extra device_str te description (en_config e) s)
           (\<lambda>s. Inr (set_extra ''max_wait_us'' (XInt (ec_max_wait_us (en_config e))) s)))"

text \<open>\<open>generate_many\<close> up to the waiting: all prompts are submitted first; the first refusal raises.\<close>

fun submit_many :: "submission list \<Rightarrow> 'r continuous_engine \<Rightarrow> nat list result \<times> 'r continuous_engine" where
  "submit_many [] st = (Inr [], st)"
| "submit_many (a # as) st =
     (case cx_submit a st of
        (Inl err, st) \<Rightarrow> (Inl err, st)
      | (Inr h, st) \<Rightarrow>
          (case submit_many as st of
             (Inl err, st) \<Rightarrow> (Inl err, st)
           | (Inr hs, st) \<Rightarrow> (Inr (h # hs), st)))"

section \<open>The engine as a serving engine\<close>

definition continuous_ops ::
  "nat \<Rightarrow> 'r continuous_env \<Rightarrow> ('d \<Rightarrow> string) \<Rightarrow> ('d, 'y) torch_env \<Rightarrow> string \<Rightarrow> real
     \<Rightarrow> (submission, nat, 'r continuous_engine) engine_ops" where
  "continuous_ops n env device_str te description now =
     \<lparr>eo_depth = cx_queue_depth, eo_submit = cx_submit,
      eo_snapshot = cx_snapshot device_str te description now,
      eo_shutdown = (\<lambda>st. (None, cx_shutdown n env st))\<rparr>"

abbreviation cx_closed :: "'r continuous_engine \<Rightarrow> bool" where
  "cx_closed st \<equiv> en_closed (cx_engine st)"

lemma complete_closed [simp]:
  "en_closed (complete i resp e) = en_closed e" "en_metrics (complete i resp e) = en_metrics e"
  by (simp_all add: complete_def Let_def split: option.split)

lemma deliver_one_closed [simp]: "en_closed (deliver_one now p e) = en_closed e"
  by (auto simp: deliver_one_def finish_def Let_def rbind_eq_Inr expire_request_def
      split: prod.split settlement.split sum.split)

lemma deliver_closed [simp]: "en_closed (deliver clock k ps e) = en_closed e"
  by (induction clock k ps e rule: deliver.induct) simp_all

lemma cx_pass_closed: "cx_pass env st = Inr (over, st') \<Longrightarrow> cx_closed st' = cx_closed st"
  by (auto simp: cx_pass_def with_engine_def Let_def rbind_eq_Inr)

lemma cx_run_closed [simp]: "cx_closed (cx_run n env st) = cx_closed st"
proof (induction n arbitrary: st)
  case (Suc n)
  show ?case
  proof (cases "cx_pass env st")
    case (Inr p)
    then obtain over st' where p: "cx_pass env st = Inr (over, st')"
      by (cases p) simp
    show ?thesis
      using Suc.IH [of st'] cx_pass_closed [OF p] by (simp add: p)
  qed simp
qed simp

lemma fold_keeps: "(\<And>x e. g (f x e) = g e) \<Longrightarrow> g (fold f xs e) = g e"
  by (induction xs arbitrary: e) simp_all

lemma abandon_closed [simp]: "en_closed (abandon_outstanding e) = en_closed e"
  unfolding abandon_outstanding_def by (subst fold_keeps [of en_closed]) (simp_all add: case_prod_beta)

interpretation cx: serving_engine "continuous_ops n env device_str te description now" cx_closed
proof unfold_locales
  fix e :: "'a continuous_engine" and a
  show "cx_closed (snd (eo_shutdown (continuous_ops n env device_str te description now) e))"
    by (simp add: continuous_ops_def cx_shutdown_def Let_def engine_close_def)
  assume "cx_closed e"
  then show "\<exists>err. fst (eo_submit (continuous_ops n env device_str te description now) a e) = Inl err"
    by (simp add: continuous_ops_def cx_submit_def engine_submit_def)
qed

end
