(* ===== verification/Continuous_Service_Properties.thy ===== *)
theory Continuous_Service_Properties
  imports Continuous_Service
begin

text \<open>
  The continuous engine as its callers see it: the futures still registered are those of
  the requests the scheduler still has, every answer is made from the request's own
  sequence, and a shutdown that is given time answers everybody.
\<close>

section \<open>What a pass adds to the history\<close>

definition own_seq :: "request \<Rightarrow> sequence_state \<Rightarrow> bool" where
  "own_seq r s \<longleftrightarrow> ss_prompt s = rq_prompt r \<and> ss_generation s = rq_generation r"

definition rows_own :: "'r continuous_batcher \<Rightarrow> bool" where
  "rows_own st \<longleftrightarrow> (\<forall>p \<in> set (co_running st). own_seq (fst p) (snd p))"

definition news_own :: "'r continuous_env \<Rightarrow> (request \<times> settlement) list \<Rightarrow> bool" where
  "news_own env news \<longleftrightarrow> (\<forall>(r, x) \<in> set news.
     (\<forall>s. x = Completed s \<longrightarrow> own_seq r s) \<and> (x = Rejected \<longrightarrow> ce_has_on_rejected env))"

definition advances :: "'r continuous_env \<Rightarrow> 'r continuous_batcher \<Rightarrow> 'r continuous_batcher \<Rightarrow> bool" where
  "advances env st st' \<longleftrightarrow> rows_own st' \<and> (\<exists>news. co_settled st' = co_settled st @ news \<and> news_own env news)"

lemma news_own_simps [simp]:
  "news_own env []" "news_own env (xs @ ys) \<longleftrightarrow> news_own env xs \<and> news_own env ys"
  by (auto simp: news_own_def)

lemma advances_trans: "advances env a b \<Longrightarrow> advances env b c \<Longrightarrow> advances env a c"
  by (auto simp: advances_def)

lemma advances_quiet:
  "rows_own st' \<Longrightarrow> co_settled st' = co_settled st \<Longrightarrow> advances env st st'"
  by (simp add: advances_def)

lemma advances_from:
  "advances env a b \<Longrightarrow> co_settled a' = co_settled a \<Longrightarrow> advances env a' b"
  by (simp add: advances_def)

lemma own_SequenceState [simp]: "own_seq r (SequenceState i (rq_prompt r) (rq_generation r))"
  by (simp add: own_seq_def SequenceState_def)

lemma free_rows_history:
  "rfold (free_row env tally) ps st = Inr st' \<Longrightarrow>
     co_settled st' = co_settled st @ map (\<lambda>(r, s). (r, Completed s)) ps"
proof (induction ps arbitrary: st)
  case (Cons p ps)
  obtain r s where p: "p = (r, s)" by (cases p)
  obtain st1 where st1: "free_row env tally (r, s) st = Inr st1" "rfold (free_row env tally) ps st1 = Inr st'"
    using Cons.prems by (auto simp: p rbind_eq_Inr)
  have "co_settled st1 = co_settled st @ [(r, Completed s)]"
    by (rule free_row_cases [OF st1(1)])
  with Cons.IH [OF st1(2)] show ?case
    by (simp add: p)
qed simp

lemma remove_rows_advances:
  assumes "rows_own st" "remove_rows env tally P st = Inr st'"
  shows "advances env st st'"
proof -
  obtain st1 where "rfold (free_row env tally) (filter P (co_running st)) st = Inr st1"
      "st' = st1\<lparr>co_running := filter (\<lambda>p. \<not> P p) (co_running st)\<rparr>"
    using assms(2) by (auto simp: remove_rows_def rbind_eq_Inr)
  with assms(1) free_rows_history [OF this(1)] show ?thesis
    by (auto simp: advances_def rows_own_def news_own_def)
qed

lemma evict_preempted_advances:
  "rows_own st \<Longrightarrow> evict_preempted env ids st = Inr st' \<Longrightarrow> advances env st st'"
  unfolding evict_preempted_rows by (rule remove_rows_advances)

lemma reject_advances: "rows_own st \<Longrightarrow> advances env st (reject env r st)"
  by (auto simp: advances_def reject_def Let_def upd_stats_def rows_own_def news_own_def)

lemma start_row_advances:
  assumes "(go_on, adm', st') = start_row r (SequenceState i (rq_prompt r) (rq_generation r)) adm st1"
    and "advances env st st1"
  shows "advances env st st'"
  using assms by (auto simp: start_row_def advances_def rows_own_def)

lemma offer_advances:
  assumes "rows_own st" "offer_to_cache env r adm st = Inr (go_on, adm', st')"
  shows "advances env st st'"
  using assms(2)
proof (cases rule: offer_to_cache_cases)
  case no_cache
  then show ?thesis
    using assms(1) by (intro start_row_advances [OF no_cache(2)] advances_quiet) (simp_all add: rows_own_def)
next
  case (rejected m out m')
  have "rows_own (upd_stats f (st\<lparr>co_next_id := n, co_cache := c\<rparr>))" for f n c
    using assms(1) by (simp add: rows_own_def upd_stats_def)
  then show ?thesis
    unfolding rejected(8) by (rule advances_from [OF reject_advances]) (simp add: upd_stats_def)
next
  case (deferred m out m')
  then show ?thesis
    using assms(1) by (intro advances_quiet) (simp_all add: rows_own_def upd_stats_def)
next
  case (started m out m' st1)
  have own: "rows_own (st\<lparr>co_next_id := n, co_cache := c\<rparr>)" for n c
    using assms(1) by (simp add: rows_own_def)
  have "advances env st st1"
  proof (cases "ao_preempted out = []")
    case True
    with started(4) own show ?thesis
      by (intro advances_quiet) auto
  next
    case False
    with started(4) have "evict_preempted env (ao_preempted out)
        (st\<lparr>co_next_id := co_next_id st + 1, co_cache := Some m'\<rparr>) = Inr st1"
      by simp
    from evict_preempted_advances [OF own this] show ?thesis
      by (rule advances_from) simp
  qed
  with started(5) show ?thesis
    by (rule start_row_advances)
qed

lemma dequeue_advances:
  "rows_own st \<Longrightarrow> dequeue_stamp env r st = (r', late, st') \<Longrightarrow> advances env st st'"
  by (auto simp: dequeue_stamp_def Let_def upd_stats_def upd_metrics_def advances_def rows_own_def news_own_def)

lemma note_delay_advances: "rows_own st \<Longrightarrow> note_delay r st = Inr st' \<Longrightarrow> advances env st st'"
  by (auto simp: note_delay_def rbind_eq_Inr advances_def rows_own_def)

lemma advances_own: "advances env st st' \<Longrightarrow> rows_own st'"
  by (simp add: advances_def)

lemma admit_loop_advances:
  assumes own: "rows_own st" and run: "admit_loop env adm st = Inr (adm', st')"
  shows "advances env st st'"
proof (rule admit_loop_keeps [where I = "\<lambda>_. advances env st" and H = "\<lambda>_ _. advances env st", OF _ _ _ _ _ _ run])
  show "advances env st st"
    using own by (simp add: advances_quiet)
  have quiet: "advances env st b'" if "advances env st b" "co_running b' = co_running b" "co_settled b' = co_settled b" for b b'
    using that by (simp add: advances_def rows_own_def)
  show "advances env st (b\<lparr>co_deferred := None\<rparr>)" if "advances env st b" for b
    by (rule quiet [OF that]) simp_all
  show "advances env st (b\<lparr>co_queue := q, co_stopping := True, co_closed := True\<rparr>)" if "advances env st b" for b q
    by (rule quiet [OF that]) simp_all
  have dequeued: "advances env st b1"
    if "advances env st b" "dequeue_stamp env r (b\<lparr>co_queue := q\<rparr>) = (r', late, b1)" for b q r r' late b1
  proof -
    have "rows_own (b\<lparr>co_queue := q\<rparr>)"
      using advances_own [OF that(1)] by (simp add: rows_own_def)
    from dequeue_advances [OF this that(2)] have "advances env b b1"
      by (rule advances_from) simp
    with that(1) show ?thesis
      by (rule advances_trans)
  qed
  show "advances env st b1" if "advances env st b" "dequeue_stamp env r (b\<lparr>co_queue := q\<rparr>) = (r', True, b1)" for b q r r' b1
    by (rule dequeued [OF that])
  show "advances env st b2" if "advances env st b" "dequeue_stamp env r (b\<lparr>co_queue := q\<rparr>) = (r', False, b1)"
    "note_delay r' b1 = Inr b2" for b q r r' b1 b2
    using advances_trans [OF dequeued [OF that(1,2)] note_delay_advances [OF advances_own [OF dequeued [OF that(1,2)]] that(3)]] .
  show "advances env st b'" if "advances env st b" "offer_to_cache env r adm b = Inr (go_on, adm', b')" for b b' r adm go_on adm'
    using that(1) offer_advances [OF advances_own [OF that(1)] that(2)] by (rule advances_trans)
qed

lemma reserve_step_advances:
  "rows_own st \<Longrightarrow> reserve_step env st = Inr st' \<Longrightarrow> advances env st st'"
proof (cases "co_cache st")
  case (Some m)
  assume own: "rows_own st" and run: "reserve_step env st = Inr st'"
  obtain cs m' where 1: "extend_all (co_running st) m [] = Inr (cs, m')"
      "(if cs \<noteq> [] then evict_preempted env (remdups cs) (st\<lparr>co_cache := Some m'\<rparr>)
        else Inr (st\<lparr>co_cache := Some m'\<rparr>)) = Inr st'"
    using run Some by (auto simp: reserve_step_def rbind_eq_Inr Let_def)
  have own': "rows_own (st\<lparr>co_cache := Some m'\<rparr>)"
    using own by (simp add: rows_own_def)
  then show ?thesis
    using 1(2) advances_from [OF evict_preempted_advances [OF own']] advances_quiet [OF own']
    by (auto split: if_splits)
qed (auto simp: reserve_step_def intro: advances_quiet)

lemma list_all2_own:
  assumes "list_all2 (\<lambda>p q. fst q = fst p \<and> ss_prompt (snd q) = ss_prompt (snd p)
      \<and> ss_generation (snd q) = ss_generation (snd p)) ps qs"
    and "\<forall>p \<in> set ps. own_seq (fst p) (snd p)"
  shows "\<forall>p \<in> set qs. own_seq (fst p) (snd p)"
  using assms
proof (induction rule: list_all2_induct)
  case (Cons p ps q qs)
  have "own_seq (fst p) (snd p)" "\<forall>p \<in> set ps. own_seq (fst p) (snd p)"
    using Cons.prems by simp_all
  with Cons.IH Cons.hyps(1) show ?case
    by (simp add: own_seq_def [of _ "snd q"] own_seq_def [of _ "snd p"])
qed simp

lemma inv_rows_own: "co_inv n h st \<Longrightarrow> rows_own st"
  by (auto simp: co_inv_def owned_def rows_own_def own_seq_def)

text \<open>One pass, for a runner that keeps the step-wise contract.\<close>

lemma readied_keeps_own:
  assumes "list_all2 readied ps qs" "\<forall>p \<in> set ps. own_seq (fst p) (snd p)"
  shows "\<forall>p \<in> set qs. own_seq (fst p) (snd p)"
  by (rule list_all2_own [OF list_all2_mono [OF assms(1)] assms(2)]) (simp add: readied_facts)

lemma admit_pass_advances:
  assumes runner: "stepwise_runner (ce_ops env) held ok fine" and est: "\<And>p. 0 < ce_estimate env p"
    and inv: "co_inv 0 {#} st" and fits: "runner_fits held ok fine [] st"
    and run: "admit_pass env st = Inr st'"
  shows "advances env st st'"
proof -
  obtain adm st1 where loop: "admit_loop env [] st = Inr (adm, st1)" "admit_post st adm st1"
    using admit_loop_ok [OF est, of "[]" st] inv by auto
  have adv: "advances env st st1"
    by (rule admit_loop_advances [OF inv_rows_own [OF inv] loop(1)])
  note F = runner_fitsD [OF stepwise_runner.fits_admit_loop [OF runner refl fits loop(1)]]
  show ?thesis
  proof (cases "adm = []")
    case True
    with run loop(1) adv show ?thesis
      by (simp add: admit_pass_def)
  next
    case False
    have fresh: "ss_id ` set adm \<inter> held (co_runner st1) = {}" "\<forall>s \<in> set adm. fine (ss_generation s)"
      using F(4,6) by blast+
    obtain ss x where pre: "ro_prefill (ce_ops env) adm (co_runner st1) = Inr (ss, x)" "list_all2 prefilled adm ss"
      by (rule stepwise_runner.prefill_total [OF runner F(1) False F(5) fresh])
    have "list_all2 readied (co_running st1) (put_back ss (co_running st1))"
      by (rule put_back_rows [OF _ pre(2)]) (use loop(2) in \<open>simp add: admit_post_def\<close>)
    from readied_keeps_own [OF this] advances_own [OF adv]
    have own: "\<forall>p \<in> set (put_back ss (co_running st1)). own_seq (fst p) (snd p)"
      by (simp add: rows_own_def)
    from run loop(1) pre(1) False have "st' = upd_stats (\<lambda>cs. cs\<lparr>cs_admissions := cs_admissions cs + int (length adm)\<rparr>)
        (st1\<lparr>co_runner := x, co_running := put_back ss (co_running st1)\<rparr>)"
      by (simp add: admit_pass_def)
    with own show ?thesis
      by (intro advances_trans [OF adv] advances_quiet) (simp_all add: rows_own_def upd_stats_def)
  qed
qed

lemma decode_pass_advances:
  assumes runner: "stepwise_runner (ce_ops env) held ok fine" and inv: "rows_ok st"
    and fits: "runner_fits held ok fine [] st" and own: "rows_own st" and run: "decode_pass env st = Inr st'"
  shows "advances env st st'"
proof -
  note F = runner_fitsD [OF fits]
  have ids: "distinct (map ss_id (map snd (co_running st)))"
    using inv by (simp add: rows_ok_def comp_def)
  have mine: "\<forall>s \<in> set (map snd (co_running st)). fine (ss_generation s) \<and> (finished s \<or> ss_id s \<in> held (co_runner st))"
    using F(2,3) by auto
  obtain ss x where dec: "ro_decode (ce_ops env) (map snd (co_running st)) (co_runner st) = Inr (ss, x)"
      "list_all2 advanced (map snd (co_running st)) ss"
    by (rule stepwise_runner.decode_total [OF runner F(1) ids mine])
  have "list_all2 (\<lambda>p q. fst q = fst p \<and> ss_prompt (snd q) = ss_prompt (snd p)
      \<and> ss_generation (snd q) = ss_generation (snd p)) (co_running st) (zip (map fst (co_running st)) ss)"
    using advanced_rows [OF dec(2)] by (rule list_all2_mono) (simp add: advanced_facts)
  from list_all2_own [OF this] own
  have "\<forall>p \<in> set (zip (map fst (co_running st)) ss). own_seq (fst p) (snd p)"
    by (simp add: rows_own_def)
  then show ?thesis
    using run dec(1) by (intro advances_quiet) (auto simp: decode_pass_def rows_own_def upd_stats_def)
qed

lemma run_pass_advances:
  assumes runner: "stepwise_runner (ce_ops env) held ok fine" and est: "\<And>p. 0 < ce_estimate env p"
    and inv: "co_inv 0 {#} st" and fits: "runner_fits held ok fine [] st"
    and run: "run_pass env st = Inr (over, st')"
  shows "advances env st st'"
proof -
  obtain st1 where 1: "admit_pass env st = Inr st1"
    "co_inv_but (\<lambda>p. finished (snd p)) 0 {#} st1" "runner_fits held ok fine [] st1"
    by (rule stepwise_runner.admit_pass_ok [OF runner refl est inv fits])
  have adv1: "advances env st st1"
    by (rule admit_pass_advances [OF runner est inv fits 1(1)])
  show ?thesis
  proof (cases "co_running st1 = []")
    case True
    with run 1(1) adv1 show ?thesis
      by (simp add: run_pass_def)
  next
    case busy: False
    obtain st2 where 2: "reserve_step env st1 = Inr st2" "co_inv_but (\<lambda>p. finished (snd p)) 0 {#} st2"
      by (rule reserve_step_ok [OF 1(2), of env])
    have adv2: "advances env st st2"
      using advances_trans [OF adv1 reserve_step_advances [OF advances_own [OF adv1] 2(1)]] .
    have fits2: "runner_fits held ok fine [] st2"
      by (rule stepwise_runner.fits_reserve [OF runner refl 1(3) 2(1)])
    have rows2: "rows_ok st2"
      using 2(2) by (simp add: co_inv_but_def)
    show ?thesis
    proof (cases "co_running st2 = []")
      case True
      with run 1(1) 2(1) busy adv2 show ?thesis
        by (simp add: run_pass_def)
    next
      case False
      then obtain st3 st4 where 3: "decode_pass env st2 = Inr st3" "retire env st3 = Inr st4"
        "st' = upd_metrics (set_queue_depth (int (length (co_queue st4)))) st4"
        using run 1(1) 2(1) busy by (auto simp: run_pass_def rbind_eq_Inr)
      have adv3: "advances env st st3"
        using advances_trans [OF adv2 decode_pass_advances [OF runner rows2 fits2 advances_own [OF adv2] 3(1)]] .
      have "advances env st st4"
        using advances_trans [OF adv3 remove_rows_advances [OF advances_own [OF adv3] 3(2) [unfolded retire_rows]]] .
      then show ?thesis
        by (simp add: 3(3) advances_def upd_metrics_def rows_own_def)
    qed
  qed
qed

section \<open>Delivering settlements\<close>

definition answer :: "real \<Rightarrow> request \<times> settlement \<Rightarrow> response" where
  "answer now p = (case snd p of Completed s \<Rightarrow> finish_response (fst p) s now | _ \<Rightarrow> expire_response (fst p))"

fun answers :: "(nat \<Rightarrow> real) \<Rightarrow> nat \<Rightarrow> (request \<times> settlement) list \<Rightarrow> (string \<times> response) list" where
  "answers clock k [] = []"
| "answers clock k (p # ps) = (rq_id (fst p), answer (clock k) p) # answers clock (Suc k) ps"

lemma answers_ids [simp]: "map fst (answers clock k ps) = map (\<lambda>p. rq_id (fst p)) ps"
  by (induction clock k ps rule: answers.induct) simp_all

lemma answers_Some:
  "map_of (answers clock k ps) i = Some resp \<Longrightarrow>
     \<exists>p \<in> set ps. \<exists>now. rq_id (fst p) = i \<and> resp = answer now p"
  by (induction clock k ps rule: answers.induct) (auto split: if_splits)

lemma answers_own: "own_answers (answers clock k ps)"
proof -
  have "rs_request_id (answer now p) = rq_id (fst p)" for now p
    by (simp add: answer_def finish_response_def expire_response_def Let_def split: settlement.split)
  then show ?thesis
    by (induction clock k ps rule: answers.induct) (simp_all add: own_answers_def)
qed

lemma deliver_one_settles:
  assumes "futures_ok e" "metrics_ok (en_metrics e)" "snd p \<noteq> Rejected"
  shows "settled_by [(rq_id (fst p), answer now p)] e (deliver_one now p e)
    \<and> metrics_ok (en_metrics (deliver_one now p e))
    \<and> en_config (deliver_one now p e) = en_config e"
proof (cases p)
  case (Pair r x)
  show ?thesis
  proof (cases x)
    case (Completed s)
    let ?resp = "finish_response r s now"
    obtain m where m: "record_completion (total_latency ?resp) (generated s) (en_metrics e) = Inr m" "metrics_ok m"
      by (rule record_completion_ok [OF assms(2)])
    have "futures_ok (e\<lparr>en_metrics := m\<rparr>)"
      using assms(1) by (simp add: futures_ok_def)
    from complete_settles [OF this, of "rq_id r" ?resp]
    have "settled_by [(rq_id r, ?resp)] e (complete (rq_id r) ?resp (e\<lparr>en_metrics := m\<rparr>))"
      by (simp add: same_settled_by [of "e\<lparr>en_metrics := m\<rparr>" e])
    moreover have "en_config (complete i resp e') = en_config e'" for i resp e'
      by (simp add: complete_def Let_def split: option.split)
    ultimately show ?thesis
      using m by (simp add: Pair Completed deliver_one_def finish_def answer_def Let_def)
  next
    case Expired
    have "en_config (complete i resp e') = en_config e'" for i resp e'
      by (simp add: complete_def Let_def split: option.split)
    with complete_settles [OF assms(1), of "rq_id r" "expire_response r"] assms(2) show ?thesis
      by (simp add: Pair Expired deliver_one_def answer_def expire_request_def)
  qed (use assms(3) Pair in simp)
qed

lemma settled_by_ok: "settled_by ps e e' \<Longrightarrow> futures_ok e'"
  by (simp add: settled_by_def)

lemma deliver_settles:
  "futures_ok e \<Longrightarrow> metrics_ok (en_metrics e) \<Longrightarrow> Rejected \<notin> snd ` set ps \<Longrightarrow>
     settled_by (answers clock k ps) e (deliver clock k ps e)
     \<and> metrics_ok (en_metrics (deliver clock k ps e))
     \<and> en_config (deliver clock k ps e) = en_config e"
proof (induction clock k ps e rule: deliver.induct)
  case (2 clock k p ps e)
  let ?e = "deliver_one (clock k) p e"
  have 1: "settled_by [(rq_id (fst p), answer (clock k) p)] e ?e" "metrics_ok (en_metrics ?e)"
      "en_config ?e = en_config e"
    using deliver_one_settles [OF 2(2,3), of p "clock k"] 2(4) by auto
  have "settled_by (answers clock (Suc k) ps) ?e (deliver clock (Suc k) ps ?e)
      \<and> metrics_ok (en_metrics (deliver clock (Suc k) ps ?e))
      \<and> en_config (deliver clock (Suc k) ps ?e) = en_config ?e"
    by (rule 2(1) [OF settled_by_ok [OF 1(1)] 1(2)]) (use 2(4) in simp)
  with settled_by_trans [OF 1(1) _ 2(2)] 1(3) show ?case
    by (metis answers.simps(2) append_Cons append_Nil deliver.simps(2))
qed (simp add: settled_by_refl)

section \<open>The invariant of the engine\<close>

definition live_requests :: "'r continuous_batcher \<Rightarrow> request list" where
  "live_requests b = queued_requests (co_queue b)
     @ (case co_deferred b of None \<Rightarrow> [] | Some r \<Rightarrow> [r]) @ map fst (co_running b)"

definition own_answer :: "'r continuous_batcher \<Rightarrow> string \<Rightarrow> response \<Rightarrow> bool" where
  "own_answer b i resp \<longleftrightarrow> (\<exists>(r, x) \<in> set (co_settled b). rq_id r = i \<and>
     (case x of Completed s \<Rightarrow> own_seq r s \<and> (\<exists>now. resp = finish_response r s now)
      | Expired \<Rightarrow> resp = expire_response r | Rejected \<Rightarrow> False))"

definition answered :: "'r continuous_engine \<Rightarrow> bool" where
  "answered st \<longleftrightarrow> (\<forall>h < length (en_store (cx_engine st)). \<forall>resp.
     snd (en_store (cx_engine st) ! h) = Result resp \<longrightarrow>
     own_answer (cx_batcher st) (fst (en_store (cx_engine st) ! h)) resp)"

text \<open>The invariant without what ties the dictionary to the scheduler, and that tie.\<close>

definition cx_core :: "'r continuous_engine \<Rightarrow> bool" where
  "cx_core st \<longleftrightarrow> (let e = cx_engine st; b = cx_batcher st in
     co_inv 0 {#} b \<and> futures_ok e \<and> own_cells e \<and> metrics_ok (en_metrics e)
     \<and> set (map rq_id (co_accepted b)) \<subseteq> set (map fst (en_store e))
     \<and> distinct (map rq_id (co_accepted b)) \<and> generation_ok (ec_generation (en_config e)) \<and> answered st)"

definition tracks :: "'r continuous_engine \<Rightarrow> bool" where
  "tracks st \<longleftrightarrow> set (keys (en_futures (cx_engine st))) = rq_id ` set (live_requests (cx_batcher st))"

definition cx_inv :: "'r continuous_engine \<Rightarrow> bool" where
  "cx_inv st \<longleftrightarrow> cx_core st
     \<and> (if cx_closed st then en_futures (cx_engine st) = [] else tracks st)"

lemma ids_conserved:
  assumes "co_inv 0 {#} b"
  shows "mset (map rq_id (co_accepted b)) =
    mset (map (\<lambda>p. rq_id (fst p)) (co_settled b)) + mset (map rq_id (live_requests b))"
proof -
  note C = co_invD(3) [OF assms, unfolded conserved_def]
  have id: "rq_id (unstamped r) = rq_id r" for r
    by (simp add: unstamped_def)
  have acc: "map rq_id (co_accepted b) = map rq_id (co_taken b) @ map rq_id (queued_requests (co_queue b))"
  proof -
    have "map rq_id (map unstamped xs) = map rq_id xs" for xs
      by (simp add: id)
    then show ?thesis
      using C by (metis map_append)
  qed
  have "mset (co_taken b) = mset (map fst (co_settled b)) + mset (map fst (co_running b))
      + mset (case co_deferred b of None \<Rightarrow> [] | Some r \<Rightarrow> [r])"
    using C by (cases "co_deferred b") simp_all
  then have "mset (map rq_id (co_taken b)) = mset (map rq_id (map fst (co_settled b)))
      + mset (map rq_id (map fst (co_running b)))
      + mset (map rq_id (case co_deferred b of None \<Rightarrow> [] | Some r \<Rightarrow> [r]))"
    by (metis image_mset_union mset_map)
  then show ?thesis
    unfolding acc live_requests_def by (simp add: comp_def)
qed

lemma live_ids:
  assumes "co_inv 0 {#} b" "distinct (map rq_id (co_accepted b))"
  shows "distinct (map rq_id (live_requests b))"
    and "rq_id ` set (live_requests b) =
      set (map rq_id (co_accepted b)) - (\<lambda>p. rq_id (fst p)) ` set (co_settled b)"
proof -
  have "mset (map rq_id (co_accepted b)) =
      mset (map (\<lambda>p. rq_id (fst p)) (co_settled b) @ map rq_id (live_requests b))"
    using ids_conserved [OF assms(1)] by simp
  then have d: "distinct (map (\<lambda>p. rq_id (fst p)) (co_settled b) @ map rq_id (live_requests b))"
      and s: "set (map rq_id (co_accepted b)) =
        set (map (\<lambda>p. rq_id (fst p)) (co_settled b) @ map rq_id (live_requests b))"
    using assms(2) mset_eq_imp_distinct_iff mset_eq_setD by blast+
  show "distinct (map rq_id (live_requests b))"
    using d by simp
  show "rq_id ` set (live_requests b) =
      set (map rq_id (co_accepted b)) - (\<lambda>p. rq_id (fst p)) ` set (co_settled b)"
    using d unfolding s by auto
qed

lemma keys_settled:
  assumes "settled_by ps e e'" "futures_ok e"
  shows "set (keys (en_futures e')) = set (keys (en_futures e)) - set (map fst ps)"
proof -
  have in_keys: "x \<in> set (keys f) \<longleftrightarrow> map_of f x \<noteq> None" for x and f :: "(string \<times> nat) list"
    by (simp add: map_of_eq_None_iff)
  have "map_of (en_futures e') x = (if x \<in> set (map fst ps) then None else map_of (en_futures e) x)" for x
    using assms(1) by (simp add: settled_by_def)
  then show ?thesis
    by (intro set_eqI) (simp only: in_keys Diff_iff split: if_split, simp)
qed

text \<open>One pass and the delivery of what it settled.\<close>

lemma cx_pass_ok:
  assumes runner: "stepwise_runner (ce_ops env) held ok fine" and est: "\<And>p. 0 < ce_estimate env p"
    and quiet: "\<not> ce_has_on_rejected env" and core: "cx_core st"
    and fits: "runner_fits held ok fine [] (cx_batcher st)"
  obtains over st' where "cx_pass env st = Inr (over, st')" "cx_core st'" "tracks st \<longrightarrow> tracks st'"
    "runner_fits held ok fine [] (cx_batcher st')" "en_config (cx_engine st') = en_config (cx_engine st)"
    "en_futures (cx_engine st) = [] \<longrightarrow> en_futures (cx_engine st') = []"
    "over \<longrightarrow> live_requests (cx_batcher st') = []"
    "co_closed (cx_batcher st) \<or> None \<in> set (co_queue (cx_batcher st)) \<longrightarrow>
       (co_closed (cx_batcher st') \<or> None \<in> set (co_queue (cx_batcher st')))
       \<and> (over \<or> potential (cx_batcher st') < potential (cx_batcher st))"
    "\<exists>ps. settled_by ps (cx_engine st) (cx_engine st')"
proof -
  let ?e = "cx_engine st" and ?b = "cx_batcher st"
  note K = core [unfolded cx_core_def Let_def]
  have inv: "co_inv 0 {#} ?b"
    using K by simp
  obtain over b where pass: "run_pass env ?b = Inr (over, b)" "pass_post ?b b" "runner_fits held ok fine [] b"
    "over \<longrightarrow> co_running b = [] \<and> co_deferred b = None \<and> co_queue b = []"
    "co_closed ?b \<or> None \<in> set (co_queue ?b) \<longrightarrow> over \<or> potential b < potential ?b"
    by (rule stepwise_runner.run_pass_ok [OF runner refl est inv fits])
  have inv': "co_inv 0 {#} b" "co_accepted b = co_accepted ?b"
    using pass(2) by (simp_all add: pass_post_unfold)
  obtain news where news: "co_settled b = co_settled ?b @ news" "news_own env news"
    using run_pass_advances [OF runner est inv fits pass(1)] by (auto simp: advances_def)
  let ?em = "?e\<lparr>en_metrics := co_metrics b\<rparr>"
  let ?ed = "deliver (ce_clock env) (co_ticks b) news ?em"
  let ?ans = "answers (ce_clock env) (co_ticks b) news"
  have ok0: "futures_ok ?em" "metrics_ok (en_metrics ?em)"
    using K co_invD(6) [OF inv'(1)] by (simp_all add: futures_ok_def)
  have "Rejected \<notin> snd ` set news"
    using news(2) quiet by (auto simp: news_own_def)
  from deliver_settles [OF ok0 this, of "ce_clock env" "co_ticks b"]
  have D: "settled_by ?ans ?em ?ed" "metrics_ok (en_metrics ?ed)" "en_config ?ed = en_config ?e"
    by simp_all
  have D': "settled_by ?ans ?e ?ed"
    by (rule same_settled_by [THEN iffD1, OF _ _ D(1)]) simp_all
  note d = D' [unfolded settled_by_def]
  let ?st = "with_engine b ?ed"
  have eqs: "cx_engine ?st = ?ed" "co_settled (cx_batcher ?st) = co_settled b"
    "co_accepted (cx_batcher ?st) = co_accepted b" "live_requests (cx_batcher ?st) = live_requests b"
    "potential (cx_batcher ?st) = potential b" "co_queue (cx_batcher ?st) = co_queue b"
    "co_closed (cx_batcher ?st) = co_closed b"
    by (simp_all add: with_engine_def live_requests_def potential_def)
  have inv1: "co_inv 0 {#} (cx_batcher ?st)"
    using inv'(1) D(2) by (simp add: with_engine_def co_inv_def rows_ok_def cache_ok_def conserved_def
        stats_ok_def owned_def)
  have ids: "map fst (en_store ?ed) = map fst (en_store ?e)"
    by (rule nth_equalityI) (use d in \<open>auto split: option.splits\<close>)
  have len: "length (en_store ?ed) = length (en_store ?e)"
    using d by (elim conjE)
  have cell: "en_store ?ed ! h = (case map_of ?ans (fst (en_store ?e ! h)) of
           Some resp \<Rightarrow> if registered ?e h \<and> snd (en_store ?e ! h) = Pending
                        then (fst (en_store ?e ! h), Result resp) else en_store ?e ! h
         | None \<Rightarrow> en_store ?e ! h)" if "h < length (en_store ?ed)" for h
    using d that by (elim conjE) (simp only:)
  have changed: "map_of ?ans (fst (en_store ?e ! h)) = Some resp \<and> fst (en_store ?ed ! h) = fst (en_store ?e ! h)"
    if "h < length (en_store ?ed)" "snd (en_store ?ed ! h) = Result resp" "en_store ?ed ! h \<noteq> en_store ?e ! h"
    for h resp
    using cell [OF that(1)] that(2,3) by (simp split: option.splits if_splits)
  have own_old: "own_cells ?e" "answered st"
    using K by simp_all
  have "own_cells ?ed"
    unfolding own_cells_def
  proof (intro allI impI)
    fix h r assume h: "h < length (en_store ?ed)" and res: "snd (en_store ?ed ! h) = Result r"
    show "rs_request_id r = fst (en_store ?ed ! h)"
    proof (cases "en_store ?ed ! h = en_store ?e ! h")
      case True
      then show ?thesis
        using own_old(1) h res len by (simp add: own_cells_def)
    next
      case False
      from changed [OF h res this] show ?thesis
        using map_of_own [OF answers_own] by metis
    qed
  qed
  moreover have "answered ?st"
    unfolding answered_def eqs(1)
  proof (intro allI impI)
    fix h resp assume h: "h < length (en_store ?ed)" and res: "snd (en_store ?ed ! h) = Result resp"
    have id: "fst (en_store ?ed ! h) = fst (en_store ?e ! h)"
      using ids h len by (metis nth_map)
    show "own_answer (cx_batcher ?st) (fst (en_store ?ed ! h)) resp"
    proof (cases "en_store ?ed ! h = en_store ?e ! h")
      case True
      then have "own_answer ?b (fst (en_store ?ed ! h)) resp"
        using own_old(2) h res len by (simp add: answered_def)
      then show ?thesis
        by (auto simp: own_answer_def eqs news(1))
    next
      case False
      from changed [OF h res this] obtain r x now where p: "(r, x) \<in> set news" "rq_id r = fst (en_store ?e ! h)" "resp = answer now (r, x)"
        by (auto dest!: answers_Some)
      have "(\<forall>s. x = Completed s \<longrightarrow> own_seq r s) \<and> x \<noteq> Rejected"
        using news(2) quiet p(1) by (auto simp: news_own_def)
      with p show ?thesis
        unfolding own_answer_def eqs(2) news(1) id
        by (intro bexI [of _ "(r, x)"]) (auto simp: answer_def split: settlement.split)
    qed
  qed
  ultimately have core': "cx_core ?st"
    unfolding cx_core_def Let_def eqs inv'(2) ids
    using inv1 settled_by_ok [OF D'] D(2,3) K by simp
  have keys: "set (keys (en_futures ?ed)) = set (keys (en_futures ?e)) - (\<lambda>p. rq_id (fst p)) ` set news"
    using keys_settled [OF D'] K by simp
  have tr: "tracks st \<longrightarrow> tracks ?st"
    unfolding tracks_def eqs keys using live_ids(2) [OF inv] live_ids(2) [OF inv'(1)] K
    by (auto simp: inv'(2) news(1))
  show thesis
  proof (rule that)
    show "cx_pass env st = Inr (over, ?st)"
      by (simp add: cx_pass_def pass(1) Let_def news(1))
    show "en_futures ?e = [] \<longrightarrow> en_futures (cx_engine ?st) = []"
      using keys by (cases "en_futures ?ed") (auto simp: eqs)
    show "over \<longrightarrow> live_requests (cx_batcher ?st) = []"
      unfolding eqs using pass(4) by (simp add: live_requests_def)
    show "co_closed ?b \<or> None \<in> set (co_queue ?b) \<longrightarrow>
       (co_closed (cx_batcher ?st) \<or> None \<in> set (co_queue (cx_batcher ?st)))
       \<and> (over \<or> potential (cx_batcher ?st) < potential ?b)"
      unfolding eqs using pass(2,5) by (simp add: pass_post_unfold)
    show "\<exists>ps. settled_by ps ?e (cx_engine ?st)"
      unfolding eqs using D' by (rule exI)
    show "runner_fits held ok fine [] (cx_batcher ?st)" "en_config (cx_engine ?st) = en_config ?e"
      using pass(3) D(3) by (simp_all add: with_engine_def runner_fits_def)
  qed (fact core' tr)+
qed

section \<open>The other steps\<close>

lemma live_submitted:
  "live_requests (b\<lparr>co_queue := co_queue b @ [Some r], co_accepted := acc, co_metrics := m\<rparr>) =
     queued_requests (co_queue b) @ r # drop (length (queued_requests (co_queue b))) (live_requests b)"
  by (simp add: live_requests_def)

definition submission_ok :: "submission \<Rightarrow> engine \<Rightarrow> bool" where
  "submission_ok a e \<longleftrightarrow> sub_id a \<notin> set (map fst (en_store e))
     \<and> (case sub_generation a of None \<Rightarrow> True | Some g \<Rightarrow> generation_ok g)"

text \<open>What \<open>submit\<close> registers, and the request it makes.\<close>

lemma engine_submit_facts:
  assumes "engine_submit i p g d now enq e = Inr (h, r, e')"
  shows "rq_id r = i" "rq_dequeued_at r = None" "h = length (en_store e)" "en_closed e' = en_closed e"
    "en_config e' = en_config e" "en_metrics e' = en_metrics e" "\<not> en_closed e"
    "rq_generation r = (case g of None \<Rightarrow> ec_generation (en_config e) | Some g \<Rightarrow> g)"
    "en_store e' = en_store e @ [(i, Pending)]"
    "en_futures e' = AList.update i (length (en_store e)) (en_futures e)"
  using assms by (auto simp: engine_submit_def Let_def split: if_splits)

lemma co_submit_cases:
  assumes "co_submit r b = (accepted, b')"
  obtains (taken) m where "accepted"
      "b' = b\<lparr>co_queue := co_queue b @ [Some r], co_accepted := co_accepted b @ [r], co_metrics := m\<rparr>"
    | (refused) m where "\<not> accepted" "b' = b\<lparr>co_metrics := m\<rparr>"
  using assms by (auto simp: co_submit_def upd_metrics_def Let_def split: if_splits)

lemma cx_submit_ok:
  assumes inv: "cx_inv st" and ok: "submission_ok a (cx_engine st)"
  shows "cx_inv (snd (cx_submit a st))"
proof (cases "engine_submit (sub_id a) (sub_prompt a) (sub_generation a) (sub_deadline a)
    (sub_now a) (sub_enqueued a) (cx_engine st)")
  case (Inl err)
  with inv show ?thesis
    by (simp add: cx_submit_def)
next
  case (Inr t)
  obtain h r e where t: "t = (h, r, e)"
    by (cases t)
  let ?e = "cx_engine st" and ?b = "cx_batcher st"
  note F = engine_submit_facts [OF Inr [unfolded t]]
  have core: "co_inv 0 {#} ?b" "futures_ok ?e" "own_cells ?e"
      "set (map rq_id (co_accepted ?b)) \<subseteq> set (map fst (en_store ?e))"
      "distinct (map rq_id (co_accepted ?b))" "generation_ok (ec_generation (en_config ?e))" "answered st"
    and tr: "set (keys (en_futures ?e)) = rq_id ` set (live_requests ?b)"
    using inv F(7) by (simp_all add: cx_inv_def cx_core_def Let_def tracks_def)
  have fresh: "sub_id a \<notin> set (map fst (en_store ?e))"
    using ok by (simp add: submission_ok_def)
  have grow: "grows ?e e" "length (en_store e) = Suc h" "fst (en_store e ! h) = sub_id a"
    using submit_grows [OF Inr [unfolded t] fresh core(2,3)] by blast+
  have e_ok: "futures_ok e" "own_cells e"
    using grow(1) by (simp_all add: grows_def)
  obtain accepted b where b: "co_submit r ?b = (accepted, b)"
    by (cases "co_submit r ?b")
  have inv_b: "co_inv 0 {#} b"
    using submit_inv [OF core(1), of r] F(2,8) ok core(6) b
    by (auto simp: submission_ok_def split: option.splits)
  have fresh_live: "sub_id a \<notin> rq_id ` set (live_requests ?b)"
    using live_ids(2) [OF core(1,5)] core(4) fresh by auto
  have cells: "answered (with_batcher b e')" if "en_store e' = en_store e" "co_settled b = co_settled ?b" for e'
    using core(7) that
    by (auto simp: answered_def with_batcher_def F(9) nth_append own_answer_def less_Suc_eq)
  show ?thesis
    using b
  proof (cases rule: co_submit_cases)
    case (taken m)
    have "set (keys (en_futures e)) = insert (sub_id a) (set (keys (en_futures ?e)))"
      by (auto simp: F(10) dict_simps)
    moreover have "rq_id ` set (live_requests b) = insert (sub_id a) (rq_id ` set (live_requests ?b))"
      by (auto simp: taken(2) live_requests_def F(1))
    moreover have "cx_core (with_batcher b e)"
      using e_ok inv_b co_invD(6) [OF inv_b] core cells [of e] fresh
      by (auto simp: cx_core_def Let_def with_batcher_def taken(2) futures_ok_def own_cells_def F(1,5,9))
    ultimately have "cx_inv (with_batcher b e)"
      using tr F(4,7) by (simp add: cx_inv_def tracks_def) (simp add: with_batcher_def)
    then show ?thesis
      using taken(1) by (simp add: cx_submit_def Inr t b)
  next
    case (refused m)
    let ?er = "submit_rejected (sub_id a) e"
    have rej: "futures_ok ?er" "own_cells ?er" "en_store ?er = en_store e"
      using rejected_effect [OF e_ok, of h] grow(2,3) by simp_all
    have "keys (AList.delete i (AList.update i h f)) = keys f" if "i \<notin> set (keys f)"
      for i h and f :: "(string \<times> nat) list"
    proof -
      have "filter (\<lambda>x. x \<noteq> i) (keys f) = keys f"
        by (rule filter_True) (use that in auto)
      then show ?thesis
        by (simp add: keys_delete update_fresh [OF that])
    qed
    then have "set (keys (en_futures ?er)) = set (keys (en_futures ?e))"
      using fresh_live unfolding tr [symmetric] by (simp add: submit_rejected_def F(10) del: set_map)
    moreover have "live_requests b = live_requests ?b"
      by (simp add: refused(2) live_requests_def)
    moreover have "cx_core (with_batcher b ?er)"
      using rej inv_b co_invD(6) [OF inv_b] core cells [of ?er] fresh
      by (auto simp: cx_core_def Let_def with_batcher_def refused(2) futures_ok_def own_cells_def
          F(1,5,9) submit_rejected_def)
    ultimately have "cx_inv (with_batcher b ?er)"
      using tr F(4,7) by (simp add: cx_inv_def tracks_def) (simp add: with_batcher_def submit_rejected_def)
    then show ?thesis
      using refused(1) by (simp add: cx_submit_def Inr t b)
  qed
qed

lemma cx_start_ok:
  assumes "ContinuousEngine c r t = Inr st" "generation_ok (ec_generation c)"
  shows "cx_inv st"
proof -
  obtain b where b: "ContinuousBatcher r (ec_max_batch_size c) (ec_queue_capacity c) (MetricsRegistry t) None = Inr b"
    and st: "st = \<lparr>cx_engine = \<lparr>en_config = c, en_closed = False, en_metrics = MetricsRegistry t,
        en_store = [], en_futures = []\<rparr>, cx_batcher = b\<rparr>"
    using assms(1) by (auto simp: ContinuousEngine_def rbind_eq_Inr)
  have "co_inv 0 {#} b"
    by (rule start_inv [OF b]) simp
  moreover have "co_accepted b = []" "live_requests b = []"
    using b by (auto simp: ContinuousBatcher_def live_requests_def split: if_splits)
  ultimately show ?thesis
    using assms(2) by (simp add: st cx_inv_def cx_core_def Let_def futures_ok_def own_cells_def answered_def tracks_def)
qed

lemma cx_cancel_ok:
  assumes "cx_inv st" shows "cx_inv (st\<lparr>cx_engine := cancel_future h (cx_engine st)\<rparr>)"
proof -
  let ?e = "cx_engine st"
  have K: "futures_ok ?e" "own_cells ?e" "answered st"
    using assms by (simp_all add: cx_inv_def cx_core_def Let_def)
  have g: "grows ?e (cancel_future h ?e)"
    by (rule cancel_grows [OF K(1,2)])
  have same: "en_futures (cancel_future h ?e) = en_futures ?e" "en_closed (cancel_future h ?e) = en_closed ?e"
      "en_metrics (cancel_future h ?e) = en_metrics ?e" "en_config (cancel_future h ?e) = en_config ?e"
      "map fst (en_store (cancel_future h ?e)) = map fst (en_store ?e)"
    by (simp_all add: cancel_future_def map_update list_update_same_conv)
  have "answered (st\<lparr>cx_engine := cancel_future h ?e\<rparr>)"
    using K(3) by (auto simp: answered_def cancel_future_def nth_list_update split: if_splits)
  then have "cx_core (st\<lparr>cx_engine := cancel_future h ?e\<rparr>)"
    using assms g by (simp add: cx_inv_def cx_core_def Let_def same grows_def del: set_map)
  moreover have "tracks st \<longleftrightarrow> tracks (st\<lparr>cx_engine := cancel_future h ?e\<rparr>)"
    by (simp add: tracks_def same)
  ultimately show ?thesis
    using assms by (auto simp: cx_inv_def same)
qed

text \<open>The scheduler running on its own: cells only ever become results, and it drains.\<close>

definition only_results :: "engine \<Rightarrow> engine \<Rightarrow> bool" where
  "only_results e e' \<longleftrightarrow> length (en_store e') = length (en_store e) \<and> (\<forall>h < length (en_store e).
     (en_store e' ! h = en_store e ! h
      \<or> snd (en_store e ! h) = Pending \<and> (\<exists>resp. en_store e' ! h = (fst (en_store e ! h), Result resp)))
     \<and> (registered e h \<longrightarrow> snd (en_store e' ! h) = Pending \<longrightarrow> registered e' h))"

lemma only_results_refl [simp]: "only_results e e"
  by (simp add: only_results_def)

lemma only_results_trans:
  assumes "only_results a b" "only_results b c" shows "only_results a c"
  unfolding only_results_def
proof (intro conjI allI impI)
  have len: "length (en_store b) = length (en_store a)" "length (en_store c) = length (en_store b)"
    using assms by (simp_all add: only_results_def)
  then show "length (en_store c) = length (en_store a)"
    by simp
  fix h assume h: "h < length (en_store a)"
  have 1: "en_store b ! h = en_store a ! h
      \<or> snd (en_store a ! h) = Pending \<and> (\<exists>resp. en_store b ! h = (fst (en_store a ! h), Result resp))"
      "registered a h \<longrightarrow> snd (en_store b ! h) = Pending \<longrightarrow> registered b h"
    using assms(1) h by (auto simp: only_results_def)
  have 2: "en_store c ! h = en_store b ! h
      \<or> snd (en_store b ! h) = Pending \<and> (\<exists>resp. en_store c ! h = (fst (en_store b ! h), Result resp))"
      "registered b h \<longrightarrow> snd (en_store c ! h) = Pending \<longrightarrow> registered c h"
    using assms(2) h len by (auto simp: only_results_def)
  show "en_store c ! h = en_store a ! h
      \<or> snd (en_store a ! h) = Pending \<and> (\<exists>resp. en_store c ! h = (fst (en_store a ! h), Result resp))"
    using 1(1) 2(1) by (elim disjE) auto
  assume "registered a h" "snd (en_store c ! h) = Pending"
  with 1 2 show "registered c h"
    by (elim disjE) auto
qed

lemma settled_only_results:
  assumes "settled_by ps e e'" shows "only_results e e'"
  unfolding only_results_def
proof (intro conjI allI impI)
  show "length (en_store e') = length (en_store e)"
    using assms unfolding settled_by_def by (elim conjE)
  fix h assume h: "h < length (en_store e)"
  have cell: "en_store e' ! h =
          (case map_of ps (fst (en_store e ! h)) of
             Some resp \<Rightarrow> if registered e h \<and> snd (en_store e ! h) = Pending
                          then (fst (en_store e ! h), Result resp) else en_store e ! h
           | None \<Rightarrow> en_store e ! h)"
    using assms h unfolding settled_by_def by (elim conjE) (simp only:)
  then show "en_store e' ! h = en_store e ! h
     \<or> snd (en_store e ! h) = Pending \<and> (\<exists>resp. en_store e' ! h = (fst (en_store e ! h), Result resp))"
    by (cases "map_of ps (fst (en_store e ! h))") (simp_all split: if_splits)
  assume reg: "registered e h" and pend: "snd (en_store e' ! h) = Pending"
  then have none: "map_of ps (fst (en_store e ! h)) = None"
    using cell by (cases "map_of ps (fst (en_store e ! h))") (simp_all split: if_splits)
  then have same: "en_store e' ! h = en_store e ! h"
    using cell by simp
  have new: "fst (en_store e ! h) \<notin> set (map fst ps)"
    using none by (simp add: map_of_eq_None_iff)
  have "map_of (en_futures e') x = (if x \<in> set (map fst ps) then None else map_of (en_futures e) x)" for x
    using assms by (simp add: settled_by_def)
  with same new reg show "registered e' h"
    by (simp add: registered_def)
qed

lemma cx_run_ok:
  assumes runner: "stepwise_runner (ce_ops env) held ok fine" and est: "\<And>p. 0 < ce_estimate env p"
    and quiet: "\<not> ce_has_on_rejected env"
  shows "cx_core st \<Longrightarrow> runner_fits held ok fine [] (cx_batcher st) \<Longrightarrow> cx_core (cx_run n env st)
    \<and> runner_fits held ok fine [] (cx_batcher (cx_run n env st))
    \<and> en_config (cx_engine (cx_run n env st)) = en_config (cx_engine st) \<and> (tracks st \<longrightarrow> tracks (cx_run n env st))
    \<and> only_results (cx_engine st) (cx_engine (cx_run n env st))
    \<and> ((co_closed (cx_batcher st) \<or> None \<in> set (co_queue (cx_batcher st)))
         \<and> potential (cx_batcher st) < n \<longrightarrow> live_requests (cx_batcher (cx_run n env st)) = [])"
proof (induction n arbitrary: st)
  case (Suc n)
  obtain over st1 where 1: "cx_pass env st = Inr (over, st1)" "cx_core st1" "tracks st \<longrightarrow> tracks st1"
    "runner_fits held ok fine [] (cx_batcher st1)" "en_config (cx_engine st1) = en_config (cx_engine st)"
    "over \<longrightarrow> live_requests (cx_batcher st1) = []"
    "co_closed (cx_batcher st) \<or> None \<in> set (co_queue (cx_batcher st)) \<longrightarrow>
       (co_closed (cx_batcher st1) \<or> None \<in> set (co_queue (cx_batcher st1)))
       \<and> (over \<or> potential (cx_batcher st1) < potential (cx_batcher st))"
    "\<exists>ps. settled_by ps (cx_engine st) (cx_engine st1)"
    by (rule cx_pass_ok [OF runner est quiet Suc.prems])
  have res: "only_results (cx_engine st) (cx_engine st1)"
    using 1(8) by (elim exE) (rule settled_only_results)
  show ?case
  proof (cases over)
    case True
    with 1 res show ?thesis
      by simp
  next
    case False
    from Suc.IH [OF 1(2,4)] 1 False only_results_trans [OF res] show ?thesis
      by auto
  qed
qed simp

lemma cx_shutdown_states:
  fixes st :: "'r continuous_engine"
  assumes "cx_inv st" "\<not> cx_closed st"
    and "stepwise_runner (ce_ops env) held ok fine" "\<And>p. 0 < ce_estimate env p" "\<not> ce_has_on_rejected env"
    and "runner_fits held ok fine [] (cx_batcher st)"
  obtains st0 st1 where
    "st0 = st\<lparr>cx_engine := engine_close (cx_engine st), cx_batcher := co_shutdown (cx_batcher st)\<rparr>"
    "st1 = cx_run n env st0" "cx_shutdown n env st = st1\<lparr>cx_engine := abandon_outstanding (cx_engine st1)\<rparr>"
    "cx_core st0" "tracks st0" "cx_core st1" "tracks st1" "runner_fits held ok fine [] (cx_batcher st0)"
    "runner_fits held ok fine [] (cx_batcher st1)" "en_config (cx_engine st1) = en_config (cx_engine st)"
proof -
  let ?st0 = "st\<lparr>cx_engine := engine_close (cx_engine st), cx_batcher := co_shutdown (cx_batcher st)\<rparr>"
  have K: "cx_core st" "tracks st"
    using assms(1,2) by (simp_all add: cx_inv_def)
  have same: "co_accepted (co_shutdown b) = co_accepted b" "live_requests (co_shutdown b) = live_requests b"
      "co_settled (co_shutdown b) = co_settled b" for b :: "'r continuous_batcher"
    by (simp_all add: co_shutdown_def Let_def live_requests_def)
  have core0: "cx_core ?st0"
    using K(1) by (auto simp: cx_core_def Let_def shutdown_inv same engine_close_def futures_ok_def own_cells_def
        answered_def own_answer_def)
  have tr0: "tracks ?st0"
    using K(2) by (simp add: tracks_def same engine_close_def)
  have fit0: "runner_fits held ok fine [] (cx_batcher ?st0)"
    using shutdown_fits [OF assms(6)] by simp
  show thesis
    by (rule that [OF refl refl _ core0 tr0 _ _ fit0])
      (use cx_run_ok [OF assms(3,4,5) core0 fit0, of n] tr0 assms(2) in
        \<open>simp_all add: cx_shutdown_def Let_def engine_close_def\<close>)
qed

lemma cx_shutdown_ok:
  assumes "cx_inv st"
    and "stepwise_runner (ce_ops env) held ok fine" "\<And>p. 0 < ce_estimate env p" "\<not> ce_has_on_rejected env"
    and "runner_fits held ok fine [] (cx_batcher st)"
  shows "cx_inv (cx_shutdown n env st) \<and> runner_fits held ok fine [] (cx_batcher (cx_shutdown n env st))
    \<and> en_config (cx_engine (cx_shutdown n env st)) = en_config (cx_engine st)"
proof (cases "cx_closed st")
  case True
  with assms(1,5) show ?thesis
    by (simp add: cx_shutdown_def)
next
  case False
  obtain st0 st1 where st: "st1 = cx_run n env st0"
    "st0 = st\<lparr>cx_engine := engine_close (cx_engine st), cx_batcher := co_shutdown (cx_batcher st)\<rparr>"
    "cx_shutdown n env st = st1\<lparr>cx_engine := abandon_outstanding (cx_engine st1)\<rparr>" "cx_core st1"
    "runner_fits held ok fine [] (cx_batcher st1)" "en_config (cx_engine st1) = en_config (cx_engine st)"
    by (rule cx_shutdown_states [OF assms(1) False assms(2-5)]) blast
  let ?e = "cx_engine st1" and ?a = "abandon_outstanding (cx_engine st1)"
  have K: "futures_ok ?e" "own_cells ?e" "answered st1"
    using st(4) by (simp_all add: cx_core_def Let_def)
  note ab = abandon_effect [OF K(1)]
  have fut: "en_futures ?a = []" and len: "length (en_store ?a) = length (en_store ?e)"
    using ab [THEN conjunct1] ab [THEN conjunct2, THEN conjunct1] .
  have cell: "en_store ?a ! h = (if registered ?e h \<and> snd (en_store ?e ! h) = Pending
      then (fst (en_store ?e ! h), Failed EngineClosedError) else en_store ?e ! h)"
    if "h < length (en_store ?e)" for h
    using ab that by (elim conjE) (simp only:)
  have ids: "map fst (en_store ?a) = map fst (en_store ?e)"
    by (rule nth_equalityI) (simp_all add: len cell)
  have "answered (st1\<lparr>cx_engine := ?a\<rparr>)"
    using K(3) by (auto simp: answered_def len cell split: if_splits)
  moreover have "futures_ok ?a" "own_cells ?a"
    using abandon_grows [OF K(1,2)] by (simp_all add: grows_def)
  moreover have same: "en_metrics ?a = en_metrics ?e" "en_config ?a = en_config ?e"
    unfolding abandon_outstanding_def
    by (subst fold_keeps [of en_metrics] fold_keeps [of en_config], simp_all add: case_prod_beta)+
  ultimately have "cx_core (st1\<lparr>cx_engine := ?a\<rparr>)"
    using st(4) by (simp add: cx_core_def Let_def ids del: set_map)
  moreover have "cx_closed st1"
    by (simp add: st engine_close_def)
  ultimately show ?thesis
    unfolding st(3) using st(5,6) same(2) by (simp add: cx_inv_def fut)
qed

section \<open>Reachable engines\<close>

inductive cx_reachable ::
  "'r continuous_env \<Rightarrow> 'r \<Rightarrow> (generation_config \<Rightarrow> bool) \<Rightarrow> 'r continuous_engine \<Rightarrow> bool" for env r fine where
  cx_start: "ContinuousEngine c r t = Inr st \<Longrightarrow> generation_ok (ec_generation c) \<Longrightarrow> fine (ec_generation c) \<Longrightarrow>
    cx_reachable env r fine st"
| cx_submitted: "cx_reachable env r fine st \<Longrightarrow> submission_ok a (cx_engine st) \<Longrightarrow>
    pred_option fine (sub_generation a) \<Longrightarrow> cx_reachable env r fine (snd (cx_submit a st))"
| cx_passed: "cx_reachable env r fine st \<Longrightarrow> cx_pass env st = Inr (over, st') \<Longrightarrow> cx_reachable env r fine st'"
| cx_cancelled: "cx_reachable env r fine st \<Longrightarrow>
    cx_reachable env r fine (st\<lparr>cx_engine := cancel_future h (cx_engine st)\<rparr>)"
| cx_shut: "cx_reachable env r fine st \<Longrightarrow> cx_reachable env r fine (cx_shutdown n env st)"

text \<open>The invariant, with what the runner holds and the settings a request falls back to.\<close>

definition cx_sound ::
  "('r \<Rightarrow> int set) \<Rightarrow> ('r \<Rightarrow> bool) \<Rightarrow> (generation_config \<Rightarrow> bool) \<Rightarrow> 'r continuous_engine \<Rightarrow> bool" where
  "cx_sound held ok fine st \<longleftrightarrow> cx_inv st \<and> runner_fits held ok fine [] (cx_batcher st)
     \<and> fine (ec_generation (en_config (cx_engine st)))"

lemma cx_submit_fits:
  assumes "runner_fits held ok fine [] (cx_batcher st)" "fine (ec_generation (en_config (cx_engine st)))"
    and "pred_option fine (sub_generation a)"
  shows "runner_fits held ok fine [] (cx_batcher (snd (cx_submit a st)))
    \<and> en_config (cx_engine (snd (cx_submit a st))) = en_config (cx_engine st)"
proof (cases "engine_submit (sub_id a) (sub_prompt a) (sub_generation a) (sub_deadline a)
    (sub_now a) (sub_enqueued a) (cx_engine st)")
  case (Inl err)
  with assms(1) show ?thesis
    by (simp add: cx_submit_def)
next
  case (Inr t)
  obtain h r e where t: "t = (h, r, e)"
    by (cases t)
  note F = engine_submit_facts [OF Inr [unfolded t]]
  obtain accepted b where b: "co_submit r (cx_batcher st) = (accepted, b)"
    by (cases "co_submit r (cx_batcher st)")
  have "fine (rq_generation r)"
    using F(8) assms(2,3) by (cases "sub_generation a") simp_all
  from submit_fits [of held ok fine "cx_batcher st" r, OF assms(1) this] F(5) show ?thesis
    by (simp add: cx_submit_def Inr t b with_batcher_def runner_fits_def submit_rejected_def)
qed

lemma cx_reachable_sound:
  assumes env: "env = engine_env ops clock" and runner: "stepwise_runner ops held ok fine" "ok r" "held r = {}"
    and reach: "cx_reachable env r fine st"
  shows "cx_sound held ok fine st"
proof -
  have E: "stepwise_runner (ce_ops env) held ok fine" "\<And>p. 0 < ce_estimate env p" "\<not> ce_has_on_rejected env"
    using runner(1) by (simp_all add: env engine_env_def default_estimate_def)
  show ?thesis
    using reach
  proof (induction rule: cx_reachable.induct)
    case (cx_start c t st)
    then obtain b where "ContinuousBatcher r (ec_max_batch_size c) (ec_queue_capacity c) (MetricsRegistry t) None = Inr b"
      "cx_batcher st = b" "en_config (cx_engine st) = c"
      by (auto simp: ContinuousEngine_def rbind_eq_Inr)
    with cx_start start_fits [of r _ _ _ _ b ok held fine] runner(2,3) show ?case
      by (auto simp: cx_sound_def intro: cx_start_ok)
  next
    case (cx_submitted st a)
    with cx_submit_fits [of held ok fine st a] cx_submit_ok [of st a] show ?case
      by (simp add: cx_sound_def)
  next
    case (cx_passed st over st')
    have S: "cx_core st" "runner_fits held ok fine [] (cx_batcher st)"
      using cx_passed.IH by (simp_all add: cx_sound_def cx_inv_def)
    obtain over' st'' where "cx_pass env st = Inr (over', st'')" "cx_core st''" "tracks st \<longrightarrow> tracks st''"
        "runner_fits held ok fine [] (cx_batcher st'')" "en_config (cx_engine st'') = en_config (cx_engine st)"
        "en_futures (cx_engine st) = [] \<longrightarrow> en_futures (cx_engine st'') = []"
      by (rule cx_pass_ok [OF E S])
    with cx_passed.hyps(2) cx_passed.IH cx_pass_closed [OF cx_passed.hyps(2)] show ?case
      by (auto simp: cx_sound_def cx_inv_def)
  next
    case (cx_cancelled st h)
    then show ?case
      using cx_cancel_ok [of st h] by (simp add: cx_sound_def cancel_future_def)
  next
    case (cx_shut st n)
    then show ?case
      using cx_shutdown_ok [OF _ E, of st n] by (simp add: cx_sound_def)
  qed
qed

lemma cx_reachable_inv:
  assumes "env = engine_env ops clock" "serves ops r fine" "cx_reachable env r fine st"
  shows "cx_inv st"
  by (rule servesE [OF assms(2)]) (use cx_reachable_sound [OF assms(1) _ _ _ assms(3)] in \<open>auto simp: cx_sound_def\<close>)

text \<open>What a future that holds a result holds.\<close>

lemma results_are_own:
  assumes "serves ops r fine" and "cx_reachable (engine_env ops clock) r fine st"
    and "h < length (en_store (cx_engine st))" and "en_store (cx_engine st) ! h = (i, Result resp)"
  shows "\<exists>r. rq_id r = i \<and> (resp = expire_response r \<or>
    (\<exists>s now. ss_prompt s = rq_prompt r \<and> ss_generation s = rq_generation r
       \<and> resp = finish_response r s now \<and> rs_text resp = seq_text s \<and> response_ok resp))"
proof -
  have "answered st"
    using cx_reachable_inv [OF refl assms(1,2)] by (simp add: cx_inv_def cx_core_def Let_def)
  then have "own_answer (cx_batcher st) i resp"
    using assms(3,4) unfolding answered_def by (metis fst_conv snd_conv)
  then obtain r x where that2: "(r, x) \<in> set (co_settled (cx_batcher st))" "rq_id r = i"
    "case x of Completed s \<Rightarrow> own_seq r s \<and> (\<exists>now. resp = finish_response r s now)
       | Expired \<Rightarrow> resp = expire_response r | Rejected \<Rightarrow> False"
    by (auto simp: own_answer_def)
  then show ?thesis
  proof (cases x)
    case (Completed s)
    have "rs_text (finish_response r s now) = seq_text s" "response_ok (finish_response r s now)" for now
      by (simp_all add: finish_response_def Let_def response_ok_def)
    with Completed that2 show ?thesis
      unfolding own_seq_def by (intro exI [of _ r]) auto
  qed auto
qed

section \<open>Properties\<close>




section \<open>Witnesses\<close>

definition ex_submission :: "string \<Rightarrow> int \<Rightarrow> submission" where
  "ex_submission i n = \<lparr>sub_id = i, sub_prompt = ''hello'',
     sub_generation = Some (gc_defaults\<lparr>gc_max_new_tokens := n\<rparr>),
     sub_deadline = None, sub_now = 0, sub_enqueued = 0\<rparr>"

definition ex_clock :: "nat \<Rightarrow> real" where
  "ex_clock n = real n"

abbreviation ex_served :: "echo_runner continuous_engine \<Rightarrow> bool" where
  "ex_served \<equiv> cx_reachable (engine_env echo_ops ex_clock) ex_runner any_settings"

definition ex_start :: "echo_runner continuous_engine" where
  "ex_start = (case ContinuousEngine ec_defaults ex_runner 0 of Inr st \<Rightarrow> st | Inl _ \<Rightarrow> undefined)"

text \<open>One request queued, and the same after a pass, which completes it.\<close>

definition ex_queued :: "echo_runner continuous_engine" where
  "ex_queued = snd (cx_submit (ex_submission ''q'' 1) ex_start)"

lemma ex_start_made: "ContinuousEngine ec_defaults ex_runner 0 = Inr ex_start"
proof -
  have "\<not> isl (ContinuousEngine ec_defaults ex_runner 0)"
    by code_simp
  then show ?thesis
    by (auto simp: ex_start_def split: sum.split)
qed

lemma ex_queued_reachable: "ex_served ex_queued"
  unfolding ex_queued_def
proof (rule cx_submitted)
  show "ex_served ex_start"
    by (rule cx_start [OF ex_start_made]) (simp_all add: ec_defaults_def gc_defaults_def generation_ok_def)
  have "length (en_store (cx_engine ex_start)) = 0"
    by code_simp
  then show "submission_ok (ex_submission ''q'' 1) (cx_engine ex_start)"
    by (simp add: submission_ok_def ex_submission_def gc_defaults_def generation_ok_def)
  show "pred_option any_settings (sub_generation (ex_submission ''q'' 1))"
    by (simp add: pred_option_def)
qed

lemma ex_queued_facts:
  "\<not> en_closed (cx_engine ex_queued)" "\<not> co_stopping (cx_batcher ex_queued)"
  "\<not> co_full (cx_batcher ex_queued)" "keys (en_futures (cx_engine ex_queued)) = [''q'']"
  "map snd (en_futures (cx_engine ex_queued)) = [0]" "potential (cx_batcher ex_queued) = 2"
  "map fst (en_store (cx_engine ex_queued)) = [''q'']"
  "list_all (\<lambda>p. case snd p of Pending \<Rightarrow> True | _ \<Rightarrow> False) (en_store (cx_engine ex_queued))"
  by code_simp+

lemma ex_queued_cell:
  "length (en_store (cx_engine ex_queued)) = 1" "fst (en_store (cx_engine ex_queued) ! 0) = ''q''"
  "snd (en_store (cx_engine ex_queued) ! 0) = Pending" "en_futures (cx_engine ex_queued) = [(''q'', 0)]"
  using ex_queued_facts(7,8) ex_queued_facts(4,5)
  by (cases "en_store (cx_engine ex_queued)"; cases "en_futures (cx_engine ex_queued)"; auto split: future_state.splits)+



text \<open>The pass after the submission answers the request with its own text.\<close>

definition ex_answered :: "echo_runner continuous_engine" where
  "ex_answered = (case cx_pass (engine_env echo_ops ex_clock) ex_queued of Inr (_, st) \<Rightarrow> st | Inl _ \<Rightarrow> undefined)"

lemma ex_answered_facts:
  "\<not> isl (cx_pass (engine_env echo_ops ex_clock) ex_queued)"
  "map (\<lambda>p. (fst p, case snd p of Result r \<Rightarrow> rs_text r | _ \<Rightarrow> [])) (en_store (cx_engine ex_answered)) = [(''q'', ''he0'')]"
  by code_simp+

lemma ex_answered_cell:
  "ex_served ex_answered"
  "\<exists>resp. 0 < length (en_store (cx_engine ex_answered))
     \<and> en_store (cx_engine ex_answered) ! 0 = (''q'', Result resp) \<and> rs_text resp = ''he0''"
proof -
  obtain over st where st: "cx_pass (engine_env echo_ops ex_clock) ex_queued = Inr (over, st)"
    using ex_answered_facts(1) by (cases "cx_pass (engine_env echo_ops ex_clock) ex_queued") auto
  then have "st = ex_answered"
    by (simp add: ex_answered_def)
  with cx_passed [OF ex_queued_reachable st] show "ex_served ex_answered"
    by simp
  show "\<exists>resp. 0 < length (en_store (cx_engine ex_answered))
     \<and> en_store (cx_engine ex_answered) ! 0 = (''q'', Result resp) \<and> rs_text resp = ''he0''"
    using ex_answered_facts(2)
    by (cases "en_store (cx_engine ex_answered)") (auto split: future_state.splits)
qed


end
