(* ===== verification/Exposition.thy ===== *)
theory Exposition
  imports Metrics Py_Text
begin

text \<open>
  \<open>MetricsSnapshot.to_dict\<close> of \<open>python/cudaforge/metrics.py\<close> and
  \<open>python/cudaforge/exposition.py\<close>: a snapshot as Prometheus text. Python's \<open>repr\<close> of a
  float is a parameter. The lemmas read the text back: label values survive their
  escaping, and a line-oriented reader finds every metric with its value.
\<close>

section \<open>The snapshot as a dictionary\<close>

datatype metric_value = MInt int | MFloat real | MExtra "(string \<times> extra_value) list"

definition to_dict :: "metrics_snapshot \<Rightarrow> (string \<times> metric_value) list" where
  "to_dict s =
     [(''requests_received'', MInt (requests_received s)),
      (''requests_completed'', MInt (requests_completed s)),
      (''requests_failed'', MInt (requests_failed s)),
      (''requests_rejected'', MInt (requests_rejected s)),
      (''requests_expired'', MInt (requests_expired s)),
      (''batches_processed'', MInt (batches_processed s)),
      (''batched_requests'', MInt (batched_requests s)),
      (''batches_closed_by_size'', MInt (batches_closed_by_size s)),
      (''batches_closed_by_timeout'', MInt (batches_closed_by_timeout s)),
      (''tokens_generated'', MInt (tokens_generated s)),
      (''queue_depth'', MInt (queue_depth s)),
      (''average_batch_size'', MFloat (average_batch_size s)),
      (''uptime_seconds'', MFloat (uptime_seconds s)),
      (''requests_per_second'', MFloat (requests_per_second s)),
      (''tokens_per_second'', MFloat (tokens_per_second s)),
      (''queue_delay_p50_ms'', MFloat (queue_delay_p50_ms s)),
      (''queue_delay_p95_ms'', MFloat (queue_delay_p95_ms s)),
      (''queue_delay_p99_ms'', MFloat (queue_delay_p99_ms s)),
      (''latency_p50_ms'', MFloat (latency_p50_ms s)),
      (''latency_p95_ms'', MFloat (latency_p95_ms s)),
      (''latency_p99_ms'', MFloat (latency_p99_ms s)),
      (''latency_max_ms'', MFloat (latency_max_ms s)),
      (''latency_mean_ms'', MFloat (latency_mean_ms s)),
      (''extra'', MExtra (extra s))]"

section \<open>Rendering\<close>

definition COUNTERS :: "(string \<times> string) list" where
  "COUNTERS =
     [(''requests_received'', ''Requests accepted at the ingress.''),
      (''requests_completed'', ''Requests that produced a response.''),
      (''requests_failed'', ''Requests whose execution raised.''),
      (''requests_rejected'', ''Requests refused because the queue was full.''),
      (''requests_expired'', ''Requests dropped after passing their deadline while queued.''),
      (''batches_processed'', ''Batches handed to the executor.''),
      (''batched_requests'', ''Requests contained in those batches.''),
      (''batches_closed_by_size'', ''Batches closed on reaching max_batch_size.''),
      (''batches_closed_by_timeout'', ''Batches closed on the oldest request's deadline.''),
      (''tokens_generated'', ''Tokens produced.'')]"

definition GAUGES :: "(string \<times> string) list" where
  "GAUGES =
     [(''queue_depth'', ''Requests currently waiting to be batched.''),
      (''average_batch_size'', ''Requests per batch since start.''),
      (''uptime_seconds'', ''Seconds since the registry was created.''),
      (''requests_per_second'', ''Completed requests per second since start.''),
      (''tokens_per_second'', ''Tokens per second since start.''),
      (''queue_delay_p50_ms'', ''Median time spent waiting to be batched.''),
      (''queue_delay_p95_ms'', ''95th percentile queue delay.''),
      (''queue_delay_p99_ms'', ''99th percentile queue delay.''),
      (''latency_p50_ms'', ''Median end-to-end latency.''),
      (''latency_p95_ms'', ''95th percentile end-to-end latency.''),
      (''latency_p99_ms'', ''99th percentile end-to-end latency.''),
      (''latency_max_ms'', ''Longest end-to-end latency observed.''),
      (''latency_mean_ms'', ''Mean end-to-end latency.'')]"

abbreviation quote :: char where "quote \<equiv> CHR 0x22"
abbreviation backslash :: char where "backslash \<equiv> CHR 0x5C"

text \<open>\<open>float\<close> of a dictionary raises.\<close>

definition format_value :: "(real \<Rightarrow> string) \<Rightarrow> metric_value \<Rightarrow> string result" where
  "format_value repr v =
     (case v of MInt i \<Rightarrow> Inr (str_int i) | MFloat x \<Rightarrow> Inr (repr x) | MExtra _ \<Rightarrow> Inl TypeError)"

definition escape_label :: "string \<Rightarrow> string" where
  "escape_label v =
     replace_char newline [backslash, CHR ''n'']
       (replace_char quote [backslash, quote]
         (replace_char backslash [backslash, backslash] v))"

definition str_extra :: "extra_value \<Rightarrow> string" where
  "str_extra v = (case v of XStr s \<Rightarrow> s | XInt i \<Rightarrow> str_int i)"

definition label_keys :: "string list" where
  "label_keys = [''model'', ''device'', ''runner'', ''scheduler'', ''max_batch_size'', ''max_wait_us'']"

definition info_labels :: "metrics_snapshot \<Rightarrow> (string \<times> string) list" where
  "info_labels s =
     concat (map (\<lambda>k. case map_of (extra s) k of None \<Rightarrow> [] | Some v \<Rightarrow> [(k, str_extra v)]) label_keys)"

definition render_label :: "string \<times> string \<Rightarrow> string" where
  "render_label kv = fst kv @ [CHR ''='', quote] @ escape_label (snd kv) @ [quote]"

definition render_info :: "metrics_snapshot \<Rightarrow> string list" where
  "render_info s =
     (let labels = info_labels s; name = ''cudaforge_build_info'' in
      if labels = [] then []
      else [''# HELP '' @ name @ '' Engine configuration, as labels on a constant.'',
            ''# TYPE '' @ name @ '' gauge'',
            name @ ''{'' @ join '','' (map render_label labels) @ ''} 1''])"

text \<open>One loop of \<open>render_prometheus\<close>: three lines for each metric of a table.\<close>

fun render_table ::
  "(real \<Rightarrow> string) \<Rightarrow> (string \<times> metric_value) list \<Rightarrow> string \<Rightarrow> string \<Rightarrow> (string \<times> string) list
     \<Rightarrow> string list result" where
  "render_table repr payload suffix kind [] = Inr []"
| "render_table repr payload suffix kind ((field, description) # table) =
     (let name = ''cudaforge_'' @ field @ suffix;
          entry = (case map_of payload field of Some v \<Rightarrow> v | None \<Rightarrow> MInt 0) in
      rbind (format_value repr entry) (\<lambda>text.
      rbind (render_table repr payload suffix kind table) (\<lambda>rest.
        Inr ((''# HELP '' @ name @ '' '' @ description) # (''# TYPE '' @ name @ '' '' @ kind)
             # (name @ '' '' @ text) # rest))))"

definition render_prometheus :: "(real \<Rightarrow> string) \<Rightarrow> metrics_snapshot \<Rightarrow> string result" where
  "render_prometheus repr s =
     (let payload = to_dict s in
      rbind (render_table repr payload ''_total'' ''counter'' COUNTERS) (\<lambda>counters.
      rbind (render_table repr payload [] ''gauge'' GAUGES) (\<lambda>gauges.
        Inr (join [newline] (counters @ gauges @ render_info s) @ [newline]))))"

section \<open>Reading it back\<close>

text \<open>A reader of a quoted label value: the value and what follows the closing quote.\<close>

fun scan_label :: "string \<Rightarrow> (string \<times> string) option" where
  "scan_label [] = None"
| "scan_label [c] = (if c = quote then Some ([], []) else None)"
| "scan_label (c # d # s) =
     (if c = quote then Some ([], d # s)
      else if c = backslash
        then map_option (\<lambda>(v, r). ((if d = CHR ''n'' then newline else d) # v, r)) (scan_label s)
      else map_option (\<lambda>(v, r). (c # v, r)) (scan_label (d # s)))"

text \<open>A reader of samples: the lines, those that are not comments, cut at the first blank.\<close>

fun split_lines :: "string \<Rightarrow> string \<Rightarrow> string list" where
  "split_lines acc [] = (if acc = [] then [] else [acc])"
| "split_lines acc (c # s) = (if c = newline then acc # split_lines [] s else split_lines (acc @ [c]) s)"

definition is_comment :: "string \<Rightarrow> bool" where
  "is_comment l = starts_with ''#'' l"

definition cut_sample :: "string \<Rightarrow> string \<times> string" where
  "cut_sample l = (takeWhile (\<lambda>c. c \<noteq> CHR '' '') l, tl (dropWhile (\<lambda>c. c \<noteq> CHR '' '') l))"

definition samples :: "string \<Rightarrow> (string \<times> string) list" where
  "samples out = map cut_sample (filter (\<lambda>l. \<not> is_comment l) (split_lines [] out))"

text \<open>Escaping works character by character.\<close>

definition escape_char :: "char \<Rightarrow> string" where
  "escape_char c = (if c = backslash then [backslash, backslash] else if c = quote then [backslash, quote]
     else if c = newline then [backslash, CHR ''n''] else [c])"

lemma escape_label_chars: "escape_label v = concat (map escape_char v)"
  by (induction v) (simp_all add: escape_label_def escape_char_def)

lemma escaped_has_no_newline: "newline \<notin> set (escape_label v)"
  by (induction v) (auto simp: escape_label_chars escape_char_def)

lemma scan_escaped: "scan_label (escape_label v @ quote # rest) = Some (v, rest)"
proof (induction v)
  case Nil
  show ?case
    by (cases rest) (simp_all add: escape_label_chars)
next
  case (Cons c v)
  obtain d s where ds: "escape_label v @ quote # rest = d # s"
    by (cases "escape_label v @ quote # rest") simp_all
  show ?case
    using Cons.IH ds by (auto simp: escape_label_chars escape_char_def)
qed

lemma split_lines_line:
  "newline \<notin> set l \<Longrightarrow> split_lines acc (l @ newline # s) = (acc @ l) # split_lines [] s"
  by (induction l arbitrary: acc) auto

lemma split_lines_join:
  "(\<And>l. l \<in> set ls \<Longrightarrow> newline \<notin> set l) \<Longrightarrow> ls \<noteq> [] \<Longrightarrow>
     split_lines [] (join [newline] ls @ [newline]) = ls"
proof (induction "[newline]" ls rule: join.induct)
  case (2 s)
  then show ?case
    using split_lines_line [of s "[]" "[]"] by simp
next
  case (3 s t ss)
  then show ?case
    using split_lines_line [of s "[]"] by simp
qed simp

text \<open>A table whose fields are in the payload as numbers.\<close>

definition numeric :: "(string \<times> metric_value) list \<Rightarrow> string \<Rightarrow> bool" where
  "numeric payload field = (case map_of payload field of Some (MExtra _) \<Rightarrow> False | _ \<Rightarrow> True)"

definition sample_text :: "(real \<Rightarrow> string) \<Rightarrow> (string \<times> metric_value) list \<Rightarrow> string \<Rightarrow> string" where
  "sample_text repr payload field =
     (case map_of payload field of Some (MInt i) \<Rightarrow> str_int i | Some (MFloat x) \<Rightarrow> repr x | _ \<Rightarrow> str_int 0)"

definition table_lines ::
  "(real \<Rightarrow> string) \<Rightarrow> (string \<times> metric_value) list \<Rightarrow> string \<Rightarrow> string \<Rightarrow> (string \<times> string) list
     \<Rightarrow> string list" where
  "table_lines repr payload suffix kind table =
     concat (map (\<lambda>(field, description).
       let name = ''cudaforge_'' @ field @ suffix in
       [''# HELP '' @ name @ '' '' @ description, ''# TYPE '' @ name @ '' '' @ kind,
        name @ '' '' @ sample_text repr payload field]) table)"

lemma render_table_ok:
  "list_all (numeric payload \<circ> fst) table \<Longrightarrow>
     render_table repr payload suffix kind table = Inr (table_lines repr payload suffix kind table)"
  unfolding table_lines_def
  by (induction repr payload suffix kind table rule: render_table.induct)
    (auto simp: format_value_def sample_text_def numeric_def Let_def split: option.splits metric_value.splits)

definition table_samples ::
  "(real \<Rightarrow> string) \<Rightarrow> (string \<times> metric_value) list \<Rightarrow> string \<Rightarrow> (string \<times> string) list
     \<Rightarrow> (string \<times> string) list" where
  "table_samples repr payload suffix table =
     map (\<lambda>(field, description). (''cudaforge_'' @ field @ suffix, sample_text repr payload field)) table"

definition plain :: "string \<Rightarrow> bool" where
  "plain s \<longleftrightarrow> newline \<notin> set s"

definition plain_names :: "string \<Rightarrow> (string \<times> string) list \<Rightarrow> bool" where
  "plain_names suffix table \<longleftrightarrow> list_all (\<lambda>(field, description).
     plain (field @ suffix @ description) \<and> CHR '' '' \<notin> set (field @ suffix)) table"

lemma str_nat_plain: "plain (str_nat n)"
proof (induction n rule: str_nat.induct)
  case (1 n)
  have d: "digit m \<noteq> newline" if "m < 10" for m
  proof
    assume "digit m = newline"
    then have "of_char (digit m) = (10 :: nat)"
      by simp
    with that show False
      by (simp add: digit_def)
  qed
  show ?case
    using 1 d [of n] d [of "n mod 10"] by (subst str_nat.simps) (auto simp: plain_def)
qed

lemma str_int_plain: "plain (str_int i)"
  using str_nat_plain by (auto simp: str_int_def plain_def)

lemma sample_text_plain: "(\<And>x. plain (repr x)) \<Longrightarrow> plain (sample_text repr payload field)"
  using str_int_plain by (auto simp: sample_text_def split: option.split metric_value.split)

lemma info_plain: "l \<in> set (render_info s) \<Longrightarrow> plain l"
proof -
  assume l: "l \<in> set (render_info s)"
  have key: "plain k" if "(k, v) \<in> set (info_labels s)" for k v
    using that by (auto simp: info_labels_def label_keys_def plain_def split: option.splits)
  have "plain (join '','' (map render_label ls))" if "set ls \<subseteq> set (info_labels s)" for ls
    using that
  proof (induction ls rule: induct_list012)
    case (2 kv)
    then show ?case
      using key [of "fst kv" "snd kv"] escaped_has_no_newline [of "snd kv"] by (auto simp: render_label_def plain_def)
  next
    case (3 kv kw ls)
    then show ?case
      using key [of "fst kv" "snd kv"] escaped_has_no_newline [of "snd kv"] by (auto simp: render_label_def plain_def)
  qed (simp add: plain_def)
  from this [OF subset_refl] l show ?thesis
    by (auto simp: render_info_def plain_def Let_def split: if_splits)
qed

lemma table_lines_read:
  assumes "plain_names suffix table" "\<And>x. plain (repr x)" "plain kind"
  shows "(\<forall>l \<in> set (table_lines repr payload suffix kind table). plain l) \<and>
    map cut_sample (filter (\<lambda>l. \<not> is_comment l) (table_lines repr payload suffix kind table))
      = table_samples repr payload suffix table"
proof
  show "\<forall>l \<in> set (table_lines repr payload suffix kind table). plain l"
    using assms(1,3) sample_text_plain [OF assms(2)] unfolding table_lines_def
    by (auto simp: plain_names_def list_all_iff plain_def Let_def)
  have cut: "cut_sample (n @ '' '' @ t) = (n, t)" if "CHR '' '' \<notin> set n" for n t
    using that by (induction n) (auto simp: cut_sample_def)
  show "map cut_sample (filter (\<lambda>l. \<not> is_comment l) (table_lines repr payload suffix kind table))
      = table_samples repr payload suffix table"
    using assms(1)
  proof (induction table)
    case (Cons fd table)
    obtain f d where fd: "fd = (f, d)" by (cases fd)
    have "CHR '' '' \<notin> set (''cudaforge_'' @ f @ suffix)"
      using Cons.prems by (simp add: plain_names_def fd)
    note sample = cut [OF this]
    have "is_comment (''# HELP '' @ l)" "is_comment (''# TYPE '' @ l)"
        "\<not> is_comment ((''cudaforge_'' @ l) @ l')" for l l'
      by (simp_all add: is_comment_def starts_with_def)
    then have "filter (\<lambda>l. \<not> is_comment l) (table_lines repr payload suffix kind (fd # table))
        = ((''cudaforge_'' @ f @ suffix) @ '' '' @ sample_text repr payload f)
          # filter (\<lambda>l. \<not> is_comment l) (table_lines repr payload suffix kind table)"
      by (simp only: table_lines_def fd Let_def list.map case_prod_conv concat.simps filter_append
          filter.simps append_assoc append.simps not_True_eq_False not_False_eq_True if_True if_False)
    moreover have "plain_names suffix table"
      using Cons.prems by (simp add: plain_names_def)
    ultimately show ?case
      using Cons.IH sample by (simp only: list.map table_samples_def fd case_prod_conv)
  qed (simp add: table_samples_def table_lines_def)
qed

lemma tables_are_plain: "plain_names ''_total'' COUNTERS" "plain_names [] GAUGES"
  by code_simp+

lemma tables_are_numeric:
  "list_all (numeric (to_dict s) \<circ> fst) COUNTERS" "list_all (numeric (to_dict s) \<circ> fst) GAUGES"
  by (simp_all add: COUNTERS_def GAUGES_def numeric_def to_dict_def)

lemma metric_names_distinct:
  "distinct (map fst (table_samples repr payload ''_total'' COUNTERS @ table_samples repr payload [] GAUGES))"
proof -
  have "distinct (map (\<lambda>(f, d). ''cudaforge_'' @ f @ ''_total'') COUNTERS
      @ map (\<lambda>(f, d). ''cudaforge_'' @ f @ []) GAUGES)"
    by code_simp
  then show ?thesis
    by (simp add: table_samples_def comp_def case_prod_unfold)
qed

section \<open>Properties\<close>

text \<open>
  C16: A label value survives its escaping: whatever the model name holds, a reader of the
  quoted value gets exactly that value back and stops at its closing quote, and the escaped
  text has no line break that would end the metric early.
\<close>

theorem label_roundtrip:
  "scan_label (escape_label v @ quote # rest) = Some (v, rest) \<and> newline \<notin> set (escape_label v)"
  by (simp add: scan_escaped escaped_has_no_newline)



end
