(* ===== verification/Speculative.thy ===== *)
theory Speculative
  imports Config
begin

text \<open>
  \<open>python/cudaforge/speculative.py\<close>: speculative decoding. Both models are parameters, known
  by what a causal language model documents: the logits of a position depend on the tokens
  up to it only, and a call with a cache is the call on the cached tokens followed by the
  block. So a cache is the list of tokens it was fed. Token ids are \<open>nat\<close>, tensors are lists,
  floats are reals; the generator's \<open>rand\<close> and \<open>multinomial\<close> are parameters over a generator
  state.
\<close>

section \<open>Statistics and the expected gain\<close>

record speculative_stats =
  sv_target_calls :: nat
  sv_draft_calls :: nat
  sv_proposed :: nat
  sv_accepted :: nat
  sv_generated :: nat

definition SpeculativeStats :: speculative_stats where
  "SpeculativeStats = \<lparr>sv_target_calls = 0, sv_draft_calls = 0, sv_proposed = 0, sv_accepted = 0,
     sv_generated = 0\<rparr>"

definition acceptance_rate :: "speculative_stats \<Rightarrow> real" where
  "acceptance_rate s = (if sv_proposed s \<noteq> 0 then real (sv_accepted s) / real (sv_proposed s) else 0)"

definition tokens_per_target_call :: "speculative_stats \<Rightarrow> real" where
  "tokens_per_target_call s =
     (if sv_target_calls s \<noteq> 0 then real (sv_generated s) / real (sv_target_calls s) else 0)"

definition expected_tokens_per_call :: "real \<Rightarrow> int \<Rightarrow> real result" where
  "expected_tokens_per_call acceptance lookahead =
     (if \<not> (0 \<le> acceptance \<and> acceptance \<le> 1) then Inl ValueError
      else if lookahead < 1 then Inl ValueError
      else if acceptance \<ge> 1 then Inr (of_int (lookahead + 1))
      else Inr ((1 - acceptance ^ nat (lookahead + 1)) / (1 - acceptance)))"

section \<open>Distributions\<close>

text \<open>\<open>argmax\<close>: the first of the largest.\<close>

definition argmax :: "real list \<Rightarrow> nat" where
  "argmax xs = length (takeWhile (\<lambda>x. x \<noteq> Max (set xs)) xs)"

definition softmax :: "real option list \<Rightarrow> real list" where
  "softmax xs =
     (let e = map (\<lambda>x. case x of None \<Rightarrow> 0 | Some v \<Rightarrow> exp v) xs in map (\<lambda>v. v / sum_list e) e)"

text \<open>
  Masking with minus infinity is \<open>None\<close>. \<open>order\<close> is the index tensor of a descending sort;
  the library leaves the order of equal elements open.
\<close>

definition top_k_mask :: "int \<Rightarrow> real list \<Rightarrow> real option list" where
  "top_k_mask k xs =
     (if 0 < k
      then let limit = min (nat k) (length xs); threshold = rev (sort xs) ! (limit - 1)
           in map (\<lambda>x. if x < threshold then None else Some x) xs
      else map Some xs)"

fun cumsum :: "real \<Rightarrow> real list \<Rightarrow> real list" where
  "cumsum s [] = []"
| "cumsum s (x # xs) = (s + x) # cumsum (s + x) xs"

fun scatter :: "nat list \<Rightarrow> real list \<Rightarrow> real list \<Rightarrow> real list" where
  "scatter (i # is) (v # vs) base = scatter is vs (base[i := v])"
| "scatter _ _ base = base"

definition top_p_filter :: "(real list \<Rightarrow> nat list) \<Rightarrow> real \<Rightarrow> real list \<Rightarrow> real list" where
  "top_p_filter order p probs =
     (if p < 1
      then let idx = order probs; ordered = map (\<lambda>i. probs ! i) idx;
               dropped = map2 (\<lambda>c v. c - v > p) (cumsum 0 ordered) ordered;
               dropped = dropped[0 := False];
               ordered = map2 (\<lambda>d v. if d then 0 else v) dropped ordered;
               probs = scatter idx ordered ordered
           in map (\<lambda>v. v / sum_list probs) probs
      else probs)"

definition distribution :: "(real list \<Rightarrow> nat list) \<Rightarrow> generation_config \<Rightarrow> real list \<Rightarrow> real list" where
  "distribution order g logits =
     (let scaled = map (\<lambda>x. x / max (gc_temperature g) (1 / 10 ^ 6)) logits
      in top_p_filter order (gc_top_p g) (softmax (top_k_mask (gc_top_k g) scaled)))"

section \<open>Models and caches\<close>

definition forward :: "(nat list \<Rightarrow> real list) \<Rightarrow> nat list \<Rightarrow> nat list \<Rightarrow> real list list \<times> nat list" where
  "forward lm cache block =
     (map (\<lambda>i. lm (cache @ take (Suc i) block)) [0..<length block], cache @ block)"

text \<open>\<open>cache.crop(-excess)\<close> drops from the end; without excess nothing is called.\<close>

definition crop :: "nat list \<Rightarrow> nat \<Rightarrow> nat \<Rightarrow> nat list" where
  "crop cache current wanted = take (length cache - (current - wanted)) cache"

record 'g generator =
  rg_rand :: "'g \<Rightarrow> real \<times> 'g"
  rg_multinomial :: "real list \<Rightarrow> 'g \<Rightarrow> nat \<times> 'g"

record 'g decoder =
  sd_target :: "nat list \<Rightarrow> real list"
  sd_draft :: "nat list \<Rightarrow> real list"
  sd_lookahead :: nat
  sd_order :: "real list \<Rightarrow> nat list"
  sd_rng :: "'g generator"

definition SpeculativeDecoder ::
  "(nat list \<Rightarrow> real list) \<Rightarrow> (nat list \<Rightarrow> real list) \<Rightarrow> int \<Rightarrow> (real list \<Rightarrow> nat list) \<Rightarrow> 'g generator
     \<Rightarrow> 'g decoder result" where
  "SpeculativeDecoder target draft lookahead order rng =
     (if lookahead < 1 then Inl ValueError
      else Inr \<lparr>sd_target = target, sd_draft = draft, sd_lookahead = nat lookahead,
                sd_order = order, sd_rng = rng\<rparr>)"

section \<open>Proposing\<close>

definition greedy_mode :: "generation_config \<Rightarrow> bool" where
  "greedy_mode g \<longleftrightarrow> gc_temperature g \<le> 0"

definition point_mass :: "nat \<Rightarrow> nat \<Rightarrow> real list" where
  "point_mass n token = (replicate n 0)[token := 1]"

definition draft_token ::
  "'g decoder \<Rightarrow> generation_config \<Rightarrow> real list \<Rightarrow> 'g \<Rightarrow> nat \<times> real list \<times> 'g" where
  "draft_token d gen row g =
     (if greedy_mode gen then (argmax row, point_mass (length row) (argmax row), g)
      else let probs = distribution (sd_order d) gen row;
               (token, g) = rg_multinomial (sd_rng d) probs g
           in (token, probs, g))"

text \<open>\<open>_propose\<close>: tokens, their distributions, the draft's cache. An empty block has no logits.\<close>

fun propose ::
  "'g decoder \<Rightarrow> generation_config \<Rightarrow> nat \<Rightarrow> nat list \<Rightarrow> nat list \<Rightarrow> 'g
     \<Rightarrow> (nat list \<times> real list list \<times> nat list \<times> 'g) result" where
  "propose d gen 0 input cache g = Inr ([], [], cache, g)"
| "propose d gen (Suc width) input cache g =
     (let (logits, cache) = forward (sd_draft d) cache input in
      if logits = [] then Inl IndexError
      else let (token, probs, g) = draft_token d gen (last logits) g in
        rbind (propose d gen width [token] cache g) (\<lambda>(tokens, dists, cache, g).
          Inr (token # tokens, probs # dists, cache, g)))"

section \<open>Verifying\<close>

definition acceptance_ratio :: "real list \<Rightarrow> real list \<Rightarrow> nat \<Rightarrow> real" where
  "acceptance_ratio target draft x = min 1 (target ! x / draft ! x)"

definition residual :: "real list \<Rightarrow> real list \<Rightarrow> real list" where
  "residual target draft = map2 (\<lambda>p q. max 0 (p - q)) target draft"

fun verify ::
  "'g decoder \<Rightarrow> generation_config \<Rightarrow> nat \<Rightarrow> nat list \<Rightarrow> real list list \<Rightarrow> real list list \<Rightarrow> 'g
     \<Rightarrow> (nat \<times> nat \<times> 'g) result" where
  "verify d gen index [] (bonus # rows) dists g =
     (if greedy_mode gen then Inr (index, argmax bonus, g)
      else let (token, g) = rg_multinomial (sd_rng d) (distribution (sd_order d) gen bonus) g
           in Inr (index, token, g))"
| "verify d gen index (proposed # proposals) (row # rows) (draft # dists) g =
     (if greedy_mode gen then
        (if argmax row = proposed then verify d gen (Suc index) proposals rows dists g
         else Inr (index, argmax row, g))
      else
        let target = distribution (sd_order d) gen row; (u, g) = rg_rand (sd_rng d) g in
        if u < acceptance_ratio target draft proposed
        then verify d gen (Suc index) proposals rows dists g
        else let rest = residual target draft; total = sum_list rest in
          if \<not> 0 < total then Inl AssertionError
          else let (token, g) = rg_multinomial (sd_rng d) (map (\<lambda>v. v / total) rest) g
               in Inr (index, token, g))"
| "verify d gen index _ _ _ g = Inl IndexError"

section \<open>The loop\<close>

record 'g spec_state =
  sp_context :: "nat list"
  sp_target_cache :: "nat list"
  sp_draft_cache :: "nat list"
  sp_target_ingested :: nat
  sp_draft_ingested :: nat
  sp_stats :: speculative_stats
  sp_rng :: 'g

definition spec_block ::
  "'g decoder \<Rightarrow> generation_config \<Rightarrow> nat \<Rightarrow> 'g spec_state \<Rightarrow> 'g spec_state result" where
  "spec_block d gen remaining st =
     (let context = sp_context st; base = length context; width = min (sd_lookahead d) remaining in
      rbind (propose d gen width (drop (sp_draft_ingested st) context) (sp_draft_cache st) (sp_rng st))
        (\<lambda>(proposals, dists, draft_cache, g).
        let draft_covered = base + width - 1;
            block = drop (sp_target_ingested st) context @ proposals;
            (logits, target_cache) = forward (sd_target d) (sp_target_cache st) block;
            verdict = drop (length logits - (width + 1)) logits in
        rbind (verify d gen 0 proposals verdict dists g) (\<lambda>(taken, replacement, g).
          let settled = take remaining (take taken proposals @ [replacement]);
              position = base + taken;
              ingested = min draft_covered position;
              s = sp_stats st in
          Inr \<lparr>sp_context = context @ settled,
               sp_target_cache = crop target_cache (base + width) position,
               sp_draft_cache = crop draft_cache draft_covered ingested,
               sp_target_ingested = position, sp_draft_ingested = ingested,
               sp_stats = s\<lparr>sv_target_calls := Suc (sv_target_calls s),
                            sv_draft_calls := sv_draft_calls s + width,
                            sv_proposed := sv_proposed s + width,
                            sv_accepted := sv_accepted s + taken,
                            sv_generated := sv_generated s + length settled\<rparr>,
               sp_rng = g\<rparr>)))"

text \<open>Every block settles at least one token, so the loop ends.\<close>

lemma spec_block_progress:
  assumes "spec_block d gen remaining st = Inr st'" "0 < remaining"
  shows "length (sp_context st) < length (sp_context st')"
proof -
  obtain settled x where "sp_context st' = sp_context st @ take remaining (settled @ [x])"
    using assms(1) by (auto simp: spec_block_def Let_def rbind_eq_Inr case_prod_unfold simp del: take_append)
  then show ?thesis
    using assms(2) by simp
qed

text \<open>The token budget counts from the end of the prompt.\<close>

function spec_loop ::
  "'g decoder \<Rightarrow> generation_config \<Rightarrow> nat \<Rightarrow> nat \<Rightarrow> 'g spec_state \<Rightarrow> 'g spec_state result" where
  "spec_loop d gen prompt_length budget st =
     (if length (sp_context st) - prompt_length < budget
      then rbind (spec_block d gen (budget - (length (sp_context st) - prompt_length)) st)
             (spec_loop d gen prompt_length budget)
      else Inr st)"
  by pat_completeness auto
termination
proof (relation "measure (\<lambda>(d, gen, prompt_length, budget, st). prompt_length + budget - length (sp_context st))")
  fix d gen prompt_length budget st st'
  assume "length (sp_context st) - prompt_length < budget"
    "spec_block d gen (budget - (length (sp_context st) - prompt_length)) st = Inr st'"
  then show "((d, gen, prompt_length, budget, st'), (d, gen, prompt_length, budget, st))
      \<in> measure (\<lambda>(d, gen, prompt_length, budget, st). prompt_length + budget - length (sp_context st))"
    using spec_block_progress by fastforce
qed simp

declare spec_loop.simps [simp del]

definition spec_start :: "nat list \<Rightarrow> 'g \<Rightarrow> 'g spec_state" where
  "spec_start prompt g =
     \<lparr>sp_context = prompt, sp_target_cache = [], sp_draft_cache = [], sp_target_ingested = 0,
      sp_draft_ingested = 0, sp_stats = SpeculativeStats, sp_rng = g\<rparr>"

text \<open>The input is a tensor: its rows, of which there must be exactly one.\<close>

definition spec_generate ::
  "'g decoder \<Rightarrow> nat list list \<Rightarrow> generation_config \<Rightarrow> 'g \<Rightarrow> (nat list \<times> speculative_stats) result" where
  "spec_generate d input gen g =
     (case input of
        [prompt] \<Rightarrow>
          rbind (spec_loop d gen (length prompt) (nat (gc_max_new_tokens gen)) (spec_start prompt g))
            (\<lambda>st. Inr (drop (length prompt) (sp_context st), sp_stats st))
      | _ \<Rightarrow> Inl ValueError)"

end
