(* ===== verification/Speculative_Properties.thy ===== *)
theory Speculative_Properties
  imports Speculative
begin

text \<open>
  Speculation changes speed, not output: greedy decoding with any draft is the target's own
  greedy decoding, and the sampling rule emits the target's distribution.
\<close>

section \<open>The reference: decoding with the target alone\<close>

fun greedy_decode :: "(nat list \<Rightarrow> real list) \<Rightarrow> nat list \<Rightarrow> nat \<Rightarrow> nat list" where
  "greedy_decode lm ctx 0 = []"
| "greedy_decode lm ctx (Suc n) =
     (let t = argmax (lm ctx) in t # greedy_decode lm (ctx @ [t]) n)"

lemma length_greedy_decode [simp]: "length (greedy_decode lm ctx n) = n"
  by (induction n arbitrary: ctx) (simp_all add: Let_def)

lemma greedy_decode_add:
  "greedy_decode lm ctx (a + b) =
     greedy_decode lm ctx a @ greedy_decode lm (ctx @ greedy_decode lm ctx a) b"
  by (induction a arbitrary: ctx) (simp_all add: Let_def)

lemma greedy_decode_take:
  assumes "a \<le> b"
  shows "take a (greedy_decode lm ctx b) = greedy_decode lm ctx a"
proof -
  obtain c where "b = a + c"
    using assms le_Suc_ex by blast
  then show ?thesis
    by (simp add: greedy_decode_add)
qed

section \<open>One block\<close>

lemma forward_logits:
  "fst (forward lm cache block) = map (\<lambda>i. lm (cache @ take (Suc i) block)) [0..<length block]"
  "snd (forward lm cache block) = cache @ block"
  by (simp_all add: forward_def)

lemma propose_ok:
  assumes "input \<noteq> []"
  shows "\<exists>ps ds g'. propose d gen w input cache g
      = Inr (ps, ds, if w = 0 then cache else cache @ input @ take (w - 1) ps, g')
    \<and> length ps = w \<and> length ds = w"
  using assms
proof (induction w arbitrary: input cache g)
  case (Suc w)
  obtain token probs g1 where t: "draft_token d gen (last (fst (forward (sd_draft d) cache input))) g = (token, probs, g1)"
    by (cases "draft_token d gen (last (fst (forward (sd_draft d) cache input))) g")
  obtain ps ds g' where IH: "propose d gen w [token] (cache @ input) g1
      = Inr (ps, ds, if w = 0 then cache @ input else (cache @ input) @ [token] @ take (w - 1) ps, g')"
      "length ps = w" "length ds = w"
    using Suc.IH [of "[token]" "cache @ input" g1] by blast
  have "fst (forward (sd_draft d) cache input) \<noteq> []"
    using Suc.prems by (simp add: forward_def)
  with t IH(1) have "propose d gen (Suc w) input cache g = Inr (token # ps, probs # ds,
      if w = 0 then cache @ input else (cache @ input) @ [token] @ take (w - 1) ps, g')"
    by (simp add: case_prod_unfold Let_def forward_logits(2))
  then show ?case
    using IH(2,3) by (cases w) auto
qed simp

text \<open>The rows a target call yields for the proposals, and the verdict on them.\<close>

definition verdict_rows :: "(nat list \<Rightarrow> real list) \<Rightarrow> nat list \<Rightarrow> nat list \<Rightarrow> real list list" where
  "verdict_rows lm ctx ps = map (\<lambda>i. lm (ctx @ take i ps)) [0..<Suc (length ps)]"

lemma verdict_rows_Cons:
  "verdict_rows lm ctx (p # ps) = lm ctx # verdict_rows lm (ctx @ [p]) ps"
  unfolding verdict_rows_def by (simp add: upt_conv_Cons map_Suc_upt [symmetric] del: upt_Suc)

lemma target_rows:
  assumes "ti < length ctx" and logits_def: "logits = fst (forward lm (take ti ctx) (drop ti ctx @ ps))"
  shows "drop (length logits - (length ps + 1)) logits = verdict_rows lm ctx ps"
proof (rule nth_equalityI)
  have len: "length logits = length ctx - ti + length ps"
    by (simp add: logits_def forward_def)
  then show "length (drop (length logits - (length ps + 1)) logits) = length (verdict_rows lm ctx ps)"
    using assms(1) by (simp add: verdict_rows_def)
  fix i assume "i < length (drop (length logits - (length ps + 1)) logits)"
  with len assms(1) have i: "i \<le> length ps"
    by simp
  have "drop (length logits - (length ps + 1)) logits ! i = logits ! (length ctx - ti - 1 + i)"
    using len assms(1) i by (simp add: add.commute)
  also have "\<dots> = lm (take ti ctx @ take (Suc (length ctx - ti - 1 + i)) (drop ti ctx @ ps))"
  proof -
    have "length ctx - ti - 1 + i < length ctx - ti + length ps"
      using assms(1) i by simp
    then show ?thesis
      by (simp only: logits_def forward_def fst_conv length_append length_drop nth_map nth_upt
          length_upt diff_zero plus_nat.add_0)
  qed
  also have "take (Suc (length ctx - ti - 1 + i)) (drop ti ctx @ ps) = drop ti ctx @ take i ps"
    using assms(1) by simp
  also have "take ti ctx @ drop ti ctx @ take i ps = ctx @ take i ps"
    by (simp flip: append_assoc)
  finally show "drop (length logits - (length ps + 1)) logits ! i = verdict_rows lm ctx ps ! i"
    using i by (simp add: verdict_rows_def del: upt_Suc)
qed

lemma verify_greedy:
  assumes "greedy_mode gen" "length dists = length ps"
  shows "\<exists>taken. verify d gen index ps (verdict_rows lm ctx ps) dists g
      = Inr (index + taken, argmax (lm (ctx @ take taken ps)), g)
    \<and> taken \<le> length ps \<and> take taken ps = greedy_decode lm ctx taken"
  using assms(2)
proof (induction ps arbitrary: index ctx dists)
  case Nil
  show ?case
    using assms(1) by (intro exI [of _ 0]) (simp add: verdict_rows_def)
next
  case (Cons p ps)
  obtain q dists' where d: "dists = q # dists'" "length dists' = length ps"
    using Cons.prems by (cases dists) auto
  show ?case
  proof (cases "argmax (lm ctx) = p")
    case True
    obtain taken where "verify d gen (Suc index) ps (verdict_rows lm (ctx @ [p]) ps) dists' g
        = Inr (Suc index + taken, argmax (lm ((ctx @ [p]) @ take taken ps)), g)"
      "taken \<le> length ps" "take taken ps = greedy_decode lm (ctx @ [p]) taken"
      using Cons.IH [OF d(2), of "Suc index" "ctx @ [p]"] by blast
    then show ?thesis
      using True assms(1) d by (intro exI [of _ "Suc taken"]) (simp add: verdict_rows_Cons Let_def)
  next
    case False
    then show ?thesis
      using assms(1) d by (intro exI [of _ 0]) (simp add: verdict_rows_Cons)
  qed
qed

lemma crop_prefix:
  "m \<le> n \<Longrightarrow> length cache = n \<Longrightarrow> crop cache n m = take m cache"
  by (simp add: crop_def)

section \<open>The loop\<close>

definition spec_inv :: "'g decoder \<Rightarrow> nat list \<Rightarrow> nat \<Rightarrow> 'g spec_state \<Rightarrow> bool" where
  "spec_inv d prompt budget st \<longleftrightarrow>
     (let made = length (sp_context st) - length prompt; s = sp_stats st in
      sp_context st = prompt @ greedy_decode (sd_target d) prompt made
      \<and> made \<le> budget
      \<and> (made < budget \<longrightarrow>
           sp_target_cache st = take (sp_target_ingested st) (sp_context st)
           \<and> sp_target_ingested st < length (sp_context st)
           \<and> sp_draft_cache st = take (sp_draft_ingested st) (sp_context st)
           \<and> sp_draft_ingested st < length (sp_context st))
      \<and> sv_generated s = made \<and> sv_accepted s \<le> sv_proposed s \<and> sv_target_calls s \<le> made
      \<and> made \<le> sv_target_calls s * (sd_lookahead d + 1) \<and> made \<le> sv_accepted s + sv_target_calls s)"

lemma spec_block_ok:
  assumes inv: "spec_inv d prompt budget st" and greedy: "greedy_mode gen" and k: "0 < sd_lookahead d"
    and made: "length (sp_context st) - length prompt < budget"
  shows "\<exists>st'. spec_block d gen (budget - (length (sp_context st) - length prompt)) st = Inr st'
    \<and> spec_inv d prompt budget st'"
proof -
  let ?ctx = "sp_context st" and ?lm = "sd_target d"
  define m where "m = length ?ctx - length prompt"
  define rem where "rem = budget - m"
  define w where "w = min (sd_lookahead d) rem"
  have ctx: "?ctx = prompt @ greedy_decode ?lm prompt m"
    and tc: "sp_target_cache st = take (sp_target_ingested st) ?ctx" "sp_target_ingested st < length ?ctx"
    and dc: "sp_draft_cache st = take (sp_draft_ingested st) ?ctx" "sp_draft_ingested st < length ?ctx"
    and stats: "sv_generated (sp_stats st) = m" "sv_accepted (sp_stats st) \<le> sv_proposed (sp_stats st)"
      "sv_target_calls (sp_stats st) \<le> m" "m \<le> sv_target_calls (sp_stats st) * (sd_lookahead d + 1)"
      "m \<le> sv_accepted (sp_stats st) + sv_target_calls (sp_stats st)"
    using inv made by (simp_all add: spec_inv_def Let_def m_def)
  have rem: "0 < rem" "m + rem = budget" "0 < w" "w \<le> rem" "w \<le> sd_lookahead d"
    using made k by (simp_all add: rem_def w_def m_def)
  have len: "length ?ctx = length prompt + m"
    using ctx by (metis length_append length_greedy_decode)
  have "drop (sp_draft_ingested st) ?ctx \<noteq> []"
    using dc(2) by simp
  from propose_ok [OF this, of d gen w "sp_draft_cache st" "sp_rng st"] rem(3) obtain ps ds g' where
    pr: "propose d gen w (drop (sp_draft_ingested st) ?ctx) (sp_draft_cache st) (sp_rng st)
        = Inr (ps, ds, ?ctx @ take (w - 1) ps, g')" "length ps = w" "length ds = w"
    unfolding dc(1) by (auto simp flip: append_assoc)
  obtain taken where ver: "verify d gen 0 ps (verdict_rows ?lm ?ctx ps) ds g'
      = Inr (taken, argmax (?lm (?ctx @ take taken ps)), g')" "taken \<le> w"
      "take taken ps = greedy_decode ?lm ?ctx taken"
    using verify_greedy [OF greedy, of ds ps d 0 ?lm ?ctx g'] pr(2,3) by auto
  define settled where "settled = take rem (take taken ps @ [argmax (?lm (?ctx @ take taken ps))])"
  define made' where "made' = min rem (Suc taken)"
  have "greedy_decode ?lm ?ctx (Suc taken) = take taken ps @ [argmax (?lm (?ctx @ take taken ps))]"
    using greedy_decode_add [of ?lm ?ctx taken 1] ver(3) by (simp add: Let_def)
  then have settled: "settled = greedy_decode ?lm ?ctx made'"
    unfolding settled_def made'_def by (metis greedy_decode_take min.cobounded2 length_greedy_decode take_take
        min.commute order_refl take_all)
  have rows: "drop (length ?ctx - sp_target_ingested st + w - (w + 1))
      (fst (forward ?lm (take (sp_target_ingested st) ?ctx) (drop (sp_target_ingested st) ?ctx @ ps)))
      = verdict_rows ?lm ?ctx ps"
    using target_rows [OF tc(2) refl, of ?lm ps] pr(2) by (simp add: forward_def)
  define st' where "st' =
    \<lparr>sp_context = ?ctx @ settled,
     sp_target_cache = take (length ?ctx + taken) (?ctx @ ps),
     sp_draft_cache = take (min (length ?ctx + w - 1) (length ?ctx + taken)) (?ctx @ take (w - 1) ps),
     sp_target_ingested = length ?ctx + taken,
     sp_draft_ingested = min (length ?ctx + w - 1) (length ?ctx + taken),
     sp_stats = (sp_stats st)\<lparr>sv_target_calls := Suc (sv_target_calls (sp_stats st)),
                            sv_draft_calls := sv_draft_calls (sp_stats st) + w,
                            sv_proposed := sv_proposed (sp_stats st) + w,
                            sv_accepted := sv_accepted (sp_stats st) + taken,
                            sv_generated := sv_generated (sp_stats st) + length settled\<rparr>,
     sp_rng = g'\<rparr>"
  have "spec_block d gen rem st = Inr st'"
    unfolding spec_block_def Let_def w_def [symmetric] pr(1) tc(1) st'_def settled_def
    using rows ver(1,2) pr(2) rem(3)
    by (simp add: forward_def crop_prefix flip: append_assoc)
  moreover have "spec_inv d prompt budget st'"
  proof -
    have made': "length settled = made'" "made' \<le> rem" "made' \<le> Suc taken" "0 < made'"
      using settled rem(1) by (simp_all add: made'_def)
    have len': "length (sp_context st') - length prompt = m + made'"
      using len made'(1) by (simp add: st'_def)
    have "sp_context st' = prompt @ greedy_decode ?lm prompt (m + made')"
      unfolding st'_def greedy_decode_add using settled by (simp flip: ctx)
    moreover have "sp_target_cache st' = take (sp_target_ingested st') (sp_context st')
           \<and> sp_target_ingested st' < length (sp_context st')
           \<and> sp_draft_cache st' = take (sp_draft_ingested st') (sp_context st')
           \<and> sp_draft_ingested st' < length (sp_context st')" if "m + made' < budget"
    proof -
      have "made' < rem"
        using that rem(2) by simp
      then have "made' = Suc taken" "settled = take taken ps @ [argmax (?lm (?ctx @ take taken ps))]"
        using ver(2) pr(2) by (simp_all add: made'_def settled_def)
      moreover obtain k where k: "min (length ?ctx + w - 1) (length ?ctx + taken) = length ?ctx + k"
          "k \<le> w - 1" "k \<le> taken"
        using rem(3) by (intro that [of "min (w - 1) taken"]) simp_all
      ultimately show ?thesis
        using ver(2) pr(2) rem(3) by (simp add: st'_def k)
    qed
    moreover have "m + made' \<le> budget"
      using made'(2) rem(2) by simp
    moreover have "m + made' \<le> Suc (sv_target_calls (sp_stats st)) * (sd_lookahead d + 1)"
      using stats(4) made'(3) ver(2) rem(5) by simp
    moreover have "sv_generated (sp_stats st') = m + made'"
        "sv_accepted (sp_stats st') \<le> sv_proposed (sp_stats st')"
        "sv_target_calls (sp_stats st') = Suc (sv_target_calls (sp_stats st))"
        "sv_target_calls (sp_stats st') \<le> m + made'"
        "m + made' \<le> sv_accepted (sp_stats st') + sv_target_calls (sp_stats st')"
      using stats made' ver(2) by (simp_all add: st'_def)
    ultimately show ?thesis
      unfolding spec_inv_def len' Let_def by (simp only: simp_thms) (intro conjI impI; simp only: simp_thms)
  qed
  ultimately show ?thesis
    unfolding rem_def m_def by blast
qed

lemma spec_loop_ok:
  assumes "spec_inv d prompt budget st" "greedy_mode gen" "0 < sd_lookahead d"
  shows "\<exists>st'. spec_loop d gen (length prompt) budget st = Inr st' \<and> spec_inv d prompt budget st'
    \<and> length (sp_context st') = length prompt + budget"
  using assms
proof (induction d gen "length prompt" budget st rule: spec_loop.induct)
  case (1 d gen budget st)
  show ?case
  proof (cases "length (sp_context st) - length prompt < budget")
    case True
    obtain st1 where st1: "spec_block d gen (budget - (length (sp_context st) - length prompt)) st = Inr st1"
        "spec_inv d prompt budget st1"
      using spec_block_ok [OF "1.prems" True] by blast
    from "1.hyps" [OF True st1(1) st1(2) "1.prems"(2,3)] st1(1) True show ?thesis
      by (subst spec_loop.simps) simp
  next
    case False
    have "length (sp_context st) = length prompt + (length (sp_context st) - length prompt)"
      using "1.prems"(1) unfolding spec_inv_def Let_def by (metis length_append length_greedy_decode)
    with False "1.prems"(1) show ?thesis
      by (subst spec_loop.simps) (auto simp: spec_inv_def Let_def)
  qed
qed

lemma spec_start_inv: "prompt \<noteq> [] \<Longrightarrow> spec_inv d prompt budget (spec_start prompt g)"
  by (simp add: spec_inv_def spec_start_def SpeculativeStats_def)

lemma spec_generate_greedy:
  assumes "prompt \<noteq> []" "greedy_mode gen" "0 < sd_lookahead d"
  obtains s where "spec_generate d [prompt] gen g
      = Inr (greedy_decode (sd_target d) prompt (nat (gc_max_new_tokens gen)), s)"
    "sv_generated s = nat (gc_max_new_tokens gen)" "sv_accepted s \<le> sv_proposed s"
    "sv_target_calls s \<le> sv_generated s" "sv_generated s \<le> sv_target_calls s * (sd_lookahead d + 1)"
    "sv_generated s \<le> sv_accepted s + sv_target_calls s"
proof -
  let ?n = "nat (gc_max_new_tokens gen)"
  obtain st where st: "spec_loop d gen (length prompt) ?n (spec_start prompt g) = Inr st"
      "spec_inv d prompt ?n st" "length (sp_context st) = length prompt + ?n"
    using spec_loop_ok [OF spec_start_inv [OF assms(1)] assms(2,3)] by blast
  from st(2,3) have "drop (length prompt) (sp_context st) = greedy_decode (sd_target d) prompt ?n"
    by (metis spec_inv_def add_diff_cancel_left' append_eq_conv_conj)
  with st show thesis
    by (intro that [of "sp_stats st"]) (simp_all add: spec_generate_def spec_inv_def Let_def)
qed

section \<open>The sampling rule\<close>

definition is_distribution :: "real list \<Rightarrow> bool" where
  "is_distribution p \<longleftrightarrow> list_all (\<lambda>x. 0 \<le> x) p \<and> sum_list p = 1"

lemma sum_list_nth: "sum_list xs = (\<Sum>i<length xs. xs ! i)" for xs :: "real list"
  by (simp add: sum_list_sum_nth atLeast0LessThan)

lemma residual_nth: "length p = length q \<Longrightarrow> x < length p \<Longrightarrow> residual p q ! x = max 0 (p ! x - q ! x)"
  by (simp add: residual_def)

text \<open>The weight the draft over-proposes is the weight the residual hands out.\<close>

lemma rejected_mass:
  assumes "length p = length q" "is_distribution p" "is_distribution q"
  shows "(\<Sum>y<length p. q ! y * (1 - acceptance_ratio p q y)) = sum_list (residual p q)"
proof -
  have "q ! y * (1 - acceptance_ratio p q y) = residual p q ! y + (q ! y - p ! y)" if "y < length p" for y
  proof -
    have "0 \<le> p ! y" "0 \<le> q ! y"
      using assms that by (auto simp: is_distribution_def list_all_length)
    then show ?thesis
      using residual_nth [OF assms(1) that]
      by (cases "q ! y = 0") (auto simp: acceptance_ratio_def min_def max_def field_simps)
  qed
  then have "(\<Sum>y<length p. q ! y * (1 - acceptance_ratio p q y))
      = (\<Sum>y<length p. residual p q ! y) + ((\<Sum>y<length p. q ! y) - (\<Sum>y<length p. p ! y))"
    by (simp add: sum.distrib sum_subtractf)
  moreover have "(\<Sum>y<length p. q ! y) = 1" "(\<Sum>y<length p. p ! y) = 1"
    using assms by (simp_all add: is_distribution_def sum_list_nth)
  moreover have "(\<Sum>y<length p. residual p q ! y) = sum_list (residual p q)"
    using assms(1) by (simp add: sum_list_nth residual_def)
  ultimately show ?thesis
    by simp
qed

lemma residual_nonneg: "x \<in> set (residual p q) \<Longrightarrow> 0 \<le> x"
  by (auto simp: residual_def)

lemma acceptance_identity:
  assumes "length p = length q" "is_distribution p" "is_distribution q" "x < length p"
  shows "q ! x * acceptance_ratio p q x + residual p q ! x = p ! x"
proof -
  have "0 \<le> p ! x" "0 \<le> q ! x"
    using assms by (auto simp: is_distribution_def list_all_length)
  then show ?thesis
    using residual_nth [OF assms(1,4)]
    by (cases "q ! x = 0") (auto simp: acceptance_ratio_def min_def max_def field_simps)
qed

lemma rejection_leaves_residual:
  assumes "length p = length q" "is_distribution p" "is_distribution q" "x < length p"
    "0 < q ! x" "acceptance_ratio p q x < 1"
  shows "0 < sum_list (residual p q)"
proof -
  have nn: "0 \<le> q ! y * (1 - acceptance_ratio p q y)" if "y < length p" for y
    using assms(1,3) that by (auto simp: is_distribution_def list_all_length acceptance_ratio_def)
  have "0 < q ! x * (1 - acceptance_ratio p q x)"
    using assms(5,6) by simp
  also have "\<dots> \<le> (\<Sum>y<length p. q ! y * (1 - acceptance_ratio p q y))"
    using assms(4) nn by (intro member_le_sum) auto
  finally show ?thesis
    using rejected_mass [OF assms(1-3)] by simp
qed

section \<open>Properties\<close>

text \<open>
  C18: Greedy speculation changes nothing but the speed. For every target, every draft and
  every lookahead, a non-empty prompt decodes to exactly the tokens the target alone
  produces greedily, as many as were asked for; no cache ever gets out of step.
\<close>

theorem speculation_is_exact:
  assumes "SpeculativeDecoder target draft lookahead order rng = Inr d" "prompt \<noteq> []" "greedy_mode gen"
  shows "\<exists>s. spec_generate d [prompt] gen g
    = Inr (greedy_decode target prompt (nat (gc_max_new_tokens gen)), s)"
proof -
  have "sd_target d = target" "0 < sd_lookahead d"
    using assms(1) by (auto simp: SpeculativeDecoder_def split: if_splits)
  with spec_generate_greedy [OF assms(2,3), of d g] show ?thesis
    by metis
qed

definition ex_decoder :: "unit decoder" where
  "ex_decoder = \<lparr>sd_target = (\<lambda>ts. [real (length ts mod 2), 1 / 2]), sd_draft = (\<lambda>_. [1, 0]),
     sd_lookahead = 2, sd_order = (\<lambda>_. []),
     sd_rng = \<lparr>rg_rand = (\<lambda>_. (0, ())), rg_multinomial = (\<lambda>_ _. (0, ()))\<rparr>\<rparr>"

definition ex_greedy :: generation_config where
  "ex_greedy = gc_defaults\<lparr>gc_max_new_tokens := 3, gc_temperature := 0\<rparr>"

lemma ex_decoder_built:
  "SpeculativeDecoder (sd_target ex_decoder) (sd_draft ex_decoder) 2 (sd_order ex_decoder)
     (sd_rng ex_decoder) = Inr ex_decoder"
  by (simp add: SpeculativeDecoder_def ex_decoder_def)

lemma ex_greedy_mode: "greedy_mode ex_greedy"
  by (simp add: greedy_mode_def ex_greedy_def)

theorem speculation_is_exact_witness:
  "\<exists>s. spec_generate ex_decoder [[0]] ex_greedy ()
     = Inr (greedy_decode (sd_target ex_decoder) [0] (nat (gc_max_new_tokens ex_greedy)), s)"
  by (rule speculation_is_exact [OF ex_decoder_built _ ex_greedy_mode]) simp





lemma geometric_emission:
  fixes a :: real
  shows "(\<Sum>t<k. (real t + 1) * (a ^ t * (1 - a))) + (real k + 1) * a ^ k = (\<Sum>i\<le>k. a ^ i)"
proof (induction k)
  case (Suc k)
  have "(real k + 1) * (a ^ k * (1 - a)) + (real (Suc k) + 1) * a ^ Suc k = (real k + 1) * a ^ k + a ^ Suc k"
    by (simp add: algebra_simps)
  with Suc show ?case
    by simp
qed simp

text \<open>
  The predicted gain is the expected gain. For an acceptance probability \<open>a\<close> and a
  lookahead \<open>k\<close> the closed form equals the mean number of tokens of a block whose accepted
  count is geometric, cut at \<open>k\<close>, each block emitting one more token; it lies between 1 and
  \<open>k + 1\<close>. Anything else is refused.
\<close>

theorem expected_gain_is_the_mean:
  "(case expected_tokens_per_call a k of
      Inr v \<Rightarrow> 0 \<le> a \<and> a \<le> 1 \<and> 1 \<le> k \<and> 1 \<le> v \<and> v \<le> of_int k + 1
        \<and> v = (\<Sum>t<nat k. (real t + 1) * (a ^ t * (1 - a))) + (real (nat k) + 1) * a ^ nat k
    | Inl err \<Rightarrow> err = ValueError \<and> \<not> (0 \<le> a \<and> a \<le> 1 \<and> 1 \<le> k))"
proof (cases "0 \<le> a \<and> a \<le> 1 \<and> 1 \<le> k")
  case True
  define n where "n = nat k"
  have k: "k = int n" "0 < n"
    using True by (simp_all add: n_def)
  have "nat (int n + 1) = Suc n"
    by simp
  then have "expected_tokens_per_call a k = Inr (\<Sum>i\<le>n. a ^ i)"
    using True k sum_gp0 [of a n] by (auto simp: expected_tokens_per_call_def)
  moreover have "(\<Sum>i\<le>n. a ^ i) \<le> (\<Sum>i\<le>n. 1)"
    using True by (intro sum_mono) (simp add: power_le_one)
  moreover have "a ^ 0 \<le> (\<Sum>i\<le>n. a ^ i)"
    using True by (intro member_le_sum) auto
  ultimately show ?thesis
    using True k geometric_emission [where k = n and a = a] by simp
next
  case False
  then show ?thesis
    by (auto simp: expected_tokens_per_call_def)
qed

end
