(* ===== verification/Ops.thy ===== *)
theory Ops
  imports Prelude
begin

text \<open>
  \<open>python/cudaforge/ops.py\<close>: the custom operators, their reference implementations and the
  dispatch between the two. A tensor is its shape and its elements in row-major order, with
  the three facts dispatch looks at; memory layout (\<open>contiguous\<close>) has no meaning here.
  Elements are reals, so the roundings of a storage type are not modelled, and neither is
  the promotion of half types to float32 that reduces them. The compiled extension is not
  part of \<open>src/python\<close>: what it registers is the record \<open>extension\<close>.
\<close>

section \<open>Tensors\<close>

datatype dtype = Float32 | Float16 | BFloat16 | Float64 | Int8

record tensor =
  tn_shape :: "nat list"
  tn_data :: "real list"
  tn_dtype :: dtype
  tn_requires_grad :: bool
  tn_is_cuda :: bool

definition tensor_ok :: "tensor \<Rightarrow> bool" where
  "tensor_ok t \<longleftrightarrow> length (tn_data t) = prod_list (tn_shape t)"

definition numel :: "tensor \<Rightarrow> nat" where
  "numel t = length (tn_data t)"

definition ndim :: "tensor \<Rightarrow> nat" where
  "ndim t = length (tn_shape t)"

text \<open>\<open>t.shape[-1]\<close>, which a 0-dimensional tensor does not have.\<close>

definition last_dim :: "tensor \<Rightarrow> nat result" where
  "last_dim t = (if tn_shape t = [] then Inl IndexError else Inr (last (tn_shape t)))"

definition dim_at :: "tensor \<Rightarrow> nat \<Rightarrow> nat result" where
  "dim_at t i = (if i < ndim t then Inr (tn_shape t ! i) else Inl IndexError)"

text \<open>Consecutive pieces of a list, as \<open>view(-1, n)\<close> makes them.\<close>

function chunks :: "nat \<Rightarrow> 'a list \<Rightarrow> 'a list list" where
  "chunks n xs = (if n = 0 \<or> xs = [] then [] else take n xs # chunks n (drop n xs))"
  by pat_completeness auto
termination
  by (relation "measure (\<lambda>(n, xs). length xs)") auto

declare chunks.simps [simp del]

section \<open>Backend and dispatch\<close>

record extension =
  ex_registered :: "string \<Rightarrow> bool"
  ex_rmsnorm :: "tensor \<Rightarrow> tensor \<Rightarrow> real \<Rightarrow> tensor"
  ex_softmax :: "tensor \<Rightarrow> tensor"
  ex_lora_linear :: "tensor \<Rightarrow> tensor \<Rightarrow> tensor \<Rightarrow> tensor \<Rightarrow> real \<Rightarrow> tensor"
  ex_fused :: "tensor \<Rightarrow> tensor \<Rightarrow> tensor \<Rightarrow> real \<Rightarrow> tensor \<times> tensor"
  ex_silu :: "tensor \<Rightarrow> tensor"
  ex_gelu :: "tensor \<Rightarrow> tensor"
  ex_swiglu :: "tensor \<Rightarrow> tensor \<Rightarrow> tensor"
  ex_sum :: "tensor \<Rightarrow> tensor"
  ex_quantize :: "tensor \<Rightarrow> tensor \<times> tensor"
  ex_dequantize :: "tensor \<Rightarrow> tensor \<Rightarrow> tensor"

text \<open>
  How importing the extension went: \<open>FailsToLoad\<close> carries the message of the error,
  \<open>Loads\<close> the answer of \<open>cuda_kernels_available()\<close>, \<open>None\<close> without it.
\<close>

datatype import_outcome = NotBuilt | FailsToLoad string | Loads "bool option"

definition load_extension :: "import_outcome \<Rightarrow> bool \<times> bool \<times> string" where
  "load_extension found =
     (case found of
        NotBuilt \<Rightarrow> (False, False, ''extension not built; using reference implementations'')
      | FailsToLoad err \<Rightarrow> (False, False, ''extension present but failed to load: '' @ err)
      | Loads cuda \<Rightarrow>
          if cuda = Some True then (True, True, ''extension loaded with CUDA kernels'')
          else (True, False, ''extension loaded, compiled without CUDA''))"

record backend =
  be_import :: import_outcome
  be_cuda_available :: bool
  be_device_name :: string
  be_grad_enabled :: bool
  be_extension :: extension

definition extension_loaded :: "backend \<Rightarrow> bool" where
  "extension_loaded be = fst (load_extension (be_import be))"

definition cuda_compiled :: "backend \<Rightarrow> bool" where
  "cuda_compiled be = fst (snd (load_extension (be_import be)))"

definition load_message :: "backend \<Rightarrow> string" where
  "load_message be = snd (snd (load_extension (be_import be)))"

definition CUDA_KERNELS_AVAILABLE :: "backend \<Rightarrow> bool" where
  "CUDA_KERNELS_AVAILABLE be \<longleftrightarrow> cuda_compiled be \<and> be_cuda_available be"

definition kernel_supports :: "dtype \<Rightarrow> bool" where
  "kernel_supports d \<longleftrightarrow> d \<in> {Float32, Float16, BFloat16}"

record backend_report =
  br_extension_loaded :: bool
  br_cuda_compiled :: bool
  br_cuda_device_available :: bool
  br_device_name :: "string option"
  br_message :: string

definition backend_report :: "backend \<Rightarrow> backend_report" where
  "backend_report be =
     \<lparr>br_extension_loaded = extension_loaded be, br_cuda_compiled = cuda_compiled be,
      br_cuda_device_available = be_cuda_available be,
      br_device_name = (if be_cuda_available be then Some (be_device_name be) else None),
      br_message = load_message be\<rparr>"

definition using_custom_kernels :: "backend_report \<Rightarrow> bool" where
  "using_custom_kernels r \<longleftrightarrow>
     br_extension_loaded r \<and> br_cuda_compiled r \<and> br_cuda_device_available r"

definition report_str :: "backend_report \<Rightarrow> string" where
  "report_str r =
     (let path = if using_custom_kernels r then ''custom CUDA kernels'' else ''PyTorch reference'';
          device = (case br_device_name r of None \<Rightarrow> ''cpu'' | Some d \<Rightarrow> if d = [] then ''cpu'' else d)
      in ''cudaforge: '' @ path @ '' on '' @ device @ '' ('' @ br_message r @ '')'')"

definition needs_autograd :: "backend \<Rightarrow> tensor list \<Rightarrow> bool" where
  "needs_autograd be ts \<longleftrightarrow> be_grad_enabled be \<and> list_ex tn_requires_grad ts"

definition dispatch_available :: "backend \<Rightarrow> string \<Rightarrow> tensor list \<Rightarrow> bool" where
  "dispatch_available be name ts =
     (if \<not> extension_loaded be then False
      else if \<not> ex_registered (be_extension be) name then False
      else if needs_autograd be ts then False
      else case ts of t # _ \<Rightarrow> if tn_is_cuda t then cuda_compiled be else True | [] \<Rightarrow> True)"

section \<open>Reference implementations\<close>

definition rms_row :: "real list \<Rightarrow> real \<Rightarrow> real list \<Rightarrow> real list" where
  "rms_row weight eps row =
     (let variance = sum_list (map (\<lambda>v. v ^ 2) row) / real (length row);
          factor = 1 / sqrt (variance + eps)
      in map2 (\<lambda>v w. v * factor * w) row weight)"

text \<open>An operation on the last dimension: every row of it, one after the other.\<close>

definition on_rows :: "(real list \<Rightarrow> real list) \<Rightarrow> tensor \<Rightarrow> tensor" where
  "on_rows f t = t\<lparr>tn_data := concat (map f (chunks (last (tn_shape t)) (tn_data t)))\<rparr>"

definition on_elements :: "(real \<Rightarrow> real) \<Rightarrow> tensor \<Rightarrow> tensor" where
  "on_elements f t = t\<lparr>tn_data := map f (tn_data t)\<rparr>"

definition on_pairs :: "(real \<Rightarrow> real \<Rightarrow> real) \<Rightarrow> tensor \<Rightarrow> tensor \<Rightarrow> tensor" where
  "on_pairs f s t = s\<lparr>tn_data := map2 f (tn_data s) (tn_data t)\<rparr>"

definition rmsnorm_reference :: "tensor \<Rightarrow> tensor \<Rightarrow> real \<Rightarrow> tensor" where
  "rmsnorm_reference x weight eps = on_rows (rms_row (tn_data weight) eps) x"

definition softmax_row :: "real list \<Rightarrow> real list" where
  "softmax_row row = (let e = map exp row in map (\<lambda>v. v / sum_list e) e)"

definition softmax_reference :: "tensor \<Rightarrow> tensor" where
  "softmax_reference x =
     (if tn_shape x = [] then on_elements (\<lambda>_. 1) x else on_rows softmax_row x)"

text \<open>\<open>x @ m\<close> for a vector and a row-major matrix of so many columns.\<close>

definition vec_mat :: "real list \<Rightarrow> nat \<Rightarrow> real list \<Rightarrow> real list" where
  "vec_mat v cols m =
     map (\<lambda>j. \<Sum>i<length v. v ! i * m ! (i * cols + j)) [0..<cols]"

definition lora_row :: "nat \<Rightarrow> nat \<Rightarrow> real list \<Rightarrow> real list \<Rightarrow> real list \<Rightarrow> real \<Rightarrow> real list \<Rightarrow> real list" where
  "lora_row rank cols weight lora_a lora_b scale v =
     map2 (\<lambda>y z. y + scale * z) (vec_mat v cols weight) (vec_mat (vec_mat v rank lora_a) cols lora_b)"

definition lora_linear_reference :: "tensor \<Rightarrow> tensor \<Rightarrow> tensor \<Rightarrow> tensor \<Rightarrow> real \<Rightarrow> tensor" where
  "lora_linear_reference x weight lora_a lora_b scale =
     (let cols = tn_shape weight ! 1; rank = tn_shape lora_a ! 1 in
      (on_rows (lora_row rank cols (tn_data weight) (tn_data lora_a) (tn_data lora_b) scale) x)
        \<lparr>tn_shape := butlast (tn_shape x) @ [cols]\<rparr>)"

definition fused_reference :: "tensor \<Rightarrow> tensor \<Rightarrow> tensor \<Rightarrow> real \<Rightarrow> tensor \<times> tensor" where
  "fused_reference x residual weight eps =
     (let summed = on_pairs (+) x residual in (rmsnorm_reference summed weight eps, summed))"

definition silu_value :: "real \<Rightarrow> real" where
  "silu_value v = v / (1 + exp (- v))"

definition silu_reference :: "tensor \<Rightarrow> tensor" where
  "silu_reference x = on_elements silu_value x"

definition swiglu_reference :: "tensor \<Rightarrow> tensor \<Rightarrow> tensor" where
  "swiglu_reference gate up = on_pairs (\<lambda>g u. silu_value g * u) gate up"

definition gelu_value :: "real \<Rightarrow> real" where
  "gelu_value v = v / 2 * (1 + tanh (sqrt (2 / pi) * (v + 44715 / 10 ^ 6 * v ^ 3)))"

definition gelu_reference :: "tensor \<Rightarrow> tensor" where
  "gelu_reference x = on_elements gelu_value x"

section \<open>Quantisation\<close>

definition QUANT_BLOCK_SIZE :: nat where
  "QUANT_BLOCK_SIZE = 64"

text \<open>\<open>torch.round\<close>: to the nearest integer, halves to the even one.\<close>

definition round_even :: "real \<Rightarrow> int" where
  "round_even v =
     (let f = \<lfloor>v\<rfloor>; d = v - of_int f in
      if d < 1 / 2 then f else if 1 / 2 < d then f + 1 else if even f then f else f + 1)"

definition clamp :: "real \<Rightarrow> real \<Rightarrow> real \<Rightarrow> real" where
  "clamp lo hi v = min hi (max lo v)"

definition pad_blocks :: "real list \<Rightarrow> real list" where
  "pad_blocks flat =
     flat @ replicate (nat ((- int (length flat)) mod int QUANT_BLOCK_SIZE)) 0"

definition block_scale :: "real list \<Rightarrow> real" where
  "block_scale b = (let s = Max (abs ` set b) / 127 in if 0 < s then s else 1)"

definition quantize_block :: "real list \<Rightarrow> real list" where
  "quantize_block b = map (\<lambda>v. clamp (- 127) 127 (of_int (round_even (v / block_scale b)))) b"

definition quantize_flat :: "real list \<Rightarrow> real list \<times> real list" where
  "quantize_flat flat =
     (let grouped = chunks QUANT_BLOCK_SIZE (pad_blocks flat)
      in (take (length flat) (concat (map quantize_block grouped)), map block_scale grouped))"

definition quantize_reference :: "tensor \<Rightarrow> tensor \<times> tensor" where
  "quantize_reference x =
     (let (q, scales) = quantize_flat (tn_data x) in
      (x\<lparr>tn_data := q, tn_dtype := Int8, tn_requires_grad := False\<rparr>,
       x\<lparr>tn_shape := [length scales], tn_data := scales, tn_dtype := Float32\<rparr>))"

definition dequantize_flat :: "real list \<Rightarrow> real list \<Rightarrow> real list" where
  "dequantize_flat q scales =
     take (length q)
       (concat (map2 (\<lambda>b s. map (\<lambda>v. v * s) b) (chunks QUANT_BLOCK_SIZE (pad_blocks q)) scales))"

definition dequantize_reference :: "tensor \<Rightarrow> tensor \<Rightarrow> tensor" where
  "dequantize_reference q scales =
     q\<lparr>tn_data := dequantize_flat (tn_data q) (tn_data scales), tn_dtype := Float32\<rparr>"

section \<open>Public operators\<close>

definition rmsnorm :: "backend \<Rightarrow> tensor \<Rightarrow> tensor \<Rightarrow> real \<Rightarrow> tensor result" where
  "rmsnorm be x weight eps =
     (if ndim weight \<noteq> 1 then Inl ValueError
      else rbind (last_dim x) (\<lambda>d. rbind (dim_at weight 0) (\<lambda>w.
        if d \<noteq> w then Inl ValueError
        else if numel x = 0 then Inr x
        else if dispatch_available be ''rmsnorm'' [x, weight] \<and> ndim x = 2 \<and> tn_dtype x = Float32
          then Inr (ex_rmsnorm (be_extension be) x weight eps)
        else Inr (rmsnorm_reference x weight eps))))"

definition softmax_op :: "backend \<Rightarrow> tensor \<Rightarrow> tensor" where
  "softmax_op be x =
     (if numel x = 0 then x
      else if dispatch_available be ''softmax'' [x] \<and> ndim x = 2 \<and> tn_dtype x = Float32
        then ex_softmax (be_extension be) x
      else softmax_reference x)"

definition lora_linear ::
  "backend \<Rightarrow> tensor \<Rightarrow> tensor \<Rightarrow> tensor \<Rightarrow> tensor \<Rightarrow> real \<Rightarrow> tensor result" where
  "lora_linear be x weight lora_a lora_b scale =
     rbind (last_dim x) (\<lambda>xi. rbind (dim_at weight 0) (\<lambda>wi.
       if xi \<noteq> wi then Inl ValueError
       else rbind (dim_at lora_a 0) (\<lambda>ai.
         if ai \<noteq> wi then Inl ValueError
         else rbind (dim_at lora_b 0) (\<lambda>br. rbind (dim_at lora_a 1) (\<lambda>ar.
           if br \<noteq> ar then rbind (dim_at weight 1) (\<lambda>_. Inl ValueError)   \<comment> \<open>read for the message\<close>
           else rbind (dim_at lora_b 1) (\<lambda>bo. rbind (dim_at weight 1) (\<lambda>wo.
             if bo \<noteq> wo then Inl ValueError
             else if dispatch_available be ''lora_linear'' [x, weight, lora_a, lora_b]
                  \<and> ndim x = 2 \<and> tn_dtype x = Float32
               then Inr (ex_lora_linear (be_extension be) x weight lora_a lora_b scale)
             else Inr (lora_linear_reference x weight lora_a lora_b scale))))))))"

definition fused_residual_rmsnorm ::
  "backend \<Rightarrow> tensor \<Rightarrow> tensor \<Rightarrow> tensor \<Rightarrow> real \<Rightarrow> (tensor \<times> tensor) result" where
  "fused_residual_rmsnorm be x residual weight eps =
     (if tn_shape x \<noteq> tn_shape residual then Inl ValueError
      else if ndim weight \<noteq> 1 then rbind (last_dim x) (\<lambda>_. Inl ValueError)   \<comment> \<open>read for the message\<close>
      else rbind (dim_at weight 0) (\<lambda>w. rbind (last_dim x) (\<lambda>d.
        if w \<noteq> d then Inl ValueError
        else if numel x = 0 then Inr (x, residual)
        else if dispatch_available be ''fused_residual_rmsnorm'' [x, residual, weight]
             \<and> ndim x = 2 \<and> tn_dtype x = Float32
          then Inr (ex_fused (be_extension be) x residual weight eps)
        else Inr (fused_reference x residual weight eps))))"

definition silu :: "backend \<Rightarrow> tensor \<Rightarrow> tensor" where
  "silu be x =
     (if numel x = 0 then x
      else if dispatch_available be ''silu'' [x] \<and> tn_dtype x = Float32
        then ex_silu (be_extension be) x
      else silu_reference x)"

definition gelu :: "backend \<Rightarrow> tensor \<Rightarrow> tensor" where
  "gelu be x =
     (if numel x = 0 then x
      else if dispatch_available be ''gelu'' [x] \<and> tn_dtype x = Float32
        then ex_gelu (be_extension be) x
      else gelu_reference x)"

definition swiglu :: "backend \<Rightarrow> tensor \<Rightarrow> tensor \<Rightarrow> tensor result" where
  "swiglu be gate up =
     (if tn_shape gate \<noteq> tn_shape up then Inl ValueError
      else if tn_dtype gate \<noteq> tn_dtype up then Inl ValueError
      else if numel gate = 0 then Inr gate
      else if dispatch_available be ''swiglu'' [gate, up] \<and> tn_dtype gate = Float32
        then Inr (ex_swiglu (be_extension be) gate up)
      else Inr (swiglu_reference gate up))"

definition sum_reduce :: "backend \<Rightarrow> tensor \<Rightarrow> tensor" where
  "sum_reduce be x =
     (if numel x = 0 then x\<lparr>tn_shape := [], tn_data := [0], tn_requires_grad := False\<rparr>
      else if dispatch_available be ''sum'' [x] \<and> tn_dtype x = Float32
        then ex_sum (be_extension be) x
      else x\<lparr>tn_shape := [], tn_data := [sum_list (tn_data x)]\<rparr>)"

definition quantize_int8 :: "backend \<Rightarrow> tensor \<Rightarrow> tensor \<times> tensor" where
  "quantize_int8 be x =
     (if dispatch_available be ''quantize_int8'' [x] \<and> tn_dtype x = Float32
      then ex_quantize (be_extension be) x else quantize_reference x)"

definition dequantize_int8 :: "backend \<Rightarrow> tensor \<Rightarrow> tensor \<Rightarrow> tensor result" where
  "dequantize_int8 be q scales =
     (let expected = (numel q + QUANT_BLOCK_SIZE - 1) div QUANT_BLOCK_SIZE in
      if numel scales \<noteq> expected then Inl ValueError
      else if dispatch_available be ''dequantize_int8'' [q, scales]
        then Inr (ex_dequantize (be_extension be) q scales)
      else Inr (dequantize_reference q scales))"

text \<open>\<open>max()\<close> of no elements raises.\<close>

definition quantization_error :: "backend \<Rightarrow> tensor \<Rightarrow> real result" where
  "quantization_error be x =
     (let (q, scales) = quantize_int8 be x in
      rbind (dequantize_int8 be q scales) (\<lambda>restored.
        let errors = map2 (\<lambda>a b. \<bar>a - b\<bar>) (tn_data x) (tn_data restored) in
        if errors = [] then Inl RuntimeError else Inr (Max (set errors))))"

end
