(* ===== verification/Ops_Properties.thy ===== *)
theory Ops_Properties
  imports Ops
begin

text \<open>
  Lemmas on the operators: blocks of a tensor, rounding, and what int8 quantisation loses
  and keeps; which calls a compiled kernel can ever see.
\<close>

section \<open>Blocks\<close>

lemma chunks_Nil [simp]: "chunks n [] = []"
  by (simp add: chunks.simps)

lemma chunks_step: "0 < n \<Longrightarrow> xs \<noteq> [] \<Longrightarrow> chunks n xs = take n xs # chunks n (drop n xs)"
  by (subst chunks.simps) simp

lemma concat_chunks [simp]: "0 < n \<Longrightarrow> concat (chunks n xs) = xs"
  by (induction n xs rule: chunks.induct) (case_tac "xs = []"; simp add: chunks_step)

lemma chunks_append_block:
  "length b = n \<Longrightarrow> 0 < n \<Longrightarrow> chunks n (b @ xs) = b # chunks n xs"
  by (subst chunks_step) auto

lemma chunks_concat:
  "0 < n \<Longrightarrow> list_all (\<lambda>b. length b = n) bs \<Longrightarrow> chunks n (concat bs) = bs"
  by (induction bs) (auto simp: chunks_append_block)

lemma chunks_lengths:
  "0 < n \<Longrightarrow> n dvd length xs \<Longrightarrow> list_all (\<lambda>b. length b = n) (chunks n xs)"
proof (induction n xs rule: chunks.induct)
  case (1 n xs)
  show ?case
  proof (cases "xs = []")
    case False
    then have "n \<le> length xs"
      using 1 by (simp add: dvd_imp_le)
    then show ?thesis
      using 1 False by (simp add: chunks_step dvd_minus_self)
  qed simp
qed

lemma length_concat_uniform:
  "list_all (\<lambda>b. length b = n) bs \<Longrightarrow> length (concat bs) = n * length bs"
  by (induction bs) auto

lemma nth_concat_uniform:
  "list_all (\<lambda>b. length b = n) bs \<Longrightarrow> j < n * length bs \<Longrightarrow>
     concat bs ! j = bs ! (j div n) ! (j mod n)"
proof (induction bs arbitrary: j)
  case (Cons b bs)
  show ?case
  proof (cases "j < n")
    case True
    then show ?thesis
      using Cons.prems by (simp add: nth_append)
  next
    case False
    then have "0 < n"
      using Cons.prems by (cases n) auto
    then show ?thesis
      using Cons False by (simp add: nth_append le_mod_geq le_div_geq)
  qed
qed simp

lemma length_chunks:
  "0 < n \<Longrightarrow> n dvd length xs \<Longrightarrow> n * length (chunks n xs) = length xs"
  using length_concat_uniform [OF chunks_lengths] by (metis concat_chunks)

lemma block_size_pos [simp]: "0 < QUANT_BLOCK_SIZE"
  by (simp add: QUANT_BLOCK_SIZE_def)

abbreviation block_count :: "nat \<Rightarrow> nat" where
  "block_count n \<equiv> (n + QUANT_BLOCK_SIZE - 1) div QUANT_BLOCK_SIZE"

lemma length_pad_blocks: "length (pad_blocks xs) = QUANT_BLOCK_SIZE * block_count (length xs)"
proof -
  have "nat ((- int n) mod 64) + n = 64 * ((n + 63) div 64)" for n :: nat
  proof -
    define q where "q = (int n + 63) div 64"
    have q: "0 \<le> 64 * q - int n" "64 * q - int n < 64"
      unfolding q_def by simp_all
    have "(- int n) mod 64 = (- int n + q * 64) mod 64"
      by (rule mod_mult_self1 [symmetric])
    also have "\<dots> = (64 * q - int n) mod 64"
      by (simp add: algebra_simps)
    also have "\<dots> = 64 * q - int n"
      by (rule mod_pos_pos_trivial) (fact q)+
    finally have "(- int n) mod 64 + int n = 64 * ((int n + 63) div 64)"
      by (simp add: q_def)
    then have "int (nat ((- int n) mod 64) + n) = int (64 * ((n + 63) div 64))"
      by (simp add: zdiv_int)
    then show ?thesis
      by (simp only: of_nat_eq_iff)
  qed
  then show ?thesis
    by (simp add: pad_blocks_def QUANT_BLOCK_SIZE_def add.commute)
qed

lemma length_pad_blocks_ge: "length xs \<le> length (pad_blocks xs)"
  by (simp add: pad_blocks_def)

lemma nth_pad_blocks:
  "j < length (pad_blocks xs) \<Longrightarrow> pad_blocks xs ! j = (if j < length xs then xs ! j else 0)"
  by (auto simp: pad_blocks_def nth_append)

abbreviation quant_blocks :: "real list \<Rightarrow> real list list" where
  "quant_blocks xs \<equiv> chunks QUANT_BLOCK_SIZE (pad_blocks xs)"

lemma blocks_uniform: "list_all (\<lambda>b. length b = QUANT_BLOCK_SIZE) (quant_blocks xs)"
  by (rule chunks_lengths) (simp_all add: length_pad_blocks)

lemma length_blocks: "length (quant_blocks xs) = block_count (length xs)"
proof -
  have "QUANT_BLOCK_SIZE * length (quant_blocks xs) = QUANT_BLOCK_SIZE * block_count (length xs)"
    using length_chunks [of QUANT_BLOCK_SIZE "pad_blocks xs"] by (simp add: length_pad_blocks)
  then show ?thesis
    using block_size_pos by (metis mult_cancel1 less_irrefl)
qed

lemma nth_blocks:
  assumes "j < length (pad_blocks xs)"
  shows "j div QUANT_BLOCK_SIZE < length (quant_blocks xs)"
    "quant_blocks xs ! (j div QUANT_BLOCK_SIZE) ! (j mod QUANT_BLOCK_SIZE) = pad_blocks xs ! j"
    "j mod QUANT_BLOCK_SIZE < length (quant_blocks xs ! (j div QUANT_BLOCK_SIZE))"
proof -
  have j: "j < QUANT_BLOCK_SIZE * length (quant_blocks xs)"
    using assms by (simp add: length_blocks length_pad_blocks)
  then show *: "j div QUANT_BLOCK_SIZE < length (quant_blocks xs)"
    by (simp add: less_mult_imp_div_less mult.commute)
  show "quant_blocks xs ! (j div QUANT_BLOCK_SIZE) ! (j mod QUANT_BLOCK_SIZE) = pad_blocks xs ! j"
    using nth_concat_uniform [OF blocks_uniform j] by simp
  show "j mod QUANT_BLOCK_SIZE < length (quant_blocks xs ! (j div QUANT_BLOCK_SIZE))"
    using blocks_uniform [of xs] * by (simp add: list_all_length)
qed

section \<open>Rounding\<close>

lemma round_even_error: "\<bar>of_int (round_even v) - v\<bar> \<le> 1 / 2"
proof -
  have fl: "of_int \<lfloor>v\<rfloor> \<le> v" "v < of_int \<lfloor>v\<rfloor> + 1"
    by linarith+
  consider "v - of_int \<lfloor>v\<rfloor> < 1 / 2" "round_even v = \<lfloor>v\<rfloor>"
    | "1 / 2 < v - of_int \<lfloor>v\<rfloor>" "round_even v = \<lfloor>v\<rfloor> + 1"
    | "v - of_int \<lfloor>v\<rfloor> = 1 / 2" "round_even v = \<lfloor>v\<rfloor> \<or> round_even v = \<lfloor>v\<rfloor> + 1"
    unfolding round_even_def Let_def by (metis linorder_less_linear)
  then show ?thesis
    by cases (use fl in \<open>auto simp: abs_le_iff\<close>)
qed

lemma round_even_of_int [simp]: "round_even (of_int k) = k"
  by (simp add: round_even_def Let_def)

lemma round_even_bound:
  assumes "\<bar>v\<bar> \<le> of_int k" shows "\<bar>round_even v\<bar> \<le> k"
proof -
  have "of_int (round_even v) \<le> v + 1 / 2" "v - 1 / 2 \<le> of_int (round_even v)" "- of_int k \<le> v" "v \<le> of_int k"
    using round_even_error [of v] assms by (simp_all only: abs_le_iff) linarith+
  then have "of_int (round_even v) < (of_int (k + 1) :: real)" "(of_int (- k - 1) :: real) < of_int (round_even v)"
    by simp_all
  then show ?thesis
    unfolding of_int_less_iff by linarith
qed

lemma clamp_id: "lo \<le> v \<Longrightarrow> v \<le> hi \<Longrightarrow> clamp lo hi v = v"
  by (simp add: clamp_def)

section \<open>One block\<close>

lemma block_scale_pos: "0 < block_scale b"
  by (simp add: block_scale_def Let_def)

lemma block_scale_bound:
  assumes "v \<in> set b" shows "\<bar>v / block_scale b\<bar> \<le> 127"
proof -
  have "\<bar>v\<bar> \<le> Max (abs ` set b)"
    using assms by auto
  then have "\<bar>v\<bar> \<le> 127 * block_scale b"
    by (auto simp: block_scale_def Let_def)
  then show ?thesis
    using block_scale_pos [of b] by (simp add: abs_divide divide_le_eq)
qed

lemma quantized_value:
  assumes "v \<in> set b"
  shows "clamp (- 127) 127 (of_int (round_even (v / block_scale b))) = of_int (round_even (v / block_scale b))"
    "\<bar>round_even (v / block_scale b)\<bar> \<le> 127"
proof -
  show bd: "\<bar>round_even (v / block_scale b)\<bar> \<le> 127"
    using round_even_bound [of "v / block_scale b" 127] block_scale_bound [OF assms] by simp
  then have "\<bar>of_int (round_even (v / block_scale b))\<bar> \<le> (127 :: real)"
    by linarith
  then show "clamp (- 127) 127 (of_int (round_even (v / block_scale b))) = of_int (round_even (v / block_scale b))"
    by (intro clamp_id) linarith+
qed

lemma quantize_block_eq:
  "quantize_block b = map (\<lambda>v. of_int (round_even (v / block_scale b))) b"
  by (simp add: quantize_block_def quantized_value)

lemma length_quantize_block [simp]: "length (quantize_block b) = length b"
  by (simp add: quantize_block_def)

lemma block_error:
  "\<bar>v - of_int (round_even (v / block_scale b)) * block_scale b\<bar> \<le> block_scale b / 2"
proof -
  let ?s = "block_scale b"
  have "v - of_int (round_even (v / ?s)) * ?s = (v / ?s - of_int (round_even (v / ?s))) * ?s"
    using block_scale_pos [of b] by (simp add: left_diff_distrib)
  moreover have "\<bar>v / ?s - of_int (round_even (v / ?s))\<bar> * ?s \<le> 1 / 2 * ?s"
    using round_even_error [of "v / ?s"] block_scale_pos [of b]
    by (intro mult_right_mono) (auto simp: abs_minus_commute)
  ultimately show ?thesis
    using block_scale_pos [of b] by (simp add: abs_mult)
qed

text \<open>The largest element becomes 127 exactly, so the scale survives the round trip.\<close>

abbreviation restore_block :: "real list \<Rightarrow> real list" where
  "restore_block b \<equiv> map (\<lambda>v. v * block_scale b) (quantize_block b)"

lemma restored_bound:
  assumes "w \<in> set (restore_block b)" shows "\<bar>w\<bar> \<le> 127 * block_scale b"
proof -
  obtain v where v: "v \<in> set b" "w = of_int (round_even (v / block_scale b)) * block_scale b"
    using assms by (auto simp: quantize_block_eq)
  have "\<bar>of_int (round_even (v / block_scale b))\<bar> \<le> (127 :: real)"
    using quantized_value(2) [OF v(1)] by linarith
  then show ?thesis
    using v block_scale_pos [of b] by (simp add: abs_mult)
qed

lemma block_scale_restore:
  assumes "b \<noteq> []" shows "block_scale (restore_block b) = block_scale b"
proof -
  let ?M = "Max (abs ` set b)"
  have fin: "finite (abs ` set b)" "abs ` set b \<noteq> {}"
    using assms by auto
  then obtain v where v: "v \<in> set b" "\<bar>v\<bar> = ?M"
    by (metis Max_in imageE)
  show ?thesis
  proof (cases "0 < ?M")
    case True
    then have s: "block_scale b = ?M / 127"
      by (simp add: block_scale_def Let_def)
    define w where "w = of_int (round_even (v / block_scale b)) * block_scale b"
    have "v = ?M \<or> v = - ?M"
      using v(2) by linarith
    then obtain k where k: "v / block_scale b = of_int k"
      using True s that [of 127] that [of "- 127"] by (auto simp: field_simps)
    then have "w = v / block_scale b * block_scale b"
      by (simp add: w_def k)
    then have "\<bar>w\<bar> = ?M"
      using v(2) block_scale_pos [of b] by simp
    moreover have "w \<in> set (restore_block b)"
      using v(1) by (auto simp: w_def quantize_block_eq)
    moreover have "\<bar>u\<bar> \<le> ?M" if "u \<in> set (restore_block b)" for u
      using restored_bound [OF that] s by simp
    ultimately have "Max (abs ` set (restore_block b)) = ?M"
      by (intro Max_eqI) (auto simp del: set_map intro: image_eqI [of _ abs w])
    then show ?thesis
      by (simp add: block_scale_def Let_def)
  next
    case False
    then have z: "\<forall>v\<in>set b. v = 0"
      using fin by (metis Max_ge abs_le_zero_iff image_eqI linorder_not_less order_trans)
    then have "restore_block b = b"
      using round_even_of_int [of 0] by (auto simp: quantize_block_eq intro!: map_idI)
    then show ?thesis
      by simp
  qed
qed

lemma requantize_block:
  assumes "b \<noteq> []" shows "quantize_block (restore_block b) = quantize_block b"
  unfolding quantize_block_eq [of "restore_block b"] block_scale_restore [OF assms]
  using block_scale_pos [of b] by (auto simp: quantize_block_eq)

section \<open>Whole tensors\<close>

text \<open>An elementwise change of the blocks that keeps zero keeps the padding, so it commutes with cutting it off.\<close>

lemma blocks_of_changed:
  assumes zero: "\<And>b. g b 0 = (0 :: real)"
  shows "quant_blocks (take (length xs) (concat (map (\<lambda>b. map (g b) b) (quant_blocks xs)))) =
    map (\<lambda>b. map (g b) b) (quant_blocks xs)" (is "quant_blocks (take _ (concat ?bs)) = _")
proof -
  have uni: "list_all (\<lambda>b. length b = QUANT_BLOCK_SIZE) ?bs"
    using blocks_uniform [of xs] by (auto simp: list_all_iff)
  have len: "length (concat ?bs) = length (pad_blocks xs)"
    using length_concat_uniform [OF uni] by (simp add: length_blocks length_pad_blocks)
  have "pad_blocks (take (length xs) (concat ?bs)) = concat ?bs"
  proof (rule nth_equalityI)
    show "length (pad_blocks (take (length xs) (concat ?bs))) = length (concat ?bs)"
      using length_pad_blocks_ge [of xs] by (simp add: length_pad_blocks len del: length_concat)
  next
    fix j assume "j < length (pad_blocks (take (length xs) (concat ?bs)))"
    then have j: "j < length (pad_blocks xs)"
      using length_pad_blocks_ge [of xs] by (simp add: length_pad_blocks len del: length_concat)
    have "concat ?bs ! j = 0" if "length xs \<le> j"
    proof -
      have "concat ?bs ! j = ?bs ! (j div QUANT_BLOCK_SIZE) ! (j mod QUANT_BLOCK_SIZE)"
        using nth_concat_uniform [OF uni, of j] j by (simp add: length_blocks length_pad_blocks)
      also have "\<dots> = 0"
        using nth_blocks [OF j] that j zero by (simp add: nth_pad_blocks)
      finally show ?thesis .
    qed
    then show "pad_blocks (take (length xs) (concat ?bs)) ! j = concat ?bs ! j"
      using j length_pad_blocks_ge [of xs]
      by (subst nth_pad_blocks) (auto simp: length_pad_blocks len simp del: length_concat)
  qed
  then show ?thesis
    using chunks_concat [OF block_size_pos uni] by simp
qed

lemma nth_changed:
  assumes "i < length xs"
  shows "take (length xs) (concat (map (\<lambda>b. map (g b) b) (quant_blocks xs))) ! i =
    g (quant_blocks xs ! (i div QUANT_BLOCK_SIZE)) (xs ! i)"
proof -
  have i: "i < length (pad_blocks xs)"
    using assms length_pad_blocks_ge [of xs] by simp
  have uni: "list_all (\<lambda>b. length b = QUANT_BLOCK_SIZE) (map (\<lambda>b. map (g b) b) (quant_blocks xs))"
    using blocks_uniform [of xs] by (auto simp: list_all_iff)
  show ?thesis
    using nth_concat_uniform [OF uni, of i] nth_blocks [OF i] i assms
    by (simp add: nth_pad_blocks length_blocks length_pad_blocks)
qed

lemma length_changed:
  "length (take (length xs) (concat (map (\<lambda>b. map (g b) b) (quant_blocks xs)))) = length xs"
proof -
  have "list_all (\<lambda>b. length b = QUANT_BLOCK_SIZE) (map (\<lambda>b. map (g b) b) (quant_blocks xs))"
    using blocks_uniform [of xs] by (auto simp: list_all_iff)
  from length_concat_uniform [OF this] show ?thesis
    using length_pad_blocks_ge [of xs] by (simp add: length_blocks length_pad_blocks del: length_concat)
qed

abbreviation quant_code :: "real list \<Rightarrow> real \<Rightarrow> real" where
  "quant_code b v \<equiv> of_int (round_even (v / block_scale b))"

lemma quantize_flat_eq:
  "quantize_flat xs =
     (take (length xs) (concat (map (\<lambda>b. map (quant_code b) b) (quant_blocks xs))), map block_scale (quant_blocks xs))"
  by (simp add: quantize_flat_def Let_def quantize_block_eq [abs_def])

lemma code_zero: "quant_code b 0 = 0"
  using round_even_of_int [of 0] by simp

lemma dequantize_quantize_flat:
  "dequantize_flat (fst (quantize_flat xs)) (snd (quantize_flat xs)) =
     take (length xs) (concat (map (\<lambda>b. map (\<lambda>v. quant_code b v * block_scale b) b) (quant_blocks xs)))"
proof -
  have "map2 (\<lambda>b s. map (\<lambda>v. v * s) b) (map (\<lambda>b. map (quant_code b) b) bs) (map block_scale bs) =
      map (\<lambda>b. map (\<lambda>v. quant_code b v * block_scale b) b) bs" for bs
    by (induction bs) simp_all
  then show ?thesis
    unfolding dequantize_flat_def quantize_flat_eq fst_conv snd_conv length_changed
      blocks_of_changed [where g = quant_code, OF code_zero] by simp
qed

lemma requantize_flat:
  "quantize_flat (dequantize_flat (fst (quantize_flat xs)) (snd (quantize_flat xs))) = quantize_flat xs"
proof -
  let ?g = "\<lambda>b v. quant_code b v * block_scale b"
  have ne: "b \<noteq> []" if "b \<in> set (quant_blocks xs)" for b
    using blocks_uniform [of xs] that by (auto simp: list_all_iff QUANT_BLOCK_SIZE_def)
  have restore: "map (?g b) b = restore_block b" for b
    by (simp add: quantize_block_eq)
  have "map quantize_block (map (\<lambda>b. map (?g b) b) (quant_blocks xs)) = map quantize_block (quant_blocks xs)"
    unfolding restore using requantize_block [OF ne] by simp
  moreover have "map block_scale (map (\<lambda>b. map (?g b) b) (quant_blocks xs)) = map block_scale (quant_blocks xs)"
    unfolding restore using block_scale_restore [OF ne] by simp
  moreover have "quant_blocks (take (length xs) (concat (map (\<lambda>b. map (?g b) b) (quant_blocks xs)))) =
      map (\<lambda>b. map (?g b) b) (quant_blocks xs)"
    by (rule blocks_of_changed) (use code_zero in simp)
  ultimately show ?thesis
    unfolding dequantize_quantize_flat
    unfolding quantize_flat_def Let_def length_changed by (simp only:)
qed

section \<open>Quantisation\<close>

lemma quantize_reference_data:
  "tn_data (fst (quantize_reference x)) = fst (quantize_flat (tn_data x))"
  "tn_data (snd (quantize_reference x)) = snd (quantize_flat (tn_data x))"
  "tn_shape (fst (quantize_reference x)) = tn_shape x"
  by (simp_all add: quantize_reference_def case_prod_unfold Let_def)

lemma scales_expected:
  "numel (snd (quantize_reference x)) = (numel (fst (quantize_reference x)) + QUANT_BLOCK_SIZE - 1) div QUANT_BLOCK_SIZE"
  using length_changed [of "tn_data x" quant_code]
  by (simp add: numel_def quantize_reference_data quantize_flat_eq length_blocks)

lemma reference_quantisation:
  assumes "\<not> extension_loaded be"
  shows "quantize_int8 be x = quantize_reference x"
    "tn_data (fst (quantize_reference x)) = fst (quantize_flat (tn_data x))"
    "tn_data (snd (quantize_reference x)) = snd (quantize_flat (tn_data x))"
    "dequantize_int8 be (fst (quantize_reference x)) (snd (quantize_reference x)) =
       Inr (dequantize_reference (fst (quantize_reference x)) (snd (quantize_reference x)))"
  using assms scales_expected [of x]
  by (simp_all add: quantize_int8_def dequantize_int8_def dispatch_available_def quantize_reference_data)

lemma tn_data_dequantize:
  "tn_data (dequantize_reference q s) = dequantize_flat (tn_data q) (tn_data s)"
  by (simp add: dequantize_reference_def)

text \<open>The round trip of the reference implementations.\<close>

lemma reference_round_trip:
  fixes x :: tensor
  defines "q \<equiv> fst (quantize_reference x)" and "s \<equiv> snd (quantize_reference x)"
  defines "y \<equiv> dequantize_reference q s"
  shows "tn_shape y = tn_shape x" "numel y = numel x"
    "i < numel x \<Longrightarrow> \<bar>tn_data q ! i\<bar> \<le> 127 \<and> i div QUANT_BLOCK_SIZE < numel s
       \<and> \<bar>tn_data x ! i - tn_data y ! i\<bar> \<le> tn_data s ! (i div QUANT_BLOCK_SIZE) / 2"
proof -
  let ?xs = "tn_data x"
  have data: "tn_data y = take (length ?xs) (concat (map (\<lambda>b. map (\<lambda>v. quant_code b v * block_scale b) b) (quant_blocks ?xs)))"
    unfolding y_def tn_data_dequantize q_def s_def quantize_reference_data
    by (rule dequantize_quantize_flat)
  show "tn_shape y = tn_shape x"
    by (simp add: y_def dequantize_reference_def q_def quantize_reference_data)
  show "numel y = numel x"
    unfolding numel_def data by (rule length_changed)
  assume "i < numel x"
  then have i: "i < length ?xs"
    by (simp add: numel_def)
  let ?b = "quant_blocks ?xs ! (i div QUANT_BLOCK_SIZE)"
  have pad: "i < length (pad_blocks ?xs)"
    using i length_pad_blocks_ge [of ?xs] by simp
  have "?xs ! i \<in> set ?b"
    using nth_blocks [OF pad] i by (metis nth_mem nth_pad_blocks pad)
  then have "\<bar>round_even (?xs ! i / block_scale ?b)\<bar> \<le> 127"
    by (rule quantized_value)
  then have "\<bar>quant_code ?b (?xs ! i)\<bar> \<le> 127"
    by linarith
  moreover have "tn_data q ! i = quant_code ?b (?xs ! i)"
    unfolding q_def quantize_reference_data quantize_flat_eq fst_conv by (rule nth_changed [OF i])
  moreover have "tn_data y ! i = quant_code ?b (?xs ! i) * block_scale ?b"
    unfolding data by (rule nth_changed [OF i])
  moreover have "tn_data s ! (i div QUANT_BLOCK_SIZE) = block_scale ?b" "i div QUANT_BLOCK_SIZE < numel s"
    using nth_blocks(1) [OF pad] by (simp_all add: s_def numel_def quantize_reference_data quantize_flat_eq)
  ultimately show "\<bar>tn_data q ! i\<bar> \<le> 127 \<and> i div QUANT_BLOCK_SIZE < numel s
      \<and> \<bar>?xs ! i - tn_data y ! i\<bar> \<le> tn_data s ! (i div QUANT_BLOCK_SIZE) / 2"
    using block_error [of "?xs ! i" ?b] by simp
qed

text \<open>C24: On the reference path quantising a tensor and dequantising the result gives a tensor of the same shape whose every element is within half of its block's scale of the original, and every code lies between -127 and 127.\<close>

theorem int8_error_is_half_a_step:
  assumes "\<not> extension_loaded be" and "quantize_int8 be x = (q, s)"
  shows "\<exists>y. dequantize_int8 be q s = Inr y \<and> tn_shape y = tn_shape x \<and> numel y = numel x \<and>
    (\<forall>i<numel x. \<bar>tn_data q ! i\<bar> \<le> 127 \<and>
       \<bar>tn_data x ! i - tn_data y ! i\<bar> \<le> tn_data s ! (i div QUANT_BLOCK_SIZE) / 2)"
proof -
  have "q = fst (quantize_reference x)" "s = snd (quantize_reference x)"
    using assms(2) reference_quantisation(1) [OF assms(1), of x] by simp_all
  then show ?thesis
    using reference_quantisation(4) [OF assms(1), of x] reference_round_trip [where x = x] by blast
qed

text \<open>On the reference path quantisation is stable: quantising what dequantisation restored gives the same codes and the same scales again.\<close>

theorem requantising_changes_nothing:
  assumes "\<not> extension_loaded be" and "quantize_int8 be x = (q, s)" and "dequantize_int8 be q s = Inr y"
  shows "tn_data (fst (quantize_int8 be y)) = tn_data q \<and> tn_data (snd (quantize_int8 be y)) = tn_data s"
proof -
  have qs: "q = fst (quantize_reference x)" "s = snd (quantize_reference x)"
    using assms(2) reference_quantisation(1) [OF assms(1), of x] by simp_all
  have "y = dequantize_reference q s"
    using assms(3) reference_quantisation(4) [OF assms(1), of x] by (simp add: qs)
  then have "quantize_flat (tn_data y) = quantize_flat (tn_data x)"
    by (simp add: tn_data_dequantize qs reference_quantisation [OF assms(1)] requantize_flat)
  then show ?thesis
    by (simp_all add: reference_quantisation [OF assms(1)] qs)
qed

section \<open>Dispatch\<close>

text \<open>Everything dispatch looks at but the kernels themselves: the code without its extension.\<close>

abbreviation no_extension :: "backend \<Rightarrow> backend" where
  "no_extension be \<equiv> be\<lparr>be_import := NotBuilt\<rparr>"

lemma dispatch_without: "\<not> dispatch_available (no_extension be) name ts"
  by (simp add: dispatch_available_def extension_loaded_def load_extension_def)

lemma dispatch_needs_no_grad:
  "be_grad_enabled be \<Longrightarrow> list_ex tn_requires_grad ts \<Longrightarrow> \<not> dispatch_available be name ts"
  by (simp add: dispatch_available_def needs_autograd_def)

text \<open>A call that takes part in a backward pass gives exactly what it gives without the extension, results and errors: no gradient-needing input ever reaches a kernel.\<close>

theorem gradients_never_meet_a_kernel:
  assumes "be_grad_enabled be" and "tn_requires_grad x"
  shows "rmsnorm be x w eps = rmsnorm (no_extension be) x w eps \<and>
    softmax_op be x = softmax_op (no_extension be) x \<and>
    lora_linear be x w a b sc = lora_linear (no_extension be) x w a b sc \<and>
    fused_residual_rmsnorm be x r w eps = fused_residual_rmsnorm (no_extension be) x r w eps \<and>
    silu be x = silu (no_extension be) x \<and> gelu be x = gelu (no_extension be) x \<and>
    swiglu be x u = swiglu (no_extension be) x u \<and>
    sum_reduce be x = sum_reduce (no_extension be) x \<and>
    quantize_int8 be x = quantize_int8 (no_extension be) x"
proof -
  have off: "\<not> dispatch_available be name (x # ts)" for name ts
    by (rule dispatch_needs_no_grad) (use assms in simp_all)
  show ?thesis
    by (simp add: rmsnorm_def softmax_op_def lora_linear_def fused_residual_rmsnorm_def silu_def gelu_def
        swiglu_def sum_reduce_def quantize_int8_def off dispatch_without)
qed

section \<open>Witnesses\<close>

definition sample_extension :: extension where
  "sample_extension =
     \<lparr>ex_registered = (\<lambda>_. True), ex_rmsnorm = (\<lambda>x _ _. x), ex_softmax = (\<lambda>x. x),
      ex_lora_linear = (\<lambda>x _ _ _ _. x), ex_fused = (\<lambda>x r _ _. (x, r)), ex_silu = (\<lambda>x. x),
      ex_gelu = (\<lambda>x. x), ex_swiglu = (\<lambda>g _. g), ex_sum = (\<lambda>x. x),
      ex_quantize = (\<lambda>x. (x, x)), ex_dequantize = (\<lambda>q _. q)\<rparr>"

definition sample_backend :: "import_outcome \<Rightarrow> backend" where
  "sample_backend found =
     \<lparr>be_import = found, be_cuda_available = True, be_device_name = ''GPU'', be_grad_enabled = True,
      be_extension = sample_extension\<rparr>"

definition sample_tensor :: tensor where
  "sample_tensor =
     \<lparr>tn_shape = [2], tn_data = [127, 1 / 2], tn_dtype = Float32, tn_requires_grad = True, tn_is_cuda = True\<rparr>"

lemma sample_has_no_extension: "\<not> extension_loaded (sample_backend NotBuilt)"
  by (simp add: extension_loaded_def sample_backend_def load_extension_def)

theorem int8_error_is_half_a_step_witness:
  "\<exists>q s y. quantize_int8 (sample_backend NotBuilt) sample_tensor = (q, s) \<and>
     dequantize_int8 (sample_backend NotBuilt) q s = Inr y \<and> numel y = 2 \<and>
     \<bar>1 / 2 - tn_data y ! 1\<bar> \<le> tn_data s ! 0 / 2"
proof -
  obtain q s where qs: "quantize_int8 (sample_backend NotBuilt) sample_tensor = (q, s)"
    by fastforce
  from int8_error_is_half_a_step [OF sample_has_no_extension this] obtain y where
    "dequantize_int8 (sample_backend NotBuilt) q s = Inr y" "numel y = numel sample_tensor"
    "\<forall>i<numel sample_tensor. \<bar>tn_data sample_tensor ! i - tn_data y ! i\<bar> \<le> tn_data s ! (i div QUANT_BLOCK_SIZE) / 2"
    by blast
  then show ?thesis
    using qs by (auto simp: sample_tensor_def numel_def QUANT_BLOCK_SIZE_def
        intro!: exI [of _ q] exI [of _ s] exI [of _ y] dest!: spec [of _ 1])
qed

theorem requantising_changes_nothing_witness:
  "\<exists>q s y. quantize_int8 (sample_backend NotBuilt) sample_tensor = (q, s) \<and>
     dequantize_int8 (sample_backend NotBuilt) q s = Inr y \<and>
     tn_data (fst (quantize_int8 (sample_backend NotBuilt) y)) = tn_data q"
proof -
  obtain q s where qs: "quantize_int8 (sample_backend NotBuilt) sample_tensor = (q, s)"
    by fastforce
  moreover have "q = fst (quantize_reference sample_tensor)" "s = snd (quantize_reference sample_tensor)"
    using qs reference_quantisation(1) [OF sample_has_no_extension, of sample_tensor] by simp_all
  ultimately obtain y where "dequantize_int8 (sample_backend NotBuilt) q s = Inr y"
    using reference_quantisation(4) [OF sample_has_no_extension, of sample_tensor] by blast
  then show ?thesis
    using qs requantising_changes_nothing [OF sample_has_no_extension qs] by blast
qed

theorem gradients_never_meet_a_kernel_witness:
  "silu (sample_backend (Loads (Some True))) sample_tensor = silu_reference sample_tensor"
proof -
  have "silu (sample_backend (Loads (Some True))) sample_tensor =
      silu (no_extension (sample_backend (Loads (Some True)))) sample_tensor"
    by (rule gradients_never_meet_a_kernel [THEN conjunct2, THEN conjunct2, THEN conjunct2, THEN conjunct2,
          THEN conjunct1]) (simp_all add: sample_backend_def sample_tensor_def)
  then show ?thesis
    by (simp add: silu_def dispatch_without) (simp add: sample_tensor_def numel_def)
qed

end
