(* ===== verification/Training_Config.thy ===== *)
theory Training_Config
  imports Prelude
begin

text \<open>
  \<open>training/config.py\<close>: adapter and run settings, validated by their constructors. Values
  have their declared types; YAML and JSON files are not modelled.
\<close>

section \<open>Adapter settings\<close>

definition LORA_BIAS_CHOICES :: "string list" where
  "LORA_BIAS_CHOICES = [''none'', ''all'', ''lora_only'']"

record lora_config =
  lc_rank :: int
  lc_alpha :: int
  lc_dropout :: real
  lc_target_modules :: "string list"
  lc_bias :: string

definition lora_defaults :: lora_config where
  "lora_defaults = \<lparr>lc_rank = 8, lc_alpha = 16, lc_dropout = 5 / 100,
     lc_target_modules = [''c_attn'', ''c_proj''], lc_bias = ''none''\<rparr>"

definition LoRAConfig :: "lora_config \<Rightarrow> lora_config result" where
  "LoRAConfig c =
     (if lc_rank c \<le> 0 then Inl ValueError
      else if lc_alpha c \<le> 0 then Inl ValueError
      else if \<not> (0 \<le> lc_dropout c \<and> lc_dropout c < 1) then Inl ValueError
      else if lc_bias c \<notin> set LORA_BIAS_CHOICES then Inl ValueError
      else if lc_target_modules c = [] then Inl ValueError
      else Inr c)"

definition scaling :: "lora_config \<Rightarrow> real" where
  "scaling c = of_int (lc_alpha c) / of_int (lc_rank c)"

section \<open>Run settings\<close>

record training_config =
  tc_model_name :: string
  tc_output_dir :: string
  tc_dataset_name :: "string option"
  tc_dataset_config :: "string option"
  tc_dataset_split :: string
  tc_text_field :: string
  tc_inline_texts :: "string list"
  tc_max_seq_length :: int
  tc_batch_size :: int
  tc_gradient_accumulation_steps :: int
  tc_learning_rate :: real
  tc_weight_decay :: real
  tc_warmup_ratio :: real
  tc_epochs :: int
  tc_max_steps :: int
  tc_seed :: int
  tc_mixed_precision :: bool
  tc_gradient_checkpointing :: bool
  tc_load_in_4bit :: bool
  tc_logging_steps :: int
  tc_eval_steps :: int
  tc_save_steps :: int
  tc_lora :: lora_config

definition tc_defaults :: training_config where
  "tc_defaults =
     \<lparr>tc_model_name = ''sshleifer/tiny-gpt2'', tc_output_dir = ''checkpoints/run'',
      tc_dataset_name = None, tc_dataset_config = None, tc_dataset_split = ''train'',
      tc_text_field = ''text'', tc_inline_texts = [], tc_max_seq_length = 256, tc_batch_size = 4,
      tc_gradient_accumulation_steps = 1, tc_learning_rate = 2 / 10 ^ 4, tc_weight_decay = 0,
      tc_warmup_ratio = 3 / 100, tc_epochs = 1, tc_max_steps = - 1, tc_seed = 42,
      tc_mixed_precision = True, tc_gradient_checkpointing = False, tc_load_in_4bit = False,
      tc_logging_steps = 10, tc_eval_steps = 0, tc_save_steps = 0, tc_lora = lora_defaults\<rparr>"

definition TrainingConfig :: "training_config \<Rightarrow> training_config result" where
  "TrainingConfig c =
     (if tc_batch_size c \<le> 0 then Inl ValueError
      else if tc_gradient_accumulation_steps c \<le> 0 then Inl ValueError
      else if tc_max_seq_length c \<le> 0 then Inl ValueError
      else if tc_learning_rate c \<le> 0 then Inl ValueError
      else if tc_epochs c \<le> 0 \<and> tc_max_steps c \<le> 0 then Inl ValueError
      else if \<not> (0 \<le> tc_warmup_ratio c \<and> tc_warmup_ratio c < 1) then Inl ValueError
      else Inr c)"

definition effective_batch_size :: "training_config \<Rightarrow> int" where
  "effective_batch_size c = tc_batch_size c * tc_gradient_accumulation_steps c"

section \<open>Construction from a dictionary\<close>

text \<open>
  \<open>from_dict\<close>. A keyword argument is what it does to its field, \<open>None\<close> a name that is no
  field, on which the constructor raises \<open>TypeError\<close>; \<open>lora\<close> is the nested dictionary.
\<close>

fun set_fields :: "('c \<Rightarrow> 'c) option list \<Rightarrow> 'c \<Rightarrow> 'c result" where
  "set_fields [] c = Inr c"
| "set_fields (Some f # fs) c = set_fields fs (f c)"
| "set_fields (None # fs) c = Inl TypeError"

definition training_from_dict ::
  "(training_config \<Rightarrow> training_config) option list \<Rightarrow> (lora_config \<Rightarrow> lora_config) option list option
     \<Rightarrow> training_config result" where
  "training_from_dict payload lora =
     rbind (rbind (set_fields payload tc_defaults) TrainingConfig) (\<lambda>config.
       case lora of
         None \<Rightarrow> Inr config
       | Some entries \<Rightarrow>
           rbind (rbind (set_fields entries lora_defaults) LoRAConfig) (\<lambda>l.
             TrainingConfig (config\<lparr>tc_lora := l\<rparr>)))"

section \<open>Command line\<close>

text \<open>
  The overrides of \<open>training/train.py\<close>'s \<open>main\<close>. The rank is written into the adapter
  settings, whose own validation is not run again.
\<close>

record train_args =
  ta_model :: "string option"
  ta_output_dir :: "string option"
  ta_epochs :: "int option"
  ta_max_steps :: "int option"
  ta_batch_size :: "int option"
  ta_learning_rate :: "real option"
  ta_lora_rank :: "int option"
  ta_load_in_4bit :: bool

definition or_else :: "'a option \<Rightarrow> 'a \<Rightarrow> 'a" where
  "or_else x d = (case x of None \<Rightarrow> d | Some v \<Rightarrow> v)"

definition apply_args :: "train_args \<Rightarrow> training_config \<Rightarrow> training_config result" where
  "apply_args a c =
     (let c = c\<lparr>tc_model_name := or_else (ta_model a) (tc_model_name c),
                tc_output_dir := or_else (ta_output_dir a) (tc_output_dir c),
                tc_epochs := or_else (ta_epochs a) (tc_epochs c),
                tc_max_steps := or_else (ta_max_steps a) (tc_max_steps c),
                tc_batch_size := or_else (ta_batch_size a) (tc_batch_size c),
                tc_learning_rate := or_else (ta_learning_rate a) (tc_learning_rate c)\<rparr>;
          c = (case ta_lora_rank a of None \<Rightarrow> c
               | Some r \<Rightarrow> c\<lparr>tc_lora := (tc_lora c)\<lparr>lc_rank := r\<rparr>\<rparr>);
          c = (if ta_load_in_4bit a then c\<lparr>tc_load_in_4bit := True\<rparr> else c)
      in TrainingConfig c)"

section \<open>What a constructed configuration guarantees\<close>

definition lora_ok :: "lora_config \<Rightarrow> bool" where
  "lora_ok c \<longleftrightarrow> 0 < lc_rank c \<and> 0 < lc_alpha c \<and> 0 \<le> lc_dropout c \<and> lc_dropout c < 1
     \<and> lc_bias c \<in> set LORA_BIAS_CHOICES \<and> lc_target_modules c \<noteq> []"

definition training_ok :: "training_config \<Rightarrow> bool" where
  "training_ok c \<longleftrightarrow> 0 < tc_batch_size c \<and> 0 < tc_gradient_accumulation_steps c \<and> 0 < tc_max_seq_length c
     \<and> 0 < tc_learning_rate c \<and> (0 < tc_epochs c \<or> 0 < tc_max_steps c)
     \<and> 0 \<le> tc_warmup_ratio c \<and> tc_warmup_ratio c < 1"

lemma LoRAConfig_ok [raise_simps]: "LoRAConfig c = Inr c' \<longleftrightarrow> c' = c \<and> lora_ok c"
  by (auto simp: LoRAConfig_def lora_ok_def)

lemma TrainingConfig_ok [raise_simps]: "TrainingConfig c = Inr c' \<longleftrightarrow> c' = c \<and> training_ok c"
  by (auto simp: TrainingConfig_def training_ok_def)

text \<open>So the command line can ask for a rank the constructor refuses.\<close>

lemma command_line_rank_unchecked:
  assumes "training_ok c" "ta_model a = None" "ta_output_dir a = None" "ta_epochs a = None"
    "ta_max_steps a = None" "ta_batch_size a = None" "ta_learning_rate a = None"
    "ta_lora_rank a = Some r"
  shows "\<exists>c'. apply_args a c = Inr c' \<and> lc_rank (tc_lora c') = r"
  using assms by (auto simp: apply_args_def Let_def or_else_def raise_simps training_ok_def)

end
