(* ===== verification/Lora.thy ===== *)
theory Lora
  imports Training_Config Ops_Properties
begin

text \<open>
  \<open>training/lora.py\<close>: the reference adapter layer. A matrix is the list of its rows; the
  random initialisations and the dropout in training are parameters, and in evaluation
  dropout is the identity. Wrapping a model with the PEFT package is in \<open>Lora_Setup\<close>.
\<close>

section \<open>Linear layers\<close>

definition dot :: "real list \<Rightarrow> real list \<Rightarrow> real" where
  "dot u v = sum_list (map2 (*) u v)"

text \<open>\<open>x @ m.t()\<close>\<close>

definition apply_t :: "real list list \<Rightarrow> real list \<Rightarrow> real list" where
  "apply_t m x = map (\<lambda>row. dot row x) m"

record linear =
  ln_weight :: "real list list"
  ln_bias :: "real list option"

definition linear_forward :: "linear \<Rightarrow> real list \<Rightarrow> real list" where
  "linear_forward l x =
     (case ln_bias l of None \<Rightarrow> apply_t (ln_weight l) x | Some b \<Rightarrow> map2 (+) (apply_t (ln_weight l) x) b)"

section \<open>The adapter\<close>

record lora_layer =
  ll_in :: nat
  ll_out :: nat
  ll_rank :: nat
  ll_scaling :: real
  ll_base :: linear
  ll_a :: "real list list"
  ll_b :: "real list list"
  ll_dropout :: real

definition LoRALinear ::
  "nat \<Rightarrow> nat \<Rightarrow> int \<Rightarrow> int \<Rightarrow> real \<Rightarrow> linear \<Rightarrow> real list list \<Rightarrow> lora_layer result" where
  "LoRALinear in_features out_features rank alpha dropout base init_a =
     (if rank \<le> 0 then Inl ValueError
      else if rank > int (min in_features out_features) then Inl ValueError
      else Inr \<lparr>ll_in = in_features, ll_out = out_features, ll_rank = nat rank,
                ll_scaling = of_int alpha / of_int rank, ll_base = base, ll_a = init_a,
                ll_b = replicate out_features (replicate (nat rank) 0), ll_dropout = dropout\<rparr>)"

definition lora_forward :: "(real list \<Rightarrow> real list) \<Rightarrow> lora_layer \<Rightarrow> real list \<Rightarrow> real list" where
  "lora_forward f l x =
     (let x' = (if 0 < ll_dropout l then f x else x);
          update = apply_t (ll_b l) (apply_t (ll_a l) x')
      in map2 (\<lambda>y u. y + ll_scaling l * u) (linear_forward (ll_base l) x) update)"

text \<open>\<open>lora_b @ lora_a\<close>\<close>

definition mat_mul :: "nat \<Rightarrow> real list list \<Rightarrow> real list list \<Rightarrow> real list list" where
  "mat_mul cols b a = map (\<lambda>row. map (\<lambda>i. \<Sum>r<length row. row ! r * (a ! r ! i)) [0..<cols]) b"

definition merged_weight :: "lora_layer \<Rightarrow> real list list" where
  "merged_weight l =
     map2 (map2 (\<lambda>w u. w + ll_scaling l * u)) (ln_weight (ll_base l)) (mat_mul (ll_in l) (ll_b l) (ll_a l))"

definition lora_merge :: "lora_layer \<Rightarrow> linear" where
  "lora_merge l = \<lparr>ln_weight = merged_weight l, ln_bias = ln_bias (ll_base l)\<rparr>"

definition mat_numel :: "real list list \<Rightarrow> nat" where
  "mat_numel m = sum_list (map length m)"

definition trainable_parameters :: "lora_layer \<Rightarrow> nat" where
  "trainable_parameters l = mat_numel (ll_a l) + mat_numel (ll_b l)"

definition frozen_parameters :: "lora_layer \<Rightarrow> nat" where
  "frozen_parameters l =
     mat_numel (ln_weight (ll_base l)) + (case ln_bias (ll_base l) of None \<Rightarrow> 0 | Some b \<Rightarrow> length b)"

text \<open>The parameters of a model: size and whether it trains.\<close>

definition count_parameters :: "(nat \<times> bool) list \<Rightarrow> nat \<times> nat" where
  "count_parameters ps = (sum_list (map fst (filter snd ps)), sum_list (map fst ps))"

section \<open>Shapes\<close>

definition mat_ok :: "nat \<Rightarrow> nat \<Rightarrow> real list list \<Rightarrow> bool" where
  "mat_ok rows cols m \<longleftrightarrow> length m = rows \<and> list_all (\<lambda>r. length r = cols) m"

definition linear_ok :: "nat \<Rightarrow> nat \<Rightarrow> linear \<Rightarrow> bool" where
  "linear_ok i out l \<longleftrightarrow> mat_ok out i (ln_weight l)
     \<and> (case ln_bias l of None \<Rightarrow> True | Some b \<Rightarrow> length b = out)"

definition lora_layer_ok :: "lora_layer \<Rightarrow> bool" where
  "lora_layer_ok l \<longleftrightarrow> linear_ok (ll_in l) (ll_out l) (ll_base l)
     \<and> mat_ok (ll_rank l) (ll_in l) (ll_a l) \<and> mat_ok (ll_out l) (ll_rank l) (ll_b l)"

lemma mat_okD: "mat_ok n m a \<Longrightarrow> length a = n" "mat_ok n m a \<Longrightarrow> i < n \<Longrightarrow> length (a ! i) = m"
  by (auto simp: mat_ok_def list_all_length)

lemma dot_sum: "length u = length v \<Longrightarrow> dot u v = (\<Sum>i<length v. u ! i * v ! i)"
  by (simp add: dot_def sum_list_sum_nth atLeast0LessThan)

lemma length_apply_t [simp]: "length (apply_t m x) = length m"
  by (simp add: apply_t_def)

lemma nth_apply_t:
  assumes "mat_ok n k m" "length x = k" "j < n"
  shows "apply_t m x ! j = (\<Sum>i<k. m ! j ! i * x ! i)"
  using assms mat_okD [OF assms(1)] by (simp add: apply_t_def dot_sum)

lemma LoRALinear_layer_ok:
  assumes "LoRALinear i out rank alpha p base a = Inr l" "linear_ok i out base" "mat_ok (nat rank) i a"
  shows "lora_layer_ok l"
  using assms by (auto simp: LoRALinear_def lora_layer_ok_def mat_ok_def list_all_length split: if_splits)

lemma update_row:
  assumes "lora_layer_ok l" "length x = ll_in l" "j < ll_out l"
  shows "apply_t (ll_b l) (apply_t (ll_a l) x) ! j =
    (\<Sum>r<ll_rank l. \<Sum>i<ll_in l. ll_b l ! j ! r * (ll_a l ! r ! i) * x ! i)"
proof -
  have ok: "mat_ok (ll_rank l) (ll_in l) (ll_a l)" "mat_ok (ll_out l) (ll_rank l) (ll_b l)"
    using assms(1) by (simp_all add: lora_layer_ok_def)
  have "apply_t (ll_b l) (apply_t (ll_a l) x) ! j =
      (\<Sum>r<ll_rank l. ll_b l ! j ! r * apply_t (ll_a l) x ! r)"
    by (rule nth_apply_t [OF ok(2) _ assms(3)]) (simp add: mat_okD(1) [OF ok(1)])
  also have "\<dots> = (\<Sum>r<ll_rank l. ll_b l ! j ! r * (\<Sum>i<ll_in l. ll_a l ! r ! i * x ! i))"
    by (intro sum.cong refl) (simp add: nth_apply_t [OF ok(1) assms(2)])
  finally show ?thesis
    by (simp add: sum_distrib_left mult.assoc)
qed

lemma merged_row:
  assumes "lora_layer_ok l" "length x = ll_in l" "j < ll_out l"
  shows "apply_t (merged_weight l) x ! j =
    apply_t (ln_weight (ll_base l)) x ! j + ll_scaling l * apply_t (ll_b l) (apply_t (ll_a l) x) ! j"
proof -
  let ?w = "ln_weight (ll_base l)" and ?s = "ll_scaling l"
  have ok: "mat_ok (ll_out l) (ll_in l) ?w" "mat_ok (ll_rank l) (ll_in l) (ll_a l)"
      "mat_ok (ll_out l) (ll_rank l) (ll_b l)"
    using assms(1) by (simp_all add: lora_layer_ok_def linear_ok_def)
  have cell: "merged_weight l ! k ! i = ?w ! k ! i + ?s * (\<Sum>r<ll_rank l. ll_b l ! k ! r * (ll_a l ! r ! i))"
    if "k < ll_out l" "i < ll_in l" for k i
    using that mat_okD [OF ok(1)] mat_okD [OF ok(3)] by (simp add: merged_weight_def mat_mul_def)
  have width: "length (merged_weight l ! k) = ll_in l" if "k < ll_out l" for k
    using that mat_okD [OF ok(1)] mat_okD [OF ok(3)] by (simp add: merged_weight_def mat_mul_def)
  have "length (merged_weight l) = ll_out l"
    using mat_okD(1) [OF ok(1)] mat_okD(1) [OF ok(3)] by (simp add: merged_weight_def mat_mul_def)
  then have "mat_ok (ll_out l) (ll_in l) (merged_weight l)"
    using width by (auto simp: mat_ok_def list_all_length)
  then have "apply_t (merged_weight l) x ! j =
      (\<Sum>i<ll_in l. (?w ! j ! i + ?s * (\<Sum>r<ll_rank l. ll_b l ! j ! r * (ll_a l ! r ! i))) * x ! i)"
    using assms(2,3) cell by (simp add: nth_apply_t)
  also have "\<dots> = (\<Sum>i<ll_in l. ?w ! j ! i * x ! i)
      + ?s * (\<Sum>i<ll_in l. \<Sum>r<ll_rank l. ll_b l ! j ! r * (ll_a l ! r ! i) * x ! i)"
    by (simp add: distrib_right sum.distrib sum_distrib_left sum_distrib_right mult.assoc)
  also have "(\<Sum>i<ll_in l. \<Sum>r<ll_rank l. ll_b l ! j ! r * (ll_a l ! r ! i) * x ! i) =
      apply_t (ll_b l) (apply_t (ll_a l) x) ! j"
    unfolding update_row [OF assms] by (rule sum.swap)
  finally show ?thesis
    using nth_apply_t [OF ok(1) assms(2,3)] by simp
qed

section \<open>Properties\<close>

text \<open>
  C31: Merging is exact. The plain layer carrying the merged weight computes on every input
  what the adapted layer computes in evaluation, bias included.
\<close>

theorem merged_layer_is_the_adapted_layer:
  assumes "lora_layer_ok l" and "length x = ll_in l"
  shows "linear_forward (lora_merge l) x = lora_forward (\<lambda>v. v) l x"
proof -
  have ok: "mat_ok (ll_out l) (ll_in l) (ln_weight (ll_base l))" "mat_ok (ll_out l) (ll_rank l) (ll_b l)"
      "case ln_bias (ll_base l) of None \<Rightarrow> True | Some b \<Rightarrow> length b = ll_out l"
    using assms(1) by (simp_all add: lora_layer_ok_def linear_ok_def)
  note len = mat_okD(1) [OF ok(1)] mat_okD(1) [OF ok(2)]
  have m: "length (merged_weight l) = ll_out l"
    using len by (simp add: merged_weight_def mat_mul_def)
  show ?thesis
    using ok(3) merged_row [OF assms]
    by (intro nth_equalityI)
      (auto simp: lora_forward_def lora_merge_def linear_forward_def Let_def len m split: option.splits)
qed

text \<open>
  Training starts from the base model: a freshly constructed adapter, whatever its
  first matrix and its dropout, computes exactly what the frozen layer computes.
\<close>

theorem fresh_adapter_is_the_base_layer:
  assumes "LoRALinear i out rank alpha p base a = Inr l" and "linear_ok i out base"
    and "mat_ok (nat rank) i a" and "length x = i"
  shows "lora_forward f l x = linear_forward base x"
proof -
  have l: "ll_base l = base" "ll_b l = replicate out (replicate (nat rank) 0)" "ll_a l = a"
    using assms(1) by (auto simp: LoRALinear_def split: if_splits)
  have "dot (replicate n 0) v = 0" for n v
    by (induction n arbitrary: v; case_tac v) (simp_all add: dot_def)
  then have "apply_t (ll_b l) v = replicate out 0" for v
    by (simp add: l apply_t_def map_replicate_const)
  moreover have "length (linear_forward base x) = out"
    using assms(2) mat_okD(1) [of out i "ln_weight base"]
    by (auto simp: linear_ok_def linear_forward_def split: option.splits)
  ultimately show ?thesis
    by (intro nth_equalityI) (simp_all add: lora_forward_def Let_def l(1))
qed

text \<open>
  The adapter and the operator \<open>lora_linear\<close> of \<open>ops.py\<close>, whose matrices are transposed and
  flat: \<open>columns\<close> is the row-major data of \<open>m.t()\<close> for a matrix with so many columns.
\<close>

definition columns :: "nat \<Rightarrow> real list list \<Rightarrow> real list" where
  "columns n m = concat (map (\<lambda>i. map (\<lambda>row. row ! i) m) [0..<n])"

lemma columns_uniform: "list_all (\<lambda>b. length b = length m) (map (\<lambda>i. map (\<lambda>row. row ! i) m) [0..<n])"
  by (simp add: list_all_iff)

lemma nth_columns:
  assumes "i < n" "j < length m" shows "columns n m ! (i * length m + j) = m ! j ! i"
proof -
  have k: "i * length m + j < length m * n"
    using assms by (metis add.commute mult.commute mult_less_mono2 nat_add_left_cancel_less less_trans_Suc
        Suc_leI mult_Suc mult_le_mono1 order_less_le_trans)
  have "(i * length m + j) div length m = i" "(i * length m + j) mod length m = j"
    using assms(2) div_mult_self3 [of "length m" i j] by (cases "length m = 0", simp_all)
  then show ?thesis
    using nth_concat_uniform [OF columns_uniform, of "i * length m + j" m n] k assms
    by (simp add: columns_def)
qed

lemma vec_mat_columns:
  assumes "length v = n" shows "vec_mat v (length m) (columns n m) = map (\<lambda>row. \<Sum>i<n. v ! i * row ! i) m"
  by (rule nth_equalityI) (simp_all add: vec_mat_def assms nth_columns)

lemma vec_mat_apply_t:
  assumes "mat_ok k n m" "length v = n"
  shows "vec_mat v k (columns n m) = apply_t m v"
proof -
  have "(\<Sum>i<n. v ! i * row ! i) = dot row v" if "row \<in> set m" for row
    using assms that by (simp add: mat_ok_def list_all_iff dot_sum mult.commute)
  then show ?thesis
    using vec_mat_columns [OF assms(2), of m] mat_okD(1) [OF assms(1)] by (simp add: apply_t_def)
qed

definition vector_tensor :: "real list \<Rightarrow> tensor" where
  "vector_tensor x = \<lparr>tn_shape = [1, length x], tn_data = x, tn_dtype = Float32,
     tn_requires_grad = False, tn_is_cuda = False\<rparr>"

definition transposed :: "nat \<Rightarrow> real list list \<Rightarrow> tensor" where
  "transposed n m = \<lparr>tn_shape = [n, length m], tn_data = columns n m, tn_dtype = Float32,
     tn_requires_grad = False, tn_is_cuda = False\<rparr>"

text \<open>
  The layer and the operator are the same function. On the reference path the operator
  \<open>lora_linear\<close>, given the layer's transposed matrices and its scaling, accepts every
  non-empty input of the right width and returns what a layer without bias computes.
\<close>

theorem adapter_agrees_with_operator:
  assumes "lora_layer_ok l" and "ln_bias (ll_base l) = None" and "\<not> extension_loaded be"
    and "length x = ll_in l" and "0 < ll_in l"
  shows "\<exists>y. lora_linear be (vector_tensor x) (transposed (ll_in l) (ln_weight (ll_base l)))
      (transposed (ll_in l) (ll_a l)) (transposed (ll_rank l) (ll_b l)) (ll_scaling l) = Inr y
    \<and> tn_shape y = [1, ll_out l] \<and> tn_data y = lora_forward (\<lambda>v. v) l x"
proof -
  have ok: "mat_ok (ll_out l) (ll_in l) (ln_weight (ll_base l))" "mat_ok (ll_rank l) (ll_in l) (ll_a l)"
      "mat_ok (ll_out l) (ll_rank l) (ll_b l)"
    using assms(1) by (simp_all add: lora_layer_ok_def linear_ok_def)
  note len = mat_okD(1) [OF ok(1)] mat_okD(1) [OF ok(2)] mat_okD(1) [OF ok(3)]
  have row: "chunks (ll_in l) x = [x]"
    using chunks_append_block [OF assms(4,5), of "[]"] by simp
  have "lora_row (ll_rank l) (ll_out l) (columns (ll_in l) (ln_weight (ll_base l))) (columns (ll_in l) (ll_a l))
      (columns (ll_rank l) (ll_b l)) (ll_scaling l) x = lora_forward (\<lambda>v. v) l x"
    by (simp add: lora_row_def vec_mat_apply_t [OF ok(1) assms(4)] vec_mat_apply_t [OF ok(2) assms(4)]
        vec_mat_apply_t [OF ok(3)] len lora_forward_def Let_def linear_forward_def assms(2))
  then show ?thesis
    using assms(3,4) row
    by (simp add: lora_linear_def last_dim_def dim_at_def ndim_def vector_tensor_def transposed_def len
        dispatch_available_def lora_linear_reference_def on_rows_def Let_def)
qed

section \<open>Witnesses\<close>

definition ex_base :: linear where
  "ex_base = \<lparr>ln_weight = [[1, 2], [3, 4]], ln_bias = None\<rparr>"

definition ex_layer :: lora_layer where
  "ex_layer = \<lparr>ll_in = 2, ll_out = 2, ll_rank = 1, ll_scaling = 2, ll_base = ex_base,
     ll_a = [[1, - 1]], ll_b = [[1], [3]], ll_dropout = 0\<rparr>"

lemma ex_layer_ok: "lora_layer_ok ex_layer"
  by (simp add: ex_layer_def ex_base_def lora_layer_ok_def linear_ok_def mat_ok_def)

theorem merged_layer_is_the_adapted_layer_witness:
  "linear_forward (lora_merge ex_layer) [1, 5] = lora_forward (\<lambda>v. v) ex_layer [1, 5]
    \<and> lora_forward (\<lambda>v. v) ex_layer [1, 5] = [3, - 1]"
  using merged_layer_is_the_adapted_layer [OF ex_layer_ok, of "[1, 5]"]
  by (simp add: ex_layer_def lora_forward_def linear_forward_def ex_base_def apply_t_def dot_def)

theorem fresh_adapter_is_the_base_layer_witness:
  "\<exists>l. LoRALinear 2 2 1 16 (1 / 10) ex_base [[7, 9]] = Inr l
    \<and> lora_forward (map (\<lambda>v. v + 1)) l [1, 5] = [11, 23]"
proof -
  obtain l where l: "LoRALinear 2 2 1 16 (1 / 10) ex_base [[7, 9]] = Inr l"
    by (simp add: LoRALinear_def)
  have "lora_forward (map (\<lambda>v. v + 1)) l [1, 5] = linear_forward ex_base [1, 5]"
    by (rule fresh_adapter_is_the_base_layer [OF l]) (simp_all add: ex_base_def linear_ok_def mat_ok_def)
  with l show ?thesis
    by (simp add: linear_forward_def ex_base_def apply_t_def dot_def)
qed

theorem adapter_agrees_with_operator_witness:
  "\<exists>y. lora_linear (sample_backend NotBuilt) (vector_tensor [1, 5]) (transposed 2 [[1, 2], [3, 4]])
      (transposed 2 [[1, - 1]]) (transposed 1 [[1], [3]]) 2 = Inr y \<and> tn_data y = [3, - 1]"
proof -
  have "ln_bias (ll_base ex_layer) = None" "length [1, 5 :: real] = ll_in ex_layer" "0 < ll_in ex_layer"
    by (simp_all add: ex_layer_def ex_base_def)
  from adapter_agrees_with_operator [OF ex_layer_ok this(1) sample_has_no_extension this(2,3)]
  show ?thesis
    by (auto simp: ex_layer_def lora_forward_def linear_forward_def ex_base_def apply_t_def dot_def)
qed

end
