(* ===== verification/Training_Data.thy ===== *)
theory Training_Data
  imports Training_Config Py_Text Ops_Properties
begin

text \<open>
  \<open>training/dataset.py\<close> and \<open>training/evaluation.py\<close>: packing a corpus into blocks of equal
  length, and the token-weighted loss over batches. Tokenizer, corpus loader and model are
  parameters. A tensor of token ids is a list.
\<close>

section \<open>Datasets\<close>

record packed_example =
  px_input_ids :: "int list"
  px_attention_mask :: "int list"
  px_labels :: "int list"

definition PackedCausalDataset :: "int list list \<Rightarrow> int list list result" where
  "PackedCausalDataset blocks = (if blocks = [] then Inl ValueError else Inr blocks)"

definition dataset_item :: "int list list \<Rightarrow> int \<Rightarrow> packed_example result" where
  "dataset_item blocks index =
     rbind (py_index blocks index) (\<lambda>block.
       Inr \<lparr>px_input_ids = block, px_attention_mask = map (\<lambda>_. 1) block, px_labels = block\<rparr>)"

definition pack_token_stream :: "int list \<Rightarrow> int \<Rightarrow> int list list result" where
  "pack_token_stream tokens block_size =
     (if block_size \<le> 0 then Inl ValueError
      else let usable = (int (length tokens) div block_size) * block_size in
        if usable = 0 then Inr []
        else Inr (chunks (nat block_size) (take (nat usable) tokens)))"

text \<open>\<open>not text or not text.strip()\<close>\<close>

definition blank :: "string \<Rightarrow> bool" where
  "blank text \<longleftrightarrow> list_all is_space text"

record tokenizer =
  tk_encode :: "(string \<Rightarrow> int list) option"
  tk_eos :: "int option"

fun token_stream :: "(string \<Rightarrow> int list) \<Rightarrow> int option \<Rightarrow> string list \<Rightarrow> int list" where
  "token_stream encode eos [] = []"
| "token_stream encode eos (text # texts) =
     (if blank text then token_stream encode eos texts
      else encode text @ (case eos of None \<Rightarrow> [] | Some t \<Rightarrow> [t]) @ token_stream encode eos texts)"

definition build_dataset :: "string list \<Rightarrow> tokenizer \<Rightarrow> int \<Rightarrow> int option \<Rightarrow> int list list result" where
  "build_dataset texts tok block_size eos =
     (case tk_encode tok of
        None \<Rightarrow> Inl TypeError
      | Some encode \<Rightarrow>
          let eos = (case eos of None \<Rightarrow> tk_eos tok | Some t \<Rightarrow> Some t) in
          rbind (pack_token_stream (token_stream encode eos texts) block_size) PackedCausalDataset)"

text \<open>A loaded dataset: its columns and the strings of a column.\<close>

definition load_texts ::
  "(string \<Rightarrow> string option \<Rightarrow> string \<Rightarrow> string list \<times> (string \<Rightarrow> string list))
     \<Rightarrow> string option \<Rightarrow> string option \<Rightarrow> string \<Rightarrow> string \<Rightarrow> string list \<Rightarrow> string list result" where
  "load_texts load_dataset name config split text_field inline_texts =
     (case name of
        None \<Rightarrow> if inline_texts = [] then Inl ValueError else Inr inline_texts
      | Some n \<Rightarrow>
          let (columns, column) = load_dataset n config split in
          if text_field \<notin> set columns then Inl KeyError
          else Inr (filter (\<lambda>row. row \<noteq> []) (column text_field)))"

lemma packed_stream:
  assumes "tk_encode tok = Some encode" and "0 < n"
    and stream_def: "stream = concat (map (\<lambda>t. encode t @ (case tk_eos tok of None \<Rightarrow> [] | Some e \<Rightarrow> [e]))
      (filter (\<lambda>t. \<not> blank t) texts))"
  shows "if length stream < n then build_dataset texts tok (int n) None = Inl ValueError
    else \<exists>blocks rest. build_dataset texts tok (int n) None = Inr blocks \<and> list_all (\<lambda>b. length b = n) blocks
      \<and> stream = concat blocks @ rest \<and> length rest < n"
proof -
  have stream: "token_stream encode (tk_eos tok) texts = stream"
    unfolding stream_def by (induction texts) simp_all
  let ?u = "length stream div n * n"
  have usable: "int (length stream) div int n * int n = int ?u"
    by (simp add: zdiv_int)
  have "pack_token_stream stream (int n) = Inr (if ?u = 0 then [] else chunks n (take ?u stream))"
    unfolding pack_token_stream_def Let_def usable using assms(2) by (simp del: of_nat_mult of_nat_div)
  then have build: "build_dataset texts tok (int n) None =
      (if ?u = 0 then Inl ValueError else PackedCausalDataset (chunks n (take ?u stream)))"
    by (simp add: build_dataset_def assms(1) stream PackedCausalDataset_def)
  show ?thesis
  proof (cases "length stream < n")
    case True
    with build show ?thesis by simp
  next
    case False
    then have pos: "0 < ?u"
      using assms(2) by (simp add: div_greater_zero_iff)
    have le: "?u \<le> length stream"
      by simp
    let ?bs = "chunks n (take ?u stream)"
    have cat: "concat ?bs = take ?u stream"
      using assms(2) by simp
    have "take ?u stream \<noteq> []"
      using pos le by (metis length_0_conv length_take less_irrefl min.absorb2)
    then have "?bs \<noteq> []"
      using cat by (metis concat.simps(1))
    moreover have "list_all (\<lambda>b. length b = n) ?bs"
      using le assms(2) by (intro chunks_lengths) (simp_all add: min.absorb2)
    moreover have "stream = concat ?bs @ drop ?u stream"
      using cat by simp
    moreover have "length (drop ?u stream) < n"
      using assms(2) by (simp add: minus_div_mult_eq_mod)
    ultimately show ?thesis
      unfolding if_not_P [OF False] using build pos
      by (intro exI [of _ ?bs] exI [of _ "drop ?u stream"] conjI) (simp_all add: PackedCausalDataset_def)
  qed
qed

text \<open>
  C30: Packing loses nothing but the tail. The dataset is refused exactly when the documents,
  each followed by its end marker, fill no block; otherwise its blocks all have the asked
  length and, one after the other, are the stream up to a remainder shorter than a block.
\<close>

theorem packing_loses_only_the_tail:
  assumes "tk_encode tok = Some encode" and "0 < n"
    and stream_def: "stream = concat (map (\<lambda>t. encode t @ (case tk_eos tok of None \<Rightarrow> [] | Some e \<Rightarrow> [e]))
      (filter (\<lambda>t. \<not> blank t) texts))"
  shows "if length stream < n then build_dataset texts tok (int n) None = Inl ValueError
    else \<exists>blocks rest. build_dataset texts tok (int n) None = Inr blocks \<and> list_all (\<lambda>b. length b = n) blocks
      \<and> stream = concat blocks @ rest \<and> length rest < n"
  by (rule packed_stream [OF assms])

section \<open>Evaluation\<close>

text \<open>The values of a Python float that matter here.\<close>

datatype py_float = Finite real | Infinity | NaN

record eval_result =
  ev_loss :: py_float
  ev_perplexity :: py_float
  ev_tokens :: int
  ev_batches :: nat

definition perplexity_from_loss :: "real \<Rightarrow> py_float" where
  "perplexity_from_loss loss = (if loss < 700 then Finite (exp loss) else Infinity)"

text \<open>What the loop reads of a batch: the model's loss, the sum of the mask, the number of rows.\<close>

record 'b eval_model =
  em_loss :: "'b \<Rightarrow> real"
  em_mask_sum :: "'b \<Rightarrow> int"
  em_rows :: "'b \<Rightarrow> int"

definition batch_tokens :: "'b eval_model \<Rightarrow> 'b \<Rightarrow> int" where
  "batch_tokens em b = max (em_mask_sum em b - em_rows em b) 1"

fun eval_loop :: "'b eval_model \<Rightarrow> 'b list \<Rightarrow> real \<Rightarrow> int \<Rightarrow> nat \<Rightarrow> real \<times> int \<times> nat" where
  "eval_loop em [] total_loss total_tokens batches = (total_loss, total_tokens, batches)"
| "eval_loop em (b # bs) total_loss total_tokens batches =
     eval_loop em bs (total_loss + em_loss em b * of_int (batch_tokens em b))
       (total_tokens + batch_tokens em b) (Suc batches)"

definition evaluate :: "'b eval_model \<Rightarrow> 'b list \<Rightarrow> nat option \<Rightarrow> eval_result" where
  "evaluate em loader max_batches =
     (let (total_loss, total_tokens, batches) =
            eval_loop em (case max_batches of None \<Rightarrow> loader | Some m \<Rightarrow> take m loader) 0 0 0
      in if total_tokens = 0 then \<lparr>ev_loss = NaN, ev_perplexity = NaN, ev_tokens = 0, ev_batches = 0\<rparr>
         else let mean_loss = total_loss / of_int total_tokens in
           \<lparr>ev_loss = Finite mean_loss,
            ev_perplexity = (if mean_loss < 700 then Finite (exp mean_loss) else Infinity),
            ev_tokens = total_tokens, ev_batches = batches\<rparr>)"

definition mean :: "real list \<Rightarrow> real" where
  "mean xs = sum_list xs / real (length xs)"

lemma eval_loop_sums:
  assumes "\<forall>b \<in> set bs. losses b \<noteq> [] \<and> em_mask_sum em b - em_rows em b = int (length (losses b))
      \<and> em_loss em b = mean (losses b)"
  shows "eval_loop em bs l t n =
    (l + sum_list (concat (map losses bs)), t + int (length (concat (map losses bs))), n + length bs)"
  using assms
proof (induction bs arbitrary: l t n)
  case (Cons b bs)
  have b: "losses b \<noteq> []" "em_mask_sum em b - em_rows em b = int (length (losses b))"
      "em_loss em b = mean (losses b)"
    using Cons.prems by simp_all
  have "1 \<le> int (length (losses b))"
    using b(1) by (cases "losses b") simp_all
  then have tok: "batch_tokens em b = int (length (losses b))"
    unfolding batch_tokens_def b(2) by simp
  have "em_loss em b * of_int (batch_tokens em b) = sum_list (losses b)"
    using b(1) by (simp add: tok b(3) mean_def)
  with Cons.IH [of "l + em_loss em b * of_int (batch_tokens em b)" "t + batch_tokens em b" "Suc n"] Cons.prems
  show ?case
    by (simp add: tok)
qed simp

text \<open>
  The evaluation is the mean over tokens, however they are batched. If each batch's loss
  is the mean of its own token losses and its mask counts them, the reported loss and
  perplexity are those of the mean of all token losses, so batch sizes have no influence.
\<close>

theorem evaluation_is_token_mean:
  assumes "\<forall>b \<in> set loader. losses b \<noteq> []
      \<and> em_mask_sum em b - em_rows em b = int (length (losses b)) \<and> em_loss em b = mean (losses b)"
    and "concat (map losses loader) = tokens" "tokens \<noteq> []"
  shows "evaluate em loader None =
    \<lparr>ev_loss = Finite (mean tokens), ev_perplexity = perplexity_from_loss (mean tokens),
     ev_tokens = int (length tokens), ev_batches = length loader\<rparr>"
proof -
  have "eval_loop em loader 0 0 0 = (sum_list tokens, int (length tokens), length loader)"
    using eval_loop_sums [OF assms(1), of 0 0 0] by (simp add: assms(2) [symmetric])
  then show ?thesis
    using assms(3) by (simp add: evaluate_def mean_def perplexity_from_loss_def Let_def)
qed

section \<open>Witnesses\<close>

definition ex_tokenizer :: tokenizer where
  "ex_tokenizer = \<lparr>tk_encode = Some (map (\<lambda>c. of_char c)), tk_eos = Some 0\<rparr>"

theorem packing_loses_only_the_tail_witness:
  "\<exists>blocks. build_dataset [''ab'', '' '', ''c''] ex_tokenizer 2 None = Inr blocks \<and> list_all (\<lambda>b. length b = 2) blocks"
proof -
  have "tk_encode ex_tokenizer = Some (map (\<lambda>c. of_char c))"
    by (simp add: ex_tokenizer_def)
  from packing_loses_only_the_tail [OF this _ refl, of 2 "[''ab'', '' '', ''c'']"]
  show ?thesis
    by (auto simp: ex_tokenizer_def blank_def is_space_def Let_def)
qed

definition ex_eval :: "real list eval_model" where
  "ex_eval = \<lparr>em_loss = mean, em_mask_sum = (\<lambda>b. int (length b) + 1), em_rows = (\<lambda>_. 1)\<rparr>"

theorem evaluation_is_token_mean_witness:
  "ev_loss (evaluate ex_eval [[1, 2, 6], [7]] None) = Finite 4"
proof -
  have "evaluate ex_eval [[1, 2, 6], [7]] None =
    \<lparr>ev_loss = Finite (mean [1, 2, 6, 7]), ev_perplexity = perplexity_from_loss (mean [1, 2, 6, 7]),
     ev_tokens = int (length [1, 2, 6, 7 :: real]), ev_batches = length [[1, 2, 6], [7 :: real]]\<rparr>"
    by (rule evaluation_is_token_mean [where losses = "\<lambda>b. b"]) (simp_all add: ex_eval_def)
  then show ?thesis
    by (simp add: mean_def)
qed

end
