(* ===== verification/Training.thy ===== *)
theory Training
  imports Training_Data
begin

text \<open>
  \<open>training/train.py\<close>: the fine-tuning loop. The model with its optimiser is a state \<open>'w\<close>
  and a gradient is a vector \<open>'v\<close>; what PyTorch computes on them (loss, gradient, clipping,
  the optimiser's update, the learning-rate schedule, the loss scale) is the record
  \<open>trainer\<close>. Gradients are real vectors, so a scaled step is never skipped for an infinity.
  Files, log lines and seeds are not modelled; a checkpoint is its metadata.
\<close>

section \<open>Parameters\<close>

record ('w, 'v, 'b) trainer =
  tr_loss :: "'w \<Rightarrow> 'b \<Rightarrow> real"
  tr_grad :: "'w \<Rightarrow> 'b \<Rightarrow> 'v"
  tr_clip :: "'v \<Rightarrow> 'v"
  tr_update :: "real \<Rightarrow> 'v \<Rightarrow> 'w \<Rightarrow> 'w"                 \<comment> \<open>under a learning rate\<close>
  tr_schedule :: "int \<Rightarrow> real \<Rightarrow> nat \<Rightarrow> real result"    \<comment> \<open>total steps, warm-up share, steps done\<close>
  tr_scale :: "nat \<Rightarrow> real"                          \<comment> \<open>the scaler's factor before each update\<close>
  tr_numel :: "'b \<Rightarrow> nat"
  tr_eval :: "'w \<Rightarrow> 'b eval_model"

record torch_flags =
  tf_cuda :: bool
  tf_mps :: bool
  tf_bf16 :: bool

definition training_device :: "torch_flags \<Rightarrow> string" where
  "training_device tf = (if tf_cuda tf then ''cuda'' else if tf_mps tf then ''mps'' else ''cpu'')"

definition use_amp :: "torch_flags \<Rightarrow> training_config \<Rightarrow> bool" where
  "use_amp tf c \<longleftrightarrow> tc_mixed_precision c \<and> training_device tf = ''cuda''"

definition use_fp16 :: "torch_flags \<Rightarrow> training_config \<Rightarrow> bool" where
  "use_fp16 tf c \<longleftrightarrow> use_amp tf c \<and> \<not> tf_bf16 tf"

definition loss_scale :: "torch_flags \<Rightarrow> training_config \<Rightarrow> ('w, 'v, 'b) trainer \<Rightarrow> nat \<Rightarrow> real" where
  "loss_scale tf c tr n = (if use_fp16 tf c then tr_scale tr n else 1)"

section \<open>Setting up\<close>

text \<open>\<open>build_model\<close>: loading and wrapping are parameters.\<close>

definition build_model ::
  "torch_flags \<Rightarrow> training_config \<Rightarrow> 't result \<Rightarrow> (bool \<Rightarrow> 'm result) \<Rightarrow> ('m \<Rightarrow> 'm)
     \<Rightarrow> ('m \<Rightarrow> lora_config \<Rightarrow> 'm result) \<Rightarrow> ('m \<times> 't) result" where
  "build_model tf c load_tokenizer load checkpointing attach =
     rbind load_tokenizer (\<lambda>tok.
       if tc_load_in_4bit c \<and> \<not> tf_cuda tf then Inl RuntimeError
       else rbind (load (tc_load_in_4bit c)) (\<lambda>m.
         rbind (attach (if tc_gradient_checkpointing c then checkpointing m else m) (tc_lora c)) (\<lambda>m.
           Inr (m, tok))))"

definition train_setup ::
  "('m \<times> 't) result \<Rightarrow> ('t \<Rightarrow> 'l result) \<Rightarrow> ('m \<Rightarrow> bool) \<Rightarrow> 'm option \<Rightarrow> 'l option \<Rightarrow> ('m \<times> 'l) result" where
  "train_setup build build_loader has_trainable model loader =
     rbind (case model of
              None \<Rightarrow> rbind build (\<lambda>(m, tok). Inr (m, Some tok))
            | Some m \<Rightarrow> Inr (m, None)) (\<lambda>(m, tok).
     rbind (case loader of
              Some l \<Rightarrow> Inr l
            | None \<Rightarrow> (case tok of None \<Rightarrow> Inl ValueError | Some t \<Rightarrow> build_loader t)) (\<lambda>l.
       if has_trainable m then Inr (m, l) else Inl RuntimeError))"

definition steps_per_epoch :: "training_config \<Rightarrow> nat \<Rightarrow> int" where
  "steps_per_epoch c len = max (int len div tc_gradient_accumulation_steps c) 1"

definition total_steps :: "training_config \<Rightarrow> nat \<Rightarrow> int" where
  "total_steps c len =
     (if 0 < tc_max_steps c then tc_max_steps c else steps_per_epoch c len * tc_epochs c)"

definition pct_start :: "training_config \<Rightarrow> nat \<Rightarrow> real" where
  "pct_start c len =
     (let total = total_steps c len; warmup = \<lfloor>of_int total * tc_warmup_ratio c\<rfloor>
      in max (of_int warmup / of_int (max total 1)) (1 / 100))"

section \<open>The loop\<close>

record checkpoint =
  ck_name :: string
  ck_step :: nat
  ck_epoch :: nat
  ck_tokens_seen :: nat
  ck_best_loss :: "real option"
  ck_eval_loss :: "py_float option"

record ('w, 'v) train_state =
  ts_step :: nat
  ts_epoch :: nat
  ts_tokens_seen :: nat
  ts_best_loss :: "real option"      \<comment> \<open>\<open>None\<close> is infinity\<close>
  ts_params :: 'w
  ts_grad :: 'v
  ts_accumulated :: nat
  ts_lr :: real
  ts_saved :: "checkpoint list"

definition save_checkpoint ::
  "string \<Rightarrow> py_float option \<Rightarrow> ('w, 'v) train_state \<Rightarrow> ('w, 'v) train_state" where
  "save_checkpoint name evaluation st =
     st\<lparr>ts_saved := ts_saved st @
       [\<lparr>ck_name = name, ck_step = ts_step st, ck_epoch = ts_epoch st,
         ck_tokens_seen = ts_tokens_seen st, ck_best_loss = ts_best_loss st,
         ck_eval_loss = evaluation\<rparr>]\<rparr>"

definition min_loss :: "real option \<Rightarrow> real \<Rightarrow> real option" where
  "min_loss best v = (case best of None \<Rightarrow> Some v | Some b \<Rightarrow> Some (min b v))"

text \<open>One micro-batch, up to the test of \<open>accumulated\<close>.\<close>

definition accumulate ::
  "torch_flags \<Rightarrow> training_config \<Rightarrow> ('w, 'v::real_vector, 'b) trainer \<Rightarrow> 'b
     \<Rightarrow> ('w, 'v) train_state \<Rightarrow> ('w, 'v) train_state" where
  "accumulate tf c tr b st =
     st\<lparr>ts_grad := ts_grad st + loss_scale tf c tr (ts_step st) *\<^sub>R
          ((1 / of_int (tc_gradient_accumulation_steps c)) *\<^sub>R tr_grad tr (ts_params st) b),
        ts_accumulated := Suc (ts_accumulated st),
        ts_tokens_seen := ts_tokens_seen st + tr_numel tr b\<rparr>"

text \<open>
  The rest of the body when a group is full; the micro-batch's own loss was computed with
  the parameters before the update. \<open>scheduler.step\<close> can raise.
\<close>

definition optimizer_step ::
  "torch_flags \<Rightarrow> training_config \<Rightarrow> nat \<Rightarrow> ('w, 'v::real_vector, 'b) trainer \<Rightarrow> 'b
     \<Rightarrow> ('w, 'v) train_state \<Rightarrow> ('w, 'v) train_state result" where
  "optimizer_step tf c len tr b st =
     (let k = of_int (tc_gradient_accumulation_steps c);
          unscaled = (1 / loss_scale tf c tr (ts_step st)) *\<^sub>R ts_grad st;
          params = tr_update tr (ts_lr st) (tr_clip tr unscaled) (ts_params st)
      in rbind (tr_schedule tr (max (total_steps c len) 1) (pct_start c len) (Suc (ts_step st))) (\<lambda>lr.
           let step_loss = tr_loss tr (ts_params st) b / k * k;
               st = st\<lparr>ts_params := params, ts_grad := 0, ts_lr := lr, ts_accumulated := 0,
                       ts_step := Suc (ts_step st), ts_best_loss := min_loss (ts_best_loss st) step_loss\<rparr>
           in Inr (if tc_save_steps c \<noteq> 0 \<and> int (ts_step st) mod tc_save_steps c = 0
                   then save_checkpoint (''step-'' @ str_int (int (ts_step st))) None st else st)))"

definition enough_steps :: "training_config \<Rightarrow> ('w, 'v) train_state \<Rightarrow> bool" where
  "enough_steps c st \<longleftrightarrow> 0 < tc_max_steps c \<and> tc_max_steps c \<le> int (ts_step st)"

text \<open>The loop over one pass of the loader; the flag says that it was left by \<open>break\<close>.\<close>

fun train_batches ::
  "torch_flags \<Rightarrow> training_config \<Rightarrow> nat \<Rightarrow> ('w, 'v::real_vector, 'b) trainer \<Rightarrow> 'b list
     \<Rightarrow> ('w, 'v) train_state \<Rightarrow> (bool \<times> ('w, 'v) train_state) result" where
  "train_batches tf c len tr [] st = Inr (False, st)"
| "train_batches tf c len tr (b # bs) st =
     (let st = accumulate tf c tr b st in
      if int (ts_accumulated st) < tc_gradient_accumulation_steps c then train_batches tf c len tr bs st
      else rbind (optimizer_step tf c len tr b st) (\<lambda>st.
        if enough_steps c st then Inr (True, st) else train_batches tf c len tr bs st))"

fun train_epochs ::
  "torch_flags \<Rightarrow> training_config \<Rightarrow> nat \<Rightarrow> ('w, 'v::real_vector, 'b) trainer \<Rightarrow> (nat \<times> 'b list) list
     \<Rightarrow> ('w, 'v) train_state \<Rightarrow> ('w, 'v) train_state result" where
  "train_epochs tf c len tr [] st = Inr st"
| "train_epochs tf c len tr ((epoch, bs) # rest) st =
     rbind (train_batches tf c len tr bs (st\<lparr>ts_epoch := epoch\<rparr>)) (\<lambda>(_, st).
       if enough_steps c st then Inr st else train_epochs tf c len tr rest st)"

text \<open>
  \<open>train\<close> with model and loader in hand: \<open>epochs e\<close> are the batches of the \<open>e\<close>-th pass over
  the loader, \<open>len\<close> its length, \<open>final\<close> the batches of the pass made by the evaluation.
\<close>

definition train ::
  "torch_flags \<Rightarrow> training_config \<Rightarrow> ('w, 'v::real_vector, 'b) trainer \<Rightarrow> nat \<Rightarrow> (nat \<Rightarrow> 'b list) \<Rightarrow> 'b list
     \<Rightarrow> 'w \<Rightarrow> ('w, 'v) train_state result" where
  "train tf c tr len epochs final params =
     rbind (tr_schedule tr (max (total_steps c len) 1) (pct_start c len) 0) (\<lambda>lr.
     rbind (train_epochs tf c len tr (map (\<lambda>e. (e, epochs e)) [0..<nat (tc_epochs c)])
        \<lparr>ts_step = 0, ts_epoch = 0, ts_tokens_seen = 0, ts_best_loss = None, ts_params = params,
         ts_grad = 0, ts_accumulated = 0, ts_lr = lr, ts_saved = []\<rparr>) (\<lambda>st.
       let result = evaluate (tr_eval tr (ts_params st)) final (Some 8)
       in Inr (save_checkpoint ''final'' (Some (ev_loss result)) st)))"

end
