(* ===== verification/Training_Properties.thy ===== *)
theory Training_Properties
  imports Training
begin

text \<open>
  The training loop against its specification: gradient accumulation is training on large
  batches, over the concatenation of all epochs, and the run fails exactly when that makes
  more steps than the learning-rate schedule was made for.
\<close>

section \<open>The reference\<close>

text \<open>Training on groups of micro-batches, the gradient of a group being their mean.\<close>

fun large_steps :: "('w, 'v::real_vector, 'b) trainer \<Rightarrow> (nat \<Rightarrow> real) \<Rightarrow> nat \<Rightarrow> 'b list list \<Rightarrow> 'w \<Rightarrow> 'w" where
  "large_steps tr lr n [] w = w"
| "large_steps tr lr n (g # gs) w =
     large_steps tr lr (Suc n) gs
       (tr_update tr (lr n) (tr_clip tr ((1 / real (length g)) *\<^sub>R sum_list (map (tr_grad tr w) g))) w)"

text \<open>The schedule's documented behaviour: it has a rate for each of its steps and refuses any other.\<close>

definition schedule_ok :: "('w, 'v, 'b) trainer \<Rightarrow> (nat \<Rightarrow> real) \<Rightarrow> int \<Rightarrow> real \<Rightarrow> bool" where
  "schedule_ok tr lr steps pct \<longleftrightarrow>
     (\<forall>n. tr_schedule tr steps pct n = (if int n \<le> steps then Inr (lr n) else Inl ValueError))"

section \<open>Epochs and the stream\<close>

text \<open>The epoch number and the checkpoints do not influence the training.\<close>

definition forget :: "('w, 'v) train_state \<Rightarrow> ('w, 'v) train_state" where
  "forget st = st\<lparr>ts_epoch := 0, ts_saved := []\<rparr>"

abbreviation forget_result :: "(bool \<times> ('w, 'v) train_state) result \<Rightarrow> (bool \<times> ('w, 'v) train_state) result" where
  "forget_result r \<equiv> rbind r (\<lambda>(stop, st). Inr (stop, forget st))"

lemma forget_simps [simp]:
  "ts_step (forget st) = ts_step st" "ts_grad (forget st) = ts_grad st"
  "ts_params (forget st) = ts_params st" "ts_accumulated (forget st) = ts_accumulated st"
  "ts_lr (forget st) = ts_lr st" "ts_tokens_seen (forget st) = ts_tokens_seen st"
  "ts_best_loss (forget st) = ts_best_loss st" "forget (forget st) = forget st"
  "forget (st\<lparr>ts_epoch := e\<rparr>) = forget st" "enough_steps c (forget st) = enough_steps c st"
  "forget (save_checkpoint n v st) = forget st"
  by (simp_all add: forget_def enough_steps_def save_checkpoint_def)

lemma accumulate_forget: "forget (accumulate tf c tr b st) = accumulate tf c tr b (forget st)"
  by (simp add: accumulate_def forget_def)

lemma optimizer_step_forget:
  "rbind (optimizer_step tf c len tr b st) (\<lambda>st. Inr (forget st)) =
   rbind (optimizer_step tf c len tr b (forget st)) (\<lambda>st. Inr (forget st))"
  by (cases "tr_schedule tr (max (total_steps c len) 1) (pct_start c len) (Suc (ts_step st))")
    (simp_all add: optimizer_step_def Let_def save_checkpoint_def forget_def)

lemma train_batches_forget:
  "forget_result (train_batches tf c len tr bs st) = forget_result (train_batches tf c len tr bs (forget st))"
proof (induction bs arbitrary: st)
  case (Cons b bs)
  let ?st = "accumulate tf c tr b st"
  have opt: "optimizer_step tf c len tr b ?st = Inl e \<Longrightarrow> optimizer_step tf c len tr b (forget ?st) = Inl e"
      "optimizer_step tf c len tr b ?st = Inr s \<Longrightarrow>
        \<exists>s'. optimizer_step tf c len tr b (forget ?st) = Inr s' \<and> forget s' = forget s" for e s
    using optimizer_step_forget [of tf c len tr b ?st]
    by (cases "optimizer_step tf c len tr b (forget ?st)"; simp)+
  show ?case
  proof (cases "int (ts_accumulated ?st) < tc_gradient_accumulation_steps c")
    case True
    then show ?thesis
      using Cons.IH [of ?st] by (simp add: Let_def accumulate_forget [symmetric])
  next
    case False
    show ?thesis
    proof (cases "optimizer_step tf c len tr b ?st")
      case (Inl e)
      with False opt(1) show ?thesis
        by (simp add: Let_def accumulate_forget [symmetric])
    next
      case (Inr s)
      obtain s' where s': "optimizer_step tf c len tr b (forget ?st) = Inr s'" "forget s' = forget s"
        using opt(2) [OF Inr] by blast
      have "enough_steps c s' = enough_steps c s"
        by (metis forget_simps(10) s'(2))
      moreover have "forget_result (train_batches tf c len tr bs s) = forget_result (train_batches tf c len tr bs s')"
        using Cons.IH [of s] Cons.IH [of s'] s'(2) by simp
      ultimately show ?thesis
        using False Inr s' by (simp add: Let_def accumulate_forget [symmetric])
    qed
  qed
qed simp

lemma train_batches_append:
  "train_batches tf c len tr (xs @ ys) st =
     rbind (train_batches tf c len tr xs st) (\<lambda>(stop, st').
       if stop then Inr (True, st') else train_batches tf c len tr ys st')"
proof (induction xs arbitrary: st)
  case (Cons b xs)
  show ?case
    by (cases "optimizer_step tf c len tr b (accumulate tf c tr b st)") (simp_all add: Let_def Cons.IH)
qed simp

text \<open>A pass is left by \<open>break\<close> exactly when enough steps were made in it.\<close>

lemma train_batches_stop:
  "train_batches tf c len tr bs st = Inr (stop, st') \<Longrightarrow> \<not> enough_steps c st \<Longrightarrow> stop = enough_steps c st'"
proof (induction bs arbitrary: st)
  case (Cons b bs)
  let ?st = "accumulate tf c tr b st"
  have "\<not> enough_steps c ?st"
    using Cons.prems(2) by (simp add: enough_steps_def accumulate_def)
  with Cons show ?case
    by (cases "optimizer_step tf c len tr b ?st") (auto simp: Let_def split: if_splits)
qed simp

lemma train_epochs_stream:
  "\<not> enough_steps c st \<Longrightarrow>
     rbind (train_epochs tf c len tr es st) (\<lambda>st. Inr (forget st)) =
     rbind (train_batches tf c len tr (concat (map snd es)) st) (\<lambda>(_, st). Inr (forget st))"
proof (induction es arbitrary: st)
  case (Cons p es)
  obtain e bs where p: "p = (e, bs)" by (cases p)
  let ?st = "st\<lparr>ts_epoch := e\<rparr>"
  have ne: "\<not> enough_steps c ?st"
    using Cons.prems by (simp add: enough_steps_def)
  have same: "rbind (train_batches tf c len tr xs ?st) (\<lambda>(_, st). Inr (forget st)) =
      rbind (train_batches tf c len tr xs st) (\<lambda>(_, st). Inr (forget st))" for xs
  proof -
    have "forget_result (train_batches tf c len tr xs ?st) = forget_result (train_batches tf c len tr xs st)"
      using train_batches_forget [of tf c len tr xs ?st] train_batches_forget [of tf c len tr xs st] by simp
    then show ?thesis
      by (cases "train_batches tf c len tr xs ?st"; cases "train_batches tf c len tr xs st") auto
  qed
  have rhs: "rbind (train_batches tf c len tr (concat (map snd (p # es))) st) (\<lambda>(_, st). Inr (forget st)) =
      rbind (train_batches tf c len tr (bs @ concat (map snd es)) ?st) (\<lambda>(_, st). Inr (forget st))"
    by (simp only: same p list.map concat.simps snd_conv)
  show ?case
  proof (cases "train_batches tf c len tr bs ?st")
    case (Inl err)
    then show ?thesis
      unfolding rhs by (simp add: p train_batches_append)
  next
    case (Inr q)
    then obtain stop st' where q: "train_batches tf c len tr bs ?st = Inr (stop, st')"
      by (cases q) simp
    have stop: "stop = enough_steps c st'"
      by (rule train_batches_stop [OF q ne])
    show ?thesis
      unfolding rhs using Cons.IH [of st'] q stop by (cases stop) (simp_all add: p train_batches_append)
  qed
qed simp

section \<open>Groups\<close>

text \<open>Micro-batches that do not fill the group only add to the gradient.\<close>

lemma train_batches_partial:
  assumes "ts_accumulated st + length bs < k" and k: "tc_gradient_accumulation_steps c = int k"
  shows "\<exists>st'. train_batches tf c len tr (bs @ rest) st = train_batches tf c len tr rest st'
    \<and> ts_accumulated st' = ts_accumulated st + length bs \<and> ts_step st' = ts_step st
    \<and> ts_params st' = ts_params st \<and> ts_lr st' = ts_lr st
    \<and> ts_tokens_seen st' = ts_tokens_seen st + sum_list (map (tr_numel tr) bs)
    \<and> ts_grad st' = ts_grad st + loss_scale tf c tr (ts_step st) *\<^sub>R
        ((1 / real k) *\<^sub>R sum_list (map (tr_grad tr (ts_params st)) bs))"
  using assms(1)
proof (induction bs arbitrary: st)
  case Nil
  then show ?case
    by (intro exI [of _ st]) simp
next
  case (Cons b bs)
  let ?st = "accumulate tf c tr b st"
  have acc: "ts_accumulated ?st = Suc (ts_accumulated st)" "ts_step ?st = ts_step st"
      "ts_params ?st = ts_params st" "ts_lr ?st = ts_lr st"
      "ts_tokens_seen ?st = ts_tokens_seen st + tr_numel tr b"
      "ts_grad ?st = ts_grad st + loss_scale tf c tr (ts_step st) *\<^sub>R ((1 / real k) *\<^sub>R tr_grad tr (ts_params st) b)"
    by (simp_all add: accumulate_def k)
  obtain st' where "train_batches tf c len tr (bs @ rest) ?st = train_batches tf c len tr rest st'"
    "ts_accumulated st' = ts_accumulated ?st + length bs" "ts_step st' = ts_step ?st"
    "ts_params st' = ts_params ?st" "ts_lr st' = ts_lr ?st"
    "ts_tokens_seen st' = ts_tokens_seen ?st + sum_list (map (tr_numel tr) bs)"
    "ts_grad st' = ts_grad ?st + loss_scale tf c tr (ts_step ?st) *\<^sub>R
        ((1 / real k) *\<^sub>R sum_list (map (tr_grad tr (ts_params ?st)) bs))"
    using Cons.IH [of ?st] Cons.prems acc(1) by auto
  then show ?case
    using Cons.prems acc(1) by (intro exI [of _ st']) (simp add: acc(2-) k scaleR_right_distrib)
qed

lemma optimizer_step_schedule:
  assumes "schedule_ok tr lr (max (total_steps c len) 1) (pct_start c len)"
  shows "if int (Suc (ts_step st)) \<le> max (total_steps c len) 1
    then \<exists>st'. optimizer_step tf c len tr b st = Inr st'
      \<and> ts_accumulated st' = 0 \<and> ts_grad st' = 0 \<and> ts_step st' = Suc (ts_step st)
      \<and> ts_lr st' = lr (Suc (ts_step st)) \<and> ts_tokens_seen st' = ts_tokens_seen st
      \<and> ts_params st' = tr_update tr (ts_lr st)
          (tr_clip tr ((1 / loss_scale tf c tr (ts_step st)) *\<^sub>R ts_grad st)) (ts_params st)
    else optimizer_step tf c len tr b st = Inl ValueError"
proof (cases "int (Suc (ts_step st)) \<le> max (total_steps c len) 1")
  case True
  then have lr: "tr_schedule tr (max (total_steps c len) 1) (pct_start c len) (Suc (ts_step st)) = Inr (lr (Suc (ts_step st)))"
    using assms unfolding schedule_ok_def by metis
  show ?thesis
    using True unfolding optimizer_step_def Let_def lr by (simp add: save_checkpoint_def)
next
  case False
  then have "tr_schedule tr (max (total_steps c len) 1) (pct_start c len) (Suc (ts_step st)) = Inl ValueError"
    using assms unfolding schedule_ok_def by metis
  with False show ?thesis
    unfolding optimizer_step_def Let_def by simp
qed

text \<open>A full group is one step with the mean gradient, whatever the loss scale.\<close>

lemma train_batches_group:
  assumes g: "length g = k" "0 < k" and k: "tc_gradient_accumulation_steps c = int k"
    and st: "ts_accumulated st = 0" "ts_grad st = 0" and scale: "loss_scale tf c tr (ts_step st) \<noteq> 0"
    and sched: "schedule_ok tr lr (max (total_steps c len) 1) (pct_start c len)" and "ts_lr st = lr (ts_step st)"
  shows "if int (Suc (ts_step st)) \<le> max (total_steps c len) 1
    then \<exists>st'. train_batches tf c len tr (g @ rest) st =
        (if enough_steps c st' then Inr (True, st') else train_batches tf c len tr rest st')
      \<and> ts_accumulated st' = 0 \<and> ts_grad st' = 0 \<and> ts_step st' = Suc (ts_step st) \<and> ts_lr st' = lr (ts_step st')
      \<and> ts_tokens_seen st' = ts_tokens_seen st + sum_list (map (tr_numel tr) g)
      \<and> ts_params st' = tr_update tr (lr (ts_step st))
          (tr_clip tr ((1 / real (length g)) *\<^sub>R sum_list (map (tr_grad tr (ts_params st)) g))) (ts_params st)
    else train_batches tf c len tr (g @ rest) st = Inl ValueError"
proof -
  obtain bs b where bs: "g = bs @ [b]" "length bs = k - 1"
    using g by (metis append_butlast_last_id length_butlast length_greater_0_conv)
  then obtain st1 where 1: "train_batches tf c len tr (bs @ b # rest) st = train_batches tf c len tr (b # rest) st1"
    "ts_accumulated st1 = k - 1" "ts_step st1 = ts_step st" "ts_params st1 = ts_params st" "ts_lr st1 = ts_lr st"
    "ts_tokens_seen st1 = ts_tokens_seen st + sum_list (map (tr_numel tr) bs)"
    "ts_grad st1 = loss_scale tf c tr (ts_step st) *\<^sub>R
        ((1 / real k) *\<^sub>R sum_list (map (tr_grad tr (ts_params st)) bs))"
    using train_batches_partial [of st bs k c tf len tr "b # rest"] k g(2) st by auto
  let ?s = "loss_scale tf c tr (ts_step st)"
  have grad: "(1 / ?s) *\<^sub>R ts_grad (accumulate tf c tr b st1) =
      (1 / real (length g)) *\<^sub>R sum_list (map (tr_grad tr (ts_params st)) g)"
    using scale by (simp add: accumulate_def 1 k g(1) bs(1) [symmetric] scaleR_right_distrib [symmetric])
      (simp add: bs(1) scaleR_right_distrib)
  have acc: "ts_step (accumulate tf c tr b st1) = ts_step st" "ts_params (accumulate tf c tr b st1) = ts_params st"
      "ts_lr (accumulate tf c tr b st1) = lr (ts_step st)" "ts_accumulated (accumulate tf c tr b st1) = k"
      "ts_tokens_seen (accumulate tf c tr b st1) = ts_tokens_seen st + sum_list (map (tr_numel tr) g)"
    using 1 g(2) by (simp_all add: accumulate_def assms(8) bs(1))
  have "train_batches tf c len tr (g @ rest) st = rbind (optimizer_step tf c len tr b (accumulate tf c tr b st1))
      (\<lambda>st. if enough_steps c st then Inr (True, st) else train_batches tf c len tr rest st)"
    using 1(1) acc(4) k by (simp add: bs(1))
  then show ?thesis
    using optimizer_step_schedule [OF sched, of "accumulate tf c tr b st1" tf b]
    unfolding acc grad by (auto split: if_split_asm)
qed

lemma train_batches_groups:
  assumes gs: "list_all (\<lambda>g. length g = k) gs" "0 < k" "length rest < k"
    and k: "tc_gradient_accumulation_steps c = int k"
    and sched: "schedule_ok tr lr (max (total_steps c len) 1) (pct_start c len)"
    and scale: "\<And>n. loss_scale tf c tr n \<noteq> 0"
  shows "ts_accumulated st = 0 \<Longrightarrow> ts_grad st = 0 \<Longrightarrow> ts_lr st = lr (ts_step st) \<Longrightarrow> \<not> enough_steps c st \<Longrightarrow>
    int (ts_step st) \<le> max (total_steps c len) 1 \<Longrightarrow>
    taken = (if 0 < tc_max_steps c then take (nat (tc_max_steps c) - ts_step st) gs else gs) \<Longrightarrow>
    if int (ts_step st + length taken) \<le> max (total_steps c len) 1
    then \<exists>stop st'. train_batches tf c len tr (concat gs @ rest) st = Inr (stop, st')
      \<and> ts_step st' = ts_step st + length taken
      \<and> ts_params st' = large_steps tr lr (ts_step st) taken (ts_params st)
    else train_batches tf c len tr (concat gs @ rest) st = Inl ValueError"
  using gs(1)
proof (induction gs arbitrary: st taken)
  case Nil
  have "ts_accumulated st + length rest < k"
    using Nil.prems(1) gs(3) by simp
  from train_batches_partial [OF this k, of tf len tr "[]"] Nil.prems show ?case
    by auto
next
  case (Cons g gs)
  have g: "length g = k" and gs': "list_all (\<lambda>g. length g = k) gs"
    using Cons.prems(7) by simp_all
  let ?T = "max (total_steps c len) 1"
  let ?taken = "if 0 < tc_max_steps c then take (nat (tc_max_steps c) - Suc (ts_step st)) gs else gs"
  have "nat (tc_max_steps c) - ts_step st = Suc (nat (tc_max_steps c) - Suc (ts_step st))" if "0 < tc_max_steps c"
    using Cons.prems(4) that by (simp add: enough_steps_def)
  then have taken: "taken = g # ?taken"
    using Cons.prems(6) by simp
  note step = train_batches_group [OF g gs(2) k Cons.prems(1,2) scale sched Cons.prems(3), of "concat gs @ rest"]
  show ?case
  proof (cases "int (Suc (ts_step st)) \<le> ?T")
    case False
    with step taken show ?thesis
      by simp
  next
    case True
    obtain st' where st': "train_batches tf c len tr (g @ concat gs @ rest) st =
        (if enough_steps c st' then Inr (True, st') else train_batches tf c len tr (concat gs @ rest) st')"
      "ts_accumulated st' = 0" "ts_grad st' = 0" "ts_step st' = Suc (ts_step st)" "ts_lr st' = lr (ts_step st')"
      "ts_params st' = tr_update tr (lr (ts_step st))
          (tr_clip tr ((1 / real (length g)) *\<^sub>R sum_list (map (tr_grad tr (ts_params st)) g))) (ts_params st)"
      using step unfolding if_P [OF True] by blast
    show ?thesis
    proof (cases "enough_steps c st'")
      case enough: True
      then have "?taken = []"
        by (auto simp: enough_steps_def st'(4) nat_le_iff)
      then have t: "taken = [g]"
        using taken by simp
      show ?thesis
        using True enough st'(1,4,6) by (auto simp: t)
    next
      case more: False
      have "int (ts_step st') \<le> ?T"
        using True st'(4) by simp
      have tk: "?taken = (if 0 < tc_max_steps c then take (nat (tc_max_steps c) - ts_step st') gs else gs)"
        by (simp only: st'(4))
      have "if int (ts_step st' + length ?taken) \<le> ?T
        then \<exists>stop st''. train_batches tf c len tr (concat gs @ rest) st' = Inr (stop, st'')
          \<and> ts_step st'' = ts_step st' + length ?taken
          \<and> ts_params st'' = large_steps tr lr (ts_step st') ?taken (ts_params st')
        else train_batches tf c len tr (concat gs @ rest) st' = Inl ValueError"
        by (rule Cons.IH [OF st'(2,3,5) more \<open>int (ts_step st') \<le> ?T\<close> tk gs'])
      then show ?thesis
        using more st'(1,4,6) unfolding taken by (simp split: if_split_asm) 
    qed
  qed
qed

lemma train_outcome:
  assumes "training_ok c" and k: "tc_gradient_accumulation_steps c = int k"
    and sched: "schedule_ok tr lr (max (total_steps c len) 1) (pct_start c len)"
    and scale: "\<And>n. loss_scale tf c tr n \<noteq> 0"
    and stream: "stream = concat (map epochs [0..<nat (tc_epochs c)])"
    and full: "full = chunks k (take (length stream div k * k) stream)"
    and groups: "groups = (if 0 < tc_max_steps c then take (nat (tc_max_steps c)) full else full)"
  shows "if int (length groups) \<le> max (total_steps c len) 1
    then \<exists>st. train tf c tr len epochs final params = Inr st \<and> ts_step st = length groups
      \<and> ts_params st = large_steps tr lr 0 groups params
    else train tf c tr len epochs final params = Inl ValueError"
proof -
  let ?T = "max (total_steps c len) 1"
  define st0 :: "('a, 'b) train_state" where "st0 = \<lparr>ts_step = 0, ts_epoch = 0, ts_tokens_seen = 0,
      ts_best_loss = None, ts_params = params, ts_grad = 0, ts_accumulated = 0, ts_lr = lr 0, ts_saved = []\<rparr>"
  let ?es = "map (\<lambda>e. (e, epochs e)) [0..<nat (tc_epochs c)]"
  have pos: "0 < k"
    using assms(1) k by (simp add: training_ok_def)
  have ne: "\<not> enough_steps c st0"
    by (simp add: enough_steps_def st0_def)
  have lens: "list_all (\<lambda>g. length g = k) full"
    using pos by (simp add: full chunks_lengths min.absorb2)
  have cat: "concat (map snd ?es) = concat full @ drop (length stream div k * k) stream"
    using pos by (simp add: full stream comp_def)
  have "length (drop (length stream div k * k) stream) < k"
    using pos by (simp add: minus_div_mult_eq_mod)
  note rest = this
  have init: "ts_accumulated st0 = 0" "ts_grad st0 = 0" "ts_lr st0 = lr (ts_step st0)" "int (ts_step st0) \<le> ?T"
      "groups = (if 0 < tc_max_steps c then take (nat (tc_max_steps c) - ts_step st0) full else full)"
    by (simp_all add: st0_def groups)
  have zero: "ts_step st0 = 0" "ts_params st0 = params"
    by (simp_all add: st0_def)
  from train_batches_groups [OF lens pos rest k sched scale init(1-3) ne init(4,5)]
  have run: "if int (length groups) \<le> ?T
    then \<exists>stop st'. train_batches tf c len tr (concat (map snd ?es)) st0 = Inr (stop, st')
      \<and> ts_step st' = length groups \<and> ts_params st' = large_steps tr lr 0 groups params
    else train_batches tf c len tr (concat (map snd ?es)) st0 = Inl ValueError"
    unfolding cat zero add_0 .
  have epochs: "rbind (train_epochs tf c len tr ?es st0) (\<lambda>st. Inr (forget st)) =
     rbind (train_batches tf c len tr (concat (map snd ?es)) st0) (\<lambda>(_, st). Inr (forget st))"
    by (rule train_epochs_stream [OF ne])
  have "tr_schedule tr ?T (pct_start c len) 0 = Inr (lr 0)"
    using sched by (simp add: schedule_ok_def)
  then have tr: "train tf c tr len epochs final params = rbind (train_epochs tf c len tr ?es st0) (\<lambda>st.
      Inr (save_checkpoint ''final'' (Some (ev_loss (evaluate (tr_eval tr (ts_params st)) final (Some 8)))) st))"
    by (simp add: train_def st0_def Let_def)
  show ?thesis
  proof (cases "int (length groups) \<le> ?T")
    case True
    then obtain stop st' where st': "train_batches tf c len tr (concat (map snd ?es)) st0 = Inr (stop, st')"
        "ts_step st' = length groups" "ts_params st' = large_steps tr lr 0 groups params"
      using run by auto
    then obtain st where st: "train_epochs tf c len tr ?es st0 = Inr st" "forget st = forget st'"
      using epochs by (cases "train_epochs tf c len tr ?es st0") auto
    have "ts_step st = ts_step st'" "ts_params st = ts_params st'"
      using st(2) by (metis forget_simps(1), metis forget_simps(3))
    with True st(1) st'(2,3) show ?thesis
      by (simp add: tr save_checkpoint_def)
  next
    case False
    then have "train_epochs tf c len tr ?es st0 = Inl ValueError"
      using run epochs by (cases "train_epochs tf c len tr ?es st0") auto
    with False show ?thesis
      by (simp add: tr)
  qed
qed

section \<open>Properties\<close>

text \<open>
  C28: Gradient accumulation is large-batch training. The run makes one update for each group
  of \<open>gradient_accumulation_steps\<close> micro-batches of all epochs in a row, up to \<open>max_steps\<close>
  of them, each update being the optimiser's on the group's mean gradient whatever the loss
  scale; it raises exactly when that is more updates than the schedule was made for.
\<close>

theorem accumulation_is_large_batch_training:
  assumes "training_ok c" and k: "tc_gradient_accumulation_steps c = int k"
    and sched: "schedule_ok tr lr (max (total_steps c len) 1) (pct_start c len)"
    and scale: "\<And>n. loss_scale tf c tr n \<noteq> 0"
    and stream: "stream = concat (map epochs [0..<nat (tc_epochs c)])"
    and full: "full = chunks k (take (length stream div k * k) stream)"
    and groups: "groups = (if 0 < tc_max_steps c then take (nat (tc_max_steps c)) full else full)"
  shows "if int (length groups) \<le> max (total_steps c len) 1
    then \<exists>st. train tf c tr len epochs final params = Inr st \<and> ts_step st = length groups
      \<and> ts_params st = large_steps tr lr 0 groups params
    else train tf c tr len epochs final params = Inl ValueError"
  by (rule train_outcome [OF assms])


text \<open>
  The validation accepts a step limit in place of a number of epochs, but the loop runs over
  the epochs: such a run makes no step.
\<close>

lemma max_steps_alone_trains_nothing:
  assumes "tc_epochs c \<le> 0" and "schedule_ok tr lr (max (total_steps c len) 1) (pct_start c len)"
  shows "\<exists>st. train tf c tr len epochs final params = Inr st \<and> ts_step st = 0 \<and> ts_params st = params"
  using assms by (simp add: train_def schedule_ok_def save_checkpoint_def Let_def)

section \<open>Witnesses\<close>

text \<open>Least squares in one dimension, on a GPU with a loss scale.\<close>

definition ex_flags :: torch_flags where
  "ex_flags = \<lparr>tf_cuda = True, tf_mps = False, tf_bf16 = False\<rparr>"

definition ex_config :: training_config where
  "ex_config = tc_defaults\<lparr>tc_gradient_accumulation_steps := 2, tc_epochs := 2\<rparr>"

definition ex_trainer :: "(real, real, real) trainer" where
  "ex_trainer = \<lparr>tr_loss = (\<lambda>w b. (w - b) * (w - b)), tr_grad = (\<lambda>w b. w - b), tr_clip = (\<lambda>g. g),
     tr_update = (\<lambda>lr g w. w - lr * g),
     tr_schedule = (\<lambda>steps _ n. if int n \<le> steps then Inr (1 / 2) else Inl ValueError),
     tr_scale = (\<lambda>_. 65536), tr_numel = (\<lambda>_. 1),
     tr_eval = (\<lambda>w. \<lparr>em_loss = (\<lambda>b. (w - b) * (w - b)), em_mask_sum = (\<lambda>_. 2), em_rows = (\<lambda>_. 1)\<rparr>)\<rparr>"

lemma ex_config_ok: "training_ok ex_config" "tc_gradient_accumulation_steps ex_config = int 2"
    "tc_max_steps ex_config = - 1" "tc_epochs ex_config = 2"
  by (simp_all add: ex_config_def tc_defaults_def training_ok_def)

lemma ex_schedule: "schedule_ok ex_trainer (\<lambda>_. 1 / 2) steps pct"
  by (simp add: schedule_ok_def ex_trainer_def)

lemma ex_trainer_step: "tr_grad ex_trainer w b = w - b" "tr_clip ex_trainer g = g" "tr_update ex_trainer lr g w = w - lr * g"
  by (simp_all add: ex_trainer_def)

lemma ex_scale: "loss_scale ex_flags ex_config ex_trainer n \<noteq> 0"
  by (simp add: loss_scale_def ex_trainer_def)

theorem accumulation_is_large_batch_training_witness:
  "\<exists>st. train ex_flags ex_config ex_trainer 2 (\<lambda>e. [0, 8]) [] 0 = Inr st \<and> ts_step st = 2 \<and> ts_params st = 3"
proof -
  let ?groups = "[[0, 8], [0, 8]] :: real list list"
  have stream: "[0, 8, 0, 8 :: real] = concat (map (\<lambda>e. [0, 8]) [0..<nat (tc_epochs ex_config)])"
    by (simp add: ex_config_ok numeral_2_eq_2)
  have full: "?groups = chunks 2 (take (length [0, 8, 0, 8 :: real] div 2 * 2) [0, 8, 0, 8])"
    by code_simp
  have "?groups = (if 0 < tc_max_steps ex_config then take (nat (tc_max_steps ex_config)) ?groups else ?groups)"
    by (simp add: ex_config_ok)
  from accumulation_is_large_batch_training [OF ex_config_ok(1,2) ex_schedule ex_scale stream full this,
      where len = 2 and final = "[]" and params = 0]
  show ?thesis
    by (simp add: total_steps_def steps_per_epoch_def ex_config_ok ex_trainer_step
      numeral_2_eq_2)
qed


end
