(* ===== verification/Server.thy ===== *)
theory Server
  imports Continuous_Service Exposition Ops
begin

text \<open>
  \<open>inference/schemas.py\<close> and \<open>inference/server.py\<close>: the HTTP front end. The engine behind it
  is known by its operations. FastAPI and pydantic are not part of the repository: what the
  server asks of them is that a request body breaking its schema is answered with 422, an
  \<open>HTTPException\<close> with its status, and any other exception of a handler with 500. A handler
  is cut at its one \<open>await\<close>: what it does before, and its answer to what became of the future.
\<close>

section \<open>Schemas\<close>

record generate_request =
  gq_prompt :: string
  gq_max_new_tokens :: "int option"
  gq_temperature :: "real option"
  gq_top_p :: "real option"
  gq_top_k :: "int option"
  gq_seed :: "int option"
  gq_deadline_seconds :: "real option"

definition optional :: "('a \<Rightarrow> bool) \<Rightarrow> 'a option \<Rightarrow> bool" where
  "optional P x = (case x of None \<Rightarrow> True | Some v \<Rightarrow> P v)"

definition reject_blank :: "string \<Rightarrow> string result" where
  "reject_blank s = (if strip s = [] then Inl ValueError else Inr s)"

definition request_valid :: "generate_request \<Rightarrow> bool" where
  "request_valid q \<longleftrightarrow> 1 \<le> length (gq_prompt q) \<and> length (gq_prompt q) \<le> 8192
     \<and> optional (\<lambda>n. 1 \<le> n \<and> n \<le> 2048) (gq_max_new_tokens q)
     \<and> optional (\<lambda>t. 0 \<le> t \<and> t \<le> 2) (gq_temperature q)
     \<and> optional (\<lambda>p. 0 < p \<and> p \<le> 1) (gq_top_p q)
     \<and> optional (\<lambda>k. 0 \<le> k) (gq_top_k q)
     \<and> optional (\<lambda>k. 0 \<le> k) (gq_seed q)
     \<and> optional (\<lambda>d. 0 < d \<and> d \<le> 600) (gq_deadline_seconds q)
     \<and> reject_blank (gq_prompt q) = Inr (gq_prompt q)"

record generate_response =
  gp_request_id :: string
  gp_text :: string
  gp_prompt_tokens :: int
  gp_generated_tokens :: int
  gp_queue_time_ms :: real
  gp_inference_time_ms :: real
  gp_total_latency_ms :: real
  gp_batch_size :: int

record health_response =
  hp_status :: string
  hp_model :: string
  hp_device :: string
  hp_dtype :: string
  hp_custom_cuda_kernels :: bool
  hp_queue_depth :: int
  hp_uptime_seconds :: real

record readiness_response =
  rr_ready :: bool
  rr_reason :: string
  rr_queue_depth :: int
  rr_queue_capacity :: int
  rr_saturation :: real

definition METRICS_FIELDS :: "string list" where
  "METRICS_FIELDS =
     [''requests_received'', ''requests_completed'', ''requests_failed'', ''requests_rejected'',
      ''requests_expired'', ''batches_processed'', ''batches_closed_by_size'',
      ''batches_closed_by_timeout'', ''average_batch_size'', ''queue_depth'', ''tokens_generated'',
      ''uptime_seconds'', ''requests_per_second'', ''tokens_per_second'', ''queue_delay_p50_ms'',
      ''queue_delay_p95_ms'', ''queue_delay_p99_ms'', ''latency_p50_ms'', ''latency_p95_ms'',
      ''latency_p99_ms'', ''latency_max_ms'', ''latency_mean_ms'', ''extra'']"

text \<open>
  A pydantic model made of keyword arguments drops those it has no field for, and refuses
  when a field is missing (\<open>extra\<close> has a default).
\<close>

definition MetricsResponse :: "(string \<times> metric_value) list \<Rightarrow> (string \<times> metric_value) list result" where
  "MetricsResponse values =
     (if list_all (\<lambda>k. k \<in> set (keys values) \<or> k = ''extra'') METRICS_FIELDS
      then Inr (filter (\<lambda>p. fst p \<in> set METRICS_FIELDS) values) else Inl ValueError)"

section \<open>Configuration from the environment\<close>

type_synonym environ = "(string \<times> string) list"

datatype override = TextField "string \<Rightarrow> engine_config \<Rightarrow> engine_config"
  | IntField "int \<Rightarrow> engine_config \<Rightarrow> engine_config"

definition OVERRIDES :: "(string \<times> override) list" where
  "OVERRIDES =
     [(''CUDAFORGE_MODEL'', TextField (\<lambda>s c. c\<lparr>ec_model_name := s\<rparr>)),
      (''CUDAFORGE_DEVICE'', TextField (\<lambda>s c. c\<lparr>ec_device := s\<rparr>)),
      (''CUDAFORGE_MAX_BATCH'', IntField (\<lambda>n c. c\<lparr>ec_max_batch_size := n\<rparr>)),
      (''CUDAFORGE_MAX_WAIT_US'', IntField (\<lambda>n c. c\<lparr>ec_max_wait_us := n\<rparr>)),
      (''CUDAFORGE_QUEUE_CAPACITY'', IntField (\<lambda>n c. c\<lparr>ec_queue_capacity := n\<rparr>)),
      (''CUDAFORGE_WORKER_THREADS'', IntField (\<lambda>n c. c\<lparr>ec_worker_threads := n\<rparr>))]"

definition apply_override :: "environ \<Rightarrow> string \<times> override \<Rightarrow> engine_config \<Rightarrow> engine_config result" where
  "apply_override env p c =
     (case map_of env (fst p) of
        None \<Rightarrow> Inr c
      | Some v \<Rightarrow> (case snd p of
                     TextField f \<Rightarrow> Inr (f v c)
                   | IntField f \<Rightarrow> (case parse_int v of None \<Rightarrow> Inl ValueError | Some n \<Rightarrow> Inr (f n c))))"

text \<open>\<open>EngineConfig.from_yaml\<close>, with reading and parsing the file as a parameter.\<close>

definition from_yaml :: "(string \<Rightarrow> engine_kwarg list result) \<Rightarrow> string \<Rightarrow> engine_config result" where
  "from_yaml load path = rbind (load path) from_dict"

text \<open>A variable that is set, and not to the empty string.\<close>

definition switched_on :: "environ \<Rightarrow> string \<Rightarrow> bool" where
  "switched_on env v = (case map_of env v of None \<Rightarrow> False | Some s \<Rightarrow> s \<noteq> [])"

definition config_from_environment ::
  "(string \<Rightarrow> engine_kwarg list result) \<Rightarrow> environ \<Rightarrow> engine_config result" where
  "config_from_environment load env =
     rbind (if switched_on env ''CUDAFORGE_CONFIG''
            then from_yaml load (the (map_of env ''CUDAFORGE_CONFIG'')) else EngineConfig ec_defaults) (\<lambda>c.
     rbind (rfold (apply_override env) OVERRIDES c) (\<lambda>c.
       EngineConfig (c\<lparr>ec_queue_capacity := max (ec_queue_capacity c) (ec_max_batch_size c)\<rparr>)))"

text \<open>
  \<open>build_engine\<close>: the four ways to construct the engine are parameters, the last two around
  a model that may fail to load.
\<close>

definition build_engine ::
  "(string \<Rightarrow> engine_kwarg list result) \<Rightarrow> environ \<Rightarrow> (engine_config \<Rightarrow> 'e result)
     \<Rightarrow> (engine_config \<Rightarrow> 'e result) \<Rightarrow> (engine_config \<Rightarrow> 'e result) \<Rightarrow> (engine_config \<Rightarrow> 'e result)
     \<Rightarrow> engine_config option \<Rightarrow> 'e result" where
  "build_engine load env echo_once echo_stepwise model_once model_stepwise config =
     rbind (case config of None \<Rightarrow> config_from_environment load env | Some c \<Rightarrow> Inr c) (\<lambda>c.
       let continuous = switched_on env ''CUDAFORGE_CONTINUOUS'';
           echo = if continuous then echo_stepwise c else echo_once c in
       if switched_on env ''CUDAFORGE_ECHO_RUNNER'' then echo
       else case (if continuous then model_stepwise c else model_once c) of
              Inr e \<Rightarrow> Inr e
            | Inl _ \<Rightarrow> echo)"

text \<open>The exit of \<open>lifespan\<close>: what it raised, and the slot \<open>_engine\<close> afterwards.\<close>

definition lifespan_exit ::
  "('a, 'f, 'e) engine_ops \<Rightarrow> 'e option \<Rightarrow> py_error option \<times> 'e option" where
  "lifespan_exit ops slot =
     (case slot of
        None \<Rightarrow> (None, None)
      | Some e \<Rightarrow> (case eo_shutdown ops e of
                     (None, _) \<Rightarrow> (None, None)
                   | (Some err, e) \<Rightarrow> (Some err, Some e)))"

section \<open>Liveness, readiness, metrics\<close>

datatype reply_body =
    NotReady | RefusedBy py_error | FailedWith string string | Generated generate_response

record http_reply =
  hr_status :: int
  hr_request_id :: "string option"       \<comment> \<open>the \<open>X-Request-ID\<close> header\<close>
  hr_body :: reply_body

definition require_engine :: "'e option \<Rightarrow> http_reply + 'e" where
  "require_engine slot =
     (case slot of None \<Rightarrow> Inl \<lparr>hr_status = 503, hr_request_id = None, hr_body = NotReady\<rparr>
      | Some e \<Rightarrow> Inr e)"

definition health ::
  "('d \<Rightarrow> string) \<Rightarrow> ('y \<Rightarrow> string) \<Rightarrow> ('d, 'y) torch_env \<Rightarrow> backend \<Rightarrow> engine_config
     \<Rightarrow> ('a, 'f, 'e) engine_ops \<Rightarrow> 'e \<Rightarrow> health_response result" where
  "health device_str dtype_str te backend c ops e =
     rbind (eo_snapshot ops e) (\<lambda>s.
     rbind (resolve_device te c) (\<lambda>device.
     rbind (resolve_dtype te c) (\<lambda>dtype.
       Inr \<lparr>hp_status = ''ok'', hp_model = ec_model_name c, hp_device = device_str device,
            hp_dtype = dtype_str dtype, hp_custom_cuda_kernels = using_custom_kernels (backend_report backend),
            hp_queue_depth = eo_depth ops e, hp_uptime_seconds = uptime_seconds s\<rparr>)))"

definition saturation :: "int \<Rightarrow> int \<Rightarrow> real" where
  "saturation depth queue_cap = (if queue_cap \<noteq> 0 then of_int depth / of_int queue_cap else 0)"

text \<open>\<open>round(x, 4)\<close> is rounding half to even.\<close>

definition ready ::
  "('e \<Rightarrow> engine_config) \<Rightarrow> ('a, 'f, 'e) engine_ops \<Rightarrow> 'e option \<Rightarrow> int \<times> readiness_response" where
  "ready config ops slot =
     (case slot of
        None \<Rightarrow> (503, \<lparr>rr_ready = False, rr_reason = ''engine is still starting'', rr_queue_depth = 0,
                       rr_queue_capacity = 0, rr_saturation = 0\<rparr>)
      | Some e \<Rightarrow>
          let queue_cap = ec_queue_capacity (config e); depth = eo_depth ops e;
              ready_now = saturation depth queue_cap < 9 / 10 in
          (if ready_now then 200 else 503,
           \<lparr>rr_ready = ready_now,
            rr_reason = if ready_now then ''accepting requests'' else ''queue is near capacity'',
            rr_queue_depth = depth, rr_queue_capacity = queue_cap,
            rr_saturation = of_int (round_even (saturation depth queue_cap * 10000)) / 10000\<rparr>))"

definition metrics_json :: "('a, 'f, 'e) engine_ops \<Rightarrow> 'e \<Rightarrow> (string \<times> metric_value) list result" where
  "metrics_json ops e = rbind (eo_snapshot ops e) (\<lambda>s. MetricsResponse (to_dict s))"

definition metrics_prometheus :: "(real \<Rightarrow> string) \<Rightarrow> ('a, 'f, 'e) engine_ops \<Rightarrow> 'e \<Rightarrow> string result" where
  "metrics_prometheus repr ops e = rbind (eo_snapshot ops e) (render_prometheus repr)"

section \<open>Generation\<close>

definition given_or :: "'a option \<Rightarrow> 'a \<Rightarrow> 'a" where
  "given_or x d = (case x of None \<Rightarrow> d | Some v \<Rightarrow> v)"

definition request_generation :: "generate_request \<Rightarrow> generation_config \<Rightarrow> generation_config result" where
  "request_generation q d = GenerationConfig
     \<lparr>gc_max_new_tokens = given_or (gq_max_new_tokens q) (gc_max_new_tokens d),
      gc_temperature = given_or (gq_temperature q) (gc_temperature d),
      gc_top_p = given_or (gq_top_p q) (gc_top_p d),
      gc_top_k = given_or (gq_top_k q) (gc_top_k d),
      gc_seed = (case gq_seed q of None \<Rightarrow> gc_seed d | Some s \<Rightarrow> Some s)\<rparr>"

text \<open>
  Up to the \<open>await\<close>: a reply, an exception that leaves the handler, or the future to wait
  for. The request id and the two clock readings of \<open>submit\<close> are arguments.
\<close>

datatype 'f started = Replied http_reply | Escaped py_error | Awaiting 'f

definition generate_start ::
  "('e \<Rightarrow> engine_config) \<Rightarrow> (submission, 'f, 'e) engine_ops \<Rightarrow> string \<Rightarrow> real \<Rightarrow> real \<Rightarrow> generate_request
     \<Rightarrow> 'e option \<Rightarrow> 'f started \<times> 'e option" where
  "generate_start config ops i now enqueued q slot =
     (case require_engine slot of
        Inl reply \<Rightarrow> (Replied reply, slot)
      | Inr e \<Rightarrow>
          (case request_generation q (ec_generation (config e)) of
             Inl err \<Rightarrow> (Escaped err, slot)
           | Inr g \<Rightarrow>
               (case eo_submit ops \<lparr>sub_id = i, sub_prompt = gq_prompt q, sub_generation = Some g,
                                    sub_deadline = gq_deadline_seconds q, sub_now = now,
                                    sub_enqueued = enqueued\<rparr> e of
                  (Inr f, e) \<Rightarrow> (Awaiting f, Some e)
                | (Inl err, e) \<Rightarrow>
                    (if err = EngineClosedError
                     then Replied \<lparr>hr_status = 503, hr_request_id = None, hr_body = RefusedBy err\<rparr>
                     else if err = ValueError
                     then Replied \<lparr>hr_status = 422, hr_request_id = None, hr_body = RefusedBy err\<rparr>
                     else Escaped err, Some e))))"

text \<open>The message of a failure, with the formatting of a float and of an exception as parameters.\<close>

definition error_text :: "(real \<Rightarrow> string) \<Rightarrow> (py_error \<Rightarrow> string) \<Rightarrow> response_error \<Rightarrow> string" where
  "error_text fmt message err =
     (case err of
        ExpiredAfter d \<Rightarrow> ''RequestExpired: dropped after '' @ fmt (d * 1000)
          @ '' ms in the queue, past its deadline''
      | RunnerError err \<Rightarrow> message err)"

text \<open>
  After the \<open>await\<close>, which lasts at most 300 seconds: \<open>Inl\<close> is an exception that leaves the
  handler.
\<close>

definition generate_reply ::
  "(real \<Rightarrow> string) \<Rightarrow> (py_error \<Rightarrow> string) \<Rightarrow> future_state \<Rightarrow> http_reply result" where
  "generate_reply fmt message f =
     (case f of
        Pending \<Rightarrow> Inl TimeoutError
      | Failed err \<Rightarrow> Inl err
      | Cancelled \<Rightarrow> Inl CancelledError
      | Result resp \<Rightarrow>
          (case rs_error resp of
             Some err \<Rightarrow>
               Inr \<lparr>hr_status = if contains ''RequestExpired'' (error_text fmt message err) then 503 else 500,
                    hr_request_id = Some (rs_request_id resp),
                    hr_body = FailedWith (error_text fmt message err) (rs_request_id resp)\<rparr>
           | None \<Rightarrow>
               Inr \<lparr>hr_status = 200, hr_request_id = Some (rs_request_id resp),
                    hr_body = Generated
                      \<lparr>gp_request_id = rs_request_id resp, gp_text = rs_text resp,
                       gp_prompt_tokens = rs_prompt_tokens resp,
                       gp_generated_tokens = rs_generated_tokens resp,
                       gp_queue_time_ms = rs_queue_time resp * 1000,
                       gp_inference_time_ms = rs_inference_time resp * 1000,
                       gp_total_latency_ms = total_latency resp * 1000,
                       gp_batch_size = rs_batch_size resp\<rparr>\<rparr>))"

text \<open>The status a client sees.\<close>

definition client_status :: "http_reply result \<Rightarrow> int" where
  "client_status r = (case r of Inl _ \<Rightarrow> 500 | Inr p \<Rightarrow> hr_status p)"

end
