(* ===== verification/Cli.thy ===== *)
theory Cli
  imports Server
begin

text \<open>
  \<open>python/cudaforge/cli.py\<close>: the two commands. Arguments come parsed by argparse, which is
  not part of the repository; printing is not modelled. \<open>serve\<close> passes its configuration to
  the server through the environment, \<open>bench\<close> builds an engine and drives it with clients.
\<close>

section \<open>Arguments\<close>

record cli_args =
  ca_config :: "string option"
  ca_model :: string
  ca_max_batch_size :: int
  ca_max_wait_us :: int
  ca_queue_capacity :: int
  ca_worker_threads :: int
  ca_device :: string
  ca_echo_runner :: bool
  ca_continuous :: bool

definition arg_defaults :: cli_args where
  "arg_defaults =
     \<lparr>ca_config = None, ca_model = ''sshleifer/tiny-gpt2'', ca_max_batch_size = 16,
      ca_max_wait_us = 5000, ca_queue_capacity = 1024, ca_worker_threads = 4,
      ca_device = ''auto'', ca_echo_runner = False, ca_continuous = False\<rparr>"

section \<open>The configuration\<close>

text \<open>One turn of the loop over the flags: a value other than the parser's default is set.\<close>

definition set_flag ::
  "(cli_args \<Rightarrow> 'v) \<Rightarrow> ('v \<Rightarrow> engine_config \<Rightarrow> engine_config) \<Rightarrow> cli_args \<Rightarrow> engine_config \<Rightarrow> engine_config" where
  "set_flag flag assign a c = (if flag a \<noteq> flag arg_defaults then assign (flag a) c else c)"

definition override_flags :: "cli_args \<Rightarrow> engine_config \<Rightarrow> engine_config" where
  "override_flags a c =
     (let c = set_flag ca_model (\<lambda>v c. c\<lparr>ec_model_name := v\<rparr>) a c;
          c = set_flag ca_device (\<lambda>v c. c\<lparr>ec_device := v\<rparr>) a c;
          c = set_flag ca_max_batch_size (\<lambda>v c. c\<lparr>ec_max_batch_size := v\<rparr>) a c;
          c = set_flag ca_max_wait_us (\<lambda>v c. c\<lparr>ec_max_wait_us := v\<rparr>) a c;
          c = set_flag ca_queue_capacity (\<lambda>v c. c\<lparr>ec_queue_capacity := v\<rparr>) a c
      in set_flag ca_worker_threads (\<lambda>v c. c\<lparr>ec_worker_threads := v\<rparr>) a c)"

definition config_from :: "(string \<Rightarrow> engine_kwarg list result) \<Rightarrow> cli_args \<Rightarrow> engine_config result" where
  "config_from load a =
     (case ca_config a of
        None \<Rightarrow> EngineConfig (ec_defaults
          \<lparr>ec_model_name := ca_model a, ec_device := ca_device a,
           ec_max_batch_size := ca_max_batch_size a, ec_max_wait_us := ca_max_wait_us a,
           ec_queue_capacity := max (ca_queue_capacity a) (ca_max_batch_size a),
           ec_worker_threads := ca_worker_threads a\<rparr>)
      | Some path \<Rightarrow>
          rbind (from_yaml load path) (\<lambda>c.
            let c = override_flags a c in
            EngineConfig (c\<lparr>ec_queue_capacity := max (ec_queue_capacity c) (ec_max_batch_size c)\<rparr>)))"

section \<open>Building the engine\<close>

text \<open>The engine around each of the four runners is a parameter; nothing falls back here.\<close>

definition cli_build_engine ::
  "(string \<Rightarrow> engine_kwarg list result) \<Rightarrow> (engine_config \<Rightarrow> 'e result) \<Rightarrow> (engine_config \<Rightarrow> 'e result)
     \<Rightarrow> (engine_config \<Rightarrow> 'e result) \<Rightarrow> (engine_config \<Rightarrow> 'e result) \<Rightarrow> cli_args
     \<Rightarrow> (engine_config \<times> 'e) result" where
  "cli_build_engine load echo_once echo_stepwise model_once model_stepwise a =
     rbind (config_from load a) (\<lambda>c.
       rbind (if \<not> ca_continuous a
              then (if ca_echo_runner a then echo_once c else model_once c)
              else (if ca_echo_runner a then echo_stepwise c else model_stepwise c)) (\<lambda>e.
         Inr (c, e)))"

section \<open>\<open>cudaforge-serve\<close>\<close>

text \<open>The environment in which uvicorn then imports the server.\<close>

definition serve_environment :: "engine_config \<Rightarrow> cli_args \<Rightarrow> environ \<Rightarrow> environ" where
  "serve_environment c a env =
     (let env = AList.update ''CUDAFORGE_MODEL'' (ec_model_name c) env;
          env = AList.update ''CUDAFORGE_DEVICE'' (ec_device c) env;
          env = AList.update ''CUDAFORGE_MAX_BATCH'' (str_int (ec_max_batch_size c)) env;
          env = AList.update ''CUDAFORGE_MAX_WAIT_US'' (str_int (ec_max_wait_us c)) env;
          env = AList.update ''CUDAFORGE_QUEUE_CAPACITY'' (str_int (ec_queue_capacity c)) env;
          env = AList.update ''CUDAFORGE_WORKER_THREADS'' (str_int (ec_worker_threads c)) env;
          env = (if ca_echo_runner a then AList.update ''CUDAFORGE_ECHO_RUNNER'' ''1'' env else env)
      in if ca_continuous a then AList.update ''CUDAFORGE_CONTINUOUS'' ''1'' env else env)"

definition serve :: "(string \<Rightarrow> engine_kwarg list result) \<Rightarrow> cli_args \<Rightarrow> environ \<Rightarrow> environ result" where
  "serve load a env = rbind (config_from load a) (\<lambda>c. Inr (serve_environment c a env))"

section \<open>\<open>cudaforge-bench\<close>\<close>

text \<open>What \<open>generate\<close> did for one request: a response, or an exception.\<close>

type_synonym generate_outcome = "response result"

text \<open>A client's three counts; \<open>None\<close> when an exception ended its thread.\<close>

fun client_tally :: "generate_outcome list \<Rightarrow> (nat \<times> nat \<times> nat) option" where
  "client_tally [] = Some (0, 0, 0)"
| "client_tally (out # outs) =
     (case out of
        Inl err \<Rightarrow>
          if err = EngineClosedError
          then map_option (\<lambda>(ok, fail, refused). (ok, fail, Suc refused)) (client_tally outs) else None
      | Inr resp \<Rightarrow>
          map_option (\<lambda>(ok, fail, refused).
            if response_ok resp then (Suc ok, fail, refused) else (ok, Suc fail, refused)) (client_tally outs))"

record load_result =
  lr_completed :: nat
  lr_failed :: nat
  lr_rejected :: nat
  lr_wall_seconds :: real

text \<open>
  \<open>_drive\<close>: a thread adds its counts under the lock when it is through, so the order of the
  threads does not matter and a thread that died adds nothing.
\<close>

definition add_tally :: "(nat \<times> nat \<times> nat) option \<Rightarrow> load_result \<Rightarrow> load_result" where
  "add_tally t r =
     (case t of
        None \<Rightarrow> r
      | Some (ok, fail, refused) \<Rightarrow>
          r\<lparr>lr_completed := lr_completed r + ok, lr_failed := lr_failed r + fail,
            lr_rejected := lr_rejected r + refused\<rparr>)"

definition drive :: "real \<Rightarrow> generate_outcome list list \<Rightarrow> load_result" where
  "drive wall clients =
     fold (\<lambda>outs. add_tally (client_tally outs)) clients
       \<lparr>lr_completed = 0, lr_failed = 0, lr_rejected = 0, lr_wall_seconds = wall\<rparr>"

section \<open>Properties of the counts\<close>

text \<open>Without an exception other than the engine's refusal every request is counted once.\<close>

lemma client_tally_total:
  "client_tally outs = Some (ok, fail, refused) \<Longrightarrow> ok + fail + refused = length outs"
  by (induction outs arbitrary: ok fail refused) (auto split: sum.splits if_splits)

lemma client_tally_dies:
  "client_tally outs = None \<longleftrightarrow> (\<exists>err \<in> set outs. \<exists>e. err = Inl e \<and> e \<noteq> EngineClosedError)"
  by (induction outs) (auto split: sum.splits)

definition counted :: "load_result \<Rightarrow> nat" where
  "counted r = lr_completed r + lr_failed r + lr_rejected r"

lemma add_tally_counts:
  "counted (add_tally (client_tally outs) r) = counted r + (if client_tally outs = None then 0 else length outs)"
  using client_tally_total [of outs] by (auto simp: add_tally_def counted_def split: option.split)

lemma drive_counts:
  "counted (drive wall clients) =
     sum_list (map length (filter (\<lambda>outs. client_tally outs \<noteq> None) clients))"
proof -
  have "counted (fold (\<lambda>outs. add_tally (client_tally outs)) clients r) =
      counted r + sum_list (map length (filter (\<lambda>outs. client_tally outs \<noteq> None) clients))" for r
    by (induction clients arbitrary: r) (simp_all add: add_tally_counts del: not_None_eq)
  then show ?thesis
    by (simp add: drive_def counted_def)
qed

end
