(* ===== verification/Server_Properties.thy ===== *)
theory Server_Properties
  imports Server Continuous_Service_Properties
begin

text \<open>
  What the HTTP front end promises, over the continuous engine where the engine matters: the
  environment yields a configuration that works, readiness means admission, and the status
  of a reply tells what became of the request.
\<close>

section \<open>Integers in the environment\<close>

lemma digit_value_digit: "d < 10 \<Longrightarrow> digit_value (digit d) = Some d"
  by (simp add: digit_value_def digit_def Let_def)

lemma digits_from_snoc:
  assumes "list_all (\<lambda>c. digit_value c \<noteq> None) s"
  shows "digits_from n (s @ t) = (case digits_from n s of None \<Rightarrow> None | Some m \<Rightarrow> digits_from m t)"
  using assms by (induction s arbitrary: n) auto

lemma str_nat_digits: "list_all (\<lambda>c. digit_value c \<noteq> None) (str_nat n)"
proof (induction n rule: str_nat.induct)
  case (1 n)
  then show ?case
    by (subst str_nat.simps) (simp add: digit_value_digit)
qed

lemma digits_from_str_nat: "digits_from 0 (str_nat n) = Some n"
proof (induction n rule: str_nat.induct)
  case (1 n)
  show ?case
  proof (cases "n < 10")
    case True
    then show ?thesis
      by (subst str_nat.simps) (simp add: digit_value_digit)
  next
    case False
    then have "digits_from 0 (str_nat (n div 10)) = Some (n div 10)"
      using 1 by simp
    with False show ?thesis
      by (subst str_nat.simps) (simp add: digits_from_snoc [OF str_nat_digits] digit_value_digit)
  qed
qed

lemma parse_digits_str_nat: "parse_digits (str_nat n) = Some n"
proof (cases "str_nat n")
  case Nil
  then show ?thesis
    by (subst (asm) str_nat.simps) (simp split: if_splits)
next
  case (Cons c s)
  then have "digit_value c \<noteq> None"
    using str_nat_digits [of n] by simp
  then show ?thesis
    using digits_from_str_nat [of n] Cons by auto
qed

lemma dropWhile_none: "\<forall>c \<in> set s. \<not> P c \<Longrightarrow> dropWhile P s = s"
  by (cases s) simp_all

lemma strip_tight: "\<forall>c \<in> set s. \<not> is_space c \<Longrightarrow> strip s = s"
  by (simp add: strip_def dropWhile_none)

lemma digit_no_space: "digit_value c \<noteq> None \<Longrightarrow> \<not> is_space c \<and> c \<noteq> CHR ''-'' \<and> c \<noteq> CHR ''+''"
  by (auto simp: digit_value_def is_space_def Let_def split: if_splits)

text \<open>Printing an integer and reading it back.\<close>

lemma parse_int_str_int: "parse_int (str_int i) = Some i"
proof -
  have "\<not> is_space c" if "c \<in> set (str_nat n)" for c n
    using str_nat_digits [of n] that digit_no_space [of c] by (simp add: list_all_iff)
  moreover have "\<not> is_space (CHR ''-'')"
    by code_simp
  ultimately have tight: "strip (str_int i) = str_int i"
    by (intro strip_tight) (auto simp: str_int_def)
  show ?thesis
  proof (cases "i < 0")
    case True
    then show ?thesis
      using tight by (simp add: parse_int_def str_int_def parse_digits_str_nat)
  next
    case False
    then obtain c s where cs: "str_nat (nat i) = c # s"
      using parse_digits_str_nat [of "nat i"] by (cases "str_nat (nat i)") auto
    then have "c \<noteq> CHR ''-''" "c \<noteq> CHR ''+''"
      using str_nat_digits [of "nat i"] digit_no_space [of c] by simp_all
    with False cs show ?thesis
      using tight parse_digits_str_nat [of "nat i"] by (simp add: parse_int_def str_int_def)
  qed
qed

section \<open>The configuration\<close>

lemma override_generation: "(n, x) \<in> set OVERRIDES \<Longrightarrow>
    apply_override env (n, x) c = Inr c' \<Longrightarrow> ec_generation c' = ec_generation c"
  by (auto simp: OVERRIDES_def apply_override_def split: option.splits)

lemma overrides_generation:
  "set os \<subseteq> set OVERRIDES \<Longrightarrow> rfold (apply_override env) os c = Inr c' \<Longrightarrow> ec_generation c' = ec_generation c"
proof (induction os arbitrary: c)
  case (Cons p os)
  then obtain c1 where "apply_override env p c = Inr c1" "rfold (apply_override env) os c1 = Inr c'"
    by (auto simp: raise_simps)
  with Cons override_generation [of "fst p" "snd p" env c c1] show ?case
    by simp
qed simp

lemma environment_config_ok:
  assumes "config_from_environment load env = Inr c"
  shows "engine_ok c" "generation_ok (ec_generation c)"
proof -
  obtain c0 c1 where c: "(if switched_on env ''CUDAFORGE_CONFIG''
        then from_yaml load (the (map_of env ''CUDAFORGE_CONFIG'')) else EngineConfig ec_defaults) = Inr c0"
      "rfold (apply_override env) OVERRIDES c0 = Inr c1"
      "EngineConfig (c1\<lparr>ec_queue_capacity := max (ec_queue_capacity c1) (ec_max_batch_size c1)\<rparr>) = Inr c"
    using assms by (auto simp: config_from_environment_def rbind_eq_Inr)
  show "engine_ok c"
    using c(3) by (simp add: EngineConfig_ok)
  have "generation_ok (ec_generation c0)"
    using c(1) by (auto simp: from_yaml_def raise_simps ec_defaults_def gc_defaults_def generation_ok_def
        dest: from_dict_ok split: if_splits)
  then show "generation_ok (ec_generation c)"
    using c(3) overrides_generation [OF subset_refl c(2)] by (simp add: EngineConfig_ok)
qed


section \<open>Sizes of the continuous engine\<close>

lemma cx_submit_sizes:
  "co_capacity (cx_batcher (snd (cx_submit a st))) = co_capacity (cx_batcher st)"
  "en_config (cx_engine (snd (cx_submit a st))) = en_config (cx_engine st)"
  by (auto simp: cx_submit_def with_batcher_def submit_rejected_def engine_submit_def co_submit_def
      upd_metrics_def Let_def split: sum.splits if_splits prod.splits)

lemma cx_pass_sizes:
  assumes "stepwise_runner (ce_ops env) held ok fine" and "\<And>p. 0 < ce_estimate env p"
    and inv: "co_inv 0 {#} (cx_batcher st)" and fits: "runner_fits held ok fine [] (cx_batcher st)"
    and pass: "cx_pass env st = Inr (over, st')"
  shows "co_capacity (cx_batcher st') = co_capacity (cx_batcher st)"
    "en_config (cx_engine st') = en_config (cx_engine st)"
proof -
  obtain over' b where b: "run_pass env (cx_batcher st) = Inr (over', b)" "pass_post (cx_batcher st) b"
    by (rule stepwise_runner.run_pass_ok [OF assms(1) refl assms(2) inv fits])
  show "co_capacity (cx_batcher st') = co_capacity (cx_batcher st)"
    using pass b by (auto simp: cx_pass_def with_engine_def pass_post_unfold Let_def)
  have "en_config (complete i resp e) = en_config e" for i resp e
    by (simp add: complete_def Let_def split: option.split)
  then have one: "en_config (deliver_one now p e) = en_config e" for now p e
    by (auto simp: deliver_one_def finish_def expire_request_def Let_def rbind_eq_Inr
        split: prod.split settlement.split sum.split)
  have "en_config (deliver clock k ps e) = en_config e" for clock k ps e
    by (induction clock k ps e rule: deliver.induct) (simp_all add: one)
  then show "en_config (cx_engine st') = en_config (cx_engine st)"
    using pass b by (auto simp: cx_pass_def with_engine_def Let_def)
qed

text \<open>While the engine is open its scheduler has the queue the configuration asked for.\<close>

lemma open_capacity:
  assumes env: "env = engine_env ops clock" and runner: "stepwise_runner ops held ok fine" "ok r" "held r = {}"
    and reach: "cx_reachable env r fine st"
  shows "\<not> cx_closed st \<Longrightarrow> co_capacity (cx_batcher st) = ec_queue_capacity (en_config (cx_engine st))
    \<and> 0 < ec_queue_capacity (en_config (cx_engine st))"
  using reach
proof (induction rule: cx_reachable.induct)
  case (cx_start c t st)
  then show ?case
    by (auto simp: ContinuousEngine_def ContinuousBatcher_def rbind_eq_Inr split: if_splits)
next
  case (cx_submitted st a)
  have "cx_closed (snd (cx_submit a st)) = cx_closed st"
    by (auto simp: cx_submit_def with_batcher_def submit_rejected_def engine_submit_def Let_def
        split: sum.splits if_splits prod.splits)
  with cx_submitted show ?case
    by (simp add: cx_submit_sizes)
next
  case (cx_passed st over st')
  have "co_inv 0 {#} (cx_batcher st)" "runner_fits held ok fine [] (cx_batcher st)"
    using cx_reachable_sound [OF env runner cx_passed.hyps(1)] by (simp_all add: cx_sound_def cx_inv_def cx_core_def Let_def)
  moreover have "stepwise_runner (ce_ops env) held ok fine" "\<And>p. 0 < ce_estimate env p"
    using runner(1) by (simp_all add: env engine_env_def default_estimate_def)
  ultimately show ?case
    using cx_passed cx_pass_closed [OF cx_passed.hyps(2)] cx_pass_sizes [of env held ok fine st over st'] by simp
next
  case (cx_cancelled st h)
  then show ?case
    by (auto simp: cancel_future_def split: if_splits)
next
  case (cx_shut st n)
  have "cx_closed (cx_shutdown n env st)"
    by (simp add: cx_shutdown_def Let_def engine_close_def)
  with cx_shut show ?case
    by simp
qed

text \<open>An integer variable and its default.\<close>

definition env_int :: "environ \<Rightarrow> string \<Rightarrow> int \<Rightarrow> int result" where
  "env_int env v d = (case map_of env v of None \<Rightarrow> Inr d
     | Some s \<Rightarrow> (case parse_int s of None \<Rightarrow> Inl ValueError | Some n \<Rightarrow> Inr n))"

lemma environment_settings:
  assumes "\<not> switched_on env ''CUDAFORGE_CONFIG''"
  shows "config_from_environment load env =
    rbind (env_int env ''CUDAFORGE_MAX_BATCH'' 16) (\<lambda>batch.
    rbind (env_int env ''CUDAFORGE_MAX_WAIT_US'' 5000) (\<lambda>wait.
    rbind (env_int env ''CUDAFORGE_QUEUE_CAPACITY'' 1024) (\<lambda>queue.
    rbind (env_int env ''CUDAFORGE_WORKER_THREADS'' 4) (\<lambda>workers.
      if 0 < batch \<and> 0 \<le> wait \<and> 0 < workers
      then Inr (ec_defaults\<lparr>
        ec_model_name := given_or (map_of env ''CUDAFORGE_MODEL'') (ec_model_name ec_defaults),
        ec_device := given_or (map_of env ''CUDAFORGE_DEVICE'') (ec_device ec_defaults),
        ec_max_batch_size := batch, ec_max_wait_us := wait, ec_queue_capacity := max queue batch,
        ec_worker_threads := workers\<rparr>)
      else Inl ValueError))))"
proof -
  let ?given = "\<lambda>v d. given_or (map_of env v) d"
  have one: "apply_override env (v, TextField f) c = Inr (f (?given v d) c)" if "f d c = c" for v f c d
    using that by (simp add: apply_override_def given_or_def split: option.split)
  have num: "apply_override env (v, IntField f) c = rbind (env_int env v d) (\<lambda>n. Inr (f n c))"
    if "f d c = c" for v f c d
    using that by (simp add: apply_override_def env_int_def split: option.split)
  have assoc: "rbind (rbind r f) g = rbind r (\<lambda>x. rbind (f x) g)" for r :: "'x + 'y" and f :: "'y \<Rightarrow> 'x + 'z" and g :: "'z \<Rightarrow> 'x + 'u"
    by (cases r) simp_all
  have overrides: "rfold (apply_override env) OVERRIDES ec_defaults =
    rbind (env_int env ''CUDAFORGE_MAX_BATCH'' 16) (\<lambda>batch.
    rbind (env_int env ''CUDAFORGE_MAX_WAIT_US'' 5000) (\<lambda>wait.
    rbind (env_int env ''CUDAFORGE_QUEUE_CAPACITY'' 1024) (\<lambda>queue.
    rbind (env_int env ''CUDAFORGE_WORKER_THREADS'' 4) (\<lambda>workers.
      Inr (ec_defaults\<lparr>ec_model_name := ?given ''CUDAFORGE_MODEL'' (ec_model_name ec_defaults),
        ec_device := ?given ''CUDAFORGE_DEVICE'' (ec_device ec_defaults),
        ec_max_batch_size := batch, ec_max_wait_us := wait, ec_queue_capacity := queue,
        ec_worker_threads := workers\<rparr>)))))"
    unfolding OVERRIDES_def rfold.simps
    by (subst one [where d = "ec_model_name ec_defaults"], simp, simp only: rbind_simps,
        subst one [where d = "ec_device ec_defaults"], simp, simp only: rbind_simps,
        subst num [where d = 16], simp add: ec_defaults_def, simp only: assoc rbind_simps,
        subst num [where d = 5000], simp add: ec_defaults_def, simp only: assoc rbind_simps,
        subst num [where d = 1024], simp add: ec_defaults_def, simp only: assoc rbind_simps,
        subst num [where d = 4], simp add: ec_defaults_def, simp only: assoc rbind_simps)
  have swap: "c\<lparr>ec_queue_capacity := q, ec_worker_threads := t, ec_queue_capacity := m\<rparr> =
      c\<lparr>ec_queue_capacity := m, ec_worker_threads := t\<rparr>" for c :: engine_config and q t m
    by (cases c) simp
  have "EngineConfig ec_defaults = Inr ec_defaults"
    by (simp add: EngineConfig_def ec_defaults_def)
  then have "config_from_environment load env =
    rbind (env_int env ''CUDAFORGE_MAX_BATCH'' 16) (\<lambda>batch.
    rbind (env_int env ''CUDAFORGE_MAX_WAIT_US'' 5000) (\<lambda>wait.
    rbind (env_int env ''CUDAFORGE_QUEUE_CAPACITY'' 1024) (\<lambda>queue.
    rbind (env_int env ''CUDAFORGE_WORKER_THREADS'' 4) (\<lambda>workers.
      EngineConfig (ec_defaults\<lparr>ec_model_name := ?given ''CUDAFORGE_MODEL'' (ec_model_name ec_defaults),
        ec_device := ?given ''CUDAFORGE_DEVICE'' (ec_device ec_defaults),
        ec_max_batch_size := batch, ec_max_wait_us := wait, ec_queue_capacity := max queue batch,
        ec_worker_threads := workers\<rparr>)))))"
    by (simp add: config_from_environment_def assms overrides assoc swap)
  moreover have "EngineConfig (ec_defaults\<lparr>ec_model_name := m, ec_device := d, ec_max_batch_size := b,
      ec_max_wait_us := w, ec_queue_capacity := max q b, ec_worker_threads := t\<rparr>) =
    (if 0 < b \<and> 0 \<le> w \<and> 0 < t
     then Inr (ec_defaults\<lparr>ec_model_name := m, ec_device := d, ec_max_batch_size := b,
      ec_max_wait_us := w, ec_queue_capacity := max q b, ec_worker_threads := t\<rparr>) else Inl ValueError)" for m d b w q t
    by (simp add: EngineConfig_def ec_defaults_def)
  ultimately show ?thesis
    by simp
qed

section \<open>Properties\<close>

text \<open>
  What the environment decides. Without a configuration file the engine's settings are
  the defaults under the variables that are set; they are refused exactly when a number does
  not parse or the batch size, wait or worker count cannot work. No queue capacity is
  refused: one below the batch size is raised to it.
\<close>

theorem environment_decides:
  assumes "\<not> switched_on env ''CUDAFORGE_CONFIG''"
  shows "config_from_environment load env =
    rbind (env_int env ''CUDAFORGE_MAX_BATCH'' 16) (\<lambda>batch.
    rbind (env_int env ''CUDAFORGE_MAX_WAIT_US'' 5000) (\<lambda>wait.
    rbind (env_int env ''CUDAFORGE_QUEUE_CAPACITY'' 1024) (\<lambda>queue.
    rbind (env_int env ''CUDAFORGE_WORKER_THREADS'' 4) (\<lambda>workers.
      if 0 < batch \<and> 0 \<le> wait \<and> 0 < workers
      then Inr (ec_defaults\<lparr>
        ec_model_name := given_or (map_of env ''CUDAFORGE_MODEL'') (ec_model_name ec_defaults),
        ec_device := given_or (map_of env ''CUDAFORGE_DEVICE'') (ec_device ec_defaults),
        ec_max_batch_size := batch, ec_max_wait_us := wait, ec_queue_capacity := max queue batch,
        ec_worker_threads := workers\<rparr>)
      else Inl ValueError))))"
  by (rule environment_settings [OF assms])


lemma request_generation_ok:
  assumes "request_valid q" "generation_ok d"
  shows "\<exists>g. request_generation q d = Inr g \<and> generation_ok g"
  using assms by (auto simp: request_generation_def GenerationConfig_ok generation_ok_def request_valid_def
      optional_def given_or_def split: option.splits)

text \<open>
  C32: Ready means admitted. While \<open>/ready\<close> of an open continuous engine answers 200, a valid
  request within the prompt limit is neither refused nor does its handler raise: it gets a
  future of its own, pending, under its id.
\<close>

theorem ready_requests_are_admitted:
  assumes runner: "serves ops r fine" and reach: "cx_reachable (engine_env ops clock) r fine st"
    and is_open: "\<not> en_closed (cx_engine st)" "\<not> co_stopping (cx_batcher st)"
    and ready: "fst (ready (\<lambda>e. en_config (cx_engine e)) eops (Some st)) = 200"
    and eops: "eops = continuous_ops n (engine_env ops clock) device_str te description snap"
    and q: "request_valid q"
      "ec_max_prompt_chars (en_config (cx_engine st)) = 0
        \<or> int (length (gq_prompt q)) \<le> ec_max_prompt_chars (en_config (cx_engine st))"
      "pred_option fine (case request_generation q (ec_generation (en_config (cx_engine st))) of
         Inr g \<Rightarrow> Some g | Inl _ \<Rightarrow> None)"
    and fresh: "i \<notin> set (map fst (en_store (cx_engine st)))"
  shows "\<exists>h st'. generate_start (\<lambda>e. en_config (cx_engine e)) eops i now enqueued q (Some st) = (Awaiting h, Some st')
    \<and> cx_reachable (engine_env ops clock) r fine st'
    \<and> h = length (en_store (cx_engine st)) \<and> en_store (cx_engine st') = en_store (cx_engine st) @ [(i, Pending)]
    \<and> map_of (en_futures (cx_engine st')) i = Some h"
proof -
  let ?e = "cx_engine st" and ?b = "cx_batcher st"
  have "cx_core st"
    using cx_reachable_inv [OF refl runner reach] by (simp add: cx_inv_def)
  then have "generation_ok (ec_generation (en_config ?e))"
    by (simp add: cx_core_def Let_def)
  from request_generation_ok [OF q(1) this] obtain g where
    g: "request_generation q (ec_generation (en_config ?e)) = Inr g" "generation_ok g"
    by blast
  let ?a = "\<lparr>sub_id = i, sub_prompt = gq_prompt q, sub_generation = Some g,
    sub_deadline = gq_deadline_seconds q, sub_now = now, sub_enqueued = enqueued\<rparr>"
  have size: "co_capacity ?b = ec_queue_capacity (en_config ?e)" "0 < ec_queue_capacity (en_config ?e)"
    by (rule servesE [OF runner], use open_capacity [OF refl _ _ _ reach is_open(1)] in blast)+
  have "saturation (cx_queue_depth st) (ec_queue_capacity (en_config ?e)) < 9 / 10"
    using ready by (simp add: ready_def eops continuous_ops_def Let_def split: if_splits)
  then have "real (length (co_queue ?b)) < 9 / 10 * of_int (ec_queue_capacity (en_config ?e))"
    using size(2) by (simp add: saturation_def cx_queue_depth_def divide_less_eq)
  moreover have "0 < (of_int (ec_queue_capacity (en_config ?e)) :: real)"
    using size(2) by simp
  ultimately have "real (length (co_queue ?b)) < of_int (ec_queue_capacity (en_config ?e))"
    by linarith
  then have room: "\<not> co_full ?b"
    unfolding co_full_def size(1) by (metis not_le of_int_less_iff of_int_of_nat_eq)
  obtain h p e where sub: "engine_submit i (gq_prompt q) (Some g) (gq_deadline_seconds q) now enqueued ?e = Inr (h, p, e)"
    using is_open(1) q(2) by (auto simp: engine_submit_def Let_def)
  note F = engine_submit_facts [OF sub]
  have adm: "fst (co_submit p ?b)"
    using is_open(2) room by (simp add: co_submit_def Let_def upd_metrics_def co_full_def)
  obtain b where b: "co_submit p ?b = (True, b)"
    using adm by (cases "co_submit p ?b") simp
  have submit: "cx_submit ?a st = (Inr h, with_batcher b e)"
    by (simp add: cx_submit_def sub b)
  have "cx_reachable (engine_env ops clock) r fine (snd (cx_submit ?a st))"
    using fresh g q(3) by (intro cx_submitted [OF reach]) (simp_all add: submission_ok_def)
  then show ?thesis
    using submit by (intro exI [of _ h] exI [of _ "with_batcher b e"])
      (simp add: generate_start_def require_engine_def g(1) eops continuous_ops_def with_batcher_def F dict_simps)
qed


text \<open>
  An abandoned request is reported as a server fault. A future that a shutdown gives up
  on makes its handler raise, so the client sees 500, where the route documents 503 for
  shutting down; and so does a future still pending when the handler stops waiting.
\<close>

theorem abandoned_requests_are_server_faults:
  assumes "serves ops r fine" and "cx_reachable (engine_env ops clock) r fine st"
    and "\<not> en_closed (cx_engine st)"
    and "h < length (en_store (cx_engine st))" and "snd (en_store (cx_engine st) ! h) = Pending"
    and "map_of (en_futures (cx_engine st)) (fst (en_store (cx_engine st) ! h)) = Some h"
  shows "generate_reply fmt message (snd (en_store (cx_engine (cx_shutdown 0 (engine_env ops clock) st)) ! h))
      = Inl EngineClosedError
    \<and> client_status (generate_reply fmt message
        (snd (en_store (cx_engine (cx_shutdown 0 (engine_env ops clock) st)) ! h))) = 500
    \<and> client_status (generate_reply fmt message (snd (en_store (cx_engine st) ! h))) = 500"
proof -
  have "cx_core st"
    using cx_reachable_inv [OF refl assms(1,2)] by (simp add: cx_inv_def)
  then have ok: "futures_ok (engine_close (cx_engine st))"
    by (simp add: cx_core_def Let_def engine_close_def futures_ok_def)
  have "snd (en_store (abandon_outstanding (engine_close (cx_engine st))) ! h) = Failed EngineClosedError"
    using abandon_effect [OF ok] assms(4-6) by (simp add: registered_def engine_close_def)
  then show ?thesis
    using assms(3,5) by (simp add: cx_shutdown_def Let_def generate_reply_def client_status_def)
qed

text \<open>A runner whose error mentions the word is answered as an expired request.\<close>

lemma runner_error_mistaken_for_expiry:
  assumes "rs_error resp = Some (RunnerError err)" "contains ''RequestExpired'' (message err)"
  shows "client_status (generate_reply fmt message (Result resp)) = 503"
  using assms by (simp add: generate_reply_def client_status_def error_text_def)

text \<open>The JSON metrics never fail, and leave out one counter of the snapshot.\<close>

lemma metrics_response_leaves_out_one:
  "\<exists>values. MetricsResponse (to_dict s) = Inr values
     \<and> keys values = filter (\<lambda>k. k \<noteq> ''batched_requests'') (keys (to_dict s))"
  by (simp add: MetricsResponse_def METRICS_FIELDS_def to_dict_def)

section \<open>Witnesses\<close>

theorem environment_decides_witness:
  "config_from_environment (\<lambda>_. Inl KeyError) [(''CUDAFORGE_MAX_BATCH'', str_int 64), (''CUDAFORGE_QUEUE_CAPACITY'', str_int (- 5))]
     = Inr (ec_defaults\<lparr>ec_max_batch_size := 64, ec_queue_capacity := 64\<rparr>)"
proof -
  have "\<not> switched_on [(''CUDAFORGE_MAX_BATCH'', str_int 64), (''CUDAFORGE_QUEUE_CAPACITY'', str_int (- 5))] ''CUDAFORGE_CONFIG''"
    by (simp add: switched_on_def)
  from environment_decides [OF this, of "\<lambda>_. Inl KeyError"]
  show ?thesis
    by (simp add: env_int_def parse_int_str_int given_or_def) (simp add: ec_defaults_def)
qed


definition ex_torch :: "(string, string) torch_env" where
  "ex_torch = \<lparr>te_device = Inr, te_type = (\<lambda>d. d), te_attr = Inr, te_cuda_available = False,
     te_mps_available = False, te_bf16_supported = False, te_bfloat16 = ''bfloat16'',
     te_float16 = ''float16'', te_float32 = ''float32''\<rparr>"

definition ex_request :: generate_request where
  "ex_request = \<lparr>gq_prompt = ''hello'', gq_max_new_tokens = Some 8, gq_temperature = None, gq_top_p = None,
     gq_top_k = None, gq_seed = None, gq_deadline_seconds = None\<rparr>"

theorem ready_requests_are_admitted_witness:
  "\<exists>st'. generate_start (\<lambda>e. en_config (cx_engine e))
      (continuous_ops 0 (engine_env echo_ops ex_clock) (\<lambda>s. s) ex_torch [] 0) ''w'' 0 0 ex_request (Some ex_queued)
    = (Awaiting 1, Some st')"
proof -
  have facts: "ec_queue_capacity (en_config (cx_engine ex_queued)) = 1024"
      "ec_max_prompt_chars (en_config (cx_engine ex_queued)) = 8192" "length (co_queue (cx_batcher ex_queued)) = 1"
    by code_simp+
  have ready: "fst (ready (\<lambda>e. en_config (cx_engine e))
      (continuous_ops 0 (engine_env echo_ops ex_clock) (\<lambda>s. s) ex_torch [] 0) (Some ex_queued)) = 200"
    by (simp add: ready_def continuous_ops_def cx_queue_depth_def facts saturation_def Let_def)
  have "reject_blank (gq_prompt ex_request) = Inr (gq_prompt ex_request)"
    by code_simp
  moreover have "length (gq_prompt ex_request) = 5"
    by code_simp
  ultimately have valid: "request_valid ex_request"
    by (simp add: request_valid_def) (simp add: ex_request_def optional_def)
  have "length (en_store (cx_engine ex_queued)) = 1"
    using arg_cong [OF ex_queued_facts(7), of length] by simp
  moreover have any: "pred_option any_settings x" for x
    by (simp add: pred_option_def)
  ultimately show ?thesis
    using ready_requests_are_admitted [OF ex_runner_serves ex_queued_reachable ex_queued_facts(1,2) ready refl valid,
      of "''w''" 0 0, OF _ any] ex_queued_facts(7) facts(2)
    by (auto simp: ex_request_def)
qed


theorem abandoned_requests_are_server_faults_witness:
  "client_status (generate_reply (\<lambda>_. []) (\<lambda>_. [])
     (snd (en_store (cx_engine (cx_shutdown 0 (engine_env echo_ops ex_clock) ex_queued)) ! 0))) = 500"
proof -
  have cell: "0 < length (en_store (cx_engine ex_queued))" "snd (en_store (cx_engine ex_queued) ! 0) = Pending"
      "map_of (en_futures (cx_engine ex_queued)) (fst (en_store (cx_engine ex_queued) ! 0)) = Some 0"
    by (simp_all add: ex_queued_cell)
  from abandoned_requests_are_server_faults [OF ex_runner_serves ex_queued_reachable ex_queued_facts(1) cell,
      where fmt = "\<lambda>_. []" and message = "\<lambda>_. []"]
  show ?thesis
    by (elim conjE)
qed

end
