(* ===== verification/Cli_Properties.thy ===== *)
theory Cli_Properties
  imports Cli Server_Properties
begin

text \<open>
  From the command line to the server: the configuration that \<open>serve\<close> computes, written to
  the environment and read back by the server.
\<close>

section \<open>Reading back what was written\<close>

lemma nine_keys:
  assumes "distinct [model, device, batch, wait, queue, workers, echo, cont, other]"
    and "new = (let env = AList.update model m env; env = AList.update device d env;
       env = AList.update batch b env; env = AList.update wait w env; env = AList.update queue q env;
       env = AList.update workers t env; env = (if on then AList.update echo one env else env)
     in if on' then AList.update cont one env else env)"
  shows "map_of new model = Some m" "map_of new device = Some d" "map_of new batch = Some b"
    "map_of new wait = Some w" "map_of new queue = Some q" "map_of new workers = Some t"
    "map_of new other = map_of env other" "on' \<Longrightarrow> map_of new cont = Some one" "on \<Longrightarrow> map_of new echo = Some one"
proof -
  have ne: "model \<noteq> device" "model \<noteq> batch" "model \<noteq> wait" "model \<noteq> queue" "model \<noteq> workers" "model \<noteq> echo"
      "model \<noteq> cont" "device \<noteq> batch" "device \<noteq> wait" "device \<noteq> queue" "device \<noteq> workers" "device \<noteq> echo"
      "device \<noteq> cont" "batch \<noteq> wait" "batch \<noteq> queue" "batch \<noteq> workers" "batch \<noteq> echo" "batch \<noteq> cont"
      "wait \<noteq> queue" "wait \<noteq> workers" "wait \<noteq> echo" "wait \<noteq> cont" "queue \<noteq> workers" "queue \<noteq> echo"
      "queue \<noteq> cont" "workers \<noteq> echo" "workers \<noteq> cont" "echo \<noteq> cont" "other \<noteq> model" "other \<noteq> device"
      "other \<noteq> batch" "other \<noteq> wait" "other \<noteq> queue" "other \<noteq> workers" "other \<noteq> echo" "other \<noteq> cont"
    using assms(1) by auto
  show "map_of new model = Some m" "map_of new device = Some d" "map_of new batch = Some b"
    "map_of new wait = Some w" "map_of new queue = Some q" "map_of new workers = Some t"
    "map_of new other = map_of env other" "on' \<Longrightarrow> map_of new cont = Some one" "on \<Longrightarrow> map_of new echo = Some one"
    by (simp_all add: assms(2) Let_def if_distrib [of "\<lambda>f. map_of f _"] map_of_update ne ne [symmetric] cong: if_cong)
qed

lemma variables_distinct:
  "distinct [''CUDAFORGE_MODEL'', ''CUDAFORGE_DEVICE'', ''CUDAFORGE_MAX_BATCH'', ''CUDAFORGE_MAX_WAIT_US'',
     ''CUDAFORGE_QUEUE_CAPACITY'', ''CUDAFORGE_WORKER_THREADS'', ''CUDAFORGE_ECHO_RUNNER'',
     ''CUDAFORGE_CONTINUOUS'', ''CUDAFORGE_CONFIG'']"
  by code_simp

lemmas served_variables = nine_keys [OF variables_distinct serve_environment_def]

lemma config_from_ok: "config_from load a = Inr c \<Longrightarrow> engine_ok c"
  by (auto simp: config_from_def Let_def rbind_eq_Inr EngineConfig_ok split: option.splits)

section \<open>Properties\<close>


text \<open>
  A flag given with the parser's default value does not override the file: the batch size
  stays the file's.
\<close>

lemma default_flag_does_not_override:
  assumes "from_yaml load path = Inr f" "ca_config a = Some path" "ca_max_batch_size a = 16"
    and "config_from load a = Inr c"
  shows "ec_max_batch_size c = ec_max_batch_size f"
proof -
  have keep: "ec_max_batch_size (set_flag flag assign a e) = ec_max_batch_size e"
    if "\<And>v e. ec_max_batch_size (assign v e) = ec_max_batch_size e" for flag :: "cli_args \<Rightarrow> 'v" and assign e
    using that by (simp add: set_flag_def)
  have "set_flag ca_max_batch_size assign a e = e" for assign e
    using assms(3) by (simp add: set_flag_def arg_defaults_def)
  then have "ec_max_batch_size (override_flags a f) = ec_max_batch_size f"
    by (simp add: override_flags_def Let_def keep)
  then show ?thesis
    using assms(1,2,4) by (simp add: config_from_def Let_def EngineConfig_ok)
qed

section \<open>Witnesses\<close>

text \<open>A file that asks for short answers.\<close>

definition ex_load :: "string \<Rightarrow> engine_kwarg list result" where
  "ex_load _ = Inr [K_max_batch_size 8, K_generation (Some [G_max_new_tokens 5])]"

definition ex_args :: cli_args where
  "ex_args = arg_defaults\<lparr>ca_config := Some ''serve.yaml'', ca_max_wait_us := 100\<rparr>"

definition ex_served :: engine_config where
  "ex_served = ec_defaults\<lparr>ec_max_batch_size := 8, ec_max_wait_us := 100,
     ec_generation := gc_defaults\<lparr>gc_max_new_tokens := 5\<rparr>\<rparr>"

lemma ex_args_config: "config_from ex_load ex_args = Inr ex_served"
  by (simp add: config_from_def ex_args_def arg_defaults_def from_yaml_def ex_load_def from_dict_def
      override_flags_def set_flag_def Let_def EngineConfig_def GenerationConfig_def ec_defaults_def
      gc_defaults_def ex_served_def)


end
