(* ===== verification/Stepwise_Transformers.thy ===== *)
theory Stepwise_Transformers
  imports Stepwise "HOL-Library.Option_ord"
begin

text \<open>
  \<open>python/cudaforge/stepwise_transformers.py\<close>: a step-wise runner over a causal language
  model. The cache tensor is a list of rows, a row a list of entries \<open>'kv\<close>, one for each
  position, standing for the keys and values of all layers there. The tokenizer and the
  model are the record \<open>causal_lm\<close>; \<open>torch.multinomial\<close>, which draws from the global random
  state, is an argument of every step, and the unspecified order of \<open>torch.sort\<close> among equal
  elements is a component of the record. Masked logits are \<open>None\<close>, for minus infinity.
\<close>

section \<open>The model\<close>

record 'kv causal_lm =
  lm_encode :: "string list \<Rightarrow> int list list \<times> int list list"    \<comment> \<open>ids and mask, padded on the left\<close>
  lm_forward :: "int list list \<Rightarrow> int list list \<Rightarrow> int list list \<Rightarrow> 'kv list list option
     \<Rightarrow> (real list list \<times> 'kv list list) result"     \<comment> \<open>ids, mask, positions, past; last logits, cache\<close>
  lm_zero :: 'kv
  lm_eos :: "int option"
  lm_decode :: "int \<Rightarrow> string"
  lm_argsort :: "real option list \<Rightarrow> nat list"           \<comment> \<open>descending\<close>

section \<open>Sampling\<close>

definition safe_temperature :: "real \<Rightarrow> real" where
  "safe_temperature t = (if t = 0 then 1 else t)"

definition scale_row :: "real \<Rightarrow> real list \<Rightarrow> real option list" where
  "scale_row t logits = map (\<lambda>v. Some (v / safe_temperature t)) logits"

text \<open>\<open>limit\<close> is the largest \<open>top_k\<close> of the batch; \<open>kth\<close> the row's \<open>limit\<close> highest values.\<close>

definition top_k_row :: "int \<Rightarrow> int \<Rightarrow> real option list \<Rightarrow> real option list" where
  "top_k_row limit k row =
     (let kth = take (nat limit) (rev (sort row));
          threshold = kth ! nat (min (max k 1 - 1) (limit - 1))
      in map (\<lambda>v. if v < threshold \<and> 0 < k then None else v) row)"

definition exp_logit :: "real option \<Rightarrow> real" where
  "exp_logit v = (case v of None \<Rightarrow> 0 | Some x \<Rightarrow> exp x)"

definition softmax_logits :: "real option list \<Rightarrow> real list" where
  "softmax_logits row = (let e = map exp_logit row in map (\<lambda>v. v / sum_list e) e)"

fun cumsum_from :: "'a::plus \<Rightarrow> 'a list \<Rightarrow> 'a list" where
  "cumsum_from acc [] = []"
| "cumsum_from acc (x # xs) = (acc + x) # cumsum_from (acc + x) xs"

definition cumsum :: "'a::{zero, plus} list \<Rightarrow> 'a list" where
  "cumsum xs = cumsum_from 0 xs"

text \<open>The tail beyond the mass \<open>p\<close> is dropped from the ordered row, which is then scattered back.\<close>

definition scatter :: "nat list \<Rightarrow> 'a list \<Rightarrow> 'a list" where
  "scatter order src = fold (\<lambda>(j, v) out. out[j := v]) (zip order src) src"

definition nucleus :: "real \<Rightarrow> real option list \<Rightarrow> real option list" where
  "nucleus p ordered =
     (let probs = softmax_logits ordered
      in map (\<lambda>(i, v, c, q). if 0 < i \<and> p < c - q then None else v)
           (zip [0..<length ordered] (zip ordered (zip (cumsum probs) probs))))"

definition top_p_row :: "(real option list \<Rightarrow> nat list) \<Rightarrow> real \<Rightarrow> real option list \<Rightarrow> real option list" where
  "top_p_row argsort p row =
     (let order = argsort row in scatter order (nucleus p (map ((!) row) order)))"

fun argmax_from :: "nat \<Rightarrow> nat \<Rightarrow> real \<Rightarrow> real list \<Rightarrow> nat" where
  "argmax_from i best seen [] = best"
| "argmax_from i best seen (x # xs) =
     (if seen < x then argmax_from (Suc i) i x xs else argmax_from (Suc i) best seen xs)"

definition argmax :: "real list \<Rightarrow> nat" where
  "argmax xs = argmax_from 1 0 (hd xs) (tl xs)"

text \<open>The distribution the tokens are drawn from. \<open>topk\<close> raises when asked for more than there are.\<close>

definition filtered_rows ::
  "(real option list \<Rightarrow> nat list) \<Rightarrow> real list list \<Rightarrow> generation_config list \<Rightarrow> real option list list result" where
  "filtered_rows argsort logits settings =
     (let temps = map (\<lambda>g. max (gc_temperature g) 0) settings;
          ks = map gc_top_k settings; ps = map gc_top_p settings;
          rows = map (\<lambda>(t, r). scale_row t r) (zip temps logits)
      in rbind (if list_ex (\<lambda>k. 0 < k) ks
                then let limit = fold max ks 0 in
                  if list_ex (\<lambda>r. int (length r) < limit) rows then Inl RuntimeError
                  else Inr (map (\<lambda>(k, r). top_k_row limit k r) (zip ks rows))
                else Inr rows) (\<lambda>rows.
           Inr (if list_ex (\<lambda>p. p < 1) ps
                then map (\<lambda>(p, r). top_p_row argsort p r) (zip ps rows) else rows)))"

definition sample ::
  "(real option list \<Rightarrow> nat list) \<Rightarrow> (real list list \<Rightarrow> nat list) \<Rightarrow> real list list
     \<Rightarrow> generation_config list \<Rightarrow> int list result" where
  "sample argsort multinomial logits settings =
     rbind (filtered_rows argsort logits settings) (\<lambda>rows.
       let sampled = multinomial (map softmax_logits rows)
       in Inr (map (\<lambda>(g, l, i). int (if max (gc_temperature g) 0 = 0 then argmax l else i))
            (zip settings (zip logits sampled))))"

section \<open>State\<close>

record 'kv tf_runner =
  tf_prefills :: nat
  tf_steps :: nat
  tf_rows :: "int list"
  tf_cache :: "'kv list list option"
  tf_mask :: "int list list option"
  tf_last :: "int list option"

definition TransformersStepwiseRunner :: "'kv tf_runner" where
  "TransformersStepwiseRunner =
     \<lparr>tf_prefills = 0, tf_steps = 0, tf_rows = [], tf_cache = None, tf_mask = None, tf_last = None\<rparr>"

definition width :: "'a list list \<Rightarrow> nat" where
  "width t = (case t of [] \<Rightarrow> 0 | r # _ \<Rightarrow> length r)"

definition left_pad :: "'a \<Rightarrow> nat \<Rightarrow> 'a list list \<Rightarrow> 'a list list" where
  "left_pad pad to_length t =
     (let deficit = int to_length - int (width t) in
      if deficit \<le> 0 then t else map (\<lambda>r. replicate (nat deficit) pad @ r) t)"

definition merge_cache ::
  "'kv \<Rightarrow> 'kv list list \<Rightarrow> int list list \<Rightarrow> 'kv tf_runner \<Rightarrow> 'kv tf_runner result" where
  "merge_cache zero incoming incoming_mask st =
     (case tf_cache st of
        None \<Rightarrow> Inr (st\<lparr>tf_cache := Some incoming, tf_mask := Some incoming_mask\<rparr>)
      | Some cache \<Rightarrow>
          if tf_rows st = [] then Inr (st\<lparr>tf_cache := Some incoming, tf_mask := Some incoming_mask\<rparr>)
          else (case tf_mask st of
            None \<Rightarrow> Inl AssertionError
          | Some attn \<Rightarrow>
              let common = max (width cache) (width incoming)
              in Inr (st\<lparr>tf_cache := Some (left_pad zero common cache @ left_pad zero common incoming),
                         tf_mask := Some (left_pad 0 common attn @ left_pad 0 common incoming_mask)\<rparr>)))"

definition pick :: "nat list \<Rightarrow> 'a list \<Rightarrow> 'a list" where
  "pick keep xs = map ((!) xs) keep"

definition keep_rows :: "nat list \<Rightarrow> 'kv tf_runner \<Rightarrow> 'kv tf_runner result" where
  "keep_rows keep st =
     (if keep = [] then Inr (st\<lparr>tf_cache := None, tf_mask := None, tf_last := None, tf_rows := []\<rparr>)
      else case (tf_cache st, tf_mask st, tf_last st) of
        (Some cache, Some attn, Some toks) \<Rightarrow>
          Inr (st\<lparr>tf_cache := Some (pick keep cache), tf_mask := Some (pick keep attn),
                  tf_last := Some (pick keep toks), tf_rows := pick keep (tf_rows st)\<rparr>)
      | _ \<Rightarrow> Inl AssertionError)"

definition positions :: "int list list \<Rightarrow> int list list" where
  "positions attn = map (\<lambda>r. map (\<lambda>c. max (c - 1) 0) (cumsum r)) attn"

section \<open>The protocol\<close>

text \<open>\<open>_record\<close> for one sequence.\<close>

definition record_token :: "'kv causal_lm \<Rightarrow> int \<Rightarrow> sequence_state \<Rightarrow> sequence_state" where
  "record_token lm tok s =
     (if lm_eos lm = Some tok then s\<lparr>ss_stopped_early := True\<rparr>
      else s\<lparr>ss_tokens := ss_tokens s @ [lm_decode lm tok]\<rparr>)"

definition tf_prefill ::
  "'kv causal_lm \<Rightarrow> (real list list \<Rightarrow> nat list) \<Rightarrow> sequence_state list \<Rightarrow> 'kv tf_runner
     \<Rightarrow> (sequence_state list \<times> 'kv tf_runner) result" where
  "tf_prefill lm multinomial states st =
     (if states = [] then Inr (states, st)
      else let st = st\<lparr>tf_prefills := Suc (tf_prefills st)\<rparr>;
               (ids, attn) = lm_encode lm (map ss_prompt states) in
        rbind (lm_forward lm ids attn (positions attn) None) (\<lambda>(logits, past).
        rbind (merge_cache (lm_zero lm) past attn st) (\<lambda>st.
          let st = st\<lparr>tf_rows := tf_rows st @ map ss_id states\<rparr> in
          if length attn \<noteq> length states then Inl ValueError
          else let states = map (\<lambda>(s, m). s\<lparr>ss_prompt_tokens := sum_list m\<rparr>) (zip states attn) in
            rbind (sample (lm_argsort lm) multinomial logits (map ss_generation states)) (\<lambda>first.
              let st = st\<lparr>tf_last := Some (case tf_last st of None \<Rightarrow> first | Some toks \<Rightarrow> toks @ first)\<rparr> in
              if length first \<noteq> length states then Inl ValueError
              else Inr (map (\<lambda>(s, tok). record_token lm tok s) (zip states first), st)))))"

text \<open>The sequences that are not finished, with their places in the argument.\<close>

definition active_places :: "sequence_state list \<Rightarrow> (nat \<times> sequence_state) list" where
  "active_places states = filter (\<lambda>(j, s). \<not> finished s) (enumerate 0 states)"

text \<open>The dictionary \<open>by_id\<close>: a later sequence replaces an earlier one of the same id.\<close>

definition place_of :: "sequence_state list \<Rightarrow> int \<Rightarrow> nat option" where
  "place_of states = map_of (rev (map (\<lambda>(j, s). (ss_id s, j)) (active_places states)))"

fun record_places :: "'kv causal_lm \<Rightarrow> nat list \<Rightarrow> int list \<Rightarrow> sequence_state list \<Rightarrow> sequence_state list" where
  "record_places lm (j # js) (tok # toks) states =
     record_places lm js toks (states[j := record_token lm tok (states ! j)])"
| "record_places lm _ _ states = states"

definition tf_decode ::
  "'kv causal_lm \<Rightarrow> (real list list \<Rightarrow> nat list) \<Rightarrow> sequence_state list \<Rightarrow> 'kv tf_runner
     \<Rightarrow> (sequence_state list \<times> 'kv tf_runner) result" where
  "tf_decode lm multinomial states st =
     (let active = active_places states in
      if active = [] \<or> tf_cache st = None \<or> tf_last st = None then Inr (states, st)
      else let st = st\<lparr>tf_steps := Suc (tf_steps st)\<rparr>;
               wanted = map (\<lambda>(j, s). ss_id s) active;
               keep = filter (\<lambda>i. tf_rows st ! i \<in> set wanted) [0..<length (tf_rows st)] in
        rbind (if length keep \<noteq> length (tf_rows st) then keep_rows keep st else Inr st) (\<lambda>st.
          if tf_rows st = [] then Inr (states, st)
          else case (tf_cache st, tf_mask st, tf_last st) of
            (Some cache, Some attn, Some toks) \<Rightarrow>
              let attn = map (\<lambda>r. r @ [1]) attn;
                  places = map (the \<circ> place_of states) (tf_rows st) in
              rbind (lm_forward lm (map (\<lambda>t. [t]) toks) attn (map (\<lambda>r. [last r]) (positions attn)) (Some cache))
                (\<lambda>(logits, cache).
              rbind (sample (lm_argsort lm) multinomial logits (map (\<lambda>j. ss_generation (states ! j)) places))
                (\<lambda>tokens.
                  if length tokens \<noteq> length places then Inl ValueError
                  else Inr (record_places lm places tokens states,
                            st\<lparr>tf_cache := Some cache, tf_mask := Some attn, tf_last := Some tokens\<rparr>)))
          | _ \<Rightarrow> Inl AssertionError))"

definition tf_evict :: "int \<Rightarrow> 'kv tf_runner \<Rightarrow> 'kv tf_runner result" where
  "tf_evict i st =
     (if i \<notin> set (tf_rows st) then Inr st
      else keep_rows (filter (\<lambda>j. tf_rows st ! j \<noteq> i) [0..<length (tf_rows st)]) st)"

definition active_rows :: "'kv tf_runner \<Rightarrow> nat" where
  "active_rows st = length (tf_rows st)"

definition cache_length :: "'kv tf_runner \<Rightarrow> nat" where
  "cache_length st = (case tf_cache st of None \<Rightarrow> 0 | Some cache \<Rightarrow> width cache)"

text \<open>
  The runner behind the protocol. Its state is paired with that of the global random generator,
  from which every step takes its draw. \<open>evict\<close> raises only on a runner whose structures
  disagree, which no run produces; the protocol's \<open>evict\<close> has no exception.
\<close>

definition tf_ops ::
  "'kv causal_lm \<Rightarrow> ('g \<Rightarrow> (real list list \<Rightarrow> nat list) \<times> 'g) \<Rightarrow> ('kv tf_runner \<times> 'g) runner_ops" where
  "tf_ops lm draw = \<lparr>
     ro_prefill = (\<lambda>states (st, g). let (multinomial, g) = draw g in
        rbind (tf_prefill lm multinomial states st) (\<lambda>(states, st). Inr (states, st, g))),
     ro_decode = (\<lambda>states (st, g). let (multinomial, g) = draw g in
        rbind (tf_decode lm multinomial states st) (\<lambda>(states, st). Inr (states, st, g))),
     ro_evict = (\<lambda>i (st, g). (case tf_evict i st of Inr st' \<Rightarrow> st' | Inl _ \<Rightarrow> st, g))\<rparr>"

end
