(* ===== verification/Stepwise_Sampling.thy ===== *)
theory Stepwise_Sampling
  imports Stepwise_Transformers "HOL-Library.Multiset"
begin

text \<open>
  The batched sampler of the step-wise runner, row by row: when it returns, what a greedy row
  returns, and which tokens the filters leave to a row that is drawn.
\<close>

section \<open>When it returns\<close>

lemma sample_rows:
  assumes "sample argsort multinomial logits settings = Inr toks"
  shows "length toks \<le> length settings"
    and "j < length toks \<Longrightarrow> gc_temperature (settings ! j) = 0 \<Longrightarrow> toks ! j = int (argmax (logits ! j))"
  using assms by (auto simp: sample_def rbind_eq_Inr Let_def)

lemma fold_max_le: "(\<And>k. k \<in> set ks \<Longrightarrow> k \<le> v) \<Longrightarrow> n \<le> v \<Longrightarrow> fold max ks n \<le> v" for v :: int
  by (induction ks arbitrary: n) simp_all

lemma fold_max_ge: "k \<in> set ks \<Longrightarrow> k \<le> fold max ks n" for k :: int
proof (induction ks arbitrary: n)
  case (Cons a ks)
  have "m \<le> fold max ks m" for m
    by (induction ks arbitrary: m) (simp, metis (no_types) fold_simps(2) max.coboundedI2 max.cobounded2 comp_apply order.trans max.bounded_iff)
  then have "a \<le> fold max ks (max a n)"
    by (meson max.bounded_iff)
  with Cons show ?case
    by auto
qed simp

definition draws_one_each :: "(real list list \<Rightarrow> nat list) \<Rightarrow> bool" where
  "draws_one_each multinomial \<longleftrightarrow> (\<forall>rows. length (multinomial rows) = length rows)"

lemma filtered_rows_total:
  assumes "length logits = length settings" "\<forall>l \<in> set logits. length l = v"
    and "\<forall>g \<in> set settings. gc_top_k g \<le> int v"
  shows "\<exists>rows. filtered_rows argsort logits settings = Inr rows \<and> length rows = length logits"
proof -
  have "fold max (map gc_top_k settings) 0 \<le> int v"
    using assms(3) by (intro fold_max_le) auto
  moreover have "\<forall>r \<in> set (map (\<lambda>(t, r). scale_row t r) (zip (map (\<lambda>g. max (gc_temperature g) 0) settings) logits)). length r = v"
    using assms(2) by (auto simp: scale_row_def dest: set_zip_rightD)
  ultimately show ?thesis
    using assms(1) by (auto simp: filtered_rows_def Let_def list_ex_iff)
qed

lemma sample_total:
  assumes "length logits = length settings" "\<forall>l \<in> set logits. length l = v"
    and "\<forall>g \<in> set settings. gc_top_k g \<le> int v" "draws_one_each multinomial"
  shows "\<exists>toks. sample argsort multinomial logits settings = Inr toks \<and> length toks = length logits"
  using filtered_rows_total [OF assms(1-3), of argsort] assms(1,4)
  by (auto simp: sample_def draws_one_each_def Let_def)

text \<open>One request asking for more tokens than the vocabulary has makes the step of the whole batch raise.\<close>

lemma oversized_top_k_fails_the_batch:
  assumes "length logits = length settings" "\<forall>l \<in> set logits. length l = v" "g \<in> set settings" "int v < gc_top_k g"
  shows "sample argsort multinomial logits settings = Inl RuntimeError"
proof -
  have limit: "int v < fold max (map gc_top_k settings) 0"
    using fold_max_ge [of "gc_top_k g" "map gc_top_k settings" 0] assms(3,4) by simp
  have some: "list_ex (\<lambda>k. 0 < k) (map gc_top_k settings)"
    using assms(3,4) by (force simp: list_ex_iff)
  obtain l where l: "l \<in> set logits"
    using assms(1,3) by (cases logits) auto
  then obtain j where j: "j < length logits" "logits ! j = l"
    by (auto simp: in_set_conv_nth)
  let ?rows = "map (\<lambda>(t, r). scale_row t r) (zip (map (\<lambda>g. max (gc_temperature g) 0) settings) logits)"
  have "?rows ! j \<in> set ?rows"
    using j assms(1) by (intro nth_mem) simp
  moreover have "length (?rows ! j) = v"
    using j l assms(1,2) by (simp add: scale_row_def)
  ultimately have "list_ex (\<lambda>r. int (length r) < fold max (map gc_top_k settings) 0) ?rows"
    using limit unfolding list_ex_iff by metis
  with some show ?thesis
    by (simp add: sample_def filtered_rows_def Let_def)
qed

section \<open>The candidates of one row\<close>

text \<open>What the settings ask for, of a row of logits: fewer than \<open>top_k\<close> tokens are strictly better.\<close>

definition better :: "'a::linorder list \<Rightarrow> nat \<Rightarrow> nat set" where
  "better l i = {n. n < length l \<and> l ! i < l ! n}"

definition candidates :: "generation_config \<Rightarrow> real list \<Rightarrow> nat set" where
  "candidates g l = {i. i < length l \<and> (gc_top_k g \<le> 0 \<or> int (card (better l i)) < gc_top_k g)}"

definition weight :: "generation_config \<Rightarrow> real list \<Rightarrow> nat \<Rightarrow> real" where
  "weight g l i = exp (l ! i / gc_temperature g)"

lemma card_better: "card (better l i) = length (filter (\<lambda>y. l ! i < y) l)"
  by (simp add: better_def length_filter_conv_card conj_commute)

lemma nth_descending:
  "sorted (rev ds) \<Longrightarrow> q < length ds \<Longrightarrow> x < ds ! q \<longleftrightarrow> q < length (filter (\<lambda>y. x < y) ds)"
proof (induction ds arbitrary: q)
  case (Cons d ds)
  have le: "y \<le> d" if "y \<in> set ds" for y
    using Cons.prems(1) that by (auto simp: sorted_append)
  have tail: "sorted (rev ds)"
    using Cons.prems(1) by (simp add: sorted_append)
  show ?case
  proof (cases "x < d")
    case True
    with Cons.IH [OF tail] Cons.prems(2) show ?thesis
      by (cases q) simp_all
  next
    case False
    then have none: "filter (\<lambda>y. x < y) (d # ds) = []"
      using le by (force simp: filter_empty_conv)
    have "(d # ds) ! q \<le> d"
      using le Cons.prems(2) by (cases q) simp_all
    with False none show ?thesis
      by auto
  qed
qed simp

lemma nth_sorted_down:
  fixes l :: "'a::linorder list"
  assumes "q < length l"
  shows "x < rev (sort l) ! q \<longleftrightarrow> q < length (filter (\<lambda>y. x < y) l)"
proof -
  have "length (filter (\<lambda>y. x < y) (rev (sort l))) = length (filter (\<lambda>y. x < y) l)"
    by (metis mset_filter mset_rev mset_sort size_mset)
  with nth_descending [of "rev (sort l)" q x] assms show ?thesis
    by simp
qed

lemma top_k_row_nth:
  assumes "0 < limit" "k \<le> limit" "limit \<le> int (length row)" "i < length row"
  shows "top_k_row limit k row ! i = (if 0 < k \<and> k \<le> int (card (better row i)) then None else row ! i)"
proof (cases "0 < k")
  case True
  then have q: "nat (min (max k 1 - 1) (limit - 1)) = nat (k - 1)" "nat (k - 1) < nat limit" "nat (k - 1) < length row"
    using assms by auto
  have "row ! i < rev (sort row) ! nat (k - 1) \<longleftrightarrow> k \<le> int (card (better row i))"
    using nth_sorted_down [OF q(3), of "row ! i"] True by (auto simp: card_better)
  with True q assms(4) show ?thesis
    by (simp add: top_k_row_def Let_def)
next
  case False
  with assms(4) show ?thesis
    by (simp add: top_k_row_def Let_def)
qed

text \<open>Scaling by a positive temperature keeps the order.\<close>

lemma scale_row_nth: "0 < t \<Longrightarrow> i < length l \<Longrightarrow> scale_row t l ! i = Some (l ! i / t)"
  by (simp add: scale_row_def safe_temperature_def)

lemma length_scale_row [simp]: "length (scale_row t l) = length l"
  by (simp add: scale_row_def)

lemma better_scale_row:
  assumes "0 < t" "i < length l"
  shows "better (scale_row t l) i = better l i"
proof -
  have "scale_row t l ! i < scale_row t l ! n \<longleftrightarrow> l ! i < l ! n" if "n < length l" for n
    using that assms by (simp add: scale_row_nth divide_less_cancel)
  then show ?thesis
    by (auto simp: better_def)
qed

section \<open>The nucleus\<close>

definition sorts_down :: "(real option list \<Rightarrow> nat list) \<Rightarrow> bool" where
  "sorts_down argsort \<longleftrightarrow>
     (\<forall>row. mset (argsort row) = mset [0..<length row] \<and> sorted (rev (map ((!) row) (argsort row))))"

lemma length_cumsum: "length (cumsum_from a xs) = length xs"
  by (induction xs arbitrary: a) simp_all

lemma cumsum_nth: "q < length xs \<Longrightarrow> cumsum_from a xs ! q = a + sum_list (take (Suc q) xs)" for a :: real
proof (induction xs arbitrary: a q)
  case (Cons x xs)
  then show ?case
    by (cases q) simp_all
qed simp

lemma nucleus_nth:
  assumes "q < length row"
  shows "nucleus p row ! q =
    (if 0 < q \<and> p < sum_list (take q (softmax_logits row)) then None else row ! q)"
proof -
  have len: "length (softmax_logits row) = length row"
    by (simp add: softmax_logits_def Let_def)
  have "cumsum (softmax_logits row) ! q - softmax_logits row ! q = sum_list (take q (softmax_logits row))"
    using assms by (simp add: cumsum_def cumsum_nth len take_Suc_conv_app_nth)
  then show ?thesis
    using assms by (simp add: nucleus_def Let_def len cumsum_def length_cumsum)
qed

lemma length_nucleus: "length (nucleus p row) = length row"
  by (simp add: nucleus_def Let_def softmax_logits_def cumsum_def length_cumsum)

text \<open>A scatter along a permutation puts each value in its place.\<close>

lemma fold_scatter:
  assumes "distinct (map fst xs)" "\<forall>(j, v) \<in> set xs. j < length out"
  shows "length (fold (\<lambda>(j, v) out. out[j := v]) xs out) = length out"
    and "(j, v) \<in> set xs \<Longrightarrow> fold (\<lambda>(j, v) out. out[j := v]) xs out ! j = v"
proof -
  have "length (fold (\<lambda>(j, v) out. out[j := v]) xs out) = length out
      \<and> (\<forall>(j, v) \<in> set xs. fold (\<lambda>(j, v) out. out[j := v]) xs out ! j = v)
      \<and> (\<forall>j. j \<notin> fst ` set xs \<longrightarrow> fold (\<lambda>(j, v) out. out[j := v]) xs out ! j = out ! j)"
    using assms
  proof (induction xs arbitrary: out)
    case (Cons x xs)
    obtain j v where x: "x = (j, v)"
      by (cases x)
    from Cons.IH [of "out[j := v]"] Cons.prems show ?case
      by (auto simp: x nth_list_update)
  qed simp
  then show "length (fold (\<lambda>(j, v) out. out[j := v]) xs out) = length out"
    "(j, v) \<in> set xs \<Longrightarrow> fold (\<lambda>(j, v) out. out[j := v]) xs out ! j = v"
    by auto
qed

lemma scatter_nth:
  assumes "distinct order" "set order = {..<length src}" "length order = length src" "q < length src"
  shows "scatter order src ! (order ! q) = src ! q" "length (scatter order src) = length src"
proof -
  have "distinct (map fst (zip order src))" "\<forall>(j, v) \<in> set (zip order src). j < length src"
    using assms by (auto dest: set_zip_leftD)
  note f = fold_scatter [OF this]
  have "(order ! q, src ! q) \<in> set (zip order src)"
    using assms(3,4) by (force simp: set_zip)
  with f show "scatter order src ! (order ! q) = src ! q" "length (scatter order src) = length src"
    by (simp_all add: scatter_def)
qed

lemma sorts_downD:
  assumes "sorts_down argsort"
  shows "distinct (argsort row)" "set (argsort row) = {..<length row}" "length (argsort row) = length row"
    and "a \<le> b \<Longrightarrow> b < length row \<Longrightarrow> row ! (argsort row ! b) \<le> row ! (argsort row ! a)"
proof -
  have m: "mset (argsort row) = mset [0..<length row]" and s: "sorted (rev (map ((!) row) (argsort row)))"
    using assms by (simp_all add: sorts_down_def)
  show "distinct (argsort row)"
    using mset_eq_imp_distinct_iff [OF m] distinct_upt by blast
  show "set (argsort row) = {..<length row}"
    using mset_eq_setD [OF m] by (simp add: atLeast0LessThan)
  show len: "length (argsort row) = length row"
    using mset_eq_length [OF m] by simp
  show "row ! (argsort row ! b) \<le> row ! (argsort row ! a)" if "a \<le> b" "b < length row"
    using sorted_rev_nth_mono [OF s, of a b] that by (simp add: len)
qed

lemma top_p_row_nth:
  assumes down: "sorts_down argsort" and q: "q < length row"
  shows "top_p_row argsort p row ! (argsort row ! q) =
      (if 0 < q \<and> p < sum_list (take q (softmax_logits (map ((!) row) (argsort row)))) then None
       else row ! (argsort row ! q))"
    and "length (top_p_row argsort p row) = length row"
proof -
  note d = sorts_downD [OF down, where row = row]
  let ?src = "nucleus p (map ((!) row) (argsort row))"
  have len: "length ?src = length row"
    by (simp add: length_nucleus d(3))
  have o: "distinct (argsort row)" "set (argsort row) = {..<length ?src}" "length (argsort row) = length ?src" "q < length ?src"
    using d(1-3) q by (simp_all add: len)
  show "length (top_p_row argsort p row) = length row"
    using scatter_nth(2) [OF o] by (simp add: top_p_row_def Let_def len)
  show "top_p_row argsort p row ! (argsort row ! q) =
      (if 0 < q \<and> p < sum_list (take q (softmax_logits (map ((!) row) (argsort row)))) then None
       else row ! (argsort row ! q))"
    using scatter_nth(1) [OF o] q by (simp add: top_p_row_def Let_def nucleus_nth d(3) del: length_greater_0_conv)
qed

lemma exp_logit_pos: "0 \<le> exp_logit v" "0 < exp_logit v \<longleftrightarrow> v \<noteq> None"
  by (cases v; simp add: exp_logit_def)+

lemma softmax_take: "sum_list (take q (softmax_logits row)) = sum_list (take q (map exp_logit row)) / sum_list (map exp_logit row)"
proof -
  have "sum_list (map (\<lambda>v. v / (c :: real)) xs) = sum_list xs / c" for c xs
    by (induction xs) (simp_all add: add_divide_distrib)
  then show ?thesis
    by (simp add: softmax_logits_def Let_def take_map del: map_map)
qed

text \<open>What is kept has no more than the mass \<open>p\<close> strictly above it.\<close>

lemma nucleus_mass:
  assumes down: "sorts_down argsort" and i: "i < length row" and kept: "top_p_row argsort p row ! i \<noteq> None" and p: "0 < p"
  shows "row ! i \<noteq> None" "(\<Sum>m \<in> better row i. exp_logit (row ! m)) \<le> p * (\<Sum>m < length row. exp_logit (row ! m))"
proof -
  note d = sorts_downD [OF down, where row = row]
  obtain q where q: "q < length row" "argsort row ! q = i"
    using d(2,3) i by (metis in_set_conv_nth lessThan_iff)
  let ?e = "\<lambda>m. exp_logit (row ! m)" and ?order = "argsort row"
  let ?S = "\<Sum>m < length row. ?e m"
  note at = top_p_row_nth(1) [OF down q(1), of p, unfolded q(2)]
  show some: "row ! i \<noteq> None"
    using kept at by (auto split: if_splits)
  have all: "sum_list (map exp_logit (map ((!) row) ?order)) = ?S"
    using sum.distinct_set_conv_list [OF d(1), of ?e] by (simp add: d(2) comp_def)
  have "sum_list (take q (map exp_logit (map ((!) row) ?order))) = sum ?e (set (take q ?order))"
    using sum.distinct_set_conv_list [of "take q ?order" ?e] d(1) by (simp add: take_map comp_def)
  then have first: "sum_list (take q (softmax_logits (map ((!) row) ?order))) = sum ?e (set (take q ?order)) / ?S"
    unfolding softmax_take all by simp
  have "better row i \<subseteq> set (take q ?order)"
  proof
    fix m assume m: "m \<in> better row i"
    then have "m \<in> set ?order"
      by (simp add: better_def d(2))
    then obtain b where b: "b < length row" "?order ! b = m"
      using d(3) by (metis in_set_conv_nth)
    have "b < q"
    proof (rule ccontr)
      assume "\<not> b < q"
      with d(4) [of q b] b q m show False
        by (auto simp: better_def)
    qed
    with b d(3) show "m \<in> set (take q ?order)"
      by (force simp: in_set_conv_nth)
  qed
  then have "sum ?e (better row i) \<le> sum ?e (set (take q ?order))"
    by (intro sum_mono2) (simp_all add: exp_logit_pos)
  also have "\<dots> \<le> p * ?S"
  proof -
    have pos: "0 < ?S"
      using i some by (intro sum_pos2 [of _ i]) (simp_all add: exp_logit_pos)
    show ?thesis
    proof (cases "q = 0")
      case True
      then show ?thesis
        using p pos by simp
    next
      case False
      then have "sum ?e (set (take q ?order)) / ?S \<le> p"
        using kept at first by (auto split: if_splits)
      with pos show ?thesis
        by (simp add: pos_divide_le_eq)
    qed
  qed
  finally show "sum ?e (better row i) \<le> p * ?S" .
qed

lemma nucleus_keeps_one:
  assumes down: "sorts_down argsort" and i: "i < length row" "row ! i \<noteq> None"
  shows "\<exists>m < length row. top_p_row argsort p row ! m \<noteq> None"
proof -
  note d = sorts_downD [OF down, where row = row]
  obtain q where q: "q < length row" "argsort row ! q = i"
    using d(2,3) i(1) by (metis in_set_conv_nth lessThan_iff)
  have zero: "0 < length row"
    using i by auto
  have "row ! i \<le> row ! (argsort row ! 0)"
    using d(4) [of 0 q] q by simp
  with i(2) have "row ! (argsort row ! 0) \<noteq> None"
    by (metis less_eq_option_None_is_None)
  moreover have "argsort row ! 0 < length row"
    using d(2,3) zero nth_mem [of 0 "argsort row"] by auto
  ultimately show ?thesis
    using top_p_row_nth(1) [OF down zero, of p] by (intro exI [of _ "argsort row ! 0"]) simp
qed

section \<open>One row of the batch\<close>

definition draws_from_support :: "(real list list \<Rightarrow> nat list) \<Rightarrow> bool" where
  "draws_from_support multinomial \<longleftrightarrow>
     (\<forall>rows. length (multinomial rows) = length rows \<and>
        (\<forall>j < length rows. list_ex (\<lambda>w. 0 < w) (rows ! j) \<longrightarrow>
           multinomial rows ! j < length (rows ! j) \<and> 0 < rows ! j ! (multinomial rows ! j)))"

text \<open>After \<open>top_k\<close>, a row holds the scaled logits of its candidates.\<close>

definition candidate_row :: "generation_config \<Rightarrow> real list \<Rightarrow> real option list" where
  "candidate_row g l = map (\<lambda>i. if i \<in> candidates g l then Some (l ! i / gc_temperature g) else None) [0..<length l]"

lemma top_k_candidates:
  assumes "0 < gc_temperature g" "0 < limit" "gc_top_k g \<le> limit" "limit \<le> int (length l)"
  shows "top_k_row limit (gc_top_k g) (scale_row (gc_temperature g) l) = candidate_row g l"
proof (rule nth_equalityI)
  show "length (top_k_row limit (gc_top_k g) (scale_row (gc_temperature g) l)) = length (candidate_row g l)"
    by (simp add: top_k_row_def candidate_row_def Let_def)
  fix i assume "i < length (top_k_row limit (gc_top_k g) (scale_row (gc_temperature g) l))"
  then have i: "i < length l"
    by (simp add: top_k_row_def Let_def)
  with assms show "top_k_row limit (gc_top_k g) (scale_row (gc_temperature g) l) ! i = candidate_row g l ! i"
    by (auto simp: top_k_row_nth better_scale_row scale_row_nth candidate_row_def candidates_def)
qed

lemma scale_candidates:
  assumes "0 < gc_temperature g" "gc_top_k g \<le> 0"
  shows "scale_row (gc_temperature g) l = candidate_row g l"
  using assms by (intro nth_equalityI) (simp_all add: scale_row_nth candidate_row_def candidates_def)

lemma filtered_rows_nth:
  assumes run: "filtered_rows argsort logits settings = Inr rows"
    and len: "length logits = length settings" and j: "j < length logits" and t: "0 < gc_temperature (settings ! j)"
  shows "length rows = length logits"
    "rows ! j = candidate_row (settings ! j) (logits ! j) \<and> 1 \<le> gc_top_p (settings ! j)
      \<or> rows ! j = top_p_row argsort (gc_top_p (settings ! j)) (candidate_row (settings ! j) (logits ! j))"
proof -
  let ?ks = "map gc_top_k settings"
  let ?limit = "fold max ?ks 0"
  let ?rows = "map (\<lambda>(t, r). scale_row t r) (zip (map (\<lambda>g. max (gc_temperature g) 0) settings) logits)"
  define mid where "mid = (if list_ex (\<lambda>k. 0 < k) ?ks then map (\<lambda>(k, r). top_k_row ?limit k r) (zip ?ks ?rows) else ?rows)"
  have fits: "list_ex (\<lambda>k. 0 < k) ?ks \<Longrightarrow> \<not> list_ex (\<lambda>r. int (length r) < ?limit) ?rows"
    and rows: "rows = (if list_ex (\<lambda>p. p < 1) (map gc_top_p settings)
        then map (\<lambda>(p, r). top_p_row argsort p r) (zip (map gc_top_p settings) mid) else mid)"
    using run by (auto simp: filtered_rows_def Let_def mid_def rbind_eq_Inr split: if_splits)
  have lmid: "length mid = length logits"
    using len by (simp add: mid_def)
  with len show "length rows = length logits"
    by (simp add: rows)
  have "j < length ?rows"
    using len j by simp
  then have row: "?rows ! j = scale_row (gc_temperature (settings ! j)) (logits ! j)" "?rows ! j \<in> set ?rows"
    using len j t by (simp, intro nth_mem)
  have "mid ! j = candidate_row (settings ! j) (logits ! j)"
  proof (cases "list_ex (\<lambda>k. 0 < k) ?ks")
    case True
    then obtain k where "k \<in> set ?ks" "0 < k"
      by (auto simp: list_ex_iff)
    then have "0 < ?limit"
      using fold_max_ge [of k ?ks 0] by linarith
    moreover have "gc_top_k (settings ! j) \<le> ?limit"
      using fold_max_ge [of "gc_top_k (settings ! j)" ?ks 0] len j by simp
    moreover have "?limit \<le> int (length (logits ! j))"
      using fits [OF True] row(2) unfolding row(1) list_ex_iff by (metis length_scale_row not_less)
    ultimately show ?thesis
      using True top_k_candidates [OF t] len j row(1) by (simp add: mid_def)
  next
    case False
    then have "gc_top_k (settings ! j) \<le> 0"
      using len j by (auto simp: list_ex_iff not_less)
    with False show ?thesis
      using scale_candidates [OF t] row(1) by (simp add: mid_def)
  qed
  moreover have "list_ex (\<lambda>p. p < 1) (map gc_top_p settings) \<or> 1 \<le> gc_top_p (settings ! j)"
    using len j nth_mem [of j settings] unfolding list_ex_iff by (metis imageI list.set_map not_less)
  ultimately show "rows ! j = candidate_row (settings ! j) (logits ! j) \<and> 1 \<le> gc_top_p (settings ! j)
      \<or> rows ! j = top_p_row argsort (gc_top_p (settings ! j)) (candidate_row (settings ! j) (logits ! j))"
    using len j lmid by (auto simp: rows)
qed

lemma candidates_nonempty:
  assumes "l \<noteq> []"
  shows "\<exists>i < length l. i \<in> candidates g l"
proof -
  have "finite (set l)" "set l \<noteq> {}"
    using assms by simp_all
  then obtain i where i: "i < length l" "l ! i = Max (set l)"
    by (metis Max_in in_set_conv_nth)
  have "l ! n \<le> l ! i" if "n < length l" for n
    using that i(2) by simp
  then have "better l i = {}"
    by (auto simp: better_def dest: leD)
  with i(1) show ?thesis
    by (auto simp: candidates_def)
qed

lemma candidate_row_nth:
  "length (candidate_row g l) = length l"
  "i < length l \<Longrightarrow> candidate_row g l ! i = (if i \<in> candidates g l then Some (l ! i / gc_temperature g) else None)"
  by (simp_all add: candidate_row_def)

lemma candidate_mass: "(\<Sum>m < length l. exp_logit (candidate_row g l ! m)) = (\<Sum>m \<in> candidates g l. weight g l m)"
proof -
  have "candidates g l = {..<length l} \<inter> candidates g l"
    by (auto simp: candidates_def)
  moreover have "(\<Sum>m < length l. exp_logit (candidate_row g l ! m))
      = (\<Sum>m < length l. if m \<in> candidates g l then weight g l m else 0)"
    by (rule sum.cong) (simp_all add: candidate_row_nth exp_logit_def weight_def)
  ultimately show ?thesis
    by (metis sum.inter_restrict finite_lessThan)
qed

lemma candidate_better:
  assumes "0 < gc_temperature g" "i \<in> candidates g l"
  shows "(\<Sum>m \<in> better (candidate_row g l) i. exp_logit (candidate_row g l ! m))
    = (\<Sum>m \<in> candidates g l \<inter> better l i. weight g l m)"
proof (rule sum.cong)
  have i: "i < length l"
    using assms(2) by (simp add: candidates_def)
  show "better (candidate_row g l) i = candidates g l \<inter> better l i"
    using assms i by (auto simp: better_def candidate_row_nth divide_less_cancel split: if_splits)
  fix m assume "m \<in> candidates g l \<inter> better l i"
  then show "exp_logit (candidate_row g l ! m) = weight g l m"
    by (simp add: candidate_row_nth better_def exp_logit_def weight_def)
qed

text \<open>C23: A drawn token passed its row's filters, whatever the settings of the rows beside it: fewer than
  \<open>top_k\<close> tokens are strictly likelier, and the candidates strictly likelier carry at most the share
  \<open>top_p\<close> of the mass of all candidates.\<close>

theorem drawn_tokens_pass_the_filters:
  assumes "sample argsort multinomial logits settings = Inr toks" "length logits = length settings"
    and "sorts_down argsort" "draws_from_support multinomial"
    and "j < length logits" "logits ! j \<noteq> []" "0 < gc_temperature (settings ! j)" "0 < gc_top_p (settings ! j)"
  shows "\<exists>i. toks ! j = int i \<and> i \<in> candidates (settings ! j) (logits ! j)
    \<and> (\<Sum>m \<in> candidates (settings ! j) (logits ! j) \<inter> better (logits ! j) i. weight (settings ! j) (logits ! j) m)
      \<le> gc_top_p (settings ! j) * (\<Sum>m \<in> candidates (settings ! j) (logits ! j). weight (settings ! j) (logits ! j) m)"
proof -
  let ?g = "settings ! j" and ?l = "logits ! j"
  let ?c = "candidate_row ?g ?l"
  obtain rows where rows: "filtered_rows argsort logits settings = Inr rows"
    using assms(1) by (auto simp: sample_def rbind_eq_Inr)
  note f = filtered_rows_nth [OF rows assms(2,5,7)]
  define i where "i = multinomial (map softmax_logits rows) ! j"
  have drawn: "toks ! j = int i"
    using assms(1,2,4,5,7) f(1) by (auto simp: sample_def rows i_def draws_from_support_def Let_def)
  obtain n where n: "n < length ?l" "n \<in> candidates ?g ?l"
    using candidates_nonempty [OF assms(6)] by blast
  have len: "length (rows ! j) = length ?l"
    using f(2) top_p_row_nth(2) [OF assms(3), of n ?c] n(1) by (auto simp: candidate_row_nth)
  have "\<exists>m < length ?l. rows ! j ! m \<noteq> None"
    using f(2) nucleus_keeps_one [OF assms(3), of n ?c] n by (auto simp: candidate_row_nth)
  then obtain m where m: "m < length (rows ! j)" "rows ! j ! m \<noteq> None"
    using len by auto
  have pos: "0 < softmax_logits (rows ! j) ! q \<longleftrightarrow> rows ! j ! q \<noteq> None" if "q < length (rows ! j)" for q
  proof -
    have "0 < (\<Sum>q < length (rows ! j). exp_logit (rows ! j ! q))"
      using m by (intro sum_pos2 [of _ m]) (simp_all add: exp_logit_pos)
    then have "0 < sum_list (map exp_logit (rows ! j))"
      by (simp add: sum_list_sum_nth atLeast0LessThan)
    with that show ?thesis
      by (simp add: softmax_logits_def Let_def zero_less_divide_iff exp_logit_pos(2) [symmetric] del: not_None_eq)
  qed
  have "list_ex (\<lambda>w. 0 < w) (softmax_logits (rows ! j))"
    using m pos [OF m(1)] by (force simp: list_ex_length softmax_logits_def Let_def)
  then have "i < length (softmax_logits (rows ! j)) \<and> 0 < softmax_logits (rows ! j) ! i"
    using assms(4) [unfolded draws_from_support_def, THEN spec, of "map softmax_logits rows"] assms(5) f(1)
    by (simp add: i_def)
  moreover have "length (softmax_logits (rows ! j)) = length (rows ! j)"
    by (simp add: softmax_logits_def Let_def)
  ultimately have "i < length (rows ! j)" "0 < softmax_logits (rows ! j) ! i"
    by simp_all
  with pos have i: "i < length ?l" "rows ! j ! i \<noteq> None"
    using len by auto
  show ?thesis
  proof (cases "rows ! j = ?c \<and> 1 \<le> gc_top_p ?g")
    case True
    with i have c: "i \<in> candidates ?g ?l"
      by (simp add: candidate_row_nth split: if_splits)
    let ?S = "\<Sum>m \<in> candidates ?g ?l. weight ?g ?l m"
    have fin: "finite (candidates ?g ?l)"
      by (simp add: candidates_def)
    have "0 \<le> ?S"
      by (simp add: sum_nonneg weight_def)
    then have "?S \<le> gc_top_p ?g * ?S"
      using True mult_right_mono [of 1 "gc_top_p ?g" ?S] by simp
    moreover have "(\<Sum>m \<in> candidates ?g ?l \<inter> better ?l i. weight ?g ?l m) \<le> ?S"
      using fin by (intro sum_mono2) (simp_all add: weight_def)
    ultimately show ?thesis
      using drawn c by (intro exI [of _ i]) simp
  next
    case False
    with f(2) have r: "rows ! j = top_p_row argsort (gc_top_p ?g) ?c"
      by blast
    have "i < length ?c" "top_p_row argsort (gc_top_p ?g) ?c ! i \<noteq> None"
      using i r by (simp_all add: candidate_row_nth)
    note mass = nucleus_mass [OF assms(3) this assms(8)]
    then have c: "i \<in> candidates ?g ?l"
      using i(1) by (simp add: candidate_row_nth split: if_splits)
    with mass(2) drawn show ?thesis
      by (intro exI [of _ i]) (simp add: candidate_row_nth(1) candidate_mass candidate_better [OF assms(7) c])
  qed
qed

text \<open>A sort and a draw that satisfy the hypotheses: by value, and the first index with any weight.\<close>

definition argsort_down :: "real option list \<Rightarrow> nat list" where
  "argsort_down row = rev (sort_key ((!) row) [0..<length row])"

definition draw_first :: "real list list \<Rightarrow> nat list" where
  "draw_first rows = map (\<lambda>r. length (takeWhile (\<lambda>w. \<not> 0 < w) r)) rows"

lemma argsort_down_sorts: "sorts_down argsort_down"
  by (simp add: sorts_down_def argsort_down_def rev_map [symmetric])

lemma draw_first_from_support: "draws_from_support draw_first"
proof -
  have "length (takeWhile (\<lambda>w. \<not> 0 < w) r) < length r" if "list_ex (\<lambda>w. 0 < w) r" for r :: "real list"
    using that by (metis length_takeWhile_le le_neq_implies_less list_ex_iff takeWhile_eq_all_conv takeWhile_eq_take take_all_iff)
  then show ?thesis
    by (auto simp: draws_from_support_def draw_first_def dest!: nth_length_takeWhile)
qed

lemma candidates_of_one: "gc_top_k g = 1 \<Longrightarrow> candidates g [0, 1] = {1}"
  by (auto simp: candidates_def card_better less_Suc_eq split: if_splits)

theorem drawn_tokens_pass_the_filters_witness:
  "\<exists>toks. sample argsort_down draw_first [[0, 1]] [gc_defaults\<lparr>gc_top_k := 1, gc_top_p := 1 / 2\<rparr>] = Inr toks \<and> toks ! 0 = 1"
proof -
  let ?g = "gc_defaults\<lparr>gc_top_k := 1, gc_top_p := 1 / 2\<rparr>"
  have "\<exists>toks. sample argsort_down draw_first [[0, 1]] [?g] = Inr toks \<and> length toks = length [[0 :: real, 1]]"
    by (rule sample_total [where v = 2]) (simp_all add: draws_one_each_def draw_first_def)
  then obtain toks where toks: "sample argsort_down draw_first [[0, 1]] [?g] = Inr toks"
    by blast
  from drawn_tokens_pass_the_filters [OF toks _ argsort_down_sorts draw_first_from_support, of 0]
  have "toks ! 0 = 1"
    by (auto simp: gc_defaults_def candidates_of_one)
  with toks show ?thesis
    by blast
qed

end
