(* ===== verification/Stepwise_Transformers_Properties.thy ===== *)
theory Stepwise_Transformers_Properties
  imports Stepwise_Sampling
begin

text \<open>
  The step-wise runner against decoding each sequence alone. What is asked of the language
  model is stated as hypotheses: the tokenizer pads on the left and masks its padding, and a
  masked position has no influence on the other entries of its row as long as the positions
  of the unmasked ones are those of a sequence without padding. Then rows that come, go and
  are re-aligned do not influence each other.
\<close>

section \<open>A causal model, one sequence at a time\<close>

text \<open>The cache after the tokens \<open>ts\<close>: the entry of a token depends on the entries before it.\<close>

definition feed :: "('kv list \<Rightarrow> int \<Rightarrow> 'kv) \<Rightarrow> 'kv list \<Rightarrow> int list \<Rightarrow> 'kv list" where
  "feed kv h ts = fold (\<lambda>t h. h @ [kv h t]) ts h"

definition real_entries :: "int list \<Rightarrow> 'a list \<Rightarrow> 'a list" where
  "real_entries m r = map snd (filter (\<lambda>(a, e). a = 1) (zip m r))"

definition left_mask :: "nat \<Rightarrow> nat \<Rightarrow> int list" where
  "left_mask pads reals = replicate pads 0 @ replicate reals 1"

definition encodes :: "'kv causal_lm \<Rightarrow> (string \<Rightarrow> int list) \<Rightarrow> bool" where
  "encodes lm prompt_ids \<longleftrightarrow>
     (\<forall>prompts ids attn. lm_encode lm prompts = (ids, attn) \<longrightarrow>
        length ids = length prompts \<and> length attn = length prompts \<and>
        (\<exists>n. \<forall>i < length prompts. let p = prompt_ids (prompts ! i) in
           p \<noteq> [] \<and> length p \<le> n \<and> length (ids ! i) = n \<and> drop (n - length p) (ids ! i) = p
           \<and> attn ! i = left_mask (n - length p) (length p)))"

definition attends_row ::
  "('kv list \<Rightarrow> int \<Rightarrow> 'kv) \<Rightarrow> ('kv list \<Rightarrow> real list) \<Rightarrow> int list \<Rightarrow> int list \<Rightarrow> int list
     \<Rightarrow> 'kv list \<Rightarrow> real list \<Rightarrow> 'kv list \<Rightarrow> bool" where
  "attends_row kv logits_of ids m pos past l e \<longleftrightarrow>
     (let old = length m - length ids; hist = real_entries (take old m) past;
          new = real_entries (drop old m) ids
      in real_entries (drop old m) pos = map int [length hist..<length hist + length new] \<and> new \<noteq> [] \<longrightarrow>
         length e = length m \<and> real_entries m e = feed kv hist new \<and> l = logits_of (feed kv hist new))"

definition attends ::
  "'kv causal_lm \<Rightarrow> ('kv list \<Rightarrow> int \<Rightarrow> 'kv) \<Rightarrow> ('kv list \<Rightarrow> real list) \<Rightarrow> bool" where
  "attends lm kv logits_of \<longleftrightarrow>
     (\<forall>ids attn pos past old new.
        length attn = length ids \<and> length pos = length ids \<and>
        (case past of None \<Rightarrow> old = 0 | Some c \<Rightarrow> length c = length ids \<and> (\<forall>r \<in> set c. length r = old)) \<and>
        (\<forall>r \<in> set attn. length r = old + new) \<and> (\<forall>r \<in> set ids. length r = new) \<and> (\<forall>r \<in> set pos. length r = new) \<longrightarrow>
        (\<exists>logits cache. lm_forward lm ids attn pos past = Inr (logits, cache)
           \<and> length logits = length ids \<and> length cache = length ids
           \<and> (\<forall>i < length ids. attends_row kv logits_of (ids ! i) (attn ! i) (pos ! i)
                (case past of None \<Rightarrow> [] | Some c \<Rightarrow> c ! i) (logits ! i) (cache ! i))))"

lemma attendsD:
  assumes "attends lm kv logits_of" "length attn = length ids" "length pos = length ids"
    and "case past of None \<Rightarrow> old = 0 | Some c \<Rightarrow> length c = length ids \<and> (\<forall>r \<in> set c. length r = old)"
    and "\<forall>r \<in> set attn. length r = old + new" "\<forall>r \<in> set ids. length r = new" "\<forall>r \<in> set pos. length r = new"
  obtains logits cache where "lm_forward lm ids attn pos past = Inr (logits, cache)"
    "length logits = length ids" "length cache = length ids"
    "\<And>i. i < length ids \<Longrightarrow> attends_row kv logits_of (ids ! i) (attn ! i) (pos ! i)
       (case past of None \<Rightarrow> [] | Some c \<Rightarrow> c ! i) (logits ! i) (cache ! i)"
proof -
  note all = assms(1) [unfolded attends_def, THEN spec [of _ ids], THEN spec [of _ attn], THEN spec [of _ pos],
      THEN spec [of _ past], THEN spec [of _ old], THEN spec [of _ new], THEN mp, OF conjI, OF assms(2) conjI,
      OF assms(3) conjI, OF assms(4) conjI, OF assms(5) conjI, OF assms(6,7)]
  then show thesis
  proof (elim exE conjE)
    fix logits cache
    assume "lm_forward lm ids attn pos past = Inr (logits, cache)" "length logits = length ids" "length cache = length ids"
      "\<forall>i < length ids. attends_row kv logits_of (ids ! i) (attn ! i) (pos ! i)
         (case past of None \<Rightarrow> [] | Some c \<Rightarrow> c ! i) (logits ! i) (cache ! i)"
    then show thesis
      by (intro that) blast+
  qed
qed

section \<open>Masks and entries\<close>

lemma feed_simps [simp]: "feed kv h [] = h" "feed kv h (ts @ [t]) = feed kv h ts @ [kv (feed kv h ts) t]"
  by (simp_all add: feed_def)

lemma feed_append: "feed kv h (xs @ ys) = feed kv (feed kv h xs) ys"
  by (simp add: feed_def)

lemma length_feed [simp]: "length (feed kv h ts) = length h + length ts"
  by (induction ts rule: rev_induct) simp_all

lemma real_entries_append:
  "length m = length r \<Longrightarrow> real_entries (m @ m') (r @ r') = real_entries m r @ real_entries m' r'"
  by (simp add: real_entries_def)

lemma real_entries_ones: "length r = n \<Longrightarrow> real_entries (replicate n 1) r = r"
  by (induction r arbitrary: n) (auto simp: real_entries_def)

lemma real_entries_zeros: "real_entries (replicate n 0) r = []"
  by (auto simp: real_entries_def filter_empty_conv dest: set_zip_leftD)

lemma length_left_mask [simp]: "length (left_mask p q) = p + q"
  by (simp add: left_mask_def)

lemma real_entries_left_mask:
  assumes "length r = p + q"
  shows "real_entries (left_mask p q) r = drop p r"
proof -
  have "real_entries (left_mask p q) (take p r @ drop p r) = drop p r"
    using assms by (simp only: left_mask_def real_entries_append length_replicate length_take min.absorb2
        real_entries_zeros) (simp add: real_entries_ones)
  then show ?thesis
    by simp
qed

lemma cumsum_from_append: "cumsum_from a (xs @ ys) = cumsum_from a xs @ cumsum_from (a + sum_list xs) ys"
  for a :: int
  by (induction xs arbitrary: a) (simp_all add: add.assoc)

lemma cumsum_zeros: "cumsum_from 0 (replicate p (0 :: int)) = replicate p 0"
  by (induction p) simp_all

lemma cumsum_ones: "cumsum_from a (replicate q (1 :: int)) = map (\<lambda>i. a + int i) [1..<Suc q]"
proof (induction q arbitrary: a)
  case (Suc q)
  have "map (\<lambda>i. a + int i) [1..<Suc (Suc q)] = (a + 1) # map (\<lambda>i. a + 1 + int i) [1..<Suc q]"
    by (simp add: upt_conv_Cons map_Suc_upt [symmetric] del: upt_Suc)
  with Suc show ?case
    by simp
qed simp

text \<open>The positions of a left-padded row: zero on the padding, then counting up.\<close>

lemma positions_left_mask:
  "positions (map (\<lambda>(p, q). left_mask p q) pqs) = map (\<lambda>(p, q). replicate p 0 @ map int [0..<q]) pqs"
proof -
  have "cumsum (left_mask p q) = replicate p 0 @ map int [1..<Suc q]" for p q
    by (simp add: cumsum_def left_mask_def cumsum_from_append cumsum_zeros sum_list_replicate cumsum_ones del: upt_Suc)
  moreover have "map (\<lambda>c. max (c - 1) 0) (map int [1..<Suc q]) = map int [0..<q]" for q
    by (simp add: map_Suc_upt [symmetric] del: upt_Suc)
  ultimately have "map (\<lambda>c. max (c - 1) 0) (cumsum (left_mask p q)) = replicate p 0 @ map int [0..<q]" for p q
    by (simp del: upt_Suc map_map)
  then show ?thesis
    by (simp add: positions_def comp_def split_beta)
qed

section \<open>One row\<close>

text \<open>
  Row \<open>e\<close> of width \<open>w\<close> under mask \<open>m\<close>, with last token \<open>t\<close>, holds the sequence of tokens \<open>xs\<close>:
  all of them but the last are in the cache, as if they had been fed alone.
\<close>

definition row_holds ::
  "('kv list \<Rightarrow> int \<Rightarrow> 'kv) \<Rightarrow> nat \<Rightarrow> 'kv list \<Rightarrow> int list \<Rightarrow> int \<Rightarrow> int list \<Rightarrow> bool" where
  "row_holds kv w e m t xs \<longleftrightarrow> length e = w \<and> xs \<noteq> [] \<and> length xs - 1 \<le> w
     \<and> m = left_mask (w - (length xs - 1)) (length xs - 1)
     \<and> real_entries m e = feed kv [] (butlast xs) \<and> t = last xs"

lemma row_holds_pad:
  assumes "row_holds kv w e m t xs"
  shows "row_holds kv (d + w) (replicate d zero @ e) (replicate d 0 @ m) t xs"
proof -
  define k where "k = length xs - 1"
  have k: "k \<le> w" "m = left_mask (w - k) k"
    using assms by (simp_all add: row_holds_def k_def)
  then have "left_mask (d + w - k) k = replicate d 0 @ m"
    by (simp add: left_mask_def replicate_add [symmetric])
  then have msk: "left_mask (d + w - (length xs - 1)) (length xs - 1) = replicate d 0 @ m"
    by (simp add: k_def)
  have ent: "real_entries (replicate d 0 @ m) (replicate d zero @ e) = real_entries m e"
    by (simp add: real_entries_append real_entries_zeros)
  have "length e = w" "xs \<noteq> []" "length xs - 1 \<le> w" "real_entries m e = feed kv [] (butlast xs)" "t = last xs"
    using assms unfolding row_holds_def by blast+
  then show ?thesis
    unfolding row_holds_def msk ent by simp
qed

text \<open>A fresh row after its prompt, and a row after one more decode step.\<close>

lemma row_holds_prompt:
  assumes "attends_row kv logits_of ids m (replicate p 0 @ map int [0..<q]) [] l e"
    and m: "m = left_mask p q" "length ids = p + q" "drop p ids = prompt" "prompt \<noteq> []"
  shows "row_holds kv (p + q) e m t (prompt @ [t]) \<and> l = logits_of (feed kv [] prompt)"
proof -
  have q: "length prompt = q"
    using m(2,3) by auto
  have "real_entries m (replicate p (0 :: int) @ map int [0..<q]) = map int [0..<q]"
    "real_entries m ids = prompt"
    using m by (simp_all add: real_entries_left_mask)
  moreover have "length m - length ids = 0"
    by (simp add: m)
  ultimately have "length e = p + q" "real_entries m e = feed kv [] prompt" "l = logits_of (feed kv [] prompt)"
    using assms(1) m(4) by (simp_all add: attends_row_def Let_def real_entries_def [of "[]"] q) (simp add: m(1))
  then show ?thesis
    by (simp add: row_holds_def q m(1))
qed

lemma row_holds_step:
  assumes row: "row_holds kv w e m t xs"
    and "attends_row kv logits_of [t] (m @ [1]) [int (length xs - 1)] e l e'"
  shows "row_holds kv (Suc w) e' (m @ [1]) t' (xs @ [t']) \<and> l = logits_of (feed kv [] xs)"
proof -
  have xs: "xs = butlast xs @ [t]" and len: "length m = w"
    using row by (simp_all add: row_holds_def)
  have one: "real_entries [1] [x] = [x]" for x :: 'x
    by (simp add: real_entries_def)
  have old: "length (m @ [1]) - length [t] = w" "take w (m @ [1]) = m" "drop w (m @ [1]) = [1]"
    using len by simp_all
  have hist: "real_entries m e = feed kv [] (butlast xs)"
    using row unfolding row_holds_def by blast
  have "real_entries [1] [int (length xs - 1)] = map int [length (feed kv [] (butlast xs))..<length (feed kv [] (butlast xs)) + length [t]]"
    by (simp add: one)
  then have "length e' = length (m @ [1])" "real_entries (m @ [1]) e' = feed kv (feed kv [] (butlast xs)) [t]"
      "l = logits_of (feed kv (feed kv [] (butlast xs)) [t])"
    using assms(2) unfolding attends_row_def Let_def old hist one by simp_all
  moreover have "feed kv (feed kv [] (butlast xs)) [t] = feed kv [] xs"
    using xs by (metis feed_append)
  moreover have "m @ [1] = left_mask (Suc w - length xs) (length xs)"
    using row by (cases xs) (simp_all add: row_holds_def left_mask_def replicate_append_same)
  moreover have "length xs \<le> Suc w"
    using row unfolding row_holds_def by linarith
  ultimately show ?thesis
    using row len by (simp add: row_holds_def)
qed

section \<open>The batch\<close>

text \<open>Rows, cache, mask and last tokens are populated together; row \<open>i\<close> holds \<open>f\<close> of its sequence.\<close>

definition holds :: "('kv list \<Rightarrow> int \<Rightarrow> 'kv) \<Rightarrow> 'kv tf_runner \<Rightarrow> (int \<Rightarrow> int list) \<Rightarrow> bool" where
  "holds kv st f \<longleftrightarrow> distinct (tf_rows st) \<and>
     (if tf_rows st = [] then tf_cache st = None \<and> tf_mask st = None \<and> tf_last st = None
      else \<exists>cache attn toks w. tf_cache st = Some cache \<and> tf_mask st = Some attn \<and> tf_last st = Some toks
        \<and> length cache = length (tf_rows st) \<and> length attn = length (tf_rows st) \<and> length toks = length (tf_rows st)
        \<and> (\<forall>i < length (tf_rows st). row_holds kv w (cache ! i) (attn ! i) (toks ! i) (f (tf_rows st ! i))))"

lemma holds_cong: "(\<And>i. i \<in> set (tf_rows st) \<Longrightarrow> f i = g i) \<Longrightarrow> holds kv st f = holds kv st g"
  by (auto simp: holds_def)

lemma holds_counters [simp]:
  "holds kv (st\<lparr>tf_steps := n\<rparr>) f = holds kv st f" "holds kv (st\<lparr>tf_prefills := n\<rparr>) f = holds kv st f"
  by (simp_all add: holds_def)

lemma pick_filter: "pick (filter (\<lambda>j. P (xs ! j)) [0..<length xs]) xs = filter P xs"
  by (simp add: pick_def filter_map [symmetric, unfolded comp_def] map_nth)

lemma keep_rows_holds:
  assumes h: "holds kv st f" and keep: "keep = filter (\<lambda>j. P (tf_rows st ! j)) [0..<length (tf_rows st)]"
  shows "\<exists>st'. keep_rows keep st = Inr st' \<and> holds kv st' f \<and> tf_rows st' = filter P (tf_rows st)
    \<and> tf_steps st' = tf_steps st \<and> tf_prefills st' = tf_prefills st"
proof (cases "keep = []")
  case True
  have rows: "pick keep (tf_rows st) = filter P (tf_rows st)"
    by (simp add: keep pick_filter)
  with True show ?thesis
    by (simp add: keep_rows_def holds_def pick_def)
next
  case False
  have rows: "pick keep (tf_rows st) = filter P (tf_rows st)"
    by (simp add: keep pick_filter)
  have in_range: "\<forall>j \<in> set keep. j < length (tf_rows st)"
    by (simp add: keep)
  have "tf_rows st \<noteq> []"
    using False keep by auto
  then obtain cache attn toks w where t: "tf_cache st = Some cache" "tf_mask st = Some attn" "tf_last st = Some toks"
      "\<forall>i < length (tf_rows st). row_holds kv w (cache ! i) (attn ! i) (toks ! i) (f (tf_rows st ! i))"
    using h by (auto simp: holds_def)
  let ?st = "st\<lparr>tf_cache := Some (pick keep cache), tf_mask := Some (pick keep attn),
    tf_last := Some (pick keep toks), tf_rows := pick keep (tf_rows st)\<rparr>"
  have "distinct (pick keep (tf_rows st))"
    using h by (simp add: rows holds_def)
  then have "holds kv ?st f"
    using t(4) in_range False unfolding holds_def by (auto simp: pick_def intro!: exI [of _ w])
  then show ?thesis
    using False t rows by (simp add: keep_rows_def)
qed

section \<open>Prefill\<close>

text \<open>Rows merged from the left: what was held is held, the incoming rows are those of the argument.\<close>

lemma merge_cache_ok:
  assumes h: "holds kv st f"
    and past: "length past = n" "length attn = n" "0 < n"
    and new: "\<And>i. i < n \<Longrightarrow> row_holds kv w (past ! i) (attn ! i) (toks i) (g i)"
  shows "\<exists>st' cache' attn' w'. merge_cache zero past attn st = Inr st'
    \<and> st' = st\<lparr>tf_cache := Some cache', tf_mask := Some attn'\<rparr>
    \<and> length cache' = length (tf_rows st) + n \<and> length attn' = length (tf_rows st) + n
    \<and> (\<forall>i < length (tf_rows st). row_holds kv w' (cache' ! i) (attn' ! i) (the (tf_last st) ! i) (f (tf_rows st ! i)))
    \<and> (\<forall>i < n. row_holds kv w' (cache' ! (length (tf_rows st) + i)) (attn' ! (length (tf_rows st) + i)) (toks i) (g i))"
proof (cases "tf_rows st = []")
  case True
  with h new past show ?thesis
    by (intro exI [of _ "st\<lparr>tf_cache := Some past, tf_mask := Some attn\<rparr>"] exI [of _ past] exI [of _ attn] exI [of _ w])
      (simp add: merge_cache_def holds_def)
next
  case False
  then obtain cache old last v where t: "tf_cache st = Some cache" "tf_mask st = Some old" "tf_last st = Some last"
      "length cache = length (tf_rows st)" "length old = length (tf_rows st)"
      "\<And>i. i < length (tf_rows st) \<Longrightarrow> row_holds kv v (cache ! i) (old ! i) (last ! i) (f (tf_rows st ! i))"
    using h by (auto simp: holds_def)
  have lens: "width cache = v" "width old = v" "width past = w" "width attn = w"
  proof -
    have "length (cache ! 0) = v" "length (old ! 0) = v" "length (past ! 0) = w" "length (attn ! 0) = w"
      using t(6) [of 0] new [of 0] False past(3) by (auto simp: row_holds_def)
    then show "width cache = v" "width old = v" "width past = w" "width attn = w"
      using t(4,5) past False by (cases cache; cases old; cases past; cases attn; simp add: width_def)+
  qed
  let ?c = "max v w"
  have pad: "left_pad z ?c xs = map (\<lambda>r. replicate (?c - width xs) z @ r) xs" if "width xs \<le> ?c" for z and xs :: "'x list list"
    using that by (auto simp: left_pad_def Let_def nat_diff_distrib intro: map_idI [symmetric])
  let ?cache = "map (\<lambda>r. replicate (?c - v) zero @ r) cache @ map (\<lambda>r. replicate (?c - w) zero @ r) past"
  let ?attn = "map (\<lambda>r. replicate (?c - v) 0 @ r) old @ map (\<lambda>r. replicate (?c - w) 0 @ r) attn"
  have "merge_cache zero past attn st = Inr (st\<lparr>tf_cache := Some ?cache, tf_mask := Some ?attn\<rparr>)"
    using False t(1,2) by (simp add: merge_cache_def pad lens Let_def)
  moreover have "row_holds kv ?c (?cache ! i) (?attn ! i) (the (tf_last st) ! i) (f (tf_rows st ! i))"
    if "i < length (tf_rows st)" for i
    using row_holds_pad [OF t(6) [OF that], of "?c - v" zero] that t(3-5) by (simp add: nth_append)
  moreover have "row_holds kv ?c (?cache ! (length (tf_rows st) + i)) (?attn ! (length (tf_rows st) + i)) (toks i) (g i)"
    if "i < n" for i
    using row_holds_pad [OF new [OF that], of "?c - w" zero] that t(4,5) past by (simp add: nth_append)
  ultimately show ?thesis
    using t(4,5) past by (intro exI [of _ "st\<lparr>tf_cache := Some ?cache, tf_mask := Some ?attn\<rparr>"]
        exI [of _ ?cache] exI [of _ ?attn] exI [of _ ?c]) simp
qed

definition prompt_known :: "(string \<Rightarrow> int list) \<Rightarrow> sequence_state \<Rightarrow> sequence_state" where
  "prompt_known prompt_ids s = s\<lparr>ss_prompt_tokens := int (length (prompt_ids (ss_prompt s)))\<rparr>"

lemma prefill_forward:
  assumes enc: "encodes lm prompt_ids" and att: "attends lm kv logits_of"
    and ids: "lm_encode lm prompts = (ids, attn)" "prompts \<noteq> []"
  shows "\<exists>logits past w. lm_forward lm ids attn (positions attn) None = Inr (logits, past)
    \<and> length logits = length prompts \<and> length past = length prompts \<and> length attn = length prompts
    \<and> (\<forall>i < length prompts. sum_list (attn ! i) = int (length (prompt_ids (prompts ! i)))
        \<and> logits ! i = logits_of (feed kv [] (prompt_ids (prompts ! i)))
        \<and> (\<forall>t. row_holds kv w (past ! i) (attn ! i) t (prompt_ids (prompts ! i) @ [t])))"
proof -
  let ?N = "length prompts" and ?p = "\<lambda>i. prompt_ids (prompts ! i)"
  obtain n where n: "length ids = ?N" "length attn = ?N"
      "\<And>i. i < ?N \<Longrightarrow> ?p i \<noteq> [] \<and> length (?p i) \<le> n \<and> length (ids ! i) = n
        \<and> drop (n - length (?p i)) (ids ! i) = ?p i \<and> attn ! i = left_mask (n - length (?p i)) (length (?p i))"
    using enc ids(1) unfolding encodes_def Let_def by blast
  have attn: "attn = map (\<lambda>(p, q). left_mask p q) (map (\<lambda>i. (n - length (?p i), length (?p i))) [0..<?N])"
    using n(2,3) by (intro nth_equalityI) simp_all
  have pos: "positions attn = map (\<lambda>i. replicate (n - length (?p i)) 0 @ map int [0..<length (?p i)]) [0..<?N]"
    unfolding attn positions_left_mask by (simp add: comp_def)
  have sizes: "\<forall>r \<in> set attn. length r = 0 + n" "\<forall>r \<in> set ids. length r = n" "\<forall>r \<in> set (positions attn). length r = n"
    using n by (auto simp: in_set_conv_nth pos)
  have shapes: "length attn = length ids" "length (positions attn) = length ids"
      "case None :: 'a list list option of None \<Rightarrow> (0 :: nat) = 0 | Some c \<Rightarrow> length c = length ids \<and> (\<forall>r \<in> set c. length r = 0)"
    using n by (simp_all add: pos)
  obtain logits past where fwd: "lm_forward lm ids attn (positions attn) None = Inr (logits, past)"
      "length logits = ?N" "length past = ?N"
      "\<And>i. i < ?N \<Longrightarrow> attends_row kv logits_of (ids ! i) (attn ! i) (positions attn ! i) [] (logits ! i) (past ! i)"
    by (rule attendsD [OF att shapes sizes]) (use n(1) in simp)
  have rows: "row_holds kv n (past ! i) (attn ! i) t (?p i @ [t]) \<and> logits ! i = logits_of (feed kv [] (?p i))"
    if "i < ?N" for i t
  proof -
    have len: "length (?p i) \<le> n"
      using n(3) [OF that] by blast
    have "attends_row kv logits_of (ids ! i) (attn ! i) (replicate (n - length (?p i)) 0 @ map int [0..<length (?p i)])
        [] (logits ! i) (past ! i)"
      using fwd(4) [OF that] that by (simp add: pos)
    from row_holds_prompt [OF this, of "?p i" t] n(3) [OF that] len show ?thesis
      by simp
  qed
  have "sum_list (attn ! i) = int (length (?p i))" if "i < ?N" for i
    using n(3) [OF that] by (simp add: left_mask_def sum_list_replicate)
  with rows fwd(1-3) n(2) show ?thesis
    by (intro exI [of _ logits] exI [of _ past] exI [of _ n]) simp
qed

lemma prefill_ok:
  assumes enc: "encodes lm prompt_ids" and att: "attends lm kv logits_of"
    and h: "holds kv st f" and ne: "states \<noteq> []" and ids: "distinct (tf_rows st @ map ss_id states)"
    and run: "tf_prefill lm multinomial states st = Inr (states', st')"
  shows "\<exists>first. length first = length states \<and> tf_rows st' = tf_rows st @ map ss_id states
    \<and> tf_last st' = Some ((case tf_last st of None \<Rightarrow> [] | Some toks \<Rightarrow> toks) @ first)
    \<and> tf_steps st' = tf_steps st \<and> tf_prefills st' = Suc (tf_prefills st)
    \<and> states' = map (\<lambda>(s, tok). record_token lm tok (prompt_known prompt_ids s)) (zip states first)
    \<and> (\<forall>j < length states. gc_temperature (ss_generation (states ! j)) = 0 \<longrightarrow>
         first ! j = int (argmax (logits_of (feed kv [] (prompt_ids (ss_prompt (states ! j)))))))
    \<and> (\<forall>g. (\<forall>i \<in> set (tf_rows st). g i = f i) \<and>
         (\<forall>j < length states. g (ss_id (states ! j)) = prompt_ids (ss_prompt (states ! j)) @ [first ! j])
         \<longrightarrow> holds kv st' g)"
proof -
  let ?n = "length states" and ?R = "length (tf_rows st)" and ?p = "\<lambda>j. prompt_ids (ss_prompt (states ! j))"
  obtain tids attn where e: "lm_encode lm (map ss_prompt states) = (tids, attn)"
    by (cases "lm_encode lm (map ss_prompt states)")
  from prefill_forward [OF enc att e] ne obtain logits past w where
    fwd: "lm_forward lm tids attn (positions attn) None = Inr (logits, past)"
      "length logits = ?n" "length past = ?n" "length attn = ?n"
    and row: "\<And>j. j < ?n \<Longrightarrow> sum_list (attn ! j) = int (length (?p j)) \<and> logits ! j = logits_of (feed kv [] (?p j))
        \<and> (\<forall>t. row_holds kv w (past ! j) (attn ! j) t (?p j @ [t]))"
    by auto
  have known: "map (\<lambda>(s, m). s\<lparr>ss_prompt_tokens := sum_list m\<rparr>) (zip states attn) = map (prompt_known prompt_ids) states"
    using row fwd(4) by (intro nth_equalityI) (simp_all add: prompt_known_def)
  have gens: "map ss_generation (map (prompt_known prompt_ids) states) = map ss_generation states"
    by (simp add: prompt_known_def)
  obtain first where smp: "sample (lm_argsort lm) multinomial logits (map ss_generation states) = Inr first"
      and len: "length first = ?n"
    using run ne e fwd unfolding tf_prefill_def Let_def
    by (auto simp: rbind_eq_Inr known gens simp del: map_map split: if_splits)
  let ?st = "st\<lparr>tf_prefills := Suc (tf_prefills st)\<rparr>"
  have h0: "holds kv ?st f"
    using h by simp
  obtain cache' attn' w' where m: "merge_cache (lm_zero lm) past attn ?st = Inr (?st\<lparr>tf_cache := Some cache', tf_mask := Some attn'\<rparr>)"
      "length cache' = ?R + ?n" "length attn' = ?R + ?n"
      "\<And>i. i < ?R \<Longrightarrow> row_holds kv w' (cache' ! i) (attn' ! i) (the (tf_last st) ! i) (f (tf_rows st ! i))"
      "\<And>j. j < ?n \<Longrightarrow> row_holds kv w' (cache' ! (?R + j)) (attn' ! (?R + j)) (first ! j) (?p j @ [first ! j])"
    using merge_cache_ok [OF h0 fwd(3,4), of w "\<lambda>j. first ! j" "\<lambda>j. ?p j @ [first ! j]" "lm_zero lm"] row ne by auto
  let ?last = "(case tf_last st of None \<Rightarrow> [] | Some toks \<Rightarrow> toks) @ first"
  have last_old: "length (case tf_last st of None \<Rightarrow> [] | Some toks \<Rightarrow> toks) = ?R"
      "i < ?R \<Longrightarrow> ?last ! i = the (tf_last st) ! i" for i
    using h by (auto simp: holds_def nth_append split: if_splits)
  have out: "states' = map (\<lambda>(s, tok). record_token lm tok (prompt_known prompt_ids s)) (zip states first)"
      "st' = ?st\<lparr>tf_cache := Some cache', tf_mask := Some attn', tf_rows := tf_rows st @ map ss_id states, tf_last := Some ?last\<rparr>"
    using run ne e fwd m(1) smp len unfolding tf_prefill_def Let_def
    by (auto simp: known gens zip_map1 comp_def split_beta split: option.splits simp del: map_map)
      (simp_all add: comp_def split_beta)
  have "holds kv st' g" if g: "\<forall>i \<in> set (tf_rows st). g i = f i" "\<forall>j < ?n. g (ss_id (states ! j)) = ?p j @ [first ! j]" for g
  proof -
    have "row_holds kv w' (cache' ! i) (attn' ! i) (?last ! i) (g ((tf_rows st @ map ss_id states) ! i))" if i: "i < ?R + ?n" for i
    proof (cases "i < ?R")
      case True
      with m(4) [of i] last_old(2) [of i] g(1) show ?thesis
        by (simp add: nth_append)
    next
      case False
      then obtain j where "i = ?R + j" "j < ?n"
        using i by (metis le_Suc_ex nat_add_left_cancel_less not_less)
      with m(5) [of j] g(2) last_old(1) len show ?thesis
        by (simp add: nth_append)
    qed
    then show ?thesis
      using ids ne m(2,3) last_old(1) len unfolding out holds_def by (auto intro!: exI [of _ w'])
  qed
  moreover have "first ! j = int (argmax (logits_of (feed kv [] (?p j))))"
    if "j < ?n" "gc_temperature (ss_generation (states ! j)) = 0" for j
    using sample_rows(2) [OF smp, of j] that len row [of j] by simp
  ultimately show ?thesis
    using len out by (intro exI [of _ first]) simp
qed

section \<open>Decoding\<close>

abbreviation wanted :: "sequence_state list \<Rightarrow> int set" where
  "wanted states \<equiv> ss_id ` {s \<in> set states. \<not> finished s}"

lemma active_places_set:
  "set (active_places states) = {(j, states ! j) |j. j < length states \<and> \<not> finished (states ! j)}"
  by (auto simp: active_places_def in_set_enumerate_eq)

lemma active_ids: "set (map (\<lambda>(j, s). ss_id s) (active_places states)) = wanted states"
  by (force simp: active_places_set in_set_conv_nth)

lemma place_of_wanted:
  assumes "i \<in> wanted states"
  shows "\<exists>p. place_of states i = Some p \<and> p < length states \<and> ss_id (states ! p) = i \<and> \<not> finished (states ! p)"
proof -
  let ?ps = "rev (map (\<lambda>(j, s). (ss_id s, j)) (active_places states))"
  have "i \<in> fst ` set ?ps"
    using assms unfolding active_ids [symmetric] by force
  then obtain p where p: "map_of ?ps i = Some p"
    by (metis map_of_eq_None_iff option.exhaust)
  then have "(i, p) \<in> set ?ps"
    by (rule map_of_SomeD)
  with p show ?thesis
    by (auto simp: place_of_def active_places_set)
qed

lemma last_position: "last (map (\<lambda>c. max (c - 1) 0) (cumsum (left_mask p q @ [1]))) = int q"
  by (simp add: cumsum_def cumsum_from_append left_mask_def sum_list_replicate)

lemma decode_forward:
  assumes att: "attends lm kv logits_of" and ne: "rows \<noteq> []"
    and lens: "length cache = length rows" "length attn = length rows" "length toks = length rows"
    and rows: "\<And>i. i < length rows \<Longrightarrow> row_holds kv w (cache ! i) (attn ! i) (toks ! i) (f (rows ! i))"
  shows "\<exists>logits cache'. lm_forward lm (map (\<lambda>t. [t]) toks) (map (\<lambda>r. r @ [1]) attn)
        (map (\<lambda>r. [last r]) (positions (map (\<lambda>r. r @ [1]) attn))) (Some cache) = Inr (logits, cache')
    \<and> length logits = length rows \<and> length cache' = length rows
    \<and> (\<forall>i < length rows. logits ! i = logits_of (feed kv [] (f (rows ! i)))
        \<and> (\<forall>t. row_holds kv (Suc w) (cache' ! i) (attn ! i @ [1]) t (f (rows ! i) @ [t])))"
proof -
  let ?ids = "map (\<lambda>t. [t]) toks" and ?attn = "map (\<lambda>r. r @ [1]) attn"
  let ?pos = "map (\<lambda>r. [last r]) (positions ?attn)"
  have pos: "?pos ! i = [int (length (f (rows ! i)) - 1)]" if "i < length rows" for i
  proof -
    have "attn ! i = left_mask (w - (length (f (rows ! i)) - 1)) (length (f (rows ! i)) - 1)"
      using rows [OF that] unfolding row_holds_def by blast
    then show ?thesis
      using that lens by (simp only: positions_def nth_map length_map last_position)
  qed
  have "length (cache ! i) = w" "length (attn ! i) = w" if "i < length rows" for i
    using rows [OF that] by (auto simp: row_holds_def)
  then have sizes: "\<forall>r \<in> set ?attn. length r = w + 1" "\<forall>r \<in> set ?ids. length r = 1" "\<forall>r \<in> set ?pos. length r = 1"
    and c: "\<forall>r \<in> set cache. length r = w"
    using lens by (auto simp: in_set_conv_nth)
  have shapes: "length ?attn = length ?ids" "length ?pos = length ?ids"
      "case Some cache of None \<Rightarrow> w = 0 | Some c \<Rightarrow> length c = length ?ids \<and> (\<forall>r \<in> set c. length r = w)"
    using lens c by (simp_all add: positions_def)
  obtain logits cache' where fwd: "lm_forward lm ?ids ?attn ?pos (Some cache) = Inr (logits, cache')"
      "length logits = length rows" "length cache' = length rows"
      "\<And>i. i < length rows \<Longrightarrow> attends_row kv logits_of (?ids ! i) (?attn ! i) (?pos ! i) (cache ! i) (logits ! i) (cache' ! i)"
    by (rule attendsD [OF att shapes sizes]) (use lens in simp)
  have "row_holds kv (Suc w) (cache' ! i) (attn ! i @ [1]) t (f (rows ! i) @ [t]) \<and> logits ! i = logits_of (feed kv [] (f (rows ! i)))"
    if i: "i < length rows" for i t
  proof -
    have "attends_row kv logits_of [toks ! i] (attn ! i @ [1]) [int (length (f (rows ! i)) - 1)] (cache ! i) (logits ! i) (cache' ! i)"
      using fwd(4) [OF i] i lens pos [OF i] by simp
    from row_holds_step [OF rows [OF i] this] show ?thesis .
  qed
  with fwd(1-3) show ?thesis
    by (intro exI [of _ logits] exI [of _ cache']) simp
qed

text \<open>A step on a batch that is held: drop the rows not wanted, one forward pass, one sample.\<close>

definition idle :: "sequence_state list \<Rightarrow> 'kv tf_runner \<Rightarrow> bool" where
  "idle states st \<longleftrightarrow> active_places states = [] \<or> tf_cache st = None \<or> tf_last st = None"

abbreviation step_settings :: "sequence_state list \<Rightarrow> 'kv tf_runner \<Rightarrow> generation_config list" where
  "step_settings states st \<equiv> map (\<lambda>i. ss_generation (states ! the (place_of states i))) (tf_rows st)"

lemma idle_wanted: "holds kv st f \<Longrightarrow> idle states st \<Longrightarrow> wanted states = {} \<or> tf_rows st = []"
  using active_ids [of states] by (auto simp: idle_def holds_def split: if_splits)

lemma decode_keeps:
  assumes h: "holds kv st f"
    and keep: "keep = filter (\<lambda>i. tf_rows st ! i \<in> wanted states) [0..<length (tf_rows st)]"
  shows "\<exists>st1. (if length keep \<noteq> length (tf_rows st) then keep_rows keep st else Inr st) = Inr st1
    \<and> holds kv st1 f \<and> tf_rows st1 = filter (\<lambda>i. i \<in> wanted states) (tf_rows st) \<and> tf_steps st1 = tf_steps st"
proof (cases "length keep = length (tf_rows st)")
  case True
  have "length (filter (\<lambda>i. i \<in> wanted states) (tf_rows st)) = length keep"
    by (simp add: keep pick_filter [of "\<lambda>i. i \<in> wanted states", symmetric] pick_def)
  then have "filter (\<lambda>i. i \<in> wanted states) (tf_rows st) = tf_rows st"
    using True by (metis filter_id_conv length_filter_less less_irrefl)
  then show ?thesis
    using True h by simp
next
  case False
  then show ?thesis
    using keep_rows_holds [OF h keep] by auto
qed

lemma decode_unfold:
  assumes att: "attends lm kv logits_of" and h: "holds kv st f" and busy: "\<not> idle states st"
  shows "\<exists>st1. holds kv st1 f \<and> tf_rows st1 = filter (\<lambda>i. i \<in> wanted states) (tf_rows st) \<and> tf_steps st1 = Suc (tf_steps st)
    \<and> (if tf_rows st1 = [] then tf_decode lm multinomial states st = Inr (states, st1)
       else \<exists>logits cache attn. length logits = length (tf_rows st1)
         \<and> (\<forall>i < length (tf_rows st1). logits ! i = logits_of (feed kv [] (f (tf_rows st1 ! i))))
         \<and> tf_decode lm multinomial states st =
             rbind (sample (lm_argsort lm) multinomial logits (step_settings states st1)) (\<lambda>tokens.
               if length tokens \<noteq> length (tf_rows st1) then Inl ValueError
               else Inr (record_places lm (map (the \<circ> place_of states) (tf_rows st1)) tokens states,
                 st1\<lparr>tf_cache := Some cache, tf_mask := Some attn, tf_last := Some tokens\<rparr>))
         \<and> (\<forall>tokens g. length tokens = length (tf_rows st1)
             \<and> (\<forall>j < length tokens. g (tf_rows st1 ! j) = f (tf_rows st1 ! j) @ [tokens ! j])
             \<longrightarrow> holds kv (st1\<lparr>tf_cache := Some cache, tf_mask := Some attn, tf_last := Some tokens\<rparr>) g))"
proof -
  let ?st = "st\<lparr>tf_steps := Suc (tf_steps st)\<rparr>"
  let ?keep = "filter (\<lambda>i. tf_rows st ! i \<in> wanted states) [0..<length (tf_rows st)]"
  have same_rows: "tf_rows ?st = tf_rows st"
    by simp
  have h0: "holds kv ?st f"
    using h by simp
  obtain st1 where 1: "(if length ?keep \<noteq> length (tf_rows st) then keep_rows ?keep ?st else Inr ?st) = Inr st1"
      "holds kv st1 f" "tf_rows st1 = filter (\<lambda>i. i \<in> wanted states) (tf_rows st)" "tf_steps st1 = Suc (tf_steps st)"
    using decode_keeps [OF h0, of _ states, OF refl] unfolding same_rows by auto
  have "tf_decode lm multinomial states st =
      rbind (if length ?keep \<noteq> length (tf_rows st) then keep_rows ?keep ?st else Inr ?st) (\<lambda>st.
          if tf_rows st = [] then Inr (states, st)
          else case (tf_cache st, tf_mask st, tf_last st) of
            (Some cache, Some attn, Some toks) \<Rightarrow>
              let attn = map (\<lambda>r. r @ [1]) attn;
                  places = map (the \<circ> place_of states) (tf_rows st) in
              rbind (lm_forward lm (map (\<lambda>t. [t]) toks) attn (map (\<lambda>r. [last r]) (positions attn)) (Some cache))
                (\<lambda>(logits, cache).
              rbind (sample (lm_argsort lm) multinomial logits (map (\<lambda>j. ss_generation (states ! j)) places))
                (\<lambda>tokens.
                  if length tokens \<noteq> length places then Inl ValueError
                  else Inr (record_places lm places tokens states,
                            st\<lparr>tf_cache := Some cache, tf_mask := Some attn, tf_last := Some tokens\<rparr>)))
          | _ \<Rightarrow> Inl AssertionError)"
    using busy unfolding tf_decode_def idle_def active_ids Let_def same_rows by (simp only: if_False)
  note step = this [unfolded 1(1) rbind_simps Let_def]
  show ?thesis
  proof (cases "tf_rows st1 = []")
    case True
    with 1(2-) step show ?thesis
      by (intro exI [of _ st1]) simp
  next
    case ne: False
    obtain cache attn toks w where t: "tf_cache st1 = Some cache" "tf_mask st1 = Some attn" "tf_last st1 = Some toks"
        "length cache = length (tf_rows st1)" "length attn = length (tf_rows st1)" "length toks = length (tf_rows st1)"
        "\<And>i. i < length (tf_rows st1) \<Longrightarrow> row_holds kv w (cache ! i) (attn ! i) (toks ! i) (f (tf_rows st1 ! i))"
      using 1(2) ne unfolding holds_def by auto
    let ?attn = "map (\<lambda>r. r @ [1]) attn"
    obtain logits cache' where fwd: "lm_forward lm (map (\<lambda>t. [t]) toks) ?attn
          (map (\<lambda>r. [last r]) (positions ?attn)) (Some cache) = Inr (logits, cache')"
        "length logits = length (tf_rows st1)" "length cache' = length (tf_rows st1)"
        "\<And>i. i < length (tf_rows st1) \<Longrightarrow> logits ! i = logits_of (feed kv [] (f (tf_rows st1 ! i)))
           \<and> (\<forall>t. row_holds kv (Suc w) (cache' ! i) (attn ! i @ [1]) t (f (tf_rows st1 ! i) @ [t]))"
      using decode_forward [OF att ne t(4-7)] by auto
    have "holds kv (st1\<lparr>tf_cache := Some cache', tf_mask := Some ?attn, tf_last := Some tokens\<rparr>) g"
      if "length tokens = length (tf_rows st1) \<and> (\<forall>j < length tokens. g (tf_rows st1 ! j) = f (tf_rows st1 ! j) @ [tokens ! j])"
      for tokens g
      using that 1(2) ne fwd(3,4) t(5) unfolding holds_def by (auto intro!: exI [of _ "Suc w"])
    then show ?thesis
      using 1(2-) step ne t(1-3) fwd by (intro exI [of _ st1]) (simp add: comp_def exI [of _ logits] exI [of _ cache'] exI [of _ ?attn])
  qed
qed

lemma decode_cases:
  assumes att: "attends lm kv logits_of" and h: "holds kv st f" and busy: "\<not> idle states st"
  obtains (emptied) st1 where "holds kv st1 f" "tf_rows st1 = []" "filter (\<lambda>i. i \<in> wanted states) (tf_rows st) = []"
      "tf_steps st1 = Suc (tf_steps st)" "tf_decode lm multinomial states st = Inr (states, st1)"
  | (stepped) st1 logits cache attn where "tf_rows st1 = filter (\<lambda>i. i \<in> wanted states) (tf_rows st)" "tf_rows st1 \<noteq> []"
      "tf_steps st1 = Suc (tf_steps st)" "length logits = length (tf_rows st1)"
      "\<And>i. i < length (tf_rows st1) \<Longrightarrow> logits ! i = logits_of (feed kv [] (f (tf_rows st1 ! i)))"
      "tf_decode lm multinomial states st =
        rbind (sample (lm_argsort lm) multinomial logits (step_settings states st1)) (\<lambda>tokens.
          if length tokens \<noteq> length (tf_rows st1) then Inl ValueError
          else Inr (record_places lm (map (the \<circ> place_of states) (tf_rows st1)) tokens states,
            st1\<lparr>tf_cache := Some cache, tf_mask := Some attn, tf_last := Some tokens\<rparr>))"
      "\<And>tokens g. length tokens = length (tf_rows st1)
        \<Longrightarrow> \<forall>j < length tokens. g (tf_rows st1 ! j) = f (tf_rows st1 ! j) @ [tokens ! j]
        \<Longrightarrow> holds kv (st1\<lparr>tf_cache := Some cache, tf_mask := Some attn, tf_last := Some tokens\<rparr>) g"
proof -
  from decode_unfold [OF att h busy, of multinomial] show thesis
  proof (elim exE conjE)
    fix st1
    assume 1: "holds kv st1 f" "tf_rows st1 = filter (\<lambda>i. i \<in> wanted states) (tf_rows st)" "tf_steps st1 = Suc (tf_steps st)"
      and step: "if tf_rows st1 = [] then tf_decode lm multinomial states st = Inr (states, st1)
       else \<exists>logits cache attn. length logits = length (tf_rows st1)
         \<and> (\<forall>i < length (tf_rows st1). logits ! i = logits_of (feed kv [] (f (tf_rows st1 ! i))))
         \<and> tf_decode lm multinomial states st =
             rbind (sample (lm_argsort lm) multinomial logits (step_settings states st1)) (\<lambda>tokens.
               if length tokens \<noteq> length (tf_rows st1) then Inl ValueError
               else Inr (record_places lm (map (the \<circ> place_of states) (tf_rows st1)) tokens states,
                 st1\<lparr>tf_cache := Some cache, tf_mask := Some attn, tf_last := Some tokens\<rparr>))
         \<and> (\<forall>tokens g. length tokens = length (tf_rows st1)
             \<and> (\<forall>j < length tokens. g (tf_rows st1 ! j) = f (tf_rows st1 ! j) @ [tokens ! j])
             \<longrightarrow> holds kv (st1\<lparr>tf_cache := Some cache, tf_mask := Some attn, tf_last := Some tokens\<rparr>) g)"
    show thesis
    proof (cases "tf_rows st1 = []")
      case True
      show thesis
        by (rule emptied [OF 1(1) True _ 1(3) step [unfolded if_P [OF True]]]) (use 1(2) True in simp)
    next
      case ne: False
      from step [unfolded if_not_P [OF ne]] show thesis
        by (elim exE conjE, intro stepped [OF 1(2) ne 1(3)]) blast+
    qed
  qed
qed

lemma decode_ok:
  assumes att: "attends lm kv logits_of" and h: "holds kv st f"
    and run: "tf_decode lm multinomial states st = Inr (states', st')"
  shows "if idle states st then st' = st \<and> states' = states
    else tf_steps st' = Suc (tf_steps st) \<and> tf_rows st' = filter (\<lambda>i. i \<in> wanted states) (tf_rows st)
      \<and> (if tf_rows st' = [] then states' = states \<and> holds kv st' f
         else \<exists>tokens. tf_last st' = Some tokens \<and> length tokens = length (tf_rows st')
           \<and> states' = record_places lm (map (the \<circ> place_of states) (tf_rows st')) tokens states
           \<and> (\<forall>j < length tokens. gc_temperature (ss_generation (states ! the (place_of states (tf_rows st' ! j)))) = 0 \<longrightarrow>
                tokens ! j = int (argmax (logits_of (feed kv [] (f (tf_rows st' ! j))))))
           \<and> (\<forall>g. (\<forall>j < length tokens. g (tf_rows st' ! j) = f (tf_rows st' ! j) @ [tokens ! j]) \<longrightarrow> holds kv st' g))"
proof (cases "idle states st")
  case True
  with run show ?thesis
    by (auto simp: tf_decode_def idle_def)
next
  case busy: False
  show ?thesis
  proof (rule decode_cases [OF att h busy, of multinomial])
    fix st1
    assume "holds kv st1 f" "tf_rows st1 = []" "filter (\<lambda>i. i \<in> wanted states) (tf_rows st) = []"
      "tf_steps st1 = Suc (tf_steps st)" "tf_decode lm multinomial states st = Inr (states, st1)"
    with run busy show ?thesis
      by simp
  next
    fix st1 logits cache attn
    assume 1: "tf_rows st1 = filter (\<lambda>i. i \<in> wanted states) (tf_rows st)" "tf_rows st1 \<noteq> []"
        "tf_steps st1 = Suc (tf_steps st)"
      and lg: "\<And>i. i < length (tf_rows st1) \<Longrightarrow> logits ! i = logits_of (feed kv [] (f (tf_rows st1 ! i)))"
      and dec: "tf_decode lm multinomial states st =
        rbind (sample (lm_argsort lm) multinomial logits (step_settings states st1)) (\<lambda>tokens.
          if length tokens \<noteq> length (tf_rows st1) then Inl ValueError
          else Inr (record_places lm (map (the \<circ> place_of states) (tf_rows st1)) tokens states,
            st1\<lparr>tf_cache := Some cache, tf_mask := Some attn, tf_last := Some tokens\<rparr>))"
      and held: "\<And>tokens g. length tokens = length (tf_rows st1)
        \<Longrightarrow> \<forall>j < length tokens. g (tf_rows st1 ! j) = f (tf_rows st1 ! j) @ [tokens ! j]
        \<Longrightarrow> holds kv (st1\<lparr>tf_cache := Some cache, tf_mask := Some attn, tf_last := Some tokens\<rparr>) g"
    from run [unfolded dec] obtain tokens where smp:
        "sample (lm_argsort lm) multinomial logits (step_settings states st1) = Inr tokens"
        "length tokens = length (tf_rows st1)"
      and out: "states' = record_places lm (map (the \<circ> place_of states) (tf_rows st1)) tokens states"
        "st' = st1\<lparr>tf_cache := Some cache, tf_mask := Some attn, tf_last := Some tokens\<rparr>"
      by (auto simp: rbind_eq_Inr split: if_splits)
    have holds: "holds kv st' g" if "\<forall>j < length tokens. g (tf_rows st1 ! j) = f (tf_rows st1 ! j) @ [tokens ! j]" for g
      unfolding out(2) by (rule held [OF smp(2) that])
    have "tokens ! j = int (argmax (logits_of (feed kv [] (f (tf_rows st1 ! j)))))"
      if "j < length tokens" "gc_temperature (ss_generation (states ! the (place_of states (tf_rows st1 ! j)))) = 0" for j
      using sample_rows(2) [OF smp(1), of j] that smp(2) lg by simp
    with 1 busy smp(2) out holds show ?thesis
      by simp
  qed
qed

section \<open>Runs\<close>

lemma evict_ok:
  assumes "holds kv st f"
  shows "\<exists>st'. tf_evict i st = Inr st' \<and> holds kv st' f \<and> tf_rows st' = filter (\<lambda>j. j \<noteq> i) (tf_rows st)"
proof (cases "i \<in> set (tf_rows st)")
  case True
  then show ?thesis
    using keep_rows_holds [OF assms, of _ "\<lambda>j. j \<noteq> i"] by (auto simp: tf_evict_def)
next
  case False
  then have "filter (\<lambda>j. j \<noteq> i) (tf_rows st) = tf_rows st"
    by (simp add: filter_id_conv) blast
  with False assms show ?thesis
    by (simp add: tf_evict_def)
qed

text \<open>
  What the scheduler does with a runner. The log keeps, for each id, the prompt, the settings and
  the tokens sampled since it was last prefilled. Ids are fresh when they are prefilled, and a
  sequence that is decoded has the settings it was prefilled with.
\<close>

type_synonym tf_log = "int \<Rightarrow> (string \<times> generation_config \<times> int list) option"

definition logged :: "sequence_state list \<Rightarrow> int list \<Rightarrow> tf_log" where
  "logged states toks = map_of (map (\<lambda>(s, tok). (ss_id s, ss_prompt s, ss_generation s, [tok])) (zip states toks))"

definition lengthened :: "'kv tf_runner \<Rightarrow> tf_log \<Rightarrow> tf_log" where
  "lengthened st made i =
     (case map_of (zip (tf_rows st) (case tf_last st of None \<Rightarrow> [] | Some toks \<Rightarrow> toks)) i of
        None \<Rightarrow> made i
      | Some tok \<Rightarrow> map_option (\<lambda>(p, g, ys). (p, g, ys @ [tok])) (made i))"

definition settings_kept :: "sequence_state list \<Rightarrow> tf_log \<Rightarrow> bool" where
  "settings_kept states made \<longleftrightarrow>
     (\<forall>s \<in> set states. case made (ss_id s) of None \<Rightarrow> True | Some (p, g, ys) \<Rightarrow> ss_generation s = g)"

inductive tf_runs :: "'kv causal_lm \<Rightarrow> 'kv tf_runner \<Rightarrow> tf_log \<Rightarrow> bool" for lm where
  started: "tf_runs lm TransformersStepwiseRunner (\<lambda>i. None)"
| prefilled: "tf_runs lm st made \<Longrightarrow> distinct (tf_rows st @ map ss_id states) \<Longrightarrow> states \<noteq> []
    \<Longrightarrow> tf_prefill lm multinomial states st = Inr (states', st')
    \<Longrightarrow> tf_runs lm st' (made ++ logged states (drop (length (tf_rows st)) (the (tf_last st'))))"
| decoded: "tf_runs lm st made \<Longrightarrow> settings_kept states made
    \<Longrightarrow> tf_decode lm multinomial states st = Inr (states', st')
    \<Longrightarrow> tf_runs lm st' (if tf_steps st' = tf_steps st then made else lengthened st' made)"
| evicted: "tf_runs lm st made \<Longrightarrow> tf_evict i st = Inr st' \<Longrightarrow> tf_runs lm st' made"

text \<open>Greedy decoding of one prompt, with nothing beside it.\<close>

fun greedy_path :: "('kv list \<Rightarrow> int \<Rightarrow> 'kv) \<Rightarrow> ('kv list \<Rightarrow> real list) \<Rightarrow> int list \<Rightarrow> nat \<Rightarrow> int list" where
  "greedy_path kv logits_of prompt 0 = []"
| "greedy_path kv logits_of prompt (Suc n) =
     (let ys = greedy_path kv logits_of prompt n in ys @ [int (argmax (logits_of (feed kv [] (prompt @ ys))))])"

definition greedy_log ::
  "(string \<Rightarrow> int list) \<Rightarrow> ('kv list \<Rightarrow> int \<Rightarrow> 'kv) \<Rightarrow> ('kv list \<Rightarrow> real list) \<Rightarrow> tf_log \<Rightarrow> bool" where
  "greedy_log prompt_ids kv logits_of made \<longleftrightarrow>
     (\<forall>i p g ys. made i = Some (p, g, ys) \<and> gc_temperature g = 0 \<longrightarrow> ys = greedy_path kv logits_of (prompt_ids p) (length ys))"

abbreviation held_tokens :: "(string \<Rightarrow> int list) \<Rightarrow> tf_log \<Rightarrow> int \<Rightarrow> int list" where
  "held_tokens prompt_ids made i \<equiv> (case the (made i) of (p, g, ys) \<Rightarrow> prompt_ids p @ ys)"

definition run_inv ::
  "(string \<Rightarrow> int list) \<Rightarrow> ('kv list \<Rightarrow> int \<Rightarrow> 'kv) \<Rightarrow> ('kv list \<Rightarrow> real list) \<Rightarrow> 'kv tf_runner \<Rightarrow> tf_log \<Rightarrow> bool" where
  "run_inv prompt_ids kv logits_of st made \<longleftrightarrow> holds kv st (held_tokens prompt_ids made)
     \<and> (\<forall>i \<in> set (tf_rows st). made i \<noteq> None) \<and> greedy_log prompt_ids kv logits_of made"

lemma logged_at:
  assumes "distinct (map ss_id states)" "length toks = length states" "j < length states"
  shows "logged states toks (ss_id (states ! j)) = Some (ss_prompt (states ! j), ss_generation (states ! j), [toks ! j])"
proof -
  have "(ss_id (states ! j), ss_prompt (states ! j), ss_generation (states ! j), [toks ! j])
      \<in> set (map (\<lambda>(s, tok). (ss_id s, ss_prompt s, ss_generation s, [tok])) (zip states toks))"
    using assms by (force simp: set_zip)
  moreover have "map ss_id (map fst (zip states toks)) = map ss_id states"
    using assms(2) by simp
  then have "map fst (map (\<lambda>(s, tok). (ss_id s, ss_prompt s, ss_generation s, [tok])) (zip states toks)) = map ss_id states"
    by (simp add: split_beta comp_def)
  ultimately show ?thesis
    using assms(1) unfolding logged_def by (intro map_of_is_SomeI) simp_all
qed

lemma logged_elsewhere: "i \<notin> set (map ss_id states) \<Longrightarrow> logged states toks i = None"
  by (auto simp: logged_def map_of_eq_None_iff dest: set_zip_leftD)

lemma lengthened_at:
  assumes "distinct (tf_rows st)" "tf_last st = Some toks" "length toks = length (tf_rows st)" "j < length toks"
  shows "lengthened st made (tf_rows st ! j) = map_option (\<lambda>(p, g, ys). (p, g, ys @ [toks ! j])) (made (tf_rows st ! j))"
  using assms by (simp add: lengthened_def map_of_zip_nth)

lemma lengthened_elsewhere:
  assumes "i \<notin> set (tf_rows st)"
  shows "lengthened st made i = made i"
proof -
  have "map_of (zip (tf_rows st) toks) i = None" for toks :: "int list"
    using assms by (auto simp: map_of_eq_None_iff dest: set_zip_leftD)
  then show ?thesis
    by (simp add: lengthened_def)
qed

lemma prefill_run_inv:
  assumes inv: "run_inv prompt_ids kv logits_of st made"
    and enc: "encodes lm prompt_ids" and att: "attends lm kv logits_of"
    and ids: "distinct (tf_rows st @ map ss_id states)" "states \<noteq> []"
    and run: "tf_prefill lm multinomial states st = Inr (states', st')"
  shows "run_inv prompt_ids kv logits_of st' (made ++ logged states (drop (length (tf_rows st)) (the (tf_last st'))))"
proof -
  have h: "holds kv st (held_tokens prompt_ids made)"
    using inv by (simp add: run_inv_def)
  from prefill_ok [OF enc att h ids(2,1) run] obtain first where first: "length first = length states"
      "tf_rows st' = tf_rows st @ map ss_id states"
      "tf_last st' = Some ((case tf_last st of None \<Rightarrow> [] | Some toks \<Rightarrow> toks) @ first)"
      "\<And>j. j < length states \<Longrightarrow> gc_temperature (ss_generation (states ! j)) = 0 \<Longrightarrow>
         first ! j = int (argmax (logits_of (feed kv [] (prompt_ids (ss_prompt (states ! j))))))"
    and holds: "\<And>g. (\<forall>i \<in> set (tf_rows st). g i = held_tokens prompt_ids made i) \<Longrightarrow>
         (\<forall>j < length states. g (ss_id (states ! j)) = prompt_ids (ss_prompt (states ! j)) @ [first ! j]) \<Longrightarrow> holds kv st' g"
    by (elim exE conjE) blast
  have "length (case tf_last st of None \<Rightarrow> [] | Some toks \<Rightarrow> toks) = length (tf_rows st)"
    using h by (auto simp: holds_def split: if_splits)
  then have new: "drop (length (tf_rows st)) (the (tf_last st')) = first"
    by (simp add: first(3))
  let ?made = "made ++ logged states first"
  have fresh: "distinct (map ss_id states)"
    using ids by simp
  have at: "?made (ss_id (states ! j)) = Some (ss_prompt (states ! j), ss_generation (states ! j), [first ! j])"
    if "j < length states" for j
    using logged_at [OF fresh first(1) that] by (simp add: map_add_def)
  have old: "?made i = made i" if "i \<notin> set (map ss_id states)" for i
    using logged_elsewhere [OF that] by (simp add: map_add_def)
  have "holds kv st' (held_tokens prompt_ids ?made)"
  proof (intro holds ballI allI impI)
    fix i assume "i \<in> set (tf_rows st)"
    then have "i \<notin> set (map ss_id states)"
      using ids(1) by auto
    from old [OF this] show "held_tokens prompt_ids ?made i = held_tokens prompt_ids made i"
      by (simp only:)
  qed (simp add: at)
  moreover have "?made i \<noteq> None" if "i \<in> set (tf_rows st')" for i
  proof (cases "i \<in> set (map ss_id states)")
    case True
    then obtain j where "j < length states" "i = ss_id (states ! j)"
      by (auto simp: in_set_conv_nth)
    with at [of j] show ?thesis
      by (simp only: option.distinct) simp
  next
    case False
    with that first(2) have "i \<in> set (tf_rows st)"
      by auto
    with old [OF False] inv show ?thesis
      unfolding run_inv_def by metis
  qed
  moreover have "ys = greedy_path kv logits_of (prompt_ids p) (length ys)" if "?made i = Some (p, g, ys)" "gc_temperature g = 0" for i p g ys
  proof (cases "i \<in> set (map ss_id states)")
    case True
    then obtain j where "j < length states" "i = ss_id (states ! j)"
      by (auto simp: in_set_conv_nth)
    with at [of j] that first(4) [of j] show ?thesis
      by auto
  next
    case False
    with old that inv show ?thesis
      unfolding run_inv_def greedy_log_def by metis
  qed
  ultimately show ?thesis
    unfolding new run_inv_def greedy_log_def by meson
qed

lemma decode_run_inv:
  assumes inv: "run_inv prompt_ids kv logits_of st made" and att: "attends lm kv logits_of"
    and kept: "settings_kept states made"
    and run: "tf_decode lm multinomial states st = Inr (states', st')"
  shows "run_inv prompt_ids kv logits_of st' (if tf_steps st' = tf_steps st then made else lengthened st' made)"
proof (cases "tf_steps st' = tf_steps st")
  case True
  moreover have h: "holds kv st (held_tokens prompt_ids made)"
    using inv by (simp add: run_inv_def)
  ultimately show ?thesis
    using decode_ok [OF att h run] inv by (auto split: if_splits)
next
  case stepped: False
  have h: "holds kv st (held_tokens prompt_ids made)" and log: "greedy_log prompt_ids kv logits_of made"
    and some: "i \<in> set (tf_rows st) \<Longrightarrow> made i \<noteq> None" for i
    using inv by (simp_all add: run_inv_def)
  note d = decode_ok [OF att h run]
  have rows: "tf_rows st' = filter (\<lambda>i. i \<in> wanted states) (tf_rows st)"
    using d stepped by (auto split: if_splits)
  have busy: "\<not> idle states st"
    using d stepped by auto
  note d = d [unfolded if_not_P [OF busy]]
  show ?thesis
  proof (cases "tf_rows st' = []")
    case True
    then have "lengthened st' made = made"
      by (simp add: lengthened_elsewhere fun_eq_iff)
    with True d stepped log show ?thesis
      by (auto simp: run_inv_def)
  next
    case False
    then obtain toks where toks: "tf_last st' = Some toks" "length toks = length (tf_rows st')"
        "\<And>j. j < length toks \<Longrightarrow> gc_temperature (ss_generation (states ! the (place_of states (tf_rows st' ! j)))) = 0 \<Longrightarrow>
           toks ! j = int (argmax (logits_of (feed kv [] (held_tokens prompt_ids made (tf_rows st' ! j)))))"
      and holds: "\<And>g. (\<forall>j < length toks. g (tf_rows st' ! j) = held_tokens prompt_ids made (tf_rows st' ! j) @ [toks ! j]) \<Longrightarrow> holds kv st' g"
      using d stepped by auto
    have dist: "distinct (tf_rows st')"
      using h rows by (simp add: holds_def)
    let ?made = "lengthened st' made"
    have at: "?made (tf_rows st' ! j) = map_option (\<lambda>(p, g, ys). (p, g, ys @ [toks ! j])) (made (tf_rows st' ! j))"
      and known: "made (tf_rows st' ! j) \<noteq> None" and active: "tf_rows st' ! j \<in> wanted states" if "j < length toks" for j
    proof -
      show "?made (tf_rows st' ! j) = map_option (\<lambda>(p, g, ys). (p, g, ys @ [toks ! j])) (made (tf_rows st' ! j))"
        by (rule lengthened_at [OF dist toks(1,2) that])
      have "tf_rows st' ! j \<in> set (tf_rows st')"
        using that toks(2) by simp
      then show "made (tf_rows st' ! j) \<noteq> None" "tf_rows st' ! j \<in> wanted states"
        unfolding rows using some by auto
    qed
    have "held_tokens prompt_ids ?made (tf_rows st' ! j) = held_tokens prompt_ids made (tf_rows st' ! j) @ [toks ! j]"
      if "j < length toks" for j
      using at [OF that] known [OF that] by auto
    then have "holds kv st' (held_tokens prompt_ids ?made)"
      by (intro holds) blast
    moreover have "?made i \<noteq> None" if "i \<in> set (tf_rows st')" for i
      using that at known toks(2) by (auto simp: in_set_conv_nth)
    moreover have "ys = greedy_path kv logits_of (prompt_ids p) (length ys)" if "?made i = Some (p, g, ys)" "gc_temperature g = 0" for i p g ys
    proof (cases "i \<in> set (tf_rows st')")
      case True
      note made_i = that(1)
      obtain j where j: "j < length toks" "i = tf_rows st' ! j"
        using True toks(2) by (auto simp: in_set_conv_nth)
      then obtain zs where zs: "made i = Some (p, g, zs)" "ys = zs @ [toks ! j]"
        using at [OF j(1)] made_i known [OF j(1)] by (cases "made i") auto
      have "gc_temperature (ss_generation (states ! the (place_of states i))) = 0"
        using place_of_wanted [OF active [OF j(1)]] kept zs(1) that(2) j(2)
        by (auto simp: settings_kept_def dest!: bspec [of "set states" _ "states ! _"] nth_mem)
      then have "toks ! j = int (argmax (logits_of (feed kv [] (prompt_ids p @ zs))))"
        using toks(3) [OF j(1)] j(2) zs(1) by simp
      moreover have "zs = greedy_path kv logits_of (prompt_ids p) (length zs)"
        using log zs(1) that(2) unfolding greedy_log_def by blast
      ultimately show ?thesis
        using zs(2) by (simp add: Let_def)
    next
      case False
      with lengthened_elsewhere [OF False] that log show ?thesis
        unfolding greedy_log_def by metis
    qed
    ultimately show ?thesis
      using stepped unfolding run_inv_def greedy_log_def by (simp only: if_False) blast
  qed
qed

lemma tf_runs_inv:
  assumes "tf_runs lm st made" "encodes lm prompt_ids" "attends lm kv logits_of"
  shows "run_inv prompt_ids kv logits_of st made"
  using assms(1)
proof induction
  case started
  show ?case
    by (simp add: run_inv_def holds_def greedy_log_def TransformersStepwiseRunner_def)
next
  case (prefilled st made states multinomial states' st')
  then show ?case
    using prefill_run_inv assms(2,3) by blast
next
  case (decoded st made states multinomial states' st')
  then show ?case
    using decode_run_inv assms(3) by blast
next
  case (evicted st made i st')
  have "holds kv st (held_tokens prompt_ids made)"
    using evicted.IH by (simp add: run_inv_def)
  from evict_ok [OF this, of i] evicted show ?case
    by (auto simp: run_inv_def)
qed

section \<open>Every active row advances\<close>

lemma record_places_at:
  assumes "length toks = length js" "distinct js" "\<forall>j \<in> set js. j < length states"
  shows "length (record_places lm js toks states) = length states"
    and "k < length js \<Longrightarrow> record_places lm js toks states ! (js ! k) = record_token lm (toks ! k) (states ! (js ! k))"
    and "p \<notin> set js \<Longrightarrow> record_places lm js toks states ! p = states ! p"
proof -
  have "length (record_places lm js toks states) = length states
      \<and> (\<forall>k < length js. record_places lm js toks states ! (js ! k) = record_token lm (toks ! k) (states ! (js ! k)))
      \<and> (\<forall>p. p \<notin> set js \<longrightarrow> record_places lm js toks states ! p = states ! p)"
    using assms
  proof (induction js arbitrary: toks states)
    case (Cons j js)
    then obtain t ts where toks: "toks = t # ts" "length ts = length js"
      by (cases toks) auto
    let ?states = "states[j := record_token lm t (states ! j)]"
    have tail: "length (record_places lm js ts ?states) = length ?states"
        "\<forall>k < length js. record_places lm js ts ?states ! (js ! k) = record_token lm (ts ! k) (?states ! (js ! k))"
        "\<forall>p. p \<notin> set js \<longrightarrow> record_places lm js ts ?states ! p = ?states ! p"
      using Cons.IH [of ts ?states] Cons.prems toks(2) by auto
    have other: "js ! k \<noteq> j" if "k < length js" for k
      using Cons.prems(2) nth_mem [OF that] by auto
    have "record_places lm js ts ?states ! ((j # js) ! k) = record_token lm ((t # ts) ! k) (states ! ((j # js) ! k))"
      if "k < length (j # js)" for k
      using that tail(2,3) Cons.prems(2,3) other by (cases k) (auto simp: nth_list_update)
    with tail show ?case
      by (simp add: toks(1))
  qed simp
  then show "length (record_places lm js toks states) = length states"
    "k < length js \<Longrightarrow> record_places lm js toks states ! (js ! k) = record_token lm (toks ! k) (states ! (js ! k))"
    "p \<notin> set js \<Longrightarrow> record_places lm js toks states ! p = states ! p"
    by blast+
qed

lemma place_of_held:
  assumes "distinct (map ss_id states)" "p < length states" "\<not> finished (states ! p)"
  shows "place_of states (ss_id (states ! p)) = Some p"
proof -
  have "ss_id (states ! p) \<in> wanted states"
    using assms(2,3) by auto
  from place_of_wanted [OF this] obtain q where "place_of states (ss_id (states ! p)) = Some q" "q < length states"
      "ss_id (states ! q) = ss_id (states ! p)"
    by auto
  with assms(1,2) show ?thesis
    by (metis distinct_conv_nth length_map nth_map)
qed

lemma step_settings_in:
  assumes "tf_rows st1 = filter (\<lambda>i. i \<in> wanted states) rows" "g \<in> set (step_settings states st1)"
  shows "\<exists>s \<in> set states. g = ss_generation s"
proof -
  from assms obtain i where "i \<in> wanted states" "g = ss_generation (states ! the (place_of states i))"
    by auto
  with place_of_wanted [of i states] show ?thesis
    by (metis nth_mem option.sel)
qed

lemma decode_advances:
  assumes att: "attends lm kv logits_of" and h: "holds kv st f"
    and ids: "distinct (map ss_id states)" and draws: "draws_one_each multinomial"
    and vocab: "\<forall>h. length (logits_of h) = v" and k: "\<forall>s \<in> set states. gc_top_k (ss_generation s) \<le> int v"
  shows "\<exists>states' st'. tf_decode lm multinomial states st = Inr (states', st') \<and> length states' = length states
    \<and> (\<forall>p < length states. if \<not> finished (states ! p) \<and> ss_id (states ! p) \<in> set (tf_rows st)
         then \<exists>tok. states' ! p = record_token lm tok (states ! p) else states' ! p = states ! p)"
proof (cases "idle states st")
  case True
  then have "\<not> (\<not> finished (states ! p) \<and> ss_id (states ! p) \<in> set (tf_rows st))" if "p < length states" for p
    using idle_wanted [OF h True] that by (force simp: in_set_conv_nth)
  moreover have "tf_decode lm multinomial states st = Inr (states, st)"
    using True by (auto simp: tf_decode_def idle_def)
  ultimately show ?thesis
    by auto
next
  case busy: False
  show ?thesis
  proof (rule decode_cases [OF att h busy, of multinomial])
    fix st1
    assume none: "filter (\<lambda>i. i \<in> wanted states) (tf_rows st) = []"
      and dec: "tf_decode lm multinomial states st = Inr (states, st1)"
    have "\<not> (\<not> finished (states ! p) \<and> ss_id (states ! p) \<in> set (tf_rows st))" if "p < length states" for p
      using none that by (auto simp: filter_empty_conv)
    with dec show ?thesis
      by auto
  next
    fix st1 logits cache attn
    assume 1: "tf_rows st1 = filter (\<lambda>i. i \<in> wanted states) (tf_rows st)"
      and lg: "length logits = length (tf_rows st1)"
        "\<And>i. i < length (tf_rows st1) \<Longrightarrow> logits ! i = logits_of (feed kv [] (f (tf_rows st1 ! i)))"
      and dec: "tf_decode lm multinomial states st =
        rbind (sample (lm_argsort lm) multinomial logits (step_settings states st1)) (\<lambda>tokens.
          if length tokens \<noteq> length (tf_rows st1) then Inl ValueError
          else Inr (record_places lm (map (the \<circ> place_of states) (tf_rows st1)) tokens states,
            st1\<lparr>tf_cache := Some cache, tf_mask := Some attn, tf_last := Some tokens\<rparr>))"
    have in_rows: "ss_id (states ! p) \<in> set (tf_rows st1)"
      if "p < length states" "\<not> finished (states ! p)" "ss_id (states ! p) \<in> set (tf_rows st)" for p
      using that unfolding 1 by auto
    have sized: "\<forall>l \<in> set logits. length l = v"
      using lg vocab by (auto simp: in_set_conv_nth)
    have same: "length logits = length (step_settings states st1)"
      using lg(1) by simp
    have small: "\<forall>g \<in> set (step_settings states st1). gc_top_k g \<le> int v"
      using k step_settings_in [OF 1] by blast
    obtain tokens where tokens: "sample (lm_argsort lm) multinomial logits (step_settings states st1) = Inr tokens"
        "length tokens = length (tf_rows st1)"
      using sample_total [OF same sized small draws, of "lm_argsort lm"] lg(1) by auto
    let ?js = "map (the \<circ> place_of states) (tf_rows st1)"
    have places: "the (place_of states i) < length states" "ss_id (states ! the (place_of states i)) = i"
        "\<not> finished (states ! the (place_of states i))" if "i \<in> set (tf_rows st1)" for i
      using that place_of_wanted [of i states] unfolding 1 by auto
    have "inj_on (the \<circ> place_of states) (set (tf_rows st1))"
      by (rule inj_onI) (metis comp_apply places(2))
    moreover have "distinct (tf_rows st1)"
      using h unfolding 1 holds_def by simp
    ultimately have "distinct ?js"
      by (simp add: distinct_map)
    moreover have "\<forall>j \<in> set ?js. j < length states"
      using places(1) by auto
    ultimately have out: "length (record_places lm ?js tokens states) = length states"
        "\<And>k. k < length ?js \<Longrightarrow> record_places lm ?js tokens states ! (?js ! k) = record_token lm (tokens ! k) (states ! (?js ! k))"
        "\<And>p. p \<notin> set ?js \<Longrightarrow> record_places lm ?js tokens states ! p = states ! p"
      using record_places_at [of tokens ?js states] tokens(2) by simp_all
    have "if \<not> finished (states ! p) \<and> ss_id (states ! p) \<in> set (tf_rows st)
         then \<exists>tok. record_places lm ?js tokens states ! p = record_token lm tok (states ! p)
         else record_places lm ?js tokens states ! p = states ! p" if p: "p < length states" for p
    proof (cases "\<not> finished (states ! p) \<and> ss_id (states ! p) \<in> set (tf_rows st)")
      case True
      then have "ss_id (states ! p) \<in> set (tf_rows st1)" "place_of states (ss_id (states ! p)) = Some p"
        using in_rows [OF p] place_of_held [OF ids p] by simp_all
      then obtain k where "k < length ?js" "?js ! k = p"
        by (force simp: in_set_conv_nth)
      with out(2) [of k] True show ?thesis
        by auto
    next
      case False
      then have "p \<notin> set ?js"
        using places p unfolding 1 by fastforce
      with out(3) False show ?thesis
        by auto
    qed
    with dec tokens out(1) show ?thesis
      by simp
  qed
qed

section \<open>A model to run it on\<close>

text \<open>
  Three tokens; an entry is its token, and the next token is the successor of the last. A
  prompt is a zero and a one for each character.
\<close>

definition toy_ids :: "string \<Rightarrow> int list" where
  "toy_ids p = 0 # map (\<lambda>c. 1) p"

definition toy_kv :: "int list \<Rightarrow> int \<Rightarrow> int" where
  "toy_kv h t = t"

definition toy_logits :: "int list \<Rightarrow> real list" where
  "toy_logits h = map (\<lambda>v. if v = (last h + 1) mod 3 then 1 else 0) [0, 1, 2]"

definition toy_forward ::
  "int list list \<Rightarrow> int list list \<Rightarrow> int list list \<Rightarrow> int list list option \<Rightarrow> (real list list \<times> int list list) result" where
  "toy_forward ids attn pos past =
     (let cache = (case past of None \<Rightarrow> ids | Some c \<Rightarrow> map (\<lambda>(r, i). r @ i) (zip c ids))
      in Inr (map (\<lambda>(m, r). toy_logits (real_entries m r)) (zip attn cache), cache))"

definition toy_lm :: "int causal_lm" where
  "toy_lm = \<lparr>
     lm_encode = (\<lambda>ps. let n = fold max (map length ps) 0 in
        (map (\<lambda>p. replicate (n - length p) 2 @ toy_ids p) ps, map (\<lambda>p. left_mask (n - length p) (Suc (length p))) ps)),
     lm_forward = toy_forward, lm_zero = 0, lm_eos = None, lm_decode = (\<lambda>t. ''x''),
     lm_argsort = (\<lambda>r. rev (sort_key ((!) r) [0..<length r]))\<rparr>"

definition toy_draw :: "real list list \<Rightarrow> nat list" where
  "toy_draw rows = map (\<lambda>r. 0) rows"

lemma toy_feed: "feed toy_kv h ts = h @ ts"
  by (induction ts rule: rev_induct) (simp_all add: toy_kv_def)

lemma toy_length: "length p \<le> fold max (map length ps) n \<or> p \<notin> set ps"
proof (induction ps arbitrary: n)
  case (Cons q ps)
  have "m \<le> fold max ms m" for m :: nat and ms
    by (induction ms arbitrary: m) (simp, metis comp_apply fold_simps(2) max.bounded_iff)
  then show ?case
    using Cons [of "max (length q) n"] by (auto intro: order.trans [of _ "max (length q) n"])
qed simp

lemma toy_encodes: "encodes toy_lm toy_ids"
  unfolding encodes_def
proof (intro allI impI)
  fix prompts ids attn
  assume "lm_encode toy_lm prompts = (ids, attn)"
  then have e: "ids = map (\<lambda>p. replicate (fold max (map length prompts) 0 - length p) 2 @ toy_ids p) prompts"
      "attn = map (\<lambda>p. left_mask (fold max (map length prompts) 0 - length p) (Suc (length p))) prompts"
    by (simp_all add: toy_lm_def Let_def)
  have "length (prompts ! i) \<le> fold max (map length prompts) 0" if "i < length prompts" for i
    using toy_length [of "prompts ! i" prompts 0] that by simp
  then show "length ids = length prompts \<and> length attn = length prompts \<and>
        (\<exists>n. \<forall>i < length prompts. let p = toy_ids (prompts ! i) in
           p \<noteq> [] \<and> length p \<le> n \<and> length (ids ! i) = n \<and> drop (n - length p) (ids ! i) = p
           \<and> attn ! i = left_mask (n - length p) (length p))"
    by (simp add: e exI [of _ "Suc (fold max (map length prompts) 0)"] toy_ids_def Let_def)
qed

lemma toy_attends_row:
  assumes "length m = length past + length ids"
  shows "attends_row toy_kv toy_logits ids m pos past (toy_logits (real_entries m (past @ ids))) (past @ ids)"
proof -
  have "real_entries m (past @ ids) = real_entries (take (length past) m @ drop (length past) m) (past @ ids)"
    by simp
  also have "\<dots> = real_entries (take (length past) m) past @ real_entries (drop (length past) m) ids"
    using assms by (simp only: real_entries_append length_take min.absorb2 le_add1)
  finally show ?thesis
    using assms by (simp add: attends_row_def Let_def toy_feed)
qed

lemma toy_attends: "attends toy_lm toy_kv toy_logits"
  unfolding attends_def
proof (intro allI impI, elim conjE)
  fix ids attn pos :: "int list list" and past :: "int list list option" and old new
  assume a: "length attn = length ids" "length pos = length ids"
      "case past of None \<Rightarrow> old = 0 | Some c \<Rightarrow> length c = length ids \<and> (\<forall>r \<in> set c. length r = old)"
      "\<forall>r \<in> set attn. length r = old + new" "\<forall>r \<in> set ids. length r = new"
  let ?past = "\<lambda>i. case past of None \<Rightarrow> [] | Some c \<Rightarrow> c ! i"
  let ?cache = "map (\<lambda>i. ?past i @ ids ! i) [0..<length ids]"
  have "(case past of None \<Rightarrow> ids | Some c \<Rightarrow> map (\<lambda>(r, i). r @ i) (zip c ids)) = ?cache"
    using a(3) by (intro nth_equalityI) (auto split: option.splits)
  then have "lm_forward toy_lm ids attn pos past
      = Inr (map (\<lambda>i. toy_logits (real_entries (attn ! i) (?past i @ ids ! i))) [0..<length ids], ?cache)"
    using a(1) by (simp add: toy_lm_def toy_forward_def Let_def) (intro nth_equalityI, simp_all)
  moreover have "attends_row toy_kv toy_logits (ids ! i) (attn ! i) (pos ! i) (?past i)
      (toy_logits (real_entries (attn ! i) (?past i @ ids ! i))) (?past i @ ids ! i)" if "i < length ids" for i
    using that a by (intro toy_attends_row) (auto split: option.splits)
  ultimately show "\<exists>logits cache. lm_forward toy_lm ids attn pos past = Inr (logits, cache)
         \<and> length logits = length ids \<and> length cache = length ids
         \<and> (\<forall>i < length ids. attends_row toy_kv toy_logits (ids ! i) (attn ! i) (pos ! i)
              (case past of None \<Rightarrow> [] | Some c \<Rightarrow> c ! i) (logits ! i) (cache ! i))"
    by (intro exI conjI) (assumption, simp, simp, intro allI impI, simp only: nth_map length_upt minus_nat.diff_0 nth_upt add_0)
qed

definition toy_settings :: generation_config where
  "toy_settings = gc_defaults\<lparr>gc_temperature := 0\<rparr>"

definition toy_states :: "sequence_state list" where
  "toy_states = [SequenceState 0 ''ab'' toy_settings, SequenceState 1 '''' toy_settings]"

definition toy_running :: "sequence_state list" where
  "toy_running = [(SequenceState 0 ''ab'' toy_settings)\<lparr>ss_tokens := [''x''], ss_prompt_tokens := 3\<rparr>,
     (SequenceState 1 '''' toy_settings)\<lparr>ss_tokens := [''x''], ss_prompt_tokens := 1\<rparr>]"

definition toy_st :: "int tf_runner" where
  "toy_st = \<lparr>tf_prefills = 1, tf_steps = 0, tf_rows = [0, 1], tf_cache = Some [[0, 1, 1], [2, 2, 0]],
     tf_mask = Some [[1, 1, 1], [0, 0, 1]], tf_last = Some [2, 1]\<rparr>"

lemma toy_sample:
  assumes "length logits = length settings" "\<forall>g \<in> set settings. g = toy_settings"
  shows "sample argsort toy_draw logits settings = Inr (map (\<lambda>l. int (argmax l)) logits)"
proof -
  have s: "settings = replicate (length logits) toy_settings"
    using assms by (metis replicate_eqI)
  have "filtered_rows argsort logits settings = Inr (map (scale_row 0) logits)"
    unfolding s by (simp add: filtered_rows_def toy_settings_def gc_defaults_def list_ex_iff zip_replicate1)
  then show ?thesis
    unfolding s by (simp add: sample_def toy_draw_def toy_settings_def zip_replicate1 Let_def) (intro nth_equalityI, simp_all)
qed

lemma toy_prefill: "tf_prefill toy_lm toy_draw toy_states TransformersStepwiseRunner = Inr (toy_running, toy_st)"
  by (simp add: tf_prefill_def toy_states_def toy_lm_def toy_forward_def toy_ids_def merge_cache_def TransformersStepwiseRunner_def
      toy_sample left_mask_def real_entries_def toy_logits_def argmax_def toy_running_def toy_st_def SequenceState_def
      record_token_def Let_def numeral_2_eq_2)

definition toy_stepped :: "sequence_state list" where
  "toy_stepped = map (\<lambda>s. s\<lparr>ss_tokens := [''x'', ''x'']\<rparr>) toy_running"

definition toy_st' :: "int tf_runner" where
  "toy_st' = \<lparr>tf_prefills = 1, tf_steps = 1, tf_rows = [0, 1], tf_cache = Some [[0, 1, 1, 2], [2, 2, 0, 1]],
     tf_mask = Some [[1, 1, 1, 1], [0, 0, 1, 1]], tf_last = Some [0, 2]\<rparr>"

lemma toy_active: "active_places toy_running = [(0, toy_running ! 0), (1, toy_running ! 1)]"
  by (simp add: active_places_def toy_running_def finished_def generated_def SequenceState_def toy_settings_def gc_defaults_def
      enumerate_eq_zip)

lemma toy_decode: "tf_decode toy_lm toy_draw toy_running toy_st = Inr (toy_stepped, toy_st')"
  unfolding tf_decode_def place_of_def toy_active
  by (simp add: Let_def toy_st_def toy_lm_def toy_forward_def real_entries_def
      toy_logits_def toy_sample argmax_def positions_def toy_running_def toy_stepped_def toy_st'_def SequenceState_def
      record_token_def numeral_2_eq_2)

lemma toy_runs: "\<exists>st made. tf_runs toy_lm st made \<and> st = toy_st'
    \<and> made 0 = Some (''ab'', toy_settings, [2, 0]) \<and> made 1 = Some ('''', toy_settings, [1, 2])"
proof -
  let ?made = "(\<lambda>i. None) ++ logged toy_states (drop (length (tf_rows (TransformersStepwiseRunner :: int tf_runner))) (the (tf_last toy_st)))"
  have run: "tf_runs toy_lm toy_st ?made"
    by (rule tf_runs.prefilled [OF tf_runs.started _ _ toy_prefill])
      (simp_all add: toy_states_def TransformersStepwiseRunner_def SequenceState_def)
  have made: "?made = [0 \<mapsto> (''ab'', toy_settings, [2]), 1 \<mapsto> ('''', toy_settings, [1])]"
    by (simp add: logged_def toy_states_def toy_st_def TransformersStepwiseRunner_def SequenceState_def)
      (simp add: fun_upd_twist)
  have "settings_kept toy_running ?made"
    unfolding made by (simp add: settings_kept_def toy_running_def SequenceState_def)
  from tf_runs.decoded [OF run this toy_decode] have "tf_runs toy_lm toy_st' (lengthened toy_st' ?made)"
    by (simp add: toy_st_def toy_st'_def)
  then show ?thesis
    unfolding made by (intro exI conjI) (assumption, simp_all add: lengthened_def toy_st'_def)
qed

section \<open>What a run promises\<close>

text \<open>C21: Greedy decoding in a batch is greedy decoding alone: whatever sequences joined, left or
  were evicted meanwhile, the tokens sampled for a sequence at temperature zero are those of feeding
  its prompt and its own tokens, without padding, to the model.\<close>

theorem greedy_decoding_ignores_the_batch:
  assumes "tf_runs lm st made" "encodes lm prompt_ids" "attends lm kv logits_of"
    and "made i = Some (p, g, ys)" "gc_temperature g = 0"
  shows "ys = greedy_path kv logits_of (prompt_ids p) (length ys)"
  using tf_runs_inv [OF assms(1-3)] assms(4,5) unfolding run_inv_def greedy_log_def by blast

theorem greedy_decoding_ignores_the_batch_witness:
  "\<exists>st made. tf_runs toy_lm st made \<and> made 0 = Some (''ab'', toy_settings, [2, 0])
     \<and> [2, 0] = greedy_path toy_kv toy_logits (toy_ids ''ab'') (length [2 :: int, 0])"
proof -
  obtain st made where run: "tf_runs toy_lm st made" "made 0 = Some (''ab'', toy_settings, [2, 0])"
    using toy_runs by blast
  have "[2, 0] = greedy_path toy_kv toy_logits (toy_ids ''ab'') (length [2 :: int, 0])"
    by (rule greedy_decoding_ignores_the_batch [OF run(1) toy_encodes toy_attends run(2)]) (simp add: toy_settings_def)
  with run show ?thesis
    by blast
qed

section \<open>The runner keeps the step-wise contract\<close>

lemma prefill_returns:
  assumes enc: "encodes lm prompt_ids" and att: "attends lm kv logits_of" and h: "holds kv st f"
    and draws: "draws_one_each multinomial" and vocab: "\<forall>h. length (logits_of h) = v"
    and ne: "states \<noteq> []" and k: "\<forall>s \<in> set states. gc_top_k (ss_generation s) \<le> int v"
  shows "\<exists>out. tf_prefill lm multinomial states st = Inr out"
proof -
  let ?st = "st\<lparr>tf_prefills := Suc (tf_prefills st)\<rparr>"
  obtain tids attn where e: "lm_encode lm (map ss_prompt states) = (tids, attn)"
    by (cases "lm_encode lm (map ss_prompt states)")
  let ?prompts = "map ss_prompt states"
  have "?prompts \<noteq> []"
    using ne by simp
  from prefill_forward [OF enc att e this] obtain logits past w where
    fwd: "lm_forward lm tids attn (positions attn) None = Inr (logits, past)"
      "length logits = length ?prompts" "length past = length ?prompts" "length attn = length ?prompts"
    and rows: "\<forall>j < length ?prompts. sum_list (attn ! j) = int (length (prompt_ids (?prompts ! j)))
        \<and> logits ! j = logits_of (feed kv [] (prompt_ids (?prompts ! j)))
        \<and> (\<forall>t. row_holds kv w (past ! j) (attn ! j) t (prompt_ids (?prompts ! j) @ [t]))"
    by (elim exE conjE) blast
  note fwd = fwd(1) fwd(2-4) [unfolded length_map]
  have row: "logits ! j = logits_of (feed kv [] (prompt_ids (ss_prompt (states ! j))))"
      "row_holds kv w (past ! j) (attn ! j) t (prompt_ids (ss_prompt (states ! j)) @ [t])" if "j < length states" for j t
    using rows that by simp_all
  have h0: "holds kv ?st f"
    using h by simp
  have "0 < length states"
    using ne by simp
  from merge_cache_ok [OF h0 fwd(3,4) this row(2), where zero = "lm_zero lm" and toks = "\<lambda>_. 0"] obtain st1 where
    m: "merge_cache (lm_zero lm) past attn ?st = Inr st1"
    by blast
  have "\<forall>l \<in> set logits. length l = v"
    using fwd(2) row(1) vocab by (auto simp: in_set_conv_nth)
  moreover have "\<forall>g \<in> set (map ss_generation states). gc_top_k g \<le> int v"
    using k by auto
  ultimately obtain first where first: "sample (lm_argsort lm) multinomial logits (map ss_generation states) = Inr first"
      "length first = length states"
    using sample_total [of logits "map ss_generation states" v multinomial "lm_argsort lm"] draws fwd(2) by auto
  have gens: "map ss_generation (map (\<lambda>(s, m). s\<lparr>ss_prompt_tokens := sum_list m\<rparr>) (zip states attn)) = map ss_generation states"
    using fwd(4) by (intro nth_equalityI) simp_all
  show ?thesis
    using ne e fwd(1,4) m first unfolding tf_prefill_def Let_def by (simp add: gens del: map_map)
qed

lemma record_token_prefilled: "prefilled s (record_token lm tok (prompt_known prompt_ids s))"
  by (auto simp: prefilled_def record_token_def prompt_known_def)

lemma record_token_advanced: "\<not> finished s \<Longrightarrow> advanced s (record_token lm tok s)"
  by (auto simp: advanced_def record_token_def)

text \<open>A function with given values on distinct points.\<close>

definition overlay :: "(int \<Rightarrow> 'a) \<Rightarrow> int list \<Rightarrow> 'a list \<Rightarrow> int \<Rightarrow> 'a" where
  "overlay f is xs i = (case map_of (zip is xs) i of None \<Rightarrow> f i | Some x \<Rightarrow> x)"

lemma overlay_simps:
  "distinct is \<Longrightarrow> length xs = length is \<Longrightarrow> j < length is \<Longrightarrow> overlay f is xs (is ! j) = xs ! j"
  "i \<notin> set is \<Longrightarrow> overlay f is xs i = f i"
proof -
  show "distinct is \<Longrightarrow> length xs = length is \<Longrightarrow> j < length is \<Longrightarrow> overlay f is xs (is ! j) = xs ! j"
    by (simp add: overlay_def map_of_zip_nth)
  show "i \<notin> set is \<Longrightarrow> overlay f is xs i = f i"
    by (auto simp: overlay_def dest!: map_of_SomeD set_zip_leftD split: option.split)
qed

lemma tf_stepwise_runner:
  assumes enc: "encodes lm prompt_ids" and att: "attends lm kv logits_of"
    and draws: "\<And>g. draws_one_each (fst (draw g))" and vocab: "\<forall>h. length (logits_of h) = v"
  shows "stepwise_runner (tf_ops lm draw) (\<lambda>(st, g). set (tf_rows st)) (\<lambda>(st, g). \<exists>f. holds kv st f)
    (\<lambda>c. gc_top_k c \<le> int v)"
proof
  fix r :: "'a tf_runner \<times> 'b" and states :: "sequence_state list"
  obtain st g where r: "r = (st, g)"
    by (cases r)
  assume ok: "case r of (st, g) \<Rightarrow> \<exists>f. holds kv st f" and ne: "states \<noteq> []" and ids: "distinct (map ss_id states)"
    and fresh: "ss_id ` set states \<inter> (case r of (st, g) \<Rightarrow> set (tf_rows st)) = {}"
    and fine: "\<forall>s \<in> set states. gc_top_k (ss_generation s) \<le> int v"
  obtain m g' where d: "draw g = (m, g')"
    by (cases "draw g")
  have m: "draws_one_each m"
    using draws [of g] d by simp
  obtain f where h: "holds kv st f"
    using ok r by auto
  have rows: "distinct (tf_rows st @ map ss_id states)"
    using h ids fresh r by (auto simp: holds_def)
  obtain states' st' where run: "tf_prefill lm m states st = Inr (states', st')"
    using prefill_returns [OF enc att h m vocab ne fine] by auto
  from prefill_ok [OF enc att h ne rows run] obtain first where first: "length first = length states"
      "tf_rows st' = tf_rows st @ map ss_id states"
      "states' = map (\<lambda>(s, tok). record_token lm tok (prompt_known prompt_ids s)) (zip states first)"
    and holds: "\<And>g. (\<forall>i \<in> set (tf_rows st). g i = f i) \<Longrightarrow>
         (\<forall>j < length states. g (ss_id (states ! j)) = prompt_ids (ss_prompt (states ! j)) @ [first ! j]) \<Longrightarrow> holds kv st' g"
    by (elim exE conjE) blast
  let ?f = "overlay f (map ss_id states) (map2 (\<lambda>s tok. prompt_ids (ss_prompt s) @ [tok]) states first)"
  have "holds kv st' ?f"
  proof (intro holds ballI allI impI)
    show "?f i = f i" if "i \<in> set (tf_rows st)" for i
      using rows that by (intro overlay_simps(2)) auto
    show "?f (ss_id (states ! j)) = prompt_ids (ss_prompt (states ! j)) @ [first ! j]" if "j < length states" for j
      using overlay_simps(1) [OF ids, of "map2 (\<lambda>s tok. prompt_ids (ss_prompt s) @ [tok]) states first" j f] that first(1) by simp
  qed
  moreover have "list_all2 prefilled states states'"
    using first(1) by (simp add: first(3) list_all2_conv_all_nth record_token_prefilled)
  moreover have "ro_prefill (tf_ops lm draw) states r = Inr (states', st', g')"
    by (simp add: tf_ops_def r d run)
  ultimately show "\<exists>ss' r'. ro_prefill (tf_ops lm draw) states r = Inr (ss', r') \<and> list_all2 prefilled states ss'
      \<and> (case r' of (st, g) \<Rightarrow> set (tf_rows st)) = (case r of (st, g) \<Rightarrow> set (tf_rows st)) \<union> ss_id ` set states
      \<and> (case r' of (st, g) \<Rightarrow> \<exists>f. holds kv st f)"
    using first(2) by (intro exI [of _ states'] exI [of _ "(st', g')"]) (auto simp: r)
next
  fix r :: "'a tf_runner \<times> 'b" and states :: "sequence_state list"
  obtain st g where r: "r = (st, g)"
    by (cases r)
  assume ok: "case r of (st, g) \<Rightarrow> \<exists>f. holds kv st f" and ids: "distinct (map ss_id states)"
    and mine: "\<forall>s \<in> set states. gc_top_k (ss_generation s) \<le> int v
      \<and> (finished s \<or> ss_id s \<in> (case r of (st, g) \<Rightarrow> set (tf_rows st)))"
  obtain m g' where d: "draw g = (m, g')"
    by (cases "draw g")
  have m: "draws_one_each m"
    using draws [of g] d by simp
  obtain f where h: "holds kv st f"
    using ok r by auto
  have k: "\<forall>s \<in> set states. gc_top_k (ss_generation s) \<le> int v"
    using mine by blast
  obtain states' st' where run: "tf_decode lm m states st = Inr (states', st')" "length states' = length states"
    and step: "\<And>p. p < length states \<Longrightarrow> if \<not> finished (states ! p) \<and> ss_id (states ! p) \<in> set (tf_rows st)
         then \<exists>tok. states' ! p = record_token lm tok (states ! p) else states' ! p = states ! p"
    using decode_advances [OF att h ids m vocab k] by blast
  have "advanced (states ! p) (states' ! p)" if p: "p < length states" for p
  proof (cases "finished (states ! p)")
    case True
    with step [OF p] show ?thesis
      by (simp add: advanced_def)
  next
    case False
    moreover have "ss_id (states ! p) \<in> set (tf_rows st)"
      using mine p False r by auto
    ultimately show ?thesis
      using step [OF p] record_token_advanced by auto
  qed
  then have adv: "list_all2 advanced states states'"
    using run(2) by (simp add: list_all2_conv_all_nth)
  have "(\<exists>f. holds kv st' f) \<and> set (tf_rows st') \<subseteq> set (tf_rows st)
      \<and> (\<forall>s \<in> set states. finished s \<or> ss_id s \<in> set (tf_rows st'))"
  proof (cases "idle states st")
    case True
    with decode_ok [OF att h run(1)] h mine r show ?thesis
      by auto
  next
    case busy: False
    note D = decode_ok [OF att h run(1), unfolded if_not_P [OF busy]]
    have rows: "tf_rows st' = filter (\<lambda>i. i \<in> wanted states) (tf_rows st)"
      using D by blast
    have "\<exists>f. holds kv st' f"
    proof (cases "tf_rows st' = []")
      case True
      with D show ?thesis
        by auto
    next
      case False
      with D obtain tokens where t: "length tokens = length (tf_rows st')"
        "\<And>g. (\<forall>j < length tokens. g (tf_rows st' ! j) = f (tf_rows st' ! j) @ [tokens ! j]) \<Longrightarrow> holds kv st' g"
        by auto
      have "distinct (tf_rows st')"
        using h unfolding rows by (simp add: holds_def)
      then have "holds kv st' (overlay f (tf_rows st') (map2 (\<lambda>i tok. f i @ [tok]) (tf_rows st') tokens))"
        using t(1) by (intro t(2)) (simp add: overlay_simps(1))
      then show ?thesis
        by blast
    qed
    moreover have "finished s \<or> ss_id s \<in> set (tf_rows st')" if "s \<in> set states" for s
      using that mine r unfolding rows by auto
    ultimately show ?thesis
      unfolding rows by auto
  qed
  moreover have "ro_decode (tf_ops lm draw) states r = Inr (states', st', g')"
    by (simp add: tf_ops_def r d run)
  ultimately show "\<exists>ss' r'. ro_decode (tf_ops lm draw) states r = Inr (ss', r') \<and> list_all2 advanced states ss'
      \<and> (case r' of (st, g) \<Rightarrow> set (tf_rows st)) \<subseteq> (case r of (st, g) \<Rightarrow> set (tf_rows st))
      \<and> (\<forall>s \<in> set states. finished s \<or> ss_id s \<in> (case r' of (st, g) \<Rightarrow> set (tf_rows st)))
      \<and> (case r' of (st, g) \<Rightarrow> \<exists>f. holds kv st f)"
    using adv by (intro exI [of _ states'] exI [of _ "(st', g')"]) (auto simp: r)
next
  fix r :: "'a tf_runner \<times> 'b" and i
  obtain st g where r: "r = (st, g)"
    by (cases r)
  assume "case r of (st, g) \<Rightarrow> \<exists>f. holds kv st f"
  then obtain f where "holds kv st f"
    using r by auto
  from evict_ok [OF this, of i] show "(case ro_evict (tf_ops lm draw) i r of (st, g) \<Rightarrow> set (tf_rows st))
      = (case r of (st, g) \<Rightarrow> set (tf_rows st)) - {i}
      \<and> (case ro_evict (tf_ops lm draw) i r of (st, g) \<Rightarrow> \<exists>f. holds kv st f)"
    by (auto simp: tf_ops_def r)
qed



end
