(* ===== verification/Py_Regex.thy ===== *)
theory Py_Regex
  imports Py_Text "HOL-Library.Sublist"
begin

text \<open>
  What the repository's scripts use of Python's \<open>re\<close> and of \<open>str.splitlines\<close>. A pattern is
  matched by backtracking: \<open>runs\<close> lists every way to match at a place of the text, in the
  order in which Python tries them, so the first is the match. A place is the character before
  it, the rest of the text and the groups captured so far. Characters have 8 bits.
\<close>

section \<open>Patterns\<close>

datatype rx =
    Nothing                     \<comment> \<open>the empty pattern\<close>
  | One "char \<Rightarrow> bool"          \<comment> \<open>a character of a class\<close>
  | Seq rx rx
  | Alt rx rx                   \<comment> \<open>\<open>p|q\<close>\<close>
  | Many rx                     \<comment> \<open>\<open>p*\<close>\<close>
  | Few rx                      \<comment> \<open>\<open>p*?\<close>\<close>
  | Unless rx                   \<comment> \<open>\<open>(?!p)\<close>\<close>
  | Boundary                    \<comment> \<open>\<open>\b\<close>\<close>
  | Line_Start                  \<comment> \<open>\<open>^\<close> with \<open>MULTILINE\<close>\<close>
  | Line_End                    \<comment> \<open>\<open>$\<close> with \<open>MULTILINE\<close>\<close>
  | Text_End                    \<comment> \<open>\<open>$\<close> without\<close>
  | Group nat rx

record place =
  pl_prev :: "char option"
  pl_rest :: string
  pl_groups :: "(nat \<times> string) list"

text \<open>\<open>\w\<close>: letters, digits and the other numeric characters of Latin-1, and the underscore.\<close>

definition is_word :: "char \<Rightarrow> bool" where
  "is_word c = (let n = of_char c :: nat in
     48 \<le> n \<and> n \<le> 57 \<or> 65 \<le> n \<and> n \<le> 90 \<or> n = 95 \<or> 97 \<le> n \<and> n \<le> 122
     \<or> n \<in> {170, 178, 179, 181, 185, 186, 188, 189, 190}
     \<or> 192 \<le> n \<and> n \<noteq> 215 \<and> n \<noteq> 247)"

fun lit :: "string \<Rightarrow> rx" where
  "lit [] = Nothing"
| "lit (c # s) = Seq (One (\<lambda>x. x = c)) (lit s)"

definition dot :: rx where
  "dot = One (\<lambda>c. c \<noteq> newline)"

definition opt :: "rx \<Rightarrow> rx" where
  "opt p = Alt p Nothing"

definition some :: "rx \<Rightarrow> rx" where
  "some p = Seq p (Many p)"

text \<open>
  A repetition goes on only from a place further on. \<open>n\<close> bounds the rounds: each consumes at
  least one character, so the length of the rest is enough.
\<close>

fun greedy_runs :: "nat \<Rightarrow> (place \<Rightarrow> place list) \<Rightarrow> place \<Rightarrow> place list" where
  "greedy_runs 0 step p = [p]"
| "greedy_runs (Suc n) step p =
     concat (map (greedy_runs n step) (filter (\<lambda>q. length (pl_rest q) < length (pl_rest p)) (step p))) @ [p]"

fun lazy_runs :: "nat \<Rightarrow> (place \<Rightarrow> place list) \<Rightarrow> place \<Rightarrow> place list" where
  "lazy_runs 0 step p = [p]"
| "lazy_runs (Suc n) step p =
     p # concat (map (lazy_runs n step) (filter (\<lambda>q. length (pl_rest q) < length (pl_rest p)) (step p)))"

text \<open>The text between a place and a later one.\<close>

definition between :: "place \<Rightarrow> place \<Rightarrow> string" where
  "between p q = take (length (pl_rest p) - length (pl_rest q)) (pl_rest p)"

fun runs :: "rx \<Rightarrow> place \<Rightarrow> place list" where
  "runs Nothing p = [p]"
| "runs (One P) p =
     (case pl_rest p of
        [] \<Rightarrow> []
      | c # s \<Rightarrow> if P c then [p\<lparr>pl_prev := Some c, pl_rest := s\<rparr>] else [])"
| "runs (Seq a b) p = concat (map (runs b) (runs a p))"
| "runs (Alt a b) p = runs a p @ runs b p"
| "runs (Many a) p = greedy_runs (length (pl_rest p)) (runs a) p"
| "runs (Few a) p = lazy_runs (length (pl_rest p)) (runs a) p"
| "runs (Unless a) p = (if runs a p = [] then [p] else [])"
| "runs Boundary p =
     (let left = (case pl_prev p of None \<Rightarrow> False | Some c \<Rightarrow> is_word c);
          right = (case pl_rest p of [] \<Rightarrow> False | c # _ \<Rightarrow> is_word c)
      in if left \<noteq> right then [p] else [])"
| "runs Line_Start p = (if pl_prev p = None \<or> pl_prev p = Some newline then [p] else [])"
| "runs Line_End p = (if pl_rest p = [] \<or> hd (pl_rest p) = newline then [p] else [])"
| "runs Text_End p = (if pl_rest p = [] \<or> pl_rest p = [newline] then [p] else [])"
| "runs (Group n a) p = map (\<lambda>q. q\<lparr>pl_groups := AList.update n (between p q) (pl_groups q)\<rparr>) (runs a p)"

section \<open>Searching and replacing\<close>

text \<open>\<open>re.search\<close>, of which the scripts use only whether it found something.\<close>

fun search_from :: "rx \<Rightarrow> char option \<Rightarrow> string \<Rightarrow> bool" where
  "search_from r c [] = (runs r \<lparr>pl_prev = c, pl_rest = [], pl_groups = []\<rparr> \<noteq> [])"
| "search_from r c (x # s) =
     (runs r \<lparr>pl_prev = c, pl_rest = x # s, pl_groups = []\<rparr> \<noteq> [] \<or> search_from r (Some x) s)"

definition search :: "rx \<Rightarrow> string \<Rightarrow> bool" where
  "search r s = search_from r None s"

text \<open>
  \<open>re.sub\<close> with a function of the match, given here as the matched text and the groups. After
  an empty match one character is copied.
\<close>

function sub_from ::
  "rx \<Rightarrow> (string \<Rightarrow> (nat \<times> string) list \<Rightarrow> string) \<Rightarrow> char option \<Rightarrow> string \<Rightarrow> string" where
  "sub_from r f c s =
     (let p = \<lparr>pl_prev = c, pl_rest = s, pl_groups = []\<rparr> in
      case runs r p of
        q # _ \<Rightarrow>
          f (between p q) (pl_groups q) @
          (if length (pl_rest q) < length s then sub_from r f (pl_prev q) (pl_rest q)
           else (case s of [] \<Rightarrow> [] | x # t \<Rightarrow> x # sub_from r f (Some x) t))
      | [] \<Rightarrow> (case s of [] \<Rightarrow> [] | x # t \<Rightarrow> x # sub_from r f (Some x) t))"
  by pat_completeness auto
termination
  by (relation "measure (\<lambda>(r, f, c, s). length s)") auto

declare sub_from.simps [simp del]

definition sub :: "rx \<Rightarrow> (string \<Rightarrow> (nat \<times> string) list \<Rightarrow> string) \<Rightarrow> string \<Rightarrow> string" where
  "sub r f s = sub_from r f None s"

text \<open>\<open>re.finditer\<close>: the number of characters before each match, its text and its groups.\<close>

function finditer_from ::
  "rx \<Rightarrow> nat \<Rightarrow> char option \<Rightarrow> string \<Rightarrow> (nat \<times> string \<times> (nat \<times> string) list) list" where
  "finditer_from r n c s =
     (let p = \<lparr>pl_prev = c, pl_rest = s, pl_groups = []\<rparr> in
      case runs r p of
        q # _ \<Rightarrow>
          (n, between p q, pl_groups q) #
          (if length (pl_rest q) < length s
           then finditer_from r (n + length (between p q)) (pl_prev q) (pl_rest q)
           else (case s of [] \<Rightarrow> [] | x # t \<Rightarrow> finditer_from r (Suc n) (Some x) t))
      | [] \<Rightarrow> (case s of [] \<Rightarrow> [] | x # t \<Rightarrow> finditer_from r (Suc n) (Some x) t))"
  by pat_completeness auto
termination
  by (relation "measure (\<lambda>(r, n, c, s). length s)") auto

declare finditer_from.simps [simp del]

definition finditer :: "rx \<Rightarrow> string \<Rightarrow> (nat \<times> string \<times> (nat \<times> string) list) list" where
  "finditer r s = finditer_from r 0 None s"

section \<open>Lines\<close>

text \<open>\<open>str.splitlines\<close> breaks at more than line feeds.\<close>

definition is_break :: "char \<Rightarrow> bool" where
  "is_break c = (let n = of_char c :: nat in 10 \<le> n \<and> n \<le> 13 \<or> 28 \<le> n \<and> n \<le> 30 \<or> n = 133)"

fun splitlines :: "string \<Rightarrow> string list" where
  "splitlines [] = []"
| "splitlines (c # s) =
     (if is_break c then [] # splitlines (if c = CHR 0x0D \<and> starts_with [newline] s then tl s else s)
      else (case splitlines s of [] \<Rightarrow> [[c]] | l # ls \<Rightarrow> (c # l) # ls))"

section \<open>Facts about matching\<close>

text \<open>The place \<open>n\<close> characters further on.\<close>

definition advance :: "nat \<Rightarrow> place \<Rightarrow> place" where
  "advance n p = p\<lparr>pl_prev := (if n = 0 then pl_prev p else Some (pl_rest p ! (n - 1))),
                   pl_rest := drop n (pl_rest p)\<rparr>"

lemma advance_simps [simp]:
  "advance 0 p = p"
  "pl_rest (advance n p) = drop n (pl_rest p)"
  "pl_groups (advance n p) = pl_groups p"
  by (simp_all add: advance_def)

lemma advance_advance:
  assumes "m + n \<le> length (pl_rest p)"
  shows "advance n (advance m p) = advance (m + n) p"
proof (cases "n = 0")
  case False
  with assms have "drop m (pl_rest p) ! (n - 1) = pl_rest p ! (m + n - 1)"
    by simp
  with False show ?thesis
    by (simp add: advance_def add.commute)
qed simp

definition place_at :: "string \<Rightarrow> nat \<Rightarrow> place" where
  "place_at s i = advance i \<lparr>pl_prev = None, pl_rest = s, pl_groups = []\<rparr>"

lemma place_at_simps [simp]:
  "pl_rest (place_at s i) = drop i s"
  "pl_groups (place_at s i) = []"
  "place_at s 0 = \<lparr>pl_prev = None, pl_rest = s, pl_groups = []\<rparr>"
  by (simp_all add: place_at_def)

text \<open>A match moves forward.\<close>

definition moved :: "place \<Rightarrow> place \<Rightarrow> bool" where
  "moved p q \<longleftrightarrow> (\<exists>w. pl_rest p = w @ pl_rest q \<and> pl_prev q = (if w = [] then pl_prev p else Some (last w)))"

lemma moved_refl: "moved p p"
  by (simp add: moved_def)

lemma moved_groups [simp]: "moved p (q\<lparr>pl_groups := g\<rparr>) \<longleftrightarrow> moved p q"
  by (simp add: moved_def)

lemma moved_trans:
  assumes "moved p q" "moved q r"
  shows "moved p r"
proof -
  obtain v w where "pl_rest p = v @ pl_rest q" "pl_prev q = (if v = [] then pl_prev p else Some (last v))"
    "pl_rest q = w @ pl_rest r" "pl_prev r = (if w = [] then pl_prev q else Some (last w))"
    using assms by (auto simp: moved_def)
  then show ?thesis
    unfolding moved_def by (intro exI [of _ "v @ w"]) auto
qed

lemma moved_advance: "n \<le> length (pl_rest p) \<Longrightarrow> moved p (advance n p)"
  unfolding moved_def by (intro exI [of _ "take n (pl_rest p)"]) (auto simp: advance_def last_conv_nth min_absorb2)

lemma moved_repeat:
  assumes "\<And>p q. q \<in> set (step p) \<Longrightarrow> moved p q"
  shows "q \<in> set (greedy_runs n step p) \<Longrightarrow> moved p q" "q \<in> set (lazy_runs n step p) \<Longrightarrow> moved p q"
proof -
  have step: "moved p q" if "x \<in> set (step p)" "moved x q" for x p
    using assms [OF that(1)] that(2) by (rule moved_trans)
  show "q \<in> set (greedy_runs n step p) \<Longrightarrow> moved p q"
    by (induction n arbitrary: p) (auto intro: moved_refl step)
  show "q \<in> set (lazy_runs n step p) \<Longrightarrow> moved p q"
    by (induction n arbitrary: p) (auto intro: moved_refl step)
qed

lemma runs_One [simp]:
  "runs (One P) p = (if pl_rest p \<noteq> [] \<and> P (hd (pl_rest p)) then [advance 1 p] else [])"
  by (auto simp: advance_def split: list.split)

declare runs.simps(2) [simp del]

lemma runs_moved: "q \<in> set (runs r p) \<Longrightarrow> moved p q"
proof (induction r arbitrary: p q)
  case (One P)
  then have "q = advance 1 p" "1 \<le> length (pl_rest p)"
    by (auto simp: Suc_le_eq split: if_splits)
  then show ?case
    by (simp only: moved_advance)
next
  case (Seq a b)
  then obtain q' where "q' \<in> set (runs a p)" "q \<in> set (runs b q')"
    by auto
  then show ?case
    by (rule moved_trans [OF Seq.IH])
next
  case (Many r)
  then show ?case
    using moved_repeat(1) [of "runs r"] by auto
next
  case (Few r)
  then show ?case
    using moved_repeat(2) [of "runs r"] by auto
qed (auto simp: Let_def moved_refl split: if_splits)

lemma moved_between:
  assumes "moved p q"
  shows "between p q @ pl_rest q = pl_rest p"
    "pl_prev q = (if between p q = [] then pl_prev p else Some (last (between p q)))"
    "length (between p q) = length (pl_rest p) - length (pl_rest q)"
proof -
  obtain w where w: "pl_rest p = w @ pl_rest q" "pl_prev q = (if w = [] then pl_prev p else Some (last w))"
    using assms by (auto simp: moved_def)
  then have "between p q = w"
    by (simp add: between_def)
  with w show "between p q @ pl_rest q = pl_rest p"
    "pl_prev q = (if between p q = [] then pl_prev p else Some (last (between p q)))"
    "length (between p q) = length (pl_rest p) - length (pl_rest q)"
    by simp_all
qed

lemma runs_lit:
  "runs (lit w) p = (if starts_with w (pl_rest p) then [advance (length w) p] else [])"
proof (induction w arbitrary: p)
  case (Cons c w)
  show ?case
  proof (cases "pl_rest p")
    case (Cons x s)
    have "advance (length w) (advance 1 p) = advance (Suc (length w)) p" if "starts_with w s"
    proof -
      have "length w \<le> length s"
        using that by (metis length_take min.cobounded1 starts_with_def)
      then show ?thesis
        using Cons by (simp add: advance_advance)
    qed
    with Cons show ?thesis
      by (auto simp: starts_with_def Cons.IH)
  qed (simp add: starts_with_def)
qed (simp add: starts_with_def)

text \<open>A repeated character class: every place up to the first character outside the class.\<close>

lemma one_more:
  assumes "pl_rest p = x # s" "P x"
  shows "filter (\<lambda>q. length (pl_rest q) < length (pl_rest p)) (runs (One P) p) = [advance 1 p]"
    "map (\<lambda>m. advance m (advance 1 p)) [0..<Suc (min n (length (takeWhile P s)))]
      = map (\<lambda>m. advance m p) [1..<Suc (min (Suc n) (length (takeWhile P (pl_rest p))))]"
proof -
  show "filter (\<lambda>q. length (pl_rest q) < length (pl_rest p)) (runs (One P) p) = [advance 1 p]"
    using assms by simp
  have far: "advance m (advance 1 p) = advance (Suc m) p" if "m < Suc (min n (length (takeWhile P s)))" for m
    using that assms length_takeWhile_le [of P s] advance_advance [of 1 m p] by simp
  have "map (\<lambda>m. advance m (advance 1 p)) [0..<Suc (min n (length (takeWhile P s)))]
      = map (\<lambda>m. advance (Suc m) p) [0..<Suc (min n (length (takeWhile P s)))]"
    by (intro map_cong refl far) (simp del: upt_Suc)
  also have "\<dots> = map (\<lambda>m. advance m p) (map Suc [0..<Suc (min n (length (takeWhile P s)))])"
    by (simp del: upt_Suc)
  also have "\<dots> = map (\<lambda>m. advance m p) [1..<Suc (min (Suc n) (length (takeWhile P (pl_rest p))))]"
    using assms by (simp only: map_Suc_upt) simp
  finally show "map (\<lambda>m. advance m (advance 1 p)) [0..<Suc (min n (length (takeWhile P s)))]
      = map (\<lambda>m. advance m p) [1..<Suc (min (Suc n) (length (takeWhile P (pl_rest p))))]" .
qed

lemma stuck: "pl_rest p = [] \<or> \<not> P (hd (pl_rest p)) \<Longrightarrow> runs (One P) p = [] \<and> takeWhile P (pl_rest p) = []"
  by (cases "pl_rest p") auto

lemma lazy_class:
  "lazy_runs n (runs (One P)) p
     = map (\<lambda>m. advance m p) [0..<Suc (min n (length (takeWhile P (pl_rest p))))]"
proof (induction n arbitrary: p)
  case (Suc n)
  show ?case
  proof (cases "pl_rest p = [] \<or> \<not> P (hd (pl_rest p))")
    case True
    then show ?thesis
      by (simp only: lazy_runs.simps stuck) simp
  next
    case False
    then obtain x s where x: "pl_rest p = x # s" "P x"
      by (cases "pl_rest p") auto
    then have "lazy_runs (Suc n) (runs (One P)) p = p # lazy_runs n (runs (One P)) (advance 1 p)"
      by (simp only: lazy_runs.simps one_more(1)) simp
    also have "\<dots> = p # map (\<lambda>m. advance m (advance 1 p)) [0..<Suc (min n (length (takeWhile P s)))]"
      unfolding Suc.IH using x by simp
    also have "\<dots> = map (\<lambda>m. advance m p) (0 # [1..<Suc (min (Suc n) (length (takeWhile P (pl_rest p))))])"
      unfolding one_more(2) [of p x s P, OF x] by simp
    finally show ?thesis
      by (simp only: upt_conv_Cons zero_less_Suc One_nat_def)
  qed
qed simp

lemma greedy_class:
  "greedy_runs n (runs (One P)) p
     = rev (map (\<lambda>m. advance m p) [0..<Suc (min n (length (takeWhile P (pl_rest p))))])"
proof (induction n arbitrary: p)
  case (Suc n)
  show ?case
  proof (cases "pl_rest p = [] \<or> \<not> P (hd (pl_rest p))")
    case True
    then show ?thesis
      by (simp only: greedy_runs.simps stuck) simp
  next
    case False
    then obtain x s where x: "pl_rest p = x # s" "P x"
      by (cases "pl_rest p") auto
    then have "greedy_runs (Suc n) (runs (One P)) p = greedy_runs n (runs (One P)) (advance 1 p) @ [p]"
      by (simp only: greedy_runs.simps one_more(1)) simp
    also have "\<dots> = rev (map (\<lambda>m. advance m (advance 1 p)) [0..<Suc (min n (length (takeWhile P s)))]) @ [p]"
      unfolding Suc.IH using x by simp
    also have "\<dots> = rev (map (\<lambda>m. advance m p) (0 # [1..<Suc (min (Suc n) (length (takeWhile P (pl_rest p))))]))"
      unfolding one_more(2) [of p x s P, OF x] by simp
    finally show ?thesis
      by (simp only: upt_conv_Cons zero_less_Suc One_nat_def)
  qed
qed simp

lemma runs_class:
  "runs (Few (One P)) p = map (\<lambda>m. advance m p) [0..<Suc (length (takeWhile P (pl_rest p)))]"
  "runs (Many (One P)) p = rev (map (\<lambda>m. advance m p) [0..<Suc (length (takeWhile P (pl_rest p)))])"
  unfolding runs.simps(5,6) lazy_class greedy_class by (simp_all add: min_absorb2 length_takeWhile_le del: upt_Suc)

section \<open>Facts about searching and replacing\<close>

lemma ex_le_Suc: "(\<exists>i \<le> Suc n. Q i) \<longleftrightarrow> Q 0 \<or> (\<exists>i \<le> n. Q (Suc i))"
  by (metis Suc_le_mono not0_implies_Suc zero_le)

lemma search_from_iff:
  "search_from r c s \<longleftrightarrow> (\<exists>i \<le> length s. runs r (advance i \<lparr>pl_prev = c, pl_rest = s, pl_groups = []\<rparr>) \<noteq> [])"
proof (induction s arbitrary: c)
  case (Cons x s)
  have "advance (Suc i) \<lparr>pl_prev = c, pl_rest = x # s, pl_groups = []\<rparr>
      = advance i \<lparr>pl_prev = Some x, pl_rest = s, pl_groups = []\<rparr>" for i
    by (cases i) (simp_all add: advance_def)
  then show ?case
    by (simp add: Cons.IH ex_le_Suc)
qed simp

lemma search_iff: "search r s \<longleftrightarrow> (\<exists>i \<le> length s. runs r (place_at s i) \<noteq> [])"
  by (simp add: search_def search_from_iff place_at_def)

lemma starts_with_drop: "starts_with w (drop i s) \<longleftrightarrow> (\<exists>t. s = take i s @ w @ t)"
proof
  assume "starts_with w (drop i s)"
  then have "drop i s = w @ drop (length w) (drop i s)"
    by (metis append_take_drop_id starts_with_def)
  then show "\<exists>t. s = take i s @ w @ t"
    by (metis append_take_drop_id)
next
  assume "\<exists>t. s = take i s @ w @ t"
  then obtain t where "s = take i s @ w @ t"
    by blast
  then have "drop i s = w @ t"
    by (metis append_take_drop_id same_append_eq)
  then show "starts_with w (drop i s)"
    by simp
qed

lemma contains_iff: "contains w s \<longleftrightarrow> (\<exists>i \<le> length s. starts_with w (drop i s))"
proof (induction s)
  case Nil
  show ?case
    by (auto simp: starts_with_def)
qed (simp add: ex_le_Suc)

lemma contains_appended: "contains w s \<longleftrightarrow> (\<exists>a b. s = a @ w @ b)"
  unfolding contains_iff starts_with_drop
  by (metis append_eq_conv_conj le_add1 length_append)

lemma search_lit: "search (lit w) s \<longleftrightarrow> contains w s"
  by (auto simp: search_iff contains_iff runs_lit)

text \<open>What is put in the place of a match decides what the whole replacement looks like.\<close>

lemma sub_from_cases:
  assumes "\<And>m g. R (f m g) m" "R [] []" "\<And>x s t. R s t \<Longrightarrow> R (x # s) (x # t)"
    "\<And>s t s' t'. R s t \<Longrightarrow> R s' t' \<Longrightarrow> R (s @ s') (t @ t')"
  shows "R (sub_from r f c s) s"
  using assms(1)
proof (induction r f c s rule: sub_from.induct)
  case (1 r f c s)
  let ?p = "\<lparr>pl_prev = c, pl_rest = s, pl_groups = []\<rparr>"
  have copied: "R (case s of [] \<Rightarrow> [] | x # t \<Rightarrow> x # sub_from r f (Some x) t) s"
    if "\<And>x t. s = x # t \<Longrightarrow> R (sub_from r f (Some x) t) t"
    using that assms(2,3) by (cases s) auto
  show ?case
  proof (cases "runs r ?p")
    case Nil
    with "1.IH"(1) [OF refl Nil _ "1.prems"] copied show ?thesis
      by (subst sub_from.simps) simp
  next
    case (Cons q qs)
    then have m: "moved ?p q"
      by (intro runs_moved [of q r]) simp
    show ?thesis
    proof (cases "length (pl_rest q) < length s")
      case True
      have "R (f (between ?p q) (pl_groups q) @ sub_from r f (pl_prev q) (pl_rest q)) (between ?p q @ pl_rest q)"
        by (intro assms(4) "1.prems" "1.IH"(2) [OF refl Cons True "1.prems"])
      then show ?thesis
        using Cons True moved_between(1) [OF m] by (subst sub_from.simps) simp
    next
      case False
      then have b: "between ?p q = []"
        using moved_between(3) [OF m] by simp
      have "R (f (between ?p q) (pl_groups q) @ (case s of [] \<Rightarrow> [] | x # t \<Rightarrow> x # sub_from r f (Some x) t)) ([] @ s)"
        unfolding b using "1.IH"(3) [OF refl Cons False _ "1.prems"] by (intro assms(4) "1.prems" copied) blast
      then show ?thesis
        using Cons False by (subst sub_from.simps) simp
    qed
  qed
qed

section \<open>Facts about lines\<close>

text \<open>A text from which characters other than line feeds have been deleted.\<close>

inductive blanked :: "string \<Rightarrow> string \<Rightarrow> bool" where
  nothing: "blanked [] []"
| kept: "blanked s t \<Longrightarrow> blanked (c # s) (c # t)"
| deleted: "c \<noteq> newline \<Longrightarrow> blanked s t \<Longrightarrow> blanked s (c # t)"

lemma blanked_append: "blanked s t \<Longrightarrow> blanked s' t' \<Longrightarrow> blanked (s @ s') (t @ t')"
  by (induction rule: blanked.induct) (auto intro: blanked.intros)

lemma blanked_newlines: "blanked (replicate (count_list t newline) newline) t"
  by (induction t) (auto intro: blanked.intros)

lemma blanked_set: "blanked s t \<Longrightarrow> set s \<subseteq> set t"
  by (induction rule: blanked.induct) auto

text \<open>Line by line, and with the same numbers.\<close>

definition lines_within :: "string list \<Rightarrow> string list \<Rightarrow> bool" where
  "lines_within ls ls' \<longleftrightarrow> length ls \<le> length ls' \<and> (\<forall>i < length ls. subseq (ls ! i) (ls' ! i))"

lemma lines_within_simps [simp]:
  "lines_within [] ls"
  "lines_within (l # ls) [] \<longleftrightarrow> False"
  "lines_within (l # ls) (l' # ls') \<longleftrightarrow> subseq l l' \<and> lines_within ls ls'"
  by (auto simp: lines_within_def All_less_Suc2)

definition breaks_at_newlines :: "string \<Rightarrow> bool" where
  "breaks_at_newlines s \<longleftrightarrow> (\<forall>c \<in> set s. is_break c \<longleftrightarrow> c = newline)"

lemma splitlines_newline [simp]: "splitlines (newline # s) = [] # splitlines s"
  by (simp add: is_break_def)

lemma splitlines_other:
  "\<not> is_break c \<Longrightarrow> splitlines (c # s) = (case splitlines s of [] \<Rightarrow> [[c]] | l # ls \<Rightarrow> (c # l) # ls)"
  by simp

declare splitlines.simps(2) [simp del]

lemma blanked_lines: "blanked s t \<Longrightarrow> breaks_at_newlines t \<Longrightarrow> lines_within (splitlines s) (splitlines t)"
proof (induction rule: blanked.induct)
  case (kept s t c)
  then have IH: "lines_within (splitlines s) (splitlines t)"
    by (simp add: breaks_at_newlines_def)
  show ?case
  proof (cases "c = newline")
    case False
    with kept.prems have "\<not> is_break c"
      by (simp add: breaks_at_newlines_def)
    with IH show ?thesis
      by (cases "splitlines s"; cases "splitlines t") (simp_all add: splitlines_other)
  qed (simp add: IH)
next
  case (deleted c s t)
  then have "lines_within (splitlines s) (splitlines t)" "\<not> is_break c"
    by (simp_all add: breaks_at_newlines_def)
  then show ?case
    by (cases "splitlines s"; cases "splitlines t") (auto simp: splitlines_other)
qed simp

lemma splitlines_no_break: "l \<in> set (splitlines s) \<Longrightarrow> c \<in> set l \<Longrightarrow> \<not> is_break c"
proof (induction s arbitrary: l rule: splitlines.induct)
  case (2 x s)
  show ?case
  proof (cases "is_break x")
    case True
    with 2 show ?thesis
      by (auto simp: splitlines.simps(2) split: if_splits)
  next
    case False
    have "\<not> is_break c" if "l' \<in> set (splitlines s)" "c \<in> set l'" for l'
      using "2.IH"(2) [OF False that] .
    with "2.prems" False show ?thesis
      by (cases "splitlines s") (fastforce simp: splitlines_other)+
  qed
qed simp

lemma splitlines_no_newline: "l \<in> set (splitlines s) \<Longrightarrow> newline \<notin> set l"
  using splitlines_no_break [of l s newline] by (auto simp: is_break_def)

lemma lines_within_trans:
  assumes "lines_within ls ls'" "lines_within ls' ls''"
  shows "lines_within ls ls''"
  using assms by (auto simp: lines_within_def intro: subseq_order.trans)

lemma lines_within_map: "(\<And>l. l \<in> set ls \<Longrightarrow> subseq (f l) l) \<Longrightarrow> lines_within (map f ls) ls"
  by (simp add: lines_within_def)

section \<open>Facts about sequences of patterns\<close>

abbreviation reaches :: "rx \<Rightarrow> place \<Rightarrow> bool" where
  "reaches r p \<equiv> runs r p \<noteq> []"

lemma reaches_lit: "reaches (lit w) p \<longleftrightarrow> starts_with w (pl_rest p)"
  by (simp add: runs_lit)

lemma reaches_then_lit:
  "reaches (Seq (lit w) r) p \<longleftrightarrow> starts_with w (pl_rest p) \<and> reaches r (advance (length w) p)"
  by (simp add: runs_lit)

lemma reaches_then_class:
  "reaches (Seq (Many (One P)) r) p \<longleftrightarrow> (\<exists>m \<le> length (takeWhile P (pl_rest p)). reaches r (advance m p))"
  "reaches (Seq (Few (One P)) r) p \<longleftrightarrow> (\<exists>m \<le> length (takeWhile P (pl_rest p)). reaches r (advance m p))"
  by (auto simp: runs.simps(3) runs_class concat_eq_Nil_conv less_Suc_eq_le simp del: upt_Suc runs.simps(5,6))

lemma gap:
  "(\<exists>m \<le> length (takeWhile P t). Q (drop m t)) \<longleftrightarrow> (\<exists>b c. t = b @ c \<and> (\<forall>x \<in> set b. P x) \<and> Q c)"
proof
  assume "\<exists>m \<le> length (takeWhile P t). Q (drop m t)"
  then obtain m where m: "m \<le> length (takeWhile P t)" "Q (drop m t)"
    by blast
  then have "take m t = take m (takeWhile P t)"
    by (metis takeWhile_eq_take take_take min.absorb1)
  then have "\<forall>x \<in> set (take m t). P x"
    by (metis in_set_takeD set_takeWhileD)
  with m(2) show "\<exists>b c. t = b @ c \<and> (\<forall>x \<in> set b. P x) \<and> Q c"
    by (metis append_take_drop_id)
next
  assume "\<exists>b c. t = b @ c \<and> (\<forall>x \<in> set b. P x) \<and> Q c"
  then obtain b c where "t = b @ c" "\<forall>x \<in> set b. P x" "Q c"
    by blast
  then show "\<exists>m \<le> length (takeWhile P t). Q (drop m t)"
    by (intro exI [of _ "length b"]) (simp add: takeWhile_append2)
qed

text \<open>Two literals with characters of a class between them.\<close>

lemma search_around:
  assumes "r = Seq (lit u) (Seq (Few (One P)) (lit v)) \<or> r = Seq (lit u) (Seq (Many (One P)) (lit v))"
  shows "search r s \<longleftrightarrow> (\<exists>a b c. s = a @ u @ b @ v @ c \<and> (\<forall>x \<in> set b. P x))"
proof -
  have step: "reaches r (place_at s i) \<longleftrightarrow>
      starts_with u (drop i s) \<and> (\<exists>b c. drop (length u) (drop i s) = b @ c \<and> (\<forall>x \<in> set b. P x) \<and> starts_with v c)" for i
  proof -
    have "reaches r (place_at s i) \<longleftrightarrow> starts_with u (drop i s) \<and>
        (\<exists>m \<le> length (takeWhile P (drop (length u) (drop i s))). starts_with v (drop m (drop (length u) (drop i s))))"
      using assms by (elim disjE) (simp_all only: reaches_then_lit reaches_then_class reaches_lit advance_simps place_at_simps)
    then show ?thesis
      by (simp only: gap)
  qed
  show ?thesis
  proof
    assume "search r s"
    then obtain i b c where i: "starts_with u (drop i s)" "drop (length u) (drop i s) = b @ c" "\<forall>x \<in> set b. P x" "starts_with v c"
      unfolding search_iff step by blast
    then have "s = take i s @ u @ b @ v @ drop (length v) c"
      by (metis append_take_drop_id starts_with_def)
    with i(3) show "\<exists>a b c. s = a @ u @ b @ v @ c \<and> (\<forall>x \<in> set b. P x)"
      by blast
  next
    assume "\<exists>a b c. s = a @ u @ b @ v @ c \<and> (\<forall>x \<in> set b. P x)"
    then obtain a b c where "s = a @ u @ b @ v @ c" "\<forall>x \<in> set b. P x"
      by blast
    then show "search r s"
      unfolding search_iff step by (intro exI [of _ "length a"] conjI exI [of _ b] exI [of _ "v @ c"]) simp_all
  qed
qed

section \<open>Facts about words\<close>

lemma contains_append: "contains w a \<or> contains w b \<Longrightarrow> contains w (a @ b)"
  unfolding contains_appended by (metis append.assoc)

lemma contains_across:
  assumes "c \<notin> set w"
  shows "contains w (a @ c # b) \<longleftrightarrow> contains w a \<or> contains w b"
proof
  assume "contains w (a @ c # b)"
  then obtain x y where xy: "a @ c # b = x @ w @ y"
    by (auto simp: contains_appended)
  then consider (one) t where "a = x @ w @ t" | (two) t where "b = t @ w @ y"
    using assms by (auto simp: append_eq_append_conv2 append_eq_Cons_conv Cons_eq_append_conv)
  then show "contains w a \<or> contains w b"
    by cases (auto simp: contains_appended)
next
  assume "contains w a \<or> contains w b"
  then show "contains w (a @ c # b)"
    using contains_append [of w a "c # b"] contains_append [of w "[c]" b] contains_append [of w a "[c] @ b"] by auto
qed

lemma contains_join:
  assumes "c \<notin> set w" "w \<noteq> []"
  shows "contains w (join [c] ls) \<longleftrightarrow> (\<exists>l \<in> set ls. contains w l)"
  using assms by (induction "[c]" ls rule: join.induct) (auto simp: contains_across)

lemma words_from_append: "is_space c \<Longrightarrow> words_from w (a @ c # b) = words_from w a @ split_words b"
  by (induction a arbitrary: w) (simp_all add: split_words_def)

lemma split_words_join: "is_space c \<Longrightarrow> split_words (join [c] ls) = concat (map split_words ls)"
  by (induction "[c]" ls rule: join.induct) (simp_all add: words_from_append split_words_def)

lemma split_words_spaces: "\<forall>c \<in> set b. is_space c \<Longrightarrow> split_words b = []"
  by (induction b) (simp_all add: split_words_def)

lemma split_words_strip [simp]: "split_words (strip s) = split_words s"
proof -
  have lead: "split_words (dropWhile is_space t) = split_words t" for t
    by (induction t) (simp_all add: split_words_def)
  have trail: "split_words (t @ b) = split_words t" if "\<forall>c \<in> set b. is_space c" for t b
  proof (cases b)
    case (Cons c b')
    with that show ?thesis
      by (simp add: split_words_def words_from_append split_words_spaces [unfolded split_words_def])
  qed simp
  let ?t = "dropWhile is_space s"
  have "?t = strip s @ rev (takeWhile is_space (rev ?t))"
    unfolding strip_def by (metis rev_append rev_rev_ident takeWhile_dropWhile_id)
  then have "split_words ?t = split_words (strip s)"
    using trail [of "rev (takeWhile is_space (rev ?t))" "strip s"] by (auto dest: set_takeWhileD)
  then show ?thesis
    by (simp add: lead)
qed

end
