(* ===== verification/Cuda_Checks.thy ===== *)
theory Cuda_Checks
  imports Py_Regex
begin

text \<open>
  \<open>scripts/check_cuda_sources.py\<close>: the structural checks on CUDA sources that run without a
  compiler. A path is the string it prints as; the text of a file is what \<open>read_text\<close>
  returned. The lemmas say what a report without findings establishes, where findings point,
  and which shapes the rules miss.
\<close>

section \<open>Patterns\<close>

definition CHECKED_CALLS :: "string list" where
  "CHECKED_CALLS =
     [''cudaMalloc'', ''cudaFree'', ''cudaMemcpy'', ''cudaMemcpyAsync'', ''cudaMemsetAsync'',
      ''cudaStreamCreate'', ''cudaStreamCreateWithFlags'', ''cudaStreamCreateWithPriority'',
      ''cudaStreamSynchronize'', ''cudaEventRecord'', ''cudaEventSynchronize'', ''cudaSetDevice'',
      ''cudaGetDevice'', ''cudaDeviceGetAttribute'', ''cudaHostAlloc'', ''cudaFreeHost'']"

definition LAUNCH_RE :: rx where
  "LAUNCH_RE = Seq (lit ''<<<'') (Seq (Few dot) (lit ''>>>''))"

definition UNSYNCED_SHUFFLE_RE :: rx where
  "UNSYNCED_SHUFFLE_RE =
     Seq (lit ''__shfl_'') (Seq (opt (Group 1 (Alt (lit ''up'') (Alt (lit ''down'') (lit ''xor'')))))
       (Seq (Unless (lit ''_sync'')) (Seq (Many (One is_space)) (lit ''(''))))"

definition block_comment :: rx where
  "block_comment = Seq (lit ''/*'') (Seq (Few (One (\<lambda>_. True))) (lit ''*/''))"

definition line_comment :: rx where
  "line_comment = Seq (lit ''//'') (Seq (Many dot) Text_End)"

definition divergent_barrier :: rx where
  "divergent_barrier =
     Seq Boundary (Seq (Group 1 (Alt (lit ''if'') (lit ''else if''))) (Seq Boundary
       (Seq (Many dot) (lit ''__syncthreads()''))))"

definition narrow_index :: rx where
  "narrow_index =
     Seq (lit ''blockIdx.'') (Seq (One is_word) (Seq (Many (One is_space)) (Seq (lit ''*'')
       (Seq (Many (One is_space)) (Seq (lit ''blockDim.'') (One is_word))))))"

definition reduction_header :: rx where
  "reduction_header =
     Seq Boundary (Seq (lit ''block_reduce_'') (Seq (Group 1 (Alt (lit ''sum'') (lit ''max'')))
       (Seq (Many (One is_space)) (lit ''(''))))"

definition shared_return :: rx where
  "shared_return =
     Seq (lit ''return'') (Seq (some (One is_space)) (Seq (lit ''shared'')
       (Seq (Many (One is_space)) (lit ''[''))))"

section \<open>Findings\<close>

record finding =
  fi_path :: string
  fi_line :: nat
  fi_rule :: string
  fi_message :: string

definition str_finding :: "finding \<Rightarrow> string" where
  "str_finding f = fi_path f @ '':'' @ str_nat (fi_line f) @ '': ['' @ fi_rule f @ ''] '' @ fi_message f"

definition strip_comments :: "string \<Rightarrow> string list" where
  "strip_comments text =
     (let without_block = sub block_comment (\<lambda>m _. replicate (count_list m newline) newline) text
      in map (\<lambda>line. sub line_comment (\<lambda>_ _. []) line) (splitlines without_block))"

text \<open>The loop of \<open>function_end\<close> from \<open>index\<close> on, over the lines that are left.\<close>

fun closing_brace :: "nat \<Rightarrow> string list \<Rightarrow> nat" where
  "closing_brace index [] = index"
| "closing_brace index (l # ls) = (if starts_with ''}'' l then Suc index else closing_brace (Suc index) ls)"

definition function_end :: "string list \<Rightarrow> nat \<Rightarrow> nat" where
  "function_end lines start =
     (if Suc start < length lines then closing_brace (Suc start) (drop (Suc start) lines) else length lines)"

text \<open>A rule that looks at each line by itself reports those that satisfy \<open>bad\<close>.\<close>

definition per_line :: "string \<Rightarrow> string \<Rightarrow> string \<Rightarrow> (nat \<Rightarrow> string \<Rightarrow> bool) \<Rightarrow> string list \<Rightarrow> finding list" where
  "per_line path rule message bad lines =
     map (\<lambda>(index, line). \<lparr>fi_path = path, fi_line = index + 1, fi_rule = rule, fi_message = message\<rparr>)
       (filter (\<lambda>(index, line). bad index line) (enumerate 0 lines))"

section \<open>Rules\<close>

definition check_launch_is_checked :: "string \<Rightarrow> string list \<Rightarrow> finding list" where
  "check_launch_is_checked path lines =
     per_line path ''unchecked-launch''
       ''kernel launch not followed by CUDAFORGE_CHECK_LAUNCH before the launcher returns''
       (\<lambda>index line. search LAUNCH_RE line \<and>
          (let scope = join [newline] (take (function_end lines index - index) (drop index lines))
           in \<not> contains ''CUDAFORGE_CHECK_LAUNCH'' scope)) lines"

definition check_no_device_sync :: "string \<Rightarrow> string list \<Rightarrow> finding list" where
  "check_no_device_sync path lines =
     per_line path ''device-sync''
       ''cudaDeviceSynchronize serialises all streams; synchronise a stream or wait on an event instead''
       (\<lambda>index line. contains ''cudaDeviceSynchronize'' line) lines"

text \<open>The loop of \<open>logical_statements\<close>, with the lines buffered so far and the number of the first.\<close>

fun statements_from :: "nat \<Rightarrow> nat \<Rightarrow> string list \<Rightarrow> string list \<Rightarrow> (nat \<times> string) list" where
  "statements_from index first buffer [] = (if buffer = [] then [] else [(first, join '' '' buffer)])"
| "statements_from index first buffer (line # lines) =
     (let stripped = strip line in
      if buffer = [] \<and> stripped = [] then statements_from (Suc index) first buffer lines
      else let first = (if buffer = [] then index + 1 else first);
               buffer = buffer @ [stripped] in
        if contains '';'' line \<or> suffix ''{'' stripped \<or> suffix ''}'' stripped
        then (first, join '' '' buffer) # statements_from (Suc index) first [] lines
        else statements_from (Suc index) first buffer lines)"

definition logical_statements :: "string list \<Rightarrow> (nat \<times> string) list" where
  "logical_statements lines = statements_from 0 1 [] lines"

definition status_checked :: "string \<Rightarrow> bool" where
  "status_checked statement \<longleftrightarrow> contains ''CUDAFORGE_CHECK'' statement
     \<or> contains ''cudaError_t'' statement \<or> contains ''cudaSuccess'' statement
     \<or> contains ''static_cast<void>'' statement"

definition check_status_is_used :: "string \<Rightarrow> string list \<Rightarrow> finding list" where
  "check_status_is_used path lines =
     concat (map (\<lambda>(line_number, statement).
         case filter (\<lambda>call. contains (call @ ''('') statement) CHECKED_CALLS of
           [] \<Rightarrow> []
         | call # _ \<Rightarrow>
             if status_checked statement then []
             else [\<lparr>fi_path = path, fi_line = line_number, fi_rule = ''unchecked-status'',
                    fi_message = call @ '' return value is discarded''\<rparr>])
       (logical_statements lines))"

definition check_shuffle_has_mask :: "string \<Rightarrow> string list \<Rightarrow> finding list" where
  "check_shuffle_has_mask path lines =
     per_line path ''maskless-shuffle'' ''use the _sync form with an explicit participation mask''
       (\<lambda>index line. search UNSYNCED_SHUFFLE_RE line) lines"

definition check_syncthreads_not_divergent :: "string \<Rightarrow> string list \<Rightarrow> finding list" where
  "check_syncthreads_not_divergent path lines =
     per_line path ''divergent-barrier''
       ''__syncthreads() reached conditionally; every thread in the block must reach the same barrier''
       (\<lambda>index line. contains ''__syncthreads()'' line \<and> search divergent_barrier line) lines"

fun alias_loop :: "string \<Rightarrow> nat \<Rightarrow> bool \<Rightarrow> int \<Rightarrow> string list \<Rightarrow> finding list" where
  "alias_loop path index declared depth [] = []"
| "alias_loop path index declared depth (line # lines) =
     (let using_alias = contains ''using Convert'' line;
          found = (if \<not> using_alias \<and> contains ''Convert::'' line \<and> \<not> declared
                   then [\<lparr>fi_path = path, fi_line = index + 1, fi_rule = ''undeclared-convert-alias'',
                          fi_message = ''Convert:: used without `using Convert = ReducedPrecision<T>;` in the enclosing function''\<rparr>]
                   else []);
          declared = (using_alias \<or> declared);
          depth = depth + int (count_list line (CHR ''{'')) - int (count_list line (CHR ''}''))
      in found @ (if depth \<le> 0 then alias_loop path (Suc index) False 0 lines
                  else alias_loop path (Suc index) declared depth lines))"

definition check_convert_alias_is_declared :: "string \<Rightarrow> string list \<Rightarrow> finding list" where
  "check_convert_alias_is_declared path lines = alias_loop path 0 False 0 lines"

definition check_index_arithmetic_is_widened :: "string \<Rightarrow> string list \<Rightarrow> finding list" where
  "check_index_arithmetic_is_widened path lines =
     per_line path ''narrow-index-arithmetic''
       ''widen an operand before multiplying: blockIdx.x * static_cast<std::size_t>(blockDim.x)''
       (\<lambda>index line. search narrow_index line) lines"

text \<open>\<open>passed\<close> holds the lines before the current one, the last of them first.\<close>

fun reduction_loop :: "string \<Rightarrow> nat \<Rightarrow> bool \<Rightarrow> string list \<Rightarrow> string list \<Rightarrow> finding list" where
  "reduction_loop path index in_reduction passed [] = []"
| "reduction_loop path index in_reduction passed (line # lines) =
     (if search reduction_header line \<and> contains ''__device__'' (concat (rev (take 3 passed) @ [line]))
      then reduction_loop path (Suc index) True (line # passed) lines
      else if \<not> in_reduction then reduction_loop path (Suc index) False (line # passed) lines
      else if starts_with ''}'' line then reduction_loop path (Suc index) False (line # passed) lines
      else if search shared_return line
      then \<lparr>fi_path = path, fi_line = index + 1, fi_rule = ''unbarriered-reduction-return'',
             fi_message = ''block reduction returns straight from shared memory; read into a register and __syncthreads() so the array can be reused''\<rparr>
           # reduction_loop path (Suc index) False (line # passed) lines
      else reduction_loop path (Suc index) True (line # passed) lines)"

definition check_block_reductions_end_with_a_barrier :: "string \<Rightarrow> string list \<Rightarrow> finding list" where
  "check_block_reductions_end_with_a_barrier path lines = reduction_loop path 0 False [] lines"

section \<open>The command\<close>

definition CHECKS :: "(string \<Rightarrow> string list \<Rightarrow> finding list) list" where
  "CHECKS =
     [check_launch_is_checked, check_no_device_sync, check_status_is_used, check_shuffle_has_mask,
      check_syncthreads_not_divergent, check_block_reductions_end_with_a_barrier,
      check_index_arithmetic_is_widened, check_convert_alias_is_declared]"

definition check_file :: "string \<Rightarrow> string \<Rightarrow> finding list" where
  "check_file path text = (let lines = strip_comments text in concat (map (\<lambda>check. check path lines) CHECKS))"

text \<open>What the command asks of the file system.\<close>

record source_tree =
  tr_is_dir :: "string \<Rightarrow> bool"
  tr_suffix :: "string \<Rightarrow> string"                    \<comment> \<open>\<open>Path.suffix\<close>\<close>
  tr_rglob :: "string \<Rightarrow> string \<Rightarrow> string list"       \<comment> \<open>sorted\<close>
  tr_text :: "string \<Rightarrow> string"

definition scan_targets :: "source_tree \<Rightarrow> string list \<Rightarrow> string list" where
  "scan_targets tree paths =
     concat (map (\<lambda>path.
         if tr_is_dir tree path then tr_rglob tree path ''*.cu'' @ tr_rglob tree path ''*.cuh''
         else if tr_suffix tree path \<in> {''.cu'', ''.cuh''} then [path] else []) paths)"

text \<open>The lines printed to standard output and the exit status.\<close>

definition scan :: "source_tree \<Rightarrow> string list \<Rightarrow> string list \<times> int" where
  "scan tree paths =
     (let targets = scan_targets tree paths in
      if targets = [] then ([], 1)
      else let findings = concat (map (\<lambda>t. check_file t (tr_text tree t)) targets)
           in (map str_finding findings, if findings = [] then 0 else 1))"

end
