(* ===== verification/Cuda_Checks_Properties.thy ===== *)
theory Cuda_Checks_Properties
  imports Cuda_Checks
begin

text \<open>
  What the structural checks of the CUDA sources establish: where findings point, what a
  report without findings means, that joining lines to statements loses no code, and the
  scope of the alias rule; and the shapes that pass although a comment says they do not.
\<close>

section \<open>Comments\<close>

lemma stripped_line: "subseq (sub line_comment (\<lambda>_ _. []) l) l"
  unfolding sub_def by (rule sub_from_cases) (auto intro: list_emb_append_mono)

lemma without_block_comments:
  "blanked (sub block_comment (\<lambda>m _. replicate (count_list m newline) newline) text) text"
  unfolding sub_def by (rule sub_from_cases) (auto intro: blanked.intros blanked_append blanked_newlines)

lemma stripped_lines: "breaks_at_newlines text \<Longrightarrow> lines_within (strip_comments text) (splitlines text)"
  unfolding strip_comments_def Let_def
  by (rule lines_within_trans [OF lines_within_map [OF stripped_line] blanked_lines [OF without_block_comments]])

lemma subseq_set: "subseq s t \<Longrightarrow> set s \<subseteq> set t"
  by (induction rule: list_emb.induct) auto

lemma stripped_no_newline:
  assumes "l \<in> set (strip_comments text)"
  shows "newline \<notin> set l"
  using assms subseq_set [OF stripped_line] splitlines_no_newline
  unfolding strip_comments_def Let_def by auto

section \<open>Where findings point\<close>

definition located :: "string \<Rightarrow> nat \<Rightarrow> finding \<Rightarrow> bool" where
  "located path n f \<longleftrightarrow> fi_path f = path \<and> 1 \<le> fi_line f \<and> fi_line f \<le> n"

lemma per_line_located: "f \<in> set (per_line path rule message bad lines) \<Longrightarrow> located path (length lines) f"
  by (auto simp: per_line_def located_def in_set_enumerate_eq)

lemma alias_located:
  "f \<in> set (alias_loop path index declared depth lines) \<Longrightarrow> located path (index + length lines) f"
proof (induction path index declared depth lines rule: alias_loop.induct)
  case (2 path index declared depth line lines)
  then show ?case
    by (auto simp: Let_def located_def split: if_splits)
qed simp

lemma reduction_located:
  "f \<in> set (reduction_loop path index in_reduction passed lines) \<Longrightarrow> located path (index + length lines) f"
proof (induction path index in_reduction passed lines rule: reduction_loop.induct)
  case (2 path index in_reduction passed line lines)
  then show ?case
    by (auto simp: located_def split: if_splits)
qed simp

text \<open>A statement is made of the lines from its first on, up to the first that ends one.\<close>

definition ends_statement :: "string \<Rightarrow> bool" where
  "ends_statement line \<longleftrightarrow> contains '';'' line \<or> suffix ''{'' (strip line) \<or> suffix ''}'' (strip line)"

definition is_statement :: "string list \<Rightarrow> nat \<times> string \<Rightarrow> bool" where
  "is_statement lines = (\<lambda>(n, s). \<exists>k. 0 < k \<and> 1 \<le> n \<and> n - 1 + k \<le> length lines
     \<and> s = join '' '' (map strip (take k (drop (n - 1) lines)))
     \<and> strip (lines ! (n - 1)) \<noteq> []
     \<and> (\<forall>j < k - 1. \<not> ends_statement (lines ! (n - 1 + j)))
     \<and> (ends_statement (lines ! (n - 1 + (k - 1))) \<or> n - 1 + k = length lines))"

definition buffered :: "string list \<Rightarrow> nat \<Rightarrow> nat \<Rightarrow> string list \<Rightarrow> bool" where
  "buffered lines index first buffer \<longleftrightarrow> 1 \<le> first \<and> first - 1 + length buffer = index \<and> index \<le> length lines
      \<and> buffer = map strip (take (length buffer) (drop (first - 1) lines))
      \<and> strip (lines ! (first - 1)) \<noteq> [] \<and> (\<forall>j < length buffer - 1. \<not> ends_statement (lines ! (first - 1 + j)))"

lemma buffered_statement:
  assumes "buffered lines index first buffer" "buffer \<noteq> []"
    and "ends_statement (lines ! (index - 1)) \<or> index = length lines"
  shows "is_statement lines (first, join '' '' buffer)"
  using assms unfolding is_statement_def prod.case buffered_def
  by (intro exI [of _ "length buffer"]) (auto simp flip: length_greater_0_conv)

lemma buffered_more:
  assumes "buffer = [] \<or> buffered lines index first buffer \<and> \<not> ends_statement (lines ! (index - 1))"
    and "index < length lines" "\<not> (buffer = [] \<and> strip (lines ! index) = [])"
  shows "buffered lines (Suc index) (if buffer = [] then index + 1 else first) (buffer @ [strip (lines ! index)])"
proof (cases "buffer = []")
  case True
  with assms show ?thesis
    by (auto simp: buffered_def take_Suc_conv_app_nth hd_drop_conv_nth)
next
  case False
  with assms(1) have b: "buffered lines index first buffer" "\<not> ends_statement (lines ! (index - 1))"
    by simp_all
  let ?buffer = "buffer @ [strip (lines ! index)]"
  have n: "length ?buffer = Suc (length buffer)"
    by simp
  have made: "?buffer = map strip (take (length ?buffer) (drop (first - 1) lines))"
    unfolding n using b(1) assms(2) by (subst take_Suc_conv_app_nth) (auto simp: buffered_def)
  have "\<not> ends_statement (lines ! (first - 1 + j))" if "j < length ?buffer - 1" for j
    using that b by (cases "j = length buffer - 1") (auto simp: buffered_def)
  with b(1) assms(2) show ?thesis
    unfolding if_not_P [OF False] buffered_def by (intro conjI made) (simp_all add: n)
qed

lemma statements_are_statements:
  assumes "buffer = [] \<or> buffered (passed @ lines) (length passed) first buffer
      \<and> \<not> ends_statement ((passed @ lines) ! (length passed - 1))"
  shows "(\<forall>p \<in> set (statements_from (length passed) first buffer lines).
        is_statement (passed @ lines) p \<and> (if buffer = [] then length passed + 1 else first) \<le> fst p)
     \<and> sorted_wrt (<) (map fst (statements_from (length passed) first buffer lines))"
  using assms
proof (induction lines arbitrary: passed first buffer)
  case Nil
  then show ?case
    using buffered_statement [of "passed @ []" "length passed" first buffer] by auto
next
  case (Cons line lines)
  let ?whole = "passed @ line # lines" and ?s = "strip line"
  let ?first = "if buffer = [] then length passed + 1 else first" and ?buffer = "buffer @ [?s]"
  have IH: "(\<forall>p \<in> set (statements_from (Suc (length passed)) first buffer lines).
        is_statement ?whole p \<and> (if buffer = [] then Suc (length passed) + 1 else first) \<le> fst p)
     \<and> sorted_wrt (<) (map fst (statements_from (Suc (length passed)) first buffer lines))"
    if "buffer = [] \<or> buffered ?whole (Suc (length passed)) first buffer \<and> \<not> ends_statement line" for first buffer
    using Cons.IH [of buffer "passed @ [line]" first] that by (auto split: if_splits)
  show ?case
  proof (cases "buffer = [] \<and> ?s = []")
    case True
    with IH [of buffer first] show ?thesis
      by (auto dest: Suc_lessD)
  next
    case False
    have more: "buffered ?whole (Suc (length passed)) ?first ?buffer"
      using buffered_more [OF Cons.prems] False by (simp add: nth_append)
    have early: "1 \<le> ?first" "?first \<le> Suc (length passed)"
      using more by (auto simp: buffered_def split: if_splits)
    show ?thesis
    proof (cases "ends_statement line")
      case True
      let ?later = "statements_from (Suc (length passed)) ?first [] lines"
      have later: "\<forall>p \<in> set ?later. is_statement ?whole p \<and> ?first < fst p" "sorted_wrt (<) (map fst ?later)"
        using IH [of "[]" ?first] early(2) by fastforce+
      have made: "statements_from (length passed) first buffer (line # lines) = (?first, join '' '' ?buffer) # ?later"
        using True False by (auto simp: Let_def ends_statement_def)
      have here: "is_statement ?whole (?first, join '' '' ?buffer)"
        using True by (intro buffered_statement [OF more]) (simp_all add: nth_append)
      show ?thesis
        unfolding made using here later by (simp add: less_imp_le)
    next
      case go: False
      with IH [of ?buffer ?first] more False go show ?thesis
        by (auto simp: Let_def ends_statement_def)
    qed
  qed
qed

lemma statements_well_formed:
  "\<forall>p \<in> set (logical_statements lines). is_statement lines p"
  "sorted_wrt (<) (map fst (logical_statements lines))"
  using statements_are_statements [of "[]" "[]" lines 1] by (auto simp: logical_statements_def)

lemma status_located: "f \<in> set (check_status_is_used path lines) \<Longrightarrow> located path (length lines) f"
proof -
  have "1 \<le> n \<and> n \<le> length lines" if "(n, s) \<in> set (logical_statements lines)" for n s
    using statements_well_formed(1) [THEN bspec, OF that] by (auto simp: is_statement_def)
  then show "f \<in> set (check_status_is_used path lines) \<Longrightarrow> located path (length lines) f"
    by (fastforce simp: check_status_is_used_def located_def split: list.splits if_splits)
qed

lemmas check_defs =
  check_launch_is_checked_def check_no_device_sync_def check_shuffle_has_mask_def check_syncthreads_not_divergent_def
  check_index_arithmetic_is_widened_def check_convert_alias_is_declared_def
  check_block_reductions_end_with_a_barrier_def

lemma check_located:
  assumes "check \<in> set CHECKS" "f \<in> set (check path lines)"
  shows "located path (length lines) f"
  using assms
  by (auto simp only: CHECKS_def check_defs list.set insert_iff empty_iff intro: per_line_located status_located
      alias_located [of _ _ 0, unfolded add_0] reduction_located [of _ _ 0, unfolded add_0])


lemma statements_words:
  "concat (map (split_words \<circ> snd) (statements_from index first buffer lines))
     = concat (map split_words (buffer @ lines))"
proof (induction lines arbitrary: index first buffer)
  case Nil
  show ?case
    by (simp add: split_words_join is_space_def)
next
  case (Cons line lines)
  have "split_words line = []" if "strip line = []"
    using split_words_strip [of line] that by (simp add: split_words_def)
  with Cons.IH show ?case
    by (simp add: Let_def split_words_join is_space_def)
qed

section \<open>Launches\<close>

lemma closing_brace_scope:
  "index \<le> j \<and> j < closing_brace index ls \<longleftrightarrow>
     index \<le> j \<and> j < index + length ls \<and> (\<forall>k. index \<le> k \<and> k < j \<longrightarrow> \<not> starts_with ''}'' (ls ! (k - index)))"
proof (induction index ls rule: closing_brace.induct)
  case (2 index l ls)
  show ?case
  proof (cases "starts_with ''}'' l")
    case True
    then show ?thesis
      by (auto simp: le_less_Suc_eq dest: spec [of _ index])
  next
    case False
    show ?thesis
    proof (cases "j = index")
      case True
      have "index < closing_brace (Suc index) ls"
        by (induction "Suc index" ls arbitrary: index rule: closing_brace.induct) (auto intro: less_trans)
      with True False show ?thesis
        by simp
    next
      case other: False
      have "(\<forall>k. index \<le> k \<and> k < j \<longrightarrow> \<not> starts_with ''}'' ((l # ls) ! (k - index)))
          \<longleftrightarrow> (\<forall>k. Suc index \<le> k \<and> k < j \<longrightarrow> \<not> starts_with ''}'' (ls ! (k - Suc index)))"
        using False by (auto simp: nth_Cons' Suc_le_eq)
      with 2 False other show ?thesis
        by auto
    qed
  qed
qed auto

lemma function_end_scope:
  assumes "start < length lines"
  shows "start \<le> j \<and> j < function_end lines start \<longleftrightarrow>
     start \<le> j \<and> j < length lines \<and> (\<forall>k. start < k \<and> k < j \<longrightarrow> \<not> starts_with ''}'' (lines ! k))"
proof (cases "j = start \<or> \<not> Suc start < length lines")
  case True
  have "index < closing_brace (Suc index) ls" for index ls
    by (induction "Suc index" ls arbitrary: index rule: closing_brace.induct) (auto intro: less_trans)
  with True assms show ?thesis
    by (auto simp: function_end_def)
next
  case False
  then have "start \<le> j \<and> j < function_end lines start
      \<longleftrightarrow> Suc start \<le> j \<and> j < closing_brace (Suc start) (drop (Suc start) lines)"
    by (auto simp: function_end_def)
  with False show ?thesis
    unfolding closing_brace_scope by (auto simp: Suc_le_eq)
qed

lemma per_line_Nil:
  "per_line path rule message bad lines = [] \<longleftrightarrow> (\<forall>i < length lines. \<not> bad i (lines ! i))"
  by (auto simp: per_line_def filter_empty_conv in_set_enumerate_eq)

lemma launch_search:
  assumes "newline \<notin> set line"
  shows "search LAUNCH_RE line \<longleftrightarrow> (\<exists>a b c. line = a @ ''<<<'' @ b @ ''>>>'' @ c)"
proof -
  have "search LAUNCH_RE line \<longleftrightarrow> (\<exists>a b c. line = a @ ''<<<'' @ b @ ''>>>'' @ c \<and> (\<forall>x \<in> set b. x \<noteq> newline))"
    unfolding LAUNCH_RE_def dot_def by (rule search_around [OF disjI1 [OF refl]])
  also have "\<dots> \<longleftrightarrow> (\<exists>a b c. line = a @ ''<<<'' @ b @ ''>>>'' @ c)"
    using assms by (intro iff_exI) auto
  finally show ?thesis .
qed

text \<open>The lines from a launch to the end of its function.\<close>

lemma scope_lines:
  assumes "start < length lines" "l \<in> set (take (function_end lines start - start) (drop start lines))"
  obtains j where "l = lines ! j" "start \<le> j" "j < function_end lines start"
proof -
  obtain i where "i < function_end lines start - start" "i < length lines - start" "l = lines ! (start + i)"
    using assms by (auto simp: in_set_conv_nth)
  then show ?thesis
    by (intro that [of "start + i"]) simp_all
qed

lemma launch_rule_clean:
  assumes "check_launch_is_checked path lines = []" "\<forall>l \<in> set lines. newline \<notin> set l"
    and i: "i < length lines" "lines ! i = a @ ''<<<'' @ b @ ''>>>'' @ c"
  shows "\<exists>j. i \<le> j \<and> j < length lines \<and> contains ''CUDAFORGE_CHECK_LAUNCH'' (lines ! j)
     \<and> (\<forall>k. i < k \<and> k < j \<longrightarrow> \<not> starts_with ''}'' (lines ! k))"
proof -
  have "search LAUNCH_RE (lines ! i)"
    using assms(2) i launch_search [of "lines ! i"] by (metis nth_mem)
  with assms(1) i(1) have "contains ''CUDAFORGE_CHECK_LAUNCH'' (join [newline] (take (function_end lines i - i) (drop i lines)))"
    by (auto simp: check_launch_is_checked_def per_line_Nil Let_def)
  then obtain l where "l \<in> set (take (function_end lines i - i) (drop i lines))" "contains ''CUDAFORGE_CHECK_LAUNCH'' l"
    by (subst (asm) contains_join) auto
  then obtain j where "i \<le> j" "j < function_end lines i" "contains ''CUDAFORGE_CHECK_LAUNCH'' (lines ! j)"
    using scope_lines [OF i(1)] by blast
  then show ?thesis
    using function_end_scope [OF i(1), of j] by blast
qed

section \<open>Barriers\<close>

lemma reaches_Seq: "q \<in> set (runs a p) \<Longrightarrow> reaches b q \<Longrightarrow> reaches (Seq a b) p"
  by auto

lemma barrier_found:
  assumes "line = a @ ''if'' @ b @ ''__syncthreads()'' @ c" "newline \<notin> set b"
    and "a = [] \<or> \<not> is_word (last a)" "b \<noteq> []" "\<not> is_word (hd b)"
  shows "search divergent_barrier line"
proof -
  let ?p = "place_at line (length a)"
  have rest: "pl_rest ?p = ''if'' @ b @ ''__syncthreads()'' @ c"
    using assms(1) by simp
  have prev: "pl_prev ?p = (if a = [] then None else Some (last a))"
    using assms(1) by (auto simp: place_at_def advance_def nth_append last_conv_nth)
  have letters: "is_word (CHR ''i'')" "is_word (CHR ''f'')"
    by (simp_all add: is_word_def)
  let ?q = "(advance 2 ?p)\<lparr>pl_groups := [(1, ''if'')]\<rparr>"
  have "runs (lit ''if'') ?p = [advance 2 ?p]"
    unfolding runs_lit using rest by (simp add: starts_with_def numeral_2_eq_2)
  moreover have "between ?p (advance 2 ?p) = ''if''"
    using rest by (simp add: between_def numeral_2_eq_2)
  ultimately have word: "?q \<in> set (runs (Group 1 (Alt (lit ''if'') (lit ''else if''))) ?p)"
    by (simp del: lit.simps)
  have guarded: "reaches (Seq Boundary (Seq (Many dot) (lit ''__syncthreads()''))) ?q"
  proof -
    have far: "length b \<le> length (takeWhile (\<lambda>c. c \<noteq> newline) (b @ t))" for t
      using assms(2) by (subst takeWhile_append2) auto
    have q: "pl_rest ?q = b @ ''__syncthreads()'' @ c"
      using rest by (simp add: numeral_2_eq_2)
    have tail: "reaches (Seq (Many dot) (lit ''__syncthreads()'')) ?q"
      unfolding dot_def reaches_then_class reaches_lit advance_simps q
      by (intro exI [of _ "length b"] conjI far) (simp add: starts_with_def)
    have "pl_prev ?q = Some (CHR ''f'')"
      using rest by (simp add: advance_def)
    then have "?q \<in> set (runs Boundary ?q)"
      using assms(4,5) q letters by (cases b) (simp_all add: advance_def)
    then show ?thesis
      by (rule reaches_Seq [OF _ tail])
  qed
  have "?p \<in> set (runs Boundary ?p)"
    using assms(3) rest letters by (auto simp: prev)
  then have "reaches divergent_barrier ?p"
    unfolding divergent_barrier_def by (rule reaches_Seq [OF _ reaches_Seq [OF word guarded]])
  then show ?thesis
    unfolding search_iff using assms(1) by (intro exI [of _ "length a"]) simp
qed

section \<open>The scope of an alias\<close>

definition net_braces :: "string \<Rightarrow> int" where
  "net_braces line = int (count_list line (CHR ''{'')) - int (count_list line (CHR ''}''))"

text \<open>A block is open after line \<open>k\<close> if some run of lines up to \<open>k\<close> opens more than it closes.\<close>

definition open_after :: "string list \<Rightarrow> nat \<Rightarrow> bool" where
  "open_after lines k \<longleftrightarrow> (\<exists>s \<le> k. 0 < (\<Sum>m = s..k. net_braces (lines ! m)))"

definition alias_in_scope :: "string list \<Rightarrow> nat \<Rightarrow> bool" where
  "alias_in_scope lines i \<longleftrightarrow>
     (\<exists>j < i. contains ''using Convert'' (lines ! j) \<and> (\<forall>k. j \<le> k \<and> k < i \<longrightarrow> open_after lines k))"

primrec depth_before :: "string list \<Rightarrow> nat \<Rightarrow> int" where
  "depth_before lines 0 = 0"
| "depth_before lines (Suc n) = max 0 (depth_before lines n + net_braces (lines ! n))"

lemma depth_is_largest_sum:
  "(\<forall>s \<le> n. (\<Sum>m = s..<n. net_braces (lines ! m)) \<le> depth_before lines n)
     \<and> (\<exists>s \<le> n. (\<Sum>m = s..<n. net_braces (lines ! m)) = depth_before lines n)"
proof (induction n)
  case (Suc n)
  let ?S = "\<lambda>s n. \<Sum>m = s..<n. net_braces (lines ! m)"
  have step: "?S s (Suc n) = ?S s n + net_braces (lines ! n)" if "s \<le> n" for s
    using that by simp
  have "?S s (Suc n) \<le> depth_before lines (Suc n)" if "s \<le> Suc n" for s
  proof (cases "s = Suc n")
    case False
    with that have "s \<le> n"
      by simp
    with Suc.IH have "?S s n \<le> depth_before lines n"
      by blast
    with step [OF \<open>s \<le> n\<close>] show ?thesis
      by simp
  qed simp
  moreover have "\<exists>s \<le> Suc n. ?S s (Suc n) = depth_before lines (Suc n)"
  proof (cases "0 \<le> depth_before lines n + net_braces (lines ! n)")
    case True
    from Suc.IH obtain s where s: "s \<le> n" "?S s n = depth_before lines n"
      by blast
    with step [OF s(1)] True show ?thesis
      by (intro exI [of _ s]) simp
  qed (auto intro!: exI [of _ "Suc n"])
  ultimately show ?case
    by blast
qed simp

lemma open_after_depth: "open_after lines k \<longleftrightarrow> 0 < depth_before lines (Suc k)"
proof
  assume "open_after lines k"
  then obtain s where "s \<le> k" "0 < (\<Sum>m = s..<Suc k. net_braces (lines ! m))"
    by (auto simp: open_after_def atLeastLessThanSuc_atLeastAtMost)
  moreover from this(1) have "(\<Sum>m = s..<Suc k. net_braces (lines ! m)) \<le> depth_before lines (Suc k)"
    by (intro depth_is_largest_sum [THEN conjunct1, rule_format]) simp
  ultimately show "0 < depth_before lines (Suc k)"
    by linarith
next
  assume pos: "0 < depth_before lines (Suc k)"
  obtain s where s: "s \<le> Suc k" "(\<Sum>m = s..<Suc k. net_braces (lines ! m)) = depth_before lines (Suc k)"
    using depth_is_largest_sum [of "Suc k" lines] by blast
  with pos have "s \<noteq> Suc k"
    by (intro notI) simp
  with s pos show "open_after lines k"
    by (auto simp: open_after_def atLeastLessThanSuc_atLeastAtMost intro!: exI [of _ s])
qed

lemma alias_in_scope_Suc:
  "alias_in_scope lines (Suc n) \<longleftrightarrow>
     open_after lines n \<and> (contains ''using Convert'' (lines ! n) \<or> alias_in_scope lines n)"
  unfolding alias_in_scope_def by (auto simp: less_Suc_eq)

definition undeclared_alias :: "string \<Rightarrow> nat \<Rightarrow> finding" where
  "undeclared_alias path i = \<lparr>fi_path = path, fi_line = i + 1, fi_rule = ''undeclared-convert-alias'',
     fi_message = ''Convert:: used without `using Convert = ReducedPrecision<T>;` in the enclosing function''\<rparr>"

definition stray_use :: "string list \<Rightarrow> nat \<Rightarrow> bool" where
  "stray_use lines i \<longleftrightarrow> contains ''Convert::'' (lines ! i) \<and> \<not> contains ''using Convert'' (lines ! i)
     \<and> \<not> alias_in_scope lines i"

lemma alias_loop_Cons:
  "alias_loop path index declared depth (l # ls) =
     (if contains ''Convert::'' l \<and> \<not> contains ''using Convert'' l \<and> \<not> declared then [undeclared_alias path index] else []) @
     (if depth + net_braces l \<le> 0 then alias_loop path (Suc index) False 0 ls
      else alias_loop path (Suc index) (contains ''using Convert'' l \<or> declared) (depth + net_braces l) ls)"
  by (simp add: Let_def net_braces_def undeclared_alias_def algebra_simps)

lemma alias_loop_scopes:
  "alias_loop path (length ps) (alias_in_scope (ps @ ls) (length ps)) (depth_before (ps @ ls) (length ps)) ls
     = map (undeclared_alias path) (filter (stray_use (ps @ ls)) [length ps..<length (ps @ ls)])"
proof (induction ls arbitrary: ps)
  case (Cons l ls)
  let ?whole = "ps @ l # ls" and ?n = "length ps"
  have l: "?whole ! ?n = l"
    by simp
  have depth: "depth_before ?whole (Suc ?n) = max 0 (depth_before ?whole ?n + net_braces l)"
    by simp
  have IH: "alias_loop path (Suc ?n) (alias_in_scope ?whole (Suc ?n)) (depth_before ?whole (Suc ?n)) ls
      = map (undeclared_alias path) (filter (stray_use ?whole) [Suc ?n..<length ?whole])"
    using Cons.IH [of "ps @ [l]"] by simp
  have split: "[?n..<length ?whole] = ?n # [Suc ?n..<length ?whole]"
    by (rule upt_conv_Cons) simp
  have scope: "alias_in_scope ?whole (Suc ?n) \<longleftrightarrow>
      0 < depth_before ?whole ?n + net_braces l \<and> (contains ''using Convert'' l \<or> alias_in_scope ?whole ?n)"
    unfolding alias_in_scope_Suc open_after_depth depth l by auto
  have rest: "(if depth_before ?whole ?n + net_braces l \<le> 0 then alias_loop path (Suc ?n) False 0 ls
      else alias_loop path (Suc ?n) (contains ''using Convert'' l \<or> alias_in_scope ?whole ?n)
        (depth_before ?whole ?n + net_braces l) ls)
      = map (undeclared_alias path) (filter (stray_use ?whole) [Suc ?n..<length ?whole])"
    using IH scope unfolding depth
    by (cases "depth_before ?whole ?n + net_braces l \<le> 0") (simp_all add: max_absorb1 max_absorb2 del: upt_Suc)
  have here: "stray_use ?whole ?n \<longleftrightarrow>
      contains ''Convert::'' l \<and> \<not> contains ''using Convert'' l \<and> \<not> alias_in_scope ?whole ?n"
    unfolding stray_use_def l ..
  show ?case
    unfolding alias_loop_Cons rest split filter.simps here by simp
qed simp

section \<open>What the command establishes\<close>

lemma scan_clean:
  assumes "snd (scan tree paths) = 0" "t \<in> set (scan_targets tree paths)" "check \<in> set CHECKS"
  shows "check t (strip_comments (tr_text tree t)) = []"
  using assms by (auto simp: scan_def check_file_def Let_def split: if_splits)

lemma status_rule_clean:
  assumes "check_status_is_used path lines = []" "(n, s) \<in> set (logical_statements lines)"
    and "call \<in> set CHECKED_CALLS" "contains (call @ ''('') s"
  shows "status_checked s"
proof -
  have "filter (\<lambda>call. contains (call @ ''('') s) CHECKED_CALLS \<noteq> []"
    using assms(3,4) by (auto simp: filter_empty_conv)
  with assms(1,2) show ?thesis
    by (fastforce simp: check_status_is_used_def split: list.splits if_splits)
qed

text \<open>Findings point at their lines. In a text whose lines end with line feeds, a finding has
  the number of a line of the text, and the line it was found in is that line of the text with its
  comments taken out.\<close>

theorem findings_point_at_their_lines:
  assumes "breaks_at_newlines text" "f \<in> set (check_file path text)"
  shows "fi_path f = path \<and> 1 \<le> fi_line f \<and> fi_line f \<le> length (splitlines text)
     \<and> subseq (strip_comments text ! (fi_line f - 1)) (splitlines text ! (fi_line f - 1))"
proof -
  have "located path (length (strip_comments text)) f"
    using assms(2) by (auto simp: check_file_def Let_def intro: check_located)
  with stripped_lines [OF assms(1)] show ?thesis
    by (auto simp: located_def lines_within_def)
qed

definition ex_lines :: "string list \<Rightarrow> string" where
  "ex_lines ls = concat (map (\<lambda>l. l @ [newline]) ls)"

theorem findings_point_at_their_lines_witness:
  "\<exists>f. f \<in> set (check_file ''k.cu'' (ex_lines [''// cu'', ''cudaDeviceSynchronize(); // x'']))
     \<and> fi_line f = 2 \<and> subseq ''cudaDeviceSynchronize(); '' ''cudaDeviceSynchronize(); // x''"
proof -
  let ?text = "ex_lines [''// cu'', ''cudaDeviceSynchronize(); // x'']"
  have lf: "breaks_at_newlines ?text"
    by code_simp
  have lines: "splitlines ?text = [''// cu'', ''cudaDeviceSynchronize(); // x'']"
      "strip_comments ?text = [[], ''cudaDeviceSynchronize(); '']"
    by code_simp+
  have "map fi_line (check_file ''k.cu'' ?text) = [2]"
    by code_simp
  then obtain f where f: "f \<in> set (check_file ''k.cu'' ?text)" "fi_line f = 2"
    by (cases "check_file ''k.cu'' ?text") auto
  with findings_point_at_their_lines [OF lf f(1)] show ?thesis
    unfolding lines by (intro exI [of _ f]) simp
qed


definition ex_tree :: source_tree where
  "ex_tree = \<lparr>tr_is_dir = (\<lambda>_. False), tr_suffix = (\<lambda>_. ''.cu''), tr_rglob = (\<lambda>_ _. []),
     tr_text = (\<lambda>_. ex_lines [''k<<<1, 2>>>(x);'', ''CUDAFORGE_CHECK_LAUNCH();'', ''}''])\<rparr>"


text \<open>Joining lines to statements loses and repeats nothing: the words of the statements in
  order are the words of the lines in order; the statements have increasing line numbers; and each
  is exactly the run of lines from its number, which is not blank, up to the first line that holds
  a semicolon or ends with a brace.\<close>

theorem statements_lose_no_code:
  "concat (map (split_words \<circ> snd) (logical_statements lines)) = concat (map split_words lines)
     \<and> sorted_wrt (<) (map fst (logical_statements lines))
     \<and> list_all (is_statement lines) (logical_statements lines)"
  using statements_words [of 0 1 "[]" lines] statements_well_formed [of lines]
  by (simp add: logical_statements_def list_all_iff)

text \<open>C37: The alias rule reports exactly the lines that use \<open>Convert::\<close> out of the scope of an
  alias: no earlier line declares one such that ever since, after each line, some run of lines up to
  there opens more blocks than it closes.\<close>

theorem alias_rule_follows_scopes:
  "check_convert_alias_is_declared path lines
     = map (undeclared_alias path) (filter (stray_use lines) [0..<length lines])"
  using alias_loop_scopes [of path "[]" lines]
  by (simp add: check_convert_alias_is_declared_def alias_in_scope_def)

section \<open>Shapes the rules miss\<close>

lemma search_starts: "search (Seq (lit u) r) s \<Longrightarrow> contains u s"
  unfolding search_iff reaches_then_lit contains_iff by auto

text \<open>The maskless \<open>__shfl\<close> without a direction.\<close>

lemma shuffle_needs_direction: "\<not> contains ''__shfl_'' l \<Longrightarrow> \<not> search UNSYNCED_SHUFFLE_RE l"
  unfolding UNSYNCED_SHUFFLE_RE_def using search_starts by blast

lemma plain_shuffle_is_missed: "check_shuffle_has_mask path [''x = __shfl(x, 0);''] = []"
proof -
  have "\<not> contains ''__shfl_'' ''x = __shfl(x, 0);''"
    by code_simp
  then show ?thesis
    unfolding check_shuffle_has_mask_def per_line_Nil by (auto dest: shuffle_needs_direction simp del: contains.simps)
qed

text \<open>A \<open>/*\<close> inside a line comment hides the code up to the next \<open>*/\<close>.\<close>

lemma opener_in_line_comment_hides_code:
  "strip_comments (ex_lines [''// *.cu: k/*.cu'', ''cudaDeviceSynchronize();'', ''// a*/'']) = ['''', '''', '''']"
  by code_simp

text \<open>A launch whose configuration continues on the next line.\<close>

lemma split_launch_is_missed:
  "check_launch_is_checked path [''k<<<grid, block,'', ''0, s>>>(x);''] = []"
  by code_simp

text \<open>A form feed inside a comment ends a line of the text, but not of what is scanned.\<close>

lemma form_feed_shifts_numbers:
  "length (splitlines (''/*'' @ [CHR 0x0C] @ ''*/'' @ [newline] @ ''x'')) = 3"
  "length (strip_comments (''/*'' @ [CHR 0x0C] @ ''*/'' @ [newline] @ ''x'')) = 2"
  by code_simp+

end
