(* ===== verification/Transformer_Block.thy ===== *)
theory Transformer_Block
  imports Lora Stepwise_Transformers
begin

text \<open>
  \<open>examples/transformer_block.py\<close>: a transformer block assembled from the operators of \<open>Ops\<close>,
  and the same block from PyTorch's. A tensor of activations has three dimensions (batch,
  position, feature); its elements are in row-major order, so a reshape changes the shape only
  and a permutation is a change of index. Scores may be minus infinity, which is \<open>None\<close>, so the
  softmax over them is given here once more. The flags of a result are those of its first
  operand, as in \<open>Ops\<close>.
\<close>

section \<open>PyTorch\<close>

text \<open>
  The operators' backend; what the compiled softmax makes of rows of scores; and what PyTorch
  makes of operands whose shapes differ, by broadcasting or with an error.
\<close>

record block_env =
  bl_backend :: backend
  bl_softmax :: "real option list list \<Rightarrow> real list list"
  bl_broadcast_add :: "tensor \<Rightarrow> tensor \<Rightarrow> tensor result"
  bl_broadcast_norm :: "tensor \<Rightarrow> tensor \<Rightarrow> tensor result"

text \<open>\<open>t.reshape(-1, n)\<close> and \<open>t.view(batch, seq, hidden)\<close>\<close>

definition reshape_rows :: "nat \<Rightarrow> tensor \<Rightarrow> tensor result" where
  "reshape_rows n t =
     (if n = 0 \<or> numel t mod n \<noteq> 0 then Inl RuntimeError else Inr (t\<lparr>tn_shape := [numel t div n, n]\<rparr>))"

definition view3 :: "nat \<Rightarrow> nat \<Rightarrow> nat \<Rightarrow> tensor \<Rightarrow> tensor result" where
  "view3 batch seq hidden t =
     (if numel t \<noteq> batch * seq * hidden then Inl RuntimeError
      else Inr (t\<lparr>tn_shape := [batch, seq, hidden]\<rparr>))"

text \<open>\<open>nn.Linear\<close> without bias, whose weight has a row for each output.\<close>

definition linear_layer :: "real list list \<Rightarrow> backend \<Rightarrow> tensor \<Rightarrow> tensor result" where
  "linear_layer w be x =
     (if list_ex (\<lambda>row. length row \<noteq> last (tn_shape x)) w then Inl RuntimeError
      else Inr ((on_rows (apply_t w) x)\<lparr>tn_shape := butlast (tn_shape x) @ [length w],
                                         tn_requires_grad := be_grad_enabled be\<rparr>))"

section \<open>Attention\<close>

record attention =
  at_heads :: nat
  at_head_dim :: nat
  at_qkv :: "real list list"
  at_out :: "real list list"

definition Attention :: "nat \<Rightarrow> nat \<Rightarrow> real list list \<Rightarrow> real list list \<Rightarrow> attention result" where
  "Attention hidden heads qkv out =
     (if heads = 0 then Inl ZeroDivisionError
      else if hidden mod heads \<noteq> 0 then Inl ValueError
      else Inr \<lparr>at_heads = heads, at_head_dim = hidden div heads, at_qkv = qkv, at_out = out\<rparr>)"

text \<open>
  \<open>qkv.view(batch, seq, 3, heads, head_dim).permute(2, 0, 3, 1, 4)\<close>: query, key or value
  (\<open>part\<close> 0, 1 or 2) of a position, from the rows of \<open>qkv\<close>.
\<close>

definition head_vector :: "attention \<Rightarrow> real list list \<Rightarrow> nat \<Rightarrow> nat \<Rightarrow> nat \<Rightarrow> nat \<Rightarrow> nat \<Rightarrow> real list" where
  "head_vector a qkv seq part b h s =
     map (\<lambda>d. qkv ! (b * seq + s) ! ((part * at_heads a + h) * at_head_dim a + d)) [0..<at_head_dim a]"

definition causal_score :: "attention \<Rightarrow> real list list \<Rightarrow> nat \<Rightarrow> nat \<Rightarrow> nat \<Rightarrow> nat \<Rightarrow> nat \<Rightarrow> real option" where
  "causal_score a qkv seq b h i j =
     (if i < j then None
      else Some (dot (head_vector a qkv seq 0 b h i) (head_vector a qkv seq 1 b h j) / sqrt (real (at_head_dim a))))"

text \<open>\<open>cudaforge.softmax\<close> of the flat scores; \<open>scores\<close> is for the facts dispatch looks at.\<close>

definition softmax_scores :: "block_env \<Rightarrow> tensor \<Rightarrow> real option list list \<Rightarrow> real list list" where
  "softmax_scores env scores flat =
     (if flat = [] then []
      else if dispatch_available (bl_backend env) ''softmax'' [scores] \<and> tn_dtype scores = Float32
        then bl_softmax env flat
      else map softmax_logits flat)"

definition attention_forward :: "block_env \<Rightarrow> attention \<Rightarrow> bool \<Rightarrow> tensor \<Rightarrow> tensor result" where
  "attention_forward env a use_cudaforge x =
     (case tn_shape x of
        [batch, seq, hidden] \<Rightarrow>
          rbind (linear_layer (at_qkv a) (bl_backend env) x) (\<lambda>t.
            if numel t \<noteq> batch * seq * (3 * at_heads a * at_head_dim a) then Inl RuntimeError
            else if seq = 0 then Inl RuntimeError
            else
              let heads = at_heads a;
                  qkv = chunks (3 * heads * at_head_dim a) (tn_data t);
                  flat = map (\<lambda>r. map (causal_score a qkv seq (r div (heads * seq)) (r div seq mod heads) (r mod seq)) [0..<seq])
                           [0..<batch * heads * seq];
                  weights = (if use_cudaforge then softmax_scores env t flat else map softmax_logits flat);
                  attended = concat (map (\<lambda>r. let b = r div seq; i = r mod seq in
                    concat (map (\<lambda>h. map (\<lambda>d. \<Sum>j<seq. weights ! ((b * heads + h) * seq + i) ! j
                                                 * head_vector a qkv seq 2 b h j ! d) [0..<at_head_dim a]) [0..<heads]))
                    [0..<batch * seq])
              in rbind (view3 batch seq hidden (t\<lparr>tn_data := attended\<rparr>))
                   (linear_layer (at_out a) (bl_backend env)))
      | _ \<Rightarrow> Inl ValueError)"

section \<open>The feed-forward part\<close>

record feed_forward =
  ff_gate :: "real list list"
  ff_up :: "real list list"
  ff_down :: "real list list"

definition feed_forward_forward :: "block_env \<Rightarrow> feed_forward \<Rightarrow> bool \<Rightarrow> tensor \<Rightarrow> tensor result" where
  "feed_forward_forward env f use_cudaforge x =
     rbind (linear_layer (ff_gate f) (bl_backend env) x) (\<lambda>gate.
     rbind (linear_layer (ff_up f) (bl_backend env) x) (\<lambda>up.
     rbind (if use_cudaforge then swiglu (bl_backend env) gate up
            else Inr (on_pairs (*) (on_elements silu_value gate) up))
       (linear_layer (ff_down f) (bl_backend env))))"

section \<open>The block\<close>

record block =
  bk_attention_norm :: tensor
  bk_ffn_norm :: tensor
  bk_attention :: attention
  bk_feed_forward :: feed_forward

text \<open>The constructor, with the matrices that PyTorch initialises.\<close>

definition ones :: "nat \<Rightarrow> tensor" where
  "ones n = \<lparr>tn_shape = [n], tn_data = replicate n 1, tn_dtype = Float32, tn_requires_grad = True, tn_is_cuda = False\<rparr>"

definition Block ::
  "nat \<Rightarrow> nat \<Rightarrow> real list list \<Rightarrow> real list list \<Rightarrow> feed_forward \<Rightarrow> block result" where
  "Block hidden heads qkv out f =
     rbind (Attention hidden heads qkv out) (\<lambda>a.
       Inr \<lparr>bk_attention_norm = ones hidden, bk_ffn_norm = ones hidden, bk_attention = a, bk_feed_forward = f\<rparr>)"

definition EPS :: real where
  "EPS = 1 / 10 ^ 6"

definition reference_rmsnorm :: "block_env \<Rightarrow> tensor \<Rightarrow> tensor \<Rightarrow> tensor result" where
  "reference_rmsnorm env x weight =
     (if tn_shape x \<noteq> [] \<and> tn_shape weight = [last (tn_shape x)]
      then Inr (on_rows (rms_row (tn_data weight) EPS) x) else bl_broadcast_norm env x weight)"

definition plain_add :: "block_env \<Rightarrow> tensor \<Rightarrow> tensor \<Rightarrow> tensor result" where
  "plain_add env x y = (if tn_shape x = tn_shape y then Inr (on_pairs (+) x y) else bl_broadcast_add env x y)"

text \<open>The pattern that appears twice in a block: add to the residual, then normalise.\<close>

definition add_and_norm ::
  "block_env \<Rightarrow> bool \<Rightarrow> nat \<Rightarrow> nat \<Rightarrow> nat \<Rightarrow> tensor \<Rightarrow> tensor \<Rightarrow> tensor \<Rightarrow> (tensor \<times> tensor) result" where
  "add_and_norm env use_cudaforge batch seq hidden x residual weight =
     (if use_cudaforge
      then rbind (reshape_rows hidden x) (\<lambda>x2. rbind (reshape_rows hidden residual) (\<lambda>r2.
           rbind (fused_residual_rmsnorm (bl_backend env) x2 r2 weight EPS) (\<lambda>(normed, residual).
           rbind (view3 batch seq hidden normed) (\<lambda>normed.
           rbind (view3 batch seq hidden residual) (\<lambda>residual. Inr (normed, residual))))))
      else rbind (plain_add env x residual) (\<lambda>residual.
           rbind (reference_rmsnorm env residual weight) (\<lambda>normed. Inr (normed, residual))))"

definition block_forward ::
  "block_env \<Rightarrow> bool \<Rightarrow> block \<Rightarrow> tensor \<times> tensor \<Rightarrow> (tensor \<times> tensor) result" where
  "block_forward env use_cudaforge k = (\<lambda>(x, residual).
     case tn_shape x of
       [batch, seq, hidden] \<Rightarrow>
         rbind (add_and_norm env use_cudaforge batch seq hidden x residual (bk_attention_norm k)) (\<lambda>(normed, residual).
         rbind (attention_forward env (bk_attention k) use_cudaforge normed) (\<lambda>attended.
         rbind (add_and_norm env use_cudaforge batch seq hidden attended residual (bk_ffn_norm k)) (\<lambda>(normed, residual).
         rbind (feed_forward_forward env (bk_feed_forward k) use_cudaforge normed) (\<lambda>y. Inr (y, residual)))))
     | _ \<Rightarrow> Inl ValueError)"

section \<open>The comparison\<close>

definition zeros_like :: "tensor \<Rightarrow> tensor" where
  "zeros_like x = x\<lparr>tn_data := replicate (numel x) 0, tn_requires_grad := False\<rparr>"

definition run_blocks :: "block_env \<Rightarrow> bool \<Rightarrow> block list \<Rightarrow> tensor \<Rightarrow> (tensor \<times> tensor) result" where
  "run_blocks env use_cudaforge blocks x = rfold (block_forward env use_cudaforge) blocks (x, zeros_like x)"

text \<open>\<open>main\<close> from the blocks and the input on: its exit status. \<open>max()\<close> of no elements raises.\<close>

definition compare_blocks :: "block_env \<Rightarrow> block list \<Rightarrow> tensor \<Rightarrow> int result" where
  "compare_blocks env blocks x =
     (let env = env\<lparr>bl_backend := (bl_backend env)\<lparr>be_grad_enabled := False\<rparr>\<rparr> in
      rbind (run_blocks env True blocks x) (\<lambda>(forge_hidden, _).
      rbind (run_blocks env False blocks x) (\<lambda>(torch_hidden, _).
        let differences = map2 (\<lambda>a b. \<bar>a - b\<bar>) (tn_data forge_hidden) (tn_data torch_hidden) in
        if differences = [] then Inl RuntimeError
        else Inr (if 1 / 10 ^ 4 < Max (set differences) then 1 else 0))))"

end
