(* ===== verification/Transformer_Block_Properties.thy ===== *)
theory Transformer_Block_Properties
  imports Transformer_Block
begin

text \<open>
  What the example demonstrates, in exact arithmetic: the block made of the custom operators
  computes what PyTorch's block computes when the kernels compute what the reference
  implementations do, and no position of its output depends on a later position of its input.
\<close>

section \<open>Shapes\<close>

definition activations :: "nat \<Rightarrow> nat \<Rightarrow> nat \<Rightarrow> tensor \<Rightarrow> bool" where
  "activations B S H x \<longleftrightarrow> tn_shape x = [B, S, H] \<and> length (tn_data x) = B * S * H"

definition block_ok :: "nat \<Rightarrow> block \<Rightarrow> bool" where
  "block_ok H k \<longleftrightarrow>
     (let a = bk_attention k; f = bk_feed_forward k in
        0 < H \<and> tn_shape (bk_attention_norm k) = [H] \<and> length (tn_data (bk_attention_norm k)) = H
      \<and> tn_shape (bk_ffn_norm k) = [H] \<and> length (tn_data (bk_ffn_norm k)) = H
      \<and> at_heads a * at_head_dim a = H \<and> mat_ok (3 * H) H (at_qkv a) \<and> mat_ok H H (at_out a)
      \<and> (\<exists>I. 0 < I \<and> mat_ok I H (ff_gate f) \<and> mat_ok I H (ff_up f) \<and> mat_ok H I (ff_down f)))"

text \<open>The kernels compute what the reference implementations compute.\<close>

definition kernels_exact :: "block_env \<Rightarrow> bool" where
  "kernels_exact env \<longleftrightarrow>
     (\<forall>x r w eps. ex_fused (be_extension (bl_backend env)) x r w eps = fused_reference x r w eps)
     \<and> (\<forall>g u. ex_swiglu (be_extension (bl_backend env)) g u = swiglu_reference g u)
     \<and> (\<forall>flat. bl_softmax env flat = map softmax_logits flat)"

abbreviation rows_of :: "nat \<Rightarrow> tensor \<Rightarrow> real list list" where
  "rows_of n t \<equiv> chunks n (tn_data t)"

lemma rows_of_activations:
  assumes "activations B S H x" "0 < H"
  shows "length (rows_of H x) = B * S" "list_all (\<lambda>r. length r = H) (rows_of H x)"
  using assms length_chunks [of H "tn_data x"] chunks_lengths [of H "tn_data x"]
  by (auto simp: activations_def)

lemma concat_rows:
  assumes "length rs = B * S" "list_all (\<lambda>r. length r = n) rs"
  shows "length (concat rs) = B * S * n"
  using assms length_concat_uniform [of n rs] by (simp add: ac_simps)

lemma linear_layer_ok:
  assumes "activations B S n x" "mat_ok m n w" "0 < n" "0 < m"
  obtains y where "linear_layer w be x = Inr y" "activations B S m y"
    "rows_of m y = map (apply_t w) (rows_of n x)" "tn_dtype y = tn_dtype x"
proof
  let ?y = "(on_rows (apply_t w) x)\<lparr>tn_shape := butlast (tn_shape x) @ [length w], tn_requires_grad := be_grad_enabled be\<rparr>"
  have shape: "tn_shape x = [B, S, n]"
    using assms(1) by (simp add: activations_def)
  have "list_all (\<lambda>row. length row = n) w" "length w = m"
    using assms(2) by (simp_all add: mat_ok_def)
  then show "linear_layer w be x = Inr ?y"
    by (auto simp: linear_layer_def shape list_ex_iff list_all_iff)
  have uniform: "list_all (\<lambda>r. length r = m) (map (apply_t w) (rows_of n x))"
    using \<open>length w = m\<close> by (simp add: list_all_iff apply_t_def)
  then show "activations B S m ?y"
    using concat_rows [OF _ uniform, of B S] rows_of_activations(1) [OF assms(1,3)] \<open>length w = m\<close>
    by (simp add: activations_def on_rows_def shape)
  show "rows_of m ?y = map (apply_t w) (rows_of n x)"
    using chunks_concat [OF assms(4) uniform] by (simp add: on_rows_def shape)
qed (simp add: on_rows_def)

section \<open>Both ways to add and normalise\<close>

lemma plain_add_and_norm:
  assumes "activations B S H x" "activations B S H r" "tn_shape w = [H]" "length (tn_data w) = H" "0 < H"
  defines "summed \<equiv> on_pairs (+) x r"
  shows "add_and_norm env False B S H x r w = Inr (on_rows (rms_row (tn_data w) EPS) summed, summed)"
    and "activations B S H summed" "activations B S H (on_rows (rms_row (tn_data w) EPS) summed)"
proof -
  have shapes: "tn_shape x = [B, S, H]" "tn_shape r = [B, S, H]"
    using assms(1,2) by (simp_all add: activations_def)
  show sum: "activations B S H summed"
    using assms(1,2) by (simp add: summed_def on_pairs_def activations_def)
  show "add_and_norm env False B S H x r w = Inr (on_rows (rms_row (tn_data w) EPS) summed, summed)"
    using assms(3) by (simp add: add_and_norm_def plain_add_def reference_rmsnorm_def shapes summed_def on_pairs_def)
  have uniform: "list_all (\<lambda>r. length r = H) (map (rms_row (tn_data w) EPS) (rows_of H summed))"
    using rows_of_activations(2) [OF sum assms(5)] assms(4) by (auto simp: list_all_iff rms_row_def Let_def)
  then show "activations B S H (on_rows (rms_row (tn_data w) EPS) summed)"
    using concat_rows [OF _ uniform, of B S] rows_of_activations(1) [OF sum assms(5)] sum
    by (simp add: activations_def on_rows_def)
qed

lemma fused_add_and_norm:
  assumes "kernels_exact env" "activations B S H x" "activations B S H r" "tn_shape w = [H]"
    and "length (tn_data w) = H" "0 < B * S * H"
  shows "add_and_norm env True B S H x r w = add_and_norm env False B S H x r w"
proof -
  have H: "0 < H"
    using assms(6) by simp
  have shapes: "tn_shape x = [B, S, H]" "tn_shape r = [B, S, H]"
    and sizes: "numel x = B * S * H" "numel r = B * S * H"
    using assms(2,3) by (simp_all add: activations_def numel_def)
  let ?x = "x\<lparr>tn_shape := [B * S, H]\<rparr>" and ?r = "r\<lparr>tn_shape := [B * S, H]\<rparr>"
  have "fused_residual_rmsnorm (bl_backend env) ?x ?r w EPS = Inr (fused_reference ?x ?r w EPS)"
    using assms(1,4,6) sizes
    by (simp add: fused_residual_rmsnorm_def dim_at_def ndim_def last_dim_def numel_def kernels_exact_def)
  moreover have "numel (rmsnorm_reference (on_pairs (+) ?x ?r) w EPS) = B * S * H"
    using plain_add_and_norm(3) [OF assms(2-5) H] shapes
    by (simp add: activations_def numel_def rmsnorm_reference_def on_rows_def on_pairs_def)
  ultimately show ?thesis
    using H sizes unfolding plain_add_and_norm(1) [OF assms(2-5) H]
    by (simp add: add_and_norm_def reshape_rows_def fused_reference_def Let_def view3_def numel_def on_pairs_def
        rmsnorm_reference_def on_rows_def shapes)
qed

section \<open>Attention and feed-forward\<close>

lemma softmax_scores_exact: "kernels_exact env \<Longrightarrow> softmax_scores env t flat = map softmax_logits flat"
  by (simp add: softmax_scores_def kernels_exact_def)

lemma attention_both_ways:
  "kernels_exact env \<Longrightarrow> attention_forward env a True x = attention_forward env a False x"
  unfolding attention_forward_def by (simp only: softmax_scores_exact if_True if_False)

lemma swiglu_both_ways:
  assumes "kernels_exact env" "tn_shape gate = tn_shape up" "tn_dtype gate = tn_dtype up"
    "length (tn_data gate) = length (tn_data up)"
  shows "swiglu (bl_backend env) gate up = Inr (on_pairs (*) (on_elements silu_value gate) up)"
proof -
  have "map2 (\<lambda>g. (*) (silu_value g)) (tn_data gate) (tn_data up) = map2 (*) (map silu_value (tn_data gate)) (tn_data up)"
    by (simp add: zip_map1 split_def)
  then have "swiglu_reference gate up = on_pairs (*) (on_elements silu_value gate) up"
    by (simp add: swiglu_reference_def on_pairs_def on_elements_def)
  moreover have "gate = on_pairs (*) (on_elements silu_value gate) up" if "numel gate = 0"
    using that assms(4) by (simp add: on_pairs_def on_elements_def numel_def)
  ultimately show ?thesis
    using assms by (auto simp: swiglu_def kernels_exact_def)
qed

text \<open>The rows that go into the output projection.\<close>

definition attended_row :: "attention \<Rightarrow> real list list \<Rightarrow> nat \<Rightarrow> nat \<Rightarrow> nat \<Rightarrow> real list" where
  "attended_row a qkv S b i =
     concat (map (\<lambda>h. map (\<lambda>d. \<Sum>j<S. softmax_logits (map (causal_score a qkv S b h i) [0..<S]) ! j
        * head_vector a qkv S 2 b h j ! d) [0..<at_head_dim a]) [0..<at_heads a])"

lemma length_attended_row: "length (attended_row a qkv S b i) = at_heads a * at_head_dim a"
  by (simp add: attended_row_def length_concat comp_def sum_list_triv)

lemma row_index:
  assumes "i < S" "h < (n :: nat)"
  shows "((b * n + h) * S + i) div (n * S) = b" "((b * n + h) * S + i) div S mod n = h"
    "((b * n + h) * S + i) mod S = i"
proof -
  have d: "((b * n + h) * S + i) div S = b * n + h"
    using assms(1) by simp
  then have "((b * n + h) * S + i) div (n * S) = (b * n + h) div n"
    by (metis div_mult2_eq mult.commute)
  then show "((b * n + h) * S + i) div (n * S) = b"
    using assms(2) by simp
  show "((b * n + h) * S + i) div S mod n = h" "((b * n + h) * S + i) mod S = i"
    using assms d by simp_all
qed

lemma pair_less:
  assumes "b < B" "h < (n :: nat)"
  shows "b * n + h < B * n"
proof -
  have "Suc b * n \<le> B * n"
    using assms(1) by (intro mult_le_mono1) simp
  with assms(2) show ?thesis
    by simp
qed

lemma attention_rows:
  assumes x: "activations B S H x" and H: "0 < H" "at_heads a * at_head_dim a = H"
    and w: "mat_ok (3 * H) H (at_qkv a)" "mat_ok H H (at_out a)" and S: "0 < S"
  defines "qkv \<equiv> map (apply_t (at_qkv a)) (rows_of H x)"
  obtains y where "attention_forward env a False x = Inr y" "activations B S H y" "tn_dtype y = tn_dtype x"
    "rows_of H y = map (\<lambda>r. apply_t (at_out a) (attended_row a qkv S (r div S) (r mod S))) [0..<B * S]"
proof -
  let ?be = "bl_backend env" and ?n = "at_heads a"
  have shape: "tn_shape x = [B, S, H]"
    using x by (simp add: activations_def)
  have width: "3 * ?n * at_head_dim a = 3 * H"
    using H(2) by simp
  obtain t where t: "linear_layer (at_qkv a) ?be x = Inr t" "activations B S (3 * H) t"
      "rows_of (3 * H) t = qkv" "tn_dtype t = tn_dtype x"
    using linear_layer_ok [OF x w(1) H(1)] H(1) unfolding qkv_def by (metis mult_pos_pos zero_less_numeral)
  let ?flat = "map (\<lambda>r. map (causal_score a qkv S (r div (?n * S)) (r div S mod ?n) (r mod S)) [0..<S]) [0..<B * ?n * S]"
  let ?rows = "map (\<lambda>r. attended_row a qkv S (r div S) (r mod S)) [0..<B * S]"
  have weight: "map softmax_logits ?flat ! ((b * ?n + h) * S + i) = softmax_logits (map (causal_score a qkv S b h i) [0..<S])"
    if "b < B" "h < ?n" "i < S" for b h i
    using pair_less [OF pair_less [OF that(1,2)] that(3)] row_index [OF that(3,2), of b] by simp
  have "concat (map (\<lambda>h. map (\<lambda>d. \<Sum>j<S. map softmax_logits ?flat ! ((r div S * ?n + h) * S + r mod S) ! j
            * head_vector a qkv S 2 (r div S) h j ! d) [0..<at_head_dim a]) [0..<?n])
      = attended_row a qkv S (r div S) (r mod S)" if "r < B * S" for r
    unfolding attended_row_def
    by (intro arg_cong [where f = concat] map_cong refl)
      (use that S in \<open>simp add: weight less_mult_imp_div_less del: map_map\<close>)
  then have attended: "concat (map (\<lambda>r.
        concat (map (\<lambda>h. map (\<lambda>d. \<Sum>j<S. map softmax_logits ?flat ! ((r div S * ?n + h) * S + r mod S) ! j
            * head_vector a qkv S 2 (r div S) h j ! d) [0..<at_head_dim a]) [0..<?n])) [0..<B * S]) = concat ?rows"
    by (intro arg_cong [where f = concat] map_cong refl) simp
  let ?t = "t\<lparr>tn_data := concat ?rows, tn_shape := [B, S, H]\<rparr>"
  have uniform: "list_all (\<lambda>r. length r = H) ?rows"
    using H(2) by (simp add: list_all_iff length_attended_row)
  have data: "length (concat ?rows) = B * S * H"
    using concat_rows [OF _ uniform, of B S] by simp
  then have act: "activations B S H ?t"
    by (simp add: activations_def)
  obtain y where y: "linear_layer (at_out a) ?be ?t = Inr y" "activations B S H y"
      "rows_of H y = map (apply_t (at_out a)) (rows_of H ?t)" "tn_dtype y = tn_dtype ?t"
    using linear_layer_ok [OF act w(2) H(1) H(1)] by blast
  have size: "numel t = B * S * (3 * ?n * at_head_dim a)"
    using t(2) width by (simp add: activations_def numel_def)
  have "attention_forward env a False x = Inr y"
    unfolding attention_forward_def shape Let_def list.case t(1) rbind_simps size t(3) [folded width] if_False attended
    using S data by (simp add: view3_def numel_def y(1) del: map_map)
  moreover have "rows_of H y = map (\<lambda>r. apply_t (at_out a) (attended_row a qkv S (r div S) (r mod S))) [0..<B * S]"
    unfolding y(3) using chunks_concat [OF H(1) uniform] by simp
  ultimately show ?thesis
    using y(2,4) t(4) by (intro that [of y]) simp_all
qed

section \<open>A block\<close>

lemma block_okD:
  assumes "block_ok H k"
  obtains I where "0 < H" "tn_shape (bk_attention_norm k) = [H]" "length (tn_data (bk_attention_norm k)) = H"
    "tn_shape (bk_ffn_norm k) = [H]" "length (tn_data (bk_ffn_norm k)) = H"
    "at_heads (bk_attention k) * at_head_dim (bk_attention k) = H"
    "mat_ok (3 * H) H (at_qkv (bk_attention k))" "mat_ok H H (at_out (bk_attention k))"
    "0 < I" "mat_ok I H (ff_gate (bk_feed_forward k))" "mat_ok I H (ff_up (bk_feed_forward k))"
    "mat_ok H I (ff_down (bk_feed_forward k))"
  using assms unfolding block_ok_def Let_def by blast

lemma norm_dtype [simp]: "tn_dtype (on_rows f t) = tn_dtype t" "tn_dtype (on_pairs g t u) = tn_dtype t"
  by (simp_all add: on_rows_def on_pairs_def)

text \<open>What the plain feed-forward part makes of each row.\<close>

definition ff_row :: "feed_forward \<Rightarrow> real list \<Rightarrow> real list" where
  "ff_row f v = apply_t (ff_down f) (map2 (*) (map silu_value (apply_t (ff_gate f) v)) (apply_t (ff_up f) v))"

lemma map2_concat:
  "list_all2 (\<lambda>a b. length a = length b) as bs \<Longrightarrow> map2 f (concat as) (concat bs) = concat (map2 (map2 f) as bs)"
  by (induction rule: list_all2_induct) simp_all

lemma feed_forward_rows:
  assumes "activations B S H x" "0 < H" "0 < I" "mat_ok I H (ff_gate f)" "mat_ok I H (ff_up f)" "mat_ok H I (ff_down f)"
  obtains y where "feed_forward_forward env f False x = Inr y" "activations B S H y"
    "rows_of H y = map (ff_row f) (rows_of H x)" "tn_dtype y = tn_dtype x"
    "kernels_exact env \<longrightarrow> feed_forward_forward env f True x = Inr y"
proof -
  let ?be = "bl_backend env"
  obtain g where g: "linear_layer (ff_gate f) ?be x = Inr g" "activations B S I g"
      "rows_of I g = map (apply_t (ff_gate f)) (rows_of H x)" "tn_dtype g = tn_dtype x"
    by (rule linear_layer_ok [OF assms(1,4,2,3), of ?be])
  obtain u where u: "linear_layer (ff_up f) ?be x = Inr u" "activations B S I u"
      "rows_of I u = map (apply_t (ff_up f)) (rows_of H x)" "tn_dtype u = tn_dtype x"
    by (rule linear_layer_ok [OF assms(1,5,2,3), of ?be])
  let ?p = "on_pairs (*) (on_elements silu_value g) u"
  have sizes: "length (tn_data g) = length (tn_data u)" "tn_shape g = tn_shape u"
    using g(2) u(2) by (simp_all add: activations_def)
  have p: "activations B S I ?p"
    using g(2) sizes by (simp add: activations_def on_pairs_def on_elements_def)
  let ?act = "\<lambda>v. map2 (*) (map silu_value (apply_t (ff_gate f) v)) (apply_t (ff_up f) v)"
  have widths: "length (ff_gate f) = I" "length (ff_up f) = I"
    using assms(4,5) by (simp_all add: mat_ok_def)
  have data: "tn_data g = concat (map (apply_t (ff_gate f)) (rows_of H x))"
      "tn_data u = concat (map (apply_t (ff_up f)) (rows_of H x))"
    using concat_chunks [OF assms(3)] g(3) u(3) by metis+
  have "tn_data ?p = map2 (*) (map silu_value (tn_data g)) (tn_data u)"
    by (simp add: on_pairs_def on_elements_def)
  also have "\<dots> = concat (map ?act (rows_of H x))"
    unfolding data map_concat map_map
    by (subst map2_concat) (simp_all add: list_all2_conv_all_nth widths comp_def map2_map_map)
  finally have "tn_data ?p = concat (map ?act (rows_of H x))" .
  then have acts: "rows_of I ?p = map ?act (rows_of H x)"
    using chunks_concat [OF assms(3), of "map ?act (rows_of H x)"] widths by (simp add: list_all_iff)
  obtain y where y: "linear_layer (ff_down f) ?be ?p = Inr y" "activations B S H y"
      "rows_of H y = map (apply_t (ff_down f)) (rows_of I ?p)" "tn_dtype y = tn_dtype ?p"
    by (rule linear_layer_ok [OF p assms(6,3,2), of ?be])
  have rows: "rows_of H y = map (ff_row f) (rows_of H x)"
    unfolding y(3) acts map_map by (intro map_cong refl) (simp add: ff_row_def)
  show ?thesis
  proof (rule that [OF _ y(2) rows])
    show "feed_forward_forward env f False x = Inr y"
      by (simp add: feed_forward_forward_def g(1) u(1) y(1))
    show "tn_dtype y = tn_dtype x"
      using y(4) g(4) by (simp add: on_elements_def)
    show "kernels_exact env \<longrightarrow> feed_forward_forward env f True x = Inr y"
      using swiglu_both_ways [OF _ sizes(2) _ sizes(1)] g(4) u(4)
      by (simp add: feed_forward_forward_def g(1) u(1) y(1))
  qed
qed

lemma rows_on_rows:
  assumes "activations B S H x" "0 < H" "\<And>v. length v = H \<Longrightarrow> length (f v) = H"
  shows "rows_of H (on_rows f x) = map f (rows_of H x)"
proof -
  have "list_all (\<lambda>r. length r = H) (map f (rows_of H x))"
    using rows_of_activations(2) [OF assms(1,2)] assms(3) by (simp add: list_all_iff)
  with chunks_concat [OF assms(2)] assms(1) show ?thesis
    by (simp add: on_rows_def activations_def)
qed

lemma rows_on_pairs:
  assumes "activations B S H x" "activations B S H r" "0 < H"
  shows "rows_of H (on_pairs g x r) = map2 (map2 g) (rows_of H x) (rows_of H r)"
proof -
  have len: "length (rows_of H x) = length (rows_of H r)"
    using rows_of_activations(1) [OF assms(1,3)] rows_of_activations(1) [OF assms(2,3)] by simp
  have each: "length (rows_of H x ! i) = H \<and> length (rows_of H r ! i) = H" if "i < length (rows_of H x)" for i
    using rows_of_activations(2) [OF assms(1,3)] rows_of_activations(2) [OF assms(2,3)] len that
    by (simp add: list_all_length)
  have "map2 g (tn_data x) (tn_data r) = map2 g (concat (rows_of H x)) (concat (rows_of H r))"
    using assms(3) by simp
  also have "\<dots> = concat (map2 (map2 g) (rows_of H x) (rows_of H r))"
    using len each by (intro map2_concat) (simp add: list_all2_conv_all_nth)
  finally have "tn_data (on_pairs g x r) = concat (map2 (map2 g) (rows_of H x) (rows_of H r))"
    by (simp add: on_pairs_def)
  moreover have "list_all (\<lambda>r. length r = H) (map2 (map2 g) (rows_of H x) (rows_of H r))"
    using each len by (simp add: list_all_length)
  ultimately show ?thesis
    using chunks_concat [OF assms(3)] by simp
qed

text \<open>One pass through the plain block, row by row.\<close>

definition norm_rows :: "tensor \<Rightarrow> real list list \<Rightarrow> real list list" where
  "norm_rows w rs = map (rms_row (tn_data w) EPS) rs"

definition block_rows ::
  "block \<Rightarrow> nat \<Rightarrow> nat \<Rightarrow> real list list \<times> real list list \<Rightarrow> real list list \<times> real list list" where
  "block_rows k B S = (\<lambda>(xs, rs).
     let a = bk_attention k;
         res1 = map2 (map2 (+)) xs rs;
         qkv = map (apply_t (at_qkv a)) (norm_rows (bk_attention_norm k) res1);
         att = map (\<lambda>r. apply_t (at_out a) (attended_row a qkv S (r div S) (r mod S))) [0..<B * S];
         res2 = map2 (map2 (+)) att res1
     in (map (ff_row (bk_feed_forward k)) (norm_rows (bk_ffn_norm k) res2), res2))"

lemma length_rms_row [simp]: "length (rms_row w eps v) = min (length v) (length w)"
  by (simp add: rms_row_def Let_def)

lemma block_forward_rows:
  assumes k: "block_ok H k" and x: "activations B S H x" "activations B S H r" and pos: "0 < B * S * H"
  obtains y r' where "block_forward env False k (x, r) = Inr (y, r')"
    "activations B S H y" "activations B S H r'"
    "(rows_of H y, rows_of H r') = block_rows k B S (rows_of H x, rows_of H r)"
    "kernels_exact env \<longrightarrow> block_forward env True k (x, r) = Inr (y, r')"
proof -
  let ?a = "bk_attention k" and ?f = "bk_feed_forward k"
  obtain I where K: "0 < H" "tn_shape (bk_attention_norm k) = [H]" "length (tn_data (bk_attention_norm k)) = H"
    "tn_shape (bk_ffn_norm k) = [H]" "length (tn_data (bk_ffn_norm k)) = H"
    "at_heads ?a * at_head_dim ?a = H" "mat_ok (3 * H) H (at_qkv ?a)" "mat_ok H H (at_out ?a)"
    "0 < I" "mat_ok I H (ff_gate ?f)" "mat_ok I H (ff_up ?f)" "mat_ok H I (ff_down ?f)"
    by (rule block_okD [OF k])
  have shape: "tn_shape x = [B, S, H]"
    using x(1) by (simp add: activations_def)
  have S: "0 < S"
    using pos by simp
  define res1 where "res1 = on_pairs (+) x r"
  define normed1 where "normed1 = on_rows (rms_row (tn_data (bk_attention_norm k)) EPS) res1"
  note one = plain_add_and_norm [OF x K(2,3,1), folded res1_def, folded normed1_def]
  obtain att where att: "attention_forward env ?a False normed1 = Inr att" "activations B S H att"
      "rows_of H att = map (\<lambda>r. apply_t (at_out ?a)
         (attended_row ?a (map (apply_t (at_qkv ?a)) (rows_of H normed1)) S (r div S) (r mod S))) [0..<B * S]"
    using attention_rows [OF one(3) K(1,6,7,8) S, of env] by metis
  define res2 where "res2 = on_pairs (+) att res1"
  define normed2 where "normed2 = on_rows (rms_row (tn_data (bk_ffn_norm k)) EPS) res2"
  note two = plain_add_and_norm [OF att(2) one(2) K(4,5,1), folded res2_def, folded normed2_def]
  obtain y where y: "feed_forward_forward env ?f False normed2 = Inr y" "activations B S H y"
      "rows_of H y = map (ff_row ?f) (rows_of H normed2)" "tn_dtype y = tn_dtype normed2"
      "kernels_exact env \<longrightarrow> feed_forward_forward env ?f True normed2 = Inr y"
    by (rule feed_forward_rows [OF two(3) K(1,9,10,11,12), of env])
  have norms: "rows_of H normed1 = norm_rows (bk_attention_norm k) (rows_of H res1)"
      "rows_of H normed2 = norm_rows (bk_ffn_norm k) (rows_of H res2)"
    unfolding normed1_def normed2_def norm_rows_def
    by (rule rows_on_rows [OF one(2) K(1)], simp add: K(3)) (rule rows_on_rows [OF two(2) K(1)], simp add: K(5))
  have sums: "rows_of H res1 = map2 (map2 (+)) (rows_of H x) (rows_of H r)"
      "rows_of H res2 = map2 (map2 (+)) (rows_of H att) (rows_of H res1)"
    unfolding res1_def res2_def
    by (rule rows_on_pairs [OF x K(1)], fold res1_def, rule rows_on_pairs [OF att(2) one(2) K(1)])
  show ?thesis
  proof (rule that [OF _ y(2) two(2)])
    show "block_forward env False k (x, r) = Inr (y, res2)"
      by (simp add: block_forward_def shape one(1) att(1) two(1) y(1))
    show "(rows_of H y, rows_of H res2) = block_rows k B S (rows_of H x, rows_of H r)"
      unfolding block_rows_def prod.case Let_def by (simp only: y(3) norms sums att(3))
    have "block_forward env True k (x, r) = Inr (y, res2)" if exact: "kernels_exact env"
      unfolding block_forward_def prod.case shape list.case
        fused_add_and_norm [OF exact x K(2,3) pos] one(1) rbind_simps attention_both_ways [OF exact] att(1)
        fused_add_and_norm [OF exact att(2) one(2) K(4,5) pos] two(1) y(5) [rule_format, OF exact] ..
    then show "kernels_exact env \<longrightarrow> block_forward env True k (x, r) = Inr (y, res2)" ..
  qed
qed

section \<open>A stack of blocks\<close>

definition stack_rows ::
  "block list \<Rightarrow> nat \<Rightarrow> nat \<Rightarrow> real list list \<times> real list list \<Rightarrow> real list list \<times> real list list" where
  "stack_rows ks B S p = fold (\<lambda>k. block_rows k B S) ks p"

lemma stack_forward_rows:
  assumes "\<forall>k \<in> set ks. block_ok H k" "activations B S H x" "activations B S H r" "0 < B * S * H"
  shows "\<exists>y r'. rfold (block_forward env False) ks (x, r) = Inr (y, r') \<and> activations B S H y \<and> activations B S H r'
     \<and> (rows_of H y, rows_of H r') = stack_rows ks B S (rows_of H x, rows_of H r)
     \<and> (kernels_exact env \<longrightarrow> rfold (block_forward env True) ks (x, r) = Inr (y, r'))"
  using assms(1-3)
proof (induction ks arbitrary: x r)
  case Nil
  then show ?case
    by (simp add: stack_rows_def)
next
  case (Cons k ks)
  have k: "block_ok H k"
    using Cons.prems(1) by simp
  obtain y r' where step: "block_forward env False k (x, r) = Inr (y, r')"
    "activations B S H y" "activations B S H r'"
    "(rows_of H y, rows_of H r') = block_rows k B S (rows_of H x, rows_of H r)"
    "kernels_exact env \<longrightarrow> block_forward env True k (x, r) = Inr (y, r')"
    by (rule block_forward_rows [OF k Cons.prems(2,3) assms(4), of env])
  have "\<forall>k \<in> set ks. block_ok H k"
    using Cons.prems(1) by simp
  from Cons.IH [OF this step(2,3)] show ?case
    using step by (auto simp: stack_rows_def)
qed

lemma activations_zeros: "activations B S H x \<Longrightarrow> activations B S H (zeros_like x)"
  by (simp add: activations_def zeros_like_def numel_def)

text \<open>C38: The example succeeds, in exact arithmetic, whenever the kernels compute what the reference
  implementations do: for every stack of blocks and every input of their width that is not empty,
  the blocks of custom operators and those of PyTorch's compute the same, without an error, and the
  exit status is 0.\<close>

theorem custom_blocks_are_plain_blocks:
  assumes "kernels_exact env" "\<forall>k \<in> set ks. block_ok H k" "activations B S H x" "0 < B * S * H"
  shows "compare_blocks env ks x = Inr 0 \<and> run_blocks env True ks x = run_blocks env False ks x"
proof -
  let ?quiet = "env\<lparr>bl_backend := (bl_backend env)\<lparr>be_grad_enabled := False\<rparr>\<rparr>"
  have same: "\<exists>y r. run_blocks e True ks x = Inr (y, r) \<and> run_blocks e False ks x = Inr (y, r) \<and> activations B S H y"
    if "kernels_exact e" for e
    using stack_forward_rows [OF assms(2,3) activations_zeros [OF assms(3)] assms(4), of e] that
    unfolding run_blocks_def by blast
  have "kernels_exact ?quiet"
    using assms(1) by (simp add: kernels_exact_def)
  then obtain y r where y: "run_blocks ?quiet True ks x = Inr (y, r)" "run_blocks ?quiet False ks x = Inr (y, r)"
      "activations B S H y"
    using same by blast
  let ?d = "map2 (\<lambda>a b. \<bar>a - b\<bar>) (tn_data y) (tn_data y)"
  have "?d \<noteq> []"
    using y(3) assms(4) by (auto simp: activations_def simp flip: length_greater_0_conv)
  moreover have "set ?d \<subseteq> {0}"
    by (auto simp: set_zip)
  ultimately have "Max (set ?d) = 0" "?d \<noteq> []"
    by (metis Max_singleton set_empty subset_singletonD)+
  then have "compare_blocks env ks x = Inr 0"
    unfolding compare_blocks_def Let_def y rbind_simps prod.case by simp
  with same [OF assms(1)] show ?thesis
    by auto
qed

section \<open>Causality\<close>

text \<open>Masked positions have no weight.\<close>

lemma masked_weight:
  assumes "j < length ss" "ss ! j = None"
  shows "softmax_logits ss ! j = 0"
  using assms by (simp add: softmax_logits_def Let_def exp_logit_def)

lemma attended_row_causal:
  assumes "i < S" "\<forall>j \<le> i. qkv ! (b * S + j) = qkv' ! (b * S + j)"
  shows "attended_row a qkv S b i = attended_row a qkv' S b i"
proof -
  have parts: "head_vector a qkv S part b h j = head_vector a qkv' S part b h j" if "j \<le> i" for part h j
    using assms(2) that by (simp add: head_vector_def)
  have scores: "map (causal_score a qkv S b h i) [0..<S] = map (causal_score a qkv' S b h i) [0..<S]" for h
    using parts by (intro map_cong refl) (simp add: causal_score_def)
  have "softmax_logits (map (causal_score a qkv S b h i) [0..<S]) ! j * head_vector a qkv S 2 b h j ! d
      = softmax_logits (map (causal_score a qkv' S b h i) [0..<S]) ! j * head_vector a qkv' S 2 b h j ! d"
    if "j < S" for h j d
  proof (cases "j \<le> i")
    case True
    then show ?thesis
      by (simp only: scores parts)
  next
    case False
    then have "softmax_logits (map (causal_score a qkv' S b h i) [0..<S]) ! j = 0"
      using that by (intro masked_weight) (simp_all add: causal_score_def)
    then show ?thesis
      by (simp only: scores mult_zero_left)
  qed
  then show ?thesis
    unfolding attended_row_def by (intro arg_cong [where f = concat] map_cong refl sum.cong) simp
qed

definition agree_upto :: "nat \<Rightarrow> nat \<Rightarrow> nat \<Rightarrow> real list list \<Rightarrow> real list list \<Rightarrow> bool" where
  "agree_upto S b i rs rs' \<longleftrightarrow> (\<forall>j \<le> i. rs ! (b * S + j) = rs' ! (b * S + j))"

lemma agree_map:
  assumes "agree_upto S b i rs rs'" "b * S + i < length rs" "length rs' = length rs"
  shows "agree_upto S b i (map f rs) (map f rs')"
  using assms by (simp add: agree_upto_def)

lemma agree_map2:
  assumes "agree_upto S b i rs rs'" "agree_upto S b i ts ts'" "b * S + i < length rs"
    "length rs' = length rs" "length ts = length rs" "length ts' = length rs"
  shows "agree_upto S b i (map2 f rs ts) (map2 f rs' ts')"
  using assms by (simp add: agree_upto_def)

lemma block_rows_causal:
  assumes "agree_upto S b i xs xs'" "agree_upto S b i rs rs'" "b < B" "i < S"
    "length xs = B * S" "length xs' = B * S" "length rs = B * S" "length rs' = B * S"
    and "block_rows k B S (xs, rs) = (ys, ss)" "block_rows k B S (xs', rs') = (ys', ss')"
  shows "agree_upto S b i ys ys' \<and> agree_upto S b i ss ss'
     \<and> length ys = B * S \<and> length ys' = B * S \<and> length ss = B * S \<and> length ss' = B * S"
proof -
  let ?a = "bk_attention k"
  let ?res1 = "\<lambda>xs rs. map2 (map2 (+)) xs rs :: real list list"
  let ?qkv = "\<lambda>xs rs. map (apply_t (at_qkv ?a)) (norm_rows (bk_attention_norm k) (?res1 xs rs))"
  let ?att = "\<lambda>qkv. map (\<lambda>r. apply_t (at_out ?a) (attended_row ?a qkv S (r div S) (r mod S))) [0..<B * S]"
  have inside: "b * S + i < B * S"
    by (rule pair_less [OF assms(3,4)])
  have one: "agree_upto S b i (?res1 xs rs) (?res1 xs' rs')"
    using assms inside by (intro agree_map2) simp_all
  have qkv: "agree_upto S b i (?qkv xs rs) (?qkv xs' rs')"
    unfolding norm_rows_def using assms inside by (intro agree_map one) simp_all
  have "attended_row ?a (?qkv xs rs) S b j = attended_row ?a (?qkv xs' rs') S b j" if "j \<le> i" for j
    using that assms(4) qkv by (intro attended_row_causal) (auto simp: agree_upto_def)
  then have att: "agree_upto S b i (?att (?qkv xs rs)) (?att (?qkv xs' rs'))"
    unfolding agree_upto_def using assms(4) inside by (auto simp del: map_map)
  have two: "agree_upto S b i (map2 (map2 (+)) (?att (?qkv xs rs)) (?res1 xs rs))
      (map2 (map2 (+)) (?att (?qkv xs' rs')) (?res1 xs' rs'))"
    using assms inside by (intro agree_map2 att one) simp_all
  have ys: "agree_upto S b i ys ys'" and ss: "agree_upto S b i ss ss'"
    using assms inside two
    by (auto simp: block_rows_def Let_def norm_rows_def simp del: map_map intro!: agree_map)
  with assms show ?thesis
    by (auto simp: block_rows_def Let_def norm_rows_def)
qed

lemma stack_rows_causal:
  assumes "agree_upto S b i xs xs'" "agree_upto S b i rs rs'" "b < B" "i < S"
    "length xs = B * S" "length xs' = B * S" "length rs = B * S" "length rs' = B * S"
  shows "agree_upto S b i (fst (stack_rows ks B S (xs, rs))) (fst (stack_rows ks B S (xs', rs')))"
  using assms
proof (induction ks arbitrary: xs rs xs' rs')
  case (Cons k ks)
  obtain ys ss where one: "block_rows k B S (xs, rs) = (ys, ss)"
    by (cases "block_rows k B S (xs, rs)")
  obtain ys' ss' where two: "block_rows k B S (xs', rs') = (ys', ss')"
    by (cases "block_rows k B S (xs', rs')")
  have step: "agree_upto S b i ys ys' \<and> agree_upto S b i ss ss'
     \<and> length ys = B * S \<and> length ys' = B * S \<and> length ss = B * S \<and> length ss' = B * S"
    by (rule block_rows_causal [OF Cons.prems one two])
  then have "agree_upto S b i (fst (stack_rows ks B S (ys, ss))) (fst (stack_rows ks B S (ys', ss')))"
    using assms(3,4) by (intro Cons.IH) simp_all
  then show ?case
    by (simp add: stack_rows_def one two)
qed (simp add: stack_rows_def)

lemma rows_zeros: "activations B S H x \<Longrightarrow> rows_of H (zeros_like x) = chunks H (replicate (B * S * H) 0)"
  by (simp add: zeros_like_def activations_def numel_def)


section \<open>An example\<close>

definition small_block :: block where
  "small_block = \<lparr>bk_attention_norm = ones 1, bk_ffn_norm = ones 1,
     bk_attention = \<lparr>at_heads = 1, at_head_dim = 1, at_qkv = [[1], [2], [3]], at_out = [[1]]\<rparr>,
     bk_feed_forward = \<lparr>ff_gate = [[1], [2]], ff_up = [[1], [1]], ff_down = [[1, 1]]\<rparr>\<rparr>"

definition exact_env :: block_env where
  "exact_env = \<lparr>bl_backend = (sample_backend (Loads (Some True)))\<lparr>be_extension :=
        sample_extension\<lparr>ex_fused := fused_reference, ex_swiglu := swiglu_reference\<rparr>\<rparr>,
     bl_softmax = map softmax_logits, bl_broadcast_add = (\<lambda>_ _. Inl RuntimeError),
     bl_broadcast_norm = (\<lambda>_ _. Inl RuntimeError)\<rparr>"

definition small_input :: "real list \<Rightarrow> tensor" where
  "small_input vs = \<lparr>tn_shape = [1, length vs, 1], tn_data = vs, tn_dtype = Float32,
     tn_requires_grad = False, tn_is_cuda = False\<rparr>"

lemma small_block_ok: "\<forall>k \<in> set [small_block, small_block]. block_ok 1 k"
  by (auto simp: block_ok_def Let_def small_block_def ones_def mat_ok_def intro!: exI [of _ 2])

lemma small_activations: "activations 1 (length vs) 1 (small_input vs)"
  by (simp add: activations_def small_input_def)

lemma exact_env_exact: "kernels_exact exact_env"
  by (simp add: kernels_exact_def exact_env_def)

theorem custom_blocks_are_plain_blocks_witness:
  "compare_blocks exact_env [small_block, small_block] (small_input [1, 2]) = Inr 0"
  using custom_blocks_are_plain_blocks [OF exact_env_exact small_block_ok small_activations [of "[1, 2]"]] by simp


end
