(* ===== verification/Py_Path.thy ===== *)
theory Py_Path
  imports Py_Text "HOL-Library.Sublist"
begin

text \<open>
  The pure paths of Python's \<open>pathlib\<close> on POSIX, as the scripts use them: a root, which is
  empty for a relative path, and the parts below it. What needs a file system is a record of
  functions.
\<close>

fun split_on :: "char \<Rightarrow> string \<Rightarrow> string list" where
  "split_on c [] = [[]]"
| "split_on c (x # s) =
     (if x = c then [] # split_on c s
      else case split_on c s of [] \<Rightarrow> [[x]] | l # ls \<Rightarrow> (x # l) # ls)"

section \<open>Paths\<close>

record path =
  pa_root :: string
  pa_parts :: "string list"

definition slash :: char where
  "slash = CHR ''/''"

text \<open>Exactly two slashes at the start are a root of their own.\<close>

definition Path :: "string \<Rightarrow> path" where
  "Path s =
     \<lparr>pa_root = (if starts_with ''//'' s \<and> \<not> starts_with ''///'' s then ''//''
                 else if starts_with ''/'' s then ''/'' else []),
      pa_parts = filter (\<lambda>p. p \<noteq> [] \<and> p \<noteq> ''.'') (split_on slash s)\<rparr>"

definition str_path :: "path \<Rightarrow> string" where
  "str_path p =
     (if pa_root p = [] \<and> pa_parts p = [] then ''.'' else pa_root p @ join [slash] (pa_parts p))"

text \<open>\<open>p.parts\<close>, \<open>p.parent\<close>, \<open>p / s\<close> and \<open>p.suffix\<close>\<close>

definition parts :: "path \<Rightarrow> string list" where
  "parts p = (if pa_root p = [] then [] else [pa_root p]) @ pa_parts p"

definition parent :: "path \<Rightarrow> path" where
  "parent p = p\<lparr>pa_parts := butlast (pa_parts p)\<rparr>"

definition joinpath :: "path \<Rightarrow> string \<Rightarrow> path" where
  "joinpath p s =
     (let q = Path s in if pa_root q \<noteq> [] then q else p\<lparr>pa_parts := pa_parts p @ pa_parts q\<rparr>)"

definition suffix_of :: "path \<Rightarrow> string" where
  "suffix_of p =
     (let name = (if pa_parts p = [] then [] else last (pa_parts p));
          ending = takeWhile (\<lambda>c. c \<noteq> CHR ''.'') (rev name)
      in if ending = [] \<or> length name \<le> length ending + 1 then [] else CHR ''.'' # rev ending)"

text \<open>Whether \<open>p.relative_to(root)\<close> returns; otherwise it raises \<open>ValueError\<close>.\<close>

definition is_within :: "path \<Rightarrow> path \<Rightarrow> bool" where
  "is_within repo p \<longleftrightarrow> pa_root p = pa_root repo \<and> prefix (pa_parts repo) (pa_parts p)"

section \<open>The file system\<close>

text \<open>\<open>fs_rglob p\<close> stands for \<open>sorted(p.rglob("*.md"))\<close>, and \<open>fs_cwd\<close> for \<open>Path.cwd().resolve()\<close>.\<close>

record file_system =
  fs_is_file :: "path \<Rightarrow> bool"
  fs_is_dir :: "path \<Rightarrow> bool"
  fs_exists :: "path \<Rightarrow> bool"
  fs_resolve :: "path \<Rightarrow> path"
  fs_rglob :: "path \<Rightarrow> path list"
  fs_text :: "path \<Rightarrow> string result"
  fs_cwd :: path

section \<open>Facts\<close>

lemma split_on_not_Nil [simp]: "split_on c s \<noteq> []"
  by (induction s) (auto split: list.split)

lemma split_on_ConsE:
  obtains l ls where "split_on c s = l # ls"
  by (cases "split_on c s") simp_all

lemma length_split_on: "length (split_on c s) = Suc (count_list s c)"
  by (induction s) (auto split: list.split)

lemma split_on_append:
  "split_on c (s @ t) = butlast (split_on c s) @ (last (split_on c s) @ hd (split_on c t)) # tl (split_on c t)"
proof (induction s)
  case (Cons x s)
  then show ?case
    by (cases "split_on c s") (auto split: list.split)
qed simp

lemma hd_split_on: "hd (split_on c s) = takeWhile (\<lambda>x. x \<noteq> c) s"
  by (induction s) (auto split: list.split)

lemma join_split_on: "join [c] (split_on c s) = s"
proof (induction s)
  case (Cons x s)
  show ?case
  proof (cases "split_on c s")
    case (Cons l ls)
    with Cons.IH show ?thesis
      by (cases ls) auto
  qed simp
qed simp

text \<open>The line in which a place of the text lies.\<close>

lemma line_of_place:
  "\<exists>before. split_on c s ! count_list (take n s) c = before @ takeWhile (\<lambda>x. x \<noteq> c) (drop n s)"
proof -
  let ?a = "split_on c (take n s)"
  have "split_on c s = butlast ?a @ (last ?a @ hd (split_on c (drop n s))) # tl (split_on c (drop n s))"
    using split_on_append [of c "take n s" "drop n s"] by simp
  moreover have "length (butlast ?a) = count_list (take n s) c"
    by (simp add: length_split_on)
  ultimately have "split_on c s ! count_list (take n s) c = last ?a @ hd (split_on c (drop n s))"
    by (metis nth_append_length)
  then show ?thesis
    unfolding hd_split_on by blast
qed

end
