(* ===== verification/Doc_Checks.thy ===== *)
theory Doc_Checks
  imports Py_Regex Py_Path "HOL-Library.List_Lexorder" "HOL-Library.Char_ord"
begin

text \<open>
  \<open>scripts/check_docs.py\<close>: the links and anchors of the Markdown files. A run is the lines
  printed to standard output and the exit status; an exception, of which only the file system
  is a source, ends it.
\<close>

section \<open>Patterns\<close>

definition group :: "nat \<Rightarrow> (nat \<times> string) list \<Rightarrow> string" where
  "group n g = (case map_of g n of Some s \<Rightarrow> s | None \<Rightarrow> [])"

primrec at_most :: "nat \<Rightarrow> rx \<Rightarrow> rx" where
  "at_most 0 r = Nothing"
| "at_most (Suc n) r = opt (Seq r (at_most n r))"

definition target_char :: "char \<Rightarrow> bool" where
  "target_char c \<longleftrightarrow> c \<noteq> CHR '')'' \<and> \<not> is_space c"

definition link_title :: rx where
  "link_title = Seq (some (One is_space)) (Seq (lit ''\"'') (Seq (Many (One (\<lambda>c. c \<noteq> CHR ''\"''))) (lit ''\"'')))"

text \<open>The groups \<open>text\<close> and \<open>target\<close> are the first and the second.\<close>

definition LINK_RE :: rx where
  "LINK_RE =
     Seq (lit ''['') (Seq (Group 1 (Many (One (\<lambda>c. c \<noteq> CHR '']'')))) (Seq (lit '']('')
       (Seq (Group 2 (some (One target_char))) (Seq (opt link_title) (lit '')'')))))"

definition HEADING_RE :: rx where
  "HEADING_RE =
     Seq Line_Start (Seq (Group 1 (Seq (lit ''#'') (at_most 5 (lit ''#''))))
       (Seq (some (One is_space)) (Seq (Group 2 (Few dot)) (Seq (Many (One is_space)) Line_End))))"

definition CODE_FENCE_RE :: rx where
  "CODE_FENCE_RE = Seq (lit ''```'') (Seq (Few (One (\<lambda>_. True))) (lit ''```''))"

section \<open>Anchors\<close>

definition lower_char :: "char \<Rightarrow> char" where
  "lower_char c =
     (let n = of_char c :: nat in
      if 65 \<le> n \<and> n \<le> 90 \<or> 192 \<le> n \<and> n \<le> 222 \<and> n \<noteq> 215 then char_of (n + 32) else c)"

definition lower :: "string \<Rightarrow> string" where
  "lower s = map lower_char s"

definition slugify :: "string \<Rightarrow> string" where
  "slugify heading =
     (let text = sub (Seq (lit ''`'') (Seq (Group 1 (Many (One (\<lambda>c. c \<noteq> CHR ''`'')))) (lit ''`'')))
                   (\<lambda>_. group 1) heading;
          text = sub (Seq (lit ''['') (Seq (Group 1 (Many (One (\<lambda>c. c \<noteq> CHR '']''))))
                   (Seq (lit '']('') (Seq (Many (One (\<lambda>c. c \<noteq> CHR '')''))) (lit '')'')))))
                   (\<lambda>_. group 1) text;
          text = sub (One (\<lambda>c. c = CHR ''*'' \<or> c = CHR ''_'')) (\<lambda>_ _. []) text;
          text = lower (strip text);
          text = sub (One (\<lambda>c. \<not> (is_word c \<or> is_space c \<or> c = CHR ''-''))) (\<lambda>_ _. []) text
      in sub (One is_space) (\<lambda>_ _. ''-'') text)"

definition headings_of :: "file_system \<Rightarrow> path \<Rightarrow> string list result" where
  "headings_of fs path =
     (if \<not> fs_is_file fs path \<or> suffix_of path \<noteq> ''.md'' then Inr []
      else rbind (fs_text fs path) (\<lambda>raw.
        let body = sub CODE_FENCE_RE (\<lambda>_ _. []) raw
        in Inr (map (\<lambda>(_, _, g). slugify (group 2 g)) (finditer HEADING_RE body))))"

section \<open>One file\<close>

record problem =
  pr_source :: path
  pr_line :: nat
  pr_target :: string
  pr_reason :: string

text \<open>The dash between target and reason is not one of the characters here.\<close>

definition str_problem :: "problem \<Rightarrow> string" where
  "str_problem p = str_path (pr_source p) @ '':'' @ str_nat (pr_line p) @ '': '' @ pr_target p @ '' - '' @ pr_reason p"

text \<open>Fences are replaced by their line breaks, and places counted as lines.\<close>

definition without_fences :: "string \<Rightarrow> string" where
  "without_fences raw = sub CODE_FENCE_RE (\<lambda>m _. replicate (count_list m newline) newline) raw"

definition line_at :: "string \<Rightarrow> nat \<Rightarrow> nat" where
  "line_at body n = count_list (take n body) newline + 1"

definition external :: "string \<Rightarrow> bool" where
  "external target \<longleftrightarrow> starts_with ''http://'' target \<or> starts_with ''https://'' target \<or> starts_with ''mailto:'' target"

text \<open>\<open>target.partition("#")\<close>, or the target without an anchor.\<close>

definition file_part :: "string \<Rightarrow> string" where
  "file_part target = takeWhile (\<lambda>c. c \<noteq> CHR ''#'') target"

definition anchor_part :: "string \<Rightarrow> string" where
  "anchor_part target = drop 1 (dropWhile (\<lambda>c. c \<noteq> CHR ''#'') target)"

text \<open>The body of the loop over the links.\<close>

definition check_link ::
  "file_system \<Rightarrow> path \<Rightarrow> path \<Rightarrow> string list \<Rightarrow> nat \<Rightarrow> string \<Rightarrow> problem list result" where
  "check_link fs path repo seen line target =
     (if external target then Inr []
      else
        let file = file_part target;
            anchor = anchor_part target;
            problem = (\<lambda>t reason. \<lparr>pr_source = path, pr_line = line, pr_target = t, pr_reason = reason\<rparr>)
        in if file = []
           then Inr (if anchor \<noteq> [] \<and> anchor \<notin> set seen then [problem (''#'' @ anchor) ''no such heading''] else [])
           else
             let resolved = fs_resolve fs (joinpath (parent path) file)
             in if \<not> fs_exists fs resolved then Inr [problem file ''file does not exist'']
                else if \<not> is_within repo resolved then Inr [problem file ''escapes the repository'']
                else if anchor = [] then Inr []
                else rbind (headings_of fs resolved) (\<lambda>target_headings.
                  Inr (if target_headings \<noteq> [] \<and> anchor \<notin> set target_headings
                       then [problem (file @ ''#'' @ anchor) ''no such heading in target''] else [])))"

fun check_links ::
  "file_system \<Rightarrow> path \<Rightarrow> path \<Rightarrow> string list \<Rightarrow> string \<Rightarrow> (nat \<times> string \<times> (nat \<times> string) list) list
     \<Rightarrow> problem list result" where
  "check_links fs path repo seen body [] = Inr []"
| "check_links fs path repo seen body ((n, m, g) # ms) =
     rbind (check_link fs path repo seen (line_at body n) (group 2 g)) (\<lambda>found.
     rbind (check_links fs path repo seen body ms) (\<lambda>rest. Inr (found @ rest)))"

definition duplicates :: "string list \<Rightarrow> string list" where
  "duplicates seen = sort (remdups (filter (\<lambda>slug. 1 < count_list seen slug) seen))"

definition check_file :: "file_system \<Rightarrow> path \<Rightarrow> path \<Rightarrow> problem list result" where
  "check_file fs path repo =
     rbind (fs_text fs path) (\<lambda>raw.
       let body = without_fences raw in
       rbind (headings_of fs path) (\<lambda>seen.
       rbind (check_links fs path repo seen body (finditer LINK_RE body)) (\<lambda>found.
         Inr (map (\<lambda>slug. \<lparr>pr_source = path, pr_line = 1, pr_target = ''#'' @ slug,
                          pr_reason = ''duplicate heading makes this anchor ambiguous''\<rparr>) (duplicates seen)
              @ found))))"

section \<open>The command\<close>

definition skipped :: "path \<Rightarrow> bool" where
  "skipped p \<longleftrightarrow>
     list_ex (\<lambda>part. part \<in> {''.venv'', ''build'', ''node_modules''}) (parts p)
     \<or> list_ex (\<lambda>part. starts_with ''build-'' part \<or> starts_with ''validation-'' part) (parts p)"

definition doc_targets :: "file_system \<Rightarrow> string list \<Rightarrow> path list" where
  "doc_targets fs args =
     concat (map (\<lambda>entry.
         let path = Path entry
         in if fs_is_dir fs path then filter (\<lambda>p. \<not> skipped p) (fs_rglob fs path)
            else if suffix_of path = ''.md'' then [path] else []) args)"

fun check_files ::
  "(path \<Rightarrow> 'p list result) \<Rightarrow> path list \<Rightarrow> 'p list result" where
  "check_files check [] = Inr []"
| "check_files check (t # ts) =
     rbind (check t) (\<lambda>found. rbind (check_files check ts) (\<lambda>rest. Inr (found @ rest)))"

definition check_docs :: "file_system \<Rightarrow> string list \<Rightarrow> (string list \<times> int) result" where
  "check_docs fs args =
     rbind (check_files (\<lambda>t. check_file fs t (fs_cwd fs)) (doc_targets fs args)) (\<lambda>problems.
       Inr (map str_problem problems, if problems = [] then 0 else 1))"

end
