(* ===== verification/Reference_Checks.thy ===== *)
theory Reference_Checks
  imports Doc_Checks
begin

text \<open>
  \<open>scripts/check_references.py\<close>: the paths that the Markdown files name in backticks.
\<close>

definition CODE_SPAN_RE :: rx where
  "CODE_SPAN_RE =
     Seq (lit ''`'') (Seq (Group 1 (some (One (\<lambda>c. c \<noteq> CHR ''`'' \<and> c \<noteq> newline)))) (lit ''`''))"

definition TRACKED_SUFFIXES :: "string list" where
  "TRACKED_SUFFIXES =
     [''.py'', ''.cpp'', ''.hpp'', ''.cu'', ''.cuh'', ''.md'', ''.sh'', ''.yaml'', ''.yml'', ''.toml'',
      ''.json'', ''.txt'', ''.cmake'']"

definition looks_like_a_path :: "string \<Rightarrow> bool" where
  "looks_like_a_path text \<longleftrightarrow>
     slash \<in> set text
     \<and> \<not> (starts_with ''http'' text \<or> starts_with ''//'' text \<or> starts_with ''-'' text \<or> starts_with ''$'' text)
     \<and> \<not> list_ex (\<lambda>c. c \<in> set text) '' *?<>|''
     \<and> suffix_of (Path text) \<in> set TRACKED_SUFFIXES"

text \<open>A problem is the line printed for it; here it is the number of the line and the candidate.\<close>

definition check_span :: "file_system \<Rightarrow> path \<Rightarrow> string \<Rightarrow> nat \<times> string \<times> (nat \<times> string) list \<Rightarrow> (nat \<times> string) list" where
  "check_span fs repo body = (\<lambda>(n, m, g).
     let candidate = strip (group 1 g)
     in if looks_like_a_path candidate \<and> \<not> fs_exists fs (joinpath repo candidate)
        then [(line_at body n, candidate)] else [])"

definition check_file :: "file_system \<Rightarrow> path \<Rightarrow> path \<Rightarrow> string list result" where
  "check_file fs path repo =
     rbind (fs_text fs path) (\<lambda>raw.
       let body = without_fences raw
       in Inr (map (\<lambda>(line, candidate).
            str_path path @ '':'' @ str_nat line @ '': `'' @ candidate @ ''` does not exist'')
            (concat (map (check_span fs repo body) (finditer CODE_SPAN_RE body)))))"

definition skipped :: "path \<Rightarrow> bool" where
  "skipped p \<longleftrightarrow>
     list_ex (\<lambda>part. part \<in> {''.venv'', ''node_modules''}) (parts p)
     \<or> list_ex (\<lambda>part. starts_with ''build'' part) (parts p)"

definition reference_targets :: "file_system \<Rightarrow> string list \<Rightarrow> path list" where
  "reference_targets fs args =
     concat (map (\<lambda>entry.
         let path = Path entry
         in if fs_is_dir fs path then filter (\<lambda>p. \<not> skipped p) (fs_rglob fs path)
            else if suffix_of path = ''.md'' then [path] else []) args)"

definition check_references :: "file_system \<Rightarrow> string list \<Rightarrow> (string list \<times> int) result" where
  "check_references fs args =
     rbind (check_files (\<lambda>t. check_file fs t (fs_cwd fs)) (reference_targets fs args)) (\<lambda>problems.
       Inr (problems, if problems = [] then 0 else 1))"

end
