(* ===== verification/Doc_Checks_Properties.thy ===== *)
theory Doc_Checks_Properties
  imports Reference_Checks
begin

text \<open>
  What a clean run over the documents establishes and where its problems point; which anchors
  \<open>slugify\<close> makes; and the links and files the two scripts do not see.
\<close>

section \<open>Iterating over matches\<close>

text \<open>The matches from the place \<open>n\<close> of a text on.\<close>

definition matches_from :: "rx \<Rightarrow> string \<Rightarrow> nat \<Rightarrow> (nat \<times> string \<times> (nat \<times> string) list) list" where
  "matches_from r s n = finditer_from r n (pl_prev (place_at s n)) (drop n s)"

lemma place_at_eq: "\<lparr>pl_prev = pl_prev (place_at s n), pl_rest = drop n s, pl_groups = []\<rparr> = place_at s n"
  by (simp add: place_at_def advance_def)

lemma place_at_Suc: "n < length s \<Longrightarrow> pl_prev (place_at s (Suc n)) = Some (s ! n)"
  by (simp add: place_at_def advance_def)

lemma place_after:
  assumes "q \<in> set (runs r (place_at s n))" "n \<le> length s"
  defines "k \<equiv> length (between (place_at s n) q)"
  shows "pl_rest q = drop (n + k) s" "pl_prev q = pl_prev (place_at s (n + k))" "n + k \<le> length s"
proof -
  note m = moved_between [OF runs_moved [OF assms(1)]]
  have rest: "between (place_at s n) q @ pl_rest q = drop n s"
    using m(1) by simp
  then have "pl_rest q = drop k (drop n s)"
    unfolding k_def by (metis append_eq_conv_conj)
  then show "pl_rest q = drop (n + k) s"
    by (simp add: add.commute)
  have len: "k + length (pl_rest q) = length s - n"
    using arg_cong [OF rest, of length] by (simp add: k_def)
  then show "n + k \<le> length s"
    using assms(2) by simp
  show "pl_prev q = pl_prev (place_at s (n + k))"
  proof (cases "k = 0")
    case True
    then show ?thesis
      using m(2) by (simp add: k_def)
  next
    case False
    then have "last (between (place_at s n) q) = between (place_at s n) q ! (k - 1)"
      by (simp add: k_def last_conv_nth)
    also have "\<dots> = (between (place_at s n) q @ pl_rest q) ! (k - 1)"
      using False by (simp add: nth_append k_def)
    also have "\<dots> = s ! (n + k - 1)"
      unfolding rest using False assms(2) by (simp add: nth_drop)
    finally show ?thesis
      using m(2) False by (simp add: k_def place_at_def advance_def)
  qed
qed

lemma matches_from_unfold:
  assumes "n \<le> length s"
  shows "matches_from r s n =
    (case runs r (place_at s n) of
       q # _ \<Rightarrow> (n, between (place_at s n) q, pl_groups q) #
         (if between (place_at s n) q \<noteq> [] then matches_from r s (n + length (between (place_at s n) q))
          else if n < length s then matches_from r s (Suc n) else [])
     | [] \<Rightarrow> if n < length s then matches_from r s (Suc n) else [])"
proof -
  have step: "(case drop n s of [] \<Rightarrow> [] | x # t \<Rightarrow> finditer_from r (Suc n) (Some x) t)
      = (if n < length s then matches_from r s (Suc n) else [])"
    using assms by (cases "n < length s") (simp_all add: matches_from_def place_at_Suc Cons_nth_drop_Suc [symmetric])
  show ?thesis
  proof (cases "runs r (place_at s n)")
    case Nil
    then show ?thesis
      unfolding matches_from_def [of r s n] by (subst finditer_from.simps) (simp add: place_at_eq step)
  next
    case (Cons q qs)
    then have q: "q \<in> set (runs r (place_at s n))"
      by simp
    note after = place_after [OF q assms]
    have "length (between (place_at s n) q) + length (pl_rest q) = length (drop n s)"
      using arg_cong [OF moved_between(1) [OF runs_moved [OF q]], of length] by simp
    then have moves: "length (pl_rest q) < length (drop n s) \<longleftrightarrow> between (place_at s n) q \<noteq> []"
      by (cases "between (place_at s n) q") simp_all
    show ?thesis
      unfolding matches_from_def [of r s n]
      by (subst finditer_from.simps)
        (simp only: Let_def place_at_eq Cons list.case moves step,
         simp add: matches_from_def after(1,2))
  qed
qed

lemma matches_from_cases:
  assumes "(i, m, g) \<in> set (matches_from r s n)" "n \<le> length s"
  obtains (here) q qs where "runs r (place_at s n) = q # qs" "i = n" "m = between (place_at s n) q" "g = pl_groups q"
  | (later) n' where "n < n'" "n' \<le> length s" "(i, m, g) \<in> set (matches_from r s n')"
proof (cases "runs r (place_at s n)")
  case Nil
  with assms have "n < length s" "(i, m, g) \<in> set (matches_from r s (Suc n))"
    by (simp_all add: matches_from_unfold [of n] split: if_splits)
  then show ?thesis
    by (intro later [of "Suc n"]) simp_all
next
  case (Cons q qs)
  let ?n' = "n + length (between (place_at s n) q)"
  have "?n' \<le> length s"
    using place_after(3) [of q r s n] Cons assms(2) by simp
  moreover have "i = n \<and> m = between (place_at s n) q \<and> g = pl_groups q
      \<or> n < ?n' \<and> (i, m, g) \<in> set (matches_from r s ?n')
      \<or> n < length s \<and> (i, m, g) \<in> set (matches_from r s (Suc n))"
    using assms Cons by (auto simp: matches_from_unfold [of n] split: if_splits)
  ultimately show ?thesis
    using here [OF Cons] later [of ?n'] later [of "Suc n"] by auto
qed

lemma matches_from_sound:
  assumes "(i, m, g) \<in> set (matches_from r s n)" "n \<le> length s"
  shows "i \<le> length s \<and> (\<exists>q qs. runs r (place_at s i) = q # qs \<and> m = between (place_at s i) q \<and> g = pl_groups q)"
  using assms
proof (induction "length s - n" arbitrary: n rule: less_induct)
  case less
  from less.prems show ?case
  proof (cases rule: matches_from_cases)
    case (later n')
    then show ?thesis
      using less.hyps [of n'] by simp
  qed (use less.prems(2) in auto)
qed

lemma matches_from_covers:
  assumes "\<And>p q. q \<in> set (runs r p) \<Longrightarrow> between p q \<noteq> []" "n \<le> i" "i \<le> length s" "runs r (place_at s i) \<noteq> []"
  shows "\<exists>(k, m, g) \<in> set (matches_from r s n). k \<le> i \<and> i < k + length m"
  using assms(2)
proof (induction "length s - n" arbitrary: n rule: less_induct)
  case less
  then have n: "n \<le> length s"
    using assms(3) by simp
  show ?case
  proof (cases "runs r (place_at s n)")
    case Nil
    with less.prems assms(3,4) have "n < i" "n < length s"
      by (auto simp: le_less)
    then show ?thesis
      using less.hyps [of "Suc n"] Nil n by (simp add: matches_from_unfold [of n])
  next
    case (Cons q qs)
    let ?m = "between (place_at s n) q"
    have m: "?m \<noteq> []"
      using assms(1) [of q "place_at s n"] Cons by simp
    then have eq: "matches_from r s n = (n, ?m, pl_groups q) # matches_from r s (n + length ?m)"
      using Cons n by (simp add: matches_from_unfold [of n])
    show ?thesis
    proof (cases "i < n + length ?m")
      case True
      then show ?thesis
        unfolding eq using less.prems by auto
    next
      case False
      moreover have "length s - (n + length ?m) < length s - n"
        using m False less.prems assms(3) by (cases ?m) auto
      ultimately show ?thesis
        unfolding eq using less.hyps [of "n + length ?m"] by auto
    qed
  qed
qed

lemma finditer_matches: "finditer r s = matches_from r s 0"
  by (simp add: finditer_def matches_from_def)

lemmas finditer_sound = matches_from_sound [of _ _ _ _ _ 0, folded finditer_matches, OF _ le0]
  and finditer_covers = matches_from_covers [of _ 0, folded finditer_matches, OF _ le0]

section \<open>What a pattern consumes\<close>

lemma runs_Seq_text: "q \<in> set (runs (Seq a b) p) \<Longrightarrow> (\<And>q'. q' \<in> set (runs a p) \<Longrightarrow> q \<in> set (runs b q') \<Longrightarrow> C) \<Longrightarrow> C"
  by auto

lemma runs_lit_text:
  assumes "q \<in> set (runs (lit w) p)"
  shows "pl_rest p = w @ pl_rest q" "pl_groups q = pl_groups p"
  using assms by (auto simp: runs_lit starts_with_def split: if_splits) (metis append_take_drop_id)

lemma runs_class_text:
  assumes "q \<in> set (runs (Many (One P)) p)"
  obtains b where "pl_rest p = b @ pl_rest q" "list_all P b" "pl_groups q = pl_groups p"
proof -
  obtain m where m: "m \<le> length (takeWhile P (pl_rest p))" "q = advance m p"
    using assms by (auto simp: runs_class less_Suc_eq_le simp del: upt_Suc runs.simps)
  show ?thesis
  proof (rule that [of "take m (pl_rest p)"])
    have "take m (pl_rest p) = take m (takeWhile P (pl_rest p))"
      using m(1) by (metis takeWhile_eq_take take_take min.absorb1)
    then show "list_all P (take m (pl_rest p))"
      by (metis in_set_takeD list_all_iff set_takeWhileD)
  qed (simp_all add: m(2))
qed

lemma runs_some_text:
  assumes "q \<in> set (runs (some (One P)) p)"
  obtains b where "pl_rest p = b @ pl_rest q" "b \<noteq> []" "list_all P b" "pl_groups q = pl_groups p"
proof -
  obtain q' where q': "q' \<in> set (runs (One P) p)" "q \<in> set (runs (Many (One P)) q')"
    using assms unfolding some_def by (rule runs_Seq_text)
  obtain b where "pl_rest q' = b @ pl_rest q" "list_all P b" "pl_groups q = pl_groups q'"
    by (rule runs_class_text [OF q'(2)])
  with q'(1) show ?thesis
    by (intro that [of "hd (pl_rest p) # b"]; cases "pl_rest p") (auto simp: drop_Suc split: if_splits)
qed

lemma runs_group_text:
  assumes "q \<in> set (runs (Group n a) p)"
  obtains q' where "q' \<in> set (runs a p)" "pl_rest q' = pl_rest q"
    "\<forall>x. pl_rest p = x @ pl_rest q \<longrightarrow> pl_groups q = AList.update n x (pl_groups q')"
proof -
  obtain q' where q': "q' \<in> set (runs a p)" "q = q'\<lparr>pl_groups := AList.update n (between p q') (pl_groups q')\<rparr>"
    using assms by auto
  have "between p q' = x" if "pl_rest p = x @ pl_rest q" for x
    using moved_between(1) [OF runs_moved [OF q'(1)]] that q'(2) by simp
  with q' show ?thesis
    by (intro that [of q']) simp_all
qed

section \<open>Links\<close>

definition link :: "string \<Rightarrow> string \<Rightarrow> string \<Rightarrow> string" where
  "link t u w = ''['' @ t @ ''](''  @ u @ w @ '')''"

definition text_ok :: "string \<Rightarrow> bool" where
  "text_ok t \<longleftrightarrow> CHR '']'' \<notin> set t"

definition target_ok :: "string \<Rightarrow> bool" where
  "target_ok u \<longleftrightarrow> u \<noteq> [] \<and> list_all target_char u"

text \<open>What may stand between the target and the closing parenthesis begins with a space.\<close>

definition title_ok :: "string \<Rightarrow> bool" where
  "title_ok w \<longleftrightarrow> w = [] \<or> is_space (hd w)"

lemma runs_title_text:
  assumes "q \<in> set (runs (opt link_title) p)"
  obtains w where "pl_rest p = w @ pl_rest q" "title_ok w" "pl_groups q = pl_groups p"
proof -
  consider "q = p" | "q \<in> set (runs link_title p)"
    using assms by (auto simp: opt_def)
  then show ?thesis
  proof cases
    case 1
    then show ?thesis
      by (intro that [of "[]"]) (simp_all add: title_ok_def)
  next
    case 2
    then obtain q1 q2 q3 where q: "q1 \<in> set (runs (some (One is_space)) p)" "q2 \<in> set (runs (lit ''\"'') q1)"
        "q3 \<in> set (runs (Many (One (\<lambda>c. c \<noteq> CHR ''\"''))) q2)" "q \<in> set (runs (lit ''\"'') q3)"
      unfolding link_title_def by (elim runs_Seq_text)
    obtain a where a: "pl_rest p = a @ pl_rest q1" "a \<noteq> []" "list_all is_space a" "pl_groups q1 = pl_groups p"
      by (rule runs_some_text [OF q(1)])
    obtain b where b: "pl_rest q2 = b @ pl_rest q3" "pl_groups q3 = pl_groups q2"
      by (rule runs_class_text [OF q(3)])
    note c = runs_lit_text [OF q(2)] runs_lit_text [OF q(4)]
    show ?thesis
      by (rule that [of "a @ ''\"'' @ b @ ''\"''"], use a b c in \<open>auto simp: title_ok_def list_all_iff hd_append\<close>)
  qed
qed

lemma link_text:
  assumes "q \<in> set (runs LINK_RE p)"
  obtains t u w where "pl_rest p = link t u w @ pl_rest q" "text_ok t" "target_ok u" "title_ok w"
    "group 1 (pl_groups q) = t" "group 2 (pl_groups q) = u"
proof -
  from assms obtain q1 q2 q3 q4 q5 where q: "q1 \<in> set (runs (lit ''['') p)"
      "q2 \<in> set (runs (Group 1 (Many (One (\<lambda>c. c \<noteq> CHR '']'')))) q1)" "q3 \<in> set (runs (lit ''](''  ) q2)"
      "q4 \<in> set (runs (Group 2 (some (One target_char))) q3)" "q5 \<in> set (runs (opt link_title) q4)"
      "q \<in> set (runs (lit '')'') q5)"
    unfolding LINK_RE_def by (elim runs_Seq_text)
  obtain t' where t': "t' \<in> set (runs (Many (One (\<lambda>c. c \<noteq> CHR '']''))) q1)" "pl_rest t' = pl_rest q2"
      "\<forall>x. pl_rest q1 = x @ pl_rest q2 \<longrightarrow> pl_groups q2 = AList.update 1 x (pl_groups t')"
    by (rule runs_group_text [OF q(2)])
  obtain t where t: "pl_rest q1 = t @ pl_rest t'" "list_all (\<lambda>c. c \<noteq> CHR '']'') t" "pl_groups t' = pl_groups q1"
    by (rule runs_class_text [OF t'(1)])
  obtain u' where u': "u' \<in> set (runs (some (One target_char)) q3)" "pl_rest u' = pl_rest q4"
      "\<forall>x. pl_rest q3 = x @ pl_rest q4 \<longrightarrow> pl_groups q4 = AList.update 2 x (pl_groups u')"
    by (rule runs_group_text [OF q(4)])
  obtain u where u: "pl_rest q3 = u @ pl_rest u'" "u \<noteq> []" "list_all target_char u" "pl_groups u' = pl_groups q3"
    by (rule runs_some_text [OF u'(1)])
  obtain w where w: "pl_rest q4 = w @ pl_rest q5" "title_ok w" "pl_groups q5 = pl_groups q4"
    by (rule runs_title_text [OF q(5)])
  note lits = runs_lit_text [OF q(1)] runs_lit_text [OF q(3)] runs_lit_text [OF q(6)]
  have "pl_rest p = link t u w @ pl_rest q"
    using lits(1,3,5) t(1) t'(2) u(1) u'(2) w(1) by (simp add: link_def)
  moreover have "pl_groups q = AList.update 2 u (AList.update 1 t (pl_groups t'))"
    using lits(4,6) w(3) u'(3) u(1,4) u'(2) t'(3) t(1) t'(2) by simp
  then have "group 1 (pl_groups q) = t" "group 2 (pl_groups q) = u"
    by (simp_all add: group_def update_conv')
  ultimately show ?thesis
    using t(2) u(2,3) w(2) by (intro that [of t u w]) (auto simp: text_ok_def target_ok_def list_all_iff)
qed

text \<open>A pattern that can consume a text, whatever stands around it.\<close>

definition takes :: "rx \<Rightarrow> string \<Rightarrow> bool" where
  "takes r w \<longleftrightarrow> (\<forall>p s. pl_rest p = w @ s \<longrightarrow> (\<exists>q \<in> set (runs r p). pl_rest q = s))"

lemma takes_lit: "takes (lit w) w"
  by (simp add: takes_def runs_lit)

lemma takes_class: "list_all P w \<Longrightarrow> takes (Many (One P)) w"
  unfolding takes_def runs_class
  by (auto simp: list_all_iff takeWhile_append2 intro!: bexI [of _ "length w"] simp del: upt_Suc)

lemma takes_Seq:
  assumes "takes a v" "takes b w"
  shows "takes (Seq a b) (v @ w)"
  unfolding takes_def
proof (intro allI impI)
  fix p :: place and s
  assume "pl_rest p = (v @ w) @ s"
  then obtain q where q: "q \<in> set (runs a p)" "pl_rest q = w @ s"
    using assms(1) unfolding takes_def by (metis append.assoc)
  with assms(2) obtain q' where "q' \<in> set (runs b q)" "pl_rest q' = s"
    unfolding takes_def by blast
  with q show "\<exists>q \<in> set (runs (Seq a b) p). pl_rest q = s"
    by auto
qed

lemma takes_some:
  assumes "w \<noteq> []" "list_all P w"
  shows "takes (some (One P)) w"
proof -
  have "takes (One P) [hd w]"
    using assms by (cases w) (simp_all add: takes_def)
  from takes_Seq [OF this takes_class [of P "tl w"]] assms show ?thesis
    by (cases w) (simp_all add: some_def)
qed

lemma takes_group: "takes a w \<Longrightarrow> takes (Group n a) w"
  unfolding takes_def by fastforce

lemma takes_opt: "takes (opt a) []"
  by (simp add: takes_def opt_def)

lemma takes_link:
  assumes "text_ok t" "target_ok u"
  shows "takes LINK_RE (link t u [])"
  unfolding LINK_RE_def link_def using assms
  by (intro takes_Seq takes_lit takes_group takes_class takes_some takes_opt)
    (auto simp: text_ok_def target_ok_def list_all_iff)

text \<open>Two links that overlap have the same target, or the later begins behind the text of the other.\<close>

lemma append_Cons_unique:
  assumes "xs @ c # ys = xs' @ c # ys'" "c \<notin> set xs" "c \<notin> set xs'"
  shows "xs = xs'" "ys = ys'"
proof -
  have "takeWhile (\<lambda>x. x \<noteq> c) (xs @ c # ys) = xs" "takeWhile (\<lambda>x. x \<noteq> c) (xs' @ c # ys') = xs'"
    using assms(2,3) by (auto simp: takeWhile_append)
  with assms(1) show "xs = xs'"
    by simp
  with assms(1) show "ys = ys'"
    by simp
qed

lemma target_of:
  assumes "target_ok u" "title_ok w"
  shows "takeWhile target_char (u @ w @ CHR '')'' # c) = u"
proof -
  have "\<not> target_char (hd (w @ CHR '')'' # c))"
    using assms(2) by (cases w) (auto simp: title_ok_def target_char_def)
  then have "takeWhile target_char (w @ CHR '')'' # c) = []"
    by (cases w) auto
  with assms(1) show ?thesis
    by (auto simp: target_ok_def list_all_iff takeWhile_append)
qed

lemma overlapping_links:
  assumes "d @ link t u [] @ c = link t' u' w @ c'" "text_ok t" "target_ok u" "text_ok t'" "target_ok u'" "title_ok w"
  shows "u' = u \<or> length t' + 3 \<le> length d"
proof -
  have eq: "d @ CHR ''['' # t @ CHR '']'' # CHR ''('' # u @ CHR '')'' # c
      = (CHR ''['' # t') @ CHR '']'' # CHR ''('' # u' @ w @ CHR '')'' # c'"
    using assms(1) by (simp add: link_def)
  consider "length d \<le> length t'" | "length d = length t' + 1" | "length d = length t' + 2" | "length t' + 3 \<le> length d"
    by linarith
  then show ?thesis
  proof cases
    case 1
    with eq obtain e where e: "d @ e = CHR ''['' # t'"
        "CHR ''['' # t @ CHR '']'' # CHR ''('' # u @ CHR '')'' # c = e @ CHR '']'' # CHR ''('' # u' @ w @ CHR '')'' # c'"
      unfolding append_eq_append_conv2 by (auto dest: arg_cong [of _ _ length])
    from 1 arg_cong [OF e(1), of length] have "e \<noteq> []"
      by auto
    with e(2) obtain e' where e': "e = CHR ''['' # e'"
        "t @ CHR '']'' # CHR ''('' # u @ CHR '')'' # c = e' @ CHR '']'' # CHR ''('' # u' @ w @ CHR '')'' # c'"
      by (cases e) simp_all
    have "set e' \<subseteq> set (CHR ''['' # t')"
      unfolding e(1) [symmetric] e'(1) by auto
    then have "CHR '']'' \<notin> set e'"
      using assms(4) by (auto simp: text_ok_def)
    then have "u @ CHR '')'' # c = u' @ w @ CHR '')'' # c'"
      using append_Cons_unique(2) [OF e'(2)] assms(2) by (simp add: text_ok_def)
    then show ?thesis
      using target_of [OF assms(3), of "[]" c] target_of [OF assms(5,6), of c'] by (simp add: title_ok_def)
  next
    case 2
    have "(d @ CHR ''['' # t @ CHR '']'' # CHR ''('' # u @ CHR '')'' # c) ! length d = CHR ''[''"
      by simp
    then show ?thesis
      unfolding eq 2 by (simp add: nth_append)
  next
    case 3
    have "(d @ CHR ''['' # t @ CHR '']'' # CHR ''('' # u @ CHR '')'' # c) ! length d = CHR ''[''"
      by simp
    then show ?thesis
      unfolding eq 3 by (simp add: nth_append)
  qed simp
qed

section \<open>What a clean run establishes\<close>

text \<open>A place inside what stands in the parentheses of a link that was found.\<close>

definition in_destination :: "string \<Rightarrow> nat \<Rightarrow> bool" where
  "in_destination body i \<longleftrightarrow>
     list_ex (\<lambda>(n, m, g). n + length (group 1 g) + 3 \<le> i \<and> i < n + length m) (finditer LINK_RE body)"

lemma finditer_link:
  assumes "(n, m, g) \<in> set (finditer LINK_RE body)"
  obtains t u w c where "body = take n body @ link t u w @ c" "m = link t u w" "text_ok t" "target_ok u" "title_ok w"
    "group 1 g = t" "group 2 g = u" "n \<le> length body"
proof -
  obtain q qs where q: "n \<le> length body" "runs LINK_RE (place_at body n) = q # qs" "m = between (place_at body n) q" "g = pl_groups q"
    using finditer_sound [OF assms] by blast
  then have found: "q \<in> set (runs LINK_RE (place_at body n))"
    by simp
  obtain t u w where t: "pl_rest (place_at body n) = link t u w @ pl_rest q" "text_ok t" "target_ok u" "title_ok w"
      "group 1 (pl_groups q) = t" "group 2 (pl_groups q) = u"
    by (rule link_text [OF found])
  then have "body = take n body @ link t u w @ pl_rest q"
    by (metis append_take_drop_id place_at_simps(1))
  moreover have "m = link t u w"
    using moved_between(1) [OF runs_moved [OF found]] t(1) q(3) by simp
  ultimately show ?thesis
    using t q by (intro that [of t u w "pl_rest q"]) simp_all
qed

lemma link_is_found:
  assumes "body = a @ link t u [] @ c" "text_ok t" "target_ok u" "\<not> in_destination body (length a)"
  shows "\<exists>n m g. (n, m, g) \<in> set (finditer LINK_RE body) \<and> group 2 g = u"
proof -
  have consumes: "between p q \<noteq> []" if found: "q \<in> set (runs LINK_RE p)" for p q
  proof -
    obtain t u w where "pl_rest p = link t u w @ pl_rest q"
      by (rule link_text [OF found])
    then show ?thesis
      using moved_between(1) [OF runs_moved [OF found]] by (simp add: link_def)
  qed
  have "pl_rest (place_at body (length a)) = link t u [] @ c"
    by (simp add: assms(1))
  with takes_link [OF assms(2,3)] have "runs LINK_RE (place_at body (length a)) \<noteq> []"
    unfolding takes_def by (metis empty_iff list.set(1))
  then obtain n m g where n: "(n, m, g) \<in> set (finditer LINK_RE body)" "n \<le> length a" "length a < n + length m"
    using finditer_covers [of LINK_RE "length a" body] consumes assms(1) by auto
  obtain t' u' w c' where t': "body = take n body @ link t' u' w @ c'" "m = link t' u' w" "text_ok t'" "target_ok u'"
      "title_ok w" "group 1 g = t'" "group 2 g = u'" "n \<le> length body"
    by (rule finditer_link [OF n(1)])
  have "drop n a @ link t u [] @ c = drop n body"
    using n(2) by (simp add: assms(1))
  also have "\<dots> = link t' u' w @ c'"
    using t'(1,8) by (metis append_eq_conv_conj length_take min.absorb2)
  finally consider "u' = u" | "length t' + 3 \<le> length (drop n a)"
    using overlapping_links assms(2,3) t'(3-5) by blast
  then show ?thesis
  proof cases
    case 2
    with assms(4) n t'(6) show ?thesis
      by (auto simp: in_destination_def list_ex_iff)
  qed (use n(1) t'(7) in blast)
qed

text \<open>What the link target \<open>u\<close> of the document \<open>path\<close> should be.\<close>

definition resolves :: "file_system \<Rightarrow> path \<Rightarrow> string \<Rightarrow> bool" where
  "resolves fs path u \<longleftrightarrow>
     external u
     \<or> file_part u = [] \<and> (anchor_part u = [] \<or> (\<exists>hs. headings_of fs path = Inr hs \<and> anchor_part u \<in> set hs))
     \<or> (let f = fs_resolve fs (joinpath (parent path) (file_part u)) in
          file_part u \<noteq> [] \<and> fs_exists fs f \<and> is_within (fs_cwd fs) f
        \<and> (anchor_part u = [] \<or> (\<exists>hs. headings_of fs f = Inr hs \<and> (hs = [] \<or> anchor_part u \<in> set hs))))"

lemma check_link_clean:
  assumes "check_link fs path (fs_cwd fs) hs k u = Inr []" "headings_of fs path = Inr hs"
  shows "resolves fs path u"
  using assms by (auto simp: check_link_def resolves_def Let_def rbind_eq_Inr split: if_splits)

lemma check_links_clean:
  "check_links fs path repo seen body ms = Inr [] \<Longrightarrow> (n, m, g) \<in> set ms \<Longrightarrow>
     check_link fs path repo seen (line_at body n) (group 2 g) = Inr []"
  by (induction fs path repo seen body ms rule: check_links.induct) (auto simp: rbind_eq_Inr)

lemma check_files_clean: "check_files check ts = Inr [] \<Longrightarrow> t \<in> set ts \<Longrightarrow> check t = Inr []"
  by (induction check ts rule: check_files.induct) (auto simp: rbind_eq_Inr)

lemma no_duplicates: "duplicates seen = [] \<Longrightarrow> distinct seen"
proof (rule ccontr)
  assume none: "duplicates seen = []" and "\<not> distinct seen"
  then obtain xs ys zs y where "seen = xs @ [y] @ ys @ [y] @ zs"
    using not_distinct_decomp by blast
  then have "y \<in> set (duplicates seen)"
    by (simp add: duplicates_def)
  with none show False
    by simp
qed

lemma check_docs_clean:
  assumes "check_docs fs args = Inr (out, 0)" "t \<in> set (doc_targets fs args)" "fs_text fs t = Inr raw"
  obtains hs where "headings_of fs t = Inr hs" "distinct hs"
    "check_links fs t (fs_cwd fs) hs (without_fences raw) (finditer LINK_RE (without_fences raw)) = Inr []"
proof -
  have "check_files (\<lambda>t. Doc_Checks.check_file fs t (fs_cwd fs)) (doc_targets fs args) = Inr []"
    using assms(1) by (auto simp: check_docs_def rbind_eq_Inr split: if_splits)
  from check_files_clean [OF this assms(2)] show ?thesis
    using assms(3) no_duplicates by (auto simp: Doc_Checks.check_file_def Let_def rbind_eq_Inr intro: that)
qed


section \<open>Where problems point\<close>

lemma without_fences_blanked: "blanked (without_fences raw) raw"
  unfolding without_fences_def sub_def
  by (rule sub_from_cases [where R = blanked])
    (auto intro: blanked.intros blanked_append blanked_newlines)

lemma blanked_split_on:
  "blanked s t \<Longrightarrow> length (split_on newline s) = length (split_on newline t)
     \<and> lines_within (split_on newline s) (split_on newline t)"
proof (induction rule: blanked.induct)
  case (kept s t c)
  then show ?case
    by (cases "split_on newline s"; cases "split_on newline t") auto
next
  case (deleted c s t)
  then show ?case
    by (cases "split_on newline s"; cases "split_on newline t") (auto intro: subseq_Cons2')
qed simp

text \<open>The number counted for a place is that of the line of the file it stands in.\<close>

lemma line_at_place:
  assumes "body = without_fences raw"
  shows "1 \<le> line_at body n \<and> line_at body n \<le> length (split_on newline raw)
    \<and> subseq (takeWhile (\<lambda>c. c \<noteq> newline) (drop n body)) (split_on newline raw ! (line_at body n - 1))"
proof -
  have within: "length (split_on newline body) = length (split_on newline raw)"
      "lines_within (split_on newline body) (split_on newline raw)"
    using blanked_split_on [OF without_fences_blanked] assms by simp_all
  have "count_list (take n body) newline \<le> count_list body newline"
    by (metis append_take_drop_id count_list_append le_add1)
  then have less: "count_list (take n body) newline < length (split_on newline body)"
    by (simp add: length_split_on)
  obtain pre where "split_on newline body ! count_list (take n body) newline
      = pre @ takeWhile (\<lambda>c. c \<noteq> newline) (drop n body)"
    using line_of_place [of newline body n] by blast
  then have "subseq (takeWhile (\<lambda>c. c \<noteq> newline) (drop n body)) (split_on newline body ! count_list (take n body) newline)"
    by (simp add: suffix_imp_subseq suffixI)
  also have "subseq \<dots> (split_on newline raw ! count_list (take n body) newline)"
    using within(2) less by (simp add: lines_within_def)
  finally show ?thesis
    using within(1) less by (simp add: line_at_def)
qed

lemma line_at_match:
  assumes "without_fences raw = take n (without_fences raw) @ m @ c"
  shows "1 \<le> line_at (without_fences raw) n \<and> line_at (without_fences raw) n \<le> length (split_on newline raw)
    \<and> subseq (takeWhile (\<lambda>c. c \<noteq> newline) m) (split_on newline raw ! (line_at (without_fences raw) n - 1))"
proof -
  have "m @ c = drop n (without_fences raw)"
    using assms by (metis append_take_drop_id same_append_eq)
  moreover have "prefix (takeWhile P m) (takeWhile P (m @ c))" for P
    by (induction m) auto
  ultimately show ?thesis
    using line_at_place [OF refl, of raw n] by (metis prefix_imp_subseq subseq_order.trans)
qed

lemma check_link_problem:
  assumes "check_link fs path repo seen k u = Inr ps" "p \<in> set ps"
  shows "pr_source p = path \<and> pr_line p = k \<and> \<not> external u
    \<and> pr_target p \<in> {''#'' @ anchor_part u, file_part u, file_part u @ ''#'' @ anchor_part u}"
  using assms by (auto simp: check_link_def Let_def rbind_eq_Inr split: if_splits)

lemma check_links_problem:
  "check_links fs path repo seen body ms = Inr ps \<Longrightarrow> p \<in> set ps \<Longrightarrow>
     \<exists>n m g qs. (n, m, g) \<in> set ms \<and> check_link fs path repo seen (line_at body n) (group 2 g) = Inr qs \<and> p \<in> set qs"
proof (induction ms arbitrary: ps)
  case (Cons match ms)
  obtain n m g where match: "match = (n, m, g)"
    by (metis prod.exhaust)
  with Cons.prems(1) obtain found rest where parts:
      "check_link fs path repo seen (line_at body n) (group 2 g) = Inr found"
      "check_links fs path repo seen body ms = Inr rest" "ps = found @ rest"
    by (auto simp: rbind_eq_Inr)
  with Cons.prems(2) consider "p \<in> set found" | "p \<in> set rest"
    by auto
  then show ?case
  proof cases
    case 1
    with parts(1) match show ?thesis
      by (metis list.set_intros(1))
  next
    case 2
    from Cons.IH [OF parts(2) this] show ?thesis
      by (metis list.set_intros(2))
  qed
qed simp

text \<open>
  Every problem reported for a file is a repeated anchor, with line 1, or belongs to a link
  that is not external: its number is that of a line of the file, fences counted, that holds
  the beginning of the link, and its target is the file or the anchor of the link.
\<close>

theorem problems_point_at_their_lines:
  assumes "Doc_Checks.check_file fs path repo = Inr ps" "fs_text fs path = Inr raw" "p \<in> set ps"
  shows "pr_source p = path \<and>
    ((\<exists>hs slug. headings_of fs path = Inr hs \<and> 1 < count_list hs slug \<and> pr_target p = ''#'' @ slug \<and> pr_line p = 1)
     \<or> (\<exists>t u w. text_ok t \<and> target_ok u \<and> \<not> external u \<and> 1 \<le> pr_line p \<and> pr_line p \<le> length (split_on newline raw)
          \<and> subseq (takeWhile (\<lambda>c. c \<noteq> newline) (link t u w)) (split_on newline raw ! (pr_line p - 1))
          \<and> pr_target p \<in> {''#'' @ anchor_part u, file_part u, file_part u @ ''#'' @ anchor_part u}))"
proof -
  let ?body = "without_fences raw"
  obtain hs found where hs: "headings_of fs path = Inr hs" "check_links fs path repo hs ?body (finditer LINK_RE ?body) = Inr found"
    and ps: "ps = map (\<lambda>slug. \<lparr>pr_source = path, pr_line = 1, pr_target = ''#'' @ slug,
        pr_reason = ''duplicate heading makes this anchor ambiguous''\<rparr>) (duplicates hs) @ found"
    using assms(1,2) by (auto simp: Doc_Checks.check_file_def Let_def rbind_eq_Inr)
  consider slug where "slug \<in> set (duplicates hs)" "pr_source p = path" "pr_line p = 1" "pr_target p = ''#'' @ slug"
    | "p \<in> set found"
    using assms(3) ps by auto
  then show ?thesis
  proof cases
    case 1
    then have "1 < count_list hs slug"
      by (simp add: duplicates_def)
    with 1 hs(1) show ?thesis
      by blast
  next
    case 2
    then obtain n m g qs where n: "(n, m, g) \<in> set (finditer LINK_RE ?body)"
        "check_link fs path repo hs (line_at ?body n) (group 2 g) = Inr qs" "p \<in> set qs"
      using check_links_problem [OF hs(2)] by blast
    obtain t u w c where link: "?body = take n ?body @ link t u w @ c" "text_ok t" "target_ok u" "group 2 g = u"
      by (rule finditer_link [OF n(1)])
    from check_link_problem [OF n(2,3)] line_at_match [OF link(1)] link(2-4) show ?thesis
      by metis
  qed
qed

section \<open>Anchors\<close>

lemma sub_from_class:
  "sub_from (One P) (\<lambda>_ _. w) c s = concat (map (\<lambda>x. if P x then w else [x]) s)"
proof (induction s arbitrary: c)
  case Nil
  show ?case
    by (subst sub_from.simps) simp
next
  case (Cons x s)
  have "between \<lparr>pl_prev = c, pl_rest = x # s, pl_groups = []\<rparr> (advance 1 \<lparr>pl_prev = c, pl_rest = x # s, pl_groups = []\<rparr>) = [x]"
    by (simp add: between_def)
  with Cons show ?case
    by (subst sub_from.simps) (simp add: advance_def)
qed

lemma sub_class: "sub (One P) (\<lambda>_ _. w) s = concat (map (\<lambda>x. if P x then w else [x]) s)"
  by (simp add: sub_def sub_from_class)

lemma sub_delete: "sub (One P) (\<lambda>_ _. []) s = filter (\<lambda>x. \<not> P x) s"
  by (induction s) (simp_all add: sub_class)

lemma sub_from_nothing:
  assumes "\<And>p. set (pl_rest p) \<subseteq> set s \<Longrightarrow> runs r p = []"
  shows "sub_from r f c s = s"
  using assms
proof (induction s arbitrary: c)
  case Nil
  then show ?case
    by (subst sub_from.simps) simp
next
  case (Cons x s)
  have "sub_from r f (Some x) s = s"
    by (rule Cons.IH, rule Cons.prems) auto
  with Cons.prems show ?case
    by (subst sub_from.simps) simp
qed

lemma sub_nothing:
  assumes "w \<noteq> []" "hd w \<notin> set s"
  shows "sub (Seq (lit w) r) f s = s"
proof -
  have none: "runs (Seq (lit w) r) p = []" if "set (pl_rest p) \<subseteq> set s" for p
  proof -
    have "\<not> starts_with w (pl_rest p)"
      using assms that by (cases w; cases "pl_rest p") (auto simp: starts_with_def)
    then show ?thesis
      by (simp add: runs_lit)
  qed
  show ?thesis
    unfolding sub_def by (rule sub_from_nothing, rule none)
qed

text \<open>The characters of an anchor.\<close>

definition slug_char :: "char \<Rightarrow> bool" where
  "slug_char c \<longleftrightarrow> (is_word c \<or> c = CHR ''-'') \<and> c \<noteq> CHR ''_'' \<and> lower_char c = c"

lemma lower_lower: "lower_char (lower_char c) = lower_char c"
  by (auto simp: lower_char_def Let_def)

lemma word_not_space: "is_word c \<Longrightarrow> \<not> is_space c"
  by (auto simp: is_word_def is_space_def Let_def)

lemma slug_char_not_space: "slug_char c \<Longrightarrow> \<not> is_space c"
  using word_not_space [of c] by (auto simp: slug_char_def is_space_def)

lemma strip_unspaced: "\<forall>c \<in> set s. \<not> is_space c \<Longrightarrow> strip s = s"
proof -
  assume none: "\<forall>c \<in> set s. \<not> is_space c"
  then have "dropWhile is_space t = t" if "set t \<subseteq> set s" for t
    using that by (cases t) auto
  then show ?thesis
    by (simp add: strip_def)
qed

text \<open>What \<open>slugify\<close> does once the Markdown is out of the heading.\<close>

definition plain_slug :: "string \<Rightarrow> string" where
  "plain_slug t =
     sub (One is_space) (\<lambda>_ _. ''-'')
       (sub (One (\<lambda>c. \<not> (is_word c \<or> is_space c \<or> c = CHR ''-''))) (\<lambda>_ _. [])
         (lower (strip (sub (One (\<lambda>c. c = CHR ''*'' \<or> c = CHR ''_'')) (\<lambda>_ _. []) t))))"

lemma plain_slug_map:
  "plain_slug t = map (\<lambda>c. if is_space c then CHR ''-'' else c)
     (filter (\<lambda>c. is_word c \<or> is_space c \<or> c = CHR ''-'')
       (map lower_char (strip (filter (\<lambda>c. \<not> (c = CHR ''*'' \<or> c = CHR ''_'')) t))))"
proof -
  have "sub (One is_space) (\<lambda>_ _. ''-'') s = map (\<lambda>c. if is_space c then CHR ''-'' else c) s" for s
    by (induction s) (simp_all add: sub_class)
  then show ?thesis
    by (simp add: plain_slug_def sub_delete lower_def)
qed

lemma plain_slug_chars: "list_all slug_char (plain_slug t)"
proof -
  have ok: "slug_char (if is_space c then CHR ''-'' else c)"
    if "is_word c \<or> is_space c \<or> c = CHR ''-''" "c \<noteq> CHR ''_''" "lower_char c = c" for c
    using that by (auto simp: slug_char_def lower_char_def)
  have lowered: "lower_char c \<noteq> CHR ''_''" if "c \<noteq> CHR ''_''" for c
    using that by (auto simp: lower_char_def Let_def dest: arg_cong [of _ _ "of_char :: char \<Rightarrow> nat"])
  have sets: "set (strip t) \<subseteq> set t" for t
    unfolding strip_def by (auto dest!: set_dropWhileD)
  have no_mark: "c \<noteq> CHR ''_''" if "c \<in> set (strip (filter (\<lambda>c. \<not> (c = CHR ''*'' \<or> c = CHR ''_'')) t))" for c
    using that sets by fastforce
  show ?thesis
    unfolding plain_slug_map list_all_iff
  proof
    fix c
    assume "c \<in> set (map (\<lambda>c. if is_space c then CHR ''-'' else c)
      (filter (\<lambda>c. is_word c \<or> is_space c \<or> c = CHR ''-'')
       (map lower_char (strip (filter (\<lambda>c. \<not> (c = CHR ''*'' \<or> c = CHR ''_'')) t)))))"
    then obtain d where d: "d \<in> set (strip (filter (\<lambda>c. \<not> (c = CHR ''*'' \<or> c = CHR ''_'')) t))"
        "is_word (lower_char d) \<or> is_space (lower_char d) \<or> lower_char d = CHR ''-''"
        "c = (if is_space (lower_char d) then CHR ''-'' else lower_char d)"
      unfolding set_map set_filter by blast
    show "slug_char c"
      unfolding d(3) by (rule ok [OF d(2) lowered [OF no_mark [OF d(1)]] lower_lower])
  qed
qed

lemma not_words: "\<not> is_word (CHR ''*'')" "\<not> is_word (CHR ''`'')" "\<not> is_word (CHR ''['')"
  by (simp_all add: is_word_def)

lemma plain_slug_slug:
  assumes "list_all slug_char s"
  shows "plain_slug s = s"
proof -
  have chars: "\<forall>c \<in> set s. (is_word c \<or> c = CHR ''-'') \<and> c \<noteq> CHR ''_'' \<and> lower_char c = c \<and> \<not> is_space c"
    using assms slug_char_not_space by (auto simp: list_all_iff slug_char_def)
  have unspaced: "\<forall>c \<in> set s. \<not> is_space c"
    using chars by blast
  have "CHR ''*'' \<noteq> CHR ''-''"
    by simp
  with chars not_words(1) have "\<forall>c \<in> set s. \<not> (c = CHR ''*'' \<or> c = CHR ''_'')"
    by blast
  then have "filter (\<lambda>c. \<not> (c = CHR ''*'' \<or> c = CHR ''_'')) s = s"
    by (rule filter_True)
  moreover have "map lower_char (strip s) = s"
    unfolding strip_unspaced [OF unspaced] using chars by (intro map_idI) blast
  moreover have "filter (\<lambda>c. is_word c \<or> is_space c \<or> c = CHR ''-'') s = s"
    using chars by (intro filter_True) blast
  moreover have "map (\<lambda>c. if is_space c then CHR ''-'' else c) s = s"
    using chars by (intro map_idI) simp
  ultimately show ?thesis
    unfolding plain_slug_map by (simp only:)
qed

lemma slugify_plain:
  "\<exists>t. slugify h = plain_slug t"
  "CHR ''`'' \<notin> set h \<Longrightarrow> CHR ''['' \<notin> set h \<Longrightarrow> slugify h = plain_slug h"
proof -
  show "\<exists>t. slugify h = plain_slug t"
    unfolding slugify_def Let_def plain_slug_def by (intro exI) (rule refl)
  assume no: "CHR ''`'' \<notin> set h" "CHR ''['' \<notin> set h"
  have "sub (Seq (lit ''`'') r) f h = h" "sub (Seq (lit ''['') r) f h = h" for r f
    by (rule sub_nothing; use no in simp)+
  then show "slugify h = plain_slug h"
    unfolding slugify_def Let_def plain_slug_def by (simp only:)
qed

text \<open>
  Every anchor that \<open>slugify\<close> makes consists of lower-case word characters and hyphens,
  never an underscore, and is its own anchor.
\<close>

theorem slugs_are_their_own_slugs: "list_all slug_char (slugify heading) \<and> slugify (slugify heading) = slugify heading"
proof -
  have chars: "list_all slug_char (slugify heading)"
    using slugify_plain(1) [of heading] plain_slug_chars by auto
  then have "CHR ''`'' \<notin> set (slugify heading)" "CHR ''['' \<notin> set (slugify heading)"
    using not_words by (auto simp: list_all_iff slug_char_def)
  then show ?thesis
    using slugify_plain(2) [of "slugify heading"] plain_slug_slug [OF chars] chars by simp
qed

section \<open>What the scripts do not see\<close>

lemma without_fences_plain: "CHR ''`'' \<notin> set raw \<Longrightarrow> without_fences raw = raw"
  unfolding without_fences_def CODE_FENCE_RE_def by (rule sub_nothing) simp_all

text \<open>The outer target of a badge, an image inside a link, as in the project's own README.\<close>

lemma badge_target_is_missed:
  "map (\<lambda>(_, _, g). group 2 g) (finditer LINK_RE ''[![x](https://i)](GONE)'') = [''https://i'']"
  by code_simp

text \<open>GitHub keeps underscores in anchors; here headings that differ only in them collide.\<close>

lemma underscores_collide: "slugify ''`a_b` case'' = slugify ''ab case''"
  by code_simp

text \<open>Scanned by an absolute path below a directory called \<open>build\<close>, no file is a target.\<close>

lemma documents_below_build_pass:
  assumes "fs_is_dir fs (Path entry)" "\<forall>p \<in> set (fs_rglob fs (Path entry)). ''build'' \<in> set (parts p)"
  shows "check_docs fs [entry] = Inr ([], 0) \<and> check_references fs [entry] = Inr ([], 0)"
proof -
  have "Doc_Checks.skipped p \<and> Reference_Checks.skipped p" if "p \<in> set (fs_rglob fs (Path entry))" for p
  proof -
    from that assms(2) have "''build'' \<in> set (parts p)"
      by blast
    then show ?thesis
      unfolding Doc_Checks.skipped_def Reference_Checks.skipped_def list_ex_iff
      by (auto intro: bexI [of _ "''build''"] simp: starts_with_def)
  qed
  then have "doc_targets fs [entry] = []" "reference_targets fs [entry] = []"
    using assms(1) by (auto simp: doc_targets_def reference_targets_def filter_empty_conv)
  then show ?thesis
    by (simp add: check_docs_def check_references_def)
qed

lemma misspelt_argument_passes:
  assumes "\<not> fs_is_dir fs (Path entry)" "suffix_of (Path entry) \<noteq> ''.md''"
  shows "check_docs fs [entry] = Inr ([], 0)"
  using assms by (simp add: check_docs_def doc_targets_def)

section \<open>The theorems applied\<close>

text \<open>A document with one link into another.\<close>

definition two_docs :: "string \<Rightarrow> file_system" where
  "two_docs a =
     \<lparr>fs_is_file = \<lambda>_. True, fs_is_dir = \<lambda>_. False, fs_exists = \<lambda>p. last (pa_parts p) \<noteq> ''c.md'',
      fs_resolve = \<lambda>p. p\<lparr>pa_root := ''/''\<rparr>, fs_rglob = \<lambda>_. [],
      fs_text = \<lambda>p. if last (pa_parts p) = ''a.md'' then Inr a else Inr ''# B'',
      fs_cwd = Path ''/''\<rparr>"

definition linking :: string where
  "linking = ''# A'' @ [newline] @ ''[b](b.md#b)''"

definition fenced :: string where
  "fenced = ''```'' @ [newline, newline] @ ''```'' @ [newline] @ ''[c](c.md)''"

lemma linking_checked:
  "check_docs (two_docs linking) [''a.md''] = Inr ([], 0)"
  "Path ''a.md'' \<in> set (doc_targets (two_docs linking) [''a.md''])"
  "fs_text (two_docs linking) (Path ''a.md'') = Inr linking"
  "without_fences linking = (''# A'' @ [newline]) @ link ''b'' ''b.md#b'' [] @ []"
  "\<not> in_destination (without_fences linking) (length (''# A'' @ [newline]))"
  by code_simp+


definition gone :: problem where
  "gone = \<lparr>pr_source = Path ''a.md'', pr_line = 4, pr_target = ''c.md'', pr_reason = ''file does not exist''\<rparr>"

lemma fenced_checked:
  "Doc_Checks.check_file (two_docs fenced) (Path ''a.md'') (Path ''/'') = Inr [gone]"
  "fs_text (two_docs fenced) (Path ''a.md'') = Inr fenced"
  by code_simp+

theorem problems_point_at_their_lines_witness:
  "\<exists>t u w. text_ok t \<and> target_ok u \<and> \<not> external u \<and> 4 \<le> length (split_on newline fenced)
     \<and> subseq (takeWhile (\<lambda>c. c \<noteq> newline) (link t u w)) (split_on newline fenced ! 3)
     \<and> ''c.md'' \<in> {''#'' @ anchor_part u, file_part u, file_part u @ ''#'' @ anchor_part u}"
  using problems_point_at_their_lines [OF fenced_checked, of gone] by (simp add: gone_def)

end
