(* ===== verification/Kernel_Parity.thy ===== *)
theory Kernel_Parity
  imports Ops Py_Text
begin

text \<open>
  \<open>examples/kernel_parity.py\<close>: the operators of \<open>Ops\<close> compared with PyTorch's on random inputs,
  in exact arithmetic. \<open>randn k dims\<close> are the elements of the \<open>k\<close>-th random tensor, and
  \<open>broadcast\<close> is the largest difference PyTorch finds between tensors of different shapes, or
  its error.
\<close>

section \<open>Checks\<close>

record check =
  ck_kernel :: string
  ck_shape :: string
  ck_error :: real
  ck_tolerance :: real

definition passed :: "check \<Rightarrow> bool" where
  "passed c \<longleftrightarrow> ck_error c \<le> ck_tolerance c"

record parity_env =
  py_backend :: backend
  py_randn :: "nat \<Rightarrow> nat list \<Rightarrow> real list"
  py_broadcast :: "tensor \<Rightarrow> tensor \<Rightarrow> real result"

definition max_difference :: "parity_env \<Rightarrow> tensor \<Rightarrow> tensor \<Rightarrow> real result" where
  "max_difference env a b =
     (if tn_shape a \<noteq> tn_shape b then py_broadcast env a b
      else let differences = map2 (\<lambda>x y. \<bar>x - y\<bar>) (tn_data a) (tn_data b) in
        if differences = [] then Inl RuntimeError else Inr (Max (set differences)))"

definition compare ::
  "parity_env \<Rightarrow> string \<Rightarrow> string \<Rightarrow> tensor result \<Rightarrow> tensor \<Rightarrow> real \<Rightarrow> check result" where
  "compare env name shape actual expected tolerance =
     rbind actual (\<lambda>a. rbind (max_difference env a expected) (\<lambda>e.
       Inr \<lparr>ck_kernel = name, ck_shape = shape, ck_error = e, ck_tolerance = tolerance\<rparr>))"

section \<open>The run\<close>

text \<open>Tensors are made on the device, which is the GPU when there is one.\<close>

definition on_device :: "parity_env \<Rightarrow> nat list \<Rightarrow> real list \<Rightarrow> tensor" where
  "on_device env dims elements =
     \<lparr>tn_shape = dims, tn_data = elements, tn_dtype = Float32, tn_requires_grad = False,
      tn_is_cuda = be_cuda_available (py_backend env)\<rparr>"

definition draw :: "parity_env \<Rightarrow> nat \<Rightarrow> nat list \<Rightarrow> tensor" where
  "draw env k dims = on_device env dims (py_randn env k dims)"

text \<open>\<open>"x".join(...)\<close> of the sizes\<close>

definition label :: "nat list \<Rightarrow> string" where
  "label dims = join ''x'' (map str_nat dims)"

text \<open>The iteration \<open>i\<close> of each loop, with the number of tensors drawn before the loop.\<close>

definition row_checks :: "parity_env \<Rightarrow> nat \<times> nat \<times> nat \<Rightarrow> check result list" where
  "row_checks env = (\<lambda>(i, rows, cols).
     let x = draw env (2 * i) [rows, cols]; weight = draw env (2 * i + 1) [cols];
         expected = on_rows (rms_row (tn_data weight) (1 / 10 ^ 6)) x
     in [compare env ''rmsnorm'' (label [rows, cols]) (rmsnorm (py_backend env) x weight (1 / 10 ^ 6)) expected (1 / 10 ^ 4),
         compare env ''softmax'' (label [rows, cols]) (Inr (softmax_op (py_backend env) x)) (on_rows softmax_row x) (1 / 10 ^ 5)])"

definition extreme_check :: "parity_env \<Rightarrow> check result" where
  "extreme_check env =
     (let extreme = on_device env [2, 3] [1000, 1000, 1000, - 1000, 0, 1000]
      in compare env ''softmax(+-1e3)'' ''2x3'' (Inr (softmax_op (py_backend env) extreme)) (on_rows softmax_row extreme) (1 / 10 ^ 6))"

definition lora_check :: "parity_env \<Rightarrow> nat \<times> nat \<times> nat \<times> nat \<times> nat \<Rightarrow> check result" where
  "lora_check env = (\<lambda>(i, batch, in_features, out_features, rank).
     let x = draw env (10 + 4 * i) [batch, in_features];
         weight = draw env (11 + 4 * i) [in_features, out_features];
         lora_a = draw env (12 + 4 * i) [in_features, rank];
         lora_b = draw env (13 + 4 * i) [rank, out_features];
         expected = (on_rows (\<lambda>v. map2 (\<lambda>y z. y + 2 * z) (vec_mat v out_features (tn_data weight))
                       (vec_mat (vec_mat v rank (tn_data lora_a)) out_features (tn_data lora_b))) x)
                     \<lparr>tn_shape := [batch, out_features]\<rparr>
     in compare env ''lora_linear'' (label [batch, in_features, out_features] @ ''r'' @ str_nat rank)
          (lora_linear (py_backend env) x weight lora_a lora_b 2) expected (1 / 10 ^ 2))"

definition element_checks :: "parity_env \<Rightarrow> nat \<times> nat list \<Rightarrow> check result list" where
  "element_checks env = (\<lambda>(i, dims).
     let gate = draw env (22 + 2 * i) dims; up = draw env (23 + 2 * i) dims; be = py_backend env in
     [compare env ''silu'' (label dims) (Inr (silu be gate)) (on_elements silu_value gate) (1 / 10 ^ 5),
      compare env ''gelu'' (label dims) (Inr (gelu be gate)) (on_elements gelu_value gate) (1 / 10 ^ 5),
      compare env ''swiglu'' (label dims) (swiglu be gate up) (on_pairs (*) (on_elements silu_value gate) up) (1 / 10 ^ 5)])"

definition quant_check :: "parity_env \<Rightarrow> nat \<Rightarrow> tensor \<Rightarrow> check result" where
  "quant_check env n x =
     (let (quantised, scales) = quantize_int8 (py_backend env) x in
      rbind (dequantize_int8 (py_backend env) quantised scales) (\<lambda>restored.
      if tn_data scales = [] then Inl RuntimeError
      else let bound = Max (set (tn_data scales)) / 2 + 1 / 10 ^ 6 in
        rbind (max_difference env x restored) (\<lambda>e.
          Inr \<lparr>ck_kernel = ''quant round trip'', ck_shape = str_nat n, ck_error = e, ck_tolerance = bound\<rparr>)))"

definition count_checks :: "parity_env \<Rightarrow> nat \<times> nat \<Rightarrow> check result list" where
  "count_checks env = (\<lambda>(i, n).
     let x = draw env (28 + i) [n] in
     [compare env ''sum'' (str_nat n) (Inr (sum_reduce (py_backend env) x))
        (x\<lparr>tn_shape := [], tn_data := [sum_list (tn_data x)]\<rparr>) (1 / 10 ^ 2),
      quant_check env n x])"

text \<open>All checks in order; the first that raises ends the run.\<close>

definition parity_shapes :: "(nat \<times> nat) list" where
  "parity_shapes = [(1, 1), (4, 17), (8, 128), (33, 1023), (16, 4096)]"

definition lora_shapes :: "(nat \<times> nat \<times> nat \<times> nat) list" where
  "lora_shapes = [(1, 8, 4, 2), (7, 129, 65, 3), (64, 1024, 1024, 16)]"

definition element_shapes :: "nat list list" where
  "element_shapes = [[64], [4, 17], [8, 4096]]"

definition counts :: "nat list" where
  "counts = [1, 63, 64, 65, 2 ^ 20]"

fun all_results :: "'c result list \<Rightarrow> 'c list result" where
  "all_results [] = Inr []"
| "all_results (r # rs) = rbind r (\<lambda>c. rbind (all_results rs) (\<lambda>cs. Inr (c # cs)))"

definition run_checks :: "parity_env \<Rightarrow> check list result" where
  "run_checks env =
     all_results (concat (map (row_checks env) (enumerate 0 parity_shapes)) @ [extreme_check env]
       @ map (lora_check env) (enumerate 0 lora_shapes)
       @ concat (map (element_checks env) (enumerate 0 element_shapes))
       @ concat (map (count_checks env) (enumerate 0 counts)))"

text \<open>\<open>main\<close>: the exit status.\<close>

definition kernel_parity :: "parity_env \<Rightarrow> int result" where
  "kernel_parity env =
     rbind (run_checks env) (\<lambda>checks. Inr (if filter (\<lambda>c. \<not> passed c) checks \<noteq> [] then 1 else 0))"

end
