(* ===== verification/Kernel_Parity_Properties.thy ===== *)
theory Kernel_Parity_Properties
  imports Kernel_Parity Ops_Properties
begin

text \<open>
  Kernels that compute what the reference implementations compute pass every check of the
  example, whatever the random inputs, the bound of the int8 round trip included.
\<close>

section \<open>Exact kernels\<close>

definition computes_reference :: "extension \<Rightarrow> bool" where
  "computes_reference ex \<longleftrightarrow>
     (\<forall>x w eps. ex_rmsnorm ex x w eps = rmsnorm_reference x w eps)
     \<and> (\<forall>x. ex_softmax ex x = softmax_reference x)
     \<and> (\<forall>x w a b s. ex_lora_linear ex x w a b s = lora_linear_reference x w a b s)
     \<and> (\<forall>x. ex_silu ex x = silu_reference x) \<and> (\<forall>x. ex_gelu ex x = gelu_reference x)
     \<and> (\<forall>g u. ex_swiglu ex g u = swiglu_reference g u)
     \<and> (\<forall>x. ex_sum ex x = x\<lparr>tn_shape := [], tn_data := [sum_list (tn_data x)]\<rparr>)
     \<and> (\<forall>x. ex_quantize ex x = quantize_reference x)
     \<and> (\<forall>q s. ex_dequantize ex q s = dequantize_reference q s)"

definition faithful :: "parity_env \<Rightarrow> bool" where
  "faithful env \<longleftrightarrow> computes_reference (be_extension (py_backend env))
     \<and> (\<forall>k dims. length (py_randn env k dims) = prod_list dims)"

text \<open>A check that returns and passes.\<close>

definition good :: "check result \<Rightarrow> bool" where
  "good r \<longleftrightarrow> (\<exists>c. r = Inr c \<and> passed c)"

lemma all_results_good: "list_all good rs \<Longrightarrow> \<exists>cs. all_results rs = Inr cs \<and> list_all passed cs"
  by (induction rs) (auto simp: good_def)

lemma all_results_length: "all_results rs = Inr cs \<Longrightarrow> length cs = length rs"
  by (induction rs arbitrary: cs rule: all_results.induct) (auto simp: rbind_eq_Inr)

lemma Max_zeros: "xs \<noteq> [] \<Longrightarrow> Max (set (map2 (\<lambda>x y. \<bar>x - y\<bar>) xs xs)) = (0 :: real)"
proof -
  have "map2 (\<lambda>x y. \<bar>x - y\<bar>) xs xs = replicate (length xs) (0 :: real)"
    by (induction xs) simp_all
  then show "xs \<noteq> [] \<Longrightarrow> ?thesis"
    by simp
qed

lemma compare_same:
  assumes "actual = Inr a" "tn_shape a = tn_shape b" "tn_data a = tn_data b" "tn_data b \<noteq> []" "0 \<le> tol"
  shows "good (compare env name shape actual b tol)"
  using assms Max_zeros [of "tn_data b"]
  by (auto simp: good_def compare_def max_difference_def Let_def passed_def)

lemma draw_simps [simp]:
  "tn_shape (draw env k dims) = dims" "tn_data (draw env k dims) = py_randn env k dims"
  "tn_dtype (draw env k dims) = Float32"
  by (simp_all add: draw_def on_device_def)

lemma drawn_length: "faithful env \<Longrightarrow> length (py_randn env k dims) = prod_list dims"
  by (simp add: faithful_def)

lemma drawn_nonempty: "faithful env \<Longrightarrow> 0 \<notin> set dims \<Longrightarrow> py_randn env k dims \<noteq> []"
  by (metis drawn_length length_0_conv prod_list_zero_iff)

lemma on_rows_nonempty:
  assumes "tn_data x \<noteq> []" "0 < last (tn_shape x)" "\<And>r. r \<noteq> [] \<Longrightarrow> f r \<noteq> []"
  shows "tn_data (on_rows f x) \<noteq> []"
  using assms by (simp add: on_rows_def chunks_step)

section \<open>The operators\<close>

lemma operators_exact:
  assumes "computes_reference (be_extension be)" "tn_data x \<noteq> []"
  shows "softmax_op be x = softmax_reference x" "silu be x = silu_reference x" "gelu be x = gelu_reference x"
    "sum_reduce be x = x\<lparr>tn_shape := [], tn_data := [sum_list (tn_data x)]\<rparr>"
    "quantize_int8 be x = quantize_reference x"
  using assms by (simp_all add: computes_reference_def softmax_op_def silu_def gelu_def sum_reduce_def
      quantize_int8_def numel_def)

lemma row_checks_good:
  assumes "faithful env" "0 < rows" "0 < cols"
  shows "list_all good (row_checks env (i, rows, cols))"
proof -
  let ?x = "draw env (2 * i) [rows, cols]" and ?w = "draw env (Suc (2 * i)) [cols]"
  have exact: "computes_reference (be_extension (py_backend env))"
    using assms(1) by (simp add: faithful_def)
  have data: "tn_data ?x \<noteq> []"
    using drawn_nonempty [OF assms(1)] assms(2,3) by simp
  have rms: "rmsnorm (py_backend env) ?x ?w eps = Inr (on_rows (rms_row (tn_data ?w) eps) ?x)" for eps
    using exact data by (simp add: rmsnorm_def ndim_def last_dim_def dim_at_def numel_def computes_reference_def
        rmsnorm_reference_def)
  have "tn_data ?w \<noteq> []"
    using drawn_nonempty [OF assms(1)] assms(3) by simp
  then have rows: "rms_row (tn_data ?w) eps r \<noteq> []" "softmax_row r \<noteq> []" if "r \<noteq> []" for eps r
    using that by (auto simp: rms_row_def softmax_row_def Let_def zip_eq_Nil_iff)
  have some: "tn_data (on_rows (rms_row (tn_data ?w) eps) ?x) \<noteq> []" "tn_data (on_rows softmax_row ?x) \<noteq> []" for eps
    using on_rows_nonempty [OF data _ rows(1)] on_rows_nonempty [OF data _ rows(2)] assms(3) by simp_all
  show ?thesis
    using compare_same [OF rms refl refl some(1)] compare_same [OF _ _ _ some(2)] operators_exact(1) [OF exact data]
    by (simp add: row_checks_def Let_def softmax_reference_def)
qed

lemma extreme_check_good: "faithful env \<Longrightarrow> good (extreme_check env)"
proof -
  assume env: "faithful env"
  let ?x = "on_device env [2, 3] [1000, 1000, 1000, - 1000, 0, 1000]"
  have data: "tn_data ?x \<noteq> []" and shape: "tn_shape ?x = [2, 3]"
    by (simp_all add: on_device_def)
  have "tn_data (on_rows softmax_row ?x) \<noteq> []"
    by (intro on_rows_nonempty [OF data]) (auto simp: shape softmax_row_def Let_def)
  moreover have "softmax_op (py_backend env) ?x = on_rows softmax_row ?x"
    using env operators_exact(1) [OF _ data] shape by (simp add: faithful_def softmax_reference_def)
  ultimately show ?thesis
    by (auto simp: extreme_check_def Let_def intro!: compare_same)
qed

lemma lora_check_good:
  assumes "faithful env" "0 < batch" "0 < n" "0 < m"
  shows "good (lora_check env (i, batch, n, m, r))"
proof -
  let ?x = "draw env (10 + 4 * i) [batch, n]" and ?w = "draw env (11 + 4 * i) [n, m]"
    and ?a = "draw env (12 + 4 * i) [n, r]" and ?b = "draw env (13 + 4 * i) [r, m]"
  have exact: "computes_reference (be_extension (py_backend env))"
    using assms(1) by (simp add: faithful_def)
  have op: "lora_linear (py_backend env) ?x ?w ?a ?b 2 = Inr (lora_linear_reference ?x ?w ?a ?b 2)"
    using exact by (simp add: lora_linear_def last_dim_def dim_at_def ndim_def computes_reference_def)
  have data: "tn_data ?x \<noteq> []"
    using drawn_nonempty [OF assms(1)] assms(2,3) by simp
  have some: "tn_data (on_rows (lora_row r m (tn_data ?w) (tn_data ?a) (tn_data ?b) 2) ?x) \<noteq> []"
    using assms(3,4) by (intro on_rows_nonempty [OF data]) (auto simp: lora_row_def vec_mat_def zip_eq_Nil_iff)
  have row: "(\<lambda>v. map2 (\<lambda>y z. y + 2 * z) (vec_mat v m (tn_data ?w)) (vec_mat (vec_mat v r (tn_data ?a)) m (tn_data ?b)))
      = lora_row r m (tn_data ?w) (tn_data ?a) (tn_data ?b) 2"
    by (intro ext) (simp add: lora_row_def)
  show ?thesis
    unfolding lora_check_def Let_def prod.case row
    by (rule compare_same [OF op]) (use some in \<open>simp_all add: lora_linear_reference_def Let_def\<close>)
qed

lemma element_checks_good:
  assumes "faithful env" "0 \<notin> set dims"
  shows "list_all good (element_checks env (i, dims))"
proof -
  let ?g = "draw env (22 + 2 * i) dims" and ?u = "draw env (23 + 2 * i) dims"
  have exact: "computes_reference (be_extension (py_backend env))"
    using assms(1) by (simp add: faithful_def)
  have data: "tn_data ?g \<noteq> []" "tn_data ?u \<noteq> []"
    using drawn_nonempty [OF assms] by simp_all
  have pairs: "on_pairs (*) (on_elements silu_value ?g) ?u = swiglu_reference ?g ?u"
    by (simp add: swiglu_reference_def on_pairs_def on_elements_def zip_map1 case_prod_unfold comp_def)
  have "swiglu (py_backend env) ?g ?u = Inr (swiglu_reference ?g ?u)"
    using exact data by (simp add: swiglu_def numel_def computes_reference_def)
  from compare_same [OF this refl refl] operators_exact(2,3) [OF exact data(1)] data show ?thesis
    unfolding element_checks_def Let_def prod.case pairs
    by (auto intro!: compare_same simp: silu_reference_def gelu_reference_def on_elements_def
        swiglu_reference_def on_pairs_def zip_eq_Nil_iff)
qed

lemma quant_check_good:
  assumes "computes_reference (be_extension (py_backend env))" "tn_data x \<noteq> []"
  shows "good (quant_check env n x)"
proof -
  let ?q = "fst (quantize_reference x)" and ?s = "snd (quantize_reference x)"
  let ?y = "dequantize_reference ?q ?s"
  have ops: "quantize_int8 (py_backend env) x = quantize_reference x" "dequantize_int8 (py_backend env) ?q ?s = Inr ?y"
    using assms scales_expected [of x] operators_exact(5) [OF assms]
    by (simp_all add: dequantize_int8_def computes_reference_def)
  note trip = reference_round_trip [where x = x]
  have "0 < numel x"
    using assms(2) by (simp add: numel_def)
  with trip(3) [of 0] have scales: "tn_data ?s \<noteq> []"
    by (auto simp: numel_def)
  have "\<bar>a - b\<bar> \<le> Max (set (tn_data ?s)) / 2" if ab: "(a, b) \<in> set (zip (tn_data x) (tn_data ?y))" for a b
  proof -
    from ab obtain i where i: "i < numel x" "a = tn_data x ! i" "b = tn_data ?y ! i"
      using trip(2) by (auto simp: in_set_zip numel_def)
    have "tn_data ?s ! (i div QUANT_BLOCK_SIZE) \<le> Max (set (tn_data ?s))"
      using trip(3) [OF i(1)] by (intro Max_ge) (simp_all add: numel_def)
    then show ?thesis
      using trip(3) [OF i(1)] i(2,3) by linarith
  qed
  then have bound: "Max (set (map2 (\<lambda>a b. \<bar>a - b\<bar>) (tn_data x) (tn_data ?y))) \<le> Max (set (tn_data ?s)) / 2"
    if "map2 (\<lambda>a b. \<bar>a - b\<bar>) (tn_data x) (tn_data ?y) \<noteq> []"
    using that by (intro Max.boundedI) auto
  have some: "map2 (\<lambda>a b. \<bar>a - b\<bar>) (tn_data x) (tn_data ?y) \<noteq> []"
    using assms(2) trip(2) by (auto simp: numel_def zip_eq_Nil_iff)
  then have "max_difference env x ?y = Inr (Max (set (map2 (\<lambda>a b. \<bar>a - b\<bar>) (tn_data x) (tn_data ?y))))"
    using trip(1) by (simp add: max_difference_def Let_def)
  with bound [OF some] scales ops show ?thesis
    by (simp add: quant_check_def good_def passed_def Let_def case_prod_unfold)
qed

lemma count_checks_good:
  assumes "faithful env" "0 < n"
  shows "list_all good (count_checks env (i, n))"
proof -
  have exact: "computes_reference (be_extension (py_backend env))"
    using assms(1) by (simp add: faithful_def)
  have data: "tn_data (draw env (28 + i) [n]) \<noteq> []"
    using drawn_nonempty [OF assms(1)] assms(2) by simp
  show ?thesis
    using quant_check_good [OF exact data] operators_exact(4) [OF exact data]
    by (auto simp: count_checks_def Let_def intro!: compare_same)
qed

section \<open>The run\<close>

text \<open>
  When every kernel computes what the reference implementation computes, the parity example
  returns and exits with status 0 for all random inputs: every difference is zero, and that of
  the int8 round trip within half of the largest scale.
\<close>

theorem exact_kernels_pass_parity:
  assumes "computes_reference (be_extension (py_backend env))" "\<forall>k dims. length (py_randn env k dims) = prod_list dims"
  shows "kernel_parity env = Inr 0 \<and> (\<exists>cs. run_checks env = Inr cs \<and> length cs = 33 \<and> list_all passed cs)"
proof -
  have env: "faithful env"
    using assms by (simp add: faithful_def)
  let ?rs = "concat (map (row_checks env) (enumerate 0 parity_shapes)) @ [extreme_check env]
       @ map (lora_check env) (enumerate 0 lora_shapes)
       @ concat (map (element_checks env) (enumerate 0 element_shapes))
       @ concat (map (count_checks env) (enumerate 0 counts))"
  have "list_all good ?rs"
    by (simp add: parity_shapes_def lora_shapes_def element_shapes_def counts_def row_checks_good [OF env]
        extreme_check_good [OF env] lora_check_good [OF env] element_checks_good [OF env] count_checks_good [OF env])
  then obtain cs where cs: "all_results ?rs = Inr cs" "list_all passed cs"
    using all_results_good by blast
  have "length ?rs = 33"
    by (simp add: parity_shapes_def lora_shapes_def element_shapes_def counts_def row_checks_def element_checks_def
        count_checks_def Let_def)
  with all_results_length [OF cs(1)] have "length cs = 33"
    by simp
  moreover have "filter (\<lambda>c. \<not> passed c) cs = []"
    using cs(2) by (simp add: list_all_iff filter_empty_conv)
  ultimately show ?thesis
    using cs unfolding kernel_parity_def run_checks_def by simp
qed

text \<open>Without the extension the example compares the reference implementations with themselves.\<close>

definition plain_env :: parity_env where
  "plain_env = \<lparr>py_backend = (sample_backend NotBuilt)\<lparr>be_extension :=
       \<lparr>ex_registered = \<lambda>_. False, ex_rmsnorm = rmsnorm_reference, ex_softmax = softmax_reference,
        ex_lora_linear = lora_linear_reference, ex_fused = fused_reference, ex_silu = silu_reference,
        ex_gelu = gelu_reference, ex_swiglu = swiglu_reference,
        ex_sum = \<lambda>x. x\<lparr>tn_shape := [], tn_data := [sum_list (tn_data x)]\<rparr>,
        ex_quantize = quantize_reference, ex_dequantize = dequantize_reference\<rparr>\<rparr>,
     py_randn = \<lambda>k dims. replicate (prod_list dims) (real k), py_broadcast = \<lambda>_ _. Inl RuntimeError\<rparr>"

theorem exact_kernels_pass_parity_witness: "kernel_parity plain_env = Inr 0"
proof -
  have "computes_reference (be_extension (py_backend plain_env))"
    "\<forall>k dims. length (py_randn plain_env k dims) = prod_list dims"
    by (simp_all add: plain_env_def computes_reference_def)
  then show ?thesis
    using exact_kernels_pass_parity by blast
qed

end
