(* ===== verification/Speculative_Example.thy ===== *)
theory Speculative_Example
  imports Speculative_Properties
begin

text \<open>
  \<open>examples/speculative_decoding.py\<close>: decoding with the target alone, decoding speculatively,
  and comparing the two. Building and loading models and tokenizers are parameters.
\<close>

section \<open>One token at a time\<close>

fun decode_steps :: "(nat list \<Rightarrow> real list) \<Rightarrow> nat \<Rightarrow> nat list \<Rightarrow> nat list \<Rightarrow> nat list result" where
  "decode_steps target 0 step cache = Inr []"
| "decode_steps target (Suc n) step cache =
     (let (logits, cache) = forward target cache step in
      if logits = [] then Inl IndexError
      else let token = argmax (last logits) in
        rbind (decode_steps target n [token] cache) (\<lambda>produced. Inr (token # produced)))"

definition decode_one_at_a_time ::
  "(nat list \<Rightarrow> real list) \<Rightarrow> nat list \<Rightarrow> int \<Rightarrow> (nat list \<times> int) result" where
  "decode_one_at_a_time target prompt tokens =
     rbind (decode_steps target (nat tokens) prompt []) (\<lambda>produced. Inr (produced, tokens))"

section \<open>The example\<close>

record example_args =
  xa_tokens :: int
  xa_lookahead :: int
  xa_model :: "string option"
  xa_draft :: "string option"

text \<open>A pretrained model by its name; the prompt is its tokenizer's encoding of a fixed sentence.\<close>

record 'g example_env =
  xe_transformers :: bool
  xe_pretrained :: "string \<Rightarrow> nat list \<Rightarrow> real list"
  xe_encoded_prompt :: "string \<Rightarrow> nat list"
  xe_synthetic :: "(nat list \<Rightarrow> real list) \<times> (nat list \<Rightarrow> real list)"
  xe_random_prompt :: "nat list"
  xe_order :: "real list \<Rightarrow> nat list"
  xe_rng :: "'g generator"

text \<open>The truth value of an optional string.\<close>

definition given :: "string option \<Rightarrow> bool" where
  "given s \<longleftrightarrow> s \<noteq> None \<and> s \<noteq> Some []"

definition models_and_prompt ::
  "'g example_env \<Rightarrow> example_args \<Rightarrow> (nat list \<Rightarrow> real list) \<times> (nat list \<Rightarrow> real list) \<times> nat list" where
  "models_and_prompt env a =
     (if given (xa_model a)
      then (xe_pretrained env (the (xa_model a)), xe_pretrained env (the (xa_draft a)), xe_encoded_prompt env (the (xa_model a)))
      else (fst (xe_synthetic env), snd (xe_synthetic env), xe_random_prompt env))"

text \<open>
  The exit status. \<open>argparse\<close> is left out; of the report only what may raise is here: the share of
  calls saved and the expected gain.
\<close>

definition run_example :: "'g example_env \<Rightarrow> example_args \<Rightarrow> 'g \<Rightarrow> int result" where
  "run_example env a g =
     (if given (xa_model a) \<noteq> given (xa_draft a) then Inr 2
      else if \<not> xe_transformers env then Inr 0
      else let (target, draft, prompt) = models_and_prompt env a in
        rbind (decode_one_at_a_time target prompt (xa_tokens a)) (\<lambda>(baseline, baseline_calls).
        rbind (SpeculativeDecoder target draft (xa_lookahead a) (xe_order env) (xe_rng env)) (\<lambda>decoder.
        rbind (GenerationConfig (gc_defaults\<lparr>gc_max_new_tokens := xa_tokens a, gc_temperature := 0\<rparr>)) (\<lambda>gen.
        rbind (spec_generate decoder [prompt] gen g) (\<lambda>(speculative, stats).
          if baseline \<noteq> speculative then Inr 1
          else if baseline_calls = 0 then Inl ZeroDivisionError
          else rbind (expected_tokens_per_call
                 (real (sv_accepted stats) / real (max (sv_proposed stats) 1)) (xa_lookahead a)) (\<lambda>_. Inr 0))))))"

section \<open>It reports identical outputs\<close>

lemma decode_steps_greedy:
  "step \<noteq> [] \<Longrightarrow> decode_steps target n step cache = Inr (greedy_decode target (cache @ step) n)"
proof (induction n arbitrary: step cache)
  case (Suc n)
  then have "last (fst (forward target cache step)) = target (cache @ step)" "fst (forward target cache step) \<noteq> []"
    by (simp_all add: forward_def last_map)
  with Suc.IH [of "[argmax (target (cache @ step))]" "cache @ step"] show ?case
    by (simp add: Let_def forward_def)
qed simp

text \<open>
  For all models, prompts and numbers of tokens the comparison at the end of the example succeeds:
  with at least one token and a lookahead of at least one it exits with status 0.
\<close>

theorem example_reports_identity:
  assumes "given (xa_model a) = given (xa_draft a)" "snd (snd (models_and_prompt env a)) \<noteq> []"
    "0 < xa_tokens a" "0 < xa_lookahead a"
  shows "run_example env a g = Inr 0"
proof (cases "xe_transformers env")
  case True
  obtain target draft prompt where models: "models_and_prompt env a = (target, draft, prompt)" "prompt \<noteq> []"
    using assms(2) by (metis prod.collapse)
  let ?gen = "gc_defaults\<lparr>gc_max_new_tokens := xa_tokens a, gc_temperature := 0\<rparr>"
  have gen: "GenerationConfig ?gen = Inr ?gen" "greedy_mode ?gen" "nat (gc_max_new_tokens ?gen) = nat (xa_tokens a)"
    using assms(3) by (simp_all add: GenerationConfig_def gc_defaults_def greedy_mode_def)
  obtain d where d: "SpeculativeDecoder target draft (xa_lookahead a) (xe_order env) (xe_rng env) = Inr d"
      "sd_target d = target" "0 < sd_lookahead d"
    using assms(4) by (auto simp: SpeculativeDecoder_def)
  obtain s where s: "spec_generate d [prompt] ?gen g = Inr (greedy_decode target prompt (nat (xa_tokens a)), s)"
      "sv_accepted s \<le> sv_proposed s"
    using spec_generate_greedy [OF models(2) gen(2) d(3), of g] gen(3) d(2) by metis
  have "decode_one_at_a_time target prompt (xa_tokens a) = Inr (greedy_decode target prompt (nat (xa_tokens a)), xa_tokens a)"
    using decode_steps_greedy [OF models(2), of target _ "[]"] by (simp add: decode_one_at_a_time_def)
  moreover have "real (sv_accepted s) / real (max (sv_proposed s) 1) \<le> 1"
    using s(2) by (simp add: divide_le_eq max_def)
  then have "\<exists>v. expected_tokens_per_call (real (sv_accepted s) / real (max (sv_proposed s) 1)) (xa_lookahead a) = Inr v"
    using assms(4) by (auto simp: expected_tokens_per_call_def)
  ultimately show ?thesis
    using True models d gen s assms(1,3) by (auto simp: run_example_def)
qed (use assms in \<open>simp add: run_example_def\<close>)

definition ex_example :: "unit example_env" where
  "ex_example = \<lparr>xe_transformers = True, xe_pretrained = \<lambda>_ _. [0, 1], xe_encoded_prompt = \<lambda>_. [0],
     xe_synthetic = (sd_target ex_decoder, sd_draft ex_decoder), xe_random_prompt = [1, 0],
     xe_order = sd_order ex_decoder, xe_rng = sd_rng ex_decoder\<rparr>"

theorem example_reports_identity_witness:
  "run_example ex_example \<lparr>xa_tokens = 4, xa_lookahead = 2, xa_model = None, xa_draft = None\<rparr> () = Inr 0"
  by (rule example_reports_identity) (simp_all add: ex_example_def models_and_prompt_def given_def)

end
