(* ===== verification/Environment_Report.thy ===== *)
theory Environment_Report
  imports Py_Regex
begin

text \<open>
  \<open>scripts/environment_report.py\<close>: which tools, packages and devices a machine has, and what it
  can therefore do. The machine is a record of what the standard library answers.
\<close>

section \<open>Probing\<close>

record tool =
  to_name :: string
  to_available :: bool
  to_version :: "string option"
  to_note :: string

text \<open>
  How running a command ended: with its output, with an exception that \<open>probe\<close> catches
  (\<open>OSError\<close>, \<open>SubprocessError\<close>; the text it prints as), or with another one, as when the output is
  not valid UTF-8. How an import ended: with the module's version, if it has one, or an exception.
\<close>

datatype run_outcome = Ran string string | Fails string | Escapes py_error

datatype import_attempt = Imported "string option" | Not_Found | Import_Raises py_error

record machine =
  ma_which :: "string \<Rightarrow> bool"
  ma_run :: "string list \<Rightarrow> run_outcome"
  ma_import :: "string \<Rightarrow> import_attempt"
  ma_cuda_available :: bool
  ma_device_name :: string
  ma_system :: string
  ma_release :: string
  ma_machine :: string
  ma_processor :: string
  ma_python :: string

definition probe :: "machine \<Rightarrow> string \<Rightarrow> string list \<Rightarrow> string \<Rightarrow> tool result" where
  "probe m name command note =
     (if \<not> ma_which m (hd command) then Inr \<lparr>to_name = name, to_available = False, to_version = None, to_note = note\<rparr>
      else case ma_run m command of
        Fails err \<Rightarrow> Inr \<lparr>to_name = name, to_available = False, to_version = None,
                         to_note = strip (note @ '' ('' @ err @ '')'')\<rparr>
      | Escapes e \<Rightarrow> Inl e
      | Ran stdout stderr \<Rightarrow>
          let output = splitlines (strip (if stdout \<noteq> [] then stdout else stderr))
          in Inr \<lparr>to_name = name, to_available = True,
                  to_version = Some (if output \<noteq> [] then hd output else []), to_note = note\<rparr>)"

definition python_package :: "machine \<Rightarrow> string \<Rightarrow> tool result" where
  "python_package m name =
     (case ma_import m name of
        Not_Found \<Rightarrow> Inr \<lparr>to_name = name, to_available = False, to_version = None, to_note = []\<rparr>
      | Import_Raises e \<Rightarrow> Inl e
      | Imported version \<Rightarrow>
          Inr \<lparr>to_name = name, to_available = True,
               to_version = Some (case version of Some v \<Rightarrow> v | None \<Rightarrow> ''unknown''), to_note = []\<rparr>)"

section \<open>The report\<close>

definition TOOLS :: "(string \<times> string) list" where
  "TOOLS =
     [(''cmake'', []), (''ninja'', []), (''clang++'', []), (''g++'', []), (''clang-format'', []),
      (''shellcheck'', []), (''docker'', []), (''git'', []),
      (''nvcc'', ''required to build the CUDA targets''), (''nvidia-smi'', ''required to run them''),
      (''nsys'', ''Nsight Systems''), (''ncu'', ''Nsight Compute'')]"

definition PACKAGES :: "string list" where
  "PACKAGES = [''torch'', ''numpy'', ''transformers'', ''peft'']"

record report =
  re_system :: string
  re_release :: string
  re_machine :: string
  re_processor :: string
  re_python :: string
  re_tools :: "tool list"
  re_packages :: "tool list"
  re_toolkit :: bool
  re_device_visible :: bool
  re_device_name :: "string option"

fun each :: "('a \<Rightarrow> 'b result) \<Rightarrow> 'a list \<Rightarrow> 'b list result" where
  "each f [] = Inr []"
| "each f (x # xs) = rbind (f x) (\<lambda>y. rbind (each f xs) (\<lambda>ys. Inr (y # ys)))"

definition collect :: "machine \<Rightarrow> report result" where
  "collect m =
     rbind (each (\<lambda>(name, note). probe m name [name, ''--version''] note) TOOLS) (\<lambda>tools.
     rbind (each (python_package m) PACKAGES) (\<lambda>packages.
     rbind (case ma_import m ''torch'' of
              Not_Found \<Rightarrow> Inr (False, None)
            | Import_Raises e \<Rightarrow> Inl e
            | Imported _ \<Rightarrow> Inr (ma_cuda_available m, if ma_cuda_available m then Some (ma_device_name m) else None))
       (\<lambda>(cuda_available, device).
       Inr \<lparr>re_system = ma_system m, re_release = ma_release m, re_machine = ma_machine m,
            re_processor = (if ma_processor m \<noteq> [] then ma_processor m else ma_machine m), re_python = ma_python m,
            re_tools = tools, re_packages = packages,
            re_toolkit = list_ex (\<lambda>t. to_name t = ''nvcc'' \<and> to_available t) tools,
            re_device_visible = cuda_available, re_device_name = device\<rparr>)))"

section \<open>Capabilities\<close>

text \<open>The dictionary from names to availability, in which a later entry replaces an earlier one.\<close>

definition availability :: "tool list \<Rightarrow> string \<Rightarrow> bool" where
  "availability ts name = (map_of (rev (map (\<lambda>t. (to_name t, to_available t)) ts)) name = Some True)"

definition capabilities :: "report \<Rightarrow> (string \<times> bool \<times> string) list" where
  "capabilities r =
     (let tools = availability (re_tools r); packages = availability (re_packages r) in
      [(''Build the portable C++ runtime'', tools ''cmake'', ''needs cmake''),
       (''Run the C++ tests under sanitizers'', tools ''cmake'' \<and> tools ''clang++'', ''needs cmake and clang''),
       (''Run the Python test suite'', packages ''torch'', ''needs torch''),
       (''Run the reference operators'', packages ''torch'', ''needs torch''),
       (''Fine-tune with LoRA'', packages ''peft'', ''needs peft''),
       (''Compile the CUDA kernels'', re_toolkit r, ''needs the CUDA toolkit''),
       (''Run the CUDA tests'', re_device_visible r, ''needs an NVIDIA GPU''),
       (''Benchmark the CUDA kernels'', re_device_visible r, ''needs an NVIDIA GPU''),
       (''Profile with Nsight'', re_device_visible r \<and> tools ''nsys'', ''needs an NVIDIA GPU and Nsight'')])"

section \<open>The printed report\<close>

definition mark :: "bool \<Rightarrow> string" where
  "mark yes = (if yes then ''yes'' else '' no'')"

definition ljust :: "nat \<Rightarrow> string \<Rightarrow> string" where
  "ljust n s = s @ replicate (n - length s) (CHR '' '')"

definition tool_line :: "tool \<Rightarrow> string" where
  "tool_line t =
     ''  ['' @ mark (to_available t) @ ''] '' @ ljust 14 (to_name t) @ '' ''
     @ (case to_version t of Some (c # v) \<Rightarrow> c # v | _ \<Rightarrow> to_note t)"

definition package_line :: "tool \<Rightarrow> string" where
  "package_line t =
     ''  ['' @ mark (to_available t) @ ''] '' @ ljust 14 (to_name t) @ '' ''
     @ (case to_version t of Some v \<Rightarrow> v | None \<Rightarrow> [])"

definition capability_line :: "string \<times> bool \<times> string \<Rightarrow> string" where
  "capability_line = (\<lambda>(label, possible, requirement).
     ''  ['' @ mark possible @ ''] '' @ label @ (if possible then [] else ''  - '' @ requirement))"

text \<open>The lines of the report without \<open>--json\<close>; the dash is not one of the characters here.\<close>

definition report_lines :: "report \<Rightarrow> string list" where
  "report_lines r =
     [re_system r @ '' '' @ re_release r @ '' on '' @ re_machine r, ''Python '' @ re_python r, [], ''tools'']
     @ map tool_line (re_tools r) @ [[], ''python packages''] @ map package_line (re_packages r)
     @ [[], ''what this machine can do''] @ map capability_line (capabilities r)
     @ (if re_device_visible r then []
        else [[], ''No NVIDIA GPU is visible. The CUDA kernels, their tests and every GPU'',
              ''benchmark are unavailable here - which is why this repository contains'',
              ''no GPU performance numbers. See docs/environment.md.''])"

definition environment_report :: "machine \<Rightarrow> string list result" where
  "environment_report m = rbind (collect m) (\<lambda>r. Inr (report_lines r))"

section \<open>What the report says\<close>

definition tool_found :: "machine \<Rightarrow> string \<Rightarrow> bool" where
  "tool_found m name \<longleftrightarrow> ma_which m name \<and> (\<exists>out err. ma_run m [name, ''--version''] = Ran out err)"

definition package_found :: "machine \<Rightarrow> string \<Rightarrow> bool" where
  "package_found m name \<longleftrightarrow> (\<exists>v. ma_import m name = Imported v)"

lemma each_ok: "each f xs = Inr ys \<Longrightarrow> list_all2 (\<lambda>x y. f x = Inr y) xs ys"
  by (induction f xs arbitrary: ys rule: each.induct) (auto simp: rbind_eq_Inr)

lemma probe_ok:
  "probe m name [name, ''--version''] note = Inr t \<Longrightarrow> to_name t = name \<and> to_available t = tool_found m name"
  by (auto simp: probe_def tool_found_def Let_def split: if_splits run_outcome.splits)

lemma python_package_ok:
  "python_package m name = Inr t \<Longrightarrow> to_name t = name \<and> to_available t = package_found m name"
  by (auto simp: python_package_def package_found_def split: import_attempt.splits)

text \<open>
  A report that is made at all lists exactly the capabilities of the machine: a tool counts when
  it is on the path and runs, a package when it imports, the device when PyTorch imports and sees it.
\<close>

theorem capabilities_are_those_of_the_machine:
  assumes "collect m = Inr r"
  defines "tool \<equiv> tool_found m" and "device \<equiv> package_found m ''torch'' \<and> ma_cuda_available m"
  shows "map (\<lambda>(label, possible, _). (label, possible)) (capabilities r) =
    [(''Build the portable C++ runtime'', tool ''cmake''),
     (''Run the C++ tests under sanitizers'', tool ''cmake'' \<and> tool ''clang++''),
     (''Run the Python test suite'', package_found m ''torch''),
     (''Run the reference operators'', package_found m ''torch''),
     (''Fine-tune with LoRA'', package_found m ''peft''), (''Compile the CUDA kernels'', tool ''nvcc''),
     (''Run the CUDA tests'', device), (''Benchmark the CUDA kernels'', device),
     (''Profile with Nsight'', device \<and> tool ''nsys'')]"
proof -
  obtain tools packages where parts:
      "each (\<lambda>(name, note). probe m name [name, ''--version''] note) TOOLS = Inr tools"
      "each (python_package m) PACKAGES = Inr packages" "re_tools r = tools" "re_packages r = packages"
      "re_toolkit r = list_ex (\<lambda>t. to_name t = ''nvcc'' \<and> to_available t) tools" "re_device_visible r = device"
    using assms(1) by (auto simp: collect_def rbind_eq_Inr device_def package_found_def split: import_attempt.splits)
  have "list_all2 (\<lambda>(name, note) t. to_name t = name \<and> to_available t = tool_found m name) TOOLS tools"
    using each_ok [OF parts(1)] probe_ok by (auto elim!: list_all2_mono)
  then have named: "map (\<lambda>t. (to_name t, to_available t)) tools = map (\<lambda>(name, _). (name, tool name)) TOOLS"
    unfolding tool_def by (induction rule: list_all2_induct) auto
  have "list_all2 (\<lambda>name t. to_name t = name \<and> to_available t = package_found m name) PACKAGES packages"
    using each_ok [OF parts(2)] python_package_ok by (auto elim!: list_all2_mono)
  then have packages: "map (\<lambda>t. (to_name t, to_available t)) packages = map (\<lambda>name. (name, package_found m name)) PACKAGES"
    by (induction rule: list_all2_induct) auto
  have "list_ex (\<lambda>t. to_name t = ''nvcc'' \<and> to_available t) tools
      = list_ex (\<lambda>(name, found). name = ''nvcc'' \<and> found) (map (\<lambda>t. (to_name t, to_available t)) tools)"
    by (induction tools) auto
  then have "re_toolkit r = tool ''nvcc''"
    unfolding parts(5) named by (simp add: TOOLS_def)
  then show ?thesis
    unfolding capabilities_def Let_def availability_def parts(3,4,6) named packages
    by (simp add: TOOLS_def PACKAGES_def)
qed

text \<open>Output that cannot be decoded, or a package that fails with anything but \<open>ImportError\<close>, ends the report.\<close>

lemma broken_package_ends_the_report:
  assumes "\<forall>name. \<not> ma_which m name" "ma_import m ''torch'' = Import_Raises e"
  shows "environment_report m = Inl e"
proof -
  have "\<exists>ts. each (\<lambda>(name, note). probe m name [name, ''--version''] note) xs = Inr ts" for xs
    using assms(1) by (induction xs) (auto simp: probe_def)
  then obtain ts where "each (\<lambda>(name, note). probe m name [name, ''--version''] note) TOOLS = Inr ts"
    by blast
  then show ?thesis
    using assms(2) by (simp add: environment_report_def collect_def PACKAGES_def python_package_def)
qed

definition bare_machine :: machine where
  "bare_machine = \<lparr>ma_which = \<lambda>name. name = ''cmake'', ma_run = \<lambda>_. Ran ''cmake version 3'' [],
     ma_import = \<lambda>name. if name = ''torch'' then Imported None else Not_Found, ma_cuda_available = False,
     ma_device_name = [], ma_system = ''Linux'', ma_release = ''6'', ma_machine = ''x86_64'', ma_processor = [],
     ma_python = ''3.12''\<rparr>"

theorem capabilities_are_those_of_the_machine_witness:
  "\<exists>r. collect bare_machine = Inr r \<and> map (\<lambda>(_, possible, _). possible) (capabilities r) =
     [True, False, True, True, False, False, False, False, False]"
proof -
  obtain r where r: "collect bare_machine = Inr r"
    by (simp add: collect_def bare_machine_def TOOLS_def PACKAGES_def probe_def python_package_def Let_def)
  have "map snd (map (\<lambda>(label, possible, _). (label, possible)) (capabilities r)) =
     [True, False, True, True, False, False, False, False, False]"
    unfolding capabilities_are_those_of_the_machine [OF r]
    by (simp add: bare_machine_def tool_found_def package_found_def)
  then show ?thesis
    using r by (auto simp: comp_def case_prod_unfold)
qed

end
