(* ===== verification/Runner_Setup.thy ===== *)
theory Runner_Setup
  imports Runners
begin

text \<open>
  The rest of \<open>python/cudaforge/runners.py\<close> and the description in \<open>config.py\<close>: constructing and
  warming up the runners, and what they say of themselves. Loading a model is a parameter; so
  is how devices, dtypes and floats print.
\<close>

section \<open>The echo runner\<close>

record echo_settings =
  es_per_token :: real
  es_overhead :: real

definition EchoRunner :: "real \<Rightarrow> real \<Rightarrow> echo_settings" where
  "EchoRunner per_token_seconds fixed_overhead = \<lparr>es_per_token = per_token_seconds, es_overhead = fixed_overhead\<rparr>"

text \<open>
  How long \<open>generate\<close> sleeps before it makes its results: \<open>time.sleep\<close> raises \<open>ValueError\<close> for a
  negative time and a zero one is not slept.
\<close>

definition sleep :: "real \<Rightarrow> real result" where
  "sleep s = (if s < 0 then Inl ValueError else Inr s)"

definition echo_sleeps :: "echo_settings \<Rightarrow> generation_config list \<Rightarrow> real result" where
  "echo_sleeps r settings =
     (let tokens = (case settings of [] \<Rightarrow> 1 | s # rest \<Rightarrow> fold max (map gc_max_new_tokens rest) (gc_max_new_tokens s)) in
      rbind (if es_overhead r \<noteq> 0 then sleep (es_overhead r) else Inr 0) (\<lambda>a.
      rbind (if es_per_token r \<noteq> 0 then sleep (es_per_token r * of_int tokens) else Inr 0) (\<lambda>b. Inr (a + b))))"

text \<open>\<open>generate\<close> with its sleeps: the time and the results.\<close>

definition echo_timed ::
  "echo_settings \<Rightarrow> (string \<Rightarrow> string) \<Rightarrow> string list \<Rightarrow> generation_config list
     \<Rightarrow> (real \<times> generation_result list) result" where
  "echo_timed r hexdigest prompts settings =
     rbind (echo_sleeps r settings) (\<lambda>t.
     rbind (echo_generate hexdigest prompts settings) (\<lambda>rs. Inr (t, rs)))"

text \<open>\<open>warmup\<close> of either runner calls \<open>generate\<close> and drops what it returns.\<close>

definition warmup_setting :: generation_config where
  "warmup_setting = gc_defaults\<lparr>gc_max_new_tokens := 1\<rparr>"

definition warmup ::
  "(string list \<Rightarrow> generation_config list \<Rightarrow> 'r result) \<Rightarrow> int \<Rightarrow> unit result" where
  "warmup generate iterations =
     rfold (\<lambda>_ _. rbind (generate [''warmup''] [warmup_setting]) (\<lambda>_. Inr ())) [1..iterations] ()"

definition echo_description :: "(real \<Rightarrow> string) \<Rightarrow> echo_settings \<Rightarrow> string" where
  "echo_description str_float r =
     ''EchoRunner(per_token='' @ str_float (es_per_token r) @ ''s, overhead='' @ str_float (es_overhead r) @ ''s)''"

section \<open>The transformers runner\<close>

record ('d, 'y, 'm) hf_runner =
  hr_config :: engine_config
  hr_device :: 'd
  hr_dtype :: 'y
  hr_model :: 'm
  hr_tokenizer :: hf_tokenizer_settings

text \<open>
  The constructor with an optional model and tokenizer; \<open>load_tokenizer\<close> and \<open>load_model\<close> are the
  library's, the model already moved to the device.
\<close>

definition TransformersRunner ::
  "('d, 'y) torch_env \<Rightarrow> (string \<Rightarrow> hf_tokenizer_settings result) \<Rightarrow> (string \<Rightarrow> 'y \<Rightarrow> 'd \<Rightarrow> 'm result)
     \<Rightarrow> engine_config \<Rightarrow> 'm option \<Rightarrow> hf_tokenizer_settings option \<Rightarrow> ('d, 'y, 'm) hf_runner result" where
  "TransformersRunner te load_tokenizer load_model c model tokenizer =
     rbind (resolve_device te c) (\<lambda>device.
     rbind (resolve_dtype te c) (\<lambda>dtype.
       case (model, tokenizer) of
         (Some m, Some t) \<Rightarrow>
           Inr \<lparr>hr_config = c, hr_device = device, hr_dtype = dtype, hr_model = m, hr_tokenizer = configure_tokenizer t\<rparr>
       | _ \<Rightarrow>
           rbind (load_tokenizer (ec_model_name c)) (\<lambda>t.
           rbind (load_model (ec_model_name c) dtype device) (\<lambda>m.
             Inr \<lparr>hr_config = c, hr_device = device, hr_dtype = dtype, hr_model = m,
                  hr_tokenizer = configure_tokenizer t\<rparr>))))"

definition hf_description :: "('d \<Rightarrow> string) \<Rightarrow> ('y \<Rightarrow> string) \<Rightarrow> ('d, 'y, 'm) hf_runner \<Rightarrow> string" where
  "hf_description str_device str_dtype r =
     ''TransformersRunner(model='' @ ec_model_name (hr_config r) @ '', device='' @ str_device (hr_device r)
     @ '', dtype='' @ str_dtype (hr_dtype r) @ '')''"

text \<open>\<open>EngineConfig.describe\<close>\<close>

definition describe :: "('d, 'y) torch_env \<Rightarrow> ('d \<Rightarrow> string) \<Rightarrow> ('y \<Rightarrow> string) \<Rightarrow> engine_config \<Rightarrow> string result" where
  "describe te str_device str_dtype c =
     rbind (resolve_device te c) (\<lambda>device.
     rbind (resolve_dtype te c) (\<lambda>dtype.
       Inr (''model='' @ ec_model_name c @ '' device='' @ str_device device @ '' dtype='' @ str_dtype dtype
            @ '' max_batch_size='' @ str_int (ec_max_batch_size c) @ '' max_wait_us='' @ str_int (ec_max_wait_us c)
            @ '' queue_capacity='' @ str_int (ec_queue_capacity c) @ '' streams='' @ str_int (ec_cuda_streams c))))"

section \<open>What follows\<close>

text \<open>An echo runner with non-negative times returns one result for each prompt, and warms up.\<close>

lemma echo_sleeps_ok:
  assumes "0 \<le> es_per_token r" "0 \<le> es_overhead r" "\<forall>s \<in> set settings. 0 \<le> gc_max_new_tokens s"
  obtains t where "echo_sleeps r settings = Inr t" "0 \<le> t"
proof -
  have "0 \<le> fold max (map gc_max_new_tokens rest) (gc_max_new_tokens s)" if "settings = s # rest" for s rest
  proof -
    have "x \<le> fold max xs x" for x :: int and xs
      by (induction xs arbitrary: x) (auto intro: order_trans [OF max.cobounded2])
    with that assms(3) show ?thesis
      by (metis list.set_intros(1) order_trans)
  qed
  then have "0 \<le> (case settings of [] \<Rightarrow> 1 | s # rest \<Rightarrow> fold max (map gc_max_new_tokens rest) (gc_max_new_tokens s))"
    by (auto split: list.split)
  then have "0 \<le> es_per_token r * real_of_int (case settings of [] \<Rightarrow> 1 | s # rest \<Rightarrow> fold max (map gc_max_new_tokens rest) (gc_max_new_tokens s))"
    using assms(1) by (intro mult_nonneg_nonneg) simp_all
  with assms(2) that show ?thesis
    by (cases "es_overhead r = 0"; cases "es_per_token r = 0")
      (simp_all add: echo_sleeps_def sleep_def Let_def)
qed

lemma echo_warms_up:
  assumes "0 \<le> es_per_token r" "0 \<le> es_overhead r"
  shows "warmup (echo_timed r hexdigest) iterations = Inr ()"
proof -
  obtain t where "echo_sleeps r [warmup_setting] = Inr t"
    using echo_sleeps_ok [OF assms, of "[warmup_setting]"] by (auto simp: warmup_setting_def)
  then have "rbind (echo_timed r hexdigest [''warmup''] [warmup_setting]) (\<lambda>_. Inr ()) = Inr ()"
    by (simp add: echo_timed_def echo_generate_def Let_def)
  then have "rfold (\<lambda>_ _. rbind (echo_timed r hexdigest [''warmup''] [warmup_setting]) (\<lambda>_. Inr ())) xs () = Inr ()" for xs :: "int list"
    by (induction xs) simp_all
  then show ?thesis
    by (simp add: warmup_def)
qed

text \<open>However a runner was made, its tokenizer pads on the left, with a token whenever there is one.\<close>

lemma runner_pads_left:
  assumes "TransformersRunner te load_tokenizer load_model c model tokenizer = Inr r"
  shows "ht_padding_side (hr_tokenizer r) = ''left''
    \<and> (ht_pad_token (hr_tokenizer r) = None \<longrightarrow> ht_eos_token (hr_tokenizer r) = None)"
proof -
  obtain t where "hr_tokenizer r = configure_tokenizer t"
    using assms by (cases model; cases tokenizer) (auto simp: TransformersRunner_def rbind_eq_Inr)
  then show ?thesis
    by (cases "ht_pad_token t") (simp_all add: configure_tokenizer_def Let_def)
qed

text \<open>
  The model is asked to sample by the settings of the first request of a batch: of the others
  only the numbers of tokens matter, and nobody's seed does.
\<close>

lemma batch_samples_by_its_first_request:
  assumes "map gc_max_new_tokens rest = map gc_max_new_tokens rest'"
  shows "hf_run hf prompts (first # rest) = hf_run hf prompts (first\<lparr>gc_seed := seed\<rparr> # rest')"
proof -
  have cut: "cut_rows hf n rows masks xs = cut_rows hf n rows masks ys"
    if "map gc_max_new_tokens xs = map gc_max_new_tokens ys" for n rows masks xs ys
    using that
  proof (induction rows arbitrary: masks xs ys)
    case Nil
    then show ?case
      by (cases xs; cases ys) simp_all
  next
    case (Cons row rows)
    show ?case
    proof (cases xs)
      case x: (Cons x xs')
      with Cons.prems obtain y ys' where y: "ys = y # ys'" "gc_max_new_tokens x = gc_max_new_tokens y"
          "map gc_max_new_tokens xs' = map gc_max_new_tokens ys'"
        by (cases ys) auto
      show ?thesis
      proof (cases masks)
        case m: (Cons att ms)
        show ?thesis
          unfolding x y(1) m cut_rows.simps Cons.IH [OF y(3)] y(2) by (rule refl)
      qed (simp add: x y)
    next
      case Nil
      with Cons.prems show ?thesis
        by (cases ys) simp_all
    qed
  qed
  have "batch_sampling (first # rest) = batch_sampling (first\<lparr>gc_seed := seed\<rparr> # rest')"
    using assms by (simp add: batch_sampling_def greedy_def)
  moreover have "cut_rows hf n rows masks (first # rest) = cut_rows hf n rows masks (first\<lparr>gc_seed := seed\<rparr> # rest')" for n rows masks
    by (rule cut) (simp add: assms)
  ultimately show ?thesis
    unfolding hf_run_def by simp
qed

end
