(* ===== verification/Lora_Setup.thy ===== *)
theory Lora_Setup
  imports Lora Training_Config Py_Text
begin

text \<open>
  The rest of \<open>training/lora.py\<close>: what the PEFT library is asked for, and the descriptions. PEFT
  and the format of floats are parameters.
\<close>

text \<open>The format \<open>{n:,}\<close>\<close>

definition commas :: "nat \<Rightarrow> string" where
  "commas n = rev (join '','' (chunks 3 (rev (str_nat n))))"

definition describe_parameters :: "(nat \<Rightarrow> real \<Rightarrow> string) \<Rightarrow> (nat \<times> bool) list \<Rightarrow> string" where
  "describe_parameters fixed ps =
     (let (trainable, total) = count_parameters ps;
          share = (if total \<noteq> 0 then 100 * real trainable / real total else 0)
      in ''trainable '' @ commas trainable @ '' / '' @ commas total @ '' parameters ('' @ fixed 3 share @ ''%)'')"

definition extra_repr :: "(nat \<Rightarrow> real \<Rightarrow> string) \<Rightarrow> lora_layer \<Rightarrow> string" where
  "extra_repr fixed l =
     ''in_features='' @ str_nat (ll_in l) @ '', out_features='' @ str_nat (ll_out l)
     @ '', rank='' @ str_nat (ll_rank l) @ '', scaling='' @ fixed 3 (ll_scaling l)"

text \<open>The arguments of \<open>peft.LoraConfig\<close>\<close>

record peft_config =
  pc_task_type :: string
  pc_r :: int
  pc_lora_alpha :: int
  pc_lora_dropout :: real
  pc_target_modules :: "string list"
  pc_bias :: string

definition peft_config_of :: "lora_config \<Rightarrow> peft_config" where
  "peft_config_of c =
     \<lparr>pc_task_type = ''CAUSAL_LM'', pc_r = lc_rank c, pc_lora_alpha = lc_alpha c,
      pc_lora_dropout = lc_dropout c, pc_target_modules = lc_target_modules c, pc_bias = lc_bias c\<rparr>"

text \<open>
  The adapted model and the line that is logged. \<open>import_peft\<close> is how importing the library went;
  nothing is caught.
\<close>

definition attach_lora ::
  "unit result \<Rightarrow> ('m \<Rightarrow> peft_config \<Rightarrow> 'm result) \<Rightarrow> ('m \<Rightarrow> (nat \<times> bool) list) \<Rightarrow> (nat \<Rightarrow> real \<Rightarrow> string)
     \<Rightarrow> 'm \<Rightarrow> lora_config \<Rightarrow> ('m \<times> string) result" where
  "attach_lora import_peft get_peft_model parameters fixed model c =
     rbind import_peft (\<lambda>_.
     rbind (get_peft_model model (peft_config_of c)) (\<lambda>adapted.
       Inr (adapted, ''attached LoRA: '' @ describe_parameters fixed (parameters adapted))))"

section \<open>What follows\<close>

text \<open>Without the commas a count reads as the number.\<close>

lemma filter_join: "c \<notin> set (concat ls) \<Longrightarrow> filter (\<lambda>x. x \<noteq> c) (join [c] ls) = concat ls"
  by (induction "[c]" ls rule: join.induct) (auto intro!: filter_True)

lemma digit_not_comma: "m < 10 \<Longrightarrow> CHR '','' \<noteq> digit m"
proof
  assume "m < 10" "CHR '','' = digit m"
  then have "of_char (CHR '','') = (48 + m :: nat)"
    by (simp add: digit_def)
  then show False
    by simp
qed

lemma shown_nat_is_digits: "CHR '','' \<notin> set (str_nat n)"
proof (induction n rule: str_nat.induct)
  case (1 n)
  then show ?case
    by (subst str_nat.simps) (auto simp: digit_not_comma)
qed

lemma commas_read_back: "filter (\<lambda>c. c \<noteq> CHR '','') (commas n) = str_nat n"
proof -
  have chunks: "concat (chunks 3 xs) = xs" for xs :: string
    by (induction "3 :: nat" xs rule: chunks.induct) (subst chunks.simps, simp)
  have "CHR '','' \<notin> set (concat (chunks 3 (rev (str_nat n))))"
    unfolding chunks using shown_nat_is_digits [of n] by simp
  then have "filter (\<lambda>c. c \<noteq> CHR '','') (join '','' (chunks 3 (rev (str_nat n)))) = rev (str_nat n)"
    using filter_join chunks by metis
  then show ?thesis
    unfolding commas_def by (simp flip: rev_filter)
qed

text \<open>An adapted model is one that PEFT made for the configured rank and modules; no other is returned.\<close>

lemma attached_by_peft:
  assumes "attach_lora import_peft get_peft_model parameters fixed model c = Inr (adapted, line)"
  shows "import_peft = Inr () \<and> get_peft_model model (peft_config_of c) = Inr adapted
    \<and> pc_r (peft_config_of c) = lc_rank c \<and> pc_target_modules (peft_config_of c) = lc_target_modules c"
  using assms by (auto simp: attach_lora_def rbind_eq_Inr peft_config_of_def)

end
