(* ===== verification/Cli_Bench.thy ===== *)
theory Cli_Bench
  imports Cli Exposition Continuous Ops
begin

text \<open>
  \<open>cudaforge-bench\<close> from its parsed arguments to what it prints (\<open>bench\<close> in \<open>cli.py\<close>). The
  formats of floats are parameters; JSON is the value that \<open>json.dump\<close> is given.
\<close>

section \<open>The run\<close>

record bench_args = cli_args +
  ba_clients :: int
  ba_requests_per_client :: int
  ba_max_new_tokens :: int
  ba_json :: bool

text \<open>
  What the engine did while it was driven: the outcome of each request, the wall time, and the
  snapshot and statistics read before the engine was shut down. \<open>_drive\<close> makes the settings of
  the requests first, and \<open>range\<close> of a negative number is empty.
\<close>

record engine_run =
  er_generate :: "nat \<Rightarrow> nat \<Rightarrow> generation_config \<Rightarrow> generate_outcome"
  er_wall :: real
  er_snapshot :: metrics_snapshot
  er_stats :: continuous_stats

definition drive_engine :: "engine_run \<Rightarrow> int \<Rightarrow> int \<Rightarrow> int \<Rightarrow> load_result result" where
  "drive_engine run clients per_client tokens =
     rbind (GenerationConfig (gc_defaults\<lparr>gc_max_new_tokens := tokens\<rparr>)) (\<lambda>generation.
       Inr (drive (er_wall run)
         (map (\<lambda>client. map (\<lambda>i. er_generate run client i generation) [0..<nat per_client]) [0..<nat clients])))"

section \<open>The payload\<close>

datatype json =
  JString string | JInt int | JFloat real | JBool bool | JObject "(string \<times> json) list"

definition metric_json :: "metric_value \<Rightarrow> json" where
  "metric_json v =
     (case v of MInt i \<Rightarrow> JInt i | MFloat x \<Rightarrow> JFloat x
      | MExtra kv \<Rightarrow> JObject (map (\<lambda>(k, x). (k, JString (str_extra x))) kv))"

text \<open>\<open>round(x, 4)\<close>\<close>

definition round4 :: "real \<Rightarrow> real" where
  "round4 x = of_int (round_even (x * 10 ^ 4)) / 10 ^ 4"

definition scheduling_json :: "continuous_stats \<Rightarrow> json" where
  "scheduling_json s =
     JObject [(''decode_steps'', JInt (cs_decode_steps s)), (''admissions'', JInt (cs_admissions s)),
              (''completions'', JInt (cs_completions s)), (''utilisation'', JFloat (stats_utilisation s)),
              (''max_observed_batch'', JInt (cs_max_observed_batch s))]"

definition bench_payload ::
  "backend_report \<Rightarrow> engine_config \<Rightarrow> string \<Rightarrow> bench_args \<Rightarrow> load_result \<Rightarrow> metrics_snapshot
     \<Rightarrow> continuous_stats option \<Rightarrow> (string \<times> json) list" where
  "bench_payload rep c device a result snapshot scheduling =
     [(''backend'', JString (report_str rep)),
      (''using_custom_cuda_kernels'', JBool (using_custom_kernels rep)),
      (''config'', JObject
        [(''model'', JString (ec_model_name c)), (''device'', JString device),
         (''max_batch_size'', JInt (ec_max_batch_size c)), (''max_wait_us'', JInt (ec_max_wait_us c)),
         (''worker_threads'', JInt (ec_worker_threads c)),
         (''scheduler'', JString (if scheduling \<noteq> None then ''continuous'' else ''static''))]),
      (''load'', JObject
        [(''clients'', JInt (ba_clients a)), (''requests_per_client'', JInt (ba_requests_per_client a)),
         (''max_new_tokens'', JInt (ba_max_new_tokens a)), (''completed'', JInt (int (lr_completed result))),
         (''failed'', JInt (int (lr_failed result))), (''rejected'', JInt (int (lr_rejected result))),
         (''wall_seconds'', JFloat (round4 (lr_wall_seconds result)))]),
      (''metrics'', JObject (map (\<lambda>(k, v). (k, metric_json v)) (to_dict snapshot)))]
     @ (case scheduling of None \<Rightarrow> [] | Some s \<Rightarrow> [(''scheduling'', scheduling_json s)])"

section \<open>The table\<close>

text \<open>\<open>fixed n x\<close> is the format \<open>.nf\<close>, \<open>percent\<close> the format \<open>.1%\<close>.\<close>

definition bench_lines ::
  "(nat \<Rightarrow> real \<Rightarrow> string) \<Rightarrow> (real \<Rightarrow> string) \<Rightarrow> backend_report \<Rightarrow> engine_config \<Rightarrow> string \<Rightarrow> bench_args
     \<Rightarrow> load_result \<Rightarrow> metrics_snapshot \<Rightarrow> continuous_stats option \<Rightarrow> string list" where
  "bench_lines fixed percent rep c device a result snapshot scheduling =
     [report_str rep,
      ''  model            '' @ ec_model_name c @ ''  device='' @ device,
      ''  scheduler        '' @ (if scheduling \<noteq> None then ''continuous'' else ''static''),
      ''  batching         max_batch_size='' @ str_int (ec_max_batch_size c) @ '' max_wait_us='' @ str_int (ec_max_wait_us c),
      ''  load             '' @ str_int (ba_clients a) @ '' clients x '' @ str_int (ba_requests_per_client a) @ '' requests'',
      [],
      ''  completed        '' @ str_nat (lr_completed result),
      ''  failed           '' @ str_nat (lr_failed result),
      ''  rejected         '' @ str_nat (lr_rejected result),
      ''  wall time        '' @ fixed 3 (lr_wall_seconds result) @ '' s'',
      ''  throughput       '' @ fixed 1 (requests_per_second snapshot) @ '' req/s'',
      ''  tokens/s         '' @ fixed 1 (tokens_per_second snapshot)]
     @ (case scheduling of
          None \<Rightarrow>
            [''  avg batch size   '' @ fixed 2 (average_batch_size snapshot),
             ''  batches          '' @ str_int (batches_processed snapshot) @ '' (size='' @ str_int (batches_closed_by_size snapshot)
               @ '', timeout='' @ str_int (batches_closed_by_timeout snapshot) @ '')'']
        | Some s \<Rightarrow>
            [''  decode steps     '' @ str_int (cs_decode_steps s),
             ''  row occupancy    '' @ percent (stats_utilisation s),
             ''  peak batch       '' @ str_int (cs_max_observed_batch s)])
     @ [''  queue delay p99  '' @ fixed 2 (queue_delay_p99_ms snapshot) @ '' ms'',
        ''  latency p50/p95/p99  '' @ fixed 2 (latency_p50_ms snapshot) @ '' / ''
          @ fixed 2 (latency_p95_ms snapshot) @ '' / '' @ fixed 2 (latency_p99_ms snapshot) @ '' ms'']"

section \<open>The command\<close>

datatype bench_output = Dumped "(string \<times> json) list" | Printed "string list"

text \<open>
  After the engine was built: the output with exit status 0, or what ended the command. The
  statistics are those of a continuous engine only.
\<close>

definition bench ::
  "(nat \<Rightarrow> real \<Rightarrow> string) \<Rightarrow> (real \<Rightarrow> string) \<Rightarrow> ('d \<Rightarrow> string) \<Rightarrow> ('d, 'y) torch_env \<Rightarrow> backend
     \<Rightarrow> engine_config \<Rightarrow> bench_args \<Rightarrow> engine_run \<Rightarrow> (bench_output \<times> int) result" where
  "bench fixed percent str_device te be c a run =
     (let rep = backend_report be in
      rbind (drive_engine run (ba_clients a) (ba_requests_per_client a) (ba_max_new_tokens a)) (\<lambda>result.
      let scheduling = (if ca_continuous a then Some (er_stats run) else None) in
      rbind (resolve_device te c) (\<lambda>device.
        if ba_json a
        then Inr (Dumped (bench_payload rep c (str_device device) a result (er_snapshot run) scheduling), 0)
        else Inr (Printed (bench_lines fixed percent rep c (str_device device) a result (er_snapshot run) scheduling), 0))))"

section \<open>What the report counts\<close>

text \<open>The three counts of a payload.\<close>

definition reported_requests :: "(string \<times> json) list \<Rightarrow> int" where
  "reported_requests payload =
     (case map_of payload ''load'' of
        Some (JObject l) \<Rightarrow>
          sum_list (map (\<lambda>k. case map_of l k of Some (JInt i) \<Rightarrow> i | _ \<Rightarrow> 0) [''completed'', ''failed'', ''rejected''])
      | _ \<Rightarrow> 0)"

lemma payload_counts:
  "reported_requests (bench_payload rep c device a result snapshot scheduling) = int (counted result)"
  by (simp add: reported_requests_def bench_payload_def counted_def)

text \<open>
  If no request ends with an exception other than the engine's refusal, the report accounts for
  every request: the clients times the requests of each.
\<close>

theorem report_accounts_for_every_request:
  assumes "bench fixed percent str_device te be c a run = Inr (Dumped payload, status)"
    and "0 \<le> ba_clients a" "0 \<le> ba_requests_per_client a"
    and "\<forall>client i g e. er_generate run client i g = Inl e \<longrightarrow> e = EngineClosedError"
  shows "status = 0 \<and> reported_requests payload = ba_clients a * ba_requests_per_client a"
proof -
  obtain result device where r:
      "drive_engine run (ba_clients a) (ba_requests_per_client a) (ba_max_new_tokens a) = Inr result"
      "payload = bench_payload (backend_report be) c (str_device device) a result (er_snapshot run)
         (if ca_continuous a then Some (er_stats run) else None)" "status = 0"
    using assms(1) by (auto simp: bench_def Let_def rbind_eq_Inr split: if_splits)
  then obtain g where g: "result = drive (er_wall run)
      (map (\<lambda>client. map (\<lambda>i. er_generate run client i g) [0..<nat (ba_requests_per_client a)]) [0..<nat (ba_clients a)])"
    by (auto simp: drive_engine_def rbind_eq_Inr)
  have alive: "client_tally (map (\<lambda>i. er_generate run client i g) is) \<noteq> None" for client "is"
    using assms(4) by (auto simp: client_tally_dies simp del: not_None_eq)
  have "counted result = nat (ba_clients a) * nat (ba_requests_per_client a)"
    unfolding g drive_counts by (simp add: filter_map comp_def alive sum_list_triv del: not_None_eq)
  then show ?thesis
    using assms(2,3) r(2,3) by (simp add: payload_counts)
qed

text \<open>Every second request of each client is refused, the others are answered.\<close>

definition half_refused :: engine_run where
  "half_refused =
     \<lparr>er_generate = \<lambda>client i _. if odd i then Inl EngineClosedError
        else Inr \<lparr>rs_request_id = [], rs_text = ''out'', rs_prompt_tokens = 1, rs_generated_tokens = 1,
                  rs_queue_time = 0, rs_inference_time = 0, rs_batch_size = 1, rs_error = None, rs_metadata = []\<rparr>,
      er_wall = 1, er_snapshot = snapshot_at (MetricsRegistry 0) 1, er_stats = ContinuousStats\<rparr>"

definition cpu_torch :: "(string, string) torch_env" where
  "cpu_torch = \<lparr>te_device = Inr, te_type = (\<lambda>d. d), te_attr = Inr, te_cuda_available = False,
     te_mps_available = False, te_bf16_supported = False, te_bfloat16 = ''bfloat16'',
     te_float16 = ''float16'', te_float32 = ''float32''\<rparr>"

definition cpu_backend :: backend where
  "cpu_backend = \<lparr>be_import = NotBuilt, be_cuda_available = False, be_device_name = [], be_grad_enabled = True,
     be_extension = \<lparr>ex_registered = \<lambda>_. False, ex_rmsnorm = \<lambda>x _ _. x, ex_softmax = \<lambda>x. x,
       ex_lora_linear = \<lambda>x _ _ _ _. x, ex_fused = \<lambda>x r _ _. (x, r), ex_silu = \<lambda>x. x, ex_gelu = \<lambda>x. x,
       ex_swiglu = \<lambda>g _. g, ex_sum = \<lambda>x. x, ex_quantize = \<lambda>x. (x, x), ex_dequantize = \<lambda>q _. q\<rparr>\<rparr>"

definition two_clients :: bench_args where
  "two_clients =
     \<lparr>ca_config = None, ca_model = ''sshleifer/tiny-gpt2'', ca_max_batch_size = 16,
      ca_max_wait_us = 5000, ca_queue_capacity = 1024, ca_worker_threads = 4,
      ca_device = ''auto'', ca_echo_runner = True, ca_continuous = False,
      ba_clients = 2, ba_requests_per_client = 3, ba_max_new_tokens = 8, ba_json = True\<rparr>"

theorem report_accounts_for_every_request_witness:
  "\<exists>payload. bench (\<lambda>_ _. []) (\<lambda>_. []) id cpu_torch cpu_backend ec_defaults two_clients half_refused
     = Inr (Dumped payload, 0) \<and> reported_requests payload = 6"
proof -
  have args: "ba_clients two_clients = 2" "ba_requests_per_client two_clients = 3" "ba_max_new_tokens two_clients = 8"
      "ba_json two_clients" "\<not> ca_continuous two_clients"
    by (simp_all add: two_clients_def)
  obtain payload where payload: "bench (\<lambda>_ _. []) (\<lambda>_. []) id cpu_torch cpu_backend ec_defaults two_clients half_refused
      = Inr (Dumped payload, 0)"
    by (simp add: bench_def drive_engine_def GenerationConfig_def gc_defaults_def args resolve_device_def
        ec_defaults_def cpu_torch_def Let_def)
  have refused: "\<forall>client i g e. er_generate half_refused client i g = Inl e \<longrightarrow> e = EngineClosedError"
    by (simp add: half_refused_def)
  have "reported_requests payload = ba_clients two_clients * ba_requests_per_client two_clients"
    by (rule report_accounts_for_every_request [OF payload _ _ refused, THEN conjunct2]) (simp_all add: args)
  with payload show ?thesis
    by (auto simp: args)
qed

end
