(* ===== verification/Engine_Client.thy ===== *)
theory Engine_Client
  imports Engine_Properties Continuous_Service Runner_Setup
begin

text \<open>
  The calls of \<open>python/cudaforge/engine.py\<close> that block their caller, for any engine of the protocol:
  submitting, and waiting for a future while time passes for the engine. Then \<open>InferenceEngine\<close>:
  its construction, and its answers to a caller that waits.
\<close>

section \<open>Waiting\<close>

text \<open>\<open>Future.result(timeout)\<close>, of the state the future has when the wait ends\<close>

definition future_result :: "future_state \<Rightarrow> response result" where
  "future_result f =
     (case f of Result r \<Rightarrow> Inr r | Failed err \<Rightarrow> Inl err
      | Cancelled \<Rightarrow> Inl CancelledError | Pending \<Rightarrow> Inl TimeoutError)"

text \<open>\<open>wait h e\<close> is the engine when the wait for \<open>h\<close> that began in \<open>e\<close> is over.\<close>

record ('a, 'f, 'e) client_ops =
  co_ops_submit :: "'a \<Rightarrow> 'e \<Rightarrow> 'f result \<times> 'e"
  co_ops_wait :: "'f \<Rightarrow> 'e \<Rightarrow> 'e"
  co_ops_state :: "'f \<Rightarrow> 'e \<Rightarrow> future_state"

definition await :: "('a, 'f, 'e) client_ops \<Rightarrow> 'f \<Rightarrow> 'e \<Rightarrow> response result \<times> 'e" where
  "await c h e = (let e = co_ops_wait c h e in (future_result (co_ops_state c h e), e))"

definition generate :: "('a, 'f, 'e) client_ops \<Rightarrow> 'a \<Rightarrow> 'e \<Rightarrow> response result \<times> 'e" where
  "generate c a e =
     (case co_ops_submit c a e of (Inl err, e) \<Rightarrow> (Inl err, e) | (Inr h, e) \<Rightarrow> await c h e)"

fun submit_all :: "('a, 'f, 'e) client_ops \<Rightarrow> 'a list \<Rightarrow> 'e \<Rightarrow> 'f list result \<times> 'e" where
  "submit_all c [] e = (Inr [], e)"
| "submit_all c (a # as) e =
     (case co_ops_submit c a e of
        (Inl err, e) \<Rightarrow> (Inl err, e)
      | (Inr h, e) \<Rightarrow> (case submit_all c as e of
            (Inl err, e) \<Rightarrow> (Inl err, e)
          | (Inr hs, e) \<Rightarrow> (Inr (h # hs), e)))"

fun await_all :: "('a, 'f, 'e) client_ops \<Rightarrow> 'f list \<Rightarrow> 'e \<Rightarrow> response list result \<times> 'e" where
  "await_all c [] e = (Inr [], e)"
| "await_all c (h # hs) e =
     (case await c h e of
        (Inl err, e) \<Rightarrow> (Inl err, e)
      | (Inr r, e) \<Rightarrow> (case await_all c hs e of
            (Inl err, e) \<Rightarrow> (Inl err, e)
          | (Inr rs, e) \<Rightarrow> (Inr (r # rs), e)))"

definition generate_many :: "('a, 'f, 'e) client_ops \<Rightarrow> 'a list \<Rightarrow> 'e \<Rightarrow> response list result \<times> 'e" where
  "generate_many c as e =
     (case submit_all c as e of (Inl err, e) \<Rightarrow> (Inl err, e) | (Inr hs, e) \<Rightarrow> await_all c hs e)"

section \<open>What a waiting caller relies on\<close>

text \<open>
  \<open>cells e\<close> are the ids of the futures an engine has made, \<open>owner h e\<close> the id of one of them. Futures
  keep their ids, and a result bears the id of its future.
\<close>

locale answering_engine =
  fixes c :: "('a, 'f, 'e) client_ops" and name_of :: "'a \<Rightarrow> string"
    and ok :: "'e \<Rightarrow> bool" and known :: "'f \<Rightarrow> 'e \<Rightarrow> bool" and owner :: "'f \<Rightarrow> 'e \<Rightarrow> string" and cells :: "'e \<Rightarrow> string set"
  assumes submit_accepted: "ok e \<Longrightarrow> name_of a \<notin> cells e \<Longrightarrow> co_ops_submit c a e = (Inr h, e') \<Longrightarrow>
      ok e' \<and> known h e' \<and> owner h e' = name_of a \<and> cells e' = insert (name_of a) (cells e)"
    and submit_keeps: "ok e \<Longrightarrow> name_of a \<notin> cells e \<Longrightarrow> co_ops_submit c a e = (Inr h', e') \<Longrightarrow> known h e \<Longrightarrow>
      known h e' \<and> owner h e' = owner h e"
    and wait_keeps: "ok e \<Longrightarrow> known h e \<Longrightarrow> known h (co_ops_wait c h' e) \<and> owner h (co_ops_wait c h' e) = owner h e"
    and wait_ok: "ok e \<Longrightarrow> ok (co_ops_wait c h' e)"
    and own_result: "ok e \<Longrightarrow> known h e \<Longrightarrow> co_ops_state c h e = Result r \<Longrightarrow> rs_request_id r = owner h e"
begin

lemma await_own:
  assumes "ok e" "known h e" "await c h e = (Inr r, e')"
  shows "rs_request_id r = owner h e" "ok e'" "\<And>k. known k e \<Longrightarrow> known k e' \<and> owner k e' = owner k e"
proof -
  have e': "e' = co_ops_wait c h e" and "co_ops_state c h e' = Result r"
    using assms(3) by (auto simp: await_def Let_def future_result_def split: future_state.splits)
  then show "rs_request_id r = owner h e" "ok e'" "\<And>k. known k e \<Longrightarrow> known k e' \<and> owner k e' = owner k e"
    using own_result [of e' h r] wait_keeps [OF assms(1)] wait_ok [OF assms(1)] assms(2) by simp_all
qed

lemma await_all_own:
  "ok e \<Longrightarrow> (\<And>h. h \<in> set hs \<Longrightarrow> known h e) \<Longrightarrow> await_all c hs e = (Inr rs, e') \<Longrightarrow>
     map rs_request_id rs = map (\<lambda>h. owner h e) hs"
proof (induction hs arbitrary: e rs)
  case (Cons h hs)
  obtain r e1 rs' where r: "await c h e = (Inr r, e1)" and rs: "await_all c hs e1 = (Inr rs', e')" "rs = r # rs'"
    using Cons.prems(3) by (auto split: prod.splits sum.splits)
  note own = await_own [OF Cons.prems(1) Cons.prems(2) [OF list.set_intros(1)] r]
  have later: "known k e1 \<and> owner k e1 = owner k e" if "k \<in> set hs" for k
    using own(3) Cons.prems(2) [of k] that by simp
  have "map rs_request_id rs' = map (\<lambda>k. owner k e1) hs"
    using later by (intro Cons.IH [OF own(2) _ rs(1)]) blast
  also have "\<dots> = map (\<lambda>k. owner k e) hs"
    using later by (intro map_cong) simp_all
  finally show ?case
    using own(1) rs(2) by simp
qed simp

lemma submit_all_known:
  "ok e \<Longrightarrow> distinct (map name_of as) \<Longrightarrow> set (map name_of as) \<inter> cells e = {} \<Longrightarrow>
     submit_all c as e = (Inr hs, e') \<Longrightarrow>
     ok e' \<and> (\<forall>h\<in>set hs. known h e') \<and> map (\<lambda>h. owner h e') hs = map name_of as
     \<and> (\<forall>k. known k e \<longrightarrow> known k e' \<and> owner k e' = owner k e)"
proof (induction as arbitrary: e hs)
  case (Cons a as)
  obtain h e1 hs' where h: "co_ops_submit c a e = (Inr h, e1)" and rest: "submit_all c as e1 = (Inr hs', e')" "hs = h # hs'"
    using Cons.prems(4) by (auto split: prod.splits sum.splits)
  have fresh: "name_of a \<notin> cells e"
    using Cons.prems(3) by simp
  note 1 = submit_accepted [OF Cons.prems(1) fresh h] and keeps = submit_keeps [OF Cons.prems(1) fresh h]
  have "set (map name_of as) \<inter> cells e1 = {}"
    using Cons.prems(2,3) 1 by auto
  note 2 = Cons.IH [OF conjunct1 [OF 1] _ this rest(1)]
  show ?case
    using 1 2 keeps Cons.prems(2) rest(2) by auto
qed simp

text \<open>The answers come in the order of the prompts, each for its own request.\<close>

lemma generate_many_in_order:
  assumes "ok e" "distinct (map name_of as)" "set (map name_of as) \<inter> cells e = {}"
    and "generate_many c as e = (Inr rs, e')"
  shows "map rs_request_id rs = map name_of as"
proof -
  obtain hs e1 where 1: "submit_all c as e = (Inr hs, e1)" "await_all c hs e1 = (Inr rs, e')"
    using assms(4) by (auto simp: generate_many_def split: prod.splits sum.splits)
  note known = submit_all_known [OF assms(1-3) 1(1)]
  then have "map rs_request_id rs = map (\<lambda>h. owner h e1) hs"
    using await_all_own [OF _ _ 1(2)] by blast
  with known show ?thesis
    by simp
qed

end

section \<open>The inference engine\<close>

text \<open>
  \<open>__init__\<close>: what is built before the warm-up, whose failure the constructor does not catch. \<open>create\<close>
  stands for the batcher with its thread.
\<close>

definition InferenceEngine ::
  "engine_config option \<Rightarrow> metrics_registry option \<Rightarrow> (engine_config \<Rightarrow> 'b result) \<Rightarrow> (int \<Rightarrow> unit result) \<Rightarrow> real
     \<Rightarrow> (engine \<times> 'b) result" where
  "InferenceEngine config metrics create warm now =
     rbind (case config of Some c \<Rightarrow> Inr c | None \<Rightarrow> EngineConfig ec_defaults) (\<lambda>c.
     rbind (create c) (\<lambda>b.
     rbind (if 0 < ec_warmup_iterations c then warm (ec_warmup_iterations c) else Inr ()) (\<lambda>_.
       Inr (\<lparr>en_config = c, en_closed = False,
             en_metrics = (case metrics of Some m \<Rightarrow> m | None \<Rightarrow> MetricsRegistry now),
             en_store = [], en_futures = []\<rparr>, b))))"

text \<open>\<open>accepts\<close> is the batcher's answer to the request.\<close>

definition inference_submit :: "(request \<Rightarrow> bool) \<Rightarrow> submission \<Rightarrow> engine \<Rightarrow> nat result \<times> engine" where
  "inference_submit accepts a e =
     (case engine_submit (sub_id a) (sub_prompt a) (sub_generation a) (sub_deadline a) (sub_now a) (sub_enqueued a) e of
        Inl err \<Rightarrow> (Inl err, e)
      | Inr (h, r, e) \<Rightarrow> if accepts r then (Inr h, e) else (Inl EngineClosedError, submit_rejected (sub_id a) e))"

text \<open>The batches the workers end while a caller waits: for each the clock it reads.\<close>

definition inference_ops ::
  "(string list \<Rightarrow> generation_config list \<Rightarrow> generation_result list result) \<Rightarrow> (request \<Rightarrow> bool)
     \<Rightarrow> (nat \<Rightarrow> engine \<Rightarrow> ((nat \<Rightarrow> real) \<times> batch) list) \<Rightarrow> (submission, nat, engine) client_ops" where
  "inference_ops gen accepts work =
     \<lparr>co_ops_submit = inference_submit accepts,
      co_ops_wait = (\<lambda>h e. fold (\<lambda>(clock, b) e. execute gen clock b e) (work h e) e),
      co_ops_state = (\<lambda>h e. snd (en_store e ! h))\<rparr>"

definition engine_ok :: "engine \<Rightarrow> bool" where
  "engine_ok e \<longleftrightarrow> futures_ok e \<and> own_cells e"

lemma executions_grow:
  "futures_ok e \<Longrightarrow> own_cells e \<Longrightarrow> grows e (fold (\<lambda>(clock, b) e. execute gen clock b e) ws e)"
proof (induction ws arbitrary: e)
  case (Cons w ws)
  obtain clock b where w: "w = (clock, b)"
    by (cases w)
  note step = execute_grows [OF Cons.prems, of gen clock b]
  from grows_trans [OF step Cons.IH] grows_ok [OF step] show ?case
    by (simp add: w)
qed (simp add: grows_refl)

lemma inference_submit_accepted:
  assumes "futures_ok e" "own_cells e" "sub_id a \<notin> set (map fst (en_store e))"
    and "inference_submit accepts a e = (Inr h, e')"
  shows "grows e e'" "h < length (en_store e')" "fst (en_store e' ! h) = sub_id a"
    "set (map fst (en_store e')) = insert (sub_id a) (set (map fst (en_store e)))"
proof -
  obtain r where r: "engine_submit (sub_id a) (sub_prompt a) (sub_generation a) (sub_deadline a) (sub_now a) (sub_enqueued a) e
      = Inr (h, r, e')"
    using assms(4) by (auto simp: inference_submit_def split: sum.splits if_splits)
  from submit_grows [OF this assms(3,1,2)] show "grows e e'" "h < length (en_store e')" "fst (en_store e' ! h) = sub_id a"
    by (blast, metis lessI, blast)
  show "set (map fst (en_store e')) = insert (sub_id a) (set (map fst (en_store e)))"
    using r by (auto simp: engine_submit_def Let_def split: if_splits)
qed

lemma grows_cell: "grows e e' \<Longrightarrow> h < length (en_store e) \<Longrightarrow> h < length (en_store e') \<and> fst (en_store e' ! h) = fst (en_store e ! h)"
  unfolding grows_def by auto

interpretation waiting: answering_engine "inference_ops gen accepts work" sub_id engine_ok
    "\<lambda>h e. h < length (en_store e)" "\<lambda>h e. fst (en_store e ! h)" "\<lambda>e. set (map fst (en_store e))"
  for gen accepts work
proof (unfold_locales, goal_cases)
  case (1 e a h e')
  then show ?case
    using inference_submit_accepted [of e a accepts h e'] grows_ok [of e e']
    by (auto simp: engine_ok_def inference_ops_def)
next
  case (2 e a h' e' h)
  then show ?case
    using inference_submit_accepted(1) [of e a accepts h' e'] grows_cell [of e e' h]
    by (auto simp: engine_ok_def inference_ops_def)
next
  case (3 e h h')
  then show ?case
    using grows_cell [OF executions_grow] by (simp add: engine_ok_def inference_ops_def)
next
  case (4 e h')
  then show ?case
    using grows_ok [OF executions_grow] by (simp add: engine_ok_def inference_ops_def)
next
  case (5 e h r)
  then show ?case
    by (simp add: engine_ok_def own_cells_def inference_ops_def)
qed

text \<open>
  \<open>generate_many\<close> on the inference engine: if it returns, its responses are those of its prompts, in
  order, whatever batches the workers formed of them.
\<close>

theorem responses_follow_the_prompts:
  assumes "futures_ok e" "own_cells e" "distinct (map sub_id as)"
    and "set (map sub_id as) \<inter> set (map fst (en_store e)) = {}"
    and "generate_many (inference_ops gen accepts work) as e = (Inr rs, e')"
  shows "map rs_request_id rs = map sub_id as"
  using waiting.generate_many_in_order [of e as gen accepts work rs e'] assms by (simp add: engine_ok_def)

text \<open>A new engine keeps its configuration, has no futures, and was warmed up if the configuration asks for it.\<close>

lemma constructed_engine:
  assumes "InferenceEngine (Some c) metrics create warm now = Inr (e, b)"
  shows "en_config e = c" "en_store e = []" "futures_ok e" "own_cells e" "create c = Inr b"
    "0 < ec_warmup_iterations c \<Longrightarrow> warm (ec_warmup_iterations c) = Inr ()"
  using assms by (auto simp: InferenceEngine_def rbind_eq_Inr futures_ok_def own_cells_def)

end
