(* ===== verification/Serving_Examples.thy ===== *)
theory Serving_Examples
  imports Engine_Client Replicated_Properties Environment_Report
begin

text \<open>
  Three examples on top of the engines: \<open>examples/simple_inference.py\<close> (one prompt),
  \<open>concurrent_requests.py\<close> (the same load with and without batching) and \<open>replicated_serving.py\<close>
  (one engine per device, and where the requests went). The formats of floats are parameters:
  \<open>fixed n\<close> is \<open>.nf\<close>, \<open>percent\<close> is \<open>.0%\<close>.
\<close>

section \<open>One prompt\<close>

definition simple_config :: "string \<Rightarrow> engine_config result" where
  "simple_config model = EngineConfig (ec_defaults\<lparr>ec_model_name := model, ec_max_batch_size := 4, ec_max_wait_us := 2000\<rparr>)"

text \<open>\<open>engine c\<close> is a call of \<open>generate\<close> on an engine with its runner, made and shut down around it.\<close>

definition simple_inference ::
  "(engine_config \<Rightarrow> string \<Rightarrow> generation_config \<Rightarrow> response result) \<Rightarrow> string \<Rightarrow> string \<Rightarrow> int \<Rightarrow> response result" where
  "simple_inference engine model prompt tokens =
     rbind (simple_config model) (\<lambda>c.
     rbind (GenerationConfig (gc_defaults\<lparr>gc_max_new_tokens := tokens\<rparr>)) (\<lambda>g. engine c prompt g))"

definition simple_lines :: "(nat \<Rightarrow> real \<Rightarrow> string) \<Rightarrow> string \<Rightarrow> response \<Rightarrow> string list" where
  "simple_lines fixed prompt r =
     [[], ''prompt : '' @ prompt, ''output : '' @ rs_text r, [],
      ''request id       '' @ rs_request_id r,
      ''queue time       '' @ fixed 2 (rs_queue_time r * 1000) @ '' ms'',
      ''inference time   '' @ fixed 2 (rs_inference_time r * 1000) @ '' ms'',
      ''total latency    '' @ fixed 2 (total_latency r * 1000) @ '' ms'',
      ''batch size       '' @ str_int (rs_batch_size r)]"

section \<open>Batching against none\<close>

definition concurrent_config :: "int \<Rightarrow> int \<Rightarrow> engine_config result" where
  "concurrent_config max_batch_size wait_us =
     EngineConfig (ec_defaults\<lparr>ec_max_batch_size := max_batch_size, ec_max_wait_us := wait_us,
       ec_queue_capacity := max 1024 (max_batch_size * 4), ec_worker_threads := 4, ec_warmup_iterations := 1\<rparr>)"

text \<open>
  \<open>drive\<close> is what the clients' threads do to the engine: the wall time, and the snapshot, whose
  \<open>extra\<close> is given that time.
\<close>

definition concurrent_run ::
  "(engine_config \<Rightarrow> echo_settings \<Rightarrow> generation_config \<Rightarrow> int \<Rightarrow> int \<Rightarrow> real \<times> metrics_snapshot) \<Rightarrow> int \<Rightarrow> int \<Rightarrow> int \<Rightarrow> int
     \<Rightarrow> (real \<times> metrics_snapshot) result" where
  "concurrent_run drive clients per_client max_batch_size wait_us =
     rbind (concurrent_config max_batch_size wait_us) (\<lambda>c.
     rbind (GenerationConfig (gc_defaults\<lparr>gc_max_new_tokens := 16\<rparr>)) (\<lambda>g.
       Inr (drive c (EchoRunner (2 / 10 ^ 4) (4 / 10 ^ 3)) g clients per_client)))"

definition report_lines :: "(nat \<Rightarrow> real \<Rightarrow> string) \<Rightarrow> string \<Rightarrow> real \<times> metrics_snapshot \<Rightarrow> string list" where
  "report_lines fixed label p =
     (let (wall, s) = p in
      [[], label,
       ''  wall time         '' @ fixed 3 wall @ '' s'',
       ''  throughput        '' @ fixed 1 (requests_per_second s) @ '' req/s'',
       ''  average batch     '' @ fixed 2 (average_batch_size s),
       ''  batches           '' @ str_int (batches_processed s),
       ''  queue delay p99   '' @ fixed 2 (queue_delay_p99_ms s) @ '' ms'',
       ''  latency p50       '' @ fixed 2 (latency_p50_ms s) @ '' ms'',
       ''  latency p99       '' @ fixed 2 (latency_p99_ms s) @ '' ms''])"

text \<open>The closing remark after the ratio, a constant text, is left out.\<close>

definition concurrent_main ::
  "(nat \<Rightarrow> real \<Rightarrow> string) \<Rightarrow> (int \<Rightarrow> int \<Rightarrow> (real \<times> metrics_snapshot) result) \<Rightarrow> int \<Rightarrow> int \<Rightarrow> int \<Rightarrow> int
     \<Rightarrow> (string list \<times> int) result" where
  "concurrent_main fixed run clients per_client max_batch_size wait_us =
     rbind (run 1 wait_us) (\<lambda>unbatched.
     rbind (run max_batch_size wait_us) (\<lambda>batched.
       let before_rate = requests_per_second (snd unbatched); rate = requests_per_second (snd batched) in
       Inr ([str_int clients @ '' concurrent clients x '' @ str_int per_client @ '' requests'']
            @ report_lines fixed ''max_batch_size = 1 (batching disabled)'' unbatched
            @ report_lines fixed (''max_batch_size = '' @ str_int max_batch_size) batched
            @ (if 0 < before_rate then [[], ''throughput ratio    '' @ fixed 2 (rate / before_rate) @ ''x''] else []), 0)))"

text \<open>The queue always holds a batch, so only the batch size and the wait can be refused.\<close>

lemma concurrent_config_accepted:
  "(\<exists>c. concurrent_config b w = Inr c) \<longleftrightarrow> 0 < b \<and> 0 \<le> w"
  by (auto simp: concurrent_config_def EngineConfig_def ec_defaults_def)

section \<open>One engine per device\<close>

text \<open>What torch is, if it can be imported: whether it sees CUDA, and how many devices.\<close>

definition visible_devices :: "(bool \<times> nat) option \<Rightarrow> string list" where
  "visible_devices torch =
     (case torch of
        None \<Rightarrow> [''cpu'']
      | Some (cuda, n) \<Rightarrow> if \<not> cuda then [''cpu''] else map (\<lambda>i. ''cuda:'' @ str_nat i) [0..<n])"

definition replica_config :: "int \<Rightarrow> int \<Rightarrow> string \<Rightarrow> engine_config result" where
  "replica_config max_batch_size tokens device_name =
     rbind (GenerationConfig (gc_defaults\<lparr>gc_max_new_tokens := tokens\<rparr>)) (\<lambda>g.
       EngineConfig (ec_defaults\<lparr>ec_device := device_name, ec_max_batch_size := max_batch_size,
                                 ec_warmup_iterations := 0, ec_generation := g\<rparr>))"

text \<open>A client of the router; waiting lets the replicas work.\<close>

definition replicated_client ::
  "('a, 'f, 'e) engine_ops \<Rightarrow> ('f \<Rightarrow> 'e list \<Rightarrow> 'e list) \<Rightarrow> ('f \<Rightarrow> 'e list \<Rightarrow> future_state)
     \<Rightarrow> ('a, 'f, 'e replicated) client_ops" where
  "replicated_client ops wait state =
     \<lparr>co_ops_submit = (\<lambda>a st. replicated_submit ops (current_depths ops st) a st),
      co_ops_wait = (\<lambda>h st. st\<lparr>rp_replicas := wait h (rp_replicas st)\<rparr>),
      co_ops_state = (\<lambda>h st. state h (rp_replicas st))\<rparr>"

definition replicated_serving ::
  "('a, 'f, 'e) engine_ops \<Rightarrow> ('f \<Rightarrow> 'e list \<Rightarrow> 'e list) \<Rightarrow> ('f \<Rightarrow> 'e list \<Rightarrow> future_state)
     \<Rightarrow> (engine_config \<Rightarrow> 'e result) \<Rightarrow> (string \<Rightarrow> 'a) \<Rightarrow> string list \<Rightarrow> int \<Rightarrow> int \<Rightarrow> int
     \<Rightarrow> (response list \<times> nat list) result" where
  "replicated_serving ops wait state create ask devices wanted tokens max_batch_size =
     rbind (across_devices (map DeviceName devices)
              (\<lambda>d. rbind (replica_config max_batch_size tokens d) create)) (\<lambda>st.
       let (out, st) = generate_many (replicated_client ops wait state)
             (map (\<lambda>i. ask (''prompt '' @ str_nat i)) [0..<nat wanted]) st
       in rbind out (\<lambda>responses. Inr (responses, routed_counts st)))"

definition replica_line :: "nat \<Rightarrow> string \<Rightarrow> nat \<Rightarrow> string" where
  "replica_line routed device_name n =
     (let share = real n / real (max routed 1)
      in ''  '' @ ljust 10 device_name @ '' '' @ replicate (4 - length (str_nat n)) (CHR '' '') @ str_nat n
         @ ''  '' @ replicate (nat \<lfloor>share * 40\<rfloor>) (CHR ''#''))"

definition least_share :: "nat list \<Rightarrow> real" where
  "least_share counts = real (Min (set counts)) / real (max (Max (set counts)) 1)"

definition serving_lines ::
  "(nat \<Rightarrow> real \<Rightarrow> string) \<Rightarrow> (real \<Rightarrow> string) \<Rightarrow> string list \<Rightarrow> response list \<Rightarrow> nat list \<Rightarrow> real \<Rightarrow> string list result" where
  "serving_lines fixed percent devices responses counts elapsed =
     (if length devices \<noteq> length counts then Inl ValueError
      else Inr ([''completed '' @ str_nat (length (filter response_ok responses)) @ ''/'' @ str_nat (length responses)
                  @ '' in '' @ fixed 2 elapsed @ ''s'', [], ''requests per replica:'']
                @ map2 (replica_line (sum_list counts)) devices counts
                @ [[], if length devices = 1 then ''One device, so this shows routing but not parallelism.''
                       else ''Balance: the least-loaded replica took '' @ percent (least_share counts)
                            @ '' of the busiest one's share.'']))"

section \<open>Where the requests went\<close>

definition router_ok :: "'e replicated \<Rightarrow> bool" where
  "router_ok st \<longleftrightarrow> rp_replicas st \<noteq> [] \<and> rp_rotation st < length (rp_replicas st)
     \<and> length (rp_routed st) = length (rp_replicas st)"

lemma replicated_submit_counts:
  assumes "router_ok st" "\<not> rp_closed st" "replicated_submit ops (current_depths ops st) a st = (out, st')"
  shows "router_ok st'" "\<not> rp_closed st'" "sum_list (rp_routed st') = Suc (sum_list (rp_routed st))"
    "length (rp_routed st') = length (rp_routed st)"
proof -
  note ok = assms(1) [unfolded router_ok_def]
  have "length (current_depths ops st) = length (rp_replicas st)"
    by (simp add: current_depths_def)
  then obtain i pos where i: "choose_replica (current_depths ops st) st = Inr (i, st\<lparr>rp_rotation := pos\<rparr>)"
      "i < length (rp_replicas st)" "pos < length (rp_replicas st)"
    using ok choose_replica_ok [of st "current_depths ops st"] by metis
  obtain e where st': "st' = st\<lparr>rp_rotation := pos, rp_routed := (rp_routed st)[i := Suc (rp_routed st ! i)],
      rp_replicas := (rp_replicas st)[i := e]\<rparr>"
    using assms(2,3) by (auto simp: replicated_submit_def i(1) Let_def split: prod.splits)
  show "router_ok st'" "\<not> rp_closed st'" "length (rp_routed st') = length (rp_routed st)"
    using ok i(3) assms(2) by (auto simp: router_ok_def st')
  show "sum_list (rp_routed st') = Suc (sum_list (rp_routed st))"
    using ok i(2) elem_le_sum_list [of i "rp_routed st"] by (simp add: st' sum_list_update)
qed

lemma submit_all_counts:
  "router_ok st \<Longrightarrow> \<not> rp_closed st \<Longrightarrow> submit_all (replicated_client ops wait state) as st = (Inr hs, st') \<Longrightarrow>
     sum_list (rp_routed st') = sum_list (rp_routed st) + length as
     \<and> length (rp_routed st') = length (rp_routed st) \<and> length hs = length as"
proof (induction as arbitrary: st hs)
  case (Cons a as)
  let ?c = "replicated_client ops wait state"
  obtain h st1 hs' where 1: "replicated_submit ops (current_depths ops st) a st = (Inr h, st1)"
      "submit_all ?c as st1 = (Inr hs', st')" "hs = h # hs'"
    using Cons.prems(3) by (auto simp: replicated_client_def split: prod.splits sum.splits)
  note one = replicated_submit_counts [OF Cons.prems(1,2) 1(1)]
  from Cons.IH [OF one(1,2) 1(2)] one(3,4) show ?case
    by (simp add: 1(3))
qed simp

lemma await_all_counts:
  "await_all (replicated_client ops wait state) hs st = (Inr rs, st') \<Longrightarrow>
     rp_routed st' = rp_routed st \<and> length rs = length hs"
proof (induction hs arbitrary: st rs)
  case (Cons h hs)
  let ?c = "replicated_client ops wait state"
  obtain r st1 rs' where 1: "await ?c h st = (Inr r, st1)" "await_all ?c hs st1 = (Inr rs', st')" "rs = r # rs'"
    using Cons.prems by (auto split: prod.splits sum.splits)
  have "rp_routed st1 = rp_routed st"
    using 1(1) by (auto simp: await_def Let_def replicated_client_def)
  with Cons.IH [OF 1(2)] show ?case
    by (simp add: 1(3))
qed simp

lemma build_all_length: "build_all build ds = Inr es \<Longrightarrow> length es = length ds"
  by (induction ds arbitrary: es) (auto simp: rbind_eq_Inr)

text \<open>
  If the example gets its answers, there is one for each request, the printed counts are one for
  each device and add up to the requests, and the table can be printed.
\<close>

theorem counts_add_up:
  assumes "replicated_serving ops wait state create ask devices wanted tokens max_batch_size = Inr (responses, counts)"
  shows "length responses = nat wanted" "sum_list counts = nat wanted" "length counts = length devices"
    "\<exists>lines. serving_lines fixed percent devices responses counts elapsed = Inr lines"
proof -
  let ?c = "replicated_client ops wait state" and ?as = "map (\<lambda>i. ask (''prompt '' @ str_nat i)) [0..<nat wanted]"
  let ?built = "across_devices (map DeviceName devices) (\<lambda>d. rbind (replica_config max_batch_size tokens d) create)"
  obtain st where st: "?built = Inr st"
    and run: "(case generate_many ?c ?as st of (out, st') \<Rightarrow> rbind out (\<lambda>rs. Inr (rs, routed_counts st')))
      = Inr (responses, counts)"
    using assms unfolding replicated_serving_def Let_def by (cases ?built) simp_all
  obtain out0 st' where g: "generate_many ?c ?as st = (out0, st')"
    by (cases "generate_many ?c ?as st")
  have out: "generate_many ?c ?as st = (Inr responses, st')" and counts: "counts = rp_routed st'"
    using run g by (auto simp: rbind_eq_Inr routed_counts_def)
  obtain es where es: "build_all (\<lambda>d. rbind (replica_config max_batch_size tokens d) create) (map DeviceName devices) = Inr es"
      "ReplicatedEngine es = Inr st"
    using st by (auto simp: across_devices_def rbind_eq_Inr)
  have fresh: "router_ok st" "\<not> rp_closed st" "rp_routed st = replicate (length devices) 0"
    using es(2) build_all_length [OF es(1)]
    by (auto simp: ReplicatedEngine_def router_ok_def split: if_splits)
  obtain hs st1 where 1: "submit_all ?c ?as st = (Inr hs, st1)" "await_all ?c hs st1 = (Inr responses, st')"
    using out by (auto simp: generate_many_def split: prod.splits sum.splits)
  note sent = submit_all_counts [OF fresh(1,2) 1(1)] and got = await_all_counts [OF 1(2)]
  show "length responses = nat wanted" "sum_list counts = nat wanted" and len: "length counts = length devices"
    using sent got by (simp_all add: counts fresh(3))
  show "\<exists>lines. serving_lines fixed percent devices responses counts elapsed = Inr lines"
    by (simp add: serving_lines_def len)
qed

end
