(* ===== verification/Training_Run.thy ===== *)
theory Training_Run
  imports Training_Properties Lora_Setup
begin

text \<open>
  \<open>training/train.py\<close> as a program, and \<open>examples/fine_tune.py\<close> on top of it: building the loader
  from the corpus, building the model, and the loop of \<open>Training\<close> over the passes of the loader.
  The orders in which \<open>DataLoader\<close> shuffles are a parameter, one permutation of the indices
  for each pass; a batch is its rows of token ids.
\<close>

section \<open>The loader\<close>

record loader =
  ld_dataset :: "int list list"
  ld_batch_size :: nat

definition build_loader ::
  "(string \<Rightarrow> string option \<Rightarrow> string \<Rightarrow> string list \<times> (string \<Rightarrow> string list)) \<Rightarrow> training_config \<Rightarrow> tokenizer
     \<Rightarrow> loader result" where
  "build_loader load_dataset c tok =
     rbind (load_texts load_dataset (tc_dataset_name c) (tc_dataset_config c) (tc_dataset_split c)
              (tc_text_field c) (tc_inline_texts c)) (\<lambda>texts.
     rbind (build_dataset texts tok (tc_max_seq_length c) None) (\<lambda>dataset.
       Inr \<lparr>ld_dataset = dataset, ld_batch_size = nat (tc_batch_size c)\<rparr>))"

definition loader_length :: "loader \<Rightarrow> nat" where
  "loader_length l = (length (ld_dataset l) + ld_batch_size l - 1) div ld_batch_size l"

definition loader_pass :: "loader \<Rightarrow> nat list \<Rightarrow> int list list list" where
  "loader_pass l order = chunks (ld_batch_size l) (map ((!) (ld_dataset l)) order)"

section \<open>Training from a configuration\<close>

text \<open>
  \<open>train\<close> as \<open>main\<close> calls it, with neither model nor loader. \<open>shuffle e\<close> is the order of epoch \<open>e\<close>,
  \<open>final\<close> that of the evaluation; \<open>trainer m\<close> is PyTorch on the adapted model, \<open>weights m\<close> its state.
\<close>

definition train_from_config ::
  "torch_flags \<Rightarrow> (string \<Rightarrow> string option \<Rightarrow> string \<Rightarrow> string list \<times> (string \<Rightarrow> string list))
     \<Rightarrow> (training_config \<Rightarrow> ('m \<times> tokenizer) result) \<Rightarrow> ('m \<Rightarrow> bool) \<Rightarrow> ('m \<Rightarrow> ('w, 'v::real_vector, int list list) trainer)
     \<Rightarrow> ('m \<Rightarrow> 'w) \<Rightarrow> (nat \<Rightarrow> nat list) \<Rightarrow> nat list \<Rightarrow> training_config \<Rightarrow> ('w, 'v) train_state result" where
  "train_from_config tf load_dataset build has_trainable trainer weights shuffle final c =
     rbind (train_setup (build c) (build_loader load_dataset c) has_trainable None None) (\<lambda>(m, l).
       train tf c (trainer m) (loader_length l) (\<lambda>e. loader_pass l (shuffle e)) (loader_pass l final) (weights m))"

text \<open>\<open>main\<close>: the exit status with the counts it logs\<close>

definition main ::
  "training_config result option \<Rightarrow> train_args \<Rightarrow> (training_config \<Rightarrow> ('w, 'v) train_state result)
     \<Rightarrow> (int \<times> nat \<times> nat) result" where
  "main from_yaml a run =
     rbind (case from_yaml of Some r \<Rightarrow> r | None \<Rightarrow> TrainingConfig tc_defaults) (\<lambda>config.
     rbind (apply_args a config) (\<lambda>config.
     rbind (run config) (\<lambda>st. Inr (0, ts_step st, ts_tokens_seen st))))"

section \<open>The fine-tuning example\<close>

definition CORPUS :: "string list" where
  "CORPUS =
     [''CUDA threads are grouped into warps of 32 that execute the same instruction.'',
      ''Shared memory is on-chip and far faster to access than global memory.'',
      ''Coalesced access lets the hardware merge adjacent requests into one transaction.'',
      ''A condition variable parks a thread until another signals a state change.'',
      ''Dynamic batching amortises weight loading across concurrent requests.'',
      ''CUDA streams let copies and kernels overlap on separate hardware engines.'',
      ''Pinned host memory is required for a transfer to overlap with computation.'',
      ''LoRA freezes the base weights and trains a low-rank update alongside them.'',
      ''Quantisation trades numerical precision for memory and bandwidth.'',
      ''Occupancy measures how many warps are resident on a streaming multiprocessor.'']"

definition fine_tune_config :: "string \<Rightarrow> string \<Rightarrow> int \<Rightarrow> int \<Rightarrow> training_config result" where
  "fine_tune_config model output_dir epochs rank =
     rbind (LoRAConfig (lora_defaults\<lparr>lc_rank := rank, lc_alpha := rank * 2,
                                       lc_target_modules := [''c_attn'']\<rparr>)) (\<lambda>lora.
       TrainingConfig (tc_defaults\<lparr>tc_model_name := model, tc_output_dir := output_dir,
         tc_inline_texts := CORPUS, tc_max_seq_length := 64, tc_batch_size := 2,
         tc_learning_rate := 1 / 10 ^ 3, tc_epochs := epochs, tc_mixed_precision := False,
         tc_logging_steps := 1, tc_lora := lora\<rparr>))"

definition fine_tune ::
  "(training_config \<Rightarrow> ('w, 'v) train_state result) \<Rightarrow> string \<Rightarrow> string \<Rightarrow> int \<Rightarrow> int \<Rightarrow> (int \<times> nat \<times> nat) result" where
  "fine_tune run model output_dir epochs rank =
     rbind (fine_tune_config model output_dir epochs rank) (\<lambda>c.
     rbind (run c) (\<lambda>st. Inr (0, ts_step st, ts_tokens_seen st)))"

section \<open>What follows\<close>

lemma packed_blocks:
  assumes "tk_encode tok = Some encode" "0 < n" "build_dataset texts tok (int n) None = Inr blocks"
  shows "blocks \<noteq> [] \<and> list_all (\<lambda>b. length b = n) blocks"
proof -
  define stream where "stream = concat (map (\<lambda>t. encode t @ (case tk_eos tok of None \<Rightarrow> [] | Some e \<Rightarrow> [e]))
      (filter (\<lambda>t. \<not> blank t) texts))"
  note split = packed_stream [OF assms(1,2) stream_def]
  have enough: "\<not> length stream < n"
    using split assms(3) by auto
  then obtain rest where "stream = concat blocks @ rest" "length rest < n" "list_all (\<lambda>b. length b = n) blocks"
    using split assms(3) by auto
  with enough show ?thesis
    by (cases blocks) auto
qed

lemma loader_has_blocks:
  assumes "build_loader load_dataset c tok = Inr l" "training_ok c"
  shows "ld_dataset l \<noteq> []" "0 < ld_batch_size l"
    "\<And>b. b \<in> set (ld_dataset l) \<Longrightarrow> length b = nat (tc_max_seq_length c)"
proof -
  let ?n = "nat (tc_max_seq_length c)"
  have ok: "0 < tc_max_seq_length c" "0 < tc_batch_size c"
    using assms(2) by (auto simp: training_ok_def)
  obtain texts where built: "build_dataset texts tok (tc_max_seq_length c) None = Inr (ld_dataset l)"
    and size: "ld_batch_size l = nat (tc_batch_size c)"
    using assms(1) by (auto simp: build_loader_def rbind_eq_Inr)
  then obtain encode where encode: "tk_encode tok = Some encode"
    by (auto simp: build_dataset_def split: option.splits)
  have "0 < ?n" "int ?n = tc_max_seq_length c"
    using ok by simp_all
  then have packed: "ld_dataset l \<noteq> [] \<and> list_all (\<lambda>b. length b = ?n) (ld_dataset l)"
    using built by (intro packed_blocks [OF encode]) simp_all
  show "ld_dataset l \<noteq> []" "\<And>b. b \<in> set (ld_dataset l) \<Longrightarrow> length b = ?n"
    using packed by (auto simp: list_all_iff)
  show "0 < ld_batch_size l"
    using ok size by simp
qed

text \<open>A pass over the loader sees every block once, in as many batches as the loader says.\<close>

lemma pass_sees_every_block:
  assumes "0 < ld_batch_size l" "mset order = mset [0..<length (ld_dataset l)]"
  shows "mset (concat (loader_pass l order)) = mset (ld_dataset l)"
proof -
  have "mset (concat (loader_pass l order)) = image_mset ((!) (ld_dataset l)) (mset order)"
    using assms(1) by (simp add: loader_pass_def)
  also have "\<dots> = mset (map ((!) (ld_dataset l)) [0..<length (ld_dataset l)])"
    unfolding assms(2) by simp
  finally show ?thesis
    by (simp only: map_nth)
qed

lemma length_of_chunks: "0 < k \<Longrightarrow> length (chunks k xs) = (length xs + k - 1) div k"
proof (induction k xs rule: chunks.induct)
  case (1 k xs)
  show ?case
  proof (cases "xs = []")
    case True
    then show ?thesis
      using 1(2) by simp
  next
    case False
    have "length (chunks k xs) = Suc ((length xs - k + k - 1) div k)"
      using 1 False by (simp add: chunks_step)
    also have "\<dots> = (length xs + k - 1) div k"
    proof (cases "k \<le> length xs")
      case True
      then have sizes: "length xs + k - 1 = length xs - 1 + k" "length xs - k + k - 1 = length xs - 1"
        using 1(2) by simp_all
      show ?thesis
        unfolding sizes using 1(2) by simp
    next
      case less: False
      have "(length xs + k - 1) div k = 1"
        using 1(2) less False by (intro div_nat_eqI; cases xs) simp_all
      then show ?thesis
        using less by simp
    qed
    finally show ?thesis .
  qed
qed

lemma chunks_one: "chunks 1 xs = map (\<lambda>x. [x]) xs"
  by (induction xs) (simp_all add: chunks_step)

text \<open>Every batch that is processed adds its tokens.\<close>

lemma optimizer_step_tokens:
  "optimizer_step tf c len tr b st = Inr st' \<Longrightarrow> ts_tokens_seen st' = ts_tokens_seen st"
  by (cases "tr_schedule tr (max (total_steps c len) 1) (pct_start c len) (Suc (ts_step st))")
    (auto simp: optimizer_step_def Let_def save_checkpoint_def)

lemma train_batches_tokens:
  "tc_max_steps c \<le> 0 \<Longrightarrow> train_batches tf c len tr bs st = Inr (stop, st')
     \<Longrightarrow> ts_tokens_seen st' = ts_tokens_seen st + sum_list (map (tr_numel tr) bs)"
proof (induction bs arbitrary: st)
  case (Cons b bs)
  have never: "\<not> enough_steps c s" for s :: "('a, 'b) train_state"
    using Cons.prems(1) by (simp add: enough_steps_def)
  let ?st = "accumulate tf c tr b st"
  have seen: "ts_tokens_seen ?st = ts_tokens_seen st + tr_numel tr b"
    by (simp add: accumulate_def)
  obtain s where s: "train_batches tf c len tr bs s = Inr (stop, st')" "ts_tokens_seen s = ts_tokens_seen ?st"
    using Cons.prems(2) by (auto simp: Let_def rbind_eq_Inr never dest: optimizer_step_tokens split: if_splits)
  show ?case
    using Cons.IH [OF Cons.prems(1) s(1)] s(2) seen by simp
qed simp

lemma train_epochs_tokens:
  "tc_max_steps c \<le> 0 \<Longrightarrow> train_epochs tf c len tr es st = Inr st'
     \<Longrightarrow> ts_tokens_seen st' = ts_tokens_seen st + sum_list (map (tr_numel tr) (concat (map snd es)))"
proof (induction es arbitrary: st)
  case (Cons e es)
  obtain epoch bs where e: "e = (epoch, bs)"
    by (cases e)
  obtain stop s where s: "train_batches tf c len tr bs (st\<lparr>ts_epoch := epoch\<rparr>) = Inr (stop, s)"
    "train_epochs tf c len tr es s = Inr st'"
    using Cons.prems by (auto simp: e rbind_eq_Inr enough_steps_def)
  show ?case
    using Cons.IH [OF Cons.prems(1) s(2)] train_batches_tokens [OF Cons.prems(1) s(1)] by (simp add: e)
qed simp

lemma train_tokens:
  "tc_max_steps c \<le> 0 \<Longrightarrow> train tf c tr len epochs final w = Inr st
     \<Longrightarrow> ts_tokens_seen st = sum_list (map (tr_numel tr) (concat (map epochs [0..<nat (tc_epochs c)])))"
  by (auto simp: train_def rbind_eq_Inr Let_def save_checkpoint_def comp_def dest!: train_epochs_tokens)

text \<open>\<open>inputs["input_ids"].numel()\<close>\<close>

definition rows_numel :: "int list list \<Rightarrow> nat" where
  "rows_numel b = sum_list (map length b)"

lemma rows_numel_concat: "sum_list (map rows_numel bs) = sum_list (map length (concat bs))"
  by (induction bs) (simp_all add: rows_numel_def)

text \<open>
  Without accumulation and without a step limit a run over a built loader always ends, after as
  many updates as it has batches, having seen each block once in each epoch.
\<close>

theorem plain_run_sees_everything:
  assumes ok: "training_ok c" and plain: "tc_gradient_accumulation_steps c = 1" "tc_max_steps c \<le> 0"
    and built: "build_loader load_dataset c tok = Inr l"
    and shuffle: "\<And>e. mset (shuffle e) = mset [0..<length (ld_dataset l)]"
    and tr: "tr_numel tr = rows_numel" "\<And>n. loss_scale tf c tr n \<noteq> 0"
    and sched: "schedule_ok tr lr (max (total_steps c (loader_length l)) 1) (pct_start c (loader_length l))"
  shows "\<exists>st. train tf c tr (loader_length l) (\<lambda>e. loader_pass l (shuffle e)) final w = Inr st
    \<and> ts_step st = nat (tc_epochs c) * loader_length l
    \<and> ts_tokens_seen st = nat (tc_epochs c) * (length (ld_dataset l) * nat (tc_max_seq_length c))"
proof -
  note l = loader_has_blocks [OF built ok]
  let ?E = "nat (tc_epochs c)" and ?len = "loader_length l" and ?passes = "\<lambda>e. loader_pass l (shuffle e)"
  have size: "length (shuffle e) = length (ld_dataset l)" for e
    using arg_cong [OF shuffle [of e], of size] by simp
  have lens: "length (?passes e) = ?len" for e
    using l(2) by (simp add: loader_pass_def loader_length_def length_of_chunks size)
  define stream where "stream = concat (map ?passes [0..<?E])"
  have "length stream = ?E * ?len"
    unfolding stream_def by (simp add: length_concat comp_def lens sum_list_triv)
  note steps = this
  have full: "map (\<lambda>b. [b]) stream = chunks 1 (take (length stream div 1 * 1) stream)"
    using chunks_one [of stream] by simp
  have groups: "map (\<lambda>b. [b]) stream = (if 0 < tc_max_steps c
      then take (nat (tc_max_steps c)) (map (\<lambda>b. [b]) stream) else map (\<lambda>b. [b]) stream)"
    using plain(2) by simp
  have k: "tc_gradient_accumulation_steps c = int 1"
    using plain(1) by simp
  have "0 < ?len"
    using l(1,2) by (cases "ld_dataset l") (simp_all add: loader_length_def div_greater_zero_iff)
  moreover have "0 < tc_epochs c"
    using ok plain(2) by (auto simp: training_ok_def)
  ultimately have "int (?E * ?len) = total_steps c ?len"
    using plain by (simp add: total_steps_def steps_per_epoch_def)
  then have fits: "int (length (map (\<lambda>b. [b]) stream)) \<le> max (total_steps c ?len) 1"
    by (simp add: steps)
  obtain st where st: "train tf c tr ?len ?passes final w = Inr st" "ts_step st = ?E * ?len"
    using train_outcome [OF ok k sched tr(2) stream_def full groups, of final w] fits by (auto simp: steps)
  have numel: "sum_list (map rows_numel (?passes e)) = length (ld_dataset l) * nat (tc_max_seq_length c)" for e
  proof -
    have "sum_list (map rows_numel (?passes e)) = sum_list (map length (concat (?passes e)))"
      by (rule rows_numel_concat)
    also have "\<dots> = sum_mset (image_mset length (mset (concat (?passes e))))"
      by (simp flip: sum_mset_sum_list)
    also have "\<dots> = sum_list (map length (ld_dataset l))"
      unfolding pass_sees_every_block [OF l(2) shuffle] by (simp flip: sum_mset_sum_list)
    also have "\<dots> = length (ld_dataset l) * nat (tc_max_seq_length c)"
      using l(3) by (simp add: sum_list_triv cong: map_cong)
    finally show ?thesis .
  qed
  have "sum_list (map rows_numel (concat (map ?passes es))) =
      length es * (length (ld_dataset l) * nat (tc_max_seq_length c))" for es
    by (induction es) (simp_all add: numel)
  then have "ts_tokens_seen st = ?E * (length (ld_dataset l) * nat (tc_max_seq_length c))"
    using train_tokens [OF plain(2) st(1)] by (simp add: tr(1))
  with st show ?thesis
    by blast
qed

text \<open>The example's settings are such a run, with adapters scaled by two.\<close>

lemma fine_tune_settings:
  assumes "fine_tune_config model output_dir epochs rank = Inr c"
  shows "training_ok c" "tc_gradient_accumulation_steps c = 1" "tc_max_steps c \<le> 0"
    "tc_epochs c = epochs" "tc_max_seq_length c = 64" "\<not> tc_mixed_precision c"
    "0 < rank" "scaling (tc_lora c) = 2"
  using assms by (auto simp: fine_tune_config_def rbind_eq_Inr LoRAConfig_ok TrainingConfig_ok lora_ok_def
      lora_defaults_def tc_defaults_def scaling_def field_simps)

text \<open>So once the model is built and its corpus fills a block, the example ends with these counts.\<close>

theorem fine_tune_completes:
  assumes config: "fine_tune_config model output_dir epochs rank = Inr c"
    and build: "build c = Inr (m, tok)" "has_trainable m" "build_loader load_dataset c tok = Inr l"
    and shuffle: "\<And>e. mset (shuffle e) = mset [0..<length (ld_dataset l)]"
    and tr: "tr_numel (trainer m) = rows_numel"
    and sched: "schedule_ok (trainer m) lr (max (total_steps c (loader_length l)) 1) (pct_start c (loader_length l))"
  shows "fine_tune (train_from_config tf load_dataset build has_trainable trainer weights shuffle final)
      model output_dir epochs rank =
    Inr (0, nat epochs * loader_length l, nat epochs * (length (ld_dataset l) * 64))"
proof -
  note settings = fine_tune_settings [OF config]
  have "loss_scale tf c (trainer m) n \<noteq> 0" for n
    using settings(6) by (simp add: loss_scale_def use_fp16_def use_amp_def)
  from plain_run_sees_everything [where shuffle = shuffle and final = "loader_pass l final" and w = "weights m",
      OF settings(1-3) build(3) shuffle tr this sched]
  obtain st where "train tf c (trainer m) (loader_length l) (\<lambda>e. loader_pass l (shuffle e)) (loader_pass l final)
        (weights m) = Inr st"
      "ts_step st = nat epochs * loader_length l"
      "ts_tokens_seen st = nat epochs * (length (ld_dataset l) * 64)"
    unfolding settings(4,5) by auto
  then show ?thesis
    by (simp add: fine_tune_def train_from_config_def train_setup_def config build)
qed

end
