(* ===== verification/Distributed_Train.thy ===== *)
theory Distributed_Train
  imports Lora_Setup Training_Data
begin

text \<open>
  \<open>examples/distributed_train.py\<close>: data-parallel training, all ranks together. What PyTorch gives is
  a parameter: the process group, the sampler, and the loss, gradient, clipping and update of one
  replica, whose state \<open>'w\<close> is its parameters with its optimiser. The backward pass of
  \<open>DistributedDataParallel\<close> leaves on every rank the mean of the ranks' gradients and waits until
  each rank has one. A sampler is given by the indices it yields.
\<close>

section \<open>Starting a rank\<close>

datatype 'a outcome = System_exit string | Raised py_error | Returned 'a

definition environ_int :: "(string \<Rightarrow> string option) \<Rightarrow> string \<Rightarrow> int result" where
  "environ_int env name =
     (case env name of None \<Rightarrow> Inl KeyError
      | Some s \<Rightarrow> (case parse_int s of None \<Rightarrow> Inl ValueError | Some i \<Rightarrow> Inr i))"

text \<open>The process group is made with the device that is current then.\<close>

definition setup_rank ::
  "(string \<Rightarrow> string option) \<Rightarrow> (int \<Rightarrow> int result) \<Rightarrow> (int \<Rightarrow> string \<Rightarrow> int \<Rightarrow> int \<Rightarrow> 'g result)
     \<Rightarrow> ('g \<times> int \<times> int \<times> int) result" where
  "setup_rank env set_device init_process_group =
     rbind (environ_int env ''RANK'') (\<lambda>rank.
     rbind (environ_int env ''LOCAL_RANK'') (\<lambda>local_rank.
     rbind (environ_int env ''WORLD_SIZE'') (\<lambda>world_size.
     rbind (set_device local_rank) (\<lambda>current.
     rbind (init_process_group current ''nccl'' rank world_size) (\<lambda>group.
       Inr (group, rank, local_rank, world_size))))))"

definition launch ::
  "(string \<Rightarrow> string option) \<Rightarrow> bool \<Rightarrow> (int \<Rightarrow> int result) \<Rightarrow> (int \<Rightarrow> string \<Rightarrow> int \<Rightarrow> int \<Rightarrow> 'g result)
     \<Rightarrow> ('g \<times> int \<times> int \<times> int) outcome" where
  "launch env cuda set_device init_process_group =
     (if env ''RANK'' = None then
        System_exit (''launch with torchrun, e.g.'' @ [CHR 0x0A] @
                     ''  torchrun --nproc_per_node=4 examples/distributed_train.py'')
      else if \<not> cuda then System_exit ''this example requires NVIDIA GPUs and NCCL''
      else (case setup_rank env set_device init_process_group of Inl e \<Rightarrow> Raised e | Inr r \<Rightarrow> Returned r))"

definition CORPUS_distributed :: "string list" where
  "CORPUS_distributed = concat (replicate 16
     [''CUDA threads are grouped into warps of 32 that execute in lockstep.'',
      ''AllReduce averages gradients across every rank in the process group.'',
      ''NCCL implements collectives over NVLink and InfiniBand.'',
      ''Data parallelism replicates the model and shards the batch.'',
      ''Gradient buckets let communication overlap the backward pass.'',
      ''LoRA reduces gradient traffic in proportion to the trainable parameter count.''])"

definition distributed_config :: "string \<Rightarrow> int \<Rightarrow> training_config result" where
  "distributed_config model rank_dim =
     rbind (LoRAConfig (lora_defaults\<lparr>lc_rank := rank_dim, lc_alpha := rank_dim * 2,
                                       lc_target_modules := [''c_attn'']\<rparr>)) (\<lambda>lora.
       TrainingConfig (tc_defaults\<lparr>tc_model_name := model, tc_lora := lora\<rparr>))"

text \<open>The adapted model and the dataset every rank builds for itself.\<close>

definition prepare ::
  "tokenizer result \<Rightarrow> 'm result \<Rightarrow> ('m \<Rightarrow> lora_config \<Rightarrow> ('m \<times> string) result) \<Rightarrow> string \<Rightarrow> int
     \<Rightarrow> ('m \<times> int list list) result" where
  "prepare load_tokenizer load_model attach model rank_dim =
     rbind load_tokenizer (\<lambda>tok.
     rbind load_model (\<lambda>base.
     rbind (distributed_config model rank_dim) (\<lambda>config.
     rbind (attach base (tc_lora config)) (\<lambda>(adapted, line).
     rbind (build_dataset CORPUS_distributed tok 64 None) (\<lambda>blocks. Inr (adapted, blocks))))))"

text \<open>The batches of a rank in an epoch\<close>

definition rank_batches :: "(nat \<Rightarrow> nat \<Rightarrow> nat \<Rightarrow> nat list) \<Rightarrow> 'x list \<Rightarrow> nat \<Rightarrow> nat \<Rightarrow> nat \<Rightarrow> nat \<Rightarrow> 'x list list" where
  "rank_batches sampler blocks batch_size world epoch rank =
     chunks batch_size (map ((!) blocks) (sampler world epoch rank))"

section \<open>The loop\<close>

record ('w, 'v, 'b) replica =
  rp_loss :: "'w \<Rightarrow> 'b \<Rightarrow> real"
  rp_grad :: "'w \<Rightarrow> 'b \<Rightarrow> 'v"
  rp_clip :: "real \<Rightarrow> 'v \<Rightarrow> 'v"             \<comment> \<open>to a largest norm\<close>
  rp_update :: "real \<Rightarrow> 'v \<Rightarrow> 'w \<Rightarrow> 'w"      \<comment> \<open>under a learning rate\<close>

definition all_reduce :: "'v::real_vector list \<Rightarrow> 'v" where
  "all_reduce gs = (1 / of_nat (length gs)) *\<^sub>R sum_list gs"

definition apply_gradient :: "('w, 'v, 'b) replica \<Rightarrow> 'v \<Rightarrow> 'w \<Rightarrow> 'w" where
  "apply_gradient r g w = rp_update r (2 / 10 ^ 4) (rp_clip r 1 g) w"

text \<open>One step of every rank: backward with its reduction, clipping, update.\<close>

definition ddp_step :: "('w, 'v::real_vector, 'b) replica \<Rightarrow> 'w list \<Rightarrow> 'b list \<Rightarrow> 'w list" where
  "ddp_step r ws bs = map (apply_gradient r (all_reduce (map2 (rp_grad r) ws bs))) ws"

text \<open>
  An epoch over the ranks' batches. A rank that has run out leaves the loop; the others wait for
  its gradient, and the program does not go on, which is \<open>None\<close>. Rank 0 logs epoch, step and loss.
\<close>

type_synonym log_lines = "(nat \<times> nat \<times> real) list"

function ddp_epoch ::
  "('w, 'v::real_vector, 'b) replica \<Rightarrow> nat \<Rightarrow> nat \<Rightarrow> 'w list \<Rightarrow> 'b list list \<Rightarrow> log_lines \<Rightarrow> ('w list \<times> log_lines) option" where
  "ddp_epoch r epoch step ws shards logged =
     (if list_all (\<lambda>s. s = []) shards then Some (ws, logged)
      else if list_ex (\<lambda>s. s = []) shards then None
      else ddp_epoch r epoch (Suc step) (ddp_step r ws (map hd shards)) (map tl shards)
             (if step mod 5 = 0 then logged @ [(epoch, step, rp_loss r (hd ws) (hd (hd shards)))] else logged))"
  by pat_completeness auto
termination
proof (relation "measure (\<lambda>(r, epoch, step, ws, shards, logged). length (hd shards))", goal_cases)
  case (2 r epoch step ws shards logged)
  then show ?case
    by (cases shards) auto
qed simp

declare ddp_epoch.simps [simp del]

fun ddp_epochs ::
  "('w, 'v::real_vector, 'b) replica \<Rightarrow> (nat \<Rightarrow> nat \<Rightarrow> 'b list) \<Rightarrow> nat \<Rightarrow> nat list \<Rightarrow> 'w list \<Rightarrow> log_lines
     \<Rightarrow> ('w list \<times> log_lines) option" where
  "ddp_epochs r batches world [] ws logged = Some (ws, logged)"
| "ddp_epochs r batches world (e # es) ws logged =
     (case ddp_epoch r e 0 ws (map (batches e) [0..<world]) logged of
        None \<Rightarrow> None
      | Some (ws, logged) \<Rightarrow> ddp_epochs r batches world es ws logged)"

text \<open>
  All of training. Constructing the wrapper broadcasts the parameters of rank 0; after the loop
  rank 0 saves its own.
\<close>

record 'w ddp_result =
  dd_saved :: 'w
  dd_replicas :: "'w list"
  dd_log :: log_lines

definition distributed_train ::
  "('w, 'v::real_vector, 'x list) replica \<Rightarrow> (nat \<Rightarrow> nat \<Rightarrow> nat \<Rightarrow> nat list) \<Rightarrow> 'x list \<Rightarrow> nat \<Rightarrow> int \<Rightarrow> 'w list
     \<Rightarrow> 'w ddp_result option" where
  "distributed_train r sampler blocks batch_size epochs ws =
     (let world = length ws in
      case ddp_epochs r (rank_batches sampler blocks batch_size world) world [0..<nat epochs]
             (replicate world (hd ws)) [] of
        None \<Rightarrow> None
      | Some (ws, logged) \<Rightarrow> Some \<lparr>dd_saved = hd ws, dd_replicas = ws, dd_log = logged\<rparr>)"

end
