(* ===== verification/Distributed_Train_Properties.thy ===== *)
theory Distributed_Train_Properties
  imports Distributed_Train
begin

text \<open>
  What data-parallel training promises: every rank's group is made on its own device; an epoch
  ends exactly when the ranks have equally many batches; the replicas stay identical; and the
  job computes what one process would with the ranks' batches joined.
\<close>

section \<open>Starting\<close>

lemma rank_starts_on_its_device:
  assumes "setup_rank env set_device init_process_group = Inr (g, rank, local_rank, world_size)"
  shows "environ_int env ''LOCAL_RANK'' = Inr local_rank
    \<and> (\<exists>current. set_device local_rank = Inr current
         \<and> init_process_group current ''nccl'' rank world_size = Inr g)"
  using assms by (auto simp: setup_rank_def rbind_eq_Inr)

lemma distributed_adapters:
  "distributed_config model rank_dim = Inr c \<longleftrightarrow>
     0 < rank_dim \<and> c = tc_defaults\<lparr>tc_model_name := model,
       tc_lora := lora_defaults\<lparr>lc_rank := rank_dim, lc_alpha := rank_dim * 2,
                                 lc_target_modules := [''c_attn'']\<rparr>\<rparr>"
  by (auto simp: distributed_config_def rbind_eq_Inr LoRAConfig_ok TrainingConfig_ok lora_ok_def
      training_ok_def lora_defaults_def tc_defaults_def LORA_BIAS_CHOICES_def)

section \<open>An epoch ends when the ranks have equally many batches\<close>

lemma ddp_epoch_done: "list_all (\<lambda>s. s = []) shards \<Longrightarrow> ddp_epoch r e n ws shards logged = Some (ws, logged)"
  by (simp add: ddp_epoch.simps)

lemma ddp_epoch_step:
  assumes "shards \<noteq> []" "\<And>s. s \<in> set shards \<Longrightarrow> s \<noteq> []"
  shows "ddp_epoch r e n ws shards logged =
    ddp_epoch r e (Suc n) (ddp_step r ws (map hd shards)) (map tl shards)
      (if n mod 5 = 0 then logged @ [(e, n, rp_loss r (hd ws) (hd (hd shards)))] else logged)"
proof -
  have "\<not> list_all (\<lambda>s. s = []) shards" "\<not> list_ex (\<lambda>s. s = []) shards"
    using assms by (auto simp: list_all_iff list_ex_iff neq_Nil_conv)
  then show ?thesis
    by (subst ddp_epoch.simps) simp
qed

lemma epoch_ends_iff_equally_many_batches:
  "ddp_epoch r e n ws shards logged \<noteq> None \<longleftrightarrow> (\<forall>s\<in>set shards. length s = length (hd shards))"
proof (induction "length (hd shards)" arbitrary: n ws shards logged rule: less_induct)
  case less
  show ?case
  proof (cases "shards \<noteq> [] \<and> [] \<notin> set shards")
    case True
    then have rest: "hd (map tl shards) = tl (hd shards)" and hd: "hd shards \<in> set shards"
      by (auto simp: hd_map)
    then have shorter: "length (hd (map tl shards)) < length (hd shards)"
      using True by (metis diff_less length_greater_0_conv length_tl zero_less_one)
    have "ddp_epoch r e n ws shards logged \<noteq> None \<longleftrightarrow>
      (\<forall>s\<in>set (map tl shards). length s = length (hd (map tl shards)))"
      using True less [OF shorter] by (subst ddp_epoch_step) auto
    also have "\<dots> \<longleftrightarrow> (\<forall>s\<in>set shards. length s - 1 = length (hd shards) - 1)"
      unfolding rest by simp
    also have "\<dots> \<longleftrightarrow> (\<forall>s\<in>set shards. length s = length (hd shards))"
      using True hd by (metis Suc_pred' length_greater_0_conv)
    finally show ?thesis .
  next
    case False
    show ?thesis
    proof (cases "list_all (\<lambda>s. s = []) shards")
      case True
      then have "\<forall>s\<in>set shards. length s = length (hd shards)"
        by (cases shards) (auto simp: list_all_iff)
      then show ?thesis
        using True by (simp add: ddp_epoch_done)
    next
      case nonempty: False
      then obtain s where s: "s \<in> set shards" "s \<noteq> []"
        by (auto simp: list_all_iff)
      then have out: "[] \<in> set shards"
        using False by auto
      have "\<not> (\<forall>s\<in>set shards. length s = length (hd shards))"
      proof
        assume same: "\<forall>s\<in>set shards. length s = length (hd shards)"
        have "length s = 0"
          using bspec [OF same s(1)] bspec [OF same out] by simp
        with s(2) show False
          by simp
      qed
      moreover have "list_ex (\<lambda>s. s = []) shards"
        using out by (simp add: list_ex_iff)
      ultimately show ?thesis
        using nonempty by (subst ddp_epoch.simps) simp
    qed
  qed
qed

section \<open>The replicas stay identical\<close>

lemma ddp_step_replicate:
  "ddp_step r (replicate k w) bs = replicate k (apply_gradient r (all_reduce (map (rp_grad r w) (take k bs))) w)"
proof -
  have "map2 (rp_grad r) (replicate k w) bs = map (rp_grad r w) (take k bs)"
    by (induction k arbitrary: bs) (auto simp: take_Suc split: list.splits, case_tac bs, auto)
  then show ?thesis
    by (simp add: ddp_step_def map_replicate_const)
qed

text \<open>The batches of one step, joined\<close>

fun joint :: "nat \<Rightarrow> 'x list list list \<Rightarrow> 'x list list" where
  "joint 0 shards = []"
| "joint (Suc n) shards = concat (map hd shards) # joint n (map tl shards)"

definition large_batch_training :: "('w, 'v, 'b) replica \<Rightarrow> 'b list \<Rightarrow> 'w \<Rightarrow> 'w" where
  "large_batch_training r bs = fold (\<lambda>b w. apply_gradient r (rp_grad r w b) w) bs"

text \<open>A loss averaged over the examples of a batch has an averaged gradient.\<close>

definition mean_gradient :: "('w, 'v::real_vector, 'x list) replica \<Rightarrow> ('w \<Rightarrow> 'x \<Rightarrow> 'v) \<Rightarrow> bool" where
  "mean_gradient r eg \<longleftrightarrow>
     (\<forall>w b. rp_grad r w b = (1 / of_nat (length b)) *\<^sub>R sum_list (map (eg w) b))"

lemma all_reduce_is_joint_gradient:
  assumes "mean_gradient r eg" "0 < k" "\<And>b. b \<in> set bs \<Longrightarrow> length b = k"
  shows "all_reduce (map (rp_grad r w) bs) = rp_grad r w (concat bs)"
proof -
  have grad: "rp_grad r w b = (1 / of_nat (length b)) *\<^sub>R sum_list (map (eg w) b)" for b
    using assms(1) by (simp add: mean_gradient_def)
  have "sum_list (map (rp_grad r w) bs) = (1 / of_nat k) *\<^sub>R sum_list (map (eg w) (concat bs))"
    using assms(3) by (induction bs) (simp_all add: grad scaleR_add_right)
  moreover have "length (concat bs) = k * length bs"
    using assms(3) by (induction bs) auto
  ultimately show ?thesis
    using assms(2) by (simp add: all_reduce_def grad [of "concat bs"])
qed

lemma ddp_epoch_is_joint_training:
  assumes "mean_gradient r eg" "shards \<noteq> []" "\<And>s. s \<in> set shards \<Longrightarrow> map length s = sizes"
    "\<And>k. k \<in> set sizes \<Longrightarrow> 0 < k"
  shows "\<exists>logged'. ddp_epoch r e n (replicate (length shards) w) shards logged =
    Some (replicate (length shards) (large_batch_training r (joint (length sizes) shards) w), logged')"
  using assms(2-4)
proof (induction sizes arbitrary: shards n w logged)
  case Nil
  then have "list_all (\<lambda>s. s = []) shards"
    by (auto simp: list_all_iff)
  then show ?case
    by (simp add: ddp_epoch_done large_batch_training_def)
next
  case (Cons k sizes)
  have full: "s \<noteq> []" "length (hd s) = k" "map length (tl s) = sizes" if "s \<in> set shards" for s
    using Cons.prems(2) [OF that] by (cases s; simp)+
  have "all_reduce (map (rp_grad r w) (map hd shards)) = rp_grad r w (concat (map hd shards))"
    using full(2) Cons.prems(3) by (intro all_reduce_is_joint_gradient [OF assms(1), of k]) auto
  then have step: "ddp_step r (replicate (length shards) w) (map hd shards) =
      replicate (length (map tl shards)) (apply_gradient r (rp_grad r w (concat (map hd shards))) w)"
    by (simp add: ddp_step_replicate)
  have "map tl shards \<noteq> []" "\<And>s. s \<in> set (map tl shards) \<Longrightarrow> map length s = sizes"
    using Cons.prems(1) full(3) by auto
  note IH = Cons.IH [OF this Cons.prems(3)]
  show ?case
    using IH by (subst ddp_epoch_step) (simp_all add: Cons.prems(1) full(1) step large_batch_training_def)
qed

section \<open>The whole job\<close>

text \<open>What the sampler promises of its lengths\<close>

definition even_shards :: "(nat \<Rightarrow> nat \<Rightarrow> nat \<Rightarrow> nat list) \<Rightarrow> nat \<Rightarrow> bool" where
  "even_shards sampler world \<longleftrightarrow>
     (\<forall>epoch rank. rank < world \<longrightarrow> length (sampler world epoch rank) = length (sampler world epoch 0))"

definition joint_batches :: "(nat \<Rightarrow> nat \<Rightarrow> nat \<Rightarrow> nat list) \<Rightarrow> 'x list \<Rightarrow> nat \<Rightarrow> nat \<Rightarrow> nat \<Rightarrow> 'x list list" where
  "joint_batches sampler blocks batch_size world epoch =
     joint (length (rank_batches sampler blocks batch_size world epoch 0))
       (map (rank_batches sampler blocks batch_size world epoch) [0..<world])"

lemma chunks_shape:
  "length xs = length ys \<Longrightarrow> map length (chunks k xs) = map length (chunks k ys)"
proof (induction k xs arbitrary: ys rule: chunks.induct)
  case (1 k xs)
  show ?case
  proof (cases "k = 0 \<or> xs = []")
    case True
    then show ?thesis
      using 1(2) by (auto simp: chunks.simps)
  next
    case False
    then show ?thesis
      using 1 by (subst (1 2) chunks.simps) auto
  qed
qed

lemma chunks_nonempty: "c \<in> set (chunks k xs) \<Longrightarrow> 0 < length c"
proof (induction k xs rule: chunks.induct)
  case (1 k xs)
  then show ?case
    by (subst (asm) (2) chunks.simps) (auto split: if_splits)
qed

lemma ddp_epochs_is_joint_training:
  assumes "mean_gradient r eg" "even_shards sampler world" "0 < world"
  shows "\<exists>logged'. ddp_epochs r (rank_batches sampler blocks batch_size world) world es (replicate world w) logged =
    Some (replicate world (large_batch_training r
      (concat (map (joint_batches sampler blocks batch_size world) es)) w), logged')"
proof (induction es arbitrary: w logged)
  case Nil
  then show ?case
    by (simp add: large_batch_training_def)
next
  case (Cons e es)
  let ?batches = "rank_batches sampler blocks batch_size world e"
  have even: "length (sampler world e rank) = length (sampler world e 0)" if "rank < world" for rank
    using assms(2) that unfolding even_shards_def by blast
  have shape: "map length (?batches rank) = map length (?batches 0)" if "rank < world" for rank
    unfolding rank_batches_def by (rule chunks_shape) (simp only: length_map even [OF that])
  have "map length s = map length (?batches 0)" if "s \<in> set (map ?batches [0..<world])" for s
  proof -
    from that obtain rank where s: "s = ?batches rank" and "rank < world"
      by auto
    then show ?thesis
      unfolding s by (intro shape)
  qed
  moreover have "0 < k" if "k \<in> set (map length (?batches 0))" for k
    using that by (auto simp: rank_batches_def dest: chunks_nonempty)
  moreover have "map ?batches [0..<world] \<noteq> []"
    using assms(3) by simp
  ultimately obtain logged1 where
    "ddp_epoch r e 0 (replicate world w) (map ?batches [0..<world]) logged =
       Some (replicate world (large_batch_training r (joint_batches sampler blocks batch_size world e) w), logged1)"
    using ddp_epoch_is_joint_training [OF assms(1), of "map ?batches [0..<world]" "map length (?batches 0)" e 0 w logged]
    unfolding joint_batches_def length_map length_upt diff_zero by blast
  then show ?case
    using Cons.IH by (simp add: large_batch_training_def)
qed

text \<open>
  With a loss averaged over examples and shards of equal length no rank waits for ever, the
  replicas end identical, and what rank 0 saves is what one process would have trained on the
  joined batches.
\<close>

theorem distributed_is_large_batch_training:
  assumes "ws \<noteq> []" "mean_gradient r eg" "even_shards sampler (length ws)"
  shows "\<exists>w logged. distributed_train r sampler blocks batch_size epochs ws =
      Some \<lparr>dd_saved = w, dd_replicas = replicate (length ws) w, dd_log = logged\<rparr>
    \<and> w = large_batch_training r
        (concat (map (joint_batches sampler blocks batch_size (length ws)) [0..<nat epochs])) (hd ws)"
  using ddp_epochs_is_joint_training [OF assms(2,3), of blocks batch_size "[0..<nat epochs]" "hd ws" "[]"] assms(1)
  by (auto simp: distributed_train_def Let_def)

text \<open>Two ranks that fit a mean, each with its own of the two examples, started apart.\<close>

definition ex_replica :: "(real, real, real list) replica" where
  "ex_replica = \<lparr>rp_loss = (\<lambda>w b. sum_list (map (\<lambda>x. (w - x) * (w - x)) b)),
     rp_grad = (\<lambda>w b. (1 / of_nat (length b)) *\<^sub>R sum_list (map ((-) w) b)),
     rp_clip = (\<lambda>_ g. g), rp_update = (\<lambda>lr g w. w - lr * g)\<rparr>"

theorem distributed_is_large_batch_training_witness:
  "\<exists>logged. distributed_train ex_replica (\<lambda>world epoch rank. [rank]) [1, 3] 1 1 [2, 7] =
     Some \<lparr>dd_saved = 2, dd_replicas = [2, 2], dd_log = logged\<rparr>"
proof -
  have mean: "mean_gradient ex_replica (-)"
    by (simp add: mean_gradient_def ex_replica_def)
  have even: "even_shards (\<lambda>world epoch rank. [rank]) (length [2, 7 :: real])"
    by (simp add: even_shards_def)
  have "joint_batches (\<lambda>world epoch rank. [rank]) [1, 3] 1 2 0 = [[1, 3 :: real]]"
    by (simp add: joint_batches_def rank_batches_def chunks.simps upt_rec)
  then show ?thesis
    using distributed_is_large_batch_training [OF _ mean even, of "[1, 3]" 1 1]
    by (simp add: large_batch_training_def ex_replica_def apply_gradient_def upt_rec numeral_2_eq_2)
qed

end
