(* ===== verification/Spec2Isabelle.thy ===== *)
theory Spec2Isabelle
  imports KV_Properties Batcher_Properties Continuous_Service_Properties Exposition
    Speculative_Properties Ops_Properties Lora Training_Properties Cli_Properties Stepwise_Transformers_Properties
    Stepwise_Sampling Cuda_Checks_Properties Transformer_Block_Properties Doc_Checks_Properties
    Kernel_Parity_Properties Speculative_Example Environment_Report
    Runner_Setup Lora_Setup Cli_Bench Engine_Client Serving_Examples Training_Run Distributed_Train_Properties
begin

text \<open>
  A verification development of CUDA Force, a GPU inference server with its operators, its
  training code and its tools. The Python under \<open>src/python/cudaforge\<close>, \<open>src/inference\<close>,
  \<open>src/training\<close> and parts of \<open>src/scripts\<close> and \<open>src/examples\<close> is translated to HOL
  definitions that keep the names of the code; the theorems say what that code does.

  \<^bold>\<open>The program.\<close> A client reaches an engine through the HTTP server (\<open>server.py\<close>), the
  load generator (\<open>cli.py\<close>) or a call. The engine gives out a future and queues a request.
  There are two schedulers: \<open>DynamicBatcher\<close> closes batches by size or by time and hands each to
  a one-shot runner; \<open>ContinuousBatcher\<close> keeps a set of running sequences, advances them by one
  token in each pass of its loop, and may be given a cache manager that accounts for the blocks
  of the sequences and preempts some of them for others. A replicated engine spreads requests
  over several engines. All of them count in one \<open>MetricsRegistry\<close>, which is shown as text by
  \<open>exposition.py\<close>. The runners use the operators of \<open>ops.py\<close>, which dispatch to compiled kernels
  or to reference implementations.

  \<^bold>\<open>Theories and sources.\<close> A theory without a suffix holds the translation of a file; with the
  suffix \<open>_Invariant\<close>, \<open>_Operations\<close>, \<open>_Pass\<close>, \<open>_Sampling\<close> or \<open>_Properties\<close> it holds proofs.

  \<^item> \<open>Prelude\<close>: exceptions as values (\<open>py_error + 'a\<close>, \<open>rbind\<close>), Python indexing and division,
    dictionaries as association lists, and the lemma collections. \<open>Py_Text\<close>: the string methods.
    \<open>Py_Regex\<close>: patterns, searching, replacing, and \<open>splitlines\<close>.
  \<^item> \<open>Config\<close> (\<open>config.py\<close>); \<open>Metrics\<close> and \<open>Exposition\<close> (\<open>metrics.py\<close>, \<open>exposition.py\<close>).
  \<^item> \<open>Requests\<close> and \<open>Dynamic_Batcher\<close> (\<open>scheduler.py\<close>): the record \<open>dynamic_batcher\<close> with one
    definition for each step between two accesses to shared state, and the inductive relation of
    all interleavings of clients, collector and shutdown.
  \<^item> \<open>Block_Allocator\<close> and \<open>KV_Cache\<close> (\<open>kv_cache.py\<close>): the pool of reference-counted blocks and
    the manager; the locale \<open>reference_pool\<close> is what the manager needs of the pool.
  \<^item> \<open>Stepwise\<close> (\<open>stepwise.py\<close>): the state of a sequence, the runner protocol, the echo runner.
    The locale \<open>stepwise_runner\<close> states the contract of the protocol and \<open>serves\<close> says that a
    runner in a given state keeps it; \<open>Stepwise_Transformers\<close> (\<open>stepwise_transformers.py\<close>) is
    the runner over a language model.
  \<^item> \<open>Continuous\<close> (\<open>continuous.py\<close>): the state \<open>continuous_batcher\<close>, one definition for each
    method and for a pass of the loop, and the static baseline. \<open>Sequence_Cache\<close> holds the locale
    of what the scheduler needs of a cache, interpreted by \<open>KV_Cache\<close>'s manager.
  \<^item> \<open>Runners\<close> and \<open>Runner_Setup\<close> (\<open>runners.py\<close>); \<open>Engine\<close> (\<open>engine.py\<close>: futures as cells of a store, and the
    engine over the dynamic batcher) with \<open>Engine_Client\<close> (callers that wait, with the locale
    \<open>answering_engine\<close> of what they rely on); \<open>Continuous_Service\<close> (\<open>continuous_engine.py\<close>);
    \<open>Replicated\<close> (\<open>replicated.py\<close>), which knows its engines only through the locale
    \<open>serving_engine\<close>, interpreted by the continuous engine; \<open>Server\<close> (\<open>server.py\<close>, \<open>schemas.py\<close>); \<open>Cli\<close> and
    \<open>Cli_Bench\<close> (\<open>cli.py\<close>).
  \<^item> \<open>Speculative\<close> (\<open>speculative.py\<close>); \<open>Ops\<close> (\<open>ops.py\<close>).
  \<^item> \<open>Training_Config\<close>, \<open>Training_Data\<close>, \<open>Training\<close>, \<open>Lora\<close> and \<open>Lora_Setup\<close> (\<open>config.py\<close>, \<open>dataset.py\<close>,
    \<open>evaluation.py\<close>, \<open>train.py\<close> and \<open>lora.py\<close> of \<open>src/training\<close>); \<open>Training_Run\<close> puts them together, with
    \<open>examples/fine_tune.py\<close>; \<open>Distributed_Train\<close> (\<open>examples/distributed_train.py\<close>) runs all ranks in step.
  \<^item> \<open>Cuda_Checks\<close> (\<open>scripts/check_cuda_sources.py\<close>); \<open>Transformer_Block\<close>
    (\<open>examples/transformer_block.py\<close>); \<open>Py_Path\<close> (paths and the file system), \<open>Doc_Checks\<close> and
    \<open>Reference_Checks\<close> (\<open>scripts/check_docs.py\<close>, \<open>scripts/check_references.py\<close>);
    \<open>Environment_Report\<close> (\<open>scripts/environment_report.py\<close>); \<open>Kernel_Parity\<close> and
    \<open>Speculative_Example\<close> (\<open>kernel_parity.py\<close>, \<open>speculative_decoding.py\<close> of \<open>src/examples\<close>);
    \<open>Serving_Examples\<close> (\<open>simple_inference.py\<close>, \<open>concurrent_requests.py\<close>, \<open>replicated_serving.py\<close>).

  \<^bold>\<open>What is shown.\<close>

  \<^item> Cache: \<open>KV_Invariant\<close> and \<open>KV_Operations\<close> carry a partition of the blocks through every
    operation; \<open>KV_Properties\<close> states that nothing is lost or shared, that a refused request
    changes nothing, and what a granted one does.
  \<^item> Dynamic batching: an invariant with one conjunct per concern over all interleavings
    (\<open>Batcher_Invariant\<close>), from which follow order, bounds, draining, and the truth of the counters.
  \<^item> Engines: each future is settled once, with an answer of its own request, and none is left
    when shutdown returns (\<open>Engine_Properties\<close>, \<open>Continuous_Service_Properties\<close>); answers come in the
    order of the prompts.
  \<^item> Continuous batching: requests are conserved; a pass returns, restores the invariant and
    shrinks the work that is left (\<open>Continuous_Invariant\<close>, \<open>Continuous_Pass\<close>), so shutdown drains.
    The theorems hold for every runner that \<open>serves\<close>; the echo runner and the transformer runner
    do (\<open>Stepwise\<close>, \<open>Stepwise_Transformers_Properties\<close>), the latter for every configuration whose
    \<open>top_k\<close> the vocabulary covers.
  \<^item> Decoding: batching, joining and eviction do not change a greedy sequence; sampling keeps to
    the filters; speculative decoding gives the target's own tokens, and its acceptance test the
    target's distribution.
  \<^item> Server and command line: what readiness, statuses and configuration mean to a client; the load
    generator accounts for every request.
  \<^item> Operators and training: the error of quantisation; accumulation as large-batch training;
    packing; the merged adapter; the block of custom operators is the plain block, and causal;
    exact kernels pass the parity example, and the speculative example always reports identity;
    the fine-tuning example sees each block once an epoch; data-parallel ranks stay identical and
    train as one process on the joined batches.
  \<^item> Tools: what a report without findings establishes and what it misses, for CUDA sources and
    for documents; where its findings point; which anchors headings get; that the environment
    report lists what the machine can do.

  \<^bold>\<open>Conventions and bounds.\<close> Python integers are \<open>int\<close>, floats are \<open>real\<close>: rounding, NaN and
  infinities are not modelled, except that a masked logit is \<open>None\<close>. Characters have 8 bits.
  Messages of exceptions are not modelled. Time is an argument or a function of the number of
  readings. A repetition of a pattern is bounded by the length of the rest of the text, which it
  cannot exceed because each round consumes a character. The scheduler's loop and the static
  baseline are run for a given number of passes; the termination theorem gives a number that
  suffices: the tokens owed and the items queued. The other loops are total functions with a
  measure: the requests in hand and queued for admission, the tables that hold blocks for
  eviction, the tokens still wanted for speculative decoding, the text left for replacing.

  \<^bold>\<open>Parameters.\<close> Code that is not in the repository is an argument: PyTorch's device and autograd
  answers, the compiled extension, tokenizers and language models, random draws, the order in
  which equal elements are sorted, the file system, the environment, the clock. What a theorem
  needs of them is a named hypothesis (\<open>encodes\<close>, \<open>attends\<close>, \<open>draws_one_each\<close> and the like), and
  the witness beside the theorem instantiates it by a concrete function.

  \<^bold>\<open>Not modelled.\<close> The C++ and CUDA sources and their bindings: another language, of which the
  Python here sees only the record \<open>extension\<close>. Loading models, parsing YAML, writing JSON and
  checkpoint files, log lines and \<open>argparse\<close>: calls of libraries with no logic of the repository.
  Benchmarks: they only time and tabulate what is modelled.
\<close>

end
